(* ===== verification/Prelude.thy ===== *)
theory Prelude
  imports Main "HOL-Library.Char_ord" "HOL-Library.Sublist"
begin

text \<open>
  Shared vocabulary of the development: the collections its components put their rewrite rules
  in, decimal printing (Rust's \<open>format!("{n}")\<close>), byte and slice helpers for UTF-8 text held as
  a list of bytes, the \<open>u32\<close> conversions the compiler uses for offsets and identities, and the
  generic list lemmas the component proofs share.
\<close>

named_theorems frame_simps "what an operation leaves unchanged in the state it is given"
named_theorems progress_intros "an operation moves its cursor forward and stays within its limit"

section \<open>Vectors used as stacks\<close>

text \<open>
  A Rust \<open>Vec\<close> is a list in index order: \<open>push\<close> appends, \<open>pop\<close> removes the last element,
  \<open>last()\<close> is \<open>None\<close> on the empty vector.
\<close>

definition vlast :: "'a list \<Rightarrow> 'a option" where
  "vlast xs = (if xs = [] then None else Some (last xs))"

definition vget :: "'a list \<Rightarrow> nat \<Rightarrow> 'a option" where
  "vget xs i = (if i < length xs then Some (xs ! i) else None)"

lemma vlast_Nil [simp]: "vlast [] = None"
  by (simp add: vlast_def)

lemma vlast_snoc [simp]: "vlast (xs @ [x]) = Some x"
  by (simp add: vlast_def)

lemma vlast_eq_None [simp]: "vlast xs = None \<longleftrightarrow> xs = []"
  by (simp add: vlast_def)

lemma vlast_SomeD: "vlast xs = Some x \<Longrightarrow> xs = butlast xs @ [x]"
  by (auto simp: vlast_def split: if_splits)

lemma vlast_Some_iff: "vlast xs = Some x \<longleftrightarrow> (\<exists>ys. xs = ys @ [x])"
  by (metis vlast_SomeD vlast_snoc)

lemma vlast_map [simp]: "vlast (map f xs) = map_option f (vlast xs)"
  by (simp add: vlast_def last_map)

lemma vget_Some [simp]: "i < length xs \<Longrightarrow> vget xs i = Some (xs ! i)"
  by (simp add: vget_def)

lemma vget_SomeD: "vget xs i = Some x \<Longrightarrow> i < length xs \<and> xs ! i = x"
  by (auto simp: vget_def split: if_splits)

lemma vget_None [simp]: "vget xs i = None \<longleftrightarrow> length xs \<le> i"
  by (simp add: vget_def)

lemma vget_append_left: "vget xs i = Some x \<Longrightarrow> vget (xs @ ys) i = Some x"
  by (auto simp: vget_def nth_append split: if_splits)

section \<open>Identities\<close>

text \<open>A package is identified by a canonical path, here the list of its components.\<close>

type_synonym package_id = "string list"

section \<open>Machine-size conversions\<close>

text \<open>
  Byte offsets are \<open>usize\<close> in the code and stored as \<open>u32\<close>; identities are \<open>u32\<close> indices. They
  are natural numbers here, with the width written out where a conversion takes place.
\<close>

definition u32_max :: nat where
  "u32_max = 4294967295"

text \<open>\<open>u32::try_from(n)\<close>\<close>

definition u32_try_from :: "nat \<Rightarrow> nat option" where
  "u32_try_from n = (if n \<le> u32_max then Some n else None)"

text \<open>\<open>u32::try_from(n).unwrap_or(u32::MAX)\<close>\<close>

definition u32_or_max :: "nat \<Rightarrow> nat" where
  "u32_or_max n = (case u32_try_from n of Some m \<Rightarrow> m | None \<Rightarrow> u32_max)"

text \<open>Comparing with the bound in binary keeps kernel evaluation fast.\<close>

lemma u32_try_from_code [code]: "u32_try_from n = (if int n < 4294967296 then Some n else None)"
  by (simp add: u32_try_from_def u32_max_def)

lemma u32_try_from_Some [simp]: "u32_try_from n = Some m \<longleftrightarrow> n \<le> u32_max \<and> m = n"
  by (auto simp: u32_try_from_def)

lemma u32_try_from_ok [simp]: "n \<le> u32_max \<Longrightarrow> u32_try_from n = Some n"
  by (simp add: u32_try_from_def)

lemma u32_or_max_id [simp]: "n \<le> u32_max \<Longrightarrow> u32_or_max n = n"
  by (simp add: u32_or_max_def u32_try_from_def)

lemma u32_or_max_eq_min: "u32_or_max n = min n u32_max"
  by (auto simp: u32_or_max_def u32_try_from_def)

section \<open>Printing\<close>

definition digit_char :: "nat \<Rightarrow> char" where
  "digit_char d = char_of (48 + d)"

fun show_nat :: "nat \<Rightarrow> string" where
  "show_nat n = (if n < 10 then [digit_char n] else show_nat (n div 10) @ [digit_char (n mod 10)])"

declare show_nat.simps [simp del]

lemma show_nat_not_Nil [simp]: "show_nat n \<noteq> []"
  by (subst show_nat.simps) simp

fun read_digits :: "nat \<Rightarrow> string \<Rightarrow> nat" where
  "read_digits acc [] = acc"
| "read_digits acc (c # cs) = read_digits (10 * acc + (of_char c - 48)) cs"

lemma read_digits_append: "read_digits a (s @ t) = read_digits (read_digits a s) t"
  by (induction a s rule: read_digits.induct) auto

lemma of_digit_char: "d < 10 \<Longrightarrow> (of_char (digit_char d) :: nat) = 48 + d"
  by (simp add: digit_char_def)

lemma read_digits_show_nat: "read_digits 0 (show_nat n) = n"
proof (induction n rule: show_nat.induct)
  case (1 n)
  then show ?case
    by (cases "n < 10") (simp_all add: show_nat.simps [of n] read_digits_append of_digit_char)
qed

lemma show_nat_inject [simp]: "show_nat m = show_nat n \<longleftrightarrow> m = n"
  by (metis read_digits_show_nat)

definition is_digit :: "char \<Rightarrow> bool" where
  "is_digit c \<longleftrightarrow> 48 \<le> (of_char c :: nat) \<and> (of_char c :: nat) \<le> 57"

lemma show_nat_digits: "c \<in> set (show_nat n) \<Longrightarrow> is_digit c"
proof (induction n rule: show_nat.induct)
  case (1 n)
  then show ?case
    by (cases "n < 10") (auto simp: show_nat.simps [of n] is_digit_def of_digit_char)
qed

section \<open>Slices\<close>

text \<open>\<open>&s[a..b]\<close> for a range that lies inside the text\<close>

definition substr :: "'a list \<Rightarrow> nat \<Rightarrow> nat \<Rightarrow> 'a list" where
  "substr xs a b = take (b - a) (drop a xs)"

lemma length_substr [simp]: "b \<le> length xs \<Longrightarrow> length (substr xs a b) = b - a"
  by (simp add: substr_def)

lemma substr_empty [simp]: "substr xs a a = []"
  by (simp add: substr_def)

lemma substr_nth: "a + i < b \<Longrightarrow> b \<le> length xs \<Longrightarrow> substr xs a b ! i = xs ! (a + i)"
  by (simp add: substr_def)

lemma substr_Cons: "a < b \<Longrightarrow> b \<le> length xs \<Longrightarrow> substr xs a b = xs ! a # substr xs (Suc a) b"
  by (simp add: substr_def Cons_nth_drop_Suc [symmetric] take_Cons' Suc_diff_Suc)

lemma substr_append:
  assumes "a \<le> b" "b \<le> c" "c \<le> length xs"
  shows "substr xs a b @ substr xs b c = substr xs a c"
proof -
  have "take (c - a) (drop a xs) = take (b - a) (drop a xs) @ take (c - b) (drop (b - a) (drop a xs))"
    using assms by (metis Nat.add_diff_assoc2 le_add_diff_inverse take_add)
  then show ?thesis using assms by (simp add: substr_def)
qed

lemma substr_not_Nil: "a < b \<Longrightarrow> b \<le> length xs \<Longrightarrow> substr xs a b \<noteq> []"
  by (metis length_substr list.size(3) not_less_iff_gr_or_eq zero_less_diff)

lemma set_substrD: "x \<in> set (substr xs a b) \<Longrightarrow> \<exists>i. a \<le> i \<and> i < b \<and> i < length xs \<and> xs ! i = x"
proof -
  assume "x \<in> set (substr xs a b)"
  then obtain i where "i < length (take (b - a) (drop a xs))" "take (b - a) (drop a xs) ! i = x"
    by (auto simp: substr_def in_set_conv_nth)
  then show ?thesis by (intro exI [of _ "a + i"]) auto
qed

section \<open>Ordered lists\<close>

lemma sorted_wrt_append_bound:
  "sorted_wrt (\<le>) (xs :: nat list) \<Longrightarrow> sorted_wrt (\<le>) ys \<Longrightarrow> (\<And>x y. x \<in> set xs \<Longrightarrow> y \<in> set ys \<Longrightarrow> x \<le> b \<and> b \<le> y)
   \<Longrightarrow> sorted_wrt (\<le>) (xs @ ys)"
  by (fastforce simp: sorted_wrt_append)

section \<open>Threading a state through a list\<close>

text \<open>A closure that mutates its environment, applied to each element in order.\<close>

fun map_state :: "('s \<Rightarrow> 'a \<Rightarrow> ('s \<times> 'b) option) \<Rightarrow> 's \<Rightarrow> 'a list \<Rightarrow> ('s \<times> 'b list) option" where
  "map_state f s [] = Some (s, [])"
| "map_state f s (x # xs) =
     (case f s x of
        None \<Rightarrow> None
      | Some (s', y) \<Rightarrow>
          (case map_state f s' xs of None \<Rightarrow> None | Some (s'', ys) \<Rightarrow> Some (s'', y # ys)))"

lemma map_state_length: "map_state f s xs = Some (s', ys) \<Longrightarrow> length ys = length xs"
  by (induction xs arbitrary: s s' ys) (auto split: option.splits prod.splits)

text \<open>A state invariant and a property of each result, both stable under later steps.\<close>

lemma map_state_total:
  assumes "I s" "R s s"
    and step: "\<And>t x. I t \<Longrightarrow> R s t \<Longrightarrow> x \<in> set xs \<Longrightarrow> \<exists>t' y. f t x = Some (t', y) \<and> I t' \<and> R t t' \<and> Q t' x y"
    and trans: "\<And>a b c. R a b \<Longrightarrow> R b c \<Longrightarrow> R a c"
    and refl: "\<And>a. R a a"
    and stable: "\<And>a b x y. I a \<Longrightarrow> I b \<Longrightarrow> R a b \<Longrightarrow> Q a x y \<Longrightarrow> Q b x y"
  shows "\<exists>s' ys. map_state f s xs = Some (s', ys) \<and> I s' \<and> R s s' \<and> list_all2 (Q s') xs ys"
  using assms(1,2) step
proof (induction xs arbitrary: s)
  case Nil
  then show ?case by simp
next
  case (Cons x xs)
  obtain t y where t: "f s x = Some (t, y)" "I t" "R s t" "Q t x y"
    using Cons.prems(3) [OF Cons.prems(1,2), of x] by (meson list.set_intros(1))
  have "\<exists>s' ys. map_state f t xs = Some (s', ys) \<and> I s' \<and> R t s' \<and> list_all2 (Q s') xs ys"
  proof (rule Cons.IH [OF t(2) refl])
    fix u z assume "I u" "R t u" "z \<in> set xs"
    then show "\<exists>t' y. f u z = Some (t', y) \<and> I t' \<and> R u t' \<and> Q t' z y"
      using Cons.prems(3) [of u z] trans [OF t(3)] by simp
  qed
  then obtain s' ys where s': "map_state f t xs = Some (s', ys)" "I s'" "R t s'" "list_all2 (Q s') xs ys" by blast
  with t trans [OF t(3) s'(3)] stable [OF t(2) s'(2,3) t(4)] show ?case by auto
qed

end
