(* ===== verification/Source_Text.thy ===== *)
theory Source_Text
  imports Prelude
begin

text \<open>
  Source text and positions: \<^verbatim>\<open>src/source.rs\<close>. A Rust \<open>&str\<close> is the list of its UTF-8 bytes
  (Isabelle's \<open>char\<close> is a byte), so every offset of the code is a list index. The first
  section models what the compiler uses of the standard library's UTF-8 handling
  (\<open>char::len_utf8\<close>, \<open>String::push\<close>, \<open>str::chars().next()\<close>); the rest is the source manager
  with its line table.
\<close>

section \<open>UTF-8\<close>

definition char_boundary :: "string \<Rightarrow> nat \<Rightarrow> bool" where
  \<comment> \<open>\<open>str::is_char_boundary\<close>: not in front of a continuation byte\<close>
  "char_boundary s i \<longleftrightarrow>
     i = 0 \<or> i = length s \<or>
     (i < length s \<and> \<not> (128 \<le> (of_char (s ! i) :: nat) \<and> (of_char (s ! i) :: nat) < 192))"

definition is_scalar :: "nat \<Rightarrow> bool" where
  "is_scalar c \<longleftrightarrow> c < 55296 \<or> 57344 \<le> c \<and> c < 1114112"

definition utf8_encode :: "nat \<Rightarrow> string" where
  "utf8_encode c =
     (if c < 128 then [char_of c]
      else if c < 2048 then [char_of (192 + c div 64), char_of (128 + c mod 64)]
      else if c < 65536 then
        [char_of (224 + c div 4096), char_of (128 + c div 64 mod 64), char_of (128 + c mod 64)]
      else
        [char_of (240 + c div 262144), char_of (128 + c div 4096 mod 64),
         char_of (128 + c div 64 mod 64), char_of (128 + c mod 64)])"

definition utf8_width :: "char \<Rightarrow> nat" where
  "utf8_width b =
     (if (of_char b :: nat) < 128 then 1
      else if (of_char b :: nat) < 224 then 2
      else if (of_char b :: nat) < 240 then 3 else 4)"

definition tail_bits :: "string \<Rightarrow> nat \<Rightarrow> nat" where
  "tail_bits s i = (if i < length s then of_char (s ! i) mod 64 else 0)"

text \<open>
  The first character of a non-empty slice and the number of bytes it takes. On a slice that is
  not UTF-8 (which \<open>&str\<close> excludes) the width is cut at the end of the slice; it is at least 1.
\<close>

definition next_char :: "string \<Rightarrow> nat \<times> nat" where
  "next_char s =
     (let b = of_char (hd s); w = utf8_width (hd s) in
      (if w = 1 then b
       else if w = 2 then b mod 32 * 64 + tail_bits s 1
       else if w = 3 then b mod 16 * 4096 + tail_bits s 1 * 64 + tail_bits s 2
       else b mod 8 * 262144 + tail_bits s 1 * 4096 + tail_bits s 2 * 64 + tail_bits s 3,
       max 1 (min w (length s))))"

lemma utf8_width_bounds: "0 < utf8_width b" "utf8_width b \<le> 4"
  by (simp_all add: utf8_width_def)

lemma next_char_width [progress_intros]:
  "0 < snd (next_char s)" "s \<noteq> [] \<Longrightarrow> snd (next_char s) \<le> length s"
  by (simp_all add: next_char_def Let_def Suc_le_eq)

lemma utf8_encode_length: "0 < length (utf8_encode c)" "length (utf8_encode c) \<le> 4"
  by (simp_all add: utf8_encode_def)

lemma of_char_of_byte: "n < 256 \<Longrightarrow> (of_char (char_of n) :: nat) = n"
  by simp

lemma base64_digits3: "(c::nat) div 4096 * 4096 + c div 64 mod 64 * 64 + c mod 64 = c"
proof -
  have "c div 4096 = c div 64 div 64" by (simp add: div_mult2_eq [symmetric])
  then show ?thesis
    using div_mult_mod_eq [of "c div 64" 64] div_mult_mod_eq [of c 64] by linarith
qed

lemma base64_digits4:
  "(c::nat) div 262144 * 262144 + c div 4096 mod 64 * 4096 + c div 64 mod 64 * 64 + c mod 64 = c"
proof -
  have "c div 262144 = c div 4096 div 64" by (simp add: div_mult2_eq [symmetric])
  then have "c div 262144 * 64 + c div 4096 mod 64 = c div 4096"
    using div_mult_mod_eq [of "c div 4096" 64] by simp
  then show ?thesis using base64_digits3 [of c] by linarith
qed

lemma lead_byte_bits:
  "(q :: nat) < 32 \<Longrightarrow> (192 + q) mod 32 = q" "(q :: nat) < 16 \<Longrightarrow> (224 + q) mod 16 = q"
  "(q :: nat) < 8 \<Longrightarrow> (240 + q) mod 8 = q" "(128 + q) mod 64 = q mod 64"
  using mod_mult_self1 [of q 6 32] mod_mult_self1 [of q 14 16] mod_mult_self1 [of q 30 8]
    mod_mult_self1 [of q 2 64]
  by (simp_all add: add.commute)

lemma next_char_encode:
  assumes "is_scalar c"
  shows "next_char (utf8_encode c @ rest) = (c, length (utf8_encode c))"
proof -
  have c: "c < 1114112" using assms by (auto simp: is_scalar_def)
  consider "c < 128" | "128 \<le> c" "c < 2048" | "2048 \<le> c" "c < 65536" | "65536 \<le> c" by linarith
  then show ?thesis
  proof cases
    case 1
    then show ?thesis by (simp add: next_char_def utf8_encode_def utf8_width_def)
  next
    case 2
    then have "c div 64 < 32" by (simp add: less_mult_imp_div_less)
    then show ?thesis using 2 lead_byte_bits(1) [of "c div 64"]
      by (simp add: next_char_def utf8_encode_def utf8_width_def tail_bits_def Let_def lead_byte_bits(4) mod_mod_cancel)
  next
    case 3
    then have "c div 4096 < 16" by (simp add: less_mult_imp_div_less)
    then show ?thesis using 3 lead_byte_bits(2) [of "c div 4096"] base64_digits3 [of c]
      by (simp add: next_char_def utf8_encode_def utf8_width_def tail_bits_def Let_def lead_byte_bits(4) mod_mod_cancel)
  next
    case 4
    with c have "c div 262144 < 8" by (simp add: less_mult_imp_div_less)
    then show ?thesis using 4 lead_byte_bits(3) [of "c div 262144"] base64_digits4 [of c]
      by (simp add: next_char_def utf8_encode_def utf8_width_def tail_bits_def Let_def lead_byte_bits(4) mod_mod_cancel)
  qed
qed

text \<open>\<open>str::chars()\<close>\<close>

function utf8_chars :: "string \<Rightarrow> nat list" where
  "utf8_chars s = (if s = [] then [] else fst (next_char s) # utf8_chars (drop (snd (next_char s)) s))"
  by pat_completeness auto
termination
  by (relation "measure length") (auto intro!: diff_less next_char_width(1))

declare utf8_chars.simps [simp del]

lemma utf8_chars_Nil [simp]: "utf8_chars [] = []"
  by (simp add: utf8_chars.simps)

lemma utf8_chars_encode: "list_all is_scalar cs \<Longrightarrow> utf8_chars (concat (map utf8_encode cs)) = cs"
proof (induction cs)
  case (Cons c cs)
  then show ?case using utf8_encode_length(1) [of c]
    by (subst utf8_chars.simps) (auto simp: next_char_encode)
qed simp

section \<open>Files and spans\<close>

type_synonym file_id = nat

record span =
  span_file :: file_id
  span_start :: nat
  span_end :: nat

definition span_new :: "file_id \<Rightarrow> nat \<Rightarrow> nat \<Rightarrow> span" where
  "span_new f a b = \<lparr>span_file = f, span_start = a, span_end = b\<rparr>"

lemma span_new_sel [simp]:
  "span_file (span_new f a b) = f" "span_start (span_new f a b) = a" "span_end (span_new f a b) = b"
  by (simp_all add: span_new_def)

record line_col =
  lc_line :: nat
  lc_column :: nat

record source_file =
  sf_path :: string
  sf_text :: string
  sf_line_starts :: "nat list"

type_synonym source_manager = "source_file list"

text \<open>The scan of \<open>line_starts\<close>; a start beyond \<open>u32::MAX\<close> panics (\<open>None\<close>).\<close>

fun line_starts_from :: "nat \<Rightarrow> string \<Rightarrow> nat list option" where
  "line_starts_from off [] = Some []"
| "line_starts_from off (b # bs) =
     (if b = CHR 0x0A then
        (case u32_try_from (off + 1) of
           None \<Rightarrow> None
         | Some s \<Rightarrow> map_option ((#) s) (line_starts_from (off + 1) bs))
      else line_starts_from (off + 1) bs)"

definition line_starts :: "string \<Rightarrow> nat list option" where
  "line_starts text = map_option ((#) 0) (line_starts_from 0 text)"

definition add_text :: "source_manager \<Rightarrow> string \<Rightarrow> string \<Rightarrow> (source_manager \<times> file_id) option" where
  "add_text m path text =
     (case line_starts text of
        None \<Rightarrow> None
      | Some starts \<Rightarrow>
          (let m' = m @ [\<lparr>sf_path = path, sf_text = text, sf_line_starts = starts\<rparr>] in
           map_option (Pair m') (u32_try_from (length m' - 1))))"

definition sm_path :: "source_manager \<Rightarrow> file_id \<Rightarrow> string option" where
  "sm_path m f = map_option sf_path (vget m f)"

definition sm_text :: "source_manager \<Rightarrow> file_id \<Rightarrow> string option" where
  "sm_text m f = map_option sf_text (vget m f)"

definition sm_files :: "source_manager \<Rightarrow> (file_id \<times> string) list" where
  "sm_files m = zip [0..<length m] (map sf_path m)"

definition snippet :: "source_manager \<Rightarrow> span \<Rightarrow> string option" where
  "snippet m sp =
     (case sm_text m (span_file sp) of
        None \<Rightarrow> None
      | Some text \<Rightarrow>
          if span_start sp \<le> span_end sp \<and> span_end sp \<le> length text
            \<and> char_boundary text (span_start sp) \<and> char_boundary text (span_end sp)
          then Some (substr text (span_start sp) (span_end sp)) else None)"

text \<open>\<open>slice::binary_search\<close> on a strictly increasing vector: \<open>Inr\<close> is \<open>Ok\<close>, \<open>Inl\<close> is \<open>Err\<close>.\<close>

definition binary_search :: "nat list \<Rightarrow> nat \<Rightarrow> nat + nat" where
  "binary_search xs x =
     (let i = length (takeWhile (\<lambda>y. y < x) xs) in
      if i < length xs \<and> xs ! i = x then Inr i else Inl i)"

definition line_col_of :: "source_manager \<Rightarrow> file_id \<Rightarrow> nat \<Rightarrow> line_col option" where
  "line_col_of m f off =
     (case vget m f of
        None \<Rightarrow> None
      | Some file \<Rightarrow>
          (let starts = sf_line_starts file;
               line_index = (case binary_search starts off of
                               Inr exact \<Rightarrow> Some exact
                             | Inl insert_at \<Rightarrow> if insert_at = 0 then None else Some (insert_at - 1)) in
           case line_index of
             None \<Rightarrow> None
           | Some i \<Rightarrow>
               (case (vget starts i, u32_try_from (i + 1)) of
                  (Some line_start, Some line) \<Rightarrow>
                    map_option (\<lambda>column. \<lparr>lc_line = line, lc_column = column\<rparr>)
                      (u32_try_from (off - line_start + 1))
                | _ \<Rightarrow> None)))"

datatype files_error = LineTooLarge nat nat

definition line_index :: "source_manager \<Rightarrow> file_id \<Rightarrow> nat \<Rightarrow> nat option" where
  "line_index m f byte_index =
     map_option (\<lambda>lc. lc_line lc - 1) (line_col_of m f (u32_or_max byte_index))"

definition line_range :: "source_manager \<Rightarrow> file_id \<Rightarrow> nat \<Rightarrow> (files_error + nat \<times> nat) option" where
  "line_range m f i =
     (case vget m f of
        None \<Rightarrow> None
      | Some file \<Rightarrow> Some
          (case vget (sf_line_starts file) i of
             None \<Rightarrow> Inl (LineTooLarge i (length (sf_line_starts file) - 1))
           | Some start \<Rightarrow>
               Inr (start, case vget (sf_line_starts file) (i + 1) of
                             None \<Rightarrow> length (sf_text file)
                           | Some following \<Rightarrow> following)))"

section \<open>The line table\<close>

text \<open>
  What the line table means: the starts are 0 and the offset after each newline byte, in order.
  The specification below counts newlines directly.
\<close>

definition newlines_before :: "string \<Rightarrow> nat \<Rightarrow> nat" where
  "newlines_before text off = length (filter (\<lambda>b. b = CHR 0x0A) (take off text))"

definition column_of :: "string \<Rightarrow> nat \<Rightarrow> nat" where
  "column_of text off = length (takeWhile (\<lambda>b. b \<noteq> CHR 0x0A) (rev (take off text)))"

definition starts_of :: "nat \<Rightarrow> string \<Rightarrow> nat list" where
  "starts_of off text = map (\<lambda>i. off + i + 1) (filter (\<lambda>i. text ! i = CHR 0x0A) [0..<length text])"

lemma filter_upt_Cons:
  "filter (\<lambda>i. P ((b # bs) ! i)) [0..<length (b # bs)]
   = (if P b then [0] else []) @ map Suc (filter (\<lambda>i. P (bs ! i)) [0..<length bs])"
proof -
  have "[0..<length (b # bs)] = 0 # map Suc [0..<length bs]"
    by (simp add: map_Suc_upt upt_conv_Cons del: upt_Suc)
  then show ?thesis by (simp add: filter_map comp_def)
qed

lemma starts_of_Cons:
  "starts_of off (b # bs) = (if b = CHR 0x0A then [off + 1] else []) @ starts_of (off + 1) bs"
  unfolding starts_of_def using filter_upt_Cons [of "\<lambda>c. c = CHR 0x0A" b bs] by simp

lemma starts_of_Nil [simp]: "starts_of off [] = []"
  by (simp add: starts_of_def)

lemma line_starts_from_eq:
  "off + length text \<le> u32_max \<Longrightarrow> line_starts_from off text = Some (starts_of off text)"
  by (induction off "text" rule: line_starts_from.induct) (auto simp: starts_of_Cons u32_try_from_def)

lemma line_starts_eq: "length text \<le> u32_max \<Longrightarrow> line_starts text = Some (0 # starts_of 0 text)"
  by (simp add: line_starts_def line_starts_from_eq)

lemma sorted_starts_of: "sorted_wrt (<) (0 # starts_of 0 text)"
  by (auto simp: starts_of_def sorted_wrt_map intro: sorted_wrt_filter)

lemma filter_lt_starts:
  "off \<le> length text \<Longrightarrow>
   length (filter (\<lambda>s. s \<le> off) (starts_of 0 text)) = newlines_before text off"
proof -
  assume off: "off \<le> length text"
  have "filter (\<lambda>i. i + 1 \<le> off) (filter (\<lambda>i. text ! i = CHR 0x0A) [0..<length text])
      = filter (\<lambda>i. text ! i = CHR 0x0A) (filter (\<lambda>i. i < off) [0..<length text])"
    by (simp add: conj_commute Suc_le_eq)
  also have "filter (\<lambda>i. i < off) [0..<length text] = [0..<off]"
  proof -
    have "[0..<length text] = [0..<off] @ [off..<length text]" using off upt_add_eq_append [of 0 off "length text - off"] by simp
    then show ?thesis by simp
  qed
  finally have eq: "filter (\<lambda>i. i + 1 \<le> off) (filter (\<lambda>i. text ! i = CHR 0x0A) [0..<length text])
      = filter (\<lambda>i. text ! i = CHR 0x0A) [0..<off]" .
  have "length (filter (\<lambda>i. text ! i = CHR 0x0A) [0..<off]) = newlines_before text off"
    unfolding newlines_before_def length_filter_conv_card using off
    by (intro arg_cong [of _ _ card]) auto
  then show ?thesis by (simp add: starts_of_def filter_map comp_def eq [simplified])
qed

lemma starts_nth_newline:
  assumes "off < length text" "text ! off = CHR 0x0A"
  shows "starts_of 0 text ! newlines_before text off = off + 1"
    and "newlines_before text off < length (starts_of 0 text)"
proof -
  let ?P = "\<lambda>i. text ! i = CHR 0x0A"
  have split: "[0..<length text] = [0..<off] @ off # [Suc off..<length text]"
    using assms(1) upt_add_eq_append [of 0 off "length text - off"] by (simp add: upt_conv_Cons)
  have len: "length (filter ?P [0..<off]) = newlines_before text off"
    unfolding newlines_before_def length_filter_conv_card using assms(1)
    by (intro arg_cong [of _ _ card]) auto
  have eq: "starts_of 0 text
      = map Suc (filter ?P [0..<off]) @ (off + 1) # map Suc (filter ?P [Suc off..<length text])"
    unfolding starts_of_def using assms(2) by (subst split) simp
  show "starts_of 0 text ! newlines_before text off = off + 1"
    unfolding eq by (metis len length_map nth_append_length)
  show "newlines_before text off < length (starts_of 0 text)"
    unfolding eq by (simp add: len)
qed

lemma newlines_before_Suc:
  "off < length text \<Longrightarrow>
   newlines_before text (Suc off) = newlines_before text off + (if text ! off = CHR 0x0A then 1 else 0)"
  by (simp add: newlines_before_def take_Suc_conv_app_nth)

lemma column_of_Suc:
  "off < length text \<Longrightarrow>
   column_of text (Suc off) = (if text ! off = CHR 0x0A then 0 else Suc (column_of text off))"
  by (simp add: column_of_def take_Suc_conv_app_nth)

lemma column_of_le: "off \<le> length text \<Longrightarrow> column_of text off \<le> off"
  unfolding column_of_def by (metis length_rev length_take length_takeWhile_le min.absorb2)

lemma line_start_nth:
  "off \<le> length text \<Longrightarrow>
   (0 # starts_of 0 text) ! newlines_before text off = off - column_of text off
   \<and> newlines_before text off < length (0 # starts_of 0 text)"
proof (induction off)
  case 0
  then show ?case by (simp add: newlines_before_def)
next
  case (Suc off)
  then show ?case
    using starts_nth_newline [of off "text"]
    by (cases "text ! off = CHR 0x0A") (auto simp: newlines_before_Suc column_of_Suc)
qed

lemma takeWhile_less_sorted:
  "sorted_wrt (<) xs \<Longrightarrow> length (takeWhile (\<lambda>y. y < x) xs) = length (filter (\<lambda>y. y < x) (xs :: nat list))"
proof (induction xs)
  case (Cons a xs)
  then show ?case
    by (auto simp: filter_empty_conv dest: order.strict_trans)
qed simp

lemma filter_le_split:
  fixes xs :: "nat list"
  assumes "distinct xs"
  shows "length (filter (\<lambda>y. y \<le> x) xs) = length (filter (\<lambda>y. y < x) xs) + (if x \<in> set xs then 1 else 0)"
  using assms by (induction xs) (auto simp: order.order_iff_strict)

lemma nth_takeWhile_sorted:
  assumes "sorted_wrt (<) (xs :: nat list)" "x \<in> set xs"
  shows "length (takeWhile (\<lambda>y. y < x) xs) < length xs \<and> xs ! length (takeWhile (\<lambda>y. y < x) xs) = x"
proof -
  from assms(2) obtain as bs where xs: "xs = as @ x # bs" by (meson split_list)
  with assms(1) have "\<forall>y\<in>set as. y < x" by (simp add: sorted_wrt_append)
  then have "takeWhile (\<lambda>y. y < x) xs = as" by (simp add: xs takeWhile_append2)
  then show ?thesis by (simp add: xs)
qed

text \<open>On a strictly increasing vector that starts at 0, the search selects the last start not after the key.\<close>

lemma binary_search_last_le:
  assumes "sorted_wrt (<) (0 # xs)"
  shows "(case binary_search (0 # xs) x of Inr i \<Rightarrow> Some i | Inl j \<Rightarrow> if j = 0 then None else Some (j - 1))
         = Some (length (filter (\<lambda>s. s \<le> x) xs))"
proof -
  let ?ys = "0 # xs"
  let ?n = "length (takeWhile (\<lambda>y. y < x) ?ys)"
  have d: "distinct ?ys" using assms unfolding strict_sorted_iff by blast
  have le: "length (filter (\<lambda>s. s \<le> x) ?ys) = Suc (length (filter (\<lambda>s. s \<le> x) xs))" by simp
  have n: "?n = length (filter (\<lambda>y. y < x) ?ys)" using assms by (rule takeWhile_less_sorted)
  show ?thesis
  proof (cases "x \<in> set ?ys")
    case True
    then show ?thesis
      using nth_takeWhile_sorted [OF assms True] filter_le_split [OF d, of x] n le
      by (simp add: binary_search_def Let_def)
  next
    case False
    then have "\<not> (?n < length ?ys \<and> ?ys ! ?n = x)" by (metis nth_mem)
    moreover have "0 < x" using False by simp
    ultimately show ?thesis
      using filter_le_split [OF d, of x] n le False
      by (auto simp: binary_search_def Let_def)
  qed
qed

text \<open>The manager's invariant: each file carries the line table of its text.\<close>

definition sm_inv :: "source_manager \<Rightarrow> bool" where
  "sm_inv m \<longleftrightarrow> (\<forall>f\<in>set m. line_starts (sf_text f) = Some (sf_line_starts f) \<and> length (sf_text f) < u32_max)"

lemma sm_inv_file:
  assumes "sm_inv m" "vget m f = Some file"
  shows "sf_line_starts file = 0 # starts_of 0 (sf_text file)" "length (sf_text file) < u32_max"
proof -
  from assms(2) have "file \<in> set m" by (metis nth_mem vget_SomeD)
  with assms(1) have "line_starts (sf_text file) = Some (sf_line_starts file)" "length (sf_text file) < u32_max"
    by (auto simp: sm_inv_def)
  then show "sf_line_starts file = 0 # starts_of 0 (sf_text file)" "length (sf_text file) < u32_max"
    by (simp_all add: line_starts_eq)
qed

lemma sm_inv_Nil [simp]: "sm_inv []"
  by (simp add: sm_inv_def)

lemma add_text_inv:
  "sm_inv m \<Longrightarrow> length text < u32_max \<Longrightarrow> add_text m path text = Some (m', f) \<Longrightarrow> sm_inv m'"
  by (auto simp: add_text_def sm_inv_def split: option.splits)

lemma line_col_of_spec:
  assumes "sm_inv m" "vget m f = Some file" "off \<le> length (sf_text file)"
  shows "line_col_of m f off
         = Some \<lparr>lc_line = newlines_before (sf_text file) off + 1, lc_column = column_of (sf_text file) off + 1\<rparr>"
proof -
  let ?t = "sf_text file" and ?n = "newlines_before (sf_text file) off"
  note starts = sm_inv_file(1) [OF assms(1,2)] and small = sm_inv_file(2) [OF assms(1,2)]
  have n: "?n \<le> off" using assms(3) unfolding newlines_before_def
    by (metis length_filter_le length_take min.absorb2)
  have idx: "(case binary_search (0 # starts_of 0 ?t) off of
                Inr i \<Rightarrow> Some i | Inl j \<Rightarrow> if j = 0 then None else Some (j - 1)) = Some ?n"
    using binary_search_last_le [OF sorted_starts_of] filter_lt_starts [OF assms(3)] by simp
  have nth: "(0 # starts_of 0 ?t) ! ?n = off - column_of ?t off" "?n < length (0 # starts_of 0 ?t)"
    using line_start_nth [OF assms(3)] by auto
  have col: "off - (off - column_of ?t off) = column_of ?t off" "column_of ?t off + 1 \<le> u32_max"
    using column_of_le [OF assms(3)] assms(3) small by auto
  have "u32_try_from (?n + 1) = Some (?n + 1)" "u32_try_from (column_of ?t off + 1) = Some (column_of ?t off + 1)"
    using n assms(3) small col(2) by auto
  then show ?thesis
    unfolding line_col_of_def assms(2) option.case Let_def starts idx
    by (simp add: nth vget_Some [OF nth(2)] col(1) del: nth_Cons_Suc vget_Some length_Cons)
qed

end
