(* ===== verification/Tokens.thy ===== *)
theory Tokens
  imports Source_Text
begin

text \<open>
  Tokens (\<^verbatim>\<open>src/syntax.rs\<close>) and identifiers (\<^verbatim>\<open>src/ident.rs\<close>). The constructors are the source's;
  a Rust variant whose name is a Rust keyword or clashes across enums carries a prefix
  (\<open>KwFn\<close>, \<open>TextSegment\<close>).
\<close>

section \<open>Tokens\<close>

datatype (plugins only: code size) keyword =
    KwAs | KwAttr | KwBreak | KwContinue | KwDefer | KwDerive | KwElse | KwEnum | KwExpect
  | KwFalse | KwFn | KwFor | KwIf | KwImpl | KwIn | KwLet | KwMacro | KwMatch | KwMod | KwNull
  | KwPass | KwPub | KwQuote | KwReturn | KwRoot | KwSelfValue | KwSelfType | KwStruct | KwSuper
  | KwTest | KwTrait | KwTrue | KwType | KwUnsafe | KwUse | KwVar | KwWhile

datatype (plugins only: code size) numeric_suffix =
    I8 | I16 | I32 | I64 | I128 | Isize | U8 | U16 | U32 | U64 | U128 | Usize | F32 | F64

datatype (plugins only: code size) token_kind =
    Identifier string
  | Keyword keyword
  | IntegerLiteral (il_raw: string) (il_radix: nat) (il_suffix: "numeric_suffix option")
  | FloatLiteral (fl_raw: string) (fl_suffix: "numeric_suffix option")
  | StringLiteral string
  | CharacterLiteral string
  | FormattedString "formatted_segment list"
  | DocComment string
  | Newline | Indent | Dedent | Eof
  | LParen | RParen | LBracket | RBracket | LBrace | RBrace
  | Comma | Semicolon | Colon | Dot | DotDot | Ellipsis | At | Dollar | Question | Arrow
  | Assign | Plus | PlusPlus | Minus | Star | Slash | Percent | Amp | Pipe | Caret | Tilde | Bang
  | Shl | Shr | EqEq | NotEq | Less | LessEq | Greater | GreaterEq | AndAnd | OrOr
  | PlusAssign | MinusAssign | StarAssign | SlashAssign | PercentAssign | AmpAssign
  | PipeAssign | CaretAssign | ShlAssign | ShrAssign
and token = Token (token_kind: token_kind) (token_span: span)
and formatted_segment =
    FormattedSegment (segment_kind: formatted_segment_kind) (segment_span: span)
and formatted_segment_kind =
    TextSegment string
  | ExpressionSegment (expression_source: string) (expression_tokens: "token list")

section \<open>Identifiers\<close>

definition is_upper :: "char \<Rightarrow> bool" where
  "is_upper c \<longleftrightarrow> 65 \<le> (of_char c :: nat) \<and> (of_char c :: nat) \<le> 90"

definition is_lower :: "char \<Rightarrow> bool" where
  "is_lower c \<longleftrightarrow> 97 \<le> (of_char c :: nat) \<and> (of_char c :: nat) \<le> 122"

definition is_alphabetic :: "char \<Rightarrow> bool" where
  "is_alphabetic c \<longleftrightarrow> is_upper c \<or> is_lower c"

definition is_alphanumeric :: "char \<Rightarrow> bool" where
  "is_alphanumeric c \<longleftrightarrow> is_alphabetic c \<or> is_digit c"

definition is_hexdigit :: "char \<Rightarrow> bool" where
  "is_hexdigit c \<longleftrightarrow>
     is_digit c \<or> 97 \<le> (of_char c :: nat) \<and> (of_char c :: nat) \<le> 102
     \<or> 65 \<le> (of_char c :: nat) \<and> (of_char c :: nat) \<le> 70"

text \<open>
  \<open>is_valid_identifier\<close> inspects characters; every test is of an ASCII class, which no byte of a
  longer UTF-8 sequence satisfies, so inspecting bytes gives the same answer.
\<close>

definition is_valid_identifier :: "string \<Rightarrow> bool" where
  "is_valid_identifier s =
     (case s of
        [] \<Rightarrow> False
      | c # cs \<Rightarrow> (is_alphabetic c \<or> c = CHR ''_'') \<and> list_all (\<lambda>d. is_alphanumeric d \<or> d = CHR ''_'') cs)"

lemma is_valid_identifier_Cons:
  "is_valid_identifier (c # cs) \<longleftrightarrow>
     (is_alphabetic c \<or> c = CHR ''_'') \<and> (\<forall>d\<in>set cs. is_alphanumeric d \<or> d = CHR ''_'')"
  by (simp add: is_valid_identifier_def list_all_iff)

end
