(* ===== verification/Syntax_Tree.thy ===== *)
theory Syntax_Tree
  imports Tokens
begin

text \<open>
  Syntax nodes and their structural traversal: the second half of \<^verbatim>\<open>src/syntax.rs\<close>. The kinds
  carry the prefix \<open>Sk\<close>. \<open>dump\<close>, which prints nodes with Rust's derived \<open>Debug\<close>, is not modelled.
\<close>

section \<open>Syntax nodes\<close>

datatype (plugins only: code size) syntax_kind =
    SkFile | SkError | SkDocumentation | SkAttribute
  | SkModule | SkUse | SkMacroDeclaration | SkAttributeDeclaration | SkDeriveDeclaration
  | SkTypeAlias | SkStruct | SkEnum | SkTrait | SkImpl | SkFunction | SkTest | SkForeignType
  | SkField | SkEnumVariant | SkGenericParameters | SkGenericParameter | SkDeriveList
  | SkParameters | SkParameter | SkType | SkTypeArguments | SkBlock
  | SkLetStatement | SkAssignmentStatement | SkExpressionStatement | SkReturnStatement
  | SkBreakStatement | SkContinueStatement | SkPassStatement | SkDeferStatement | SkIfStatement
  | SkElseClause | SkMatchStatement | SkMatchArm | SkForStatement | SkWhileStatement
  | SkUnsafeBlock | SkExpectStatement
  | SkPattern | SkAlternativePattern | SkDereferencePattern | SkTuplePattern | SkRecordPattern
  | SkVariantPattern | SkPatternField | SkGuard
  | SkNameExpression | SkLiteralExpression | SkFormattedStringExpression | SkUnaryExpression
  | SkBinaryExpression | SkCastExpression | SkCallExpression | SkMemberExpression
  | SkTupleFieldExpression | SkBracketExpression | SkTryExpression | SkParenthesizedExpression
  | SkTupleExpression | SkArrayExpression | SkMacroExpression | SkRecordExpression
  | SkRecordField | SkClosureCaptureList | SkClosureCapture | SkClosureExpression
  | SkQuoteExpression | SkQuoteBody | SkQuoteInterpolation

datatype (plugins only: code size) syntax_element =
    NodeElement syntax_node
  | TokenElement token
and syntax_node =
    SyntaxNode (node_kind: syntax_kind) (node_span: span) (node_children: "syntax_element list")

definition element_span :: "syntax_element \<Rightarrow> span" where
  "element_span e = (case e of NodeElement n \<Rightarrow> node_span n | TokenElement t \<Rightarrow> token_span t)"

definition syntax_node_new :: "syntax_kind \<Rightarrow> syntax_element list \<Rightarrow> span \<Rightarrow> syntax_node" where
  "syntax_node_new k cs fallback =
     SyntaxNode k
       (case cs of
          [] \<Rightarrow> fallback
        | c # _ \<Rightarrow>
            (let first = element_span c; final = element_span (last cs) in
             if span_file first = span_file final \<and> span_start first \<le> span_end final
             then span_new (span_file first) (span_start first) (span_end final)
             else fallback))
       cs"

definition direct_tokens :: "syntax_node \<Rightarrow> token list" where
  "direct_tokens n =
     List.map_filter (\<lambda>e. case e of TokenElement t \<Rightarrow> Some t | NodeElement _ \<Rightarrow> None) (node_children n)"

definition direct_nodes :: "syntax_node \<Rightarrow> syntax_node list" where
  "direct_nodes n =
     List.map_filter (\<lambda>e. case e of NodeElement m \<Rightarrow> Some m | TokenElement _ \<Rightarrow> None) (node_children n)"

definition direct_children :: "syntax_node \<Rightarrow> syntax_kind \<Rightarrow> syntax_node list" where
  "direct_children n k = filter (\<lambda>c. node_kind c = k) (direct_nodes n)"

definition direct_child :: "syntax_node \<Rightarrow> syntax_kind \<Rightarrow> syntax_node option" where
  "direct_child n k = List.find (\<lambda>c. node_kind c = k) (direct_nodes n)"

definition direct_child_not :: "syntax_node \<Rightarrow> syntax_kind \<Rightarrow> syntax_node option" where
  "direct_child_not n k = List.find (\<lambda>c. node_kind c \<noteq> k) (direct_nodes n)"

fun count_kind :: "syntax_kind \<Rightarrow> syntax_node \<Rightarrow> nat"
  and count_kind_element :: "syntax_kind \<Rightarrow> syntax_element \<Rightarrow> nat" where
  "count_kind k (SyntaxNode k' _ cs) =
     (if k' = k then 1 else 0) + sum_list (map (count_kind_element k) cs)"
| "count_kind_element k (NodeElement n) = count_kind k n"
| "count_kind_element k (TokenElement _) = 0"

definition is_path_token :: "token \<Rightarrow> bool" where
  "is_path_token t =
     (case token_kind t of
        Identifier _ \<Rightarrow> True
      | Keyword k \<Rightarrow> k \<in> {KwRoot, KwSelfValue, KwSelfType, KwSuper}
      | _ \<Rightarrow> False)"

definition direct_path_span :: "syntax_node \<Rightarrow> span option" where
  "direct_path_span n =
     (case filter is_path_token (direct_tokens n) of
        [] \<Rightarrow> None
      | first # rest \<Rightarrow>
          Some (span_new (span_file (token_span first)) (span_start (token_span first))
                         (span_end (token_span (last (first # rest))))))"

lemma direct_child_Some:
  "direct_child n k = Some c \<Longrightarrow> c \<in> set (direct_children n k)"
  by (auto simp: direct_child_def direct_children_def find_Some_iff in_set_conv_nth)

end
