(* ===== verification/Resources.thy ===== *)
theory Resources
  imports Prelude
begin

text \<open>
  The compile-time resource limits and the per-execution meter of \<^verbatim>\<open>src/expansion/scheduler.rs\<close>.
  A meter is charged by the interpreter; \<open>u64\<close> sums are checked as the code checks them.
\<close>

definition u64_max :: nat where
  "u64_max = 18446744073709551615"

text \<open>\<open>u64::checked_add\<close>\<close>

definition u64_checked_add :: "nat \<Rightarrow> nat \<Rightarrow> nat option" where
  "u64_checked_add a b = (if a + b \<le> u64_max then Some (a + b) else None)"

lemma u64_checked_add_code [code]:
  "u64_checked_add a b = (if int (a + b) \<le> 18446744073709551615 then Some (a + b) else None)"
  by (simp add: u64_checked_add_def u64_max_def)

record expansion_limits =
  lim_active_depth :: nat
  lim_executions :: nat
  lim_generated_nodes :: nat
  lim_interpreter_steps :: nat
  lim_live_value_bytes :: nat

definition default_limits :: expansion_limits where
  "default_limits =
     \<lparr>lim_active_depth = 128, lim_executions = 65536, lim_generated_nodes = 1048576,
      lim_interpreter_steps = 1048576, lim_live_value_bytes = 64 * 1024 * 1024\<rparr>"

datatype resource_limit_kind =
  ActiveDepth | Executions | GeneratedNodes | InterpreterSteps | LiveValueBytes

record execution_resource_usage =
  interpreter_steps :: nat
  live_value_bytes :: nat
  peak_live_value_bytes :: nat

record execution_resources =
  step_limit :: nat
  live_value_limit :: nat
  er_usage :: execution_resource_usage
  exhausted :: "resource_limit_kind option"

definition resources_new :: "expansion_limits \<Rightarrow> execution_resources" where
  "resources_new lim =
     \<lparr>step_limit = lim_interpreter_steps lim, live_value_limit = lim_live_value_bytes lim,
      er_usage = \<lparr>interpreter_steps = 0, live_value_bytes = 0, peak_live_value_bytes = 0\<rparr>,
      exhausted = None\<rparr>"

definition exhaust :: "resource_limit_kind \<Rightarrow> execution_resources \<Rightarrow> execution_resources \<times> (resource_limit_kind + unit)" where
  "exhaust k r =
     (r\<lparr>exhausted := (case exhausted r of None \<Rightarrow> Some k | Some j \<Rightarrow> Some j)\<rparr>, Inl k)"

definition charge_steps :: "nat \<Rightarrow> execution_resources \<Rightarrow> execution_resources \<times> (resource_limit_kind + unit)" where
  "charge_steps n r =
     (case u64_checked_add (interpreter_steps (er_usage r)) n of
        None \<Rightarrow> exhaust InterpreterSteps r
      | Some new \<Rightarrow>
          if step_limit r < new then exhaust InterpreterSteps r
          else (r\<lparr>er_usage := (er_usage r)\<lparr>interpreter_steps := new\<rparr>\<rparr>, Inr ()))"

definition allocate_live_value_bytes ::
  "nat \<Rightarrow> execution_resources \<Rightarrow> execution_resources \<times> (resource_limit_kind + unit)" where
  "allocate_live_value_bytes n r =
     (case u64_checked_add (live_value_bytes (er_usage r)) n of
        None \<Rightarrow> exhaust LiveValueBytes r
      | Some new \<Rightarrow>
          if live_value_limit r < new then exhaust LiveValueBytes r
          else (r\<lparr>er_usage := (er_usage r)\<lparr>live_value_bytes := new,
                    peak_live_value_bytes := max (peak_live_value_bytes (er_usage r)) new\<rparr>\<rparr>, Inr ()))"

text \<open>\<open>None\<close> is the \<open>expect\<close> that more is released than is live.\<close>

definition release_live_value_bytes :: "nat \<Rightarrow> execution_resources \<Rightarrow> execution_resources option" where
  "release_live_value_bytes n r =
     (if n \<le> live_value_bytes (er_usage r)
      then Some (r\<lparr>er_usage := (er_usage r)\<lparr>live_value_bytes := live_value_bytes (er_usage r) - n\<rparr>\<rparr>)
      else None)"

section \<open>What a body can do to its meter\<close>

inductive meter_step :: "execution_resources \<Rightarrow> execution_resources \<Rightarrow> bool" where
  charge: "charge_steps n r = (r', res) \<Longrightarrow> meter_step r r'"
| allocate: "allocate_live_value_bytes n r = (r', res) \<Longrightarrow> meter_step r r'"
| release: "release_live_value_bytes n r = Some r' \<Longrightarrow> meter_step r r'"

inductive_cases meter_stepE: "meter_step r r'"

definition meter_ok :: "execution_resources \<Rightarrow> bool" where
  "meter_ok r \<longleftrightarrow>
     interpreter_steps (er_usage r) \<le> step_limit r
     \<and> live_value_bytes (er_usage r) \<le> peak_live_value_bytes (er_usage r)
     \<and> peak_live_value_bytes (er_usage r) \<le> live_value_limit r"

lemma meter_step_ok: "meter_step r r' \<Longrightarrow> meter_ok r \<Longrightarrow> meter_ok r'"
  by (erule meter_stepE)
    (auto simp: charge_steps_def allocate_live_value_bytes_def release_live_value_bytes_def exhaust_def
      meter_ok_def split: option.splits if_splits)

lemma meter_step_limits: "meter_step r r' \<Longrightarrow> step_limit r' = step_limit r \<and> live_value_limit r' = live_value_limit r"
  by (erule meter_stepE)
    (auto simp: charge_steps_def allocate_live_value_bytes_def release_live_value_bytes_def exhaust_def
      split: option.splits if_splits)

lemma meter_step_sticky: "meter_step r r' \<Longrightarrow> exhausted r = Some k \<Longrightarrow> exhausted r' = Some k"
  by (erule meter_stepE)
    (auto simp: charge_steps_def allocate_live_value_bytes_def release_live_value_bytes_def exhaust_def
      split: option.splits if_splits)

text \<open>
  Whatever sequence of charges, allocations and releases a compile-time body makes, its meter
  stays within the limits it was created with, and the peak covers what is live.
\<close>

theorem meter_within_limits:
  assumes "meter_step\<^sup>*\<^sup>* (resources_new lim) r"
  shows "interpreter_steps (er_usage r) \<le> lim_interpreter_steps lim
     \<and> live_value_bytes (er_usage r) \<le> peak_live_value_bytes (er_usage r)
     \<and> peak_live_value_bytes (er_usage r) \<le> lim_live_value_bytes lim"
proof -
  have "meter_ok r \<and> step_limit r = lim_interpreter_steps lim \<and> live_value_limit r = lim_live_value_bytes lim"
    using assms
  proof (induction rule: rtranclp_induct)
    case base
    show ?case by (simp add: meter_ok_def resources_new_def)
  next
    case (step a b)
    then show ?case using meter_step_ok [of a b] meter_step_limits [of a b] by simp
  qed
  then show ?thesis by (simp add: meter_ok_def)
qed

text \<open>
  A failed charge cannot be undone: once a charge was refused, the meter names the first
  refused limit for good.
\<close>

theorem meter_exhaustion_sticky:
  assumes "charge_steps n r = (r0, Inl k) \<or> allocate_live_value_bytes n r = (r0, Inl k)" "meter_step\<^sup>*\<^sup>* r0 r'"
  shows "exhausted r' = Some (case exhausted r of None \<Rightarrow> k | Some j \<Rightarrow> j)"
proof -
  have first: "exhausted r0 = Some (case exhausted r of None \<Rightarrow> k | Some j \<Rightarrow> j)"
    using assms(1)
    by (auto simp: charge_steps_def allocate_live_value_bytes_def exhaust_def split: option.splits if_splits)
  show ?thesis
    using assms(2) first by (induction rule: rtranclp_induct) (auto intro: meter_step_sticky)
qed

definition tiny_limits :: expansion_limits where
  "tiny_limits =
     \<lparr>lim_active_depth = 2, lim_executions = 3, lim_generated_nodes = 4, lim_interpreter_steps = 5,
      lim_live_value_bytes = 6\<rparr>"

lemma meter_within_limits_witness:
  "interpreter_steps (er_usage (fst (charge_steps 4 (resources_new tiny_limits)))) \<le> 5"
proof -
  have "meter_step (resources_new tiny_limits) (fst (charge_steps 4 (resources_new tiny_limits)))"
    by (rule meter_step.charge [of 4 _ _ "snd (charge_steps 4 (resources_new tiny_limits))"]) simp
  from meter_within_limits [OF r_into_rtranclp, of tiny_limits, OF this] show ?thesis
    by (simp add: tiny_limits_def)
qed

lemma meter_exhaustion_sticky_witness:
  "exhausted (fst (charge_steps 7 (resources_new tiny_limits))) = Some InterpreterSteps"
proof -
  have "charge_steps 7 (resources_new tiny_limits) = (fst (charge_steps 7 (resources_new tiny_limits)), Inl InterpreterSteps)"
    by code_simp
  from meter_exhaustion_sticky [OF disjI1 [OF this] rtranclp.rtrancl_refl] show ?thesis
    by (simp add: resources_new_def)
qed

end
