(* ===== verification/Provenance.thy ===== *)
theory Provenance
  imports Source_Text
begin

text \<open>
  Token origins and expansions: \<^verbatim>\<open>src/expansion/provenance.rs\<close>. The table is append-only; a
  registration that the code aborts (\<open>expect\<close>, \<open>assert!\<close>, an index out of range) returns \<open>None\<close>
  here. The two loops of \<open>trace\<close> have no bound of their own, so they are partial functions;
  that they return on every table the registrations can build is a theorem.
\<close>

section \<open>Data\<close>

type_synonym expansion_id = nat
type_synonym origin_id = nat

record origin_range =
  or_first :: origin_id
  or_last :: origin_id

definition origin_range_new :: "origin_id \<Rightarrow> origin_id \<Rightarrow> origin_range" where
  "origin_range_new a b = \<lparr>or_first = a, or_last = b\<rparr>"

datatype generated_source = Definition origin_id | Invocation origin_id

fun gs_origin :: "generated_source \<Rightarrow> origin_id" where
  "gs_origin (Definition i) = i"
| "gs_origin (Invocation i) = i"

datatype origin =
    Physical span
  | Generated (gen_expansion: expansion_id) (gen_output_index: nat) (gen_source: generated_source)

record expansion =
  ex_id :: expansion_id
  ex_invocation :: origin_id
  ex_definition :: origin_id
  ex_parent :: "expansion_id option"

record expansion_trace_frame =
  tf_expansion :: expansion_id
  tf_invocation :: origin_id
  tf_definition :: origin_id

record origin_trace =
  ot_origin :: origin_id
  ot_source_chain :: "origin_id list"
  ot_expansions :: "expansion_trace_frame list"

record provenance_table =
  pt_origins :: "origin list"
  pt_expansions :: "expansion list"
  next_output_indices :: "nat list"

definition provenance_new :: provenance_table where
  "provenance_new = \<lparr>pt_origins = [], pt_expansions = [], next_output_indices = []\<rparr>"

section \<open>Registration\<close>

definition register_physical :: "provenance_table \<Rightarrow> span \<Rightarrow> (provenance_table \<times> origin_id) option" where
  "register_physical t sp =
     (case u32_try_from (length (pt_origins t)) of
        None \<Rightarrow> None
      | Some i \<Rightarrow> Some (t\<lparr>pt_origins := pt_origins t @ [Physical sp]\<rparr>, i))"

fun position :: "('a \<Rightarrow> bool) \<Rightarrow> 'a list \<Rightarrow> nat option" where
  "position p [] = None"
| "position p (x # xs) = (if p x then Some 0 else map_option Suc (position p xs))"

definition origin_for_physical :: "provenance_table \<Rightarrow> span \<Rightarrow> origin_id option" where
  "origin_for_physical t sp =
     map_option (\<lambda>i. i mod 2 ^ 32)
       (position (\<lambda>o'. case o' of Physical found \<Rightarrow> found = sp | Generated e i s \<Rightarrow> False) (pt_origins t))"

definition origin_at :: "provenance_table \<Rightarrow> origin_id \<Rightarrow> origin option" where
  "origin_at t i = vget (pt_origins t) i"

definition expansion_at :: "provenance_table \<Rightarrow> expansion_id \<Rightarrow> expansion option" where
  "expansion_at t i = vget (pt_expansions t) i"

text \<open>The expansion that emitted an origin.\<close>

definition emitting_expansion :: "origin \<Rightarrow> expansion_id option" where
  "emitting_expansion o' = (case o' of Physical sp \<Rightarrow> None | Generated e i s \<Rightarrow> Some e)"

definition register_expansion ::
  "provenance_table \<Rightarrow> origin_id \<times> origin_id \<Rightarrow> (provenance_table \<times> expansion_id) option" where
  "register_expansion t = (\<lambda>(invocation, defn).
     (if invocation < length (pt_origins t) \<and> defn < length (pt_origins t) then
        (case origin_at t invocation of
           None \<Rightarrow> None
         | Some o' \<Rightarrow>
             (case u32_try_from (length (pt_expansions t)) of
                None \<Rightarrow> None
              | Some i \<Rightarrow>
                  Some (t\<lparr>pt_expansions := pt_expansions t @
                            [\<lparr>ex_id = i, ex_invocation = invocation, ex_definition = defn,
                              ex_parent = emitting_expansion o'\<rparr>],
                          next_output_indices := next_output_indices t @ [0]\<rparr>, i)))
      else None))"

definition register_generated ::
  "provenance_table \<Rightarrow> expansion_id \<times> generated_source \<Rightarrow> (provenance_table \<times> origin_id) option" where
  "register_generated t = (\<lambda>(e, src).
     (if e < length (pt_expansions t) \<and> gs_origin src < length (pt_origins t) then
        (case vget (next_output_indices t) e of
           None \<Rightarrow> None
         | Some output_index \<Rightarrow>
             (case u32_try_from (output_index + 1) of
                None \<Rightarrow> None
              | Some n \<Rightarrow>
                  (case u32_try_from (length (pt_origins t)) of
                     None \<Rightarrow> None
                   | Some i \<Rightarrow>
                       Some (t\<lparr>next_output_indices := (next_output_indices t)[e := n],
                               pt_origins := pt_origins t @ [Generated e output_index src]\<rparr>, i))))
      else None))"

section \<open>Queries\<close>

definition physical_span :: "provenance_table \<Rightarrow> origin_id \<Rightarrow> span option option" where
  \<comment> \<open>the outer option is the panic of an identity outside the table\<close>
  "physical_span t i =
     map_option (\<lambda>o'. case o' of Physical sp \<Rightarrow> Some sp | Generated e k s \<Rightarrow> None) (origin_at t i)"

definition physical_range :: "provenance_table \<Rightarrow> origin_range \<Rightarrow> span option option" where
  "physical_range t r =
     (case physical_span t (or_first r) of
        None \<Rightarrow> None
      | Some None \<Rightarrow> Some None
      | Some (Some first) \<Rightarrow>
          (case physical_span t (or_last r) of
             None \<Rightarrow> None
           | Some None \<Rightarrow> Some None
           | Some (Some last') \<Rightarrow>
               Some (if span_file first = span_file last' \<and> span_start first \<le> span_end last'
                     then Some (span_new (span_file first) (span_start first) (span_end last'))
                     else None)))"

partial_function (option) source_chain :: "provenance_table \<Rightarrow> origin_id \<Rightarrow> origin_id list option" where
  "source_chain t i =
     (case origin_at t i of
        None \<Rightarrow> None
      | Some (Physical sp) \<Rightarrow> Some [i]
      | Some (Generated e k src) \<Rightarrow>
          Option.bind (source_chain t (gs_origin src)) (\<lambda>chain. Some (i # chain)))"

partial_function (option) expansion_chain ::
  "provenance_table \<Rightarrow> expansion_id option \<Rightarrow> expansion_trace_frame list option" where
  "expansion_chain t e =
     (case e of
        None \<Rightarrow> Some []
      | Some i \<Rightarrow>
          (case expansion_at t i of
             None \<Rightarrow> None
           | Some r \<Rightarrow>
               Option.bind (expansion_chain t (ex_parent r))
                 (\<lambda>fs. Some (\<lparr>tf_expansion = i, tf_invocation = ex_invocation r,
                              tf_definition = ex_definition r\<rparr> # fs))))"

definition trace :: "provenance_table \<Rightarrow> origin_id \<Rightarrow> origin_trace option" where
  "trace t i =
     (case origin_at t i of
        None \<Rightarrow> None
      | Some o' \<Rightarrow>
          (case source_chain t i of
             None \<Rightarrow> None
           | Some sc \<Rightarrow>
               (case expansion_chain t (emitting_expansion o') of
                  None \<Rightarrow> None
                | Some es \<Rightarrow> Some \<lparr>ot_origin = i, ot_source_chain = sc, ot_expansions = es\<rparr>)))"

section \<open>Append-only registries\<close>

text \<open>
  What a client of a registry relies on: a registration returns the index of a new last entry and
  leaves every earlier entry where it was.
\<close>

locale append_only =
  fixes register :: "'s \<Rightarrow> 'a \<Rightarrow> ('s \<times> nat) option"
    and entries :: "'s \<Rightarrow> 'e list"
  assumes register_fresh: "register s x = Some (s', i) \<Longrightarrow> i = length (entries s)"
    and register_appends: "register s x = Some (s', i) \<Longrightarrow> \<exists>e. entries s' = entries s @ [e]"
begin

fun register_all :: "'s \<Rightarrow> 'a list \<Rightarrow> ('s \<times> nat list) option" where
  "register_all s [] = Some (s, [])"
| "register_all s (x # xs) =
     (case register s x of
        None \<Rightarrow> None
      | Some (s', i) \<Rightarrow> map_option (\<lambda>(s'', is). (s'', i # is)) (register_all s' xs))"

lemma entry_stable:
  assumes "register s x = Some (s', i)" "vget (entries s) j = Some e"
  shows "vget (entries s') j = Some e"
  using register_appends [OF assms(1)] vget_append_left [OF assms(2)] by auto

lemma register_all_ids:
  "register_all s xs = Some (s', is) \<Longrightarrow> is = [length (entries s) ..< length (entries s) + length xs]"
proof (induction xs arbitrary: s "is")
  case (Cons x xs)
  then obtain s1 i js where r: "register s x = Some (s1, i)" "register_all s1 xs = Some (s', js)" "is = i # js"
    by (auto split: option.splits)
  have "length (entries s1) = Suc (length (entries s))" using register_appends [OF r(1)] by auto
  with Cons.IH [OF r(2)] register_fresh [OF r(1)] r(3) show ?case
    by (simp add: upt_conv_Cons del: upt_Suc)
qed simp

lemma register_all_prefix:
  "register_all s xs = Some (s', is) \<Longrightarrow> \<exists>es. entries s' = entries s @ es \<and> length es = length xs"
proof (induction xs arbitrary: s "is")
  case (Cons x xs)
  then obtain s1 i js where r: "register s x = Some (s1, i)" "register_all s1 xs = Some (s', js)"
    by (auto split: option.splits)
  with Cons.IH [OF r(2)] register_appends [OF r(1)] show ?case by auto
qed simp

lemma register_all_stable:
  "register_all s xs = Some (s', is) \<Longrightarrow> vget (entries s) j = Some e \<Longrightarrow> vget (entries s') j = Some e"
  using register_all_prefix vget_append_left by fastforce

lemma register_all_distinct: "register_all s xs = Some (s', is) \<Longrightarrow> distinct is"
  by (metis distinct_upt register_all_ids)

end

interpretation physical_registry: append_only register_physical pt_origins
  by unfold_locales (auto simp: register_physical_def split: option.splits)

interpretation generated_registry: append_only register_generated pt_origins
  by unfold_locales (auto simp: register_generated_def split: option.splits if_splits)

interpretation expansion_registry: append_only register_expansion pt_expansions
  by unfold_locales (auto simp: register_expansion_def split: option.splits if_splits)

section \<open>The invariant of the table\<close>

definition origin_ok :: "provenance_table \<Rightarrow> nat \<Rightarrow> bool" where
  "origin_ok t i \<longleftrightarrow>
     (case pt_origins t ! i of
        Physical sp \<Rightarrow> True
      | Generated e k src \<Rightarrow>
          gs_origin src < i \<and> e < length (pt_expansions t) \<and> k < next_output_indices t ! e)"

definition expansion_ok :: "provenance_table \<Rightarrow> nat \<Rightarrow> bool" where
  "expansion_ok t i \<longleftrightarrow>
     (let r = pt_expansions t ! i in
      ex_id r = i \<and> ex_invocation r < length (pt_origins t) \<and> ex_definition r < length (pt_origins t)
      \<and> ex_parent r = emitting_expansion (pt_origins t ! ex_invocation r)
      \<and> (case ex_parent r of None \<Rightarrow> True | Some p \<Rightarrow> p < i))"

definition outputs_distinct :: "origin list \<Rightarrow> bool" where
  "outputs_distinct os \<longleftrightarrow>
     (\<forall>i j e k s s'. i < length os \<longrightarrow> j < length os \<longrightarrow> os ! i = Generated e k s \<longrightarrow>
        os ! j = Generated e k s' \<longrightarrow> i = j)"

definition provenance_inv :: "provenance_table \<Rightarrow> bool" where
  "provenance_inv t \<longleftrightarrow>
     (\<forall>i<length (pt_origins t). origin_ok t i)
     \<and> (\<forall>i<length (pt_expansions t). expansion_ok t i)
     \<and> length (next_output_indices t) = length (pt_expansions t)
     \<and> outputs_distinct (pt_origins t)"

inductive provenance_step :: "provenance_table \<Rightarrow> provenance_table \<Rightarrow> bool" where
  physical: "register_physical t sp = Some (t', i) \<Longrightarrow> provenance_step t t'"
| expansion: "register_expansion t (a, b) = Some (t', i) \<Longrightarrow> provenance_step t t'"
| generated: "register_generated t (e, src) = Some (t', i) \<Longrightarrow> provenance_step t t'"

inductive_cases provenance_stepE: "provenance_step t t'"

inductive provenance_reachable :: "provenance_table \<Rightarrow> bool" where
  start: "provenance_reachable provenance_new"
| step: "provenance_reachable t \<Longrightarrow> provenance_step t t' \<Longrightarrow> provenance_reachable t'"

lemma provenance_inv_new: "provenance_inv provenance_new"
  by (simp add: provenance_inv_def provenance_new_def outputs_distinct_def)

lemma register_physical_inv:
  assumes "provenance_inv t" "register_physical t sp = Some (t', i)"
  shows "provenance_inv t'"
proof -
  have t': "t' = t\<lparr>pt_origins := pt_origins t @ [Physical sp]\<rparr>"
    using assms(2) by (auto simp: register_physical_def split: option.splits)
  have "origin_ok t' j" if "j < length (pt_origins t')" for j
    using that assms(1) by (auto simp: t' provenance_inv_def origin_ok_def nth_append split: origin.split)
  moreover have "expansion_ok t' j" if "j < length (pt_expansions t')" for j
    using that assms(1) by (auto simp: t' provenance_inv_def expansion_ok_def Let_def nth_append less_Suc_eq)
  moreover have "outputs_distinct (pt_origins t')"
    using assms(1) by (auto simp: t' provenance_inv_def outputs_distinct_def nth_append split: if_splits)
  ultimately show ?thesis using assms(1) by (simp add: provenance_inv_def t')
qed

lemma register_expansion_inv:
  assumes "provenance_inv t" "register_expansion t (a, b) = Some (t', i)"
  shows "provenance_inv t'"
proof -
  let ?r = "\<lparr>ex_id = length (pt_expansions t), ex_invocation = a, ex_definition = b,
             ex_parent = emitting_expansion (pt_origins t ! a)\<rparr>"
  have t': "t' = t\<lparr>pt_expansions := pt_expansions t @ [?r], next_output_indices := next_output_indices t @ [0]\<rparr>"
    and ab: "a < length (pt_origins t)" "b < length (pt_origins t)"
    using assms(2) by (auto simp: register_expansion_def origin_at_def split: option.splits if_splits)
  have lens: "length (next_output_indices t) = length (pt_expansions t)"
    using assms(1) by (simp add: provenance_inv_def)
  have "origin_ok t' j" if "j < length (pt_origins t')" for j
    using that assms(1) lens by (auto simp: t' provenance_inv_def origin_ok_def nth_append split: origin.splits)
  moreover have "case emitting_expansion (pt_origins t ! a) of None \<Rightarrow> True | Some p \<Rightarrow> p < length (pt_expansions t)"
    using assms(1) ab by (auto simp: provenance_inv_def origin_ok_def emitting_expansion_def split: origin.splits)
  then have "expansion_ok t' j" if "j < length (pt_expansions t')" for j
    using that assms(1) ab by (auto simp: t' provenance_inv_def expansion_ok_def Let_def nth_append less_Suc_eq)
  ultimately show ?thesis using assms(1) by (simp add: provenance_inv_def t')
qed

lemma register_generated_inv:
  assumes "provenance_inv t" "register_generated t (e, src) = Some (t', i)"
  shows "provenance_inv t'"
proof -
  let ?k = "next_output_indices t ! e"
  have lens: "length (next_output_indices t) = length (pt_expansions t)"
    using assms(1) by (simp add: provenance_inv_def)
  have e: "e < length (pt_expansions t)" "gs_origin src < length (pt_origins t)"
    using assms(2) by (auto simp: register_generated_def split: if_splits)
  have t': "t' = t\<lparr>next_output_indices := (next_output_indices t)[e := ?k + 1],
                   pt_origins := pt_origins t @ [Generated e ?k src]\<rparr>"
    using assms(2) e lens by (auto simp: register_generated_def split: option.splits if_splits)
  have fresh: "k < ?k" if "j < length (pt_origins t)" "pt_origins t ! j = Generated e k s" for j k s
    using that assms(1) by (auto simp: provenance_inv_def origin_ok_def)
  have "origin_ok t' j" if "j < length (pt_origins t')" for j
    using that assms(1) e lens
    by (auto simp: t' provenance_inv_def origin_ok_def nth_append nth_list_update less_Suc_eq
        split: origin.splits)
  moreover have "expansion_ok t' j" if "j < length (pt_expansions t')" for j
    using that assms(1) by (auto simp: t' provenance_inv_def expansion_ok_def Let_def nth_append less_Suc_eq)
  moreover have "outputs_distinct (pt_origins t')"
    using assms(1) fresh
    by (auto simp: t' provenance_inv_def outputs_distinct_def nth_append less_Suc_eq split: if_splits)
  ultimately show ?thesis using assms(1) by (simp add: provenance_inv_def t')
qed

lemma provenance_step_inv: "provenance_step t t' \<Longrightarrow> provenance_inv t \<Longrightarrow> provenance_inv t'"
  by (erule provenance_stepE)
    (auto intro: register_physical_inv register_expansion_inv register_generated_inv)

lemma provenance_reachable_inv: "provenance_reachable t \<Longrightarrow> provenance_inv t"
  by (induction rule: provenance_reachable.induct) (auto intro: provenance_inv_new provenance_step_inv)

lemma provenance_step_extends:
  "provenance_step t t' \<Longrightarrow> prefix (pt_origins t) (pt_origins t') \<and> prefix (pt_expansions t) (pt_expansions t')"
  by (erule provenance_stepE)
    (auto simp: register_physical_def register_expansion_def register_generated_def
      split: option.splits if_splits)

section \<open>Traces\<close>

text \<open>What the two chains are: each token was copied from the next; each expansion was invoked by a token that the next
  one emitted, up to an invocation in the physical text.\<close>

definition copied_from :: "provenance_table \<Rightarrow> origin_id \<Rightarrow> origin_id \<Rightarrow> bool" where
  "copied_from t i j \<longleftrightarrow> (\<exists>e k src. origin_at t i = Some (Generated e k src) \<and> gs_origin src = j)"

fun encloses :: "provenance_table \<Rightarrow> origin_id \<Rightarrow> expansion_trace_frame list \<Rightarrow> bool" where
  "encloses t i [] \<longleftrightarrow> (\<exists>sp. origin_at t i = Some (Physical sp))"
| "encloses t i (f # fs) \<longleftrightarrow>
     (\<exists>k src. origin_at t i = Some (Generated (tf_expansion f) k src))
     \<and> (\<exists>r. expansion_at t (tf_expansion f) = Some r \<and> tf_invocation f = ex_invocation r \<and> tf_definition f = ex_definition r)
     \<and> encloses t (tf_invocation f) fs"

lemma source_chain_total:
  assumes "provenance_inv t" "i < length (pt_origins t)"
  shows "\<exists>c sp. source_chain t i = Some c \<and> hd c = i \<and> sorted_wrt (>) c \<and> c \<noteq> []
           \<and> (\<forall>j\<in>set c. j \<le> i) \<and> successively (copied_from t) c \<and> origin_at t (last c) = Some (Physical sp)"
  using assms(2)
proof (induction i rule: less_induct)
  case (less i)
  show ?case
  proof (cases "pt_origins t ! i")
    case (Physical sp)
    then have "source_chain t i = Some [i]"
      using less.prems by (subst source_chain.simps) (simp add: origin_at_def)
    then show ?thesis using Physical less.prems by (auto simp: origin_at_def)
  next
    case (Generated e k src)
    then have lt: "gs_origin src < i"
      using assms(1) less.prems by (auto simp: provenance_inv_def origin_ok_def)
    then obtain c sp where c: "source_chain t (gs_origin src) = Some c" "hd c = gs_origin src" "sorted_wrt (>) c"
      "c \<noteq> []" "\<forall>j\<in>set c. j \<le> gs_origin src" "successively (copied_from t) c" "origin_at t (last c) = Some (Physical sp)"
      using less.IH [OF lt] less.prems by auto
    have "source_chain t i = Some (i # c)"
      using Generated less.prems c(1) by (subst source_chain.simps) (simp add: origin_at_def)
    moreover have "copied_from t i (hd c)" using Generated less.prems c(2) by (simp add: copied_from_def origin_at_def)
    ultimately show ?thesis using c lt by (fastforce simp: successively_Cons)
  qed
qed

lemma expansion_chain_total:
  assumes "provenance_inv t" "i < length (pt_origins t)"
  shows "\<exists>fs. expansion_chain t (emitting_expansion (pt_origins t ! i)) = Some fs \<and> sorted_wrt (>) (map tf_expansion fs)
           \<and> (\<forall>f\<in>set fs. \<exists>e. emitting_expansion (pt_origins t ! i) = Some e \<and> tf_expansion f \<le> e) \<and> encloses t i fs"
  using assms(2)
proof (induction "case emitting_expansion (pt_origins t ! i) of None \<Rightarrow> 0 | Some e \<Rightarrow> e + 1" arbitrary: i rule: less_induct)
  case less
  have at: "origin_at t i = Some (pt_origins t ! i)" using less.prems by (simp add: origin_at_def)
  show ?case
  proof (cases "pt_origins t ! i")
    case (Physical sp)
    then show ?thesis using at by (subst expansion_chain.simps) (simp add: emitting_expansion_def)
  next
    case (Generated e k src)
    then have e: "e < length (pt_expansions t)"
      using assms(1) less.prems by (auto simp: provenance_inv_def origin_ok_def)
    define r where "r = pt_expansions t ! e"
    have ok: "ex_invocation r < length (pt_origins t)" "ex_parent r = emitting_expansion (pt_origins t ! ex_invocation r)"
      and lt: "case ex_parent r of None \<Rightarrow> True | Some p \<Rightarrow> p < e"
      using assms(1) e unfolding provenance_inv_def expansion_ok_def Let_def r_def by blast+
    have em: "emitting_expansion (pt_origins t ! i) = Some e" using Generated by (simp add: emitting_expansion_def)
    obtain fs where fs: "expansion_chain t (ex_parent r) = Some fs" "sorted_wrt (>) (map tf_expansion fs)"
      "\<forall>f\<in>set fs. \<exists>p. ex_parent r = Some p \<and> tf_expansion f \<le> p" "encloses t (ex_invocation r) fs"
      using less.hyps [of "ex_invocation r"] ok lt em by (force split: option.splits)
    have "\<forall>f\<in>set fs. tf_expansion f < e" using fs(3) lt by fastforce
    moreover have "expansion_at t e = Some r" using e by (simp add: expansion_at_def r_def)
    moreover from this have "expansion_chain t (Some e) =
        Some (\<lparr>tf_expansion = e, tf_invocation = ex_invocation r, tf_definition = ex_definition r\<rparr> # fs)"
      using fs(1) by (subst expansion_chain.simps) simp
    ultimately show ?thesis using fs(2,4) em at Generated by (auto simp: less_imp_le)
  qed
qed

text \<open>
  C11: On every table built by the registrations, tracing a token returns. The source chain starts at the token, each of
  its tokens was copied from the next, and the last is physical. The frames are the expansions that enclose the token,
  innermost first: the first one emitted the token, each was invoked by a token that the next one emitted, and the last was
  invoked by a physical token. Both go strictly back in registration order, so neither loop can run forever.
\<close>

theorem trace_returns:
  assumes "provenance_reachable t" "i < length (pt_origins t)"
  shows "\<exists>r sp. trace t i = Some r \<and> ot_origin r = i \<and> ot_source_chain r \<noteq> [] \<and> hd (ot_source_chain r) = i
           \<and> successively (copied_from t) (ot_source_chain r) \<and> sorted_wrt (>) (ot_source_chain r)
           \<and> origin_at t (last (ot_source_chain r)) = Some (Physical sp)
           \<and> encloses t i (ot_expansions r) \<and> sorted_wrt (>) (map tf_expansion (ot_expansions r))"
proof -
  have inv: "provenance_inv t" by (rule provenance_reachable_inv [OF assms(1)])
  obtain c sp where c: "source_chain t i = Some c" "hd c = i" "sorted_wrt (>) c" "successively (copied_from t) c" "c \<noteq> []"
    "origin_at t (last c) = Some (Physical sp)"
    using source_chain_total [OF inv assms(2)] by blast
  have at: "origin_at t i = Some (pt_origins t ! i)" using assms(2) by (simp add: origin_at_def)
  obtain fs where "expansion_chain t (emitting_expansion (pt_origins t ! i)) = Some fs"
    "sorted_wrt (>) (map tf_expansion fs)" "encloses t i fs"
    using expansion_chain_total [OF inv assms(2)] by blast
  then show ?thesis using c at by (auto simp: trace_def)
qed

text \<open>
  C13: Registration never invalidates an identity: whatever is registered later, every origin keeps its index and its
  record, and so does every expansion.
\<close>

theorem provenance_ids_stable:
  assumes "provenance_step\<^sup>*\<^sup>* t t'"
  shows "(origin_at t i = Some o' \<longrightarrow> origin_at t' i = Some o') \<and> (expansion_at t e = Some r \<longrightarrow> expansion_at t' e = Some r)"
  using assms
proof (induction rule: rtranclp_induct)
  case (step u v)
  with provenance_step_extends [OF step.hyps(2)] show ?case
    by (auto simp: origin_at_def expansion_at_def prefix_def dest: vget_append_left)
qed simp

text \<open>
  C12: An expansion and an output index name one generated token: no two origins of a reachable
  table share them.
\<close>

theorem generated_outputs_unique:
  assumes "provenance_reachable t" "origin_at t i = Some (Generated e k s)" "origin_at t j = Some (Generated e k s')"
  shows "i = j"
  using provenance_reachable_inv [OF assms(1)] assms(2,3)
  by (auto simp: provenance_inv_def outputs_distinct_def origin_at_def dest!: vget_SomeD)

definition sample_table :: provenance_table where
  "sample_table =
     \<lparr>pt_origins = [Physical (span_new 0 0 5), Generated 0 0 (Definition 0)],
      pt_expansions = [\<lparr>ex_id = 0, ex_invocation = 0, ex_definition = 0, ex_parent = None\<rparr>],
      next_output_indices = [1]\<rparr>"

definition sample_expanded :: provenance_table where
  "sample_expanded =
     \<lparr>pt_origins = [Physical (span_new 0 0 5)],
      pt_expansions = [\<lparr>ex_id = 0, ex_invocation = 0, ex_definition = 0, ex_parent = None\<rparr>],
      next_output_indices = [0]\<rparr>"

lemma sample_expanded_reachable: "provenance_reachable sample_expanded"
proof -
  let ?a = "\<lparr>pt_origins = [Physical (span_new 0 0 5)], pt_expansions = [], next_output_indices = []\<rparr>"
  have a: "register_physical provenance_new (span_new 0 0 5) = Some (?a, 0)"
    by (simp add: register_physical_def provenance_new_def u32_try_from_def)
  have b: "register_expansion ?a (0, 0) = Some (sample_expanded, 0)"
    by (simp add: register_expansion_def sample_expanded_def origin_at_def emitting_expansion_def u32_try_from_def)
  show ?thesis by (rule step [OF step [OF start physical [OF a]] expansion [OF b]])
qed

lemma sample_step: "provenance_step sample_expanded sample_table"
proof (rule generated)
  show "register_generated sample_expanded (0, Definition 0) = Some (sample_table, 1)"
    by (simp add: register_generated_def sample_expanded_def sample_table_def u32_try_from_def u32_max_def)
qed

lemma sample_table_reachable: "provenance_reachable sample_table"
  by (rule step [OF sample_expanded_reachable sample_step])

lemma trace_returns_witness:
  "\<exists>r. trace sample_table 1 = Some r \<and> ot_origin r = 1 \<and> ot_source_chain r \<noteq> [] \<and> ot_expansions r \<noteq> []"
proof -
  from trace_returns [OF sample_table_reachable, of 1] obtain r where
    r: "trace sample_table 1 = Some r" "ot_origin r = 1" "encloses sample_table 1 (ot_expansions r)"
      "ot_source_chain r \<noteq> []"
    by (auto simp: sample_table_def)
  have "ot_expansions r \<noteq> []" using r(3) by (auto simp: sample_table_def origin_at_def)
  then show ?thesis using r by blast
qed

lemma provenance_ids_stable_witness:
  "origin_at sample_table 0 = Some (Physical (span_new 0 0 5)) \<and> sample_table \<noteq> sample_expanded"
  using provenance_ids_stable [OF r_into_rtranclp, OF sample_step, of 0 "Physical (span_new 0 0 5)"]
  by (simp add: sample_expanded_def sample_table_def origin_at_def)

lemma generated_outputs_unique_witness: "(1::nat) = 1 \<and> origin_at sample_table 1 = Some (Generated 0 0 (Definition 0))"
  using generated_outputs_unique [OF sample_table_reachable, of 1 0 0 "Definition 0" 1 "Definition 0"]
  by (simp add: sample_table_def origin_at_def)

end
