(* ===== verification/Diagnostics.thy ===== *)
theory Diagnostics
  imports Source_Text
begin

text \<open>
  Compiler diagnostics: \<^verbatim>\<open>src/diagnostics.rs\<close>. A category whose Rust name is also the name of
  another type of the development carries the prefix \<open>Cat\<close>.
\<close>



datatype (plugins only: code size) category =
    ManifestInvalid | ModuleDiscoveryInvalid | PackageGraphInvalid
  | LexicalIndentation | LexicalDelimiter | LexicalLiteral | LexicalCharacter
  | CatSyntax | Formatting | ExperimentalFeature | CompileTime | DeclarationConflict
  | NameResolution | CatVisibility | TypeSystem | LiteralType | ExpressionType | CatCall
  | Construction | Place | Ownership | CatBorrow | Containment | CatPattern | ControlFlow
  | UnsafeContext | PointerValidity | Lowering | CodeGeneration | Toolchain

record diagnostic =
  category :: category
  message :: string
  primary :: "span option"
  related :: "(span \<times> string) list"

definition diagnostic_new :: "category \<Rightarrow> string \<Rightarrow> diagnostic" where
  "diagnostic_new c m = \<lparr>category = c, message = m, primary = None, related = []\<rparr>"

definition with_primary :: "diagnostic \<Rightarrow> span \<Rightarrow> diagnostic" where
  "with_primary d sp = d\<lparr>primary := Some sp\<rparr>"

definition with_related :: "diagnostic \<Rightarrow> span \<Rightarrow> string \<Rightarrow> diagnostic" where
  "with_related d sp m = d\<lparr>related := related d @ [(sp, m)]\<rparr>"

lemma category_builders [simp]:
  "category (diagnostic_new c m) = c"
  "category (with_primary d sp) = category d"
  "category (with_related d sp m) = category d"
  by (simp_all add: diagnostic_new_def with_primary_def with_related_def)

end
