(* ===== verification/Lexer_State.thy ===== *)
theory Lexer_State
  imports Tokens Diagnostics
begin

text \<open>
  The lexer's state and its leaf scanners (\<^verbatim>\<open>src/lexer.rs\<close>): one record for \<open>struct Lexer\<close>, the
  operations that emit tokens and report errors, and the routines that read an identifier, a
  number, an escape or a quoted literal from a line. A method \<open>fn f(&mut self, ..) -> usize\<close> is a
  function from the state to the new state and the cursor it returns.
\<close>

section \<open>State\<close>

datatype delimiter = Parenthesis | Bracket | Brace

definition closing_name :: "delimiter \<Rightarrow> string" where
  "closing_name d = (case d of Parenthesis \<Rightarrow> ''`)`'' | Bracket \<Rightarrow> ''`]`'' | Brace \<Rightarrow> ''`}`'')"

record open_delimiter =
  od_kind :: delimiter
  od_span :: span

record pending_newline =
  pn_statement_base :: nat
  pn_span :: span

record grouped_layout_block =
  gl_delimiter_depth :: nat
  gl_base_indent :: nat

record lexer =
  lx_file :: file_id
  lx_source :: string
  lx_tokens :: "token list"
  lx_diagnostics :: "diagnostic list"
  block_indents :: "nat list"
  delimiters :: "open_delimiter list"
  pending_newline :: "pending_newline option"
  active_statement_base :: "nat option"
  expected_block_base :: "nat option"
  grouped_layout_blocks :: "grouped_layout_block list"

definition lexer_new :: "file_id \<Rightarrow> string \<Rightarrow> lexer" where
  "lexer_new file src =
     \<lparr>lx_file = file, lx_source = src, lx_tokens = [], lx_diagnostics = [], block_indents = [0],
      delimiters = [], pending_newline = None, active_statement_base = None,
      expected_block_base = None, grouped_layout_blocks = []\<rparr>"

definition lx_span :: "lexer \<Rightarrow> nat \<Rightarrow> nat \<Rightarrow> span" where
  "lx_span lx a b = span_new (lx_file lx) (u32_or_max a) (u32_or_max b)"

definition emit :: "token_kind \<Rightarrow> nat \<Rightarrow> nat \<Rightarrow> lexer \<Rightarrow> lexer" where
  "emit k a b lx = lx\<lparr>lx_tokens := lx_tokens lx @ [Token k (lx_span lx a b)]\<rparr>"

definition push_diagnostic :: "diagnostic \<Rightarrow> lexer \<Rightarrow> lexer" where
  "push_diagnostic d lx = lx\<lparr>lx_diagnostics := lx_diagnostics lx @ [d]\<rparr>"

definition lex_error :: "category \<Rightarrow> nat \<Rightarrow> nat \<Rightarrow> string \<Rightarrow> lexer \<Rightarrow> lexer" where
  "lex_error c a b m lx = push_diagnostic (with_primary (diagnostic_new c m) (lx_span lx a b)) lx"

text \<open>The byte at an offset; every use is guarded by a bound in the code.\<close>

definition byte_at :: "lexer \<Rightarrow> nat \<Rightarrow> char" where
  "byte_at lx i = lx_source lx ! i"

section \<open>Character classes and keywords\<close>

function scan_while :: "string \<Rightarrow> nat \<Rightarrow> nat \<Rightarrow> (char \<Rightarrow> bool) \<Rightarrow> nat" where
  "scan_while src pos limit p =
     (if pos < limit \<and> p (src ! pos) then scan_while src (pos + 1) limit p else pos)"
  by pat_completeness auto
termination
  by (relation "measure (\<lambda>(src, pos, limit, p). limit - pos)") auto

declare scan_while.simps [simp del]

definition digit_value :: "char \<Rightarrow> nat option" where
  "digit_value b =
     (if is_digit b then Some (of_char b - 48)
      else if 97 \<le> (of_char b :: nat) \<and> (of_char b :: nat) \<le> 102 then Some (of_char b - 97 + 10)
      else if 65 \<le> (of_char b :: nat) \<and> (of_char b :: nat) \<le> 70 then Some (of_char b - 65 + 10)
      else None)"

definition numeric_suffixes :: "(string \<times> numeric_suffix) list" where
  "numeric_suffixes =
     [(''i8'', I8), (''i16'', I16), (''i32'', I32), (''i64'', I64), (''i128'', I128),
      (''isize'', Isize), (''u8'', U8), (''u16'', U16), (''u32'', U32), (''u64'', U64),
      (''u128'', U128), (''usize'', Usize), (''f32'', F32), (''f64'', F64)]"

definition parse_numeric_suffix :: "string \<Rightarrow> numeric_suffix option" where
  "parse_numeric_suffix txt = map_of numeric_suffixes txt"

definition keyword_table :: "(string \<times> keyword) list" where
  "keyword_table =
     [(''as'', KwAs), (''attr'', KwAttr), (''break'', KwBreak), (''continue'', KwContinue),
      (''defer'', KwDefer), (''derive'', KwDerive), (''else'', KwElse), (''enum'', KwEnum),
      (''expect'', KwExpect), (''false'', KwFalse), (''fn'', KwFn), (''for'', KwFor),
      (''if'', KwIf), (''impl'', KwImpl), (''in'', KwIn), (''let'', KwLet), (''macro'', KwMacro),
      (''match'', KwMatch), (''mod'', KwMod), (''null'', KwNull), (''pass'', KwPass),
      (''pub'', KwPub), (''quote'', KwQuote), (''return'', KwReturn), (''root'', KwRoot),
      (''self'', KwSelfValue), (''Self'', KwSelfType), (''struct'', KwStruct),
      (''super'', KwSuper), (''test'', KwTest), (''trait'', KwTrait), (''true'', KwTrue),
      (''type'', KwType), (''unsafe'', KwUnsafe), (''use'', KwUse), (''var'', KwVar),
      (''while'', KwWhile)]"

definition keyword_of :: "string \<Rightarrow> keyword option" where
  "keyword_of txt = map_of keyword_table txt"

definition punctuation_candidates :: "(string \<times> token_kind) list" where
  "punctuation_candidates =
     [(''<<='', ShlAssign), (''>>='', ShrAssign), (''...'', Ellipsis), (''->'', Arrow),
      (''..'', DotDot), (''<<'', Shl), (''>>'', Shr), (''=='', EqEq), (''!='', NotEq),
      (''<='', LessEq), (''>='', GreaterEq), (''&&'', AndAnd), (''||'', OrOr), (''++'', PlusPlus),
      (''+='', PlusAssign), (''-='', MinusAssign), (''*='', StarAssign), (''/='', SlashAssign),
      (''%='', PercentAssign), (''&='', AmpAssign), (''|='', PipeAssign), (''^='', CaretAssign),
      (''('', LParen), ('')'', RParen), (''['', LBracket), ('']'', RBracket), (''{'', LBrace),
      (''}'', RBrace), ('','', Comma), ('';'', Semicolon), ('':'', Colon), (''.'', Dot),
      (''@'', At), (''$'', Dollar), (''?'', Question), (''='', Assign), (''+'', Plus),
      (''-'', Minus), (''*'', Star), (''/'', Slash), (''%'', Percent), (''&'', Amp), (''|'', Pipe),
      (''^'', Caret), (''~'', Tilde), (''!'', Bang), (''<'', Less), (''>'', Greater)]"

definition punctuation :: "string \<Rightarrow> (token_kind \<times> nat) option" where
  "punctuation src =
     map_option (\<lambda>(spelling, kind). (kind, length spelling))
       (List.find (\<lambda>(spelling, kind). prefix spelling src) punctuation_candidates)"

section \<open>Identifiers and numbers\<close>

definition lex_identifier :: "lexer \<Rightarrow> nat \<Rightarrow> nat \<Rightarrow> lexer \<times> nat" where
  "lex_identifier lx start line_end =
     (let stop = scan_while (lx_source lx) (start + 1) line_end (\<lambda>b. is_alphanumeric b \<or> b = CHR ''_'');
          txt = substr (lx_source lx) start stop;
          kind = (case keyword_of txt of Some k \<Rightarrow> Keyword k | None \<Rightarrow> Identifier txt)
      in (emit kind start stop lx, stop))"

fun has_double_underscore :: "string \<Rightarrow> bool" where
  "has_double_underscore (a # b # cs) \<longleftrightarrow>
     (a = CHR ''_'' \<and> b = CHR ''_'') \<or> has_double_underscore (b # cs)"
| "has_double_underscore _ \<longleftrightarrow> False"

definition validate_digit_run :: "nat \<Rightarrow> nat \<Rightarrow> nat \<Rightarrow> lexer \<Rightarrow> lexer" where
  "validate_digit_run start stop radix lx =
     (let txt = substr (lx_source lx) start stop;
          invalid_separator =
            (txt \<noteq> [] \<and> hd txt = CHR ''_'') \<or> (txt \<noteq> [] \<and> last txt = CHR ''_'')
            \<or> has_double_underscore txt;
          invalid_digit =
            list_ex (\<lambda>b. b \<noteq> CHR ''_'' \<and> (case digit_value b of None \<Rightarrow> True | Some v \<Rightarrow> radix \<le> v)) txt
      in if invalid_separator \<or> invalid_digit
         then lex_error LexicalLiteral start stop
                (''invalid digit sequence for a base-'' @ show_nat radix @ '' literal'') lx
         else lx)"

definition is_suffix_byte :: "char \<Rightarrow> bool" where
  "is_suffix_byte b \<longleftrightarrow> is_alphanumeric b \<or> b = CHR ''_''"

definition is_digit_byte :: "char \<Rightarrow> bool" where
  "is_digit_byte b \<longleftrightarrow> is_digit b \<or> b = CHR ''_''"

definition lex_prefixed_integer :: "lexer \<Rightarrow> nat \<Rightarrow> nat \<Rightarrow> nat \<Rightarrow> lexer \<times> nat" where
  "lex_prefixed_integer lx start line_end radix =
     (let src = lx_source lx;
          digits_start = start + 2;
          digits_end = scan_while src digits_start line_end
            (\<lambda>b. b = CHR ''_'' \<or> (case digit_value b of Some v \<Rightarrow> v < radix | None \<Rightarrow> False));
          lx1 = (if digits_start = digits_end
                 then lex_error LexicalLiteral start digits_end
                        (''base-'' @ show_nat radix @ '' literal requires at least one digit'') lx
                 else validate_digit_run digits_start digits_end radix lx);
          stop = scan_while src digits_end line_end is_suffix_byte;
          suffix_text = substr src digits_end stop;
          sfx = (if suffix_text = [] then None else parse_numeric_suffix suffix_text);
          lx2 = (if suffix_text \<noteq> [] \<and> (sfx = None \<or> sfx = Some F32 \<or> sfx = Some F64)
                 then lex_error LexicalLiteral digits_end stop
                        (''invalid integer suffix `'' @ suffix_text @ ''`'') lx1
                 else lx1)
      in (emit (IntegerLiteral (substr src start stop) radix sfx) start stop lx2, stop))"

definition radix_of :: "char \<Rightarrow> nat option" where
  "radix_of b =
     (if b = CHR ''b'' then Some 2 else if b = CHR ''o'' then Some 8
      else if b = CHR ''x'' then Some 16 else None)"

definition lex_fraction :: "lexer \<Rightarrow> nat \<Rightarrow> nat \<Rightarrow> bool \<Rightarrow> lexer \<times> nat \<times> bool" where
  \<comment> \<open>the first optional part of \<open>lex_number\<close>: a point followed by a digit\<close>
  "lex_fraction lx stop line_end allow_float =
     (let src = lx_source lx in
      if allow_float \<and> stop + 1 < line_end \<and> src ! stop = CHR ''.'' \<and> is_digit (src ! (stop + 1))
      then (let stop' = scan_while src (stop + 1) line_end is_digit_byte
            in (validate_digit_run (stop + 1) stop' 10 lx, stop', True))
      else (lx, stop, False))"

definition lex_exponent :: "lexer \<Rightarrow> nat \<Rightarrow> nat \<Rightarrow> nat \<Rightarrow> bool \<Rightarrow> bool \<Rightarrow> lexer \<times> nat \<times> bool" where
  \<comment> \<open>the second optional part of \<open>lex_number\<close>: an exponent\<close>
  "lex_exponent lx start stop line_end allow_float is_float =
     (let src = lx_source lx in
      if allow_float \<and> stop < line_end \<and> (src ! stop = CHR ''e'' \<or> src ! stop = CHR ''E'')
      then (let sign_end = (if stop + 1 < line_end \<and> (src ! (stop + 1) = CHR ''+'' \<or> src ! (stop + 1) = CHR ''-'')
                            then stop + 2 else stop + 1);
                stop' = scan_while src sign_end line_end is_digit_byte;
                lx' = (if sign_end = stop'
                       then lex_error LexicalLiteral start stop'
                              ''floating-point exponent requires at least one digit'' lx
                       else validate_digit_run sign_end stop' 10 lx)
            in (lx', stop', True))
      else (lx, stop, is_float))"

definition suffix_valid :: "numeric_suffix option \<Rightarrow> bool \<Rightarrow> bool" where
  "suffix_valid sfx is_float =
     (case sfx of
        None \<Rightarrow> False
      | Some s \<Rightarrow> if s = F32 \<or> s = F64 then is_float else \<not> is_float)"

definition lex_number :: "bool \<Rightarrow> lexer \<Rightarrow> nat \<Rightarrow> nat \<Rightarrow> lexer \<times> nat" where
  "lex_number allow_float lx start line_end =
     (let src = lx_source lx;
          radix = (if src ! start = CHR ''0'' \<and> start + 1 < line_end
                   then radix_of (src ! (start + 1)) else None)
      in case radix of
           Some r \<Rightarrow> lex_prefixed_integer lx start line_end r
         | None \<Rightarrow>
             (let end0 = scan_while src start line_end is_digit_byte;
                  lx0 = validate_digit_run start end0 10 lx;
                  (lx1, end1, float1) = lex_fraction lx0 end0 line_end allow_float;
                  (lx2, end2, is_float) = lex_exponent lx1 start end1 line_end allow_float float1;
                  stop = scan_while src end2 line_end is_suffix_byte;
                  suffix_text = substr src end2 stop;
                  sfx = (if suffix_text = [] then None else parse_numeric_suffix suffix_text);
                  lx3 = (if suffix_text \<noteq> [] \<and> \<not> suffix_valid sfx is_float
                         then lex_error LexicalLiteral end2 stop
                                (''invalid suffix `'' @ suffix_text @ ''` for this numeric literal'') lx2
                         else lx2);
                  raw = substr src start stop;
                  kind = (if is_float then FloatLiteral raw sfx else IntegerLiteral raw 10 sfx)
              in (emit kind start stop lx3, stop)))"

section \<open>Escapes and quoted literals\<close>

definition simple_escapes :: "(nat \<times> nat) list" where
  "simple_escapes =
     [(92, 92), (34, 34), (39, 39), (110, 10), (114, 13), (116, 9), (48, 0)]"

fun hex_value :: "nat \<Rightarrow> string \<Rightarrow> nat" where
  "hex_value acc [] = acc"
| "hex_value acc (c # cs) = hex_value (16 * acc + (case digit_value c of Some v \<Rightarrow> v | None \<Rightarrow> 0)) cs"

text \<open>The Unicode form, entered with the cursor on the opening brace.\<close>

definition decode_unicode_escape :: "lexer \<Rightarrow> nat \<Rightarrow> nat \<Rightarrow> nat \<Rightarrow> lexer \<times> nat option \<times> nat" where
  "decode_unicode_escape lx start brace limit =
     (let src = lx_source lx;
          digits_start = brace + 1;
          digits_end = scan_while src digits_start limit is_hexdigit;
          has_close = (digits_end < limit \<and> src ! digits_end = CHR ''}'');
          pos = (if has_close then digits_end + 1 else digits_end);
          digits = substr src digits_start digits_end
      in if \<not> has_close \<or> digits = [] \<or> 6 < length digits
         then (lex_error LexicalLiteral start pos
                 (''Unicode escape must be `'' @ [CHR 0x5C] @ ''u{HEX}` with one through six hexadecimal digits'') lx,
               None, pos)
         else if is_scalar (hex_value 0 digits) then (lx, Some (hex_value 0 digits), pos)
         else (lex_error LexicalLiteral start pos
                 ''Unicode escape does not denote a valid Unicode scalar value'' lx, None, pos))"

definition decode_escape :: "lexer \<Rightarrow> nat \<Rightarrow> nat \<Rightarrow> lexer \<times> nat option \<times> nat" where
  "decode_escape lx start limit =
     (if limit \<le> start + 1
      then (lex_error LexicalLiteral start limit ''incomplete escape sequence'' lx, None, limit)
      else
        (let src = lx_source lx;
             (escaped, width) = next_char (substr src (start + 1) limit);
             pos = start + 1 + width
         in case map_of simple_escapes escaped of
              Some v \<Rightarrow> (lx, Some v, pos)
            | None \<Rightarrow>
                if escaped = 117 \<and> pos < limit \<and> src ! pos = CHR ''{''
                then decode_unicode_escape lx start pos limit
                else (lex_error LexicalLiteral start pos
                        (''unsupported escape sequence `'' @ [CHR 0x5C] @ utf8_encode escaped @ ''`'') lx,
                      None, pos)))"

text \<open>\<open>String::push\<close> of an optional decoded character.\<close>

definition push_scalar :: "nat option \<Rightarrow> string \<Rightarrow> string" where
  "push_scalar v s = (case v of None \<Rightarrow> s | Some c \<Rightarrow> s @ utf8_encode c)"

section \<open>Cursor facts\<close>

lemma scan_while_ge: "pos \<le> scan_while src pos limit p"
proof (induction src pos limit p rule: scan_while.induct)
  case (1 src pos limit p)
  then show ?case by (cases "pos < limit \<and> p (src ! pos)") (auto simp: scan_while.simps [of src pos])
qed

lemma scan_while_le: "pos \<le> limit \<Longrightarrow> scan_while src pos limit p \<le> limit"
proof (induction src pos limit p rule: scan_while.induct)
  case (1 src pos limit p)
  then show ?case by (cases "pos < limit \<and> p (src ! pos)") (auto simp: scan_while.simps [of src pos])
qed

lemma scan_while_holds:
  "pos \<le> i \<Longrightarrow> i < scan_while src pos limit p \<Longrightarrow> p (src ! i)"
proof (induction src pos limit p rule: scan_while.induct)
  case (1 src pos limit p)
  then show ?case
    by (cases "pos < limit \<and> p (src ! pos)"; cases "i = pos")
      (auto simp: scan_while.simps [of src pos])
qed

lemma scan_while_stops:
  "scan_while src pos limit p < limit \<Longrightarrow> \<not> p (src ! scan_while src pos limit p)"
proof (induction src pos limit p rule: scan_while.induct)
  case (1 src pos limit p)
  then show ?case
    by (cases "pos < limit \<and> p (src ! pos)") (auto simp: scan_while.simps [of src pos])
qed

lemma scan_while_step:
  "pos < limit \<Longrightarrow> p (src ! pos) \<Longrightarrow> pos < scan_while src pos limit p"
  using scan_while_ge [of "pos + 1" src limit p] by (simp add: scan_while.simps [of src pos])

lemma next_char_substr:
  "a < b \<Longrightarrow> b \<le> length src \<Longrightarrow> a + snd (next_char (substr src a b)) \<le> b"
  using next_char_width(2) [of "substr src a b"] substr_not_Nil [of a b src] by auto

lemma decode_unicode_escape_cursor:
  "brace < snd (snd (decode_unicode_escape lx start brace limit))"
  "brace < limit \<Longrightarrow> snd (snd (decode_unicode_escape lx start brace limit)) \<le> limit"
  using scan_while_ge [of "brace + 1" "lx_source lx" limit is_hexdigit]
    scan_while_le [of "brace + 1" limit "lx_source lx" is_hexdigit]
  by (auto simp: decode_unicode_escape_def Let_def)

lemma decode_escape_advances [progress_intros]:
  "start < limit \<Longrightarrow> start < snd (snd (decode_escape lx start limit))"
  by (auto simp: decode_escape_def Let_def split: option.splits prod.splits
      intro!: less_trans [OF _ decode_unicode_escape_cursor(1)])

lemma decode_escape_bound [progress_intros]:
  "start < limit \<Longrightarrow> limit \<le> length (lx_source lx) \<Longrightarrow> snd (snd (decode_escape lx start limit)) \<le> limit"
  using decode_unicode_escape_cursor(2) [of _ limit lx start]
    next_char_substr [of "start + 1" limit "lx_source lx"]
  by (auto simp: decode_escape_def Let_def split: option.splits prod.splits)

end
