(* ===== verification/Lexer_Tokens.thy ===== *)
theory Lexer_Tokens
  imports Lexer_State
begin

text \<open>
  The token level of \<^verbatim>\<open>src/lexer.rs\<close>: quoted and formatted literals, delimiters, and the loop
  that reads the tokens of one line. A formatted string lexes its interpolations with the same
  loop on a range strictly inside the string, so \<open>lex_formatted_string\<close> takes that call as an
  argument and \<open>lex_line_tokens\<close> closes the recursion; a congruence rule records which ranges the
  argument is used on, which is what its termination proof needs.
\<close>

section \<open>Quoted literals\<close>

lemma decode_escape_cursor:
  "decode_escape lx pos limit = (lx', v, p) \<Longrightarrow> pos < limit \<Longrightarrow> pos < p"
  using decode_escape_advances [of pos limit lx] by simp

lemma next_char_cursor: "next_char s = (c, w) \<Longrightarrow> 0 < w"
  using next_char_width(1) [of s] by simp

function quoted_loop :: "lexer \<Rightarrow> nat \<Rightarrow> nat \<Rightarrow> char \<Rightarrow> string \<Rightarrow> lexer \<times> nat \<times> string \<times> bool" where
  "quoted_loop lx pos line_end quote decoded =
     (if pos < line_end then
        if byte_at lx pos = quote then (lx, pos + 1, decoded, True)
        else if byte_at lx pos = CHR 0x5C then
          (case decode_escape lx pos line_end of
             (lx', v, p) \<Rightarrow> quoted_loop lx' p line_end quote (push_scalar v decoded))
        else
          (case next_char (substr (lx_source lx) pos line_end) of
             (c, w) \<Rightarrow> quoted_loop lx (pos + w) line_end quote (decoded @ utf8_encode c))
      else (lx, pos, decoded, False))"
  by pat_completeness auto
termination
  by (relation "measure (\<lambda>(lx, pos, line_end, quote, decoded). line_end - pos)")
    (auto dest!: decode_escape_cursor [OF sym] next_char_cursor [OF sym])

declare quoted_loop.simps [simp del]

definition lex_quoted :: "char \<Rightarrow> lexer \<Rightarrow> nat \<Rightarrow> nat \<Rightarrow> lexer \<times> nat" where
  "lex_quoted quote lx start line_end =
     (let (lx1, pos, decoded, terminated) = quoted_loop lx (start + 1) line_end quote [];
          lx2 = (if terminated then lx1
                 else lex_error LexicalLiteral start line_end
                        (if quote = CHR 0x22 then ''unterminated string literal''
                         else ''unterminated character literal'') lx1);
          lx3 = (if quote = CHR 0x27 \<and> length (utf8_chars decoded) \<noteq> 1
                 then lex_error LexicalLiteral start pos
                        ''a character literal must contain exactly one Unicode scalar value'' lx2
                 else lx2);
          kind = (if quote = CHR 0x22 then StringLiteral decoded else CharacterLiteral decoded)
      in (emit kind start pos lx3, pos))"

section \<open>Formatted strings\<close>

text \<open>The inner loop of \<open>find_interpolation_end\<close>: past a quoted literal.\<close>

function skip_quoted :: "string \<Rightarrow> nat \<Rightarrow> nat \<Rightarrow> char \<Rightarrow> nat" where
  "skip_quoted src pos limit quote =
     (if pos < limit then
        if src ! pos = CHR 0x5C then
          (if pos + 1 < limit
           then skip_quoted src (pos + 1 + snd (next_char (substr src (pos + 1) limit))) limit quote
           else skip_quoted src (pos + 1) limit quote)
        else if src ! pos = quote then pos + 1
        else skip_quoted src (pos + snd (next_char (substr src pos limit))) limit quote
      else pos)"
  by pat_completeness auto
termination
  by (relation "measure (\<lambda>(src, pos, limit, quote). limit - pos)")
    (auto intro: diff_less_mono2 simp: next_char_width(1))

declare skip_quoted.simps [simp del]

lemma skip_quoted_ge: "pos \<le> skip_quoted src pos limit quote"
proof (induction src pos limit quote rule: skip_quoted.induct)
  case (1 src pos limit quote)
  then show ?case by (subst skip_quoted.simps) auto
qed

function find_interpolation_end :: "string \<Rightarrow> nat \<Rightarrow> nat \<Rightarrow> nat \<Rightarrow> nat option" where
  "find_interpolation_end src pos limit brace_depth =
     (if pos < limit then
        if src ! pos = CHR 0x22 \<or> src ! pos = CHR 0x27
        then find_interpolation_end src (skip_quoted src (pos + 1) limit (src ! pos)) limit brace_depth
        else if src ! pos = CHR ''{'' then find_interpolation_end src (pos + 1) limit (brace_depth + 1)
        else if src ! pos = CHR ''}'' then
          (if brace_depth = 0 then Some pos
           else find_interpolation_end src (pos + 1) limit (brace_depth - 1))
        else find_interpolation_end src (pos + snd (next_char (substr src pos limit))) limit brace_depth
      else None)"
  by pat_completeness auto
termination
proof (relation "measure (\<lambda>(src, pos, limit, brace_depth). limit - pos)", goal_cases)
  case (2 src pos limit d)
  then show ?case using skip_quoted_ge [of "pos + 1" src limit "src ! pos"] by auto
qed (auto intro: diff_less_mono2 simp: next_char_width(1))

declare find_interpolation_end.simps [simp del]

lemma find_interpolation_end_range:
  "find_interpolation_end src pos limit d = Some e \<Longrightarrow> pos \<le> e \<and> e < limit \<and> src ! e = CHR ''}''"
proof (induction src pos limit d rule: find_interpolation_end.induct)
  case (1 src pos limit d)
  show ?case
    using 1 skip_quoted_ge [of "pos + 1" src limit "src ! pos"]
    by (subst (asm) (2) find_interpolation_end.simps) (auto split: if_splits)
qed

definition is_whitespace :: "nat \<Rightarrow> bool" where
  \<comment> \<open>\<open>char::is_whitespace\<close>, the Unicode property \<open>White_Space\<close>\<close>
  "is_whitespace c \<longleftrightarrow>
     9 \<le> c \<and> c \<le> 13 \<or> c \<in> {32, 133, 160, 5760} \<or> 8192 \<le> c \<and> c \<le> 8202
     \<or> c \<in> {8232, 8233, 8239, 8287, 12288}"

definition trims_to_empty :: "string \<Rightarrow> bool" where
  "trims_to_empty s = list_all is_whitespace (utf8_chars s)"

definition flush_formatted_text ::
  "lexer \<Rightarrow> formatted_segment list \<Rightarrow> string \<Rightarrow> nat \<Rightarrow> nat \<Rightarrow> formatted_segment list" where
  "flush_formatted_text lx segs txt a b =
     (if txt = [] then segs else segs @ [FormattedSegment (TextSegment txt) (lx_span lx a b)])"

definition extend_diagnostics :: "diagnostic list \<Rightarrow> lexer \<Rightarrow> lexer" where
  "extend_diagnostics ds lx = lx\<lparr>lx_diagnostics := lx_diagnostics lx @ ds\<rparr>"

type_synonym fragment_lexer = "nat \<Rightarrow> nat \<Rightarrow> token list \<times> diagnostic list"

definition lex_interpolation ::
  "fragment_lexer \<Rightarrow> lexer \<Rightarrow> nat \<Rightarrow> nat \<Rightarrow> nat \<Rightarrow> formatted_segment list
   \<Rightarrow> lexer \<times> nat \<times> nat \<times> formatted_segment list" where
  \<comment> \<open>the arm for a single opening brace, after the pending text has been flushed\<close>
  "lex_interpolation frag lx pos line_end text_start segs =
     (case find_interpolation_end (lx_source lx) (pos + 1) line_end 0 of
        Some e \<Rightarrow>
          (let expr = substr (lx_source lx) (pos + 1) e;
               lx1 = (if trims_to_empty expr
                      then lex_error LexicalLiteral pos (e + 1)
                             ''formatted-string interpolation cannot be empty'' lx
                      else lx);
               (toks, ds) = frag (pos + 1) e;
               seg = FormattedSegment (ExpressionSegment expr toks) (lx_span lx (pos + 1) e)
           in (extend_diagnostics ds lx1, e + 1, e + 1, segs @ [seg]))
      | None \<Rightarrow>
          (lex_error LexicalLiteral pos line_end ''unclosed `{` in formatted string'' lx,
           line_end, text_start, segs))"

lemma lex_interpolation_cursor:
  "lex_interpolation frag lx pos line_end ts segs = (lx', p, ts', segs') \<Longrightarrow> pos < line_end \<Longrightarrow> pos < p"
  by (auto simp: lex_interpolation_def Let_def dest!: find_interpolation_end_range
      split: option.splits prod.splits)

function formatted_loop ::
  "fragment_lexer \<Rightarrow> lexer \<Rightarrow> nat \<Rightarrow> nat \<Rightarrow> nat \<Rightarrow> string \<Rightarrow> formatted_segment list
   \<Rightarrow> lexer \<times> nat \<times> nat \<times> string \<times> formatted_segment list \<times> bool" where
  "formatted_loop frag lx pos line_end text_start txt segs =
     (if pos < line_end then
        if byte_at lx pos = CHR 0x22 then
          (lx, pos + 1, text_start, [], flush_formatted_text lx segs txt text_start pos, True)
        else if byte_at lx pos = CHR 0x5C then
          (case decode_escape lx pos line_end of
             (lx', v, p) \<Rightarrow> formatted_loop frag lx' p line_end text_start (push_scalar v txt) segs)
        else if byte_at lx pos = CHR ''{'' \<and> pos + 1 < line_end \<and> byte_at lx (pos + 1) = CHR ''{'' then
          formatted_loop frag lx (pos + 2) line_end text_start (txt @ ''{'') segs
        else if byte_at lx pos = CHR ''}'' \<and> pos + 1 < line_end \<and> byte_at lx (pos + 1) = CHR ''}'' then
          formatted_loop frag lx (pos + 2) line_end text_start (txt @ ''}'') segs
        else if byte_at lx pos = CHR ''{'' then
          (case lex_interpolation frag lx pos line_end text_start
                  (flush_formatted_text lx segs txt text_start pos) of
             (lx', p, text_start', segs') \<Rightarrow> formatted_loop frag lx' p line_end text_start' [] segs')
        else if byte_at lx pos = CHR ''}'' then
          formatted_loop frag
            (lex_error LexicalLiteral pos (pos + 1)
               ''unmatched `}` in formatted string; use `}}` for literal text'' lx)
            (pos + 1) line_end text_start txt segs
        else
          (case next_char (substr (lx_source lx) pos line_end) of
             (c, w) \<Rightarrow> formatted_loop frag lx (pos + w) line_end text_start (txt @ utf8_encode c) segs)
      else (lx, pos, text_start, txt, segs, False))"
  by pat_completeness auto
termination
  by (relation "measure (\<lambda>(frag, lx, pos, line_end, text_start, txt, segs). line_end - pos)")
    (auto dest!: decode_escape_cursor [OF sym] next_char_cursor [OF sym]
      lex_interpolation_cursor [OF sym])

declare formatted_loop.simps [simp del]

definition lex_formatted_string :: "fragment_lexer \<Rightarrow> lexer \<Rightarrow> nat \<Rightarrow> nat \<Rightarrow> lexer \<times> nat" where
  "lex_formatted_string frag lx start line_end =
     (let (lx1, pos, text_start, txt, segs, terminated) =
            formatted_loop frag lx (start + 2) line_end (start + 2) [] [];
          segs' = (if terminated then segs else flush_formatted_text lx1 segs txt text_start pos);
          lx2 = (if terminated then lx1
                 else lex_error LexicalLiteral start line_end ''unterminated formatted string literal'' lx1)
      in (emit (FormattedString segs') start pos lx2, pos))"

section \<open>Delimiters\<close>

definition opening_delimiter :: "token_kind \<Rightarrow> delimiter option" where
  "opening_delimiter k =
     (case k of LParen \<Rightarrow> Some Parenthesis | LBracket \<Rightarrow> Some Bracket | LBrace \<Rightarrow> Some Brace | _ \<Rightarrow> None)"

definition closing_delimiter :: "token_kind \<Rightarrow> delimiter option" where
  "closing_delimiter k =
     (case k of RParen \<Rightarrow> Some Parenthesis | RBracket \<Rightarrow> Some Bracket | RBrace \<Rightarrow> Some Brace | _ \<Rightarrow> None)"

definition handle_delimiter :: "token_kind \<Rightarrow> nat \<Rightarrow> nat \<Rightarrow> lexer \<Rightarrow> lexer" where
  "handle_delimiter k start stop lx =
     (case opening_delimiter k of
        Some d \<Rightarrow> lx\<lparr>delimiters := delimiters lx @ [\<lparr>od_kind = d, od_span = lx_span lx start stop\<rparr>]\<rparr>
      | None \<Rightarrow>
          (case closing_delimiter k of
             None \<Rightarrow> lx
           | Some c \<Rightarrow>
               (case vlast (delimiters lx) of
                  None \<Rightarrow> lex_error LexicalDelimiter start stop ''closing delimiter has no matching opener'' lx
                | Some open_d \<Rightarrow>
                    if od_kind open_d = c then lx\<lparr>delimiters := butlast (delimiters lx)\<rparr>
                    else
                      (push_diagnostic
                         (with_related
                            (with_primary
                               (diagnostic_new LexicalDelimiter
                                  (''mismatched delimiter: expected '' @ closing_name (od_kind open_d)
                                   @ '', found a different closer''))
                               (lx_span lx start stop))
                            (od_span open_d) ''opening delimiter is here'') lx)
                      \<lparr>delimiters := butlast (delimiters lx)\<rparr>)))"

definition unclosed_diagnostic :: "open_delimiter \<Rightarrow> diagnostic" where
  "unclosed_diagnostic d =
     with_primary
       (diagnostic_new LexicalDelimiter (''unclosed delimiter; expected '' @ closing_name (od_kind d)))
       (od_span d)"

section \<open>The tokens of a line\<close>

text \<open>
  One iteration of \<open>lex_line_tokens\<close>: the new cursor, or \<open>None\<close> where a line comment ends the loop.
\<close>

definition is_dot :: "token_kind \<Rightarrow> bool" where
  "is_dot k = (case k of Dot \<Rightarrow> True | _ \<Rightarrow> False)"

definition is_colon :: "token_kind \<Rightarrow> bool" where
  "is_colon k = (case k of Colon \<Rightarrow> True | _ \<Rightarrow> False)"

definition last_is_dot :: "lexer \<Rightarrow> bool" where
  "last_is_dot lx = (case vlast (lx_tokens lx) of Some t \<Rightarrow> is_dot (token_kind t) | None \<Rightarrow> False)"

definition lex_symbol :: "lexer \<Rightarrow> nat \<Rightarrow> nat \<Rightarrow> lexer \<times> nat" where
  "lex_symbol lx pos line_end =
     (case punctuation (substr (lx_source lx) pos line_end) of
        Some (kind, len) \<Rightarrow> (emit kind pos (pos + len) (handle_delimiter kind pos (pos + len) lx), pos + len)
      | None \<Rightarrow>
          (case next_char (substr (lx_source lx) pos line_end) of
             (c, w) \<Rightarrow>
               (lex_error LexicalCharacter pos (pos + w)
                  (''character `'' @ utf8_encode c @ ''` cannot begin an Elamite token'') lx,
                pos + w)))"

definition line_step :: "fragment_lexer \<Rightarrow> lexer \<Rightarrow> nat \<Rightarrow> nat \<Rightarrow> lexer \<times> nat option" where
  "line_step frag lx pos line_end =
     (let b = byte_at lx pos in
      if b = CHR '' '' \<or> b = CHR 0x09 then (lx, Some (pos + 1))
      else if b = CHR ''/'' \<and> pos + 1 < line_end \<and> byte_at lx (pos + 1) = CHR ''/'' then (lx, None)
      else if b = CHR ''f'' \<and> pos + 1 < line_end \<and> byte_at lx (pos + 1) = CHR 0x22 then
        map_prod id Some (lex_formatted_string frag lx pos line_end)
      else if is_alphabetic b \<or> b = CHR ''_'' then map_prod id Some (lex_identifier lx pos line_end)
      else if is_digit b then map_prod id Some (lex_number (\<not> last_is_dot lx) lx pos line_end)
      else if b = CHR 0x22 \<or> b = CHR 0x27 then map_prod id Some (lex_quoted b lx pos line_end)
      else map_prod id Some (lex_symbol lx pos line_end))"

text \<open>What \<open>lex_fragment\<close> returns once its own lexer has read the range.\<close>

definition fragment_result :: "lexer \<Rightarrow> token list \<times> diagnostic list" where
  "fragment_result lx =
     (lx_tokens lx, lx_diagnostics lx @ map unclosed_diagnostic (rev (delimiters lx)))"

lemma lex_interpolation_frag_cong:
  assumes "\<And>a b. pos < a \<Longrightarrow> a \<le> b \<Longrightarrow> b < line_end \<Longrightarrow> frag a b = frag' a b"
  shows "lex_interpolation frag lx pos line_end ts segs = lex_interpolation frag' lx pos line_end ts segs"
proof (cases "find_interpolation_end (lx_source lx) (pos + 1) line_end 0")
  case (Some e)
  then have "frag (pos + 1) e = frag' (pos + 1) e"
    using find_interpolation_end_range [OF Some] by (intro assms) auto
  with Some show ?thesis by (simp add: lex_interpolation_def)
qed (simp add: lex_interpolation_def)

lemma formatted_loop_frag_cong:
  "(\<And>a b. pos < a \<Longrightarrow> a \<le> b \<Longrightarrow> b < line_end \<Longrightarrow> frag a b = frag' a b) \<Longrightarrow>
   formatted_loop frag lx pos line_end ts buf segs = formatted_loop frag' lx pos line_end ts buf segs"
proof (induction "line_end - pos" arbitrary: lx pos ts buf segs rule: less_induct)
  case less
  show ?case
  proof (cases "pos < line_end")
    case True
    have IH: "formatted_loop frag lx' p line_end ts' buf' segs' = formatted_loop frag' lx' p line_end ts' buf' segs'"
      if "pos < p" for lx' p ts' buf' segs'
      using True that by (intro less.hyps less.prems) auto
    obtain l v p where de: "decode_escape lx pos line_end = (l, v, p)" by (cases "decode_escape lx pos line_end")
    obtain c w where nc: "next_char (substr (lx_source lx) pos line_end) = (c, w)" by fastforce
    let ?sg = "flush_formatted_text lx segs buf ts pos"
    obtain l2 p2 t2 s2 where li: "lex_interpolation frag lx pos line_end ts ?sg = (l2, p2, t2, s2)"
      by (cases "lex_interpolation frag lx pos line_end ts ?sg")
    have li': "lex_interpolation frag' lx pos line_end ts ?sg = (l2, p2, t2, s2)"
      using lex_interpolation_frag_cong [of pos line_end frag frag' lx ts ?sg] less.prems li by simp
    show ?thesis
      unfolding formatted_loop.simps [of frag lx pos line_end ts buf segs]
        formatted_loop.simps [of frag' lx pos line_end ts buf segs] de nc li li' prod.case
      using decode_escape_cursor [OF de True] next_char_cursor [OF nc] lex_interpolation_cursor [OF li True]
      by (simp add: IH)
  qed (simp add: formatted_loop.simps)
qed

lemma lex_formatted_string_cong [fundef_cong]:
  assumes "lx = lx'" "pos = pos'" "line_end = line_end'"
    and "\<And>a b. pos' < a \<Longrightarrow> a \<le> b \<Longrightarrow> b < line_end' \<Longrightarrow> frag a b = frag' a b"
  shows "lex_formatted_string frag lx pos line_end = lex_formatted_string frag' lx' pos' line_end'"
  unfolding lex_formatted_string_def assms(1-3)
  by (subst formatted_loop_frag_cong [of _ _ frag frag']) (auto intro: assms(4))

lemma line_step_cong [fundef_cong]:
  assumes "lx = lx'" "pos = pos'" "line_end = line_end'"
    and "\<And>a b. pos' < a \<Longrightarrow> a \<le> b \<Longrightarrow> b < line_end' \<Longrightarrow> frag a b = frag' a b"
  shows "line_step frag lx pos line_end = line_step frag' lx' pos' line_end'"
  unfolding line_step_def assms(1-3)
  by (subst lex_formatted_string_cong [of lx' lx' pos' pos' line_end' line_end' frag frag']) (auto intro: assms(4))

end
