(* ===== verification/Lexer.thy ===== *)
theory Lexer
  imports Lexer_Tokens
begin

text \<open>
  The lexer proper (\<^verbatim>\<open>src/lexer.rs\<close>): the loop over the tokens of a line, the indentation engine
  that turns physical lines into logical ones, and \<open>run\<close>, which walks the lines of a file.
\<close>

section \<open>Every scanner moves forward\<close>

lemma quoted_loop_ge: "quoted_loop lx pos line_end q d = (lx', p, d', b) \<Longrightarrow> pos \<le> p"
proof (induction lx pos line_end q d rule: quoted_loop.induct)
  case (1 lx pos line_end q d)
  then show ?case
    by (subst (asm) (3) quoted_loop.simps)
      (fastforce split: if_splits prod.splits dest: decode_escape_cursor next_char_cursor)
qed

lemma formatted_loop_ge:
  "formatted_loop frag lx pos line_end ts buf segs = (lx', p, ts', buf', segs', b) \<Longrightarrow> pos \<le> p"
proof (induction "line_end - pos" arbitrary: lx pos ts buf segs rule: less_induct)
  case less
  show ?case
  proof (cases "pos < line_end")
    case True
    have IH: "formatted_loop frag l q line_end t u s = (lx', p, ts', buf', segs', b) \<Longrightarrow> pos \<le> p"
      if "pos < q" for l q t u s
      using less.hyps [of q l t u s] that True by force
    obtain l v q where de: "decode_escape lx pos line_end = (l, v, q)" by (cases "decode_escape lx pos line_end")
    obtain c w where nc: "next_char (substr (lx_source lx) pos line_end) = (c, w)" by fastforce
    let ?sg = "flush_formatted_text lx segs buf ts pos"
    obtain l2 p2 t2 s2 where li: "lex_interpolation frag lx pos line_end ts ?sg = (l2, p2, t2, s2)"
      by (cases "lex_interpolation frag lx pos line_end ts ?sg")
    show ?thesis
      using less.prems True decode_escape_cursor [OF de True] next_char_cursor [OF nc]
        lex_interpolation_cursor [OF li True]
      unfolding formatted_loop.simps [of frag lx pos line_end ts buf segs] de nc li prod.case
      by (auto split: if_splits dest: IH [rotated])
  qed (use less.prems in \<open>simp add: formatted_loop.simps\<close>)
qed

lemma lex_identifier_advances [progress_intros]: "pos < snd (lex_identifier lx pos line_end)"
  using scan_while_ge [of "pos + 1" "lx_source lx" line_end "\<lambda>b. is_alphanumeric b \<or> b = CHR ''_''"]
  by (simp add: lex_identifier_def Let_def)

lemma lex_fraction_ge: "lex_fraction lx stop line_end af = (lx', p, b) \<Longrightarrow> stop \<le> p"
  using scan_while_ge [of "stop + 1" "lx_source lx" line_end is_digit_byte]
  by (auto simp: lex_fraction_def Let_def split: if_splits)

lemma lex_exponent_ge: "lex_exponent lx s stop line_end af fl = (lx', p, b) \<Longrightarrow> stop \<le> p"
  using scan_while_ge [of "stop + 1" "lx_source lx" line_end is_digit_byte]
    scan_while_ge [of "stop + 2" "lx_source lx" line_end is_digit_byte]
  by (auto simp: lex_exponent_def Let_def split: if_splits)

lemma lex_prefixed_integer_advances:
  "pos < snd (lex_prefixed_integer lx pos line_end r)"
proof -
  let ?d = "scan_while (lx_source lx) (pos + 2) line_end
    (\<lambda>b. b = CHR ''_'' \<or> (case digit_value b of Some v \<Rightarrow> v < r | None \<Rightarrow> False))"
  have "pos + 2 \<le> ?d" by (rule scan_while_ge)
  also have "?d \<le> scan_while (lx_source lx) ?d line_end is_suffix_byte" by (rule scan_while_ge)
  finally show ?thesis by (simp add: lex_prefixed_integer_def Let_def)
qed

lemma lex_number_advances [progress_intros]:
  assumes "is_digit (byte_at lx pos)" "pos < line_end"
  shows "pos < snd (lex_number af lx pos line_end)"
proof -
  let ?e = "scan_while (lx_source lx) pos line_end is_digit_byte"
  have e: "pos < ?e"
    using assms by (intro scan_while_step) (simp_all add: is_digit_byte_def byte_at_def)
  obtain l1 p1 b1 where f: "lex_fraction (validate_digit_run pos ?e 10 lx) ?e line_end af = (l1, p1, b1)"
    by (cases "lex_fraction (validate_digit_run pos ?e 10 lx) ?e line_end af")
  obtain l2 p2 b2 where x: "lex_exponent l1 pos p1 line_end af b1 = (l2, p2, b2)"
    by (cases "lex_exponent l1 pos p1 line_end af b1")
  have "pos < scan_while (lx_source lx) p2 line_end is_suffix_byte"
    using e lex_fraction_ge [OF f] lex_exponent_ge [OF x] scan_while_ge
    by (meson le_less_trans le_trans less_le_trans)
  then show ?thesis
    using lex_prefixed_integer_advances
    by (auto simp: lex_number_def Let_def f x split: option.splits)
qed

lemma lex_quoted_advances [progress_intros]: "pos < snd (lex_quoted q lx pos line_end)"
proof -
  obtain l p d b where l: "quoted_loop lx (pos + 1) line_end q [] = (l, p, d, b)"
    by (cases "quoted_loop lx (pos + 1) line_end q []")
  from quoted_loop_ge [OF this] show ?thesis unfolding lex_quoted_def l Let_def by simp
qed

lemma lex_formatted_string_advances [progress_intros]:
  "pos < snd (lex_formatted_string frag lx pos line_end)"
proof -
  obtain l p t d s b where l: "formatted_loop frag lx (pos + 2) line_end (pos + 2) [] [] = (l, p, t, d, s, b)"
    by (cases "formatted_loop frag lx (pos + 2) line_end (pos + 2) [] []")
  from formatted_loop_ge [OF this] show ?thesis unfolding lex_formatted_string_def l Let_def by simp
qed

lemma punctuation_Some:
  assumes "punctuation src = Some (k, n)"
  shows "\<exists>sp. (sp, k) \<in> set punctuation_candidates \<and> prefix sp src \<and> n = length sp"
  using assms by (auto simp: punctuation_def find_Some_iff in_set_conv_nth) (metis nth_mem)

lemma punctuation_length: "punctuation src = Some (k, n) \<Longrightarrow> 0 < n \<and> n \<le> 3 \<and> n \<le> length src"
proof -
  assume "punctuation src = Some (k, n)"
  then obtain sp where sp: "(sp, k) \<in> set punctuation_candidates" "prefix sp src" "n = length sp"
    using punctuation_Some by blast
  have "\<forall>(s, k) \<in> set punctuation_candidates. 0 < length s \<and> length s \<le> 3"
    by (simp add: punctuation_candidates_def)
  with sp show ?thesis using prefix_length_le by fastforce
qed

lemma lex_symbol_advances [progress_intros]: "pos < snd (lex_symbol lx pos line_end)"
  by (auto simp: lex_symbol_def next_char_cursor split: option.splits prod.splits dest: punctuation_length)

lemma map_prod_Some_eq: "map_prod id Some r = (a, np) \<longleftrightarrow> (\<exists>p. np = Some p \<and> r = (a, p))"
  by (cases r) auto

lemma line_step_cases:
  assumes "line_step frag lx pos line_end = (lx', np)"
  obtains (blank) "lx' = lx" "np = Some (pos + 1)"
  | (comment) "lx' = lx" "np = None"
  | (formatted) p where "pos + 1 < line_end" "lex_formatted_string frag lx pos line_end = (lx', p)" "np = Some p"
  | (ident) p where "is_alphabetic (byte_at lx pos) \<or> byte_at lx pos = CHR ''_''"
      "lex_identifier lx pos line_end = (lx', p)" "np = Some p"
  | (number) p where "is_digit (byte_at lx pos)"
      "lex_number (\<not> last_is_dot lx) lx pos line_end = (lx', p)" "np = Some p"
  | (quoted) p where "lex_quoted (byte_at lx pos) lx pos line_end = (lx', p)" "np = Some p"
  | (symbol) p where "lex_symbol lx pos line_end = (lx', p)" "np = Some p"
proof -
  note * = assms [unfolded line_step_def Let_def map_prod_Some_eq]
  show ?thesis
    using *
    apply (simp only: map_prod_Some_eq prod.inject split: if_split_asm)
          apply (elim conjE, rule blank; simp)
         apply (elim conjE, rule comment; simp)
        apply (elim conjE exE, rule formatted; simp)
       apply (elim conjE exE, rule ident; simp)
      apply (elim conjE exE, rule number; simp)
     apply (elim conjE exE, rule quoted; simp)
    apply (elim conjE exE, rule symbol; simp)
    done
qed

lemma line_step_advances:
  assumes "line_step frag lx pos line_end = (lx', Some p)" "pos < line_end"
  shows "pos < p"
  using assms(1)
proof (cases rule: line_step_cases)
  case (formatted q)
  then show ?thesis using lex_formatted_string_advances [of pos frag lx line_end] by simp
next
  case (ident q)
  then show ?thesis using lex_identifier_advances [of pos lx line_end] by simp
next
  case (number q)
  then show ?thesis using lex_number_advances [of lx pos line_end "\<not> last_is_dot lx"] assms(2) by simp
next
  case (quoted q)
  then show ?thesis using lex_quoted_advances [of pos "byte_at lx pos" lx line_end] by simp
next
  case (symbol q)
  then show ?thesis using lex_symbol_advances [of pos lx line_end] by simp
qed simp_all

section \<open>The token loop\<close>

function lex_line_tokens :: "lexer \<Rightarrow> nat \<Rightarrow> nat \<Rightarrow> lexer" where
  "lex_line_tokens lx pos line_end =
     (if pos < line_end then
        (case line_step
                (\<lambda>a b. fragment_result (lex_line_tokens (lexer_new (lx_file lx) (lx_source lx)) a b))
                lx pos line_end of
           (lx', None) \<Rightarrow> lx'
         | (lx', Some p) \<Rightarrow> lex_line_tokens lx' p line_end)
      else lx)"
  by pat_completeness auto
termination
  by (relation "measure (\<lambda>(lx, pos, line_end). line_end - pos)")
    (auto dest!: line_step_advances [OF sym])

declare lex_line_tokens.simps [simp del]

definition lex_fragment :: "file_id \<Rightarrow> string \<Rightarrow> nat \<Rightarrow> nat \<Rightarrow> token list \<times> diagnostic list" where
  "lex_fragment file src start stop = fragment_result (lex_line_tokens (lexer_new file src) start stop)"

lemma lex_line_tokens_unfold:
  "lex_line_tokens lx pos line_end =
     (if pos < line_end then
        (case line_step (lex_fragment (lx_file lx) (lx_source lx)) lx pos line_end of
           (lx', None) \<Rightarrow> lx'
         | (lx', Some p) \<Rightarrow> lex_line_tokens lx' p line_end)
      else lx)"
  by (subst lex_line_tokens.simps) (simp add: lex_fragment_def [abs_def])

section \<open>Indentation\<close>

definition top_indent :: "lexer \<Rightarrow> nat" where
  "top_indent lx = (case vlast (block_indents lx) of Some i \<Rightarrow> i | None \<Rightarrow> 0)"

text \<open>The leading blanks of a line: the new state, the first other offset and the column.\<close>

function scan_indent :: "lexer \<Rightarrow> nat \<Rightarrow> nat \<Rightarrow> nat \<Rightarrow> bool \<Rightarrow> lexer \<times> nat \<times> nat" where
  "scan_indent lx pos line_end indent reported_tab =
     (if pos < line_end \<and> byte_at lx pos = CHR '' '' then
        scan_indent lx (pos + 1) line_end (indent + 1) reported_tab
      else if pos < line_end \<and> byte_at lx pos = CHR 0x09 then
        scan_indent
          (if reported_tab then lx
           else lex_error LexicalIndentation pos (pos + 1)
                  ''a tab is not permitted in leading indentation'' lx)
          (pos + 1) line_end ((indent div 4 + 1) * 4) True
      else (lx, pos, indent))"
  by pat_completeness auto
termination
  by (relation "measure (\<lambda>(lx, pos, line_end, indent, r). line_end - pos)") auto

declare scan_indent.simps [simp del]

function pop_dedents :: "lexer \<Rightarrow> nat \<Rightarrow> nat \<Rightarrow> nat \<Rightarrow> lexer" where
  "pop_dedents lx indent line_start content_start =
     (case vlast (block_indents lx) of
        Some level \<Rightarrow>
          if indent < level then
            pop_dedents (emit Dedent line_start content_start (lx\<lparr>block_indents := butlast (block_indents lx)\<rparr>))
              indent line_start content_start
          else lx
      | None \<Rightarrow> lx)"
  by pat_completeness auto
termination
  by (relation "measure (\<lambda>(lx, i, a, b). length (block_indents lx))")
    (auto simp: emit_def vlast_def split: if_splits)

declare pop_dedents.simps [simp del]

definition apply_indentation :: "nat \<Rightarrow> nat \<Rightarrow> nat \<Rightarrow> lexer \<Rightarrow> lexer" where
  "apply_indentation indent line_start content_start lx =
     (let current = top_indent lx in
      if indent = current then lx
      else if current < indent then
        lex_error LexicalIndentation line_start content_start
          (''unexpected indentation: expected '' @ show_nat current @ '' spaces, found '' @ show_nat indent) lx
      else
        pop_dedents
          (if indent \<in> set (block_indents lx) then lx
           else lex_error LexicalIndentation line_start content_start
                  (''dedent to '' @ show_nat indent @ '' spaces does not match an open block'') lx)
          indent line_start content_start)"

definition open_block :: "nat \<Rightarrow> nat \<Rightarrow> nat \<Rightarrow> lexer \<Rightarrow> lexer" where
  "open_block level line_start content_start lx =
     (let lx' = emit Indent line_start content_start lx
      in lx'\<lparr>block_indents := block_indents lx' @ [level]\<rparr>)"

text \<open>\<open>prepare_logical_line\<close> after the pending newline has been dealt with.\<close>

definition enter_block :: "lexer \<Rightarrow> nat \<Rightarrow> nat \<Rightarrow> nat \<Rightarrow> lexer" where
  "enter_block lx indent line_start content_start =
     (case expected_block_base lx of
        None \<Rightarrow> apply_indentation indent line_start content_start lx
      | Some base \<Rightarrow>
          (let lx1 = lx\<lparr>expected_block_base := None\<rparr>; expected = base + 4 in
           if indent = expected then open_block expected line_start content_start lx1
           else
             (let lx2 = lex_error LexicalIndentation line_start content_start
                          (''expected exactly '' @ show_nat expected @ '' spaces of indentation after `:`'') lx1
              in if base < indent then open_block expected line_start content_start lx2
                 else apply_indentation indent line_start content_start lx2)))"

definition prepare_logical_line :: "lexer \<Rightarrow> nat \<Rightarrow> bool \<Rightarrow> nat \<Rightarrow> nat \<Rightarrow> lexer \<times> bool" where
  "prepare_logical_line lx indent is_doc_comment line_start content_start =
     (case pending_newline lx of
        Some p \<Rightarrow>
          if \<not> is_doc_comment \<and> indent = pn_statement_base p + 4
          then (lx\<lparr>pending_newline := None\<rparr>, True)
          else
            (let lx1 = (emit Newline (span_start (pn_span p)) (span_end (pn_span p)) lx)
                         \<lparr>pending_newline := None, active_statement_base := None\<rparr>
             in (enter_block lx1 indent line_start content_start, False))
      | None \<Rightarrow> (enter_block lx indent line_start content_start, False))"

definition begin_line :: "lexer \<Rightarrow> nat \<Rightarrow> bool \<Rightarrow> nat \<Rightarrow> nat \<Rightarrow> lexer" where
  "begin_line lx indent is_doc_comment line_start content_start =
     (let grouped_at_start = (delimiters lx \<noteq> []);
          layout_is_active = (grouped_layout_blocks lx \<noteq> [] \<or> expected_block_base lx \<noteq> None)
      in if \<not> grouped_at_start \<or> layout_is_active then
           (case prepare_logical_line lx indent is_doc_comment line_start content_start of
              (lx', continues) \<Rightarrow>
                if continues then lx' else lx'\<lparr>active_statement_base := Some (top_indent lx')\<rparr>)
         else if active_statement_base lx = None
         then lx\<lparr>active_statement_base := Some (top_indent lx)\<rparr>
         else lx)"

function pop_grouped_layout :: "lexer \<Rightarrow> lexer" where
  "pop_grouped_layout lx =
     (case vlast (grouped_layout_blocks lx) of
        Some b \<Rightarrow>
          if length (delimiters lx) < gl_delimiter_depth b
             \<and> (case vlast (block_indents lx) of Some i \<Rightarrow> i \<le> gl_base_indent b | None \<Rightarrow> False)
          then pop_grouped_layout (lx\<lparr>grouped_layout_blocks := butlast (grouped_layout_blocks lx)\<rparr>)
          else lx
      | None \<Rightarrow> lx)"
  by pat_completeness auto
termination
  by (relation "measure (\<lambda>lx. length (grouped_layout_blocks lx))")
    (auto simp: vlast_def split: if_splits)

declare pop_grouped_layout.simps [simp del]

text \<open>The tail of \<open>lex_physical_line\<close>, once the line has produced a token.\<close>

definition ends_block_header :: "lexer \<Rightarrow> bool" where
  "ends_block_header lx = (case vlast (lx_tokens lx) of Some t \<Rightarrow> is_colon (token_kind t) | None \<Rightarrow> False)"

definition end_line :: "lexer \<Rightarrow> nat \<Rightarrow> bool \<Rightarrow> nat \<Rightarrow> nat \<Rightarrow> lexer" where
  "end_line lx indent is_doc_comment line_end newline_end =
     (let newline_start = (if line_end < newline_end then line_end else newline_end);
          newline_span = lx_span lx newline_start newline_end;
          emit_newline = emit Newline (span_start newline_span) (span_end newline_span)
      in if is_doc_comment then (emit_newline lx)\<lparr>active_statement_base := None\<rparr>
         else if ends_block_header lx then
           (let lx1 = (if delimiters lx \<noteq> [] then
                         lx\<lparr>grouped_layout_blocks := grouped_layout_blocks lx @
                              [\<lparr>gl_delimiter_depth = length (delimiters lx),
                                gl_base_indent = (case active_statement_base lx of
                                                    Some b \<Rightarrow> b | None \<Rightarrow> indent)\<rparr>]\<rparr>
                       else lx);
                lx2 = emit_newline lx1
            in lx2\<lparr>expected_block_base := active_statement_base lx2, active_statement_base := None,
                    pending_newline := None\<rparr>)
         else
           lx\<lparr>pending_newline := Some
                \<lparr>pn_statement_base = (case active_statement_base lx of Some b \<Rightarrow> b | None \<Rightarrow> top_indent lx),
                 pn_span = newline_span\<rparr>\<rparr>)"

definition strip_space :: "string \<Rightarrow> string" where
  "strip_space s = (case s of c # cs \<Rightarrow> if c = CHR '' '' then cs else s | [] \<Rightarrow> [])"

definition lex_physical_line :: "lexer \<Rightarrow> nat \<Rightarrow> nat \<Rightarrow> nat \<Rightarrow> lexer" where
  "lex_physical_line lx line_start line_end newline_end =
     (case scan_indent lx line_start line_end 0 False of
        (lx1, content_start, indent) \<Rightarrow>
          (let rest = substr (lx_source lx1) content_start line_end in
           if rest = [] \<or> (prefix ''//'' rest \<and> \<not> prefix ''///'' rest) then lx1
           else
             (let is_doc_comment = prefix ''///'' rest;
                  lx2 = begin_line lx1 indent is_doc_comment line_start content_start;
                  token_start = length (lx_tokens lx2);
                  lx3 = (if is_doc_comment
                         then emit (DocComment (strip_space (drop 3 rest))) content_start line_end lx2
                         else lex_line_tokens lx2 content_start line_end);
                  lx4 = pop_grouped_layout lx3
              in if (delimiters lx4 = [] \<or> grouped_layout_blocks lx4 \<noteq> [] \<or> ends_block_header lx4)
                    \<and> token_start < length (lx_tokens lx4)
                 then end_line lx4 indent is_doc_comment line_end newline_end
                 else lx4)))"

section \<open>Whole files\<close>

definition line_bounds :: "string \<Rightarrow> nat \<Rightarrow> nat \<times> nat \<times> nat" where
  \<comment> \<open>content end, raw end and the start of the next line\<close>
  "line_bounds src line_start =
     (let rel = length (takeWhile (\<lambda>b. b \<noteq> CHR 0x0A) (drop line_start src));
          found = (line_start + rel < length src);
          raw_end = (if found then line_start + rel else length src);
          newline_end = (if found then raw_end + 1 else length src);
          content_end = (if line_start < raw_end \<and> src ! (raw_end - 1) = CHR 0x0D
                         then raw_end - 1 else raw_end)
      in (content_end, raw_end, newline_end))"

lemma line_bounds_order:
  assumes "line_bounds src line_start = (c, r, n)" "line_start < length src"
  shows "line_start \<le> c" "c \<le> r" "r \<le> n" "n \<le> length src" "line_start < n"
proof -
  let ?rel = "length (takeWhile (\<lambda>b. b \<noteq> CHR 0x0A) (drop line_start src))"
  have rel: "?rel \<le> length src - line_start"
    by (metis length_drop length_takeWhile_le)
  have "line_start \<le> c \<and> c \<le> r \<and> r \<le> n \<and> n \<le> length src \<and> line_start < n"
    if "?rel = k" "k \<le> length src - line_start" for k
  proof -
    have cr: "c \<le> r" "r \<le> n" "n \<le> length src" "r \<ge> line_start" "line_start < n"
      using that assms unfolding line_bounds_def Let_def that(1) by (auto split: if_splits)
    moreover have "c = r \<or> line_start < r \<and> c = r - 1"
      using assms(1) unfolding line_bounds_def Let_def by (auto split: if_splits)
    ultimately show ?thesis by linarith
  qed
  then show "line_start \<le> c" "c \<le> r" "r \<le> n" "n \<le> length src" "line_start < n"
    using rel by blast+
qed

function run_lines :: "string \<Rightarrow> lexer \<Rightarrow> nat \<Rightarrow> lexer" where
  "run_lines src lx line_start =
     (if line_start < length src then
        (case line_bounds src line_start of
           (content_end, raw_end, newline_end) \<Rightarrow>
             (let lx' = lex_physical_line lx line_start content_end newline_end in
              if newline_end = length src then lx' else run_lines src lx' newline_end))
      else lx)"
  by pat_completeness auto
termination
  by (relation "measure (\<lambda>(src, lx, line_start). length src - line_start)")
    (auto dest!: line_bounds_order(5) [OF sym])

declare run_lines.simps [simp del]

function close_blocks :: "nat \<Rightarrow> lexer \<Rightarrow> lexer" where
  "close_blocks stop lx =
     (if 1 < length (block_indents lx)
      then close_blocks stop (emit Dedent stop stop (lx\<lparr>block_indents := butlast (block_indents lx)\<rparr>))
      else lx)"
  by pat_completeness auto
termination
  by (relation "measure (\<lambda>(stop, lx). length (block_indents lx))") (auto simp: emit_def)

declare close_blocks.simps [simp del]

definition finish_newline :: "lexer \<Rightarrow> lexer" where
  "finish_newline lx =
     (case pending_newline lx of
        Some p \<Rightarrow>
          (emit Newline (span_start (pn_span p)) (span_end (pn_span p)) (lx\<lparr>pending_newline := None\<rparr>))
            \<lparr>active_statement_base := None\<rparr>
      | None \<Rightarrow>
          (case active_statement_base lx of
             Some _ \<Rightarrow> emit Newline (length (lx_source lx)) (length (lx_source lx))
                          (lx\<lparr>active_statement_base := None\<rparr>)
           | None \<Rightarrow> lx))"

definition finish :: "lexer \<Rightarrow> lexer" where
  "finish lx =
     (let lx1 = finish_newline lx;
          stop = length (lx_source lx);
          lx2 = (case expected_block_base lx1 of
                   Some _ \<Rightarrow> lex_error LexicalIndentation stop stop
                               ''expected an indented body before end of file''
                               (lx1\<lparr>expected_block_base := None\<rparr>)
                 | None \<Rightarrow> lx1);
          lx3 = extend_diagnostics (map unclosed_diagnostic (rev (delimiters lx2)))
                  (lx2\<lparr>delimiters := []\<rparr>)
      in emit Eof stop stop (close_blocks stop lx3))"

record lex_output =
  lo_tokens :: "token list"
  lo_diagnostics :: "diagnostic list"

definition lex :: "file_id \<Rightarrow> string \<Rightarrow> lex_output" where
  "lex file src =
     (let lx = finish (run_lines src (lexer_new file src) 0)
      in \<lparr>lo_tokens = lx_tokens lx, lo_diagnostics = lx_diagnostics lx\<rparr>)"

end
