(* ===== verification/Lexer_Contract.thy ===== *)
theory Lexer_Contract
  imports Lexer
begin

text \<open>
  The contract between the token loop of the lexer and the scanners it calls: a scanner moves the
  cursor forward, stays within the line, appends exactly one token whose span is the range it
  read, and changes neither the delimiter stack nor the layout state. The locale
  \<open>token_scanner\<close> states it; each scanner of \<^verbatim>\<open>src/lexer.rs\<close> is an interpretation.
\<close>

section \<open>Operations that only report\<close>

definition only_reports :: "lexer \<Rightarrow> lexer \<Rightarrow> bool" where
  "only_reports lx lx' \<longleftrightarrow> (\<exists>ds. lx' = extend_diagnostics ds lx)"

lemma extend_diagnostics_sel [simp]:
  "lx_source (extend_diagnostics ds lx) = lx_source lx"
  "lx_file (extend_diagnostics ds lx) = lx_file lx"
  "lx_tokens (extend_diagnostics ds lx) = lx_tokens lx"
  "delimiters (extend_diagnostics ds lx) = delimiters lx"
  "lx_diagnostics (extend_diagnostics ds lx) = lx_diagnostics lx @ ds"
  "block_indents (extend_diagnostics ds lx) = block_indents lx"
  "pending_newline (extend_diagnostics ds lx) = pending_newline lx"
  "active_statement_base (extend_diagnostics ds lx) = active_statement_base lx"
  "expected_block_base (extend_diagnostics ds lx) = expected_block_base lx"
  "grouped_layout_blocks (extend_diagnostics ds lx) = grouped_layout_blocks lx"
  by (simp_all add: extend_diagnostics_def)

lemma extend_diagnostics_compose [simp]:
  "extend_diagnostics ds' (extend_diagnostics ds lx) = extend_diagnostics (ds @ ds') lx"
  by (simp add: extend_diagnostics_def)

lemma extend_diagnostics_Nil [simp]: "extend_diagnostics [] lx = lx"
  by (simp add: extend_diagnostics_def)

lemma only_reports_refl [intro, simp]: "only_reports lx lx"
  by (metis extend_diagnostics_Nil only_reports_def)

lemma only_reports_trans [trans]: "only_reports a b \<Longrightarrow> only_reports b c \<Longrightarrow> only_reports a c"
  by (auto simp: only_reports_def)

lemma lex_error_extend: "\<exists>d. lex_error c a b m lx = extend_diagnostics [d] lx \<and> category d = c"
  unfolding lex_error_def push_diagnostic_def extend_diagnostics_def
  by (intro exI [of _ "with_primary (diagnostic_new c m) (lx_span lx a b)"]) simp

lemma only_reports_error [intro, simp]: "only_reports lx (lex_error c a b m lx)"
  by (metis only_reports_def lex_error_extend)

lemma only_reports_error' [intro]: "only_reports lx lx' \<Longrightarrow> only_reports lx (lex_error c a b m lx')"
  by (rule only_reports_trans [OF _ only_reports_error])

lemma only_reports_extend [intro]: "only_reports lx lx' \<Longrightarrow> only_reports lx (extend_diagnostics ds lx')"
  by (auto simp: only_reports_def)

lemma only_reports_source: "only_reports lx lx' \<Longrightarrow> lx_source lx' = lx_source lx"
  by (auto simp: only_reports_def)

lemma only_reports_validate [intro]: "only_reports lx lx' \<Longrightarrow> only_reports lx (validate_digit_run a b r lx')"
  by (auto simp: validate_digit_run_def Let_def)

lemma only_reports_unicode: "only_reports lx (fst (decode_unicode_escape lx a b l))"
  by (auto simp: decode_unicode_escape_def Let_def)

lemma only_reports_escape: "decode_escape lx a l = (lx', v, p) \<Longrightarrow> only_reports lx lx'"
  using only_reports_unicode [of lx a _ l]
  by (auto simp: decode_escape_def Let_def split: if_splits option.splits prod.splits)
    (metis fst_conv)

lemma only_reports_quoted_loop:
  "quoted_loop lx pos line_end q d = (lx', p, d', b) \<Longrightarrow> only_reports lx lx'"
proof (induction lx pos line_end q d rule: quoted_loop.induct)
  case (1 lx pos line_end q d)
  from "1.prems" show ?case
    by (subst (asm) quoted_loop.simps)
      (auto split: if_splits prod.splits intro: only_reports_trans [OF only_reports_escape] dest: "1.IH" [rotated -1])
qed

lemma quoted_loop_bound:
  "quoted_loop lx pos line_end q d = (lx', p, d', b) \<Longrightarrow> pos \<le> line_end \<Longrightarrow> line_end \<le> length (lx_source lx)
   \<Longrightarrow> p \<le> line_end"
proof (induction lx pos line_end q d rule: quoted_loop.induct)
  case (1 lx pos line_end q d)
  show ?case
  proof (cases "pos < line_end")
    case True
    obtain l v r where de: "decode_escape lx pos line_end = (l, v, r)" by (cases "decode_escape lx pos line_end")
    obtain c w where nc: "next_char (substr (lx_source lx) pos line_end) = (c, w)" by fastforce
    have "r \<le> line_end" "pos + w \<le> line_end" "lx_source l = lx_source lx"
      using decode_escape_bound [of pos line_end lx] next_char_substr [of pos line_end "lx_source lx"]
        True 1 de nc only_reports_source [OF only_reports_escape [OF de]] by auto
    with 1 True show ?thesis
      unfolding quoted_loop.simps [of lx pos line_end q d] de nc prod.case
      by (auto split: if_splits)
  qed (use 1 in \<open>simp add: quoted_loop.simps\<close>)
qed

section \<open>Formatted strings\<close>

lemma only_reports_interpolation:
  "lex_interpolation frag lx pos line_end ts segs = (lx', p, ts', segs') \<Longrightarrow> only_reports lx lx'"
  by (auto simp: lex_interpolation_def Let_def split: option.splits prod.splits if_splits)

lemma lex_interpolation_bound:
  "lex_interpolation frag lx pos line_end ts segs = (lx', p, ts', segs') \<Longrightarrow> p \<le> line_end"
  by (auto simp: lex_interpolation_def Let_def dest!: find_interpolation_end_range
      split: option.splits prod.splits)

lemma formatted_loop_contract:
  "formatted_loop frag lx pos line_end ts buf segs = (lx', p, ts', buf', segs', b) \<Longrightarrow>
   only_reports lx lx' \<and> (pos \<le> line_end \<longrightarrow> line_end \<le> length (lx_source lx) \<longrightarrow> p \<le> line_end)"
proof (induction "line_end - pos" arbitrary: lx pos ts buf segs rule: less_induct)
  case less
  show ?case
  proof (cases "pos < line_end")
    case True
    have IH: "only_reports lx lx' \<and> (line_end \<le> length (lx_source lx) \<longrightarrow> p \<le> line_end)"
      if "formatted_loop frag l q line_end t u s = (lx', p, ts', buf', segs', b)" "pos < q"
        "only_reports lx l" "line_end \<le> length (lx_source lx) \<Longrightarrow> q \<le> line_end" for l q t u s
      using less.hyps [OF _ that(1)] that(2-4) True only_reports_source [OF that(3)]
      by (auto intro: only_reports_trans)
    obtain l v q where de: "decode_escape lx pos line_end = (l, v, q)" by (cases "decode_escape lx pos line_end")
    obtain c w where nc: "next_char (substr (lx_source lx) pos line_end) = (c, w)" by fastforce
    let ?sg = "flush_formatted_text lx segs buf ts pos"
    obtain l2 p2 t2 s2 where li: "lex_interpolation frag lx pos line_end ts ?sg = (l2, p2, t2, s2)"
      by (cases "lex_interpolation frag lx pos line_end ts ?sg")
    have b1: "line_end \<le> length (lx_source lx) \<Longrightarrow> q \<le> line_end"
      and b2: "line_end \<le> length (lx_source lx) \<Longrightarrow> pos + w \<le> line_end"
      using decode_escape_bound [of pos line_end lx] next_char_substr [of pos line_end "lx_source lx"] True de nc
      by auto
    show ?thesis
      using less.prems True
      unfolding formatted_loop.simps [of frag lx pos line_end ts buf segs] de nc li prod.case
      by (auto split: if_split_asm
          dest!: IH [OF _ decode_escape_cursor [OF de True] only_reports_escape [OF de] b1]
            IH [OF _ lex_interpolation_cursor [OF li True] only_reports_interpolation [OF li] lex_interpolation_bound [OF li]]
            IH
          intro: b2 simp: next_char_cursor [OF nc])
  qed (use less.prems in \<open>simp add: formatted_loop.simps\<close>)
qed

section \<open>The scanner contract\<close>

definition plain_kind :: "token_kind \<Rightarrow> bool" where
  \<comment> \<open>neither a delimiter nor a layout token\<close>
  "plain_kind k \<longleftrightarrow>
     opening_delimiter k = None \<and> closing_delimiter k = None \<and>
     (case k of Newline \<Rightarrow> False | Indent \<Rightarrow> False | Dedent \<Rightarrow> False | Eof \<Rightarrow> False | _ \<Rightarrow> True)"

text \<open>How a token reads back the text it covers.\<close>

definition spells :: "string \<Rightarrow> nat \<Rightarrow> nat \<Rightarrow> token_kind \<Rightarrow> bool" where
  "spells src a b k =
     (case k of
        Identifier s \<Rightarrow> s = substr src a b \<and> is_valid_identifier s \<and> keyword_of s = None
      | Keyword w \<Rightarrow> keyword_of (substr src a b) = Some w
      | IntegerLiteral raw r x \<Rightarrow> raw = substr src a b
      | FloatLiteral raw x \<Rightarrow> raw = substr src a b
      | StringLiteral s \<Rightarrow> True
      | CharacterLiteral s \<Rightarrow> True
      | FormattedString segs \<Rightarrow> True
      | DocComment s \<Rightarrow> True
      | Newline \<Rightarrow> True | Indent \<Rightarrow> True | Dedent \<Rightarrow> True | Eof \<Rightarrow> True
      | _ \<Rightarrow> (substr src a b, k) \<in> set punctuation_candidates)"

definition emits_one :: "lexer \<Rightarrow> nat \<Rightarrow> lexer \<times> nat \<Rightarrow> bool" where
  "emits_one lx pos r \<longleftrightarrow>
     (\<exists>lx' k. only_reports lx lx' \<and> plain_kind k \<and> spells (lx_source lx) pos (snd r) k
        \<and> fst r = emit k pos (snd r) lx')"

lemma emits_oneI:
  "only_reports lx lx' \<Longrightarrow> plain_kind k \<Longrightarrow> spells (lx_source lx) pos p k \<Longrightarrow>
   emits_one lx pos (emit k pos p lx', p)"
  by (auto simp: emits_one_def)

locale token_scanner =
  fixes scan :: "lexer \<Rightarrow> nat \<Rightarrow> nat \<Rightarrow> lexer \<times> nat"
    and ready :: "lexer \<Rightarrow> nat \<Rightarrow> nat \<Rightarrow> bool"
  assumes advances: "ready lx pos line_end \<Longrightarrow> pos < snd (scan lx pos line_end)"
    and bounded: "ready lx pos line_end \<Longrightarrow> line_end \<le> length (lx_source lx) \<Longrightarrow>
                  snd (scan lx pos line_end) \<le> line_end"
    and emits: "ready lx pos line_end \<Longrightarrow> line_end \<le> length (lx_source lx) \<Longrightarrow>
                emits_one lx pos (scan lx pos line_end)"
begin

lemma emitted_token:
  assumes "ready lx pos line_end" "line_end \<le> length (lx_source lx)"
  shows "\<exists>k ds. plain_kind k \<and> spells (lx_source lx) pos (snd (scan lx pos line_end)) k \<and>
           fst (scan lx pos line_end) =
             lx\<lparr>lx_tokens := lx_tokens lx @ [Token k (lx_span lx pos (snd (scan lx pos line_end)))],
                lx_diagnostics := lx_diagnostics lx @ ds\<rparr>"
proof -
  obtain lx' k ds where "lx' = extend_diagnostics ds lx"
    and k: "plain_kind k" "spells (lx_source lx) pos (snd (scan lx pos line_end)) k"
    and eq: "fst (scan lx pos line_end) = emit k pos (snd (scan lx pos line_end)) lx'"
    using emits [OF assms] by (auto simp: emits_one_def only_reports_def)
  then have "fst (scan lx pos line_end) =
      lx\<lparr>lx_tokens := lx_tokens lx @ [Token k (lx_span lx pos (snd (scan lx pos line_end)))],
         lx_diagnostics := lx_diagnostics lx @ ds\<rparr>"
    by (subst eq) (simp add: emit_def lx_span_def extend_diagnostics_def)
  with k show ?thesis by blast
qed

lemma layout_unchanged:
  assumes "ready lx pos line_end" "line_end \<le> length (lx_source lx)"
  shows "delimiters (fst (scan lx pos line_end)) = delimiters lx"
    "block_indents (fst (scan lx pos line_end)) = block_indents lx"
    "lx_source (fst (scan lx pos line_end)) = lx_source lx"
  using emitted_token [OF assms] by auto

end

lemma plain_kind_simps [simp]:
  "plain_kind (Identifier s)" "plain_kind (Keyword w)" "plain_kind (IntegerLiteral s r x)"
  "plain_kind (FloatLiteral s x)" "plain_kind (StringLiteral s)" "plain_kind (CharacterLiteral s)"
  "plain_kind (FormattedString segs)"
  by (simp_all add: plain_kind_def opening_delimiter_def closing_delimiter_def)

lemma identifier_spells:
  assumes "is_alphabetic (byte_at lx pos) \<or> byte_at lx pos = CHR ''_''" "pos < line_end"
    "line_end \<le> length (lx_source lx)"
    and stop: "stop = scan_while (lx_source lx) (pos + 1) line_end (\<lambda>b. is_alphanumeric b \<or> b = CHR ''_'')"
  shows "is_valid_identifier (substr (lx_source lx) pos stop)"
proof -
  have "pos + 1 \<le> stop" "stop \<le> line_end" unfolding stop using assms(2) by (auto intro: scan_while_ge scan_while_le)
  then have "substr (lx_source lx) pos stop = byte_at lx pos # substr (lx_source lx) (pos + 1) stop"
    using assms(3) substr_Cons [of pos stop "lx_source lx"] by (simp add: byte_at_def)
  moreover have "is_alphanumeric d \<or> d = CHR ''_''" if "d \<in> set (substr (lx_source lx) (pos + 1) stop)" for d
  proof -
    obtain i where "pos + 1 \<le> i" "i < stop" "lx_source lx ! i = d" using set_substrD [OF \<open>d \<in> _\<close>] by blast
    then show ?thesis using scan_while_holds [of "pos + 1" i "lx_source lx" line_end] stop by blast
  qed
  ultimately show ?thesis using assms(1) by (simp add: is_valid_identifier_Cons)
qed

interpretation identifier_scanner: token_scanner lex_identifier
  "\<lambda>lx pos line_end. pos < line_end \<and> (is_alphabetic (byte_at lx pos) \<or> byte_at lx pos = CHR ''_'')"
proof (unfold_locales, goal_cases)
  case (1 lx pos line_end)
  show ?case by (rule lex_identifier_advances)
next
  case (2 lx pos line_end)
  then show ?case by (simp add: lex_identifier_def Let_def scan_while_le)
next
  case (3 lx pos line_end)
  then show ?case using identifier_spells [of lx pos line_end]
    unfolding lex_identifier_def Let_def
    by (intro emits_oneI) (auto simp: spells_def split: option.split)
qed

lemma only_reports_fraction: "lex_fraction lx s l af = (lx', p, b) \<Longrightarrow> only_reports lx lx'"
  by (auto simp: lex_fraction_def Let_def split: if_splits)

lemma only_reports_exponent: "lex_exponent lx s e l af fl = (lx', p, b) \<Longrightarrow> only_reports lx lx'"
  by (auto simp: lex_exponent_def Let_def split: if_splits)

lemma lex_fraction_le: "lex_fraction lx s l af = (lx', p, b) \<Longrightarrow> s \<le> l \<Longrightarrow> p \<le> l"
  by (auto simp: lex_fraction_def Let_def scan_while_le split: if_splits)

lemma lex_exponent_le: "lex_exponent lx s e l af fl = (lx', p, b) \<Longrightarrow> e \<le> l \<Longrightarrow> p \<le> l"
  by (auto simp: lex_exponent_def Let_def scan_while_le split: if_splits)

lemma lex_prefixed_integer_contract:
  "pos + 1 < line_end \<Longrightarrow> snd (lex_prefixed_integer lx pos line_end r) \<le> line_end"
  "emits_one lx pos (lex_prefixed_integer lx pos line_end r)"
proof -
  show "snd (lex_prefixed_integer lx pos line_end r) \<le> line_end" if "pos + 1 < line_end"
    using that by (simp add: lex_prefixed_integer_def Let_def scan_while_le)
  show "emits_one lx pos (lex_prefixed_integer lx pos line_end r)"
    unfolding lex_prefixed_integer_def Let_def by (rule emits_oneI) (auto simp: spells_def)
qed

lemma lex_number_contract:
  "pos < line_end \<Longrightarrow> snd (lex_number af lx pos line_end) \<le> line_end"
  "emits_one lx pos (lex_number af lx pos line_end)"
proof -
  let ?e = "scan_while (lx_source lx) pos line_end is_digit_byte"
  obtain l1 p1 b1 where f: "lex_fraction (validate_digit_run pos ?e 10 lx) ?e line_end af = (l1, p1, b1)"
    by (cases "lex_fraction (validate_digit_run pos ?e 10 lx) ?e line_end af")
  obtain l2 p2 b2 where x: "lex_exponent l1 pos p1 line_end af b1 = (l2, p2, b2)"
    by (cases "lex_exponent l1 pos p1 line_end af b1")
  have or: "only_reports lx l2"
    using only_reports_fraction [OF f] only_reports_exponent [OF x] only_reports_validate [of lx lx]
    by (meson only_reports_refl only_reports_trans)
  show "snd (lex_number af lx pos line_end) \<le> line_end" if "pos < line_end"
    using that lex_prefixed_integer_contract(1) [of pos line_end lx]
      scan_while_le lex_exponent_le [OF x] lex_fraction_le [OF f]
    by (auto simp: lex_number_def Let_def f x split: option.splits if_splits)
  show "emits_one lx pos (lex_number af lx pos line_end)"
    unfolding lex_number_def Let_def f x prod.case using or
    by (auto simp: spells_def split: option.split intro!: lex_prefixed_integer_contract(2) emits_oneI)
qed

interpretation number_scanner: token_scanner "lex_number af"
  "\<lambda>lx pos line_end. pos < line_end \<and> is_digit (byte_at lx pos)"
  by unfold_locales (auto intro: lex_number_advances lex_number_contract)

interpretation quoted_scanner: token_scanner "lex_quoted q" "\<lambda>lx pos line_end. pos < line_end"
proof (unfold_locales, goal_cases)
  case (1 lx pos line_end)
  show ?case by (rule lex_quoted_advances)
next
  case (2 lx pos line_end)
  obtain l p d b where "quoted_loop lx (pos + 1) line_end q [] = (l, p, d, b)"
    by (cases "quoted_loop lx (pos + 1) line_end q []")
  with 2 quoted_loop_bound [OF this] show ?case by (simp add: lex_quoted_def Let_def)
next
  case (3 lx pos line_end)
  obtain l p d b where "quoted_loop lx (pos + 1) line_end q [] = (l, p, d, b)"
    by (cases "quoted_loop lx (pos + 1) line_end q []")
  with only_reports_quoted_loop [OF this] show ?case
    unfolding lex_quoted_def Let_def by (auto simp: spells_def intro!: emits_oneI)
qed

interpretation formatted_scanner: token_scanner "lex_formatted_string frag"
  "\<lambda>lx pos line_end. pos + 1 < line_end"
proof (unfold_locales, goal_cases)
  case (1 lx pos line_end)
  show ?case by (rule lex_formatted_string_advances)
next
  case (2 lx pos line_end)
  obtain l p t d s b where "formatted_loop frag lx (pos + 2) line_end (pos + 2) [] [] = (l, p, t, d, s, b)"
    by (cases "formatted_loop frag lx (pos + 2) line_end (pos + 2) [] []")
  with 2 formatted_loop_contract [OF this] show ?case by (simp add: lex_formatted_string_def Let_def)
next
  case (3 lx pos line_end)
  obtain l p t d s b where "formatted_loop frag lx (pos + 2) line_end (pos + 2) [] [] = (l, p, t, d, s, b)"
    by (cases "formatted_loop frag lx (pos + 2) line_end (pos + 2) [] []")
  with formatted_loop_contract [OF this] show ?case
    unfolding lex_formatted_string_def Let_def by (auto simp: spells_def intro!: emits_oneI)
qed

end
