(* ===== verification/Lexer_Correct.thy ===== *)
theory Lexer_Correct
  imports Lexer_Contract
begin

text \<open>
  What a run of the lexer guarantees: the specification of layout nesting and delimiter nesting
  over a token stream, the invariant of the lexer's state between two lines, and its
  preservation by every step from the first line to end of file.
\<close>

section \<open>Specifications over token streams\<close>

definition is_layout :: "token_kind \<Rightarrow> bool" where
  "is_layout k = (case k of Newline \<Rightarrow> True | Indent \<Rightarrow> True | Dedent \<Rightarrow> True | Eof \<Rightarrow> True | _ \<Rightarrow> False)"

text \<open>The block depth after a stream; \<open>None\<close> when a dedent closes no open block.\<close>

fun layout_depth :: "nat \<Rightarrow> token_kind list \<Rightarrow> nat option" where
  "layout_depth n [] = Some n"
| "layout_depth n (Indent # ks) = layout_depth (n + 1) ks"
| "layout_depth n (Dedent # ks) = (if n = 0 then None else layout_depth (n - 1) ks)"
| "layout_depth n (k # ks) = layout_depth n ks"

text \<open>The open delimiters after a stream; \<open>None\<close> at a closer that does not match.\<close>

fun track :: "delimiter list \<Rightarrow> token_kind list \<Rightarrow> delimiter list option" where
  "track st [] = Some st"
| "track st (k # ks) =
     (case opening_delimiter k of
        Some d \<Rightarrow> track (st @ [d]) ks
      | None \<Rightarrow>
          (case closing_delimiter k of
             None \<Rightarrow> track st ks
           | Some c \<Rightarrow>
               (case vlast st of
                  Some d \<Rightarrow> if d = c then track (butlast st) ks else None
                | None \<Rightarrow> None)))"

text \<open>Well-bracketed streams, as a grammar.\<close>

inductive balanced :: "token_kind list \<Rightarrow> bool" where
  empty: "balanced []"
| other: "opening_delimiter k = None \<Longrightarrow> closing_delimiter k = None \<Longrightarrow> balanced [k]"
| group: "balanced ks \<Longrightarrow> opening_delimiter l = Some d \<Longrightarrow> closing_delimiter r = Some d \<Longrightarrow>
          balanced (l # ks @ [r])"
| append: "balanced xs \<Longrightarrow> balanced ys \<Longrightarrow> balanced (xs @ ys)"

inductive_simps balanced_single: "balanced [k]"

definition delimiter_errors :: "diagnostic list \<Rightarrow> bool" where
  "delimiter_errors ds \<longleftrightarrow> (\<exists>d\<in>set ds. category d = LexicalDelimiter)"

definition spans_upto :: "file_id \<Rightarrow> nat \<Rightarrow> nat \<Rightarrow> token list \<Rightarrow> bool" where
  "spans_upto f a b ts \<longleftrightarrow>
     sorted (map (\<lambda>t. span_start (token_span t)) ts) \<and>
     (\<forall>t\<in>set ts. span_file (token_span t) = f \<and> span_start (token_span t) \<le> a
        \<and> span_start (token_span t) \<le> span_end (token_span t) \<and> span_end (token_span t) \<le> b)"

lemma delimiter_errors_append [simp]:
  "delimiter_errors (xs @ ys) \<longleftrightarrow> delimiter_errors xs \<or> delimiter_errors ys"
  by (auto simp: delimiter_errors_def)

lemma delimiter_errors_Nil [simp]: "\<not> delimiter_errors []"
  by (simp add: delimiter_errors_def)

lemma delimiter_errors_Cons [simp]:
  "delimiter_errors (d # ds) \<longleftrightarrow> category d = LexicalDelimiter \<or> delimiter_errors ds"
  by (simp add: delimiter_errors_def)

lemma layout_depth_append:
  "layout_depth n (xs @ ys) = (case layout_depth n xs of None \<Rightarrow> None | Some m \<Rightarrow> layout_depth m ys)"
  by (induction n xs rule: layout_depth.induct) auto

lemma layout_depth_plain: "list_all (\<lambda>k. \<not> is_layout k) ks \<Longrightarrow> layout_depth n ks = Some n"
  by (induction n ks rule: layout_depth.induct) (auto simp: is_layout_def)

lemma track_append:
  "track st (xs @ ys) = (case track st xs of None \<Rightarrow> None | Some st' \<Rightarrow> track st' ys)"
  by (induction st xs rule: track.induct) (auto split: option.splits)

text \<open>A depth that never underflows counts the indents and dedents of every prefix.\<close>

lemma layout_depth_counts:
  "layout_depth n ks = Some m \<Longrightarrow> n + count_list ks Indent = m + count_list ks Dedent"
  by (induction n ks rule: layout_depth.induct) (auto split: if_splits)

lemma layout_depth_prefix: "layout_depth n (xs @ ys) = Some m \<Longrightarrow> \<exists>k. layout_depth n xs = Some k"
  by (auto simp: layout_depth_append split: option.splits)

subsection \<open>Tracking agrees with the grammar\<close>

text \<open>What must still follow to close a stack of open delimiters, innermost first.\<close>

fun closes :: "delimiter list \<Rightarrow> token_kind list \<Rightarrow> bool" where
  "closes [] ks = balanced ks"
| "closes (d # st) ks = (\<exists>b c r. ks = b @ c # r \<and> balanced b \<and> closing_delimiter c = Some d \<and> closes st r)"

lemma closes_append: "balanced a \<Longrightarrow> closes st r \<Longrightarrow> closes st (a @ r)"
  by (cases st) (auto intro: balanced.append, metis append.assoc balanced.append)

lemma track_closes: "track (rev st) ks = Some [] \<Longrightarrow> closes st ks"
proof (induction ks arbitrary: st)
  case Nil
  then show ?case by (auto intro: balanced.empty)
next
  case (Cons k ks)
  consider (opens) d where "opening_delimiter k = Some d"
    | (shuts) c where "opening_delimiter k = None" "closing_delimiter k = Some c"
    | (neither) "opening_delimiter k = None" "closing_delimiter k = None"
    by fastforce
  then show ?case
  proof cases
    case (opens d)
    then have "track (rev (d # st)) ks = Some []" using Cons.prems by simp
    from Cons.IH [OF this] obtain b c r where
      "ks = b @ c # r" "balanced b" "closing_delimiter c = Some d" "closes st r" by auto
    then show ?thesis
      using opens closes_append [OF balanced.group [of b k d c]] by simp
  next
    case (shuts c)
    then obtain st' where st: "st = c # st'" and t: "track (rev st') ks = Some []"
      using Cons.prems by (cases st) (auto split: if_splits)
    show ?thesis using Cons.IH [OF t] shuts
      unfolding st closes.simps(2) by (intro exI [of _ "[]"]) (auto intro: balanced.empty)
  next
    case neither
    then have "track (rev st) ks = Some []" using Cons.prems by simp
    from closes_append [OF balanced.other [OF neither] Cons.IH [OF this]] show ?thesis by simp
  qed
qed

corollary track_balanced: "track [] ks = Some [] \<Longrightarrow> balanced ks"
  using track_closes [of "[]" ks] by simp

lemma opening_not_closing: "opening_delimiter k = Some d \<Longrightarrow> closing_delimiter k = None"
  by (auto simp: opening_delimiter_def closing_delimiter_def split: token_kind.splits)

lemma balanced_track: "balanced ks \<Longrightarrow> track st ks = Some st"
proof (induction arbitrary: st rule: balanced.induct)
  case (group ks l d r)
  have "opening_delimiter r = None"
    using group.hyps by (auto simp: opening_delimiter_def closing_delimiter_def split: token_kind.splits)
  with group show ?case by (simp add: track_append)
qed (simp_all add: track_append)

section \<open>Spans\<close>

lemma spans_upto_mono: "spans_upto f a b ts \<Longrightarrow> a \<le> a' \<Longrightarrow> b \<le> b' \<Longrightarrow> spans_upto f a' b' ts"
  unfolding spans_upto_def by (meson le_trans)

lemma spans_upto_Nil [simp]: "spans_upto f a b []"
  by (simp add: spans_upto_def)

lemma spans_upto_snoc:
  "spans_upto f a b ts \<Longrightarrow> a \<le> s \<Longrightarrow> s \<le> e \<Longrightarrow> b \<le> b' \<Longrightarrow> e \<le> b' \<Longrightarrow>
   spans_upto f s b' (ts @ [Token k (span_new f s e)])"
  by (force simp: spans_upto_def sorted_append)

lemma spans_upto_emit:
  assumes "spans_upto (lx_file lx) a b (lx_tokens lx)" "a \<le> s" "s \<le> e" "b \<le> b'" "e \<le> b'" "b' \<le> u32_max"
  shows "spans_upto (lx_file lx) s b' (lx_tokens (emit k s e lx))"
  using spans_upto_snoc [OF assms(1-5)] assms(3,5,6) by (simp add: emit_def lx_span_def)

lemma emit_sel [simp]:
  "lx_source (emit k a b lx) = lx_source lx" "lx_file (emit k a b lx) = lx_file lx"
  "lx_tokens (emit k a b lx) = lx_tokens lx @ [Token k (lx_span lx a b)]"
  "lx_diagnostics (emit k a b lx) = lx_diagnostics lx"
  "delimiters (emit k a b lx) = delimiters lx" "block_indents (emit k a b lx) = block_indents lx"
  "pending_newline (emit k a b lx) = pending_newline lx"
  "active_statement_base (emit k a b lx) = active_statement_base lx"
  "expected_block_base (emit k a b lx) = expected_block_base lx"
  "grouped_layout_blocks (emit k a b lx) = grouped_layout_blocks lx"
  by (simp_all add: emit_def)

section \<open>The tokens of a line\<close>

definition delimiter_kinds :: "lexer \<Rightarrow> delimiter list" where
  "delimiter_kinds lx = map od_kind (delimiters lx)"

text \<open>Tokens in source order, each non-empty and disjoint from the next, within a range.\<close>

fun token_chain :: "file_id \<Rightarrow> nat \<Rightarrow> nat \<Rightarrow> token list \<Rightarrow> bool" where
  "token_chain f a b [] \<longleftrightarrow> a \<le> b"
| "token_chain f a b (t # ts) \<longleftrightarrow>
     span_file (token_span t) = f \<and> a \<le> span_start (token_span t)
     \<and> span_start (token_span t) < span_end (token_span t)
     \<and> token_chain f (span_end (token_span t)) b ts"

lemma token_chain_le: "token_chain f a b ts \<Longrightarrow> a \<le> b"
  by (induction f a b ts rule: token_chain.induct) auto

lemma token_chain_append: "token_chain f a b ts \<Longrightarrow> token_chain f b c us \<Longrightarrow> token_chain f a c (ts @ us)"
proof (induction f a b ts rule: token_chain.induct)
  case (1 f a b)
  then show ?case by (cases us) auto
qed auto

lemma token_chain_weaken: "token_chain f a b ts \<Longrightarrow> a' \<le> a \<Longrightarrow> b \<le> b' \<Longrightarrow> token_chain f a' b' ts"
  by (induction f a b ts arbitrary: a' rule: token_chain.induct) auto

lemma token_chain_spans: "token_chain f a b ts \<Longrightarrow> spans_upto f b b ts \<and> (\<forall>t\<in>set ts. a \<le> span_start (token_span t))"
proof (induction f a b ts rule: token_chain.induct)
  case (2 f a b t ts)
  then have "spans_upto f b b ts" "\<forall>u\<in>set ts. span_end (token_span t) \<le> span_start (token_span u)"
    "span_end (token_span t) \<le> b"
    using token_chain_le by auto
  with 2 show ?case by (fastforce simp: spans_upto_def)
qed simp

lemma spans_upto_append_chain:
  assumes "spans_upto f a a xs" "token_chain f a b ts"
  shows "spans_upto f b b (xs @ ts)"
  using assms token_chain_spans [OF assms(2)] token_chain_le [OF assms(2)]
  by (force simp: spans_upto_def sorted_append)

definition token_spells :: "string \<Rightarrow> token \<Rightarrow> bool" where
  "token_spells src t = spells src (span_start (token_span t)) (span_end (token_span t)) (token_kind t)"

text \<open>
  The relation between the states before and after reading part of a line: tokens and diagnostics
  are appended, only the delimiter stack may also change, and it changes as the tokens say.
\<close>

definition line_read :: "lexer \<Rightarrow> nat \<Rightarrow> nat \<Rightarrow> lexer \<Rightarrow> token list \<Rightarrow> diagnostic list \<Rightarrow> bool" where
  "line_read lx a b lx' ts ds \<longleftrightarrow>
     lx' = lx\<lparr>lx_tokens := lx_tokens lx @ ts, lx_diagnostics := lx_diagnostics lx @ ds,
              delimiters := delimiters lx'\<rparr> \<and>
     (\<forall>t\<in>set ts. \<not> is_layout (token_kind t)) \<and>
     (length (lx_source lx) \<le> u32_max \<longrightarrow>
        token_chain (lx_file lx) a b ts \<and> list_all (token_spells (lx_source lx)) ts) \<and>
     (\<not> delimiter_errors ds \<longrightarrow>
        track (delimiter_kinds lx) (map token_kind ts) = Some (delimiter_kinds lx'))"

lemma line_read_Nil: "a \<le> b \<Longrightarrow> line_read lx a b lx [] []"
  by (simp add: line_read_def)

lemma line_read_sel:
  assumes "line_read lx a b lx' ts ds"
  shows "lx_source lx' = lx_source lx" "lx_file lx' = lx_file lx"
    "lx_tokens lx' = lx_tokens lx @ ts" "lx_diagnostics lx' = lx_diagnostics lx @ ds"
    "block_indents lx' = block_indents lx" "pending_newline lx' = pending_newline lx"
    "active_statement_base lx' = active_statement_base lx"
    "expected_block_base lx' = expected_block_base lx"
    "grouped_layout_blocks lx' = grouped_layout_blocks lx"
proof -
  have eq: "lx' = lx\<lparr>lx_tokens := lx_tokens lx @ ts, lx_diagnostics := lx_diagnostics lx @ ds,
              delimiters := delimiters lx'\<rparr>"
    using assms by (simp add: line_read_def)
  show "lx_source lx' = lx_source lx" "lx_file lx' = lx_file lx"
    "lx_tokens lx' = lx_tokens lx @ ts" "lx_diagnostics lx' = lx_diagnostics lx @ ds"
    "block_indents lx' = block_indents lx" "pending_newline lx' = pending_newline lx"
    "active_statement_base lx' = active_statement_base lx"
    "expected_block_base lx' = expected_block_base lx"
    "grouped_layout_blocks lx' = grouped_layout_blocks lx"
    by (subst eq, simp)+
qed

lemma line_read_trans:
  assumes "line_read lx a b lx' ts ds" "line_read lx' b c lx'' ts' ds'"
  shows "line_read lx a c lx'' (ts @ ts') (ds @ ds')"
proof -
  obtain dl where eq: "lx' = lx\<lparr>lx_tokens := lx_tokens lx @ ts, lx_diagnostics := lx_diagnostics lx @ ds,
              delimiters := dl\<rparr>"
    using assms(1) unfolding line_read_def by blast
  have "lx'' = lx'\<lparr>lx_tokens := lx_tokens lx' @ ts', lx_diagnostics := lx_diagnostics lx' @ ds',
                 delimiters := delimiters lx''\<rparr>"
    using assms(2) unfolding line_read_def by blast
  then have "lx'' = lx\<lparr>lx_tokens := lx_tokens lx @ ts @ ts', lx_diagnostics := lx_diagnostics lx @ ds @ ds',
              delimiters := delimiters lx''\<rparr>"
    unfolding eq by simp
  then show ?thesis
    using assms line_read_sel(1,2) [OF assms(1)] unfolding line_read_def
    by (auto simp: track_append intro: token_chain_append)
qed

lemma plain_kind_not_layout: "plain_kind k \<Longrightarrow> \<not> is_layout k"
  by (auto simp: plain_kind_def is_layout_def split: token_kind.splits)

text \<open>Reading one token with a scanner is a step of this kind.\<close>

context token_scanner
begin

lemma scanner_reads:
  assumes "ready lx pos line_end" "line_end \<le> length (lx_source lx)" "scan lx pos line_end = (lx', p)"
  shows "\<exists>ts ds. line_read lx pos p lx' ts ds"
proof -
  obtain k ds where k: "plain_kind k" "spells (lx_source lx) pos p k" and lx': "lx' = lx\<lparr>lx_tokens := lx_tokens lx @ [Token k (lx_span lx pos p)],
      lx_diagnostics := lx_diagnostics lx @ ds\<rparr>"
    using emitted_token [OF assms(1,2)] assms(3) by auto
  have "pos < p" "p \<le> length (lx_source lx)"
    using advances [OF assms(1)] bounded [OF assms(1,2)] assms(2,3) by auto
  then have "line_read lx pos p lx' [Token k (lx_span lx pos p)] ds"
    using k plain_kind_not_layout [OF k(1)] unfolding lx' line_read_def
    by (auto simp: token_spells_def lx_span_def plain_kind_def delimiter_kinds_def)
  then show ?thesis by blast
qed

end

lemma handle_delimiter_track:
  "\<exists>ds dl. handle_delimiter k a b lx = lx\<lparr>lx_diagnostics := lx_diagnostics lx @ ds, delimiters := dl\<rparr> \<and>
      (\<not> delimiter_errors ds \<longrightarrow> track (delimiter_kinds lx) [k] = Some (map od_kind dl))"
proof -
  obtain d where d: "lex_error LexicalDelimiter a b ''closing delimiter has no matching opener'' lx
      = lx\<lparr>lx_diagnostics := lx_diagnostics lx @ [d]\<rparr>" "category d = LexicalDelimiter"
    using lex_error_extend by (fastforce simp: extend_diagnostics_def)
  show ?thesis
  proof (cases "opening_delimiter k")
    case (Some o')
    then show ?thesis
      by (intro exI [of _ "[]"] exI [of _ "delimiters lx @ [\<lparr>od_kind = o', od_span = lx_span lx a b\<rparr>]"])
        (simp add: handle_delimiter_def delimiter_kinds_def)
  next
    case no: None
    show ?thesis
    proof (cases "closing_delimiter k")
      case None
      with no show ?thesis
        by (intro exI [of _ "[]"] exI [of _ "delimiters lx"]) (simp add: handle_delimiter_def delimiter_kinds_def)
    next
      case (Some c)
      show ?thesis
      proof (cases "vlast (delimiters lx)")
        case None
        with no Some d show ?thesis
          by (intro exI [of _ "[d]"] exI [of _ "delimiters lx"]) (simp add: handle_delimiter_def)
      next
        case top: (Some e)
        define dg where "dg = with_related (with_primary (diagnostic_new LexicalDelimiter
            (''mismatched delimiter: expected '' @ closing_name (od_kind e)
             @ '', found a different closer'')) (lx_span lx a b)) (od_span e) ''opening delimiter is here''"
        have miss: "od_kind e \<noteq> c \<Longrightarrow> handle_delimiter k a b lx
            = lx\<lparr>lx_diagnostics := lx_diagnostics lx @ [dg], delimiters := butlast (delimiters lx)\<rparr>"
          using no Some top by (simp add: handle_delimiter_def push_diagnostic_def dg_def)
        have dg: "category dg = LexicalDelimiter" by (simp add: dg_def)
        show ?thesis
        proof (cases "od_kind e = c")
          case True
          with no Some top show ?thesis
            by (intro exI [of _ "[]"] exI [of _ "butlast (delimiters lx)"])
              (simp add: handle_delimiter_def delimiter_kinds_def map_butlast)
        next
          case False
          with miss dg show ?thesis
            by (intro exI [of _ "[dg]"] exI [of _ "butlast (delimiters lx)"]) simp
        qed
      qed
    qed
  qed
qed

lemma punctuation_not_layout: "punctuation src = Some (k, n) \<Longrightarrow> \<not> is_layout k"
proof -
  assume "punctuation src = Some (k, n)"
  then obtain sp where "(sp, k) \<in> set punctuation_candidates"
    using punctuation_Some by blast
  moreover have "\<forall>(s, j) \<in> set punctuation_candidates. \<not> is_layout j"
    by (simp add: punctuation_candidates_def is_layout_def)
  ultimately show ?thesis by blast
qed

definition is_symbol :: "token_kind \<Rightarrow> bool" where
  "is_symbol k =
     (case k of
        Identifier s \<Rightarrow> False | Keyword w \<Rightarrow> False | IntegerLiteral raw r x \<Rightarrow> False
      | FloatLiteral raw x \<Rightarrow> False | StringLiteral s \<Rightarrow> False | CharacterLiteral s \<Rightarrow> False
      | FormattedString segs \<Rightarrow> False | DocComment s \<Rightarrow> False | Newline \<Rightarrow> False | Indent \<Rightarrow> False
      | Dedent \<Rightarrow> False | Eof \<Rightarrow> False | _ \<Rightarrow> True)"

lemma candidate_symbols: "(sp, k) \<in> set punctuation_candidates \<Longrightarrow> is_symbol k"
proof -
  have "\<forall>(s, j) \<in> set punctuation_candidates. is_symbol j"
    by (simp add: punctuation_candidates_def is_symbol_def)
  then show "(sp, k) \<in> set punctuation_candidates \<Longrightarrow> is_symbol k" by blast
qed

lemma spells_symbol: "is_symbol k \<Longrightarrow> spells src a b k = ((substr src a b, k) \<in> set punctuation_candidates)"
  by (cases k) (simp_all add: is_symbol_def spells_def)

lemma punctuation_spells:
  assumes "punctuation (substr src a b) = Some (k, n)" "b \<le> length src"
  shows "spells src a (a + n) k"
proof -
  obtain sp where sp: "(sp, k) \<in> set punctuation_candidates" "prefix sp (substr src a b)" "n = length sp"
    using punctuation_Some [OF assms(1)] by blast
  then have "n \<le> b - a" using prefix_length_le [OF sp(2)] assms(2) by simp
  then have "sp = substr src a (a + n)"
    using sp(2,3) by (auto simp: substr_def prefix_def) (metis append_eq_conv_conj min.absorb1 take_take)
  then show ?thesis using sp(1) candidate_symbols [OF sp(1)] by (simp add: spells_symbol)
qed

lemma symbol_reads:
  assumes "pos < line_end" "line_end \<le> length (lx_source lx)" "lex_symbol lx pos line_end = (lx', p)"
  shows "(\<exists>ts ds. line_read lx pos p lx' ts ds) \<and> p \<le> line_end"
proof (cases "punctuation (substr (lx_source lx) pos line_end)")
  case None
  obtain c w where nc: "next_char (substr (lx_source lx) pos line_end) = (c, w)" by fastforce
  have w: "0 < w" "pos + w \<le> line_end"
    using next_char_cursor [OF nc] next_char_substr [OF assms(1,2)] nc by auto
  obtain d where "lx' = extend_diagnostics [d] lx" "category d = LexicalCharacter"
    using lex_error_extend assms(3) None nc by (fastforce simp: lex_symbol_def)
  then have "line_read lx pos p lx' [] [d]"
    using assms(3) None nc w by (auto simp: line_read_def lex_symbol_def extend_diagnostics_def delimiter_kinds_def)
  then show ?thesis using assms(3) None nc w by (auto simp: lex_symbol_def)
next
  case (Some r)
  obtain k n where r: "punctuation (substr (lx_source lx) pos line_end) = Some (k, n)"
    using Some by (cases r) auto
  obtain ds dl where h: "handle_delimiter k pos (pos + n) lx
      = lx\<lparr>lx_diagnostics := lx_diagnostics lx @ ds, delimiters := dl\<rparr>"
    and tr: "\<not> delimiter_errors ds \<longrightarrow> track (delimiter_kinds lx) [k] = Some (map od_kind dl)"
    using handle_delimiter_track by blast
  have n: "0 < n" "pos + n \<le> line_end"
    using punctuation_length [OF r] assms(1,2) by auto
  have p: "p = pos + n" and lx': "lx' = emit k pos (pos + n) (lx\<lparr>lx_diagnostics := lx_diagnostics lx @ ds, delimiters := dl\<rparr>)"
    using assms(3) r h by (auto simp: lex_symbol_def)
  have "line_read lx pos p lx' [Token k (lx_span lx pos p)] ds"
    using n p tr assms(2) punctuation_not_layout [OF r] punctuation_spells [OF r assms(2)]
    unfolding lx' line_read_def
    by (auto simp: token_spells_def emit_def lx_span_def delimiter_kinds_def)
  then show ?thesis using n p by blast
qed

lemma line_step_reads:
  assumes "line_step frag lx pos line_end = (lx', np)" "pos < line_end" "line_end \<le> length (lx_source lx)"
  shows "\<exists>ts ds. line_read lx pos (case np of Some p \<Rightarrow> p | None \<Rightarrow> line_end) lx' ts ds \<and>
           (case np of Some p \<Rightarrow> p \<le> line_end | None \<Rightarrow> True)"
  using assms(1)
proof (cases rule: line_step_cases)
  case blank
  then show ?thesis using assms(2) line_read_Nil [of pos "pos + 1" lx] by auto
next
  case comment
  then show ?thesis using assms(2) line_read_Nil [of pos line_end lx] by auto
next
  case (formatted p)
  with formatted_scanner.scanner_reads [OF formatted(1) assms(3) formatted(2)]
    formatted_scanner.bounded [OF formatted(1) assms(3), of frag]
  show ?thesis by simp
next
  case (ident p)
  with identifier_scanner.scanner_reads [OF conjI [OF assms(2) ident(1)] assms(3) ident(2)]
    identifier_scanner.bounded [OF conjI [OF assms(2) ident(1)] assms(3)]
  show ?thesis by simp
next
  case (number p)
  with number_scanner.scanner_reads [OF conjI [OF assms(2) number(1)] assms(3) number(2)]
    number_scanner.bounded [OF conjI [OF assms(2) number(1)] assms(3), of "\<not> last_is_dot lx"]
  show ?thesis by simp
next
  case (quoted p)
  with quoted_scanner.scanner_reads [OF assms(2,3) quoted(1)]
    quoted_scanner.bounded [OF assms(2,3), of "byte_at lx pos"]
  show ?thesis by simp
next
  case (symbol p)
  with symbol_reads [OF assms(2,3) symbol(1)] show ?thesis by simp
qed

lemma lex_line_tokens_reads:
  "pos \<le> line_end \<Longrightarrow> line_end \<le> length (lx_source lx) \<Longrightarrow>
   \<exists>ts ds. line_read lx pos line_end (lex_line_tokens lx pos line_end) ts ds"
proof (induction "line_end - pos" arbitrary: lx pos rule: less_induct)
  case less
  show ?case
  proof (cases "pos < line_end")
    case True
    obtain lx' np where st: "line_step (lex_fragment (lx_file lx) (lx_source lx)) lx pos line_end = (lx', np)"
      by fastforce
    obtain ts ds where r: "line_read lx pos (case np of Some p \<Rightarrow> p | None \<Rightarrow> line_end) lx' ts ds"
      and b: "case np of Some p \<Rightarrow> p \<le> line_end | None \<Rightarrow> True"
      using line_step_reads [OF st True less.prems(2)] by blast
    show ?thesis
    proof (cases np)
      case None
      with r st True show ?thesis by (subst lex_line_tokens_unfold) auto
    next
      case (Some p)
      have "pos < p" using line_step_advances st True Some by blast
      then have "\<exists>ts' ds'. line_read lx' p line_end (lex_line_tokens lx' p line_end) ts' ds'"
        using b Some True less.prems line_read_sel(1) [OF r] by (intro less.hyps) auto
      then obtain ts' ds' where "line_read lx' p line_end (lex_line_tokens lx' p line_end) ts' ds'" by blast
      with r Some have "line_read lx pos line_end (lex_line_tokens lx' p line_end) (ts @ ts') (ds @ ds')"
        by (auto intro: line_read_trans)
      with st Some True show ?thesis by (subst lex_line_tokens_unfold) auto
    qed
  next
    case False
    with less.prems show ?thesis
      by (subst lex_line_tokens_unfold) (auto intro: line_read_Nil)
  qed
qed

end
