(* ===== verification/Lexer_Runs.thy ===== *)
theory Lexer_Runs
  imports Lexer_Correct
begin

text \<open>
  The invariant of the lexer's state, preserved by every step of \<open>run_lines\<close> (\<^verbatim>\<open>src/lexer.rs\<close>)
  from the first line to end of file, and what it gives for the tokens \<open>lex\<close> returns.
\<close>

section \<open>The invariant\<close>

abbreviation kinds :: "lexer \<Rightarrow> token_kind list" where
  "kinds lx \<equiv> map token_kind (lx_tokens lx)"

definition is_eof :: "token_kind \<Rightarrow> bool" where
  "is_eof k = (case k of Eof \<Rightarrow> True | _ \<Rightarrow> False)"

definition lexer_inv :: "file_id \<Rightarrow> string \<Rightarrow> nat \<Rightarrow> nat \<Rightarrow> lexer \<Rightarrow> bool" where
  \<comment> \<open>tokens so far start at or before \<open>a\<close> and end at or before \<open>b\<close>\<close>
  "lexer_inv f src a b lx \<longleftrightarrow>
     lx_file lx = f \<and> lx_source lx = src \<and> block_indents lx \<noteq> [] \<and> hd (block_indents lx) = 0
     \<and> layout_depth 0 (kinds lx) = Some (length (block_indents lx) - 1)
     \<and> list_all (\<lambda>k. \<not> is_eof k) (kinds lx)
     \<and> (\<not> delimiter_errors (lx_diagnostics lx) \<longrightarrow> track [] (kinds lx) = Some (delimiter_kinds lx))
     \<and> (length src \<le> u32_max \<longrightarrow> spans_upto f a b (lx_tokens lx) \<and> list_all (token_spells src) (lx_tokens lx))"

named_theorems inv_intros "steps that preserve the lexer's invariant"

lemma lexer_inv_update [simp]:
  "lexer_inv f src a b (lx\<lparr>pending_newline := p\<rparr>) = lexer_inv f src a b lx"
  "lexer_inv f src a b (lx\<lparr>active_statement_base := s\<rparr>) = lexer_inv f src a b lx"
  "lexer_inv f src a b (lx\<lparr>expected_block_base := s\<rparr>) = lexer_inv f src a b lx"
  "lexer_inv f src a b (lx\<lparr>grouped_layout_blocks := g\<rparr>) = lexer_inv f src a b lx"
  by (simp_all add: lexer_inv_def delimiter_kinds_def)

lemma lexer_inv_mono: "lexer_inv f src a b lx \<Longrightarrow> a \<le> a' \<Longrightarrow> b \<le> b' \<Longrightarrow> lexer_inv f src a' b' lx"
  unfolding lexer_inv_def using spans_upto_mono by blast

lemma lexer_inv_init: "lexer_inv f src 0 0 (lexer_new f src)"
  by (simp add: lexer_inv_def lexer_new_def delimiter_kinds_def)

lemma lexer_inv_error [inv_intros]:
  "lexer_inv f src a b lx \<Longrightarrow> lexer_inv f src a b (lex_error c x y m lx)"
  by (auto simp: lexer_inv_def lex_error_def push_diagnostic_def delimiter_kinds_def)

lemma error_frame [simp]:
  "pending_newline (lex_error c x y m lx) = pending_newline lx"
  "delimiters (lex_error c x y m lx) = delimiters lx"
  "block_indents (lex_error c x y m lx) = block_indents lx"
  "lx_source (lex_error c x y m lx) = lx_source lx"
  "lx_file (lex_error c x y m lx) = lx_file lx"
  "lx_tokens (lex_error c x y m lx) = lx_tokens lx"
  "expected_block_base (lex_error c x y m lx) = expected_block_base lx"
  "active_statement_base (lex_error c x y m lx) = active_statement_base lx"
  "grouped_layout_blocks (lex_error c x y m lx) = grouped_layout_blocks lx"
  by (simp_all add: lex_error_def push_diagnostic_def)

text \<open>The two ways a layout token changes the block stack, and the one that leaves it.\<close>

lemma spans_emit:
  assumes "lexer_inv f src a b lx" "a \<le> s" "s \<le> e" "b \<le> b'" "e \<le> b'" "b' \<le> length src"
    "length src \<le> u32_max"
  shows "spans_upto f s b' (lx_tokens lx @ [Token k (lx_span lx s e)])"
proof -
  have "lx_span lx s e = span_new f s e"
    using assms by (simp add: lx_span_def lexer_inv_def)
  then show ?thesis
    using assms spans_upto_snoc [of f a b "lx_tokens lx" s e b' k] by (simp add: lexer_inv_def)
qed

lemma track_snoc_plain:
  "opening_delimiter k = None \<Longrightarrow> closing_delimiter k = None \<Longrightarrow>
   track st (ks @ [k]) = track st ks"
  by (simp add: track_append split: option.splits)

lemma layout_delimiters [simp]:
  "opening_delimiter Newline = None" "closing_delimiter Newline = None"
  "opening_delimiter Indent = None" "closing_delimiter Indent = None"
  "opening_delimiter Dedent = None" "closing_delimiter Dedent = None"
  "opening_delimiter Eof = None" "closing_delimiter Eof = None"
  "opening_delimiter (DocComment d) = None" "closing_delimiter (DocComment d) = None"
  by (simp_all add: opening_delimiter_def closing_delimiter_def)

lemma layout_spells [simp]:
  "token_spells src (Token Newline sp)" "token_spells src (Token Indent sp)"
  "token_spells src (Token Dedent sp)" "token_spells src (Token Eof sp)"
  "token_spells src (Token (DocComment d) sp)"
  by (simp_all add: token_spells_def spells_def)

lemma lexer_inv_newline [inv_intros]:
  assumes "lexer_inv f src a b lx" "a \<le> s" "s \<le> e" "b \<le> b'" "e \<le> b'" "b' \<le> length src"
  shows "lexer_inv f src s b' (emit Newline s e lx)"
  using assms spans_emit [OF assms, of Newline]
  by (auto simp: lexer_inv_def layout_depth_append track_snoc_plain is_eof_def delimiter_kinds_def)

lemma lexer_inv_indent [inv_intros]:
  assumes "lexer_inv f src a b lx" "a \<le> s" "s \<le> e" "b \<le> b'" "e \<le> b'" "b' \<le> length src"
  shows "lexer_inv f src s b' (open_block level s e lx)"
  using assms spans_emit [OF assms, of Indent]
  by (auto simp: lexer_inv_def open_block_def Let_def layout_depth_append track_snoc_plain is_eof_def
      delimiter_kinds_def)

lemma lexer_inv_dedent [inv_intros]:
  assumes "lexer_inv f src a b lx" "a \<le> s" "s \<le> e" "b \<le> b'" "e \<le> b'" "b' \<le> length src"
    "1 < length (block_indents lx)"
  shows "lexer_inv f src s b' (emit Dedent s e (lx\<lparr>block_indents := butlast (block_indents lx)\<rparr>))"
proof -
  have "hd (butlast (block_indents lx)) = hd (block_indents lx)" "butlast (block_indents lx) \<noteq> []"
    using assms(7) by (cases "block_indents lx"; simp)+
  then show ?thesis
    using assms(1,7) spans_emit [OF assms(1-6), of Dedent]
    by (auto simp: lexer_inv_def layout_depth_append track_snoc_plain is_eof_def delimiter_kinds_def lx_span_def)
qed

lemma lexer_inv_line_read:
  assumes inv: "lexer_inv f src a a lx" and r: "line_read lx a b lx' ts ds"
  shows "lexer_inv f src b b lx'"
proof -
  have "layout_depth 0 (kinds lx') = layout_depth 0 (kinds lx)"
  proof -
    have "list_all (\<lambda>k. \<not> is_layout k) (map token_kind ts)"
      using r by (simp add: line_read_def list_all_iff)
    then show ?thesis
      using inv by (simp add: line_read_sel [OF r] lexer_inv_def layout_depth_append layout_depth_plain)
  qed
  moreover have "list_all (\<lambda>k. \<not> is_eof k) (map token_kind ts)"
    using r by (auto simp: line_read_def list_all_iff is_layout_def is_eof_def split: token_kind.splits)
  moreover have "track [] (kinds lx') = Some (delimiter_kinds lx')"
    if "\<not> delimiter_errors (lx_diagnostics lx')"
    using that inv r by (simp add: line_read_sel [OF r] lexer_inv_def line_read_def track_append)
  moreover have "spans_upto f b b (lx_tokens lx') \<and> list_all (token_spells src) (lx_tokens lx')" if "length src \<le> u32_max"
    using that inv r
    by (auto simp: line_read_sel [OF r] lexer_inv_def line_read_def intro: spans_upto_append_chain)
  ultimately show ?thesis
    using inv by (simp add: line_read_sel [OF r] lexer_inv_def)
qed

section \<open>The indentation engine\<close>

definition indent_frame :: "lexer \<Rightarrow> lexer \<Rightarrow> bool" where
  "indent_frame lx lx' \<longleftrightarrow>
     lx_source lx' = lx_source lx \<and> lx_file lx' = lx_file lx \<and> pending_newline lx' = pending_newline lx
     \<and> delimiters lx' = delimiters lx \<and> grouped_layout_blocks lx' = grouped_layout_blocks lx
     \<and> (\<forall>f src a b. lexer_inv f src a b lx \<longrightarrow> lexer_inv f src a b lx')"

lemma indent_frame_error: "indent_frame lx (if r then lx else lex_error c x y m lx)"
  by (simp add: indent_frame_def lexer_inv_error)

lemma indent_frame_trans: "indent_frame a b \<Longrightarrow> indent_frame b c \<Longrightarrow> indent_frame a c"
  by (simp add: indent_frame_def)

lemma scan_indent_frame:
  "scan_indent lx pos le i r = (lx', p, i') \<Longrightarrow> indent_frame lx lx' \<and> pos \<le> p \<and> (pos \<le> le \<longrightarrow> p \<le> le)"
proof (induction lx pos le i r rule: scan_indent.induct)
  case (1 lx pos le i r)
  note u = "1.prems" [unfolded scan_indent.simps [of lx pos le i r]]
  consider (sp) "pos < le \<and> byte_at lx pos = CHR '' ''"
    | (tab) "\<not> (pos < le \<and> byte_at lx pos = CHR '' '')" "pos < le \<and> byte_at lx pos = CHR 0x09"
    | (stop) "\<not> (pos < le \<and> byte_at lx pos = CHR '' '')" "\<not> (pos < le \<and> byte_at lx pos = CHR 0x09)"
    by blast
  then show ?case
  proof cases
    case sp
    from "1.IH"(1) [OF sp u [unfolded if_P [OF sp]]] sp show ?thesis by linarith
  next
    case tab
    note ih = "1.IH"(2) [OF tab u [unfolded if_not_P [OF tab(1)] if_P [OF tab(2)]]]
    from ih have "indent_frame lx lx'" by (blast intro: indent_frame_trans indent_frame_error)
    with ih tab(2) show ?thesis by linarith
  next
    case stop
    with u show ?thesis by (simp add: indent_frame_def)
  qed
qed

lemma lexer_inv_pop_dedents:
  assumes "lexer_inv f src a b lx" "a \<le> s" "s \<le> e" "b \<le> e" "e \<le> length src"
  shows "lexer_inv f src s e (pop_dedents lx indent s e)"
  using assms
proof (induction lx indent s e arbitrary: a b rule: pop_dedents.induct)
  case (1 lx indent s e)
  show ?case
  proof (cases "\<exists>l. vlast (block_indents lx) = Some l \<and> indent < l")
    case True
    then obtain l where l: "vlast (block_indents lx) = Some l" "indent < l" by blast
    have "1 < length (block_indents lx)"
      using "1.prems"(1) l vlast_SomeD [OF l(1)]
      by (cases "block_indents lx") (auto simp: lexer_inv_def split: if_splits)
    then have "lexer_inv f src s e (emit Dedent s e (lx\<lparr>block_indents := butlast (block_indents lx)\<rparr>))"
      by (rule lexer_inv_dedent [OF "1.prems"(1-4) order_refl "1.prems"(5)])
    from "1.IH" [OF l this] show ?thesis
      using "1.prems" l by (subst pop_dedents.simps) simp
  next
    case False
    then show ?thesis
      using "1.prems" by (subst pop_dedents.simps) (auto intro: lexer_inv_mono split: option.split)
  qed
qed

lemma lexer_inv_apply_indentation [inv_intros]:
  assumes "lexer_inv f src a b lx" "a \<le> s" "s \<le> e" "b \<le> e" "e \<le> length src"
  shows "lexer_inv f src s e (apply_indentation indent s e lx)"
  using assms lexer_inv_pop_dedents [OF _ assms(2-5)] lexer_inv_mono [OF assms(1,2,4)]
  by (auto simp: apply_indentation_def Let_def intro: lexer_inv_error)

lemma lexer_inv_enter_block [inv_intros]:
  assumes "lexer_inv f src a b lx" "a \<le> s" "s \<le> e" "b \<le> e" "e \<le> length src"
  shows "lexer_inv f src s e (enter_block lx indent s e)"
  using assms
  by (auto simp: enter_block_def Let_def split: option.split intro!: lexer_inv_apply_indentation
      lexer_inv_indent lexer_inv_error)

lemma lexer_inv_pop_grouped: "lexer_inv f src a b (pop_grouped_layout lx) = lexer_inv f src a b lx"
proof (induction lx rule: pop_grouped_layout.induct)
  case (1 lx)
  then show ?case by (subst pop_grouped_layout.simps) (auto split: option.split)
qed

lemma pop_grouped_frame:
  "lx_file (pop_grouped_layout lx) = lx_file lx \<and> pending_newline (pop_grouped_layout lx) = pending_newline lx
   \<and> delimiters (pop_grouped_layout lx) = delimiters lx \<and> lx_source (pop_grouped_layout lx) = lx_source lx"
proof (induction lx rule: pop_grouped_layout.induct)
  case (1 lx)
  then show ?case by (subst (1 2 3 4) pop_grouped_layout.simps) (auto split: option.split)
qed

section \<open>Lines\<close>

text \<open>
  Between two lines, a newline that is still pending lies after every token, before the next line,
  and the next line will consume it.
\<close>

definition pending_ok :: "nat \<Rightarrow> lexer \<Rightarrow> bool" where
  "pending_ok start lx \<longleftrightarrow>
     (case pending_newline lx of
        None \<Rightarrow> True
      | Some p \<Rightarrow>
          (delimiters lx = [] \<or> grouped_layout_blocks lx \<noteq> [])
          \<and> span_start (pn_span p) \<le> span_end (pn_span p)
          \<and> span_end (pn_span p) \<le> start
          \<and> lexer_inv (lx_file lx) (lx_source lx) (span_start (pn_span p)) (span_start (pn_span p)) lx)"

definition line_inv :: "file_id \<Rightarrow> string \<Rightarrow> nat \<Rightarrow> lexer \<Rightarrow> bool" where
  "line_inv f src start lx \<longleftrightarrow> lexer_inv f src start start lx \<and> pending_ok start lx \<and> start \<le> length src"

lemma line_inv_init: "line_inv f src 0 (lexer_new f src)"
  by (simp add: line_inv_def lexer_inv_init pending_ok_def) (simp add: lexer_new_def)

lemma pop_dedents_pending: "pending_newline (pop_dedents lx i s e) = pending_newline lx"
proof (induction lx i s e rule: pop_dedents.induct)
  case (1 lx i s e)
  then show ?case by (subst pop_dedents.simps) (auto split: option.split)
qed

lemma apply_indentation_pending:
  "pending_newline (apply_indentation i s e lx) = pending_newline lx"
  by (simp add: apply_indentation_def Let_def pop_dedents_pending)

lemma open_block_pending: "pending_newline (open_block l s e lx) = pending_newline lx"
  by (simp add: open_block_def Let_def)

lemma enter_block_frame: "pending_newline (enter_block lx i s e) = pending_newline lx"
  by (simp add: enter_block_def Let_def apply_indentation_pending open_block_pending split: option.split)

lemma prepare_logical_line_inv:
  assumes "prepare_logical_line lx i d s e = (lx', c)" "line_inv f src s lx" "s \<le> e" "e \<le> length src"
  shows "lexer_inv f src s e lx' \<and> pending_newline lx' = None"
proof (cases "pending_newline lx")
  case None
  then show ?thesis
    using assms lexer_inv_enter_block [of f src s s lx s e i] enter_block_frame [of lx i s e]
    by (auto simp: prepare_logical_line_def line_inv_def)
next
  case (Some p)
  show ?thesis
  proof (cases "\<not> d \<and> i = pn_statement_base p + 4")
    case True
    with Some assms show ?thesis
      using lexer_inv_mono [of f src s s lx s e]
      by (auto simp: prepare_logical_line_def line_inv_def)
  next
    case False
    let ?a = "span_start (pn_span p)" and ?b = "span_end (pn_span p)"
    let ?lx = "emit Newline ?a ?b lx\<lparr>pending_newline := None, active_statement_base := None\<rparr>"
    have "lx_file lx = f" "lx_source lx = src" using assms(2) by (simp_all add: line_inv_def lexer_inv_def)
    then have p: "?a \<le> ?b" "?b \<le> s" "lexer_inv f src ?a ?a lx"
      using assms(2) Some unfolding line_inv_def pending_ok_def by simp_all
    have "lexer_inv f src ?a ?b (emit Newline ?a ?b lx)"
      using p assms(3,4) by (intro lexer_inv_newline [OF p(3)]) auto
    then have "lexer_inv f src s e (enter_block ?lx i s e)"
      using p assms(3,4) by (intro lexer_inv_enter_block [of f src ?a ?b]) auto
    with False Some assms(1) show ?thesis
      by (auto simp: prepare_logical_line_def Let_def enter_block_frame)
  qed
qed

lemma begin_line_inv:
  assumes "line_inv f src s lx" "s \<le> e" "e \<le> length src"
  shows "lexer_inv f src e e (begin_line lx i d s e) \<and> pending_newline (begin_line lx i d s e) = None"
proof (cases "delimiters lx = [] \<or> grouped_layout_blocks lx \<noteq> [] \<or> expected_block_base lx \<noteq> None")
  case True
  obtain lx' c where pl: "prepare_logical_line lx i d s e = (lx', c)" by fastforce
  have "lexer_inv f src e e lx'" "pending_newline lx' = None"
    using prepare_logical_line_inv [OF pl assms] lexer_inv_mono [of f src s e lx' e e] assms(2) by auto
  with pl True show ?thesis by (auto simp: begin_line_def Let_def)
next
  case False
  then have "pending_newline lx = None"
    using assms(1) by (auto simp: line_inv_def pending_ok_def split: option.splits)
  with False show ?thesis
    using assms lexer_inv_mono [of f src s s lx e e] by (auto simp: begin_line_def Let_def line_inv_def)
qed

lemma lexer_inv_doc_comment:
  assumes "lexer_inv f src s s lx" "s \<le> e" "e \<le> length src"
  shows "lexer_inv f src e e (emit (DocComment txt) s e lx)"
proof -
  have "lexer_inv f src s e (emit (DocComment txt) s e lx)"
    using assms spans_emit [OF assms(1) order_refl assms(2,2) order_refl assms(3), of "DocComment txt"]
    by (auto simp: lexer_inv_def layout_depth_append track_snoc_plain is_eof_def delimiter_kinds_def)
  then show ?thesis using assms(2) by (rule lexer_inv_mono) simp
qed

lemma lexer_inv_big: "u32_max < length src \<Longrightarrow> lexer_inv f src a b lx \<Longrightarrow> lexer_inv f src a' b' lx"
  by (simp add: lexer_inv_def)

lemma lexer_inv_line_break:
  assumes "lexer_inv f src le le lx" "le \<le> ne" "ne \<le> length src"
  shows "lexer_inv f src ne ne (emit Newline (u32_or_max le) (u32_or_max ne) lx)"
proof (cases "length src \<le> u32_max")
  case True
  then show ?thesis
    using lexer_inv_mono [OF lexer_inv_newline [OF assms(1) order_refl assms(2,2) order_refl assms(3)] assms(2) order_refl]
      assms by simp
next
  case False
  then have "lexer_inv f src 0 0 lx" using assms(1) lexer_inv_big by fastforce
  then have "lexer_inv f src (u32_or_max le) (u32_or_max ne) (emit Newline (u32_or_max le) (u32_or_max ne) lx)"
    using assms by (intro lexer_inv_newline) (auto simp: u32_or_max_eq_min)
  then show ?thesis using False lexer_inv_big by fastforce
qed

lemma end_line_inv:
  assumes inv: "lexer_inv f src le le lx" and "pending_newline lx = None" and b: "le \<le> ne" "ne \<le> length src"
    and open_ok: "delimiters lx = [] \<or> grouped_layout_blocks lx \<noteq> [] \<or> ends_block_header lx"
  shows "line_inv f src ne (end_line lx i d le ne)"
proof -
  have sp: "lx_span lx (if le < ne then le else ne) ne = span_new f (u32_or_max le) (u32_or_max ne)"
    using b inv by (auto simp: lx_span_def lexer_inv_def)
  have id: "lexer_inv f src ne ne lx" using inv b(1,1) by (rule lexer_inv_mono)
  have ux: "lexer_inv f src (u32_or_max le) (u32_or_max le) lx"
    using inv b lexer_inv_big [of src f le le lx] by (cases "length src \<le> u32_max") auto
  show ?thesis
    unfolding end_line_def Let_def sp span_new_sel
    using assms(2) open_ok b id ux inv [unfolded lexer_inv_def] lexer_inv_line_break [OF _ b] inv
    by (auto simp: line_inv_def pending_ok_def ends_block_header_def u32_or_max_eq_min
        split: option.split)
qed

lemma lex_physical_line_inv:
  assumes inv: "line_inv f src s lx" and b: "s \<le> le" "le \<le> ne" "ne \<le> length src"
  shows "line_inv f src ne (lex_physical_line lx s le ne)"
proof -
  obtain lx1 cs i where si: "scan_indent lx s le 0 False = (lx1, cs, i)"
    by (cases "scan_indent lx s le 0 False")
  note sf = scan_indent_frame [OF si]
  have cs: "s \<le> cs" "cs \<le> le" and fr: "indent_frame lx lx1" using sf b by auto
  have one: "line_inv f src s lx1"
    using inv fr by (auto simp: line_inv_def pending_ok_def indent_frame_def split: option.splits)
  have up: "line_inv f src ne lx'" if "line_inv f src s lx'" for lx'
    using that b lexer_inv_mono [of f src s s lx' ne ne]
    by (auto simp: line_inv_def pending_ok_def split: option.splits)
  let ?rest = "substr (lx_source lx1) cs le"
  show ?thesis
  proof (cases "?rest = [] \<or> (prefix ''//'' ?rest \<and> \<not> prefix ''///'' ?rest)")
    case True
    then show ?thesis using si up [OF one] by (simp add: lex_physical_line_def)
  next
    case False
    let ?d = "prefix ''///'' ?rest"
    let ?lx2 = "begin_line lx1 i ?d s cs"
    have two: "lexer_inv f src cs cs ?lx2" "pending_newline ?lx2 = None"
      using begin_line_inv [OF one cs(1)] cs b by auto
    define lx3 where "lx3 = (if ?d then emit (DocComment (strip_space (drop 3 ?rest))) cs le ?lx2
                             else lex_line_tokens ?lx2 cs le)"
    have three: "lexer_inv f src le le lx3 \<and> pending_newline lx3 = None"
    proof (cases ?d)
      case True
      then show ?thesis using lexer_inv_doc_comment [OF two(1) cs(2)] b two(2) by (simp add: lx3_def)
    next
      case nd: False
      have "le \<le> length (lx_source ?lx2)" using two(1) b by (simp add: lexer_inv_def)
      from lex_line_tokens_reads [OF cs(2) this] obtain ts ds where
        "line_read ?lx2 cs le (lex_line_tokens ?lx2 cs le) ts ds" by blast
      from lexer_inv_line_read [OF two(1) this] line_read_sel(6) [OF this] two(2) nd show ?thesis
        by (simp add: lx3_def)
    qed
    let ?lx4 = "pop_grouped_layout lx3"
    have four: "lexer_inv f src le le ?lx4" "pending_newline ?lx4 = None"
      using three pop_grouped_frame by (simp_all add: lexer_inv_pop_grouped)
    have skip: "line_inv f src ne ?lx4"
      using four b lexer_inv_mono [OF four(1) b(2,2)] by (simp add: line_inv_def pending_ok_def)
    show ?thesis
      unfolding lex_physical_line_def si prod.case Let_def if_not_P [OF False] lx3_def [symmetric]
      using end_line_inv [OF four b(2,3)] skip by (simp only: split: if_split) blast
  qed
qed

lemma run_lines_inv: "line_inv f src s lx \<Longrightarrow> line_inv f src (length src) (run_lines src lx s)"
proof (induction src lx s rule: run_lines.induct)
  case (1 src lx s)
  show ?case
  proof (cases "s < length src")
    case True
    obtain c r n where lb: "line_bounds src s = (c, r, n)" by (cases "line_bounds src s")
    note o = line_bounds_order [OF lb True]
    have next': "line_inv f src n (lex_physical_line lx s c n)"
      using o by (intro lex_physical_line_inv "1.prems") auto
    then show ?thesis
      using "1.IH" [OF True lb [symmetric] refl refl] True lb
      by (subst run_lines.simps) (auto simp: Let_def)
  next
    case False
    then show ?thesis using "1.prems"
      by (subst run_lines.simps) (auto simp: line_inv_def)
  qed
qed

section \<open>End of file\<close>

lemma close_blocks_inv:
  "lexer_inv f src (length src) (length src) lx \<Longrightarrow>
   lexer_inv f src (length src) (length src) (close_blocks (length src) lx)
   \<and> length (block_indents (close_blocks (length src) lx)) = 1
   \<and> lx_diagnostics (close_blocks (length src) lx) = lx_diagnostics lx
   \<and> delimiters (close_blocks (length src) lx) = delimiters lx"
proof (induction "length src" lx rule: close_blocks.induct)
  case (1 lx)
  show ?case
  proof (cases "1 < length (block_indents lx)")
    case True
    have "lexer_inv f src (length src) (length src)
        (emit Dedent (length src) (length src) (lx\<lparr>block_indents := butlast (block_indents lx)\<rparr>))"
      by (rule lexer_inv_dedent [OF "1.prems" order_refl order_refl order_refl order_refl order_refl True])
    from "1.hyps" [OF True this] show ?thesis
      using True by (subst (1 2 3 4) close_blocks.simps) simp
  next
    case False
    moreover have "block_indents lx \<noteq> []" using "1.prems" by (simp add: lexer_inv_def)
    ultimately have "length (block_indents lx) = 1"
      by (metis One_nat_def Suc_lessI length_greater_0_conv)
    with False "1.prems" show ?thesis by (subst (1 2 3 4) close_blocks.simps) simp
  qed
qed

lemma finish_newline_inv:
  assumes "line_inv f src (length src) lx"
  shows "lexer_inv f src (length src) (length src) (finish_newline lx)"
proof (cases "pending_newline lx")
  case None
  have nl: "lexer_inv f src (length src) (length src) (emit Newline (length src) (length src) lx')"
    if "lexer_inv f src (length src) (length src) lx'" for lx'
    by (rule lexer_inv_newline [OF that]) simp_all
  have "lx_source lx = src" using assms by (simp add: line_inv_def lexer_inv_def)
  with None assms nl show ?thesis
    by (auto simp: finish_newline_def line_inv_def split: option.split)
next
  case (Some p)
  let ?a = "span_start (pn_span p)" and ?b = "span_end (pn_span p)"
  have "lx_file lx = f" "lx_source lx = src" using assms by (simp_all add: line_inv_def lexer_inv_def)
  then have p: "?a \<le> ?b" "?b \<le> length src" "lexer_inv f src ?a ?a lx"
    using assms Some unfolding line_inv_def pending_ok_def by simp_all
  have "lexer_inv f src ?a ?b (emit Newline ?a ?b (lx\<lparr>pending_newline := None\<rparr>))"
    using p by (intro lexer_inv_newline [of f src ?a ?a]) auto
  then have "lexer_inv f src (length src) (length src) (emit Newline ?a ?b (lx\<lparr>pending_newline := None\<rparr>))"
    by (rule lexer_inv_mono) (use p in auto)
  with Some show ?thesis by (simp add: finish_newline_def)
qed

text \<open>What is left of the invariant once the file is closed.\<close>

lemma lex_closed:
  obtains lx where
    "lex f src = \<lparr>lo_tokens = lx_tokens lx @ [Token Eof (lx_span lx (length src) (length src))],
                   lo_diagnostics = lx_diagnostics lx\<rparr>"
    "lexer_inv f src (length src) (length src) lx" "length (block_indents lx) = 1" "delimiters lx = []"
proof -
  let ?n = "length src"
  let ?r = "run_lines src (lexer_new f src) 0"
  have l: "line_inv f src ?n ?r" by (rule run_lines_inv [OF line_inv_init])
  have src: "lx_source ?r = src" using l by (simp add: line_inv_def lexer_inv_def)
  let ?a = "finish_newline ?r"
  have a: "lexer_inv f src ?n ?n ?a" by (rule finish_newline_inv [OF l])
  define b where "b = (case expected_block_base ?a of
                   Some _ \<Rightarrow> lex_error LexicalIndentation ?n ?n
                               ''expected an indented body before end of file''
                               (?a\<lparr>expected_block_base := None\<rparr>)
                 | None \<Rightarrow> ?a)"
  have b: "lexer_inv f src ?n ?n b"
    using a by (auto simp: b_def intro: lexer_inv_error split: option.split)
  define c where "c = extend_diagnostics (map unclosed_diagnostic (rev (delimiters b))) (b\<lparr>delimiters := []\<rparr>)"
  have "delimiter_errors (map unclosed_diagnostic (rev (delimiters b)))" if "delimiters b \<noteq> []"
    using that by (cases "rev (delimiters b)") (auto simp: unclosed_diagnostic_def)
  then have c: "lexer_inv f src ?n ?n c" "delimiters c = []"
    using b by (auto simp: c_def lexer_inv_def extend_diagnostics_def delimiter_kinds_def)
  let ?d = "close_blocks ?n c"
  from close_blocks_inv [OF c(1)] c(2) have d: "lexer_inv f src ?n ?n ?d" "length (block_indents ?d) = 1"
    "delimiters ?d = []" by simp_all
  moreover have "finish ?r = emit Eof ?n ?n ?d"
    by (simp add: finish_def Let_def src b_def c_def)
  ultimately show ?thesis
    by (intro that [of ?d]) (simp_all add: lex_def Let_def)
qed

end
