(* ===== verification/Lexer_Theorems.thy ===== *)
theory Lexer_Theorems
  imports Lexer_Runs
begin

text \<open>
  What \<open>lex\<close> (\<^verbatim>\<open>src/lexer.rs\<close>) promises its callers: the shape of the token stream it returns for
  any source text, and which literals it accepts without a diagnostic.
\<close>

section \<open>Whole files\<close>

lemma lex_eof_last:
  "\<exists>ts. lo_tokens (lex f src) = ts @ [Token Eof (span_new f (u32_or_max (length src)) (u32_or_max (length src)))]
     \<and> list_all (\<lambda>t. \<not> is_eof (token_kind t)) ts"
proof -
  obtain lx where "lex f src = \<lparr>lo_tokens = lx_tokens lx @ [Token Eof (lx_span lx (length src) (length src))],
                   lo_diagnostics = lx_diagnostics lx\<rparr>"
    "lexer_inv f src (length src) (length src) lx"
    by (rule lex_closed)
  then show ?thesis by (auto simp: lexer_inv_def lx_span_def list_all_iff)
qed

lemma lex_tracks:
  assumes "\<not> delimiter_errors (lo_diagnostics (lex f src))"
  shows "track [] (map token_kind (lo_tokens (lex f src))) = Some []"
proof -
  obtain lx where "lex f src = \<lparr>lo_tokens = lx_tokens lx @ [Token Eof (lx_span lx (length src) (length src))],
                   lo_diagnostics = lx_diagnostics lx\<rparr>"
    "lexer_inv f src (length src) (length src) lx" "delimiters lx = []"
    by (rule lex_closed)
  with assms show ?thesis by (simp add: lexer_inv_def track_snoc_plain delimiter_kinds_def)
qed

text \<open>
  C8: The stream ends with exactly one end-of-file token, placed at the end of the text.
\<close>

theorem lex_single_eof:
  "\<exists>ts. lo_tokens (lex f src) = ts @ [Token Eof (span_new f (u32_or_max (length src)) (u32_or_max (length src)))]
     \<and> list_all (\<lambda>t. \<not> is_eof (token_kind t)) ts"
  by (rule lex_eof_last)

text \<open>
  C4: Indents and dedents nest: no dedent closes a block that is not open, and every block is
  closed at end of file, whatever the text.
\<close>

theorem lex_layout_nests: "layout_depth 0 (map token_kind (lo_tokens (lex f src))) = Some 0"
proof -
  obtain lx where "lex f src = \<lparr>lo_tokens = lx_tokens lx @ [Token Eof (lx_span lx (length src) (length src))],
                   lo_diagnostics = lx_diagnostics lx\<rparr>"
    "lexer_inv f src (length src) (length src) lx" "length (block_indents lx) = 1"
    by (rule lex_closed)
  then show ?thesis by (simp add: lexer_inv_def layout_depth_append)
qed

text \<open>
  C7: In a file of at most \<open>u32::MAX\<close> bytes the tokens appear in source order, each with a span of
  this file that does not leave the text.
\<close>

theorem lex_spans_ordered:
  assumes "length src \<le> u32_max"
  shows "spans_upto f (length src) (length src) (lo_tokens (lex f src))"
proof -
  obtain lx where l: "lex f src = \<lparr>lo_tokens = lx_tokens lx @ [Token Eof (lx_span lx (length src) (length src))],
                   lo_diagnostics = lx_diagnostics lx\<rparr>"
    "lexer_inv f src (length src) (length src) lx"
    by (rule lex_closed)
  show ?thesis
    using spans_emit [OF l(2) order_refl order_refl order_refl order_refl order_refl assms] l(1) by simp
qed

text \<open>
  C6: Every identifier, keyword, number and symbol token carries exactly the text its span covers,
  read with the lexer's tables; identifiers are valid and are not keywords.
\<close>

theorem lex_tokens_spell_source:
  assumes "length src \<le> u32_max"
  shows "list_all (token_spells src) (lo_tokens (lex f src))"
proof -
  obtain lx where "lex f src = \<lparr>lo_tokens = lx_tokens lx @ [Token Eof (lx_span lx (length src) (length src))],
                   lo_diagnostics = lx_diagnostics lx\<rparr>"
    "lexer_inv f src (length src) (length src) lx"
    by (rule lex_closed)
  with assms show ?thesis by (simp add: lexer_inv_def)
qed

text \<open>
  C5: When no delimiter diagnostic is reported, the stream is well bracketed.
\<close>

theorem lex_delimiters_balanced:
  assumes "\<not> delimiter_errors (lo_diagnostics (lex f src))"
  shows "balanced (map token_kind (lo_tokens (lex f src)))"
  by (rule track_balanced [OF lex_tracks [OF assms]])

definition sample_source :: string where
  "sample_source = ''f(a):'' @ [CHR 0x0A] @ ''    [1]'' @ [CHR 0x0A]"

lemma sample_small: "length sample_source \<le> u32_max"
  by (simp add: sample_source_def u32_max_def)

lemma lex_spans_ordered_witness:
  "spans_upto 0 (length sample_source) (length sample_source) (lo_tokens (lex 0 sample_source))"
  by (rule lex_spans_ordered [OF sample_small])

lemma lex_tokens_spell_source_witness:
  "list_all (token_spells sample_source) (lo_tokens (lex 0 sample_source))"
  by (rule lex_tokens_spell_source [OF sample_small])

lemma sample_clean: "lo_diagnostics (lex 0 sample_source) = []"
  by code_simp

lemma lex_delimiters_balanced_witness:
  "balanced (map token_kind (lo_tokens (lex 0 sample_source)))"
  using lex_delimiters_balanced [of 0 sample_source] by (simp add: sample_clean)

section \<open>Symbols\<close>

text \<open>
  The symbol taken at a position is the longest one of the table that the text continues with.
\<close>

theorem punctuation_longest:
  "punctuation src = Some (k, n) \<Longrightarrow> (sp, j) \<in> set punctuation_candidates \<Longrightarrow> prefix sp src \<Longrightarrow>
   length sp \<le> n"
proof -
  assume "punctuation src = Some (k, n)" and sp: "(sp, j) \<in> set punctuation_candidates" "prefix sp src"
  then obtain i s where i: "i < length punctuation_candidates" "punctuation_candidates ! i = (s, k)" "n = length s"
    and first: "\<forall>l<i. \<not> prefix (fst (punctuation_candidates ! l)) src"
    by (auto simp: punctuation_def find_Some_iff split_beta) (metis prod.collapse)
  obtain l where l: "l < length punctuation_candidates" "punctuation_candidates ! l = (sp, j)"
    using sp(1) by (auto simp: in_set_conv_nth)
  have "sorted_wrt (\<lambda>x y. length (fst y) \<le> length (fst x)) punctuation_candidates"
    by (simp add: punctuation_candidates_def)
  then have "i < l \<Longrightarrow> length sp \<le> length s"
    using i l by (force simp: sorted_wrt_iff_nth_less)
  moreover have "\<not> l < i" using first l(2) sp(2) by auto
  moreover have "l = i \<Longrightarrow> length sp \<le> length s" using i l by simp
  ultimately show ?thesis using i(3) by linarith
qed

lemma punctuation_longest_witness: "punctuation ''<<=x'' = Some (ShlAssign, 3) \<and> length ''<<'' \<le> (3::nat)"
proof -
  have p: "punctuation ''<<=x'' = Some (ShlAssign, 3)" by code_simp
  have "(''<<'', Shl) \<in> set punctuation_candidates" by (simp add: punctuation_candidates_def)
  from punctuation_longest [OF p this] p show ?thesis by simp
qed

section \<open>Numbers\<close>

text \<open>
  The literals of the language, as a grammar: digit runs with single inner underscores, an optional
  radix prefix, fraction and exponent, and a suffix of the literal's own family.
\<close>

definition digit_ok :: "nat \<Rightarrow> char \<Rightarrow> bool" where
  "digit_ok r b \<longleftrightarrow> b = CHR ''_'' \<or> (case digit_value b of Some v \<Rightarrow> v < r | None \<Rightarrow> False)"

definition digit_run :: "nat \<Rightarrow> string \<Rightarrow> bool" where
  "digit_run r s \<longleftrightarrow>
     s \<noteq> [] \<and> hd s \<noteq> CHR ''_'' \<and> last s \<noteq> CHR ''_'' \<and> \<not> has_double_underscore s
     \<and> list_all (digit_ok r) s"

definition integer_suffix :: "string \<Rightarrow> bool" where
  "integer_suffix x \<longleftrightarrow> x = [] \<or> (\<exists>t. parse_numeric_suffix x = Some t \<and> t \<noteq> F32 \<and> t \<noteq> F64)"

definition float_suffix :: "string \<Rightarrow> bool" where
  "float_suffix x \<longleftrightarrow> x = [] \<or> parse_numeric_suffix x = Some F32 \<or> parse_numeric_suffix x = Some F64"

inductive exponent :: "string \<Rightarrow> bool" where
  "e \<in> {CHR ''e'', CHR ''E''} \<Longrightarrow> sign \<in> {[], ''+'', ''-''} \<Longrightarrow> digit_run 10 d \<Longrightarrow> exponent (e # sign @ d)"

inductive number_literal :: "string \<Rightarrow> bool" where
  prefixed: "radix_of p = Some r \<Longrightarrow> digit_run r d \<Longrightarrow> integer_suffix x \<Longrightarrow>
             number_literal (CHR ''0'' # p # d @ x)"
| decimal: "digit_run 10 d \<Longrightarrow> integer_suffix x \<Longrightarrow> number_literal (d @ x)"
| fraction: "digit_run 10 d \<Longrightarrow> digit_run 10 g \<Longrightarrow> e = [] \<or> exponent e \<Longrightarrow> float_suffix x \<Longrightarrow>
             number_literal (d @ CHR ''.'' # g @ e @ x)"
| scientific: "digit_run 10 d \<Longrightarrow> exponent e \<Longrightarrow> float_suffix x \<Longrightarrow> number_literal (d @ e @ x)"

lemma lex_error_diagnostics [simp]: "lx_diagnostics (lex_error c a b m lx) \<noteq> lx_diagnostics lx"
  by (simp add: lex_error_def push_diagnostic_def)

lemma validate_clean:
  assumes "lx_diagnostics (validate_digit_run a b r lx) = lx_diagnostics lx" "substr (lx_source lx) a b \<noteq> []"
  shows "digit_run r (substr (lx_source lx) a b)" "validate_digit_run a b r lx = lx"
proof -
  let ?txt = "substr (lx_source lx) a b"
  let ?bad = "\<lambda>b. b \<noteq> CHR ''_'' \<and> (case digit_value b of None \<Rightarrow> True | Some v \<Rightarrow> r \<le> v)"
  have bad: "?bad = (\<lambda>b. \<not> digit_ok r b)"
    by (rule ext) (simp add: digit_ok_def not_less split: option.split)
  let ?c = "((?txt \<noteq> [] \<and> hd ?txt = CHR ''_'') \<or> (?txt \<noteq> [] \<and> last ?txt = CHR ''_'')
            \<or> has_double_underscore ?txt) \<or> list_ex ?bad ?txt"
  have ok: "\<not> ?c"
  proof (rule notI)
    assume c: ?c
    from assms(1) show False
      unfolding validate_digit_run_def Let_def if_P [OF c] by simp
  qed
  from ok show "validate_digit_run a b r lx = lx"
    unfolding validate_digit_run_def Let_def by (rule if_not_P)
  from ok have "\<not> list_ex (\<lambda>b. \<not> digit_ok r b) ?txt" unfolding bad by blast
  then have "list_all (digit_ok r) ?txt" by (simp add: list_ex_iff list_all_iff)
  with ok assms(2) show "digit_run r ?txt" unfolding digit_run_def by blast
qed

lemma reports_nothing:
  assumes "only_reports a b" "only_reports b c" "lx_diagnostics c = lx_diagnostics a"
  shows "b = a" "c = a"
  using assms by (auto simp: only_reports_def)

lemma lex_error_no_fixpoint [simp]: "lex_error c a b m lx \<noteq> lx" "lx \<noteq> lex_error c a b m lx"
  by (metis lex_error_diagnostics)+

lemma prefixed_clean:
  assumes "lex_prefixed_integer lx pos le r = (lx', p)" "lx_diagnostics lx' = lx_diagnostics lx"
    and "pos + 1 < le" "le \<le> length (lx_source lx)"
    and "lx_source lx ! pos = CHR ''0''" "radix_of (lx_source lx ! (pos + 1)) = Some r"
  shows "number_literal (substr (lx_source lx) pos p)"
proof -
  let ?src = "lx_source lx"
  define de where "de = scan_while ?src (pos + 2) le
    (\<lambda>b. b = CHR ''_'' \<or> (case digit_value b of Some v \<Rightarrow> v < r | None \<Rightarrow> False))"
  define st where "st = scan_while ?src de le is_suffix_byte"
  define lx1 where "lx1 = (if pos + 2 = de
                 then lex_error LexicalLiteral pos de
                        (''base-'' @ show_nat r @ '' literal requires at least one digit'') lx
                 else validate_digit_run (pos + 2) de r lx)"
  define x where "x = substr ?src de st"
  define sfx where "sfx = (if x = [] then None else parse_numeric_suffix x)"
  define bad where "bad \<longleftrightarrow> x \<noteq> [] \<and> (sfx = None \<or> sfx = Some F32 \<or> sfx = Some F64)"
  define lx2 where "lx2 = (if bad then lex_error LexicalLiteral de st (''invalid integer suffix `'' @ x @ ''`'') lx1
                           else lx1)"
  have eq: "lex_prefixed_integer lx pos le r = (emit (IntegerLiteral (substr ?src pos st) r sfx) pos st lx2, st)"
    unfolding lex_prefixed_integer_def Let_def de_def [symmetric] st_def [symmetric] x_def [symmetric]
      sfx_def [symmetric] bad_def [symmetric] lx1_def [symmetric] lx2_def [symmetric] ..
  have b: "pos + 2 \<le> de" "de \<le> le" "de \<le> st" "st \<le> le"
    unfolding de_def st_def using assms(3) by (auto intro!: scan_while_ge scan_while_le)
  have p: "p = st" and d: "lx_diagnostics lx2 = lx_diagnostics lx" using assms(1,2) eq by auto
  have r1: "only_reports lx lx1" by (auto simp: lx1_def)
  have r2: "only_reports lx1 lx2" by (auto simp: lx2_def)
  note none = reports_nothing [OF r1 r2 d]
  have n: "pos + 2 \<noteq> de" using none(1) by (auto simp: lx1_def)
  then have "substr ?src (pos + 2) de \<noteq> []" using b assms(4) by (intro substr_not_Nil) auto
  then have dr: "digit_run r (substr ?src (pos + 2) de)"
    using none(1) n by (intro validate_clean(1)) (auto simp: lx1_def)
  have "\<not> bad" using none by (auto simp: lx2_def)
  then have xs: "integer_suffix x" by (auto simp: bad_def sfx_def integer_suffix_def)
  have "substr ?src pos st = CHR ''0'' # ?src ! (pos + 1) # substr ?src (pos + 2) de @ x"
    using b assms(3-5) substr_append [of "pos + 2" de st ?src]
    by (simp add: x_def substr_Cons [of pos] substr_Cons [of "Suc pos"])
  with number_literal.prefixed [OF assms(6) dr xs] show ?thesis by (simp add: p)
qed

lemma lex_fraction_clean:
  assumes "lex_fraction lx a le af = (lx', p, fl)" "lx_diagnostics lx' = lx_diagnostics lx" "a \<le> le" "le \<le> length (lx_source lx)"
  shows "lx' = lx \<and> (\<not> fl \<and> p = a \<or> fl \<and> a < p \<and> (\<exists>g. digit_run 10 g \<and> substr (lx_source lx) a p = CHR ''.'' # g))"
proof (cases "af \<and> a + 1 < le \<and> lx_source lx ! a = CHR ''.'' \<and> is_digit (lx_source lx ! (a + 1))")
  case True
  define q where "q = scan_while (lx_source lx) (a + 1) le is_digit_byte"
  have q: "a + 1 < q" "q \<le> le"
    unfolding q_def using True by (auto intro!: scan_while_le scan_while_step simp: is_digit_byte_def)
  have eq: "lex_fraction lx a le af = (validate_digit_run (a + 1) q 10 lx, q, True)"
    unfolding lex_fraction_def Let_def if_P [OF True] q_def ..
  with assms(1) have o: "lx' = validate_digit_run (a + 1) q 10 lx" "p = q" "fl" by auto
  have ne: "substr (lx_source lx) (a + 1) q \<noteq> []" using q assms(4) by (intro substr_not_Nil) auto
  from validate_clean [OF _ this] o assms(2)
  have v: "digit_run 10 (substr (lx_source lx) (a + 1) q)" "lx' = lx" by auto
  have "substr (lx_source lx) a q = CHR ''.'' # substr (lx_source lx) (a + 1) q"
    using True q assms(4) by (simp add: substr_Cons [of a])
  with v o q show ?thesis by auto
next
  case False
  then have "lex_fraction lx a le af = (lx, a, False)"
    unfolding lex_fraction_def Let_def by (rule if_not_P)
  with assms(1) show ?thesis by simp
qed

lemma lex_exponent_clean:
  assumes "lex_exponent lx s a le af fl = (lx', p, fl')" "lx_diagnostics lx' = lx_diagnostics lx" "a \<le> le" "le \<le> length (lx_source lx)"
  shows "lx' = lx \<and> (fl' = fl \<and> p = a \<or> fl' \<and> a < p \<and> exponent (substr (lx_source lx) a p))"
proof (cases "af \<and> a < le \<and> (lx_source lx ! a = CHR ''e'' \<or> lx_source lx ! a = CHR ''E'')")
  case True
  define sg where "sg = (if a + 1 < le \<and> (lx_source lx ! (a + 1) = CHR ''+'' \<or> lx_source lx ! (a + 1) = CHR ''-'')
                            then a + 2 else a + 1)"
  define q where "q = scan_while (lx_source lx) sg le is_digit_byte"
  have sg: "a + 1 \<le> sg" "sg \<le> le" using True by (auto simp: sg_def)
  have q: "sg \<le> q" "q \<le> le"
    unfolding q_def using sg by (auto intro!: scan_while_le scan_while_ge)
  have eq: "lex_exponent lx s a le af fl = (if sg = q
                       then lex_error LexicalLiteral s q
                              ''floating-point exponent requires at least one digit'' lx
                       else validate_digit_run sg q 10 lx, q, True)"
    unfolding lex_exponent_def Let_def if_P [OF True] q_def sg_def [symmetric] ..
  have n: "sg \<noteq> q" using assms(1,2) eq by auto
  with eq assms(1) have o: "lx' = validate_digit_run sg q 10 lx" "p = q" "fl'" by auto
  have ne: "substr (lx_source lx) sg q \<noteq> []" using q n assms(4) by (intro substr_not_Nil) auto
  from validate_clean [OF _ this] o assms(2)
  have v: "digit_run 10 (substr (lx_source lx) sg q)" "lx' = lx" by auto
  have "substr (lx_source lx) (a + 1) sg \<in> {[], ''+'', ''-''}"
    using assms(4) True by (auto simp: sg_def substr_Cons)
  then have "exponent (lx_source lx ! a # substr (lx_source lx) (a + 1) sg @ substr (lx_source lx) sg q)"
    using True v by (intro exponent.intros) auto
  moreover have "substr (lx_source lx) a q = lx_source lx ! a # substr (lx_source lx) (a + 1) q"
    using sg q assms(4) substr_Cons [of a q "lx_source lx"] by simp
  ultimately have "exponent (substr (lx_source lx) a q)"
    using sg q assms(4) by (simp add: substr_append)
  with v o q sg show ?thesis by auto
next
  case False
  then have "lex_exponent lx s a le af fl = (lx, a, fl)"
    unfolding lex_exponent_def Let_def by (rule if_not_P)
  with assms(1) show ?thesis by simp
qed

text \<open>
  C15: A number read without a diagnostic is a literal of the grammar: digits of its radix,
  underscores only between digits, a suffix of its family.
\<close>

theorem lex_number_clean:
  assumes "lex_number af lx pos le = (lx', p)" "lx_diagnostics lx' = lx_diagnostics lx"
    and "pos < le" "le \<le> length (lx_source lx)" "is_digit (lx_source lx ! pos)"
  shows "number_literal (substr (lx_source lx) pos p)"
proof -
  let ?src = "lx_source lx"
  let ?radix = "if ?src ! pos = CHR ''0'' \<and> pos + 1 < le then radix_of (?src ! (pos + 1)) else None"
  show ?thesis
  proof (cases ?radix)
    case (Some r)
    then have z: "?src ! pos = CHR ''0''" "pos + 1 < le" "radix_of (?src ! (pos + 1)) = Some r"
      by (auto split: if_splits)
    then have "lex_prefixed_integer lx pos le r = (lx', p)"
      using assms(1) by (simp add: lex_number_def Let_def)
    from prefixed_clean [OF this assms(2) z(2) assms(4) z(1,3)] show ?thesis .
  next
    case None
    define e0 where "e0 = scan_while ?src pos le is_digit_byte"
    define lx0 where "lx0 = validate_digit_run pos e0 10 lx"
    obtain lx1 e1 f1 where fr: "lex_fraction lx0 e0 le af = (lx1, e1, f1)" by (cases "lex_fraction lx0 e0 le af")
    obtain lx2 e2 f2 where ex: "lex_exponent lx1 pos e1 le af f1 = (lx2, e2, f2)" by (cases "lex_exponent lx1 pos e1 le af f1")
    define st where "st = scan_while ?src e2 le is_suffix_byte"
    define x where "x = substr ?src e2 st"
    define sfx where "sfx = (if x = [] then None else parse_numeric_suffix x)"
    define lx3 where "lx3 = (if x \<noteq> [] \<and> \<not> suffix_valid sfx f2
         then lex_error LexicalLiteral e2 st (''invalid suffix `'' @ x @ ''` for this numeric literal'') lx2
         else lx2)"
    have "lex_number af lx pos le = (emit (if f2 then FloatLiteral (substr ?src pos st) sfx
        else IntegerLiteral (substr ?src pos st) 10 sfx) pos st lx3, st)"
      unfolding lex_number_def Let_def None option.case e0_def [symmetric] lx0_def [symmetric] fr prod.case ex
        st_def [symmetric] x_def [symmetric] sfx_def [symmetric] lx3_def [symmetric] ..
    then have p: "p = st" and d3: "lx_diagnostics lx3 = lx_diagnostics lx" using assms(1,2) by auto
    have r0: "only_reports lx lx0" by (auto simp: lx0_def)
    have r1: "only_reports lx0 lx1" by (rule only_reports_fraction [OF fr])
    have r2: "only_reports lx1 lx2" by (rule only_reports_exponent [OF ex])
    have r3: "only_reports lx2 lx3" by (auto simp: lx3_def)
    have c0: "lx0 = lx" using reports_nothing [OF r0 only_reports_trans [OF r1 only_reports_trans [OF r2 r3]] d3] by simp
    have c1: "lx1 = lx" using reports_nothing [OF r1 only_reports_trans [OF r2 r3]] d3 c0 by simp
    have c2: "lx2 = lx" using reports_nothing [OF r2 r3] d3 c1 by simp
    have c3: "lx3 = lx" using reports_nothing [OF r3 only_reports_refl] d3 c2 by simp
    have e0: "pos < e0" "e0 \<le> le"
      unfolding e0_def using assms(3,5) by (auto intro!: scan_while_le scan_while_step simp: is_digit_byte_def)
    have ne: "substr ?src pos e0 \<noteq> []" using e0 assms(4) by (intro substr_not_Nil) auto
    have dr: "digit_run 10 (substr ?src pos e0)"
      using validate_clean(1) [OF _ ne] c0 by (simp add: lx0_def)
    have f: "\<not> f1 \<and> e1 = e0 \<or> f1 \<and> e0 < e1 \<and> (\<exists>g. digit_run 10 g \<and> substr ?src e0 e1 = CHR ''.'' # g)" and e1: "e0 \<le> e1" "e1 \<le> le"
      using lex_fraction_clean [OF fr _ e0(2)] c0 c1 assms(4) lex_fraction_le [OF fr e0(2)] by auto
    have e: "f2 = f1 \<and> e2 = e1 \<or> f2 \<and> e1 < e2 \<and> exponent (substr ?src e1 e2)" and e2: "e1 \<le> e2" "e2 \<le> le"
      using lex_exponent_clean [OF ex _ e1(2)] c1 c2 assms(4) lex_exponent_le [OF ex e1(2)] by auto
    have st: "e2 \<le> st" "st \<le> le" unfolding st_def using e2 by (auto intro!: scan_while_le scan_while_ge)
    have sv: "x = [] \<or> suffix_valid sfx f2"
      using c3 c2 by (auto simp: lx3_def split: if_splits)
    then have sx: "if f2 then float_suffix x else integer_suffix x"
      by (auto simp: sfx_def suffix_valid_def float_suffix_def integer_suffix_def split: if_splits option.splits)
    have sp: "substr ?src pos st = substr ?src pos e0 @ substr ?src e0 e1 @ substr ?src e1 e2 @ x"
      using e0 e1 e2 st assms(4) by (simp add: x_def substr_append)
    show ?thesis
      unfolding p sp using dr f e sx number_literal.intros(2-4)
      by (elim disjE conjE exE) (force simp: substr_def)+
  qed
qed

definition sample_number :: string where
  "sample_number = ''1_0.5e-3f32''"

lemma lex_number_clean_witness: "number_literal (substr sample_number 0 11)"
proof -
  let ?lx = "lexer_new 0 sample_number"
  have n: "lex_number True ?lx 0 11 = (fst (lex_number True ?lx 0 11), 11)"
    and d: "lx_diagnostics (fst (lex_number True ?lx 0 11)) = lx_diagnostics ?lx"
    and b: "11 \<le> length (lx_source ?lx)" "is_digit (lx_source ?lx ! 0)" "sample_number = lx_source ?lx"
    by code_simp+
  from lex_number_clean [OF n d _ b(1,2)] show ?thesis by (simp add: b(3) [symmetric])
qed

section \<open>Text literals\<close>

text \<open>The escapes a printer of literals would use: one per entry of the lexer's table.\<close>

definition escape_scalar :: "nat \<Rightarrow> string" where
  "escape_scalar c =
     (case map_of (map prod.swap simple_escapes) c of
        Some e \<Rightarrow> CHR 0x5C # utf8_encode e
      | None \<Rightarrow> utf8_encode c)"

definition escape_text :: "nat list \<Rightarrow> string" where
  "escape_text cs = concat (map escape_scalar cs)"

definition utf8_text :: "nat list \<Rightarrow> string" where
  "utf8_text cs = concat (map utf8_encode cs)"

lemma substr_head:
  "src = pre @ a @ b \<Longrightarrow> length pre + length a \<le> le \<Longrightarrow>
   substr src (length pre) le = a @ substr src (length pre + length a) le"
  by (simp add: substr_def)

lemma utf8_head:
  assumes "is_scalar c" "c \<notin> {34, 39, 92}"
  shows "\<exists>b bs. utf8_encode c = b # bs \<and> b \<notin> {CHR 0x22, CHR 0x27, CHR 0x5C}"
proof -
  have ne: "char_of n \<noteq> CHR 0x22 \<and> char_of n \<noteq> CHR 0x27 \<and> char_of n \<noteq> CHR 0x5C"
    if "n < 256" "n \<notin> {34, 39, 92}" for n :: nat
  proof -
    have "(of_char (char_of n) :: nat) = n" using that(1) by simp
    moreover have "(of_char (CHR 0x22) :: nat) = 34" "(of_char (CHR 0x27) :: nat) = 39"
      "(of_char (CHR 0x5C) :: nat) = 92" by simp_all
    ultimately show ?thesis using that(2) by (metis insertI1 insertI2)
  qed
  have c: "c < 1114112" using assms(1) by (auto simp: is_scalar_def)
  consider "c < 128" | "128 \<le> c" "c < 2048" | "2048 \<le> c" "c < 65536" | "65536 \<le> c" by linarith
  then show ?thesis
  proof cases
    case 1
    then show ?thesis using ne [of c] assms(2) by (auto simp: utf8_encode_def)
  next
    case 2
    then have "192 + c div 64 < 256" by (simp add: less_mult_imp_div_less)
    then show ?thesis using 2 ne [of "192 + c div 64"] by (auto simp: utf8_encode_def)
  next
    case 3
    then have "224 + c div 4096 < 256" by (simp add: less_mult_imp_div_less)
    then show ?thesis using 3 ne [of "224 + c div 4096"] by (auto simp: utf8_encode_def)
  next
    case 4
    with c have "240 + c div 262144 < 256" by (simp add: less_mult_imp_div_less)
    then show ?thesis using 4 ne [of "240 + c div 262144"] by (auto simp: utf8_encode_def)
  qed
qed

lemma escape_scalar_cases:
  assumes "is_scalar c"
  obtains (plain) "escape_scalar c = utf8_encode c" "c \<notin> {34, 39, 92}"
  | (escaped) e where "escape_scalar c = CHR 0x5C # utf8_encode e" "map_of simple_escapes e = Some c" "is_scalar e"
proof (cases "map_of (map prod.swap simple_escapes) c")
  case None
  then have "escape_scalar c = utf8_encode c" by (simp add: escape_scalar_def)
  moreover from None have "c \<notin> {34, 39, 92}" by (auto simp: simple_escapes_def split: if_splits)
  ultimately show ?thesis by (rule plain)
next
  case (Some e)
  then have "escape_scalar c = CHR 0x5C # utf8_encode e" by (simp add: escape_scalar_def)
  moreover from Some have "map_of simple_escapes e = Some c \<and> is_scalar e"
    by (auto simp: simple_escapes_def is_scalar_def split: if_splits)
  ultimately show ?thesis by (intro escaped) auto
qed

lemma quoted_loop_escaped:
  assumes "list_all is_scalar cs" "q \<in> {CHR 0x22, CHR 0x27}"
    "lx_source lx = pre @ escape_text cs @ q # rest"
    "length pre + length (escape_text cs) < le" "le \<le> length (lx_source lx)"
  shows "quoted_loop lx (length pre) le q dec =
           (lx, length pre + length (escape_text cs) + 1, dec @ utf8_text cs, True)"
  using assms(1,3,4)
proof (induction cs arbitrary: pre dec)
  case Nil
  then show ?case
    by (subst quoted_loop.simps) (simp add: escape_text_def utf8_text_def byte_at_def)
next
  case (Cons c cs)
  let ?pos = "length pre" and ?n = "length (escape_scalar c)"
  have src: "lx_source lx = pre @ escape_scalar c @ escape_text cs @ q # rest"
    and lt: "?pos + ?n < le" and sc: "is_scalar c"
    using Cons.prems by (simp_all add: escape_text_def)
  have step: "quoted_loop lx (?pos + ?n) le q (dec @ utf8_encode c) =
      (lx, ?pos + ?n + length (escape_text cs) + 1, dec @ utf8_encode c @ utf8_text cs, True)"
    using Cons.IH [of "pre @ escape_scalar c" "dec @ utf8_encode c"] Cons.prems by (simp add: escape_text_def)
  have "quoted_loop lx ?pos le q dec = quoted_loop lx (?pos + ?n) le q (dec @ utf8_encode c)"
    using sc
  proof (cases rule: escape_scalar_cases)
    case plain
    obtain b bs where h: "utf8_encode c = b # bs" "b \<notin> {CHR 0x22, CHR 0x27, CHR 0x5C}"
      using utf8_head [OF sc plain(2)] by blast
    then have "byte_at lx ?pos = b" using src plain(1) by (simp add: byte_at_def nth_append)
    moreover have "next_char (substr (lx_source lx) ?pos le) = (c, ?n)"
      using substr_head [OF src less_imp_le [OF lt]] plain(1) next_char_encode [OF sc] by simp
    ultimately show ?thesis
      using h(2) assms(2) lt by (subst quoted_loop.simps) auto
  next
    case (escaped e)
    have b: "byte_at lx ?pos = CHR 0x5C" using src escaped(1) by (simp add: byte_at_def nth_append)
    have src': "lx_source lx = (pre @ [CHR 0x5C]) @ utf8_encode e @ escape_text cs @ q # rest"
      using src escaped(1) by simp
    have lt': "length (pre @ [CHR 0x5C]) + length (utf8_encode e) \<le> le"
      using lt escaped(1) by simp
    have nc: "next_char (substr (lx_source lx) (Suc ?pos) le) = (e, length (utf8_encode e))"
      using substr_head [OF src' lt'] next_char_encode [OF escaped(3)] by simp
    have "decode_escape lx ?pos le = (lx, Some c, ?pos + ?n)"
      using nc lt escaped(1,2) utf8_encode_length(1) [of e] by (simp add: decode_escape_def Let_def)
    with b assms(2) lt show ?thesis
      by (subst quoted_loop.simps) (auto simp: push_scalar_def)
  qed
  with step show ?case by (simp add: escape_text_def utf8_text_def)
qed

text \<open>
  C16: A string literal, or a character literal of one scalar value, that is written with the
  lexer's escapes is read back as the text it denotes, with no diagnostic.
\<close>

theorem lex_quoted_roundtrip:
  assumes "list_all is_scalar cs" "q = CHR 0x22 \<or> q = CHR 0x27 \<and> length cs = 1"
    and "lx_source lx = pre @ [q] @ escape_text cs @ [q] @ rest"
    and "stop = length pre + length (escape_text cs) + 2" "stop \<le> le" "le \<le> length (lx_source lx)"
  shows "lex_quoted q lx (length pre) le =
           (emit (if q = CHR 0x22 then StringLiteral (utf8_text cs) else CharacterLiteral (utf8_text cs))
              (length pre) stop lx, stop)"
proof -
  have "quoted_loop lx (length (pre @ [q])) le q [] =
      (lx, length (pre @ [q]) + length (escape_text cs) + 1, [] @ utf8_text cs, True)"
    by (rule quoted_loop_escaped [OF assms(1)]) (use assms in auto)
  moreover have "length (utf8_chars (utf8_text cs)) = length cs"
    using utf8_chars_encode [OF assms(1)] by (simp add: utf8_text_def)
  ultimately show ?thesis using assms(2,4) by (auto simp: lex_quoted_def Let_def)
qed

lemma lex_quoted_roundtrip_witness:
  "lex_quoted (CHR 0x27) (lexer_new 0 ([CHR 0x27] @ escape_text [10] @ [CHR 0x27] @ [])) 0 4 =
     (emit (CharacterLiteral [CHR 0x0A]) 0 4 (lexer_new 0 ([CHR 0x27] @ escape_text [10] @ [CHR 0x27] @ [])), 4)"
proof -
  have e: "escape_text [10] = [CHR 0x5C, CHR ''n'']" "utf8_text [10] = [CHR 0x0A]" by code_simp+
  show ?thesis
    using lex_quoted_roundtrip [of "[10]" "CHR 0x27" "lexer_new 0 ([CHR 0x27] @ escape_text [10] @ [CHR 0x27] @ [])" "[]" "[]" 4 4]
    by (simp add: e lexer_new_def is_scalar_def)
qed

end
