(* ===== verification/Token_Tree.thy ===== *)
theory Token_Tree
  imports Provenance Lexer_Theorems
begin

text \<open>
  The lossless token tree of a source file: \<^verbatim>\<open>src/expansion/token_tree.rs\<close>. The builder groups
  balanced delimiters and registers every token with the provenance table, whose \<open>expect\<close> makes
  it fallible. The debug dump is not modelled (it prints with \<open>{:?}\<close>).
\<close>

section \<open>Data\<close>

datatype delimiter_kind = DkParenthesis | DkBracket | DkBrace

definition dk_opening :: "token_kind \<Rightarrow> delimiter_kind option" where
  "dk_opening k =
     (case k of LParen \<Rightarrow> Some DkParenthesis | LBracket \<Rightarrow> Some DkBracket | LBrace \<Rightarrow> Some DkBrace | _ \<Rightarrow> None)"

definition dk_closing :: "token_kind \<Rightarrow> delimiter_kind option" where
  "dk_closing k =
     (case k of RParen \<Rightarrow> Some DkParenthesis | RBracket \<Rightarrow> Some DkBracket | RBrace \<Rightarrow> Some DkBrace | _ \<Rightarrow> None)"

record token_tree_token =
  tt_kind :: token_kind
  tt_source :: string
  tt_origin :: origin_id

text \<open>\<open>str::get(a..b)\<close>\<close>

definition str_get :: "string \<Rightarrow> nat \<Rightarrow> nat \<Rightarrow> string option" where
  "str_get s a b =
     (if a \<le> b \<and> b \<le> length s \<and> char_boundary s a \<and> char_boundary s b then Some (substr s a b) else None)"

definition token_text :: "file_id \<Rightarrow> string \<Rightarrow> token \<Rightarrow> string" where
  "token_text file src t =
     (if span_file (token_span t) = file
      then (case str_get src (span_start (token_span t)) (span_end (token_span t)) of
              Some s \<Rightarrow> s | None \<Rightarrow> [])
      else [])"

definition tt_physical ::
  "token \<Rightarrow> string \<Rightarrow> file_id \<Rightarrow> provenance_table \<Rightarrow> (provenance_table \<times> token_tree_token) option" where
  "tt_physical t src file prov =
     (case register_physical prov (token_span t) of
        None \<Rightarrow> None
      | Some (prov', i) \<Rightarrow>
          Some (prov', \<lparr>tt_kind = token_kind t, tt_source = token_text file src t, tt_origin = i\<rparr>))"

definition tt_generated ::
  "token_kind \<Rightarrow> string \<Rightarrow> expansion_id \<Rightarrow> generated_source \<Rightarrow> provenance_table
   \<Rightarrow> (provenance_table \<times> token_tree_token) option" where
  "tt_generated k src e from prov =
     (case register_generated prov (e, from) of
        None \<Rightarrow> None
      | Some (prov', i) \<Rightarrow> Some (prov', \<lparr>tt_kind = k, tt_source = src, tt_origin = i\<rparr>))"

datatype token_tree =
    TreeToken token_tree_token
  | TreeDelimited (tree_delimiter: delimiter_kind) (tree_range: origin_range)
      (tree_open: token_tree_token) (tree_children: "token_tree list")
      (tree_close: "token_tree_token option")

fun tree_origin :: "token_tree \<Rightarrow> origin_range" where
  "tree_origin (TreeToken t) = origin_range_new (tt_origin t) (tt_origin t)"
| "tree_origin (TreeDelimited d r op children cl) = r"

fun append_flattened :: "token_tree \<Rightarrow> token_tree_token list \<Rightarrow> token_tree_token list" where
  "append_flattened (TreeToken t) out = out @ [t]"
| "append_flattened (TreeDelimited d r op children cl) out =
     (let out' = fold append_flattened children (out @ [op])
      in case cl of None \<Rightarrow> out' | Some c \<Rightarrow> out' @ [c])"

definition flatten_token_trees :: "token_tree list \<Rightarrow> token_tree_token list" where
  "flatten_token_trees trees = fold append_flattened trees []"

record token_tree_unit =
  tu_file :: file_id
  tu_span :: span
  tu_source :: string
  tu_trees :: "token_tree list"
  tu_eof :: "token_tree_token option"

definition unit_flattened :: "token_tree_unit \<Rightarrow> token_tree_token list" where
  "unit_flattened u =
     flatten_token_trees (tu_trees u) @ (case tu_eof u of None \<Rightarrow> [] | Some e \<Rightarrow> [e])"

section \<open>The builder\<close>

record open_group =
  og_delimiter :: delimiter_kind
  og_open :: token_tree_token
  og_children :: "token_tree list"

definition group_origin :: "token_tree_token \<Rightarrow> token_tree list \<Rightarrow> token_tree_token option \<Rightarrow> origin_range" where
  "group_origin op children cl =
     origin_range_new (tt_origin op)
       (case cl of
          Some c \<Rightarrow> tt_origin c
        | None \<Rightarrow> (case vlast children of None \<Rightarrow> tt_origin op | Some child \<Rightarrow> or_last (tree_origin child)))"

type_synonym build_state = "token_tree list \<times> open_group list \<times> token_tree_token option"

definition append_tree ::
  "token_tree \<Rightarrow> open_group list \<times> token_tree list \<Rightarrow> open_group list \<times> token_tree list" where
  "append_tree tree = (\<lambda>(stack, roots).
     (case vlast stack of
        Some parent \<Rightarrow> (butlast stack @ [parent\<lparr>og_children := og_children parent @ [tree]\<rparr>], roots)
      | None \<Rightarrow> (stack, roots @ [tree])))"

definition close_group :: "open_group \<Rightarrow> token_tree_token option \<Rightarrow> token_tree" where
  "close_group g cl =
     TreeDelimited (og_delimiter g) (group_origin (og_open g) (og_children g) cl) (og_open g) (og_children g) cl"

text \<open>One represented token; the end-of-file token is kept aside.\<close>

definition place_token :: "token_tree_token \<Rightarrow> build_state \<Rightarrow> build_state" where
  "place_token t = (\<lambda>(roots, stack, eof).
     (if is_eof (tt_kind t) then (roots, stack, Some t)
      else
        (case dk_opening (tt_kind t) of
           Some d \<Rightarrow> (roots, stack @ [\<lparr>og_delimiter = d, og_open = t, og_children = []\<rparr>], eof)
         | None \<Rightarrow>
             (case dk_closing (tt_kind t) of
                Some d \<Rightarrow>
                  (case vlast stack of
                     Some g \<Rightarrow>
                       if og_delimiter g = d
                       then (case append_tree (close_group g (Some t)) (butlast stack, roots) of
                               (stack', roots') \<Rightarrow> (roots', stack', eof))
                       else (case append_tree (TreeToken t) (stack, roots) of
                               (stack', roots') \<Rightarrow> (roots', stack', eof))
                   | None \<Rightarrow> (case append_tree (TreeToken t) (stack, roots) of
                               (stack', roots') \<Rightarrow> (roots', stack', eof)))
              | None \<Rightarrow> (case append_tree (TreeToken t) (stack, roots) of
                               (stack', roots') \<Rightarrow> (roots', stack', eof))))))"

fun build_loop ::
  "file_id \<Rightarrow> string \<Rightarrow> token list \<Rightarrow> build_state \<Rightarrow> provenance_table \<Rightarrow> (build_state \<times> provenance_table) option" where
  "build_loop file src [] st prov = Some (st, prov)"
| "build_loop file src (t # ts) st prov =
     (case tt_physical t src file prov of
        None \<Rightarrow> None
      | Some (prov', r) \<Rightarrow> build_loop file src ts (place_token r st) prov')"

lemma append_tree_length: "length (fst (append_tree t (stack, roots))) = length stack"
  by (cases stack rule: rev_cases) (auto simp: append_tree_def)

text \<open>Openers left at end of file become unclosed groups.\<close>

function close_open :: "open_group list \<Rightarrow> token_tree list \<Rightarrow> token_tree list" where
  "close_open stack roots =
     (case vlast stack of
        None \<Rightarrow> roots
      | Some g \<Rightarrow>
          (case append_tree (close_group g None) (butlast stack, roots) of
             (stack', roots') \<Rightarrow> close_open stack' roots'))"
  by pat_completeness auto
termination
proof (relation "measure (\<lambda>(stack, roots). length stack)", goal_cases)
  case (2 stack roots g stack' roots')
  then have "length stack' = length (butlast stack)"
    using append_tree_length [of "close_group g None" "butlast stack" roots] by (metis fst_conv)
  with 2(1) 2(2) [symmetric] show ?case by (cases stack rule: rev_cases) auto
qed simp

declare close_open.simps [simp del]

definition build_token_trees ::
  "span \<Rightarrow> string \<Rightarrow> token list \<Rightarrow> provenance_table \<Rightarrow> (token_tree_unit \<times> provenance_table) option" where
  "build_token_trees sp src tokens prov =
     (case build_loop (span_file sp) src tokens ([], [], None) prov of
        None \<Rightarrow> None
      | Some ((roots, stack, eof), prov') \<Rightarrow>
          Some (\<lparr>tu_file = span_file sp, tu_span = sp, tu_source = src,
                 tu_trees = close_open stack roots, tu_eof = eof\<rparr>, prov'))"

section \<open>Flattening\<close>

text \<open>The tokens of a tree, as a structural function.\<close>

fun leaves :: "token_tree \<Rightarrow> token_tree_token list" where
  "leaves (TreeToken t) = [t]"
| "leaves (TreeDelimited d r op children cl) =
     op # concat (map leaves children) @ (case cl of None \<Rightarrow> [] | Some c \<Rightarrow> [c])"

abbreviation forest_leaves :: "token_tree list \<Rightarrow> token_tree_token list" where
  "forest_leaves ts \<equiv> concat (map leaves ts)"

lemma fold_append_flattened:
  "(\<And>t out. t \<in> set ts \<Longrightarrow> append_flattened t out = out @ leaves t) \<Longrightarrow>
   fold append_flattened ts out = out @ forest_leaves ts"
  by (induction ts arbitrary: out) simp_all

lemma append_flattened_leaves: "append_flattened t out = out @ leaves t"
proof (induction t arbitrary: out rule: leaves.induct)
  case (2 d r op children cl)
  then have "fold append_flattened children (out @ [op]) = (out @ [op]) @ forest_leaves children"
    by (intro fold_append_flattened) auto
  then show ?case by (simp add: Let_def split: option.split)
qed simp

lemma flatten_leaves: "flatten_token_trees ts = forest_leaves ts"
  by (simp add: flatten_token_trees_def fold_append_flattened append_flattened_leaves)

text \<open>The tokens a build state holds, in source order.\<close>

definition stack_leaves :: "open_group list \<Rightarrow> token_tree_token list" where
  "stack_leaves stack = concat (map (\<lambda>g. og_open g # forest_leaves (og_children g)) stack)"

lemma append_tree_leaves:
  "append_tree tree (stack, roots) = (stack', roots') \<Longrightarrow>
   forest_leaves roots' @ stack_leaves stack' = forest_leaves roots @ stack_leaves stack @ leaves tree"
  by (cases stack rule: rev_cases) (auto simp: append_tree_def stack_leaves_def)

lemma close_open_leaves: "forest_leaves (close_open stack roots) = forest_leaves roots @ stack_leaves stack"
proof (induction stack roots rule: close_open.induct)
  case (1 stack roots)
  show ?case
  proof (cases "vlast stack")
    case None
    then show ?thesis by (subst close_open.simps) (simp add: stack_leaves_def)
  next
    case (Some g)
    obtain st' ro' where at: "append_tree (close_group g None) (butlast stack, roots) = (st', ro')"
      by fastforce
    have "stack_leaves stack = stack_leaves (butlast stack) @ leaves (close_group g None)"
      by (subst vlast_SomeD [OF Some]) (simp add: stack_leaves_def close_group_def)
    with "1.IH" [OF Some at [symmetric]] append_tree_leaves [OF at] show ?thesis
      using Some at by (subst close_open.simps) simp
  qed
qed

lemma place_token_leaves:
  assumes "place_token t (roots, stack, eof) = (roots', stack', eof')"
  shows "forest_leaves roots' @ stack_leaves stack' =
           forest_leaves roots @ stack_leaves stack @ (if is_eof (tt_kind t) then [] else [t])
         \<and> eof' = (if is_eof (tt_kind t) then Some t else eof)"
proof -
  have leaf: "forest_leaves r @ stack_leaves s = forest_leaves roots @ stack_leaves stack @ [t]"
    if "append_tree (TreeToken t) (stack, roots) = (s, r)" for s r
    using append_tree_leaves [OF that] by simp
  have group: "forest_leaves r @ stack_leaves s = forest_leaves roots @ stack_leaves stack @ [t]"
    if "append_tree (close_group g (Some t)) (butlast stack, roots) = (s, r)" "vlast stack = Some g" for s r g
  proof -
    have "stack_leaves stack = stack_leaves (butlast stack) @ og_open g # forest_leaves (og_children g)"
      by (subst vlast_SomeD [OF that(2)]) (simp add: stack_leaves_def)
    with append_tree_leaves [OF that(1)] show ?thesis by (simp add: close_group_def)
  qed
  show ?thesis
    using assms leaf group
    by (auto simp: place_token_def stack_leaves_def split: if_splits option.splits prod.splits)
qed

section \<open>Losslessness\<close>

text \<open>The tokens as they are represented when registration starts at origin \<open>n\<close>.\<close>

definition represented :: "file_id \<Rightarrow> string \<Rightarrow> nat \<Rightarrow> token list \<Rightarrow> token_tree_token list" where
  "represented file src n ts =
     map (\<lambda>(i, t). \<lparr>tt_kind = token_kind t, tt_source = token_text file src t, tt_origin = i\<rparr>) (enumerate n ts)"

lemma represented_Nil [simp]: "represented file src n [] = []"
  by (simp add: represented_def)

lemma represented_Cons [simp]:
  "represented file src n (t # ts) =
     \<lparr>tt_kind = token_kind t, tt_source = token_text file src t, tt_origin = n\<rparr> # represented file src (Suc n) ts"
  by (simp add: represented_def)

lemma represented_append:
  "represented file src n (xs @ ys) = represented file src n xs @ represented file src (n + length xs) ys"
  by (induction xs arbitrary: n) simp_all

lemma build_loop_leaves:
  assumes "build_loop file src ts (roots, stack, eof) prov = Some ((roots', stack', eof'), prov')"
    and "list_all (\<lambda>t. \<not> is_eof (token_kind t)) ts"
  shows "forest_leaves roots' @ stack_leaves stack' =
           forest_leaves roots @ stack_leaves stack @ represented file src (length (pt_origins prov)) ts
         \<and> eof' = eof \<and> length (pt_origins prov') = length (pt_origins prov) + length ts"
  using assms
proof (induction ts arbitrary: roots stack eof prov)
  case (Cons t ts)
  let ?r = "\<lparr>tt_kind = token_kind t, tt_source = token_text file src t, tt_origin = length (pt_origins prov)\<rparr>"
  obtain prov1 where p: "tt_physical t src file prov = Some (prov1, ?r)"
    and len: "length (pt_origins prov1) = Suc (length (pt_origins prov))"
    using Cons.prems(1) by (auto simp: tt_physical_def register_physical_def split: option.splits)
  obtain ro st eo where pl: "place_token ?r (roots, stack, eof) = (ro, st, eo)"
    by (cases "place_token ?r (roots, stack, eof)")
  have "build_loop file src ts (ro, st, eo) prov1 = Some ((roots', stack', eof'), prov')"
    using Cons.prems(1) p pl by simp
  with Cons.IH [OF this] Cons.prems(2) place_token_leaves [OF pl] len show ?case by simp
qed simp

lemma build_loop_append:
  "build_loop file src (xs @ ys) st prov =
     (case build_loop file src xs st prov of None \<Rightarrow> None | Some (st', prov') \<Rightarrow> build_loop file src ys st' prov')"
  by (induction xs arbitrary: st prov) (auto split: option.splits)

lemma build_token_trees_lossless:
  assumes "build_token_trees sp src (ts @ [Token Eof e]) prov = Some (u, prov')"
    and "list_all (\<lambda>t. \<not> is_eof (token_kind t)) ts"
  shows "unit_flattened u = represented (span_file sp) src (length (pt_origins prov)) (ts @ [Token Eof e])
         \<and> length (pt_origins prov') = length (pt_origins prov) + length ts + 1"
proof -
  let ?f = "span_file sp"
  obtain ro st eo prov1 where b: "build_loop ?f src ts ([], [], None) prov = Some ((ro, st, eo), prov1)"
    and b2: "build_loop ?f src [Token Eof e] (ro, st, eo) prov1 \<noteq> None"
    using assms(1) by (auto simp: build_token_trees_def build_loop_append split: option.splits)
  let ?t = "\<lparr>tt_kind = Eof, tt_source = token_text ?f src (Token Eof e), tt_origin = length (pt_origins prov1)\<rparr>"
  obtain prov2 where p: "tt_physical (Token Eof e) src ?f prov1 = Some (prov2, ?t)"
    and len: "length (pt_origins prov2) = Suc (length (pt_origins prov1))"
    using b2 by (auto simp: tt_physical_def register_physical_def split: option.splits)
  have pl: "place_token ?t (ro, st, eo) = (ro, st, Some ?t)"
    by (simp add: place_token_def is_eof_def)
  have "u = \<lparr>tu_file = ?f, tu_span = sp, tu_source = src, tu_trees = close_open st ro, tu_eof = Some ?t\<rparr>"
    and "prov' = prov2"
    using assms(1) b p pl by (simp_all add: build_token_trees_def build_loop_append)
  with build_loop_leaves [OF b assms(2)] len show ?thesis
    by (simp add: unit_flattened_def flatten_leaves close_open_leaves stack_leaves_def represented_append)
qed



section \<open>Grouping\<close>

text \<open>Every group closed by its own closer, and no delimiter left as a leaf.\<close>

fun well_grouped :: "token_tree \<Rightarrow> bool" where
  "well_grouped (TreeToken t) \<longleftrightarrow> dk_opening (tt_kind t) = None \<and> dk_closing (tt_kind t) = None"
| "well_grouped (TreeDelimited d r op children cl) \<longleftrightarrow>
     dk_opening (tt_kind op) = Some d
     \<and> (case cl of None \<Rightarrow> False | Some c \<Rightarrow> dk_closing (tt_kind c) = Some d)
     \<and> list_all well_grouped children"

text \<open>Every group's recorded range runs from its first token to its last.\<close>

fun well_ranged :: "token_tree \<Rightarrow> bool" where
  "well_ranged (TreeToken t) \<longleftrightarrow> True"
| "well_ranged (TreeDelimited d r op children cl) \<longleftrightarrow>
     r = origin_range_new (tt_origin op) (tt_origin (last (op # concat (map leaves children) @ (case cl of None \<Rightarrow> [] | Some c \<Rightarrow> [c]))))
     \<and> list_all well_ranged children"

definition dk_of :: "delimiter \<Rightarrow> delimiter_kind" where
  "dk_of d = (case d of Parenthesis \<Rightarrow> DkParenthesis | Bracket \<Rightarrow> DkBracket | Brace \<Rightarrow> DkBrace)"

lemma dk_of_inject [simp]: "dk_of a = dk_of b \<longleftrightarrow> a = b"
  by (simp add: dk_of_def split: delimiter.split)

lemma dk_opening_eq: "dk_opening k = map_option dk_of (opening_delimiter k)"
  by (simp add: dk_opening_def opening_delimiter_def dk_of_def split: token_kind.split)

lemma dk_closing_eq: "dk_closing k = map_option dk_of (closing_delimiter k)"
  by (simp add: dk_closing_def closing_delimiter_def dk_of_def split: token_kind.split)

definition group_forest :: "open_group list \<times> token_tree list \<Rightarrow> bool" where
  "group_forest = (\<lambda>(stack, roots).
     list_all well_grouped roots
     \<and> list_all (\<lambda>g. dk_opening (tt_kind (og_open g)) = Some (og_delimiter g)
                    \<and> list_all well_grouped (og_children g)) stack)"

lemma append_tree_grouped:
  assumes "append_tree tree (stack, roots) = (stack', roots')" "well_grouped tree" "group_forest (stack, roots)"
  shows "group_forest (stack', roots') \<and> map og_delimiter stack' = map og_delimiter stack"
  using assms by (cases stack rule: rev_cases) (auto simp: append_tree_def group_forest_def)

lemma place_token_grouped:
  assumes "place_token t (roots, stack, eof) = (roots', stack', eof')" "group_forest (stack, roots)"
    and "map og_delimiter stack = map dk_of st" "track st [tt_kind t] = Some st'"
  shows "group_forest (stack', roots') \<and> map og_delimiter stack' = map dk_of st'"
proof -
  consider (eof) "is_eof (tt_kind t)"
    | (opens) d where "\<not> is_eof (tt_kind t)" "opening_delimiter (tt_kind t) = Some d"
    | (shuts) c where "\<not> is_eof (tt_kind t)" "opening_delimiter (tt_kind t) = None" "closing_delimiter (tt_kind t) = Some c"
    | (plain) "\<not> is_eof (tt_kind t)" "opening_delimiter (tt_kind t) = None" "closing_delimiter (tt_kind t) = None"
    by fastforce
  then show ?thesis
  proof cases
    case eof
    then have "opening_delimiter (tt_kind t) = None" "closing_delimiter (tt_kind t) = None"
      by (auto simp: is_eof_def opening_delimiter_def closing_delimiter_def split: token_kind.splits)
    with eof assms show ?thesis by (simp add: place_token_def)
  next
    case (opens d)
    with assms show ?thesis by (auto simp: place_token_def dk_opening_eq group_forest_def)
  next
    case (shuts c)
    then obtain s where st: "st = s @ [c]" "st' = s"
      using assms(4) by (cases st rule: rev_cases) (auto split: if_splits)
    then obtain gs g where g: "stack = gs @ [g]" "map og_delimiter gs = map dk_of s" "og_delimiter g = dk_of c"
      using assms(3) by (cases stack rule: rev_cases) auto
    obtain ss rr where at: "append_tree (close_group g (Some t)) (gs, roots) = (ss, rr)" by fastforce
    have "well_grouped (close_group g (Some t))" "group_forest (gs, roots)"
      using g shuts assms(2) by (auto simp: close_group_def group_forest_def dk_closing_eq)
    from append_tree_grouped [OF at this] show ?thesis
      using assms(1) shuts g st at by (auto simp: place_token_def dk_opening_eq dk_closing_eq)
  next
    case plain
    obtain ss rr where at: "append_tree (TreeToken t) (stack, roots) = (ss, rr)" by fastforce
    have "well_grouped (TreeToken t)" using plain by (simp add: dk_opening_eq dk_closing_eq)
    from append_tree_grouped [OF at this assms(2)] show ?thesis
      using assms plain at by (auto simp: place_token_def dk_opening_eq dk_closing_eq)
  qed
qed

lemma build_loop_grouped:
  assumes "build_loop file src ts (roots, stack, eof) prov = Some ((roots', stack', eof'), prov')"
    and "group_forest (stack, roots)" "map og_delimiter stack = map dk_of st"
    and "track st (map token_kind ts) = Some st'"
  shows "group_forest (stack', roots') \<and> map og_delimiter stack' = map dk_of st'"
  using assms
proof (induction ts arbitrary: roots stack eof prov st)
  case (Cons t ts)
  obtain prov1 r where p: "tt_physical t src file prov = Some (prov1, r)" and k: "tt_kind r = token_kind t"
    using Cons.prems(1) by (auto simp: tt_physical_def split: option.splits)
  obtain ro s eo where pl: "place_token r (roots, stack, eof) = (ro, s, eo)"
    by (cases "place_token r (roots, stack, eof)")
  obtain st1 where t1: "track st [tt_kind r] = Some st1" and t2: "track st1 (map token_kind ts) = Some st'"
    using Cons.prems(4) track_append [of st "[token_kind t]" "map token_kind ts"] k by (auto split: option.splits)
  have "build_loop file src ts (ro, s, eo) prov1 = Some ((roots', stack', eof'), prov')"
    using Cons.prems(1) p pl by simp
  with Cons.IH [OF this _ _ t2] place_token_grouped [OF pl Cons.prems(2,3) t1] show ?case by blast
qed simp

text \<open>
  C10: When the lexer reports no delimiter diagnostic, every opener of the tree is closed by a
  closer of its own kind and no delimiter is left as a leaf.
\<close>

theorem token_trees_well_grouped:
  assumes "build_token_trees sp src (lo_tokens (lex f src)) prov = Some (u, prov')"
    and "\<not> delimiter_errors (lo_diagnostics (lex f src))"
  shows "list_all well_grouped (tu_trees u)"
proof -
  obtain ro st eo where b: "build_loop (span_file sp) src (lo_tokens (lex f src)) ([], [], None) prov = Some ((ro, st, eo), prov')"
    and u: "tu_trees u = close_open st ro"
    using assms(1) by (auto simp: build_token_trees_def split: option.splits)
  have "track [] (map token_kind (lo_tokens (lex f src))) = Some []"
    by (rule lex_tracks [OF assms(2)])
  from build_loop_grouped [OF b _ _ this] have "group_forest (st, ro)" "st = []"
    by (auto simp: group_forest_def)
  then show ?thesis by (simp add: u close_open.simps group_forest_def)
qed

lemma token_trees_well_grouped_witness:
  "\<exists>u prov'. build_token_trees (span_new 0 0 14) sample_source (lo_tokens (lex 0 sample_source)) provenance_new = Some (u, prov')
     \<and> list_all well_grouped (tu_trees u)"
proof -
  have "build_token_trees (span_new 0 0 14) sample_source (lo_tokens (lex 0 sample_source)) provenance_new \<noteq> None"
    by code_simp
  then obtain u prov' where u: "build_token_trees (span_new 0 0 14) sample_source (lo_tokens (lex 0 sample_source)) provenance_new = Some (u, prov')"
    by auto
  from token_trees_well_grouped [OF u] u show ?thesis by (simp add: sample_clean)
qed

section \<open>Origin ranges\<close>

lemma leaves_not_Nil [simp]: "leaves t \<noteq> []"
  by (cases t) simp_all

lemma tree_origin_last: "well_ranged t \<Longrightarrow> or_last (tree_origin t) = tt_origin (last (leaves t))"
  by (cases t) (simp_all add: origin_range_new_def)

lemma close_group_ranged:
  "list_all well_ranged (og_children g) \<Longrightarrow> well_ranged (close_group g cl)"
  by (cases "og_children g" rule: rev_cases)
    (auto simp: close_group_def group_origin_def tree_origin_last split: option.splits)

definition range_forest :: "open_group list \<times> token_tree list \<Rightarrow> bool" where
  "range_forest = (\<lambda>(stack, roots).
     list_all well_ranged roots \<and> list_all (\<lambda>g. list_all well_ranged (og_children g)) stack)"

lemma append_tree_ranged:
  "append_tree tree (stack, roots) = (stack', roots') \<Longrightarrow> well_ranged tree \<Longrightarrow> range_forest (stack, roots) \<Longrightarrow>
   range_forest (stack', roots')"
  by (cases stack rule: rev_cases) (auto simp: append_tree_def range_forest_def)

lemma place_token_ranged:
  assumes "place_token t (roots, stack, eof) = (roots', stack', eof')" "range_forest (stack, roots)"
  shows "range_forest (stack', roots')"
proof -
  have leaf: "range_forest (s, r)" if "append_tree (TreeToken t) (stack, roots) = (s, r)" for s r
    using append_tree_ranged [OF that] assms(2) by simp
  have group: "range_forest (s, r)"
    if "append_tree (close_group g (Some t)) (butlast stack, roots) = (s, r)" "vlast stack = Some g" for s r g
  proof -
    note step = that
    obtain gs where "stack = gs @ [g]" using step(2) by (auto simp: vlast_Some_iff)
    with assms(2) have "range_forest (butlast stack, roots)" "list_all well_ranged (og_children g)"
      by (simp_all add: range_forest_def)
    then have "range_forest (butlast stack, roots)" "well_ranged (close_group g (Some t))"
      by (simp_all add: close_group_ranged)
    with append_tree_ranged [OF step(1)] show ?thesis by blast
  qed
  show ?thesis
    using assms leaf group
    by (auto simp: place_token_def split: if_splits option.splits prod.splits) (auto simp: range_forest_def)
qed

lemma build_loop_ranged:
  "build_loop file src ts (roots, stack, eof) prov = Some ((roots', stack', eof'), prov') \<Longrightarrow>
   range_forest (stack, roots) \<Longrightarrow> range_forest (stack', roots')"
proof (induction ts arbitrary: roots stack eof prov)
  case (Cons t ts)
  obtain prov1 r where p: "tt_physical t src file prov = Some (prov1, r)"
    using Cons.prems(1) by (auto split: option.splits)
  obtain ro s eo where pl: "place_token r (roots, stack, eof) = (ro, s, eo)"
    by (cases "place_token r (roots, stack, eof)")
  show ?case
    using Cons.IH [of ro s eo prov1] Cons.prems p pl place_token_ranged [OF pl] by simp
qed simp

lemma close_open_ranged: "range_forest (stack, roots) \<Longrightarrow> list_all well_ranged (close_open stack roots)"
proof (induction stack roots rule: close_open.induct)
  case (1 stack roots)
  show ?case
  proof (cases "vlast stack")
    case None
    then show ?thesis using "1.prems" by (subst close_open.simps) (simp add: range_forest_def)
  next
    case (Some g)
    obtain st' ro' where at: "append_tree (close_group g None) (butlast stack, roots) = (st', ro')"
      by fastforce
    obtain gs where gs: "stack = gs @ [g]" using Some by (auto simp: vlast_Some_iff)
    with "1.prems" have "range_forest (butlast stack, roots)" "list_all well_ranged (og_children g)"
      by (simp_all add: range_forest_def)
    then have "range_forest (butlast stack, roots)" "well_ranged (close_group g None)"
      by (simp_all add: close_group_ranged)
    from "1.IH" [OF Some at [symmetric] append_tree_ranged [OF at this(2,1)]] show ?thesis
      using Some at by (subst close_open.simps) simp
  qed
qed

text \<open>
  C14: Whatever the token stream, the origin range recorded for a group runs from its opening
  delimiter to the last token inside it, closed or not.
\<close>

theorem token_trees_well_ranged:
  assumes "build_token_trees sp src ts prov = Some (u, prov')"
  shows "list_all well_ranged (tu_trees u)"
proof -
  obtain ro st eo where b: "build_loop (span_file sp) src ts ([], [], None) prov = Some ((ro, st, eo), prov')"
    and u: "tu_trees u = close_open st ro"
    using assms(1) by (auto simp: build_token_trees_def split: option.splits)
  from build_loop_ranged [OF b] show ?thesis
    unfolding u by (intro close_open_ranged) (simp add: range_forest_def)
qed

lemma token_trees_well_ranged_witness:
  "\<exists>u prov'. build_token_trees (span_new 0 0 14) ''[f('' (lo_tokens (lex 0 ''[f('')) provenance_new = Some (u, prov')
     \<and> list_all well_ranged (tu_trees u)"
proof -
  have "build_token_trees (span_new 0 0 14) ''[f('' (lo_tokens (lex 0 ''[f('')) provenance_new \<noteq> None"
    by code_simp
  then obtain u prov' where u: "build_token_trees (span_new 0 0 14) ''[f('' (lo_tokens (lex 0 ''[f('')) provenance_new = Some (u, prov')"
    by auto
  from token_trees_well_ranged [OF u] u show ?thesis by blast
qed

end
