(* ===== verification/Scheduler.thy ===== *)
theory Scheduler
  imports Resources Token_Tree "HOL-Library.List_Lexorder" "HOL-Library.Product_Lexorder"
begin

text \<open>
  The expansion scheduler: \<^verbatim>\<open>src/expansion/scheduler.rs\<close>. Work is an append-only list; the ready set
  is ordered. Every way the code can abort is a value of \<open>failure\<close>. In the source
  \<open>recover\<close>, \<open>refresh_dependents\<close> and \<open>refresh\<close> call each other; here \<open>settle\<close> is that
  recursion with its call stack made explicit (the list of work still to refresh).
\<close>

section \<open>Requests\<close>

datatype expansion_role = RoleAttribute | RoleDerive | RoleExpression | RolePattern | RoleType | RoleStatements | RoleItems

record structural_token =
  st_kind :: token_kind
  st_source :: string

type_synonym structural_input = "structural_token list"

definition structural_input_of :: "token_tree list \<Rightarrow> structural_input" where
  "structural_input_of trees =
     map (\<lambda>t. \<lparr>st_kind = tt_kind t, st_source = tt_source t\<rparr>) (flatten_token_trees trees)"

text \<open>Package paths, module paths and provenance orders compare lexicographically.\<close>

datatype expansion_location =
  ExpansionLocation (loc_package: package_id) (loc_module: "string list") (loc_order: "nat list")

instantiation expansion_location :: linorder
begin

definition location_key :: "expansion_location \<Rightarrow> package_id \<times> string list \<times> nat list" where
  "location_key l = (loc_package l, loc_module l, loc_order l)"

definition less_eq_expansion_location :: "expansion_location \<Rightarrow> expansion_location \<Rightarrow> bool" where
  "a \<le> b \<longleftrightarrow> location_key a \<le> location_key b"

definition less_expansion_location :: "expansion_location \<Rightarrow> expansion_location \<Rightarrow> bool" where
  "a < b \<longleftrightarrow> location_key a < location_key b"

instance
proof
  fix a b c :: expansion_location
  show "a < b \<longleftrightarrow> a \<le> b \<and> \<not> b \<le> a"
    by (auto simp: less_eq_expansion_location_def less_expansion_location_def)
  show "a \<le> a" by (simp add: less_eq_expansion_location_def)
  show "a \<le> b \<Longrightarrow> b \<le> c \<Longrightarrow> a \<le> c"
    unfolding less_eq_expansion_location_def by (rule order_trans)
  show "a \<le> b \<Longrightarrow> b \<le> a \<Longrightarrow> a = b"
    unfolding less_eq_expansion_location_def
    by (cases a; cases b) (metis Pair_inject antisym expansion_location.sel location_key_def)
  show "a \<le> b \<or> b \<le> a"
    unfolding less_eq_expansion_location_def by (rule linear)
qed

end

definition location_physical :: "package_id \<Rightarrow> string list \<Rightarrow> nat \<Rightarrow> expansion_location" where
  "location_physical p m off = ExpansionLocation p m [off]"

definition location_generated :: "expansion_location \<Rightarrow> nat \<Rightarrow> expansion_location" where
  "location_generated l i = ExpansionLocation (loc_package l) (loc_module l) (loc_order l @ [i])"

record expansion_request =
  rq_declaration :: nat
  rq_role :: expansion_role
  rq_input :: structural_input
  rq_location :: expansion_location
  rq_invocation :: origin_id
  rq_definition :: origin_id

definition repeats :: "expansion_request \<Rightarrow> expansion_request \<Rightarrow> bool" where
  "repeats a b \<longleftrightarrow> rq_declaration a = rq_declaration b \<and> rq_role a = rq_role b \<and> rq_input a = rq_input b"

record definition_expansions =
  de_attributes :: "expansion_request list"
  de_derives :: "expansion_request list"
  de_invocations :: "expansion_request list"

record scheduled_output =
  so_generated_nodes :: nat
  so_invocations :: "expansion_request list"
  so_definitions :: "definition_expansions list"

section \<open>State\<close>

type_synonym work_id = nat

datatype recovery_reason = RCycle | RDependency | RInvalidOutput | RExecutionFailure | RResourceLimit resource_limit_kind

datatype work_state = Pending | Ready | Active | Completed | Recovered nat

record recovery_node =
  rn_id :: nat
  rn_work :: work_id
  rn_role :: expansion_role
  rn_reason :: recovery_reason
  rn_active_chain :: "work_id list"

record schedule_problem =
  sp_work :: work_id
  sp_invocation :: origin_id
  sp_definition :: origin_id
  sp_reason :: recovery_reason
  sp_active_chain :: "work_id list"

definition problem_message :: "schedule_problem \<Rightarrow> string" where
  "problem_message p =
     (case sp_reason p of
        RCycle \<Rightarrow> ''compile-time expansion re-entered the same declaration, role, and input''
      | RDependency \<Rightarrow> ''compile-time expansion dependency did not complete''
      | RInvalidOutput \<Rightarrow> ''compile-time expansion returned structurally invalid output''
      | RExecutionFailure \<Rightarrow> ''compile-time expansion execution failed''
      | RResourceLimit k \<Rightarrow> ''compile-time expansion exceeded a resource limit'')"

datatype dependency_kind = StageDependency | GeneratedDependency

record expansion_dependency =
  ed_prerequisite :: work_id
  ed_dependent :: work_id
  ed_kind :: dependency_kind

record scheduled_expansion =
  se_id :: work_id
  se_request :: expansion_request
  se_parent :: "work_id option"
  se_dependencies :: "work_id list"
  se_depth :: nat
  se_resources :: "execution_resource_usage option"
  se_state :: work_state

record expansion_resource_usage =
  us_executions :: nat
  us_generated_nodes :: nat
  us_maximum_depth :: nat

type_synonym ready_key = "expansion_location \<times> work_id"

record scheduler =
  sc_work :: "scheduled_expansion list"
  sc_edges :: "expansion_dependency list"
  sc_recoveries :: "recovery_node list"
  sc_problems :: "schedule_problem list"
  sc_ready :: "ready_key list"
  sc_limits :: expansion_limits
  sc_usage :: expansion_resource_usage

definition scheduler_with_limits :: "expansion_limits \<Rightarrow> scheduler" where
  "scheduler_with_limits lim =
     \<lparr>sc_work = [], sc_edges = [], sc_recoveries = [], sc_problems = [], sc_ready = [], sc_limits = lim,
      sc_usage = \<lparr>us_executions = 0, us_generated_nodes = 0, us_maximum_depth = 0\<rparr>\<rparr>"

text \<open>
  Ways to abort: an identity beyond \<open>u32\<close>, a request in the wrong stage, a failure reason reserved
  for the scheduler, an internal assertion or index, and a loop that does not return.
\<close>

datatype failure = Overflow | BadRole | BadReason | Assertion | Diverges

text \<open>\<open>BTreeSet\<close> as a strictly sorted list\<close>

definition set_insert :: "'a::linorder \<Rightarrow> 'a list \<Rightarrow> 'a list" where
  "set_insert x xs = (if x \<in> set xs then xs else insort x xs)"

definition is_recovered :: "work_state \<Rightarrow> bool" where
  "is_recovered s = (case s of Recovered r \<Rightarrow> True | _ \<Rightarrow> False)"

definition is_settled :: "work_state \<Rightarrow> bool" where
  "is_settled s = (case s of Completed \<Rightarrow> True | Recovered r \<Rightarrow> True | _ \<Rightarrow> False)"

definition set_state :: "work_id \<Rightarrow> work_state \<Rightarrow> scheduler \<Rightarrow> scheduler" where
  "set_state i s st = st\<lparr>sc_work := (sc_work st)[i := (sc_work st ! i)\<lparr>se_state := s\<rparr>]\<rparr>"

section \<open>Recovery and readiness\<close>

definition sorted_dependents :: "scheduler \<Rightarrow> work_id \<Rightarrow> failure + work_id list" where
  "sorted_dependents st p =
     (let ds = map ed_dependent (filter (\<lambda>e. ed_prerequisite e = p) (sc_edges st)) in
      if list_all (\<lambda>d. d < length (sc_work st)) ds
      then Inr (remdups_adj (map snd (sort (map (\<lambda>d. (rq_location (se_request (sc_work st ! d)), d)) ds))))
      else Inl Assertion)"

text \<open>\<open>recover\<close> up to its last line, which refreshes the dependents\<close>

definition recover_one ::
  "scheduler \<Rightarrow> work_id \<Rightarrow> recovery_reason \<Rightarrow> work_id list \<Rightarrow> failure + scheduler" where
  "recover_one st i reason chain =
     (case vget (sc_work st) i of
        None \<Rightarrow> Inl Assertion
      | Some w \<Rightarrow>
          if is_settled (se_state w) then Inl Assertion
          else
            (case u32_try_from (length (sc_recoveries st)) of
               None \<Rightarrow> Inl Overflow
             | Some r \<Rightarrow>
                 (let rq = se_request w;
                      st1 = st\<lparr>sc_ready := remove1 (rq_location rq, i) (sc_ready st),
                               sc_recoveries := sc_recoveries st @
                                 [\<lparr>rn_id = r, rn_work = i, rn_role = rq_role rq, rn_reason = reason,
                                   rn_active_chain = chain\<rparr>],
                               sc_problems :=
                                 (if reason \<noteq> RDependency
                                  then sc_problems st @
                                         [\<lparr>sp_work = i, sp_invocation = rq_invocation rq,
                                           sp_definition = rq_definition rq, sp_reason = reason,
                                           sp_active_chain = chain\<rparr>]
                                  else sc_problems st)\<rparr>
                  in Inr (set_state i (Recovered r) st1))))"

fun any_recovered :: "scheduled_expansion list \<Rightarrow> work_id list \<Rightarrow> failure + bool" where
  "any_recovered work [] = Inr False"
| "any_recovered work (d # ds) =
     (case vget work d of
        None \<Rightarrow> Inl Assertion
      | Some w \<Rightarrow> if is_recovered (se_state w) then Inr True else any_recovered work ds)"

fun all_completed :: "scheduled_expansion list \<Rightarrow> work_id list \<Rightarrow> failure + bool" where
  "all_completed work [] = Inr True"
| "all_completed work (d # ds) =
     (case vget work d of
        None \<Rightarrow> Inl Assertion
      | Some w \<Rightarrow> if se_state w = Completed then all_completed work ds else Inr False)"

text \<open>\<open>refresh\<close>: the new state and the work it would refresh next\<close>

definition refresh_step :: "scheduler \<Rightarrow> work_id \<Rightarrow> failure + scheduler \<times> work_id list" where
  "refresh_step st i =
     (case vget (sc_work st) i of
        None \<Rightarrow> Inl Assertion
      | Some w \<Rightarrow>
          if se_state w \<noteq> Pending then Inr (st, [])
          else
            (case any_recovered (sc_work st) (se_dependencies w) of
               Inl f \<Rightarrow> Inl f
             | Inr True \<Rightarrow>
                 (case recover_one st i RDependency [] of
                    Inl f \<Rightarrow> Inl f
                  | Inr st' \<Rightarrow>
                      (case sorted_dependents st' i of Inl f \<Rightarrow> Inl f | Inr ds \<Rightarrow> Inr (st', ds)))
             | Inr False \<Rightarrow>
                 (case all_completed (sc_work st) (se_dependencies w) of
                    Inl f \<Rightarrow> Inl f
                  | Inr False \<Rightarrow> Inr (st, [])
                  | Inr True \<Rightarrow>
                      (let st' = set_state i Ready st
                       in Inr (st'\<lparr>sc_ready := set_insert (rq_location (se_request w), i) (sc_ready st')\<rparr>, [])))))"

definition unsettled :: "scheduler \<Rightarrow> nat" where
  "unsettled st = length (filter (\<lambda>w. \<not> is_settled (se_state w)) (sc_work st))"

lemma filter_update_less:
  "i < length xs \<Longrightarrow> P (xs ! i) \<Longrightarrow> \<not> P y \<Longrightarrow> length (filter P (xs[i := y])) < length (filter P xs)"
proof (induction xs arbitrary: i)
  case (Cons x xs)
  then show ?case by (cases i) auto
qed simp

lemma filter_update_same:
  "i < length xs \<Longrightarrow> P (xs ! i) = P y \<Longrightarrow> length (filter P (xs[i := y])) = length (filter P xs)"
proof (induction xs arbitrary: i)
  case (Cons x xs)
  then show ?case by (cases i) auto
qed simp

lemma recover_one_unsettled: "recover_one st i reason chain = Inr st' \<Longrightarrow> unsettled st' < unsettled st"
  unfolding recover_one_def unsettled_def set_state_def
  by (auto simp: Let_def is_settled_def dest!: vget_SomeD intro!: filter_update_less
      split: option.splits if_splits work_state.splits)

lemma refresh_step_measure:
  "refresh_step st i = Inr (st', ds) \<Longrightarrow> unsettled st' < unsettled st \<or> unsettled st' = unsettled st \<and> ds = []"
  by (auto simp: refresh_step_def Let_def dest: recover_one_unsettled split: option.splits if_splits sum.splits bool.splits)
    (auto simp: unsettled_def set_state_def is_settled_def dest!: vget_SomeD intro!: filter_update_same)

function settle :: "scheduler \<Rightarrow> work_id list \<Rightarrow> failure + scheduler" where
  "settle st [] = Inr st"
| "settle st (i # is) =
     (case refresh_step st i of
        Inl f \<Rightarrow> Inl f
      | Inr (st', ds) \<Rightarrow> settle st' (ds @ is))"
  by pat_completeness auto
termination
  by (relation "measures [\<lambda>(st, is). unsettled st, \<lambda>(st, is). length is]")
    (auto dest!: refresh_step_measure)

lemma settle_ConsE:
  assumes "settle st (i # is) = Inr st'"
  obtains st1 ds where "refresh_step st i = Inr (st1, ds)" "settle st1 (ds @ is) = Inr st'"
  using assms by (auto split: sum.splits prod.splits)

declare settle.simps(2) [simp del]

definition refresh_dependents :: "scheduler \<Rightarrow> work_id \<Rightarrow> failure + scheduler" where
  "refresh_dependents st p =
     (case sorted_dependents st p of Inl f \<Rightarrow> Inl f | Inr ds \<Rightarrow> settle st ds)"

definition recover :: "scheduler \<Rightarrow> work_id \<Rightarrow> recovery_reason \<Rightarrow> work_id list \<Rightarrow> failure + scheduler" where
  "recover st i reason chain =
     (case recover_one st i reason chain of Inl f \<Rightarrow> Inl f | Inr st' \<Rightarrow> refresh_dependents st' i)"

section \<open>Adding work\<close>

text \<open>The climb of \<open>cycle_chain\<close> to the first ancestor that repeats the request.\<close>

partial_function (option) climb ::
  "scheduled_expansion list \<Rightarrow> expansion_request \<Rightarrow> work_id option \<Rightarrow> work_id list \<Rightarrow> work_id list option option" where
  "climb work rq cursor chain =
     (case cursor of
        None \<Rightarrow> Some None
      | Some a \<Rightarrow>
          (case vget work a of
             None \<Rightarrow> None
           | Some w \<Rightarrow>
               if repeats rq (se_request w) then Some (Some (rev (chain @ [a])))
               else climb work rq (se_parent w) (chain @ [a])))"

declare climb.simps [code]

definition cycle_chain :: "scheduler \<Rightarrow> work_id \<Rightarrow> work_id list option option" where
  "cycle_chain st i =
     (case vget (sc_work st) i of
        None \<Rightarrow> None
      | Some w \<Rightarrow> climb (sc_work st) (se_request w) (se_parent w) [i])"

definition depth_below :: "scheduler \<Rightarrow> work_id option \<Rightarrow> failure + nat" where
  "depth_below st parent =
     (case parent of
        None \<Rightarrow> Inr 1
      | Some p \<Rightarrow>
          (case vget (sc_work st) p of
             None \<Rightarrow> Inl Assertion
           | Some w \<Rightarrow> (case u32_try_from (se_depth w + 1) of None \<Rightarrow> Inl Overflow | Some d \<Rightarrow> Inr d)))"

definition append_work ::
  "scheduler \<Rightarrow> expansion_request \<Rightarrow> work_id option \<Rightarrow> work_id list \<Rightarrow> dependency_kind \<Rightarrow> nat \<Rightarrow> scheduler" where
  "append_work st rq parent deps kind depth =
     (let i = length (sc_work st) in
      st\<lparr>sc_work := sc_work st @
           [\<lparr>se_id = i, se_request = rq, se_parent = parent, se_dependencies = deps, se_depth = depth,
             se_resources = None, se_state = Pending\<rparr>],
         sc_edges := sc_edges st @
           map (\<lambda>p. \<lparr>ed_prerequisite = p, ed_dependent = i, ed_kind = kind\<rparr>) deps,
         sc_usage := (sc_usage st)\<lparr>us_maximum_depth := max (us_maximum_depth (sc_usage st)) depth\<rparr>\<rparr>)"

definition enqueue_internal ::
  "scheduler \<Rightarrow> expansion_request \<Rightarrow> work_id option \<Rightarrow> work_id list \<Rightarrow> dependency_kind \<Rightarrow> failure + scheduler \<times> work_id" where
  "enqueue_internal st rq parent deps kind =
     (if \<not> list_all (\<lambda>d. d < length (sc_work st)) deps then Inl Assertion
      else
        (case u32_try_from (length (sc_work st)) of
           None \<Rightarrow> Inl Overflow
         | Some i \<Rightarrow>
             (case depth_below st parent of
                Inl f \<Rightarrow> Inl f
              | Inr depth \<Rightarrow>
                  (let st1 = append_work st rq parent deps kind depth in
                   case (if lim_active_depth (sc_limits st1) < depth
                         then recover st1 i (RResourceLimit ActiveDepth) []
                         else (case cycle_chain st1 i of
                                 None \<Rightarrow> Inl Diverges
                               | Some (Some chain) \<Rightarrow> recover st1 i RCycle chain
                               | Some None \<Rightarrow> settle st1 [i])) of
                     Inl f \<Rightarrow> Inl f
                   | Inr st2 \<Rightarrow> Inr (st2, i)))))"

definition enqueue :: "scheduler \<Rightarrow> expansion_request \<Rightarrow> failure + scheduler \<times> work_id" where
  "enqueue st rq = enqueue_internal st rq None [] StageDependency"

fun enqueue_stages ::
  "scheduler \<Rightarrow> work_id option \<Rightarrow> work_id option \<Rightarrow> expansion_request list \<Rightarrow> failure + scheduler \<times> work_id list" where
  "enqueue_stages st generated_by previous [] = Inr (st, [])"
| "enqueue_stages st generated_by previous (rq # rqs) =
     (let deps = (case previous of None \<Rightarrow> [] | Some p \<Rightarrow> [p]);
          kind = (if previous = generated_by \<and> generated_by \<noteq> None then GeneratedDependency else StageDependency)
      in case enqueue_internal st rq previous deps kind of
           Inl f \<Rightarrow> Inl f
         | Inr (st', i) \<Rightarrow>
             (case enqueue_stages st' generated_by (Some i) rqs of
                Inl f \<Rightarrow> Inl f
              | Inr (st'', is) \<Rightarrow> Inr (st'', i # is)))"

definition enqueue_definition_after ::
  "scheduler \<Rightarrow> work_id option \<Rightarrow> definition_expansions \<Rightarrow> failure + scheduler \<times> work_id list" where
  "enqueue_definition_after st generated_by d =
     (if list_all (\<lambda>r. rq_role r = RoleAttribute) (de_attributes d)
         \<and> list_all (\<lambda>r. rq_role r = RoleDerive) (de_derives d)
      then enqueue_stages st generated_by generated_by (de_attributes d @ de_derives d @ de_invocations d)
      else Inl BadRole)"

definition enqueue_definition :: "scheduler \<Rightarrow> definition_expansions \<Rightarrow> failure + scheduler \<times> work_id list" where
  "enqueue_definition st d = enqueue_definition_after st None d"

section \<open>Running\<close>

function next_ready :: "scheduler \<Rightarrow> failure + scheduler \<times> work_id option" where
  "next_ready st =
     (case sc_ready st of
        [] \<Rightarrow> Inr (st, None)
      | key # rest \<Rightarrow>
          (let st1 = st\<lparr>sc_ready := rest\<rparr>; i = snd key in
           case vget (sc_work st1) i of
             None \<Rightarrow> Inl Assertion
           | Some w \<Rightarrow>
               if se_state w \<noteq> Ready then Inl Assertion
               else if lim_executions (sc_limits st1) \<le> us_executions (sc_usage st1) then
                 (case recover st1 i (RResourceLimit Executions) [] of
                    Inl f \<Rightarrow> Inl f
                  | Inr st2 \<Rightarrow> next_ready st2)
               else
                 Inr (set_state i Active
                        (st1\<lparr>sc_usage := (sc_usage st1)\<lparr>us_executions := us_executions (sc_usage st1) + 1\<rparr>\<rparr>),
                      Some i)))"
  by pat_completeness auto

lemma settle_unsettled: "settle st is = Inr st' \<Longrightarrow> unsettled st' \<le> unsettled st"
proof (induction st "is" rule: settle.induct)
  case (2 st i "is")
  from "2.prems" obtain st1 ds where s: "refresh_step st i = Inr (st1, ds)" "settle st1 (ds @ is) = Inr st'"
    by (rule settle_ConsE)
  with "2.IH" [OF s(1) refl s(2)] refresh_step_measure [OF s(1)] show ?case by auto
qed simp

lemma recover_unsettled: "recover st i reason chain = Inr st' \<Longrightarrow> unsettled st' < unsettled st"
  by (auto simp: recover_def refresh_dependents_def split: sum.splits
      dest!: settle_unsettled recover_one_unsettled)

lemma unsettled_ready [simp]: "unsettled (st\<lparr>sc_ready := r\<rparr>) = unsettled st"
  by (simp add: unsettled_def)

termination next_ready
  by (relation "measure unsettled") (auto dest!: recover_unsettled)

declare next_ready.simps [simp del]

definition assert_active :: "scheduler \<Rightarrow> work_id \<Rightarrow> bool" where
  "assert_active st i \<longleftrightarrow> (case vget (sc_work st) i of None \<Rightarrow> False | Some w \<Rightarrow> se_state w = Active)"

fun enqueue_invocations ::
  "scheduler \<Rightarrow> work_id \<Rightarrow> expansion_request list \<Rightarrow> failure + scheduler \<times> work_id list" where
  "enqueue_invocations st i [] = Inr (st, [])"
| "enqueue_invocations st i (rq # rqs) =
     (case enqueue_internal st rq (Some i) [i] GeneratedDependency of
        Inl f \<Rightarrow> Inl f
      | Inr (st', j) \<Rightarrow>
          (case enqueue_invocations st' i rqs of Inl f \<Rightarrow> Inl f | Inr (st'', js) \<Rightarrow> Inr (st'', j # js)))"

fun enqueue_definitions ::
  "scheduler \<Rightarrow> work_id \<Rightarrow> definition_expansions list \<Rightarrow> failure + scheduler \<times> work_id list" where
  "enqueue_definitions st i [] = Inr (st, [])"
| "enqueue_definitions st i (d # ds) =
     (case enqueue_definition_after st (Some i) d of
        Inl f \<Rightarrow> Inl f
      | Inr (st', js) \<Rightarrow>
          (case enqueue_definitions st' i ds of Inl f \<Rightarrow> Inl f | Inr (st'', ks) \<Rightarrow> Inr (st'', js @ ks)))"

definition over_budget :: "scheduler \<Rightarrow> scheduled_output \<Rightarrow> bool" where
  "over_budget st out =
     (case u64_checked_add (us_generated_nodes (sc_usage st)) (so_generated_nodes out) of
        None \<Rightarrow> True
      | Some n \<Rightarrow> lim_generated_nodes (sc_limits st) < n)"

definition complete :: "scheduler \<Rightarrow> work_id \<Rightarrow> scheduled_output \<Rightarrow> failure + scheduler \<times> work_id list" where
  "complete st i out =
     (if \<not> assert_active st i then Inl Assertion
      else if over_budget st out then
        (case recover st i (RResourceLimit GeneratedNodes) [] of Inl f \<Rightarrow> Inl f | Inr st' \<Rightarrow> Inr (st', []))
      else
        (let st1 = set_state i Completed
                     (st\<lparr>sc_usage := (sc_usage st)\<lparr>us_generated_nodes :=
                           us_generated_nodes (sc_usage st) + so_generated_nodes out\<rparr>\<rparr>)
         in case refresh_dependents st1 i of
              Inl f \<Rightarrow> Inl f
            | Inr st2 \<Rightarrow>
                (case enqueue_invocations st2 i (so_invocations out) of
                   Inl f \<Rightarrow> Inl f
                 | Inr (st3, js) \<Rightarrow>
                     (case enqueue_definitions st3 i (so_definitions out) of
                        Inl f \<Rightarrow> Inl f
                      | Inr (st4, ks) \<Rightarrow> Inr (st4, js @ ks)))))"

definition fail :: "scheduler \<Rightarrow> work_id \<Rightarrow> recovery_reason \<Rightarrow> failure + scheduler" where
  "fail st i reason =
     (if reason = RCycle \<or> reason = RDependency then Inl BadReason
      else if \<not> assert_active st i then Inl Assertion
      else recover st i reason [])"

text \<open>The body of \<open>run\<close> after the callback has returned.\<close>

definition finish_execution ::
  "scheduler \<Rightarrow> work_id \<Rightarrow> execution_resources \<Rightarrow> recovery_reason + scheduled_output \<Rightarrow> failure + scheduler" where
  "finish_execution st i res result =
     (let st1 = st\<lparr>sc_work := (sc_work st)[i := (sc_work st ! i)\<lparr>se_resources := Some (er_usage res)\<rparr>]\<rparr> in
      case exhausted res of
        Some k \<Rightarrow> fail st1 i (RResourceLimit k)
      | None \<Rightarrow>
          (case result of
             Inr out \<Rightarrow> (case complete st1 i out of Inl f \<Rightarrow> Inl f | Inr (st2, js) \<Rightarrow> Inr st2)
           | Inl reason \<Rightarrow> fail st1 i reason))"

text \<open>
  The callback of \<open>run\<close> is a parameter: it may keep a state of its own, reads the scheduled
  record, and returns its meter and its result.
\<close>

type_synonym 'x executor =
  "'x \<Rightarrow> scheduled_expansion \<Rightarrow> execution_resources \<Rightarrow>
   'x \<times> execution_resources \<times> (recovery_reason + scheduled_output)"

text \<open>Every step but \<open>next_ready\<close> leaves the execution budget alone, which is what bounds the loop.\<close>

definition same_budget :: "scheduler \<Rightarrow> scheduler \<Rightarrow> bool" where
  "same_budget st st' \<longleftrightarrow>
     sc_limits st' = sc_limits st \<and> us_executions (sc_usage st') = us_executions (sc_usage st)"

lemma same_budget_trans: "same_budget a b \<Longrightarrow> same_budget b c \<Longrightarrow> same_budget a c"
  by (simp add: same_budget_def)

text \<open>Only \<open>complete\<close> counts generated nodes, and only it completes work.\<close>

definition completed :: "scheduler \<Rightarrow> work_id \<Rightarrow> bool" where
  "completed st i \<longleftrightarrow> i < length (sc_work st) \<and> se_state (sc_work st ! i) = Completed"

definition same_usage :: "scheduler \<Rightarrow> scheduler \<Rightarrow> bool" where
  "same_usage st st' \<longleftrightarrow>
     same_budget st st' \<and> us_generated_nodes (sc_usage st') = us_generated_nodes (sc_usage st) \<and> completed st' = completed st"

lemma same_usage_refl [simp]: "same_usage st st"
  by (simp add: same_usage_def same_budget_def)

lemma same_usage_trans: "same_usage a b \<Longrightarrow> same_usage b c \<Longrightarrow> same_usage a c"
  by (simp add: same_usage_def same_budget_def)

lemma same_usage_budget: "same_usage a b \<Longrightarrow> same_budget a b"
  by (simp add: same_usage_def)

lemma completed_set_state:
  "i < length (sc_work st) \<Longrightarrow> se_state (sc_work st ! i) \<noteq> Completed \<Longrightarrow>
   completed (set_state i s st) = (\<lambda>j. completed st j \<or> j = i \<and> s = Completed)"
  by (auto simp: completed_def set_state_def nth_list_update fun_eq_iff)

lemma completed_fields [simp]:
  "completed (st\<lparr>sc_ready := r\<rparr>) = completed st" "completed (st\<lparr>sc_usage := u\<rparr>) = completed st"
  "completed (st\<lparr>sc_recoveries := rs\<rparr>) = completed st" "completed (st\<lparr>sc_problems := ps\<rparr>) = completed st"
  by (simp_all add: completed_def fun_eq_iff)

lemma same_usage_fields [simp]:
  "same_usage a (st\<lparr>sc_ready := r\<rparr>) = same_usage a st" "same_usage a (st\<lparr>sc_recoveries := rs\<rparr>) = same_usage a st"
  "same_usage a (st\<lparr>sc_problems := ps\<rparr>) = same_usage a st"
  "same_usage (st\<lparr>sc_ready := r\<rparr>) a = same_usage st a"
  by (simp_all add: same_usage_def same_budget_def)

lemma set_state_usage:
  assumes "i < length (sc_work st)" "se_state (sc_work st ! i) \<noteq> Completed" "s \<noteq> Completed"
  shows "same_usage a (set_state i s st) = same_usage a st"
  using completed_set_state [OF assms(1,2), of s] assms(3) by (simp add: same_usage_def same_budget_def set_state_def)

lemma recover_one_usage:
  assumes "recover_one st i reason chain = Inr st'"
  shows "same_usage st st'"
proof -
  have i: "i < length (sc_work st)" "\<not> is_settled (se_state (sc_work st ! i))"
    using assms by (auto simp: recover_one_def split: option.splits if_splits dest!: vget_SomeD)
  then have "se_state (sc_work st ! i) \<noteq> Completed" by (auto simp: is_settled_def)
  with i(1) assms show ?thesis
    by (auto simp: recover_one_def Let_def set_state_usage split: option.splits if_splits)
qed

lemma refresh_step_usage:
  assumes "refresh_step st i = Inr (st', ds)"
  shows "same_usage st st'"
proof (cases "i < length (sc_work st) \<and> se_state (sc_work st ! i) = Pending")
  case True
  then have "same_usage st (set_state i Ready st)" by (simp add: set_state_usage)
  with assms show ?thesis
    by (auto simp: refresh_step_def Let_def split: option.splits if_splits sum.splits bool.splits dest: recover_one_usage)
next
  case False
  with assms show ?thesis by (auto simp: refresh_step_def dest!: vget_SomeD split: option.splits)
qed

lemma settle_usage: "settle st is = Inr st' \<Longrightarrow> same_usage st st'"
proof (induction st "is" rule: settle.induct)
  case (2 st i "is")
  from "2.prems" obtain st1 ds where s: "refresh_step st i = Inr (st1, ds)" "settle st1 (ds @ is) = Inr st'"
    by (rule settle_ConsE)
  show ?case by (rule same_usage_trans [OF refresh_step_usage [OF s(1)] "2.IH" [OF s(1) refl s(2)]])
qed simp

lemma refresh_dependents_usage: "refresh_dependents st p = Inr st' \<Longrightarrow> same_usage st st'"
  by (auto simp: refresh_dependents_def settle_usage split: sum.splits)

lemma recover_usage: "recover st i reason chain = Inr st' \<Longrightarrow> same_usage st st'"
  by (auto simp: recover_def split: sum.splits
      intro: same_usage_trans [OF recover_one_usage refresh_dependents_usage])

lemma append_work_usage: "same_usage st (append_work st rq parent deps kind depth)"
  by (auto simp: append_work_def Let_def same_usage_def same_budget_def completed_def nth_append fun_eq_iff less_Suc_eq)

lemma enqueue_internal_usage:
  "enqueue_internal st rq parent deps kind = Inr (st', i) \<Longrightarrow> same_usage st st'"
  by (auto simp: enqueue_internal_def Let_def split: sum.splits option.splits if_splits
      intro: same_usage_trans [OF append_work_usage] recover_usage settle_usage)

lemma enqueue_stages_usage: "enqueue_stages st g p rqs = Inr (st', is) \<Longrightarrow> same_usage st st'"
proof (induction rqs arbitrary: st p "is")
  case (Cons rq rqs)
  then show ?case
    by (auto simp: Let_def split: sum.splits prod.splits
        intro: same_usage_trans [OF enqueue_internal_usage])
qed simp

lemma enqueue_definition_after_usage:
  "enqueue_definition_after st g d = Inr (st', is) \<Longrightarrow> same_usage st st'"
  by (auto simp: enqueue_definition_after_def enqueue_stages_usage split: if_splits)

lemma enqueue_invocations_usage: "enqueue_invocations st i rqs = Inr (st', is) \<Longrightarrow> same_usage st st'"
proof (induction rqs arbitrary: st "is")
  case (Cons rq rqs)
  then show ?case
    by (auto split: sum.splits prod.splits intro: same_usage_trans [OF enqueue_internal_usage])
qed simp

lemma enqueue_definitions_usage: "enqueue_definitions st i ds = Inr (st', is) \<Longrightarrow> same_usage st st'"
proof (induction ds arbitrary: st "is")
  case (Cons d ds)
  then show ?case
    by (auto split: sum.splits prod.splits intro: same_usage_trans [OF enqueue_definition_after_usage])
qed simp

text \<open>Completed work has its output counted, within the limit; work whose output is refused does not.\<close>

definition counts :: "scheduler \<Rightarrow> work_id \<Rightarrow> scheduled_output \<Rightarrow> scheduler \<Rightarrow> bool" where
  "counts st i out st' \<longleftrightarrow>
     same_budget st st' \<and> \<not> completed st i
     \<and> us_generated_nodes (sc_usage st') =
         us_generated_nodes (sc_usage st) + (if completed st' i then so_generated_nodes out else 0)
     \<and> (completed st' i \<longrightarrow> us_generated_nodes (sc_usage st') \<le> lim_generated_nodes (sc_limits st))
     \<and> (\<forall>j. j \<noteq> i \<longrightarrow> completed st' j = completed st j)"

lemma complete_counts:
  assumes "complete st i out = Inr (st', is)"
  shows "counts st i out st'"
proof -
  have i: "i < length (sc_work st)" "se_state (sc_work st ! i) = Active"
    using assms by (auto simp: complete_def assert_active_def dest!: vget_SomeD split: if_splits option.splits)
  then have n: "\<not> completed st i" by (simp add: completed_def)
  show ?thesis
  proof (cases "over_budget st out")
    case True
    then have "same_usage st st'"
      using assms by (auto simp: complete_def split: if_splits sum.splits dest: recover_usage)
    then show ?thesis using n by (simp add: counts_def same_usage_def)
  next
    case False
    let ?st0 = "st\<lparr>sc_usage := (sc_usage st)\<lparr>us_generated_nodes := us_generated_nodes (sc_usage st) + so_generated_nodes out\<rparr>\<rparr>"
    let ?st1 = "set_state i Completed ?st0"
    obtain st2 st3 js ks where s: "refresh_dependents ?st1 i = Inr st2"
      "enqueue_invocations st2 i (so_invocations out) = Inr (st3, js)"
      "enqueue_definitions st3 i (so_definitions out) = Inr (st', ks)"
      using assms False by (auto simp: complete_def Let_def split: if_splits sum.splits prod.splits)
    have u: "same_usage ?st1 st'"
      using refresh_dependents_usage [OF s(1)] enqueue_invocations_usage [OF s(2)]
        enqueue_definitions_usage [OF s(3)] by (meson same_usage_trans)
    have "completed ?st1 = (\<lambda>j. completed st j \<or> j = i)"
      using completed_set_state [of i ?st0 Completed] i by (simp add: completed_def)
    moreover have "us_generated_nodes (sc_usage st) + so_generated_nodes out \<le> lim_generated_nodes (sc_limits st)"
      using False by (auto simp: over_budget_def u64_checked_add_def split: option.splits if_splits)
    ultimately show ?thesis using u n by (simp add: counts_def same_usage_def same_budget_def set_state_def)
  qed
qed

lemma complete_budget: "complete st i out = Inr (st', is) \<Longrightarrow> same_budget st st'"
  by (drule complete_counts) (simp add: counts_def)

lemma fail_usage: "fail st i reason = Inr st' \<Longrightarrow> same_usage st st'"
  by (auto simp: fail_def recover_usage split: if_splits)

lemma resources_usage:
  "i < length (sc_work st) \<Longrightarrow> same_usage st (st\<lparr>sc_work := (sc_work st)[i := (sc_work st ! i)\<lparr>se_resources := r\<rparr>]\<rparr>)"
  by (auto simp: same_usage_def same_budget_def completed_def nth_list_update fun_eq_iff)

lemma finish_execution_active:
  assumes "finish_execution st i res result = Inr st'"
  shows "i < length (sc_work st) \<and> se_state (sc_work st ! i) = Active"
proof -
  let ?st1 = "st\<lparr>sc_work := (sc_work st)[i := (sc_work st ! i)\<lparr>se_resources := Some (er_usage res)\<rparr>]\<rparr>"
  have "assert_active ?st1 i"
    using assms by (auto simp: finish_execution_def Let_def fail_def complete_def split: option.splits sum.splits prod.splits if_splits)
  then have "i < length (sc_work ?st1)" "se_state (sc_work ?st1 ! i) = Active"
    unfolding assert_active_def by (auto dest!: vget_SomeD split: option.splits)
  then show ?thesis by simp
qed

text \<open>The end of an execution either changes no count, or completes the work with its output.\<close>

lemma finish_execution_counts:
  assumes "finish_execution st i res result = Inr st'"
  shows "case result of Inl reason \<Rightarrow> same_usage st st' | Inr out \<Rightarrow> counts st i out st'"
proof -
  let ?st1 = "st\<lparr>sc_work := (sc_work st)[i := (sc_work st ! i)\<lparr>se_resources := Some (er_usage res)\<rparr>]\<rparr>"
  have i: "i < length (sc_work st)" "\<not> completed ?st1 i"
    using finish_execution_active [OF assms] resources_usage [of i st "Some (er_usage res)"]
    by (simp_all add: completed_def same_usage_def fun_eq_iff)
  note st1 = resources_usage [OF i(1), of "Some (er_usage res)"]
  from assms consider "same_usage ?st1 st'" | out where "result = Inr out" "counts ?st1 i out st'"
    by (auto simp: finish_execution_def Let_def split: option.splits sum.splits prod.splits dest: fail_usage complete_counts)
  then show ?thesis
  proof cases
    case 1
    then have "same_usage st st'" by (rule same_usage_trans [OF st1])
    with i(2) st1 show ?thesis by (auto simp: counts_def same_usage_def split: sum.split)
  next
    case 2
    with st1 show ?thesis by (auto simp: counts_def same_usage_def same_budget_def)
  qed
qed

lemma finish_execution_budget: "finish_execution st i res result = Inr st' \<Longrightarrow> same_budget st st'"
  by (drule finish_execution_counts) (auto simp: counts_def same_usage_def split: sum.splits)

lemma next_ready_budget:
  "next_ready st = Inr (st', r) \<Longrightarrow>
   sc_limits st' = sc_limits st \<and> us_generated_nodes (sc_usage st') = us_generated_nodes (sc_usage st)
   \<and> completed st' = completed st \<and>
   (case r of
      None \<Rightarrow> us_executions (sc_usage st') = us_executions (sc_usage st)
    | Some i \<Rightarrow> us_executions (sc_usage st') = Suc (us_executions (sc_usage st))
               \<and> us_executions (sc_usage st') \<le> lim_executions (sc_limits st))"
proof (induction st rule: next_ready.induct)
  case (1 st)
  show ?case
  proof (cases "sc_ready st")
    case Nil
    with "1.prems" show ?thesis by (subst (asm) next_ready.simps) auto
  next
    case (Cons key rest)
    let ?st1 = "st\<lparr>sc_ready := rest\<rparr>"
    obtain w where w: "vget (sc_work ?st1) (snd key) = Some w" "se_state w = Ready"
      using "1.prems" Cons by (subst (asm) next_ready.simps) (auto simp: Let_def split: option.splits if_splits)
    show ?thesis
    proof (cases "lim_executions (sc_limits ?st1) \<le> us_executions (sc_usage ?st1)")
      case True
      obtain st2 where r: "recover ?st1 (snd key) (RResourceLimit Executions) [] = Inr st2"
        and n: "next_ready st2 = Inr (st', r)"
        using "1.prems" Cons w True
        by (subst (asm) next_ready.simps) (auto simp: Let_def split: option.splits if_splits sum.splits)
      have "same_usage ?st1 st2" by (rule recover_usage [OF r])
      moreover note "1.IH" [OF Cons refl refl w(1) _ True r n]
      ultimately show ?thesis using w(2) by (auto simp: same_usage_def same_budget_def split: option.splits)
    next
      case False
      have "completed (set_state (snd key) Active st2) = completed st" if "sc_work st2 = sc_work st" for st2
        using completed_set_state [of "snd key" st2 Active] w that by (auto simp: completed_def fun_eq_iff dest!: vget_SomeD)
      with False "1.prems" Cons w show ?thesis
        by (subst (asm) next_ready.simps) (auto simp: Let_def set_state_def)
    qed
  qed
qed

text \<open>
  The loop of \<open>run\<close>. It ends because every iteration spends one execution of the budget.
\<close>

function run :: "'x executor \<Rightarrow> 'x \<Rightarrow> scheduler \<Rightarrow> failure + 'x \<times> scheduler" where
  "run exec x st =
     (case next_ready st of
        Inl f \<Rightarrow> Inl f
      | Inr (st1, None) \<Rightarrow> Inr (x, st1)
      | Inr (st1, Some i) \<Rightarrow>
          (case vget (sc_work st1) i of
             None \<Rightarrow> Inl Assertion
           | Some w \<Rightarrow>
               (case exec x w (resources_new (sc_limits st1)) of
                  (x', res, result) \<Rightarrow>
                    (case finish_execution st1 i res result of
                       Inl f \<Rightarrow> Inl f
                     | Inr st2 \<Rightarrow> run exec x' st2))))"
  by pat_completeness auto
termination
  by (relation "measure (\<lambda>(exec, x, st). lim_executions (sc_limits st) - us_executions (sc_usage st))")
    (auto dest!: next_ready_budget finish_execution_budget simp: same_budget_def)

declare run.simps [simp del]

end
