(* ===== verification/Scheduler_Correct.thy ===== *)
theory Scheduler_Correct
  imports Scheduler
begin

text \<open>
  Correctness of the expansion scheduler (\<^verbatim>\<open>src/expansion/scheduler.rs\<close>): the invariant of its
  graph, ready set and recovery nodes, its preservation by every operation, and what \<open>run\<close>
  reaches. A step either aborts for one of the documented reasons or ends in a state that
  satisfies its postcondition; an internal assertion never fires.
\<close>

section \<open>Invariant\<close>

abbreviation work_count :: "scheduler \<Rightarrow> nat" where
  "work_count st \<equiv> length (sc_work st)"

definition state_at :: "scheduler \<Rightarrow> work_id \<Rightarrow> work_state" where
  "state_at st i = se_state (sc_work st ! i)"

definition deps_at :: "scheduler \<Rightarrow> work_id \<Rightarrow> work_id list" where
  "deps_at st i = se_dependencies (sc_work st ! i)"

definition key_at :: "scheduler \<Rightarrow> work_id \<Rightarrow> ready_key" where
  "key_at st i = (rq_location (se_request (sc_work st ! i)), i)"

text \<open>A record without what scheduling changes.\<close>

definition static_of :: "scheduled_expansion \<Rightarrow> scheduled_expansion" where
  "static_of w = w\<lparr>se_state := Pending, se_resources := None\<rparr>"

definition entry_ok :: "scheduler \<Rightarrow> work_id \<Rightarrow> bool" where
  "entry_ok st i \<longleftrightarrow>
     se_id (sc_work st ! i) = i \<and> (\<forall>d\<in>set (deps_at st i). d < i)
     \<and> (case se_parent (sc_work st ! i) of
          None \<Rightarrow> se_depth (sc_work st ! i) = 1
        | Some p \<Rightarrow> p < i \<and> se_depth (sc_work st ! i) = se_depth (sc_work st ! p) + 1)"

definition edges_ok :: "scheduler \<Rightarrow> bool" where
  "edges_ok st \<longleftrightarrow>
     (\<forall>d i. (\<exists>e\<in>set (sc_edges st). ed_prerequisite e = d \<and> ed_dependent e = i)
            \<longleftrightarrow> i < work_count st \<and> d \<in> set (deps_at st i))"

definition graph_ok :: "scheduler \<Rightarrow> bool" where
  "graph_ok st \<longleftrightarrow> (\<forall>i<work_count st. entry_ok st i) \<and> edges_ok st"

definition ready_ok :: "scheduler \<Rightarrow> bool" where
  "ready_ok st \<longleftrightarrow>
     sorted (sc_ready st) \<and> distinct (sc_ready st)
     \<and> set (sc_ready st) = key_at st ` {i. i < work_count st \<and> state_at st i = Ready}"

definition recoveries_ok :: "scheduler \<Rightarrow> bool" where
  "recoveries_ok st \<longleftrightarrow>
     (\<forall>i<work_count st. \<forall>r. state_at st i = Recovered r \<longrightarrow>
        r < length (sc_recoveries st) \<and> rn_work (sc_recoveries st ! r) = i)"

definition order_ok :: "scheduler \<Rightarrow> bool" where
  \<comment> \<open>nothing is ready, active or completed before all its prerequisites are completed\<close>
  "order_ok st \<longleftrightarrow>
     (\<forall>i<work_count st. state_at st i \<in> {Ready, Active, Completed} \<longrightarrow>
        (\<forall>d\<in>set (deps_at st i). state_at st d = Completed))"

definition budget_ok :: "scheduler \<Rightarrow> bool" where
  "budget_ok st \<longleftrightarrow>
     us_executions (sc_usage st) \<le> lim_executions (sc_limits st)
     \<and> us_generated_nodes (sc_usage st) \<le> lim_generated_nodes (sc_limits st)"

definition scheduler_inv :: "scheduler \<Rightarrow> bool" where
  "scheduler_inv st \<longleftrightarrow> graph_ok st \<and> ready_ok st \<and> recoveries_ok st \<and> order_ok st \<and> budget_ok st"

text \<open>Pending work outside \<open>X\<close> waits for a prerequisite that may still complete.\<close>

definition waiting :: "scheduler \<Rightarrow> work_id \<Rightarrow> bool" where
  "waiting st i \<longleftrightarrow>
     (\<forall>d\<in>set (deps_at st i). \<not> is_recovered (state_at st d))
     \<and> (\<exists>d\<in>set (deps_at st i). state_at st d \<noteq> Completed)"

definition quiet :: "scheduler \<Rightarrow> work_id set \<Rightarrow> bool" where
  "quiet st X \<longleftrightarrow> (\<forall>i<work_count st. state_at st i = Pending \<longrightarrow> i \<in> X \<or> waiting st i)"

definition dependents :: "scheduler \<Rightarrow> work_id \<Rightarrow> work_id set" where
  "dependents st i = {j. j < work_count st \<and> i \<in> set (deps_at st j)}"

text \<open>How an operation on the work in \<open>A\<close> may change the rest.\<close>

definition evolves :: "work_id set \<Rightarrow> scheduler \<Rightarrow> scheduler \<Rightarrow> bool" where
  "evolves A st st' \<longleftrightarrow>
     work_count st \<le> work_count st' \<and> sc_limits st' = sc_limits st
     \<and> (\<forall>i<work_count st. static_of (sc_work st' ! i) = static_of (sc_work st ! i))
     \<and> (\<forall>i<work_count st. i \<notin> A \<longrightarrow> state_at st i \<noteq> Pending \<longrightarrow> state_at st' i = state_at st i)
     \<and> (\<forall>i<work_count st'. state_at st' i = Active \<longrightarrow> i < work_count st \<and> i \<notin> A \<and> state_at st i = Active)"

text \<open>Either a documented abort or a state satisfying the postcondition.\<close>

definition yields :: "('a \<Rightarrow> bool) \<Rightarrow> failure + 'a \<Rightarrow> bool" where
  "yields P r \<longleftrightarrow> (case r of Inl f \<Rightarrow> f = Overflow \<or> f = BadRole \<or> f = BadReason | Inr x \<Rightarrow> P x)"

lemma yields_simps [simp]:
  "yields P (Inr x) = P x" "yields P (Inl f) = (f = Overflow \<or> f = BadRole \<or> f = BadReason)"
  by (simp_all add: yields_def)

lemma yields_weaken: "yields P r \<Longrightarrow> (\<And>x. P x \<Longrightarrow> Q x) \<Longrightarrow> yields Q r"
  by (cases r) auto

lemma static_of_eq:
  assumes "static_of v = static_of w"
  shows "se_id v = se_id w" "se_request v = se_request w" "se_parent v = se_parent w"
    "se_dependencies v = se_dependencies w" "se_depth v = se_depth w"
  using arg_cong [OF assms, of se_id] arg_cong [OF assms, of se_request] arg_cong [OF assms, of se_parent]
    arg_cong [OF assms, of se_dependencies] arg_cong [OF assms, of se_depth]
  by (simp_all add: static_of_def)

lemma evolves_static:
  assumes "evolves A st st'" "i < work_count st"
  shows "deps_at st' i = deps_at st i" "key_at st' i = key_at st i"
    "se_parent (sc_work st' ! i) = se_parent (sc_work st ! i)"
    "se_request (sc_work st' ! i) = se_request (sc_work st ! i)"
    "se_depth (sc_work st' ! i) = se_depth (sc_work st ! i)"
proof -
  have "static_of (sc_work st' ! i) = static_of (sc_work st ! i)"
    using assms unfolding evolves_def by blast
  from static_of_eq [OF this] show "deps_at st' i = deps_at st i" "key_at st' i = key_at st i"
    "se_parent (sc_work st' ! i) = se_parent (sc_work st ! i)"
    "se_request (sc_work st' ! i) = se_request (sc_work st ! i)"
    "se_depth (sc_work st' ! i) = se_depth (sc_work st ! i)"
    by (simp_all add: deps_at_def key_at_def)
qed

lemma evolvesI:
  assumes "work_count st \<le> work_count st'" "sc_limits st' = sc_limits st"
    and "\<And>i. i < work_count st \<Longrightarrow> static_of (sc_work st' ! i) = static_of (sc_work st ! i)"
    and "\<And>i. i < work_count st \<Longrightarrow> i \<notin> A \<Longrightarrow> state_at st i \<noteq> Pending \<Longrightarrow> state_at st' i = state_at st i"
    and "\<And>i. i < work_count st' \<Longrightarrow> state_at st' i = Active \<Longrightarrow> i < work_count st \<and> i \<notin> A \<and> state_at st i = Active"
  shows "evolves A st st'"
  unfolding evolves_def using assms by blast

lemma evolvesD:
  assumes "evolves A st st'"
  shows "work_count st \<le> work_count st'" "sc_limits st' = sc_limits st"
    and "i < work_count st \<Longrightarrow> static_of (sc_work st' ! i) = static_of (sc_work st ! i)"
    and "i < work_count st \<Longrightarrow> i \<notin> A \<Longrightarrow> state_at st i \<noteq> Pending \<Longrightarrow> state_at st' i = state_at st i"
    and "i < work_count st' \<Longrightarrow> state_at st' i = Active \<Longrightarrow> i < work_count st \<and> i \<notin> A \<and> state_at st i = Active"
  using assms unfolding evolves_def by blast+

lemma evolves_refl [simp]: "evolves {} st st"
  by (rule evolvesI) simp_all

lemma evolves_trans:
  assumes ab: "evolves A a b" and bc: "evolves {} b c"
  shows "evolves A a c"
proof (rule evolvesI)
  fix i assume i: "i < work_count a"
  then have ib: "i < work_count b" using evolvesD(1) [OF ab] by simp
  show "static_of (sc_work c ! i) = static_of (sc_work a ! i)"
    using evolvesD(3) [OF ab i] evolvesD(3) [OF bc ib] by simp
  show "state_at c i = state_at a i" if "i \<notin> A" "state_at a i \<noteq> Pending"
    using evolvesD(4) [OF ab i that] evolvesD(4) [OF bc ib] that(2) by simp
next
  fix i assume "i < work_count c" "state_at c i = Active"
  with evolvesD(5) [OF bc] evolvesD(5) [OF ab] show "i < work_count a \<and> i \<notin> A \<and> state_at a i = Active" by blast
next
  show "work_count a \<le> work_count c" using evolvesD(1) [OF ab] evolvesD(1) [OF bc] by simp
  show "sc_limits c = sc_limits a" using evolvesD(2) [OF ab] evolvesD(2) [OF bc] by simp
qed

section \<open>Changing one state\<close>

lemma set_state_simps [simp]:
  "work_count (set_state i s st) = work_count st" "sc_edges (set_state i s st) = sc_edges st"
  "sc_ready (set_state i s st) = sc_ready st" "sc_recoveries (set_state i s st) = sc_recoveries st"
  "sc_limits (set_state i s st) = sc_limits st" "sc_usage (set_state i s st) = sc_usage st"
  by (simp_all add: set_state_def)

lemma state_at_set_state: "i < work_count st \<Longrightarrow> state_at (set_state i s st) j = (if j = i then s else state_at st j)"
  by (simp add: state_at_def set_state_def nth_list_update)

lemma set_state_static:
  "i < work_count st \<Longrightarrow> deps_at (set_state i s st) j = deps_at st j"
  "i < work_count st \<Longrightarrow> key_at (set_state i s st) j = key_at st j"
  "i < work_count st \<Longrightarrow> entry_ok (set_state i s st) j = entry_ok st j"
  "i < work_count st \<Longrightarrow> static_of (sc_work (set_state i s st) ! j) = static_of (sc_work st ! j)"
  by (auto simp: deps_at_def key_at_def entry_ok_def set_state_def nth_list_update static_of_def split: option.splits)

lemma graph_ok_set_state: "i < work_count st \<Longrightarrow> graph_ok (set_state i s st) = graph_ok st"
  by (simp add: graph_ok_def set_state_static edges_ok_def)

lemma state_at_cong:
  "sc_work st' = sc_work st \<Longrightarrow> state_at st' i = state_at st i"
  "sc_work st' = sc_work st \<Longrightarrow> deps_at st' i = deps_at st i"
  "sc_work st' = sc_work st \<Longrightarrow> key_at st' i = key_at st i"
  "sc_work st' = sc_work st \<Longrightarrow> entry_ok st' i = entry_ok st i"
  by (simp_all add: state_at_def deps_at_def key_at_def entry_ok_def split: option.split)

lemma order_ok_dep_Completed:
  "scheduler_inv st \<Longrightarrow> i < work_count st \<Longrightarrow> state_at st i \<in> {Ready, Active, Completed} \<Longrightarrow>
   d \<in> set (deps_at st i) \<Longrightarrow> state_at st d = Completed"
  unfolding scheduler_inv_def order_ok_def by blast

lemma deps_less: "scheduler_inv st \<Longrightarrow> i < work_count st \<Longrightarrow> d \<in> set (deps_at st i) \<Longrightarrow> d < i"
  unfolding scheduler_inv_def graph_ok_def entry_ok_def by blast

section \<open>Recovery\<close>

lemma is_settled_simps [simp]:
  "is_settled Completed" "is_settled (Recovered r)" "\<not> is_settled Pending" "\<not> is_settled Ready" "\<not> is_settled Active"
  by (simp_all add: is_settled_def)

lemma is_recovered_simps [simp]:
  "is_recovered (Recovered r)" "\<not> is_recovered Completed" "\<not> is_recovered Pending" "\<not> is_recovered Ready"
  "\<not> is_recovered Active"
  by (simp_all add: is_recovered_def)

lemma recovered_ready_ok:
  assumes "ready_ok st" "i < work_count st"
  shows "sorted (remove1 (key_at st i) (sc_ready st)) \<and> distinct (remove1 (key_at st i) (sc_ready st))
    \<and> set (remove1 (key_at st i) (sc_ready st)) = key_at st ` {j. j < work_count st \<and> j \<noteq> i \<and> state_at st j = Ready}"
proof -
  have "key_at st a = key_at st b \<longleftrightarrow> a = b" for a b by (auto simp: key_at_def)
  then show ?thesis
    using assms by (auto simp: ready_ok_def sorted_remove1)
qed

definition recovers :: "work_id \<Rightarrow> scheduler \<Rightarrow> scheduler \<Rightarrow> bool" where
  "recovers i st st' \<longleftrightarrow>
     scheduler_inv st' \<and> evolves {i} st st' \<and> work_count st' = work_count st
     \<and> is_recovered (state_at st' i) \<and> (\<forall>j. j \<noteq> i \<longrightarrow> state_at st' j = state_at st j)
     \<and> (\<forall>j. deps_at st' j = deps_at st j)"

lemma recover_one_yields:
  assumes inv: "scheduler_inv st" and i: "i < work_count st" "\<not> is_settled (state_at st i)"
  shows "yields (recovers i st) (recover_one st i reason chain)"
proof (cases "u32_try_from (length (sc_recoveries st))")
  case None
  then show ?thesis using i by (simp add: recover_one_def state_at_def)
next
  case (Some r)
  then have r: "r = length (sc_recoveries st)" by simp
  obtain st1 where st1: "recover_one st i reason chain = Inr (set_state i (Recovered r) st1)"
    and f: "sc_work st1 = sc_work st" "sc_edges st1 = sc_edges st" "sc_limits st1 = sc_limits st"
      "sc_usage st1 = sc_usage st" "sc_ready st1 = remove1 (key_at st i) (sc_ready st)"
      "\<exists>n. sc_recoveries st1 = sc_recoveries st @ [n] \<and> rn_work n = i"
    using i Some by (auto simp: recover_one_def state_at_def key_at_def Let_def)
  define st' where "st' = set_state i (Recovered r) st1"
  have i1: "i < work_count st1" using i f by simp
  note sc = state_at_cong [OF f(1)]
  have state: "state_at st' j = (if j = i then Recovered r else state_at st j)" for j
    unfolding st'_def using state_at_set_state [OF i1] by (simp add: sc)
  have same: "work_count st' = work_count st" "deps_at st' j = deps_at st j" "key_at st' j = key_at st j"
    "static_of (sc_work st' ! j) = static_of (sc_work st ! j)" "graph_ok st' = graph_ok st" for j
    unfolding st'_def
    by (simp_all add: set_state_static [OF i1] graph_ok_set_state [OF i1] sc f)
      (simp_all add: graph_ok_def edges_ok_def f sc)
  have rest: "sc_ready st' = remove1 (key_at st i) (sc_ready st)" "sc_limits st' = sc_limits st"
    "sc_usage st' = sc_usage st" "\<exists>n. sc_recoveries st' = sc_recoveries st @ [n] \<and> rn_work n = i"
    unfolding st'_def by (simp_all add: f)
  have "graph_ok st'" using inv by (simp add: same scheduler_inv_def)
  moreover have "ready_ok st'"
  proof -
    have "key_at st' = key_at st" by (rule ext) (rule same)
    moreover have "{j. j < work_count st' \<and> state_at st' j = Ready} = {j. j < work_count st \<and> j \<noteq> i \<and> state_at st j = Ready}"
      by (auto simp: same state split: if_splits)
    ultimately show ?thesis
      using recovered_ready_ok [OF _ i(1)] inv unfolding ready_ok_def [of st'] rest scheduler_inv_def by simp
  qed
  moreover have "recoveries_ok st'"
    unfolding recoveries_ok_def same state
  proof (intro allI impI)
    fix j q
    assume j: "j < work_count st" "(if j = i then Recovered r else state_at st j) = Recovered q"
    obtain n where n: "sc_recoveries st' = sc_recoveries st @ [n]" "rn_work n = i" using rest(4) by blast
    have "j \<noteq> i \<Longrightarrow> q < length (sc_recoveries st) \<and> rn_work (sc_recoveries st ! q) = j"
      using inv j unfolding scheduler_inv_def recoveries_ok_def by auto
    with j n r show "q < length (sc_recoveries st') \<and> rn_work (sc_recoveries st' ! q) = j"
      by (cases "j = i") (auto simp: nth_append)
  qed
  moreover have "order_ok st'"
    unfolding order_ok_def same state
  proof (intro allI impI ballI)
    fix j d
    assume j: "j < work_count st" "(if j = i then Recovered r else state_at st j) \<in> {Ready, Active, Completed}"
      and d: "d \<in> set (deps_at st j)"
    then have "state_at st j \<in> {Ready, Active, Completed}" by (auto split: if_splits)
    from order_ok_dep_Completed [OF inv j(1) this d] have "state_at st d = Completed" .
    with i(2) show "(if d = i then Recovered r else state_at st d) = Completed" by auto
  qed
  moreover have "budget_ok st'" using inv by (simp add: budget_ok_def scheduler_inv_def rest)
  ultimately have "scheduler_inv st'" by (simp add: scheduler_inv_def)
  moreover have "evolves {i} st st'"
    by (rule evolvesI) (simp_all add: same state rest split: if_splits)
  ultimately have "recovers i st st'"
    by (simp add: recovers_def state same)
  then show ?thesis by (simp add: st1 st'_def)
qed

lemma recovers_quiet:
  assumes "recovers i st st'" "quiet st (insert i X)" "\<not> is_settled (state_at st i)"
  shows "quiet st' (dependents st' i \<union> X)"
  unfolding quiet_def
proof (intro allI impI)
  fix j assume j: "j < work_count st'" "state_at st' j = Pending"
  then have "j \<noteq> i" using assms(1) by (auto simp: recovers_def)
  then have ji: "j \<noteq> i" "state_at st j = Pending" "j < work_count st"
    using j assms(1) by (simp_all add: recovers_def)
  show "j \<in> dependents st' i \<union> X \<or> waiting st' j"
  proof (cases "i \<in> set (deps_at st' j) \<or> j \<in> X")
    case True
    then show ?thesis using j by (auto simp: dependents_def)
  next
    case False
    with assms(2) ji have "waiting st j" by (auto simp: quiet_def)
    then have "waiting st' j"
      using False assms(1) unfolding waiting_def recovers_def by metis
    then show ?thesis by blast
  qed
qed

lemma sorted_dependents_yields:
  assumes "scheduler_inv st"
  shows "\<exists>ds. sorted_dependents st i = Inr ds \<and> set ds = dependents st i"
proof -
  let ?ds = "map ed_dependent (filter (\<lambda>e. ed_prerequisite e = i) (sc_edges st))"
  have e: "edges_ok st" using assms by (simp add: scheduler_inv_def graph_ok_def)
  have "set ?ds = {j. \<exists>e\<in>set (sc_edges st). ed_prerequisite e = i \<and> ed_dependent e = j}" by auto
  also have "\<dots> = dependents st i"
    using e unfolding edges_ok_def dependents_def by blast
  finally have s: "set ?ds = dependents st i" .
  then have "list_all (\<lambda>d. d < work_count st) ?ds" by (auto simp: list_all_iff dependents_def)
  moreover have "set (remdups_adj (map snd (sort (map (\<lambda>d. (rq_location (se_request (sc_work st ! d)), d)) ?ds)))) = set ?ds"
    by (simp add: image_image)
  ultimately show ?thesis using s by (simp add: sorted_dependents_def Let_def)
qed

lemma any_recovered_eq:
  "\<forall>d\<in>set ds. d < length work \<Longrightarrow> any_recovered work ds = Inr (\<exists>d\<in>set ds. is_recovered (se_state (work ! d)))"
  by (induction ds) auto

lemma all_completed_eq:
  "\<forall>d\<in>set ds. d < length work \<Longrightarrow> all_completed work ds = Inr (\<forall>d\<in>set ds. se_state (work ! d) = Completed)"
  by (induction ds) auto

section \<open>Refreshing\<close>

definition settles :: "scheduler \<Rightarrow> scheduler \<Rightarrow> bool" where
  "settles st st' \<longleftrightarrow> scheduler_inv st' \<and> evolves {} st st' \<and> work_count st' = work_count st"

lemma recovers_settles: "recovers i st st' \<Longrightarrow> state_at st i = Pending \<Longrightarrow> settles st st'"
proof -
  assume r: "recovers i st st'" and st: "state_at st i = Pending"
  then have ev: "evolves {i} st st'" and same: "\<forall>j. j \<noteq> i \<longrightarrow> state_at st' j = state_at st j"
    by (simp_all add: recovers_def)
  have "evolves {} st st'"
  proof (rule evolvesI)
    fix j assume "state_at st j \<noteq> Pending"
    with same st show "state_at st' j = state_at st j" by (cases "j = i") simp_all
  next
    fix j assume "j < work_count st'" "state_at st' j = Active"
    with evolvesD(5) [OF ev] show "j < work_count st \<and> j \<notin> {} \<and> state_at st j = Active" by blast
  qed (use evolvesD [OF ev] in auto)
  with r show ?thesis by (simp add: settles_def recovers_def)
qed

lemma make_ready:
  assumes inv: "scheduler_inv st" and i: "i < work_count st" "state_at st i = Pending"
    and fin: "\<forall>d\<in>set (deps_at st i). state_at st d = Completed"
  shows "settles st ((set_state i Ready st)\<lparr>sc_ready := set_insert (key_at st i) (sc_ready st)\<rparr>)"
proof -
  define st' where "st' = (set_state i Ready st)\<lparr>sc_ready := set_insert (key_at st i) (sc_ready st)\<rparr>"
  have w: "sc_work st' = sc_work (set_state i Ready st)" by (simp add: st'_def)
  note sc = state_at_cong [OF w]
  have state: "state_at st' j = (if j = i then Ready else state_at st j)" for j
    using state_at_set_state [OF i(1)] by (simp add: sc)
  have same: "work_count st' = work_count st" "deps_at st' j = deps_at st j" "key_at st' j = key_at st j"
    "static_of (sc_work st' ! j) = static_of (sc_work st ! j)" "sc_limits st' = sc_limits st"
    "sc_usage st' = sc_usage st" "sc_recoveries st' = sc_recoveries st" "sc_edges st' = sc_edges st"
    "entry_ok st' j = entry_ok st j" "sc_ready st' = set_insert (key_at st i) (sc_ready st)" for j
    using set_state_static [OF i(1)] by (simp_all add: sc w) (simp_all add: st'_def)
  have "graph_ok st'" using inv by (simp add: same scheduler_inv_def graph_ok_def edges_ok_def)
  moreover have "ready_ok st'"
  proof -
    have "key_at st' = key_at st" by (rule ext) (rule same)
    moreover have "{j. j < work_count st' \<and> state_at st' j = Ready}
        = insert i {j. j < work_count st \<and> state_at st j = Ready}"
      using i by (auto simp: same state)
    moreover have "ready_ok st" using inv by (simp add: scheduler_inv_def)
    ultimately show ?thesis
      by (auto simp: ready_ok_def same set_insert_def sorted_insort distinct_insort set_insort_key)
  qed
  moreover have "recoveries_ok st'"
    using inv unfolding recoveries_ok_def scheduler_inv_def same state by (metis work_state.distinct(13))
  moreover have "order_ok st'"
    unfolding order_ok_def same state
  proof (intro allI impI ballI)
    fix j d
    assume j: "j < work_count st" "(if j = i then Ready else state_at st j) \<in> {Ready, Active, Completed}"
      and d: "d \<in> set (deps_at st j)"
    have "state_at st d = Completed"
      using fin d order_ok_dep_Completed [OF inv j(1) _ d] j(2) by (cases "j = i") auto
    with i(2) show "(if d = i then Ready else state_at st d) = Completed" by auto
  qed
  moreover have "budget_ok st'" using inv by (simp add: budget_ok_def scheduler_inv_def same)
  ultimately have "scheduler_inv st'" by (simp add: scheduler_inv_def)
  moreover have "evolves {} st st'"
    using i by (intro evolvesI) (auto simp: same state split: if_splits)
  ultimately show ?thesis unfolding st'_def [symmetric] settles_def same by blast
qed

lemma make_ready_quiet:
  assumes "i < work_count st" "quiet st (insert i X)"
  shows "quiet ((set_state i Ready st)\<lparr>sc_ready := r\<rparr>) X"
proof -
  let ?st = "(set_state i Ready st)\<lparr>sc_ready := r\<rparr>"
  have w: "sc_work ?st = sc_work (set_state i Ready st)" by simp
  note sc = state_at_cong [OF w] state_at_set_state [OF assms(1)] set_state_static [OF assms(1)]
  show ?thesis
    using assms(2) unfolding quiet_def waiting_def by (auto simp: sc)
qed

lemma refresh_step_yields:
  assumes inv: "scheduler_inv st" and i: "i < work_count st" and q: "quiet st (insert i X)"
  shows "yields (\<lambda>(st', ds). settles st st' \<and> (\<forall>d\<in>set ds. d < work_count st') \<and> quiet st' (set ds \<union> X))
           (refresh_step st i)"
proof (cases "state_at st i = Pending")
  case False
  then have "quiet st X" using q by (auto simp: quiet_def)
  then show ?thesis using False inv i by (simp add: refresh_step_def state_at_def settles_def)
next
  case True
  have lt: "\<forall>d\<in>set (deps_at st i). d < work_count st"
    using deps_less [OF inv i] i by force
  have any: "any_recovered (sc_work st) (se_dependencies (sc_work st ! i))
      = Inr (\<exists>d\<in>set (deps_at st i). is_recovered (state_at st d))"
    using any_recovered_eq lt by (simp add: deps_at_def state_at_def)
  have all: "all_completed (sc_work st) (se_dependencies (sc_work st ! i))
      = Inr (\<forall>d\<in>set (deps_at st i). state_at st d = Completed)"
    using all_completed_eq lt by (simp add: deps_at_def state_at_def)
  have P: "se_state (sc_work st ! i) = Pending" using True by (simp add: state_at_def)
  consider (rec) "\<exists>d\<in>set (deps_at st i). is_recovered (state_at st d)"
    | (fin) "\<not> (\<exists>d\<in>set (deps_at st i). is_recovered (state_at st d))" "\<forall>d\<in>set (deps_at st i). state_at st d = Completed"
    | (wait) "\<not> (\<exists>d\<in>set (deps_at st i). is_recovered (state_at st d))" "\<not> (\<forall>d\<in>set (deps_at st i). state_at st d = Completed)"
    by blast
  then show ?thesis
  proof cases
    case rec
    have us: "\<not> is_settled (state_at st i)" using True by simp
    note y = recover_one_yields [OF inv i us, of RDependency "[]"]
    show ?thesis
    proof (cases "recover_one st i RDependency []")
      case (Inl f)
      then show ?thesis using y rec any i P by (simp add: refresh_step_def)
    next
      case (Inr st')
      then have r: "recovers i st st'" using y by simp
      then have "scheduler_inv st'" by (simp add: recovers_def)
      from sorted_dependents_yields [OF this] obtain ds where
        ds: "sorted_dependents st' i = Inr ds" "set ds = dependents st' i" by blast
      have "refresh_step st i = Inr (st', ds)"
        using Inr ds rec any i P by (simp add: refresh_step_def)
      then show ?thesis
        using recovers_settles [OF r True] recovers_quiet [OF r q us] ds by (auto simp: dependents_def)
    qed
  next
    case fin
    have "refresh_step st i = Inr ((set_state i Ready st)\<lparr>sc_ready := set_insert (key_at st i) (sc_ready st)\<rparr>, [])"
      using any all fin i P by (simp add: refresh_step_def Let_def key_at_def)
    then show ?thesis using make_ready [OF inv i True fin(2)] make_ready_quiet [OF i q] by simp
  next
    case wait
    have "refresh_step st i = Inr (st, [])" using any all wait i P by (auto simp: refresh_step_def)
    moreover have "waiting st i" using wait by (auto simp: waiting_def)
    ultimately show ?thesis using q inv by (auto simp: settles_def quiet_def)
  qed
qed

lemma settle_yields:
  "scheduler_inv st \<Longrightarrow> \<forall>i\<in>set is. i < work_count st \<Longrightarrow> quiet st (set is) \<Longrightarrow>
   yields (\<lambda>st'. settles st st' \<and> quiet st' {}) (settle st is)"
proof (induction st "is" rule: settle.induct)
  case (1 st)
  then show ?case by (simp add: settles_def)
next
  case (2 st i "is")
  have "yields (\<lambda>(st', ds). settles st st' \<and> (\<forall>d\<in>set ds. d < work_count st') \<and> quiet st' (set ds \<union> set is))
      (refresh_step st i)"
    using "2.prems" by (intro refresh_step_yields) auto
  then show ?case
  proof (cases "refresh_step st i")
    case (Inl f)
    with \<open>yields _ (refresh_step st i)\<close> show ?thesis by (simp add: settle.simps(2))
  next
    case (Inr r)
    obtain st1 ds where r: "refresh_step st i = Inr (st1, ds)" using Inr by (cases r) auto
    with \<open>yields _ (refresh_step st i)\<close> have s: "settles st st1" "\<forall>d\<in>set ds. d < work_count st1" "quiet st1 (set ds \<union> set is)"
      by simp_all
    have "yields (\<lambda>st'. settles st1 st' \<and> quiet st' {}) (settle st1 (ds @ is))"
      using "2.IH" [OF r refl] s "2.prems"(2) by (auto simp: settles_def)
    then have "yields (\<lambda>st'. settles st st' \<and> quiet st' {}) (settle st1 (ds @ is))"
      by (rule yields_weaken) (use s(1) in \<open>auto simp: settles_def intro: evolves_trans\<close>)
    with r show ?thesis by (simp add: settle.simps(2))
  qed
qed

text \<open>The postcondition shared by the operations on one work item.\<close>

definition handles :: "work_id set \<Rightarrow> scheduler \<Rightarrow> scheduler \<Rightarrow> bool" where
  "handles A st st' \<longleftrightarrow> scheduler_inv st' \<and> quiet st' {} \<and> evolves A st st'"

lemma refresh_dependents_yields:
  assumes "scheduler_inv st" "quiet st (dependents st i)"
  shows "yields (\<lambda>st'. handles {} st st' \<and> work_count st' = work_count st) (refresh_dependents st i)"
proof -
  obtain ds where ds: "sorted_dependents st i = Inr ds" "set ds = dependents st i"
    using sorted_dependents_yields [OF assms(1)] by blast
  have "yields (\<lambda>st'. settles st st' \<and> quiet st' {}) (settle st ds)"
    using assms ds by (intro settle_yields) (auto simp: dependents_def)
  then show ?thesis
    unfolding refresh_dependents_def ds sum.case
    by (rule yields_weaken) (auto simp: settles_def handles_def)
qed

lemma recover_yields:
  assumes "scheduler_inv st" "i < work_count st" "\<not> is_settled (state_at st i)" "quiet st {i}"
  shows "yields (\<lambda>st'. handles {i} st st' \<and> work_count st' = work_count st \<and> is_recovered (state_at st' i))
           (recover st i reason chain)"
proof (cases "recover_one st i reason chain")
  case (Inl f)
  then show ?thesis using recover_one_yields [OF assms(1-3), of reason chain] by (simp add: recover_def)
next
  case (Inr st1)
  then have r: "recovers i st st1" using recover_one_yields [OF assms(1-3), of reason chain] by simp
  have "quiet st1 (dependents st1 i)" using recovers_quiet [OF r, of "{}"] assms(3,4) by simp
  then have y: "yields (\<lambda>st'. handles {} st1 st' \<and> work_count st' = work_count st1) (refresh_dependents st1 i)"
    using r by (intro refresh_dependents_yields) (simp_all add: recovers_def)
  have keep: "is_recovered (state_at st' i)" if "evolves {} st1 st'" for st'
  proof -
    have i: "i < work_count st1" "is_recovered (state_at st1 i)" using r assms(2) by (simp_all add: recovers_def)
    then have "state_at st1 i \<noteq> Pending" by auto
    with evolvesD(4) [OF that i(1)] i(2) show ?thesis by simp
  qed
  show ?thesis
    unfolding recover_def Inr sum.case
  proof (rule yields_weaken [OF y], elim conjE)
    fix st' assume h: "handles {} st1 st'" "work_count st' = work_count st1"
    have "evolves {i} st st'"
      using r h(1) unfolding recovers_def handles_def by (blast intro: evolves_trans)
    with h r keep show "handles {i} st st' \<and> work_count st' = work_count st \<and> is_recovered (state_at st' i)"
      unfolding handles_def recovers_def by simp
  qed
qed

section \<open>Admission\<close>

inductive ancestor :: "scheduler \<Rightarrow> work_id \<Rightarrow> work_id \<Rightarrow> bool" for st where
  parent: "se_parent (sc_work st ! i) = Some a \<Longrightarrow> ancestor st a i"
| up: "ancestor st a b \<Longrightarrow> se_parent (sc_work st ! i) = Some b \<Longrightarrow> ancestor st a i"

inductive_simps ancestor_iff: "ancestor st a i"

text \<open>Work within the depth limit that repeats no request it was generated from.\<close>

definition fresh :: "scheduler \<Rightarrow> work_id \<Rightarrow> bool" where
  "fresh st i \<longleftrightarrow>
     se_depth (sc_work st ! i) \<le> lim_active_depth (sc_limits st)
     \<and> (\<forall>a. ancestor st a i \<longrightarrow> \<not> repeats (se_request (sc_work st ! i)) (se_request (sc_work st ! a)))"

definition admitted :: "scheduler \<Rightarrow> bool" where
  "admitted st \<longleftrightarrow> (\<forall>i<work_count st. is_recovered (state_at st i) \<or> fresh st i)"

definition full_inv :: "scheduler \<Rightarrow> bool" where
  "full_inv st \<longleftrightarrow> scheduler_inv st \<and> quiet st {} \<and> admitted st"

lemma parent_less:
  "graph_ok st \<Longrightarrow> i < work_count st \<Longrightarrow> se_parent (sc_work st ! i) = Some p \<Longrightarrow> p < i"
  by (auto simp: graph_ok_def entry_ok_def)

lemma ancestor_less: "ancestor st a i \<Longrightarrow> graph_ok st \<Longrightarrow> i < work_count st \<Longrightarrow> a < i"
proof (induction rule: ancestor.induct)
  case (parent i a)
  then show ?case using parent_less by blast
next
  case (up a b i)
  then show ?case using parent_less [of st i b] by force
qed

lemma ancestor_evolves:
  assumes "evolves A st st'" "graph_ok st"
  shows "i < work_count st \<Longrightarrow> ancestor st' a i \<longleftrightarrow> ancestor st a i"
proof (induction i rule: less_induct)
  case (less i)
  have p: "se_parent (sc_work st' ! i) = se_parent (sc_work st ! i)"
    by (rule evolves_static(3) [OF assms(1) less.prems])
  have "ancestor st' a b \<longleftrightarrow> ancestor st a b" if "se_parent (sc_work st ! i) = Some b" for b
    using less.IH [of b] parent_less [OF assms(2) less.prems that] less.prems by simp
  then show ?case
    by (subst (1 2) ancestor_iff) (auto simp: p)
qed

lemma fresh_evolves:
  assumes "evolves A st st'" "graph_ok st" "i < work_count st"
  shows "fresh st' i \<longleftrightarrow> fresh st i"
proof -
  have "se_request (sc_work st' ! a) = se_request (sc_work st ! a)" if "ancestor st a i" for a
    using ancestor_less [OF that assms(2,3)] assms(3) by (intro evolves_static(4) [OF assms(1)]) simp
  then show ?thesis
    unfolding fresh_def
    by (auto simp: ancestor_evolves [OF assms] evolves_static [OF assms(1,3)] evolvesD(2) [OF assms(1)])
qed

lemma admitted_old:
  assumes ev: "evolves A st st'" and "graph_ok st" "admitted st" "\<And>i. i \<in> A \<Longrightarrow> \<not> is_recovered (state_at st i)"
    and i: "i < work_count st"
  shows "is_recovered (state_at st' i) \<or> fresh st' i"
proof (cases "is_recovered (state_at st i)")
  case True
  then have "i \<notin> A" "state_at st i \<noteq> Pending" using assms(4) by auto
  with evolvesD(4) [OF ev i] True show ?thesis by simp
next
  case False
  with assms(3) i have "fresh st i" by (auto simp: admitted_def)
  with fresh_evolves [OF ev assms(2) i] show ?thesis by blast
qed

lemma admitted_evolves:
  assumes "evolves A st st'" "graph_ok st" "admitted st" "\<And>i. i \<in> A \<Longrightarrow> \<not> is_recovered (state_at st i)"
    and "work_count st' = work_count st"
  shows "admitted st'"
  unfolding admitted_def
proof (intro allI impI)
  fix i assume "i < work_count st'"
  then have "i < work_count st" by (simp add: assms(5))
  from admitted_old [OF assms(1-4) this] show "is_recovered (state_at st' i) \<or> fresh st' i" .
qed

lemma full_inv_graph: "full_inv st \<Longrightarrow> graph_ok st"
  by (simp add: full_inv_def scheduler_inv_def)

text \<open>The postcondition of every operation on a scheduler.\<close>

definition advances :: "work_id set \<Rightarrow> scheduler \<Rightarrow> scheduler \<Rightarrow> bool" where
  "advances A st st' \<longleftrightarrow> full_inv st' \<and> evolves A st st'"

lemma advances_trans: "advances A a b \<Longrightarrow> advances {} b c \<Longrightarrow> advances A a c"
  unfolding advances_def by (blast intro: evolves_trans)

lemma recover_advances:
  assumes "full_inv st" "i < work_count st" "\<not> is_settled (state_at st i)"
  shows "yields (\<lambda>st'. advances {i} st st' \<and> is_recovered (state_at st' i)) (recover st i reason chain)"
proof -
  have inv: "scheduler_inv st" "quiet st {i}" "admitted st"
    using assms(1) by (auto simp: full_inv_def quiet_def)
  have nr: "\<not> is_recovered (state_at st i)" using assms(3) by (auto simp: is_settled_def is_recovered_def split: work_state.splits)
  show ?thesis
  proof (rule yields_weaken [OF recover_yields [OF inv(1) assms(2,3) inv(2)]], elim conjE)
    fix st' assume h: "handles {i} st st'" "work_count st' = work_count st" "is_recovered (state_at st' i)"
    have "admitted st'"
      by (rule admitted_evolves [of "{i}" st]) (use h nr inv full_inv_graph [OF assms(1)] in \<open>auto simp: handles_def\<close>)
    with h show "advances {i} st st' \<and> is_recovered (state_at st' i)"
      by (simp add: advances_def full_inv_def handles_def)
  qed
qed

section \<open>Adding work\<close>

lemma climb_returns:
  assumes "graph_ok st"
  shows "case cursor of None \<Rightarrow> True | Some c \<Rightarrow> c < work_count st \<Longrightarrow>
     \<exists>r. climb (sc_work st) rq cursor chain = Some r \<and>
         (r = None \<longrightarrow> (\<forall>a. cursor = Some a \<or> (\<exists>c. cursor = Some c \<and> ancestor st a c) \<longrightarrow>
                          \<not> repeats rq (se_request (sc_work st ! a))))"
proof (induction "case cursor of None \<Rightarrow> 0 | Some c \<Rightarrow> Suc c" arbitrary: cursor chain rule: less_induct)
  case less
  show ?case
  proof (cases cursor)
    case None
    then show ?thesis by (subst climb.simps) simp
  next
    case (Some c)
    with less.prems have c: "c < work_count st" by simp
    show ?thesis
    proof (cases "repeats rq (se_request (sc_work st ! c))")
      case True
      with Some c show ?thesis by (subst climb.simps) simp
    next
      case False
      let ?p = "se_parent (sc_work st ! c)"
      have "case ?p of None \<Rightarrow> True | Some b \<Rightarrow> b < c"
        using parent_less [OF assms c] by (auto split: option.split)
      then have "\<exists>r. climb (sc_work st) rq ?p (chain @ [c]) = Some r \<and>
         (r = None \<longrightarrow> (\<forall>a. ?p = Some a \<or> (\<exists>b. ?p = Some b \<and> ancestor st a b) \<longrightarrow>
                          \<not> repeats rq (se_request (sc_work st ! a))))"
        using Some c by (intro less.hyps) (auto split: option.splits)
      moreover have "climb (sc_work st) rq cursor chain = climb (sc_work st) rq ?p (chain @ [c])"
        using Some c False by (subst climb.simps) simp
      ultimately obtain r where r: "climb (sc_work st) rq cursor chain = Some r"
        "r = None \<longrightarrow> (\<forall>a. ?p = Some a \<or> (\<exists>b. ?p = Some b \<and> ancestor st a b) \<longrightarrow>
                          \<not> repeats rq (se_request (sc_work st ! a)))" by auto
      have "ancestor st a c \<longleftrightarrow> ?p = Some a \<or> (\<exists>b. ?p = Some b \<and> ancestor st a b)" for a
        by (subst ancestor_iff) auto
      with r False Some show ?thesis by auto
    qed
  qed
qed

lemma append_work_facts:
  assumes inv: "scheduler_inv st" and q: "quiet st {}" and deps: "\<forall>d\<in>set deps. d < work_count st"
    and par: "case parent of None \<Rightarrow> True | Some p \<Rightarrow> p < work_count st"
    and depth: "depth_below st parent = Inr depth"
    and st1: "st1 = append_work st rq parent deps kind depth"
  shows "scheduler_inv st1" "quiet st1 {work_count st}" "evolves {} st st1"
    "work_count st1 = Suc (work_count st)" "state_at st1 (work_count st) = Pending"
    "se_depth (sc_work st1 ! work_count st) = depth" "sc_limits st1 = sc_limits st"
proof -
  let ?n = "work_count st"
  have work: "sc_work st1 = sc_work st @
           [\<lparr>se_id = ?n, se_request = rq, se_parent = parent, se_dependencies = deps, se_depth = depth,
             se_resources = None, se_state = Pending\<rparr>]"
    and edges: "sc_edges st1 = sc_edges st @
           map (\<lambda>p. \<lparr>ed_prerequisite = p, ed_dependent = ?n, ed_kind = kind\<rparr>) deps"
    and rest: "sc_limits st1 = sc_limits st" "us_executions (sc_usage st1) = us_executions (sc_usage st)"
      "us_generated_nodes (sc_usage st1) = us_generated_nodes (sc_usage st)"
      "sc_ready st1 = sc_ready st" "sc_recoveries st1 = sc_recoveries st"
    by (simp_all add: st1 append_work_def Let_def)
  have old: "state_at st1 i = state_at st i" "deps_at st1 i = deps_at st i" "key_at st1 i = key_at st i"
    "static_of (sc_work st1 ! i) = static_of (sc_work st ! i)" if "i < ?n" for i
    using that by (simp_all add: state_at_def deps_at_def key_at_def work nth_append)
  have new: "state_at st1 ?n = Pending" "deps_at st1 ?n = deps"
    by (simp_all add: state_at_def deps_at_def work)
  show count: "work_count st1 = Suc ?n" by (simp add: work)
  show "state_at st1 ?n = Pending" by (rule new)
  show "se_depth (sc_work st1 ! ?n) = depth" by (simp add: work)
  show "sc_limits st1 = sc_limits st" by (rule rest)
  have par_old: "p < ?n" if "i < ?n" "se_parent (sc_work st ! i) = Some p" for i p
    using parent_less [of st i p] inv that by (simp add: scheduler_inv_def)
  have "entry_ok st1 i" if "i < ?n" for i
    using that inv par_old [OF that]
    by (auto simp: scheduler_inv_def graph_ok_def entry_ok_def old deps_at_def work nth_append split: option.splits)
  moreover have "entry_ok st1 ?n"
    using deps par depth
    by (auto simp: entry_ok_def new work nth_append depth_below_def split: option.splits)
  moreover have "edges_ok st1"
  proof -
    have e: "(\<exists>e\<in>set (sc_edges st). ed_prerequisite e = d \<and> ed_dependent e = i) \<longleftrightarrow> i < ?n \<and> d \<in> set (deps_at st i)" for d i
      using inv by (simp add: scheduler_inv_def graph_ok_def edges_ok_def)
    have "(\<exists>e\<in>set (sc_edges st1). ed_prerequisite e = d \<and> ed_dependent e = i)
        \<longleftrightarrow> (i < ?n \<and> d \<in> set (deps_at st i)) \<or> (i = ?n \<and> d \<in> set deps)" for d i
      unfolding edges set_append bex_Un e by auto
    then show ?thesis
      unfolding edges_ok_def count by (auto simp: old new less_Suc_eq)
  qed
  ultimately have "graph_ok st1" by (auto simp: graph_ok_def count less_Suc_eq)
  moreover have "ready_ok st1"
  proof -
    have "key_at st1 ` {i. i < work_count st1 \<and> state_at st1 i = Ready} = key_at st ` {i. i < ?n \<and> state_at st i = Ready}"
      using new by (auto simp: count less_Suc_eq old intro!: image_eqI)
    with inv show ?thesis by (simp add: ready_ok_def scheduler_inv_def rest)
  qed
  moreover have "recoveries_ok st1"
    using inv new by (auto simp: recoveries_ok_def scheduler_inv_def count rest old less_Suc_eq)
  moreover have "order_ok st1"
  proof -
    have "state_at st1 d = Completed"
      if "i < ?n" "state_at st i \<in> {Ready, Active, Completed}" "d \<in> set (deps_at st i)" for i d
      using order_ok_dep_Completed [OF inv that] deps_less [OF inv that(1,3)] that(1) by (simp add: old)
    then show ?thesis using new by (auto simp: order_ok_def count less_Suc_eq old)
  qed
  moreover have "budget_ok st1" using inv by (simp add: budget_ok_def scheduler_inv_def rest)
  ultimately show "scheduler_inv st1" by (simp add: scheduler_inv_def)
  show "quiet st1 {?n}"
    unfolding quiet_def
  proof (intro allI impI)
    fix i assume i: "i < work_count st1" "state_at st1 i = Pending"
    show "i \<in> {?n} \<or> waiting st1 i"
    proof (cases "i = ?n")
      case False
      with i count have lt: "i < ?n" by simp
      then have "waiting st i" using q i by (simp add: quiet_def old)
      moreover have "d < ?n" if "d \<in> set (deps_at st i)" for d using deps_less [OF inv lt that] lt by simp
      ultimately show ?thesis using lt by (auto simp: waiting_def old)
    qed simp
  qed
  show "evolves {} st st1"
    using new by (intro evolvesI) (auto simp: count rest old less_Suc_eq)
qed

lemma enqueue_internal_advances:
  assumes inv: "full_inv st" and deps: "\<forall>d\<in>set deps. d < work_count st"
    and par: "case parent of None \<Rightarrow> True | Some p \<Rightarrow> p < work_count st"
  shows "yields (\<lambda>(st', i). advances {} st st' \<and> i < work_count st') (enqueue_internal st rq parent deps kind)"
proof (cases "u32_try_from (work_count st)")
  case None
  then show ?thesis using deps by (simp add: enqueue_internal_def list_all_iff)
next
  case (Some i)
  then have i: "i = work_count st" by simp
  show ?thesis
  proof (cases "depth_below st parent")
    case (Inl f)
    then show ?thesis
      using Some deps par by (auto simp: enqueue_internal_def list_all_iff depth_below_def split: option.splits)
  next
    case (Inr depth)
    define st1 where "st1 = append_work st rq parent deps kind depth"
    have si: "scheduler_inv st" "quiet st {}" "admitted st" using inv by (simp_all add: full_inv_def)
    note af = append_work_facts [OF si(1,2) deps par Inr st1_def, folded i]
    let ?r = "if lim_active_depth (sc_limits st1) < depth
                         then recover st1 i (RResourceLimit ActiveDepth) []
                         else (case cycle_chain st1 i of
                                 None \<Rightarrow> Inl Diverges
                               | Some (Some chain) \<Rightarrow> recover st1 i RCycle chain
                               | Some None \<Rightarrow> settle st1 [i])"
    have eq: "enqueue_internal st rq parent deps kind = (case ?r of Inl f \<Rightarrow> Inl f | Inr st2 \<Rightarrow> Inr (st2, i))"
    proof -
      have "\<not> \<not> list_all (\<lambda>d. d < work_count st) deps" using deps by (simp add: list_all_iff)
      then show ?thesis
        unfolding enqueue_internal_def Some Inr option.case sum.case Let_def st1_def [symmetric]
        by (rule if_not_P)
    qed
    have i1: "i < work_count st1" "\<not> is_settled (state_at st1 i)" using af by simp_all
    have "yields (\<lambda>st2. handles {} st st2 \<and> work_count st2 = work_count st1 \<and> (is_recovered (state_at st2 i) \<or> fresh st2 i)) ?r"
    proof -
      have rec: "yields (\<lambda>st2. handles {} st st2 \<and> work_count st2 = work_count st1 \<and> (is_recovered (state_at st2 i) \<or> fresh st2 i))
          (recover st1 i reason chain)" for reason chain
      proof (rule yields_weaken [OF recover_yields [OF af(1) i1 af(2)]], elim conjE)
        fix st2 assume h: "handles {i} st1 st2" "work_count st2 = work_count st1" "is_recovered (state_at st2 i)"
        have ev: "evolves {i} st1 st2" using h(1) by (simp add: handles_def)
        have "evolves {} st st2"
        proof (rule evolvesI)
          show "work_count st \<le> work_count st2" "sc_limits st2 = sc_limits st"
            using h(2) af(4,7) evolvesD(2) [OF ev] i by simp_all
          fix j
          show "j < work_count st \<Longrightarrow> static_of (sc_work st2 ! j) = static_of (sc_work st ! j)"
            using evolvesD(3) [OF ev, of j] evolvesD(3) [OF af(3), of j] af(4) i by simp
          show "j < work_count st \<Longrightarrow> j \<notin> {} \<Longrightarrow> state_at st j \<noteq> Pending \<Longrightarrow> state_at st2 j = state_at st j"
            using evolvesD(4) [OF ev, of j] evolvesD(4) [OF af(3), of j] af(4) i by simp
          show "j < work_count st2 \<Longrightarrow> state_at st2 j = Active \<Longrightarrow> j < work_count st \<and> j \<notin> {} \<and> state_at st j = Active"
            using evolvesD(5) [OF ev, of j] evolvesD(5) [OF af(3), of j] by blast
        qed
        with h show "handles {} st st2 \<and> work_count st2 = work_count st1 \<and> (is_recovered (state_at st2 i) \<or> fresh st2 i)"
          by (simp add: handles_def)
      qed
      show ?thesis
      proof (cases "lim_active_depth (sc_limits st1) < depth")
        case True
        with rec show ?thesis by simp
      next
        case False
        have g: "graph_ok st1" using af(1) by (simp add: scheduler_inv_def)
        let ?w = "sc_work st1 ! i"
        have "case se_parent ?w of None \<Rightarrow> True | Some c \<Rightarrow> c < work_count st1"
          using parent_less [OF g i1(1)] i1(1) by (auto split: option.split)
        from climb_returns [OF g this, of "se_request ?w" "[i]"] obtain r where
          r: "climb (sc_work st1) (se_request ?w) (se_parent ?w) [i] = Some r"
          "r = None \<longrightarrow> (\<forall>a. se_parent ?w = Some a \<or> (\<exists>c. se_parent ?w = Some c \<and> ancestor st1 a c) \<longrightarrow>
                          \<not> repeats (se_request ?w) (se_request (sc_work st1 ! a)))" by blast
        have cc: "cycle_chain st1 i = Some r" using r(1) i1(1) by (simp add: cycle_chain_def)
        show ?thesis
        proof (cases r)
          case (Some chain)
          with cc False rec show ?thesis by simp
        next
          case None
          have "ancestor st1 a i \<longleftrightarrow> se_parent ?w = Some a \<or> (\<exists>c. se_parent ?w = Some c \<and> ancestor st1 a c)" for a
            by (subst ancestor_iff) auto
          then have fr: "fresh st1 i" using r(2) None False af(6) by (simp add: fresh_def)
          have "yields (\<lambda>st'. settles st1 st' \<and> quiet st' {}) (settle st1 [i])"
            using af(1,2) i1(1) by (intro settle_yields) auto
          then have "yields (\<lambda>st2. handles {} st st2 \<and> work_count st2 = work_count st1 \<and> (is_recovered (state_at st2 i) \<or> fresh st2 i)) (settle st1 [i])"
          proof (rule yields_weaken, elim conjE)
            fix st2 assume h: "settles st1 st2" "quiet st2 {}"
            then have ev: "evolves {} st1 st2" by (simp add: settles_def)
            then have "evolves {} st st2" by (rule evolves_trans [OF af(3)])
            moreover have "fresh st2 i" using fresh_evolves [OF ev g i1(1)] fr by blast
            ultimately show "handles {} st st2 \<and> work_count st2 = work_count st1 \<and> (is_recovered (state_at st2 i) \<or> fresh st2 i)"
              using h by (simp add: handles_def settles_def)
          qed
          with cc None False show ?thesis by simp
        qed
      qed
    qed
    then have "yields (\<lambda>st2. advances {} st st2 \<and> i < work_count st2) ?r"
    proof (rule yields_weaken, elim conjE)
      fix st2 assume h: "handles {} st st2" "work_count st2 = work_count st1" "is_recovered (state_at st2 i) \<or> fresh st2 i"
      have "admitted st2"
        unfolding admitted_def
      proof (intro allI impI)
        fix j assume "j < work_count st2"
        then consider "j < work_count st" | "j = i" using h(2) af(4) i by force
        then show "is_recovered (state_at st2 j) \<or> fresh st2 j"
        proof cases
          case 1
          show ?thesis
            by (rule admitted_old [of "{}" st]) (use 1 h(1) si full_inv_graph [OF inv] in \<open>auto simp: handles_def\<close>)
        qed (use h(3) in simp)
      qed
      with h i1 show "advances {} st st2 \<and> i < work_count st2" by (simp add: advances_def full_inv_def handles_def)
    qed
    then show ?thesis unfolding eq by (cases ?r) (simp_all del: split_paired_All)
  qed
qed

end
