(* ===== verification/Scheduler_Run.thy ===== *)
theory Scheduler_Run
  imports Scheduler_Correct
begin

text \<open>
  The run of the expansion scheduler (\<^verbatim>\<open>src/expansion/scheduler.rs\<close>): selection of ready work,
  completion and failure keep the invariant, and \<open>run\<close> reaches a fixed point in which every
  request is completed or recovered, whatever the executor does.
\<close>

section \<open>Stages\<close>

lemma advances_count: "advances A st st' \<Longrightarrow> work_count st \<le> work_count st'"
  by (auto simp: advances_def dest: evolvesD(1))

lemma yields_bind:
  assumes "yields P r" "\<And>x. P x \<Longrightarrow> yields Q (f x)"
  shows "yields Q (case r of Inl e \<Rightarrow> Inl e | Inr x \<Rightarrow> f x)"
  using assms by (cases r) auto

lemma enqueue_stages_advances:
  "full_inv st \<Longrightarrow> (case previous of None \<Rightarrow> True | Some p \<Rightarrow> p < work_count st) \<Longrightarrow>
   yields (\<lambda>(st', is). advances {} st st') (enqueue_stages st g previous rqs)"
proof (induction rqs arbitrary: st previous)
  case Nil
  then show ?case by (simp add: advances_def)
next
  case (Cons rq rqs)
  let ?deps = "case previous of None \<Rightarrow> [] | Some p \<Rightarrow> [p]"
  let ?kind = "if previous = g \<and> g \<noteq> None then GeneratedDependency else StageDependency"
  have "\<forall>d\<in>set ?deps. d < work_count st" using Cons.prems(2) by (simp split: option.splits)
  note y = enqueue_internal_advances [OF Cons.prems(1) this Cons.prems(2), of rq ?kind]
  show ?case
    unfolding enqueue_stages.simps Let_def
  proof (rule yields_bind [OF y], clarsimp)
    fix st1 i assume a: "advances {} st st1" "i < work_count st1"
    then have "yields (\<lambda>(st', is). advances {} st1 st') (enqueue_stages st1 g (Some i) rqs)"
      by (intro Cons.IH) (simp_all add: advances_def)
    then show "yields (\<lambda>(st', is). advances {} st st')
        (case enqueue_stages st1 g (Some i) rqs of Inl x \<Rightarrow> Inl x | Inr (st'', is) \<Rightarrow> Inr (st'', i # is))"
      by (rule yields_bind) (use a in \<open>auto intro: advances_trans\<close>)
  qed
qed

lemma enqueue_definition_after_advances:
  "full_inv st \<Longrightarrow> (case g of None \<Rightarrow> True | Some p \<Rightarrow> p < work_count st) \<Longrightarrow>
   yields (\<lambda>(st', is). advances {} st st') (enqueue_definition_after st g d)"
  by (simp add: enqueue_definition_after_def enqueue_stages_advances)

lemma enqueue_invocations_advances:
  "full_inv st \<Longrightarrow> i < work_count st \<Longrightarrow> yields (\<lambda>(st', is). advances {} st st') (enqueue_invocations st i rqs)"
proof (induction rqs arbitrary: st)
  case Nil
  then show ?case by (simp add: advances_def)
next
  case (Cons rq rqs)
  have y: "yields (\<lambda>(st', j). advances {} st st' \<and> j < work_count st')
      (enqueue_internal st rq (Some i) [i] GeneratedDependency)"
    using Cons.prems by (intro enqueue_internal_advances) simp_all
  show ?case
    unfolding enqueue_invocations.simps
  proof (rule yields_bind [OF y], clarsimp)
    fix st1 j assume a: "advances {} st st1" "j < work_count st1"
    then have "yields (\<lambda>(st', is). advances {} st1 st') (enqueue_invocations st1 i rqs)"
      using advances_count [OF a(1)] Cons.prems(2) by (intro Cons.IH) (simp_all add: advances_def)
    then show "yields (\<lambda>(st', is). advances {} st st')
        (case enqueue_invocations st1 i rqs of Inl x \<Rightarrow> Inl x | Inr (st'', js) \<Rightarrow> Inr (st'', j # js))"
      by (rule yields_bind) (use a in \<open>auto intro: advances_trans\<close>)
  qed
qed

lemma enqueue_definitions_advances:
  "full_inv st \<Longrightarrow> i < work_count st \<Longrightarrow> yields (\<lambda>(st', is). advances {} st st') (enqueue_definitions st i ds)"
proof (induction ds arbitrary: st)
  case Nil
  then show ?case by (simp add: advances_def)
next
  case (Cons d ds)
  have y: "yields (\<lambda>(st', is). advances {} st st') (enqueue_definition_after st (Some i) d)"
    using Cons.prems by (intro enqueue_definition_after_advances) simp_all
  show ?case
    unfolding enqueue_definitions.simps
  proof (rule yields_bind [OF y], clarsimp)
    fix st1 js assume a: "advances {} st st1"
    then have "yields (\<lambda>(st', is). advances {} st1 st') (enqueue_definitions st1 i ds)"
      using advances_count [OF a] Cons.prems(2) by (intro Cons.IH) (simp_all add: advances_def)
    then show "yields (\<lambda>(st', is). advances {} st st')
        (case enqueue_definitions st1 i ds of Inl x \<Rightarrow> Inl x | Inr (st'', ks) \<Rightarrow> Inr (st'', js @ ks))"
      by (rule yields_bind) (use a in \<open>auto intro: advances_trans\<close>)
  qed
qed

section \<open>Activation and completion\<close>

text \<open>Ready work becomes active, or active work completed; nothing else about the graph changes.\<close>

lemma set_state_inv:
  assumes inv: "scheduler_inv st" and i: "i < work_count st" "state_at st i \<in> {Ready, Active}" "s \<in> {Active, Completed}"
    and w: "sc_work st' = sc_work (set_state i s st)" and "sc_edges st' = sc_edges st"
    and "sc_recoveries st' = sc_recoveries st" and b: "budget_ok st'"
    and r: "sc_ready st' = remove1 (key_at st i) (sc_ready st)"
  shows "scheduler_inv st'"
proof -
  note sc = state_at_cong [OF w]
  have state: "state_at st' j = (if j = i then s else state_at st j)" for j
    using state_at_set_state [OF i(1)] by (simp add: sc)
  have same: "work_count st' = work_count st" "deps_at st' j = deps_at st j" "key_at st' j = key_at st j"
    "entry_ok st' j = entry_ok st j" for j
    using set_state_static [OF i(1)] by (simp_all add: sc w)
  have "graph_ok st'" using inv assms(6) by (simp add: same scheduler_inv_def graph_ok_def edges_ok_def)
  moreover have "ready_ok st'"
  proof -
    have "key_at st' = key_at st" by (rule ext) (rule same)
    moreover have "{j. j < work_count st' \<and> state_at st' j = Ready} = {j. j < work_count st \<and> j \<noteq> i \<and> state_at st j = Ready}"
      using i(3) by (auto simp: same state)
    ultimately show ?thesis
      using recovered_ready_ok [OF _ i(1)] inv unfolding ready_ok_def [of st'] r scheduler_inv_def by simp
  qed
  moreover have "recoveries_ok st'"
    using inv i unfolding recoveries_ok_def scheduler_inv_def same state assms(7) by auto
  moreover have "order_ok st'"
    unfolding order_ok_def same state
  proof (intro allI impI ballI)
    fix j d
    assume j: "j < work_count st" "(if j = i then s else state_at st j) \<in> {Ready, Active, Completed}"
      and d: "d \<in> set (deps_at st j)"
    then have "state_at st j \<in> {Ready, Active, Completed}" using i(2) by (auto split: if_splits)
    from order_ok_dep_Completed [OF inv j(1) this d] have "state_at st d = Completed" .
    with i(2) show "(if d = i then s else state_at st d) = Completed" by auto
  qed
  ultimately show ?thesis using b by (simp add: scheduler_inv_def)
qed

lemma not_ready_key:
  assumes "scheduler_inv st" "state_at st i \<noteq> Ready"
  shows "remove1 (key_at st i) (sc_ready st) = sc_ready st"
proof -
  have "key_at st i \<notin> set (sc_ready st)"
    using assms by (auto simp: scheduler_inv_def ready_ok_def key_at_def)
  then show ?thesis by (rule remove1_idem)
qed

lemma same_work_evolves:
  assumes w: "sc_work st' = sc_work (set_state i s st)" and i: "i < work_count st" and lim: "sc_limits st' = sc_limits st"
    and s: "s \<noteq> Active"
  shows "evolves {i} st st'"
proof -
  note sc = state_at_cong [OF w]
  have "state_at st' j = (if j = i then s else state_at st j)" for j
    using state_at_set_state [OF i] by (simp add: sc)
  then show ?thesis
    using set_state_static [OF i] lim s w by (intro evolvesI) (auto split: if_splits)
qed

lemma complete_advances:
  assumes inv: "full_inv st" and i: "i < work_count st" "state_at st i = Active"
  shows "yields (\<lambda>(st', is). advances {i} st st') (complete st i out)"
proof -
  have si: "scheduler_inv st" "quiet st {}" "admitted st" using inv by (simp_all add: full_inv_def)
  have act: "assert_active st i" using i by (simp add: assert_active_def state_at_def)
  have us: "\<not> is_settled (state_at st i)" using i by simp
  show ?thesis
  proof (cases "over_budget st out")
    case True
    have "yields (\<lambda>(st', is). advances {i} st st')
        (case recover st i (RResourceLimit GeneratedNodes) [] of Inl f \<Rightarrow> Inl f | Inr st' \<Rightarrow> Inr (st', []))"
      by (rule yields_bind [OF recover_advances [OF inv i(1) us]]) simp
    then show ?thesis using True act by (simp add: complete_def)
  next
    case False
    define st1 where "st1 = set_state i Completed
                     (st\<lparr>sc_usage := (sc_usage st)\<lparr>us_generated_nodes :=
                           us_generated_nodes (sc_usage st) + so_generated_nodes out\<rparr>\<rparr>)"
    have w: "sc_work st1 = sc_work (set_state i Completed st)" by (simp add: st1_def set_state_def)
    have bud: "budget_ok st1"
      using False si(1)
      by (auto simp: st1_def budget_ok_def scheduler_inv_def over_budget_def u64_checked_add_def set_state_def
          split: option.splits if_splits)
    have inv1: "scheduler_inv st1"
      by (rule set_state_inv [OF si(1) i(1) _ _ w _ _ bud])
        (use i not_ready_key [OF si(1), of i] in \<open>auto simp: st1_def set_state_def\<close>)
    have ev1: "evolves {i} st st1"
      by (rule same_work_evolves [OF w i(1)]) (simp_all add: st1_def)
    note sc = state_at_cong [OF w] state_at_set_state [OF i(1)] set_state_static [OF i(1)]
    have c1: "work_count st1 = work_count st" by (simp add: w)
    have q1: "quiet st1 (dependents st1 i)"
      unfolding quiet_def
    proof (intro allI impI)
      fix j assume j: "j < work_count st1" "state_at st1 j = Pending"
      then have "j \<noteq> i" "waiting st j" using si(2) by (auto simp: quiet_def sc c1 split: if_splits)
      then show "j \<in> dependents st1 i \<or> waiting st1 j"
        using j by (cases "i \<in> set (deps_at st j)") (auto simp: waiting_def sc dependents_def)
    qed
    have adm1: "admitted st1"
      by (rule admitted_evolves [OF ev1]) (use si i c1 in \<open>auto simp: scheduler_inv_def\<close>)
    have y: "yields (\<lambda>st2. advances {i} st st2) (refresh_dependents st1 i)"
    proof (rule yields_weaken [OF refresh_dependents_yields [OF inv1 q1]], elim conjE)
      fix st2 assume h: "handles {} st1 st2" "work_count st2 = work_count st1"
      have "admitted st2"
        by (rule admitted_evolves [of "{}" st1]) (use h adm1 inv1 in \<open>auto simp: handles_def scheduler_inv_def\<close>)
      then show "advances {i} st st2"
        using h evolves_trans [OF ev1] by (simp add: advances_def full_inv_def handles_def)
    qed
    have "yields (\<lambda>(st', is). advances {i} st st')
       (case refresh_dependents st1 i of
              Inl f \<Rightarrow> Inl f
            | Inr st2 \<Rightarrow>
                (case enqueue_invocations st2 i (so_invocations out) of
                   Inl f \<Rightarrow> Inl f
                 | Inr (st3, js) \<Rightarrow>
                     (case enqueue_definitions st3 i (so_definitions out) of
                        Inl f \<Rightarrow> Inl f
                      | Inr (st4, ks) \<Rightarrow> Inr (st4, js @ ks))))"
    proof (rule yields_bind [OF y])
      fix st2 assume a2: "advances {i} st st2"
      have f2: "full_inv st2" "i < work_count st2" using a2 advances_count [OF a2] i by (simp_all add: advances_def)
      show "yields (\<lambda>(st', is). advances {i} st st')
          (case enqueue_invocations st2 i (so_invocations out) of
                   Inl f \<Rightarrow> Inl f
                 | Inr (st3, js) \<Rightarrow>
                     (case enqueue_definitions st3 i (so_definitions out) of
                        Inl f \<Rightarrow> Inl f
                      | Inr (st4, ks) \<Rightarrow> Inr (st4, js @ ks)))"
      proof (rule yields_bind [OF enqueue_invocations_advances [OF f2]], clarsimp)
        fix st3 js assume a3: "advances {} st2 st3"
        have f3: "full_inv st3" "i < work_count st3" using a3 advances_count [OF a3] f2 by (simp_all add: advances_def)
        show "yields (\<lambda>(st', is). advances {i} st st')
            (case enqueue_definitions st3 i (so_definitions out) of
                        Inl f \<Rightarrow> Inl f
                      | Inr (st4, ks) \<Rightarrow> Inr (st4, js @ ks))"
          by (rule yields_bind [OF enqueue_definitions_advances [OF f3]])
            (use advances_trans [OF advances_trans [OF a2 a3]] in auto)
      qed
    qed
    then show ?thesis using False act by (simp add: complete_def Let_def st1_def)
  qed
qed

lemma fail_advances:
  assumes "full_inv st" "i < work_count st" "state_at st i = Active"
  shows "yields (\<lambda>st'. advances {i} st st') (fail st i reason)"
proof -
  have "assert_active st i" "\<not> is_settled (state_at st i)" using assms by (simp_all add: assert_active_def state_at_def)
  then show ?thesis
    using yields_weaken [OF recover_advances [OF assms(1,2)]] by (auto simp: fail_def)
qed

section \<open>One execution\<close>

lemma resources_update:
  fixes st u i
  defines "st1 \<equiv> st\<lparr>sc_work := (sc_work st)[i := (sc_work st ! i)\<lparr>se_resources := u\<rparr>]\<rparr>"
  assumes inv: "full_inv st"
  shows "full_inv st1" "evolves {} st st1" "work_count st1 = work_count st" "state_at st1 j = state_at st j"
proof -
  have eq: "sc_work st1 ! j = (if j = i \<and> i < work_count st then (sc_work st ! i)\<lparr>se_resources := u\<rparr> else sc_work st ! j)" for j
    by (cases "i < work_count st") (auto simp: st1_def nth_list_update list_update_beyond)
  have sel: "se_state (sc_work st1 ! j) = se_state (sc_work st ! j)" "se_dependencies (sc_work st1 ! j) = se_dependencies (sc_work st ! j)"
    "se_request (sc_work st1 ! j) = se_request (sc_work st ! j)" "se_parent (sc_work st1 ! j) = se_parent (sc_work st ! j)"
    "se_depth (sc_work st1 ! j) = se_depth (sc_work st ! j)" "se_id (sc_work st1 ! j) = se_id (sc_work st ! j)" for j
    by (simp_all add: eq)
  have same: "state_at st1 j = state_at st j" "deps_at st1 j = deps_at st j" "key_at st1 j = key_at st j"
    "entry_ok st1 j = entry_ok st j" "waiting st1 j = waiting st j" for j
    by (simp_all add: state_at_def deps_at_def key_at_def entry_ok_def waiting_def sel split: option.split)
  show count: "work_count st1 = work_count st" by (simp add: st1_def)
  show "state_at st1 j = state_at st j" by (rule same)
  have rest: "sc_edges st1 = sc_edges st" "sc_ready st1 = sc_ready st" "sc_recoveries st1 = sc_recoveries st"
    "sc_limits st1 = sc_limits st" "sc_usage st1 = sc_usage st" by (simp_all add: st1_def)
  have key: "key_at st1 = key_at st" by (rule ext) (rule same)
  have si: "graph_ok st" "ready_ok st" "recoveries_ok st" "order_ok st" "budget_ok st"
    using inv by (simp_all add: full_inv_def scheduler_inv_def)
  have "graph_ok st1" using si(1) unfolding graph_ok_def edges_ok_def same count rest .
  moreover have "ready_ok st1" using si(2) unfolding ready_ok_def same count rest key .
  moreover have "recoveries_ok st1" using si(3) unfolding recoveries_ok_def same count rest .
  moreover have "order_ok st1" using si(4) unfolding order_ok_def same count .
  moreover have "budget_ok st1" using si(5) unfolding budget_ok_def rest .
  ultimately have "scheduler_inv st1" by (simp add: scheduler_inv_def)
  moreover have "quiet st1 {}" using inv by (simp add: full_inv_def quiet_def same count)
  moreover show ev: "evolves {} st st1"
    by (rule evolvesI) (simp_all add: count rest same eq static_of_def)
  moreover have "admitted st1"
    by (rule admitted_evolves [OF ev]) (use inv count in \<open>auto simp: full_inv_def scheduler_inv_def\<close>)
  ultimately show "full_inv st1" by (simp add: full_inv_def)
qed

lemma advances_after:
  assumes ev: "evolves {} st st1" and n: "work_count st1 = work_count st"
    and same: "\<And>j. state_at st1 j = state_at st j" and adv: "advances A st1 st'"
  shows "advances A st st'"
proof -
  have ev': "evolves A st1 st'" using adv by (simp add: advances_def)
  have "evolves A st st'"
  proof (rule evolvesI)
    show "work_count st \<le> work_count st'" "sc_limits st' = sc_limits st"
      using evolvesD(1,2) [OF ev] evolvesD(1,2) [OF ev'] by simp_all
    fix j
    show "j < work_count st \<Longrightarrow> static_of (sc_work st' ! j) = static_of (sc_work st ! j)"
      using evolvesD(3) [OF ev, of j] evolvesD(3) [OF ev', of j] n by simp
    show "j < work_count st \<Longrightarrow> j \<notin> A \<Longrightarrow> state_at st j \<noteq> Pending \<Longrightarrow> state_at st' j = state_at st j"
      using evolvesD(4) [OF ev', of j] by (simp add: n same)
    show "j < work_count st' \<Longrightarrow> state_at st' j = Active \<Longrightarrow> j < work_count st \<and> j \<notin> A \<and> state_at st j = Active"
      using evolvesD(5) [OF ev', of j] by (simp add: n same)
  qed
  with adv show ?thesis by (simp add: advances_def)
qed

lemma finish_execution_advances:
  assumes inv: "full_inv st" and i: "i < work_count st" "state_at st i = Active"
  shows "yields (\<lambda>st'. advances {i} st st') (finish_execution st i res result)"
proof -
  let ?st1 = "st\<lparr>sc_work := (sc_work st)[i := (sc_work st ! i)\<lparr>se_resources := Some (er_usage res)\<rparr>]\<rparr>"
  note ru = resources_update [OF inv, of i "Some (er_usage res)"]
  have i1: "i < work_count ?st1" "state_at ?st1 i = Active" using i ru(3,4) by simp_all
  have f: "yields (\<lambda>st'. advances {i} ?st1 st') (fail ?st1 i reason)" for reason
    by (rule fail_advances [OF ru(1) i1])
  have c: "yields (\<lambda>st'. advances {i} ?st1 st') (case complete ?st1 i out of Inl f \<Rightarrow> Inl f | Inr (st2, js) \<Rightarrow> Inr st2)" for out
    by (rule yields_bind [OF complete_advances [OF ru(1) i1]]) auto
  have "yields (\<lambda>st'. advances {i} ?st1 st') (finish_execution st i res result)"
    using f c by (simp add: finish_execution_def Let_def split: option.split sum.split)
  then show ?thesis
    by (rule yields_weaken) (rule advances_after [OF ru(2,3,4)])
qed

section \<open>Selecting work\<close>

definition idle :: "scheduler \<Rightarrow> bool" where
  "idle st \<longleftrightarrow> (\<forall>i<work_count st. state_at st i \<noteq> Active)"

definition selected :: "scheduler \<Rightarrow> scheduler \<times> work_id option \<Rightarrow> bool" where
  "selected st = (\<lambda>(st', r).
     full_inv st' \<and> work_count st \<le> work_count st' \<and>
     (case r of
        None \<Rightarrow> idle st' \<and> sc_ready st' = []
      | Some i \<Rightarrow> i < work_count st' \<and> (\<forall>j<work_count st'. state_at st' j = Active \<longleftrightarrow> j = i)))"

lemma idle_advances: "idle st \<Longrightarrow> advances A st st' \<Longrightarrow> idle st'"
  unfolding idle_def advances_def by (blast dest: evolvesD(5))

lemma recover_popped:
  assumes "sc_ready st = key_at st i # rest" "i < work_count st" "key_at st i \<notin> set rest"
  shows "recover (st\<lparr>sc_ready := rest\<rparr>) i reason chain = recover st i reason chain"
proof -
  have "recover_one (st\<lparr>sc_ready := rest\<rparr>) i reason chain = recover_one st i reason chain"
    using assms by (auto simp: recover_one_def key_at_def Let_def remove1_idem set_state_def split: option.split)
  then show ?thesis by (simp add: recover_def)
qed

lemma next_ready_yields:
  "full_inv st \<Longrightarrow> idle st \<Longrightarrow> yields (selected st) (next_ready st)"
proof (induction "unsettled st" arbitrary: st rule: less_induct)
  case less
  have si: "scheduler_inv st" "quiet st {}" "admitted st" and rk: "ready_ok st"
    using less.prems(1) by (simp_all add: full_inv_def scheduler_inv_def)
  show ?case
  proof (cases "sc_ready st")
    case Nil
    then have "next_ready st = Inr (st, None)" by (subst next_ready.simps) simp
    then show ?thesis using less.prems Nil by (simp add: selected_def)
  next
    case (Cons key rest)
    then have "key \<in> set (sc_ready st)" by simp
    then obtain i where i: "key = key_at st i" "i < work_count st" "state_at st i = Ready"
      using rk unfolding ready_ok_def by blast
    have snd: "snd (key_at st i) = i" by (simp add: key_at_def)
    have nr: "key_at st i \<notin> set rest" using rk Cons i(1) by (auto simp: ready_ok_def)
    have us: "\<not> is_settled (state_at st i)" using i(3) by simp
    have popped: "sc_work (st\<lparr>sc_ready := rest\<rparr>) = sc_work st" "sc_limits (st\<lparr>sc_ready := rest\<rparr>) = sc_limits st"
      "sc_usage (st\<lparr>sc_ready := rest\<rparr>) = sc_usage st" by simp_all
    show ?thesis
    proof (cases "lim_executions (sc_limits st) \<le> us_executions (sc_usage st)")
      case True
      let ?rec = "recover st i (RResourceLimit Executions) []"
      have eq: "next_ready st = (case ?rec of Inl f \<Rightarrow> Inl f | Inr st2 \<Rightarrow> next_ready st2)"
      proof -
        have "recover (st\<lparr>sc_ready := rest\<rparr>) i (RResourceLimit Executions) [] = ?rec"
          by (rule recover_popped [OF Cons [unfolded i(1)] i(2) nr])
        moreover have "i < length (sc_work st)" "se_state (sc_work st ! i) = Ready"
          using i by (simp_all add: state_at_def)
        ultimately show ?thesis
          using True
          by (subst next_ready.simps)
            (simp only: Cons i(1) snd list.case Let_def popped vget_def option.case if_True if_False simp_thms)
      qed
      show ?thesis
      proof (cases ?rec)
        case (Inl f)
        then have "next_ready st = Inl f" by (simp only: eq sum.case)
        moreover have "yields (\<lambda>st'. advances {i} st st' \<and> is_recovered (state_at st' i)) (Inl f)"
          using recover_advances [OF less.prems(1) i(2) us, of "RResourceLimit Executions" "[]"] by (simp only: Inl)
        ultimately show ?thesis by simp
      next
        case (Inr st2)
        then have a: "advances {i} st st2"
          using recover_advances [OF less.prems(1) i(2) us, of "RResourceLimit Executions" "[]"] by simp
        have "yields (selected st2) (next_ready st2)"
          using recover_unsettled [OF Inr] a idle_advances [OF less.prems(2) a]
          by (intro less.hyps) (simp_all add: advances_def)
        then have "yields (selected st) (next_ready st2)"
          by (rule yields_weaken) (use advances_count [OF a] in \<open>auto simp: selected_def split: option.splits\<close>)
        with eq Inr show ?thesis by simp
      qed
    next
      case False
      define st1 where "st1 = set_state i Active (st\<lparr>sc_ready := rest, sc_usage :=
         (sc_usage st)\<lparr>us_executions := us_executions (sc_usage st) + 1\<rparr>\<rparr>)"
      have eq: "next_ready st = Inr (st1, Some i)"
      proof -
        have "i < length (sc_work st)" "se_state (sc_work st ! i) = Ready"
          using i by (simp_all add: state_at_def)
        then show ?thesis
          using False by (subst next_ready.simps) 
            (simp only: Cons i(1) snd list.case Let_def popped vget_def option.case if_True if_False simp_thms st1_def)
      qed
      have w: "sc_work st1 = sc_work (set_state i Active st)" by (simp add: st1_def set_state_def)
      note sc = state_at_cong [OF w] state_at_set_state [OF i(2)] set_state_static [OF i(2)]
      have c1: "work_count st1 = work_count st" by (simp add: w)
      have bud: "budget_ok st1"
        using si(1) False by (simp add: budget_ok_def scheduler_inv_def st1_def)
      have "scheduler_inv st1"
        by (rule set_state_inv [OF si(1) i(2) _ _ w _ _ bud]) (use i Cons in \<open>auto simp: st1_def\<close>)
      moreover have "quiet st1 {}"
        unfolding quiet_def
      proof (intro allI impI)
        fix j assume j: "j < work_count st1" "state_at st1 j = Pending"
        then have "waiting st j" using si(2) by (auto simp: quiet_def sc c1 split: if_splits)
        then have "waiting st1 j" by (auto simp: waiting_def sc)
        then show "j \<in> {} \<or> waiting st1 j" by blast
      qed
      moreover have "admitted st1"
      proof -
        have "fresh st1 j \<longleftrightarrow> fresh st j" if "j < work_count st" for j
        proof -
          have st: "static_of (sc_work st1 ! k) = static_of (sc_work st ! k)" for k
            using set_state_static(4) [OF i(2)] by (simp add: w)
          note f = static_of_eq [OF st]
          have "ancestor st1 a k = ancestor st a k" for a k
          proof
            show "ancestor st1 a k \<Longrightarrow> ancestor st a k"
              by (induction rule: ancestor.induct) (auto simp: f intro: ancestor.intros)
            show "ancestor st a k \<Longrightarrow> ancestor st1 a k"
              by (induction rule: ancestor.induct) (auto simp: f intro: ancestor.intros)
          qed
          moreover have "sc_limits st1 = sc_limits st" by (simp add: st1_def)
          ultimately show ?thesis by (simp add: fresh_def f)
        qed
        then show ?thesis using si(3) i(3) by (auto simp: admitted_def c1 sc)
      qed
      ultimately have "full_inv st1" by (simp add: full_inv_def)
      moreover have "\<forall>j<work_count st1. state_at st1 j = Active \<longleftrightarrow> j = i"
        using less.prems(2) by (auto simp: idle_def c1 sc)
      ultimately show ?thesis using eq i(2) c1 by (simp add: selected_def)
    qed
  qed
qed

section \<open>The whole run\<close>

definition finished :: "scheduler \<Rightarrow> bool" where
  "finished st \<longleftrightarrow> (\<forall>i<work_count st. is_settled (state_at st i))"

lemma exhausted_ready_finished:
  assumes inv: "full_inv st" and "idle st" "sc_ready st = []"
  shows "finished st"
  unfolding finished_def
proof (intro allI impI)
  fix i
  show "i < work_count st \<Longrightarrow> is_settled (state_at st i)"
  proof (induction i rule: less_induct)
    case (less i)
    have si: "scheduler_inv st" using inv by (simp add: full_inv_def)
    have nr: "state_at st i \<noteq> Ready"
      using si assms(3) less.prems by (auto simp: scheduler_inv_def ready_ok_def)
    have na: "state_at st i \<noteq> Active" using assms(2) less.prems by (simp add: idle_def)
    have "state_at st i \<noteq> Pending"
    proof
      assume "state_at st i = Pending"
      then have "waiting st i" using inv less.prems by (auto simp: full_inv_def quiet_def)
      then obtain d where d: "d \<in> set (deps_at st i)" "state_at st d \<noteq> Completed" "\<not> is_recovered (state_at st d)"
        by (auto simp: waiting_def)
      have "d < i" by (rule deps_less [OF si less.prems d(1)])
      with less.IH [of d] less.prems have "is_settled (state_at st d)" by simp
      with d show False by (cases "state_at st d") auto
    qed
    with nr na show ?case by (cases "state_at st i") auto
  qed
qed

lemma run_yields:
  "full_inv st \<Longrightarrow> idle st \<Longrightarrow>
   yields (\<lambda>(x', st'). full_inv st' \<and> finished st' \<and> work_count st \<le> work_count st') (run exec x st)"
proof (induction exec x st rule: run.induct)
  case (1 exec x st)
  note y = next_ready_yields [OF "1.prems"]
  show ?case
  proof (cases "next_ready st")
    case (Inl f)
    with y show ?thesis by (subst run.simps) simp
  next
    case (Inr r)
    obtain st1 o' where r: "r = (st1, o')" by fastforce
    show ?thesis
    proof (cases o')
      case None
      with y Inr r have "full_inv st1" "idle st1" "sc_ready st1 = []" "work_count st \<le> work_count st1"
        by (simp_all add: selected_def)
      then show ?thesis
        using exhausted_ready_finished Inr r None by (subst run.simps) simp
    next
      case (Some i)
      with y Inr r have s: "full_inv st1" "i < work_count st1" "work_count st \<le> work_count st1"
        "\<forall>j<work_count st1. state_at st1 j = Active \<longleftrightarrow> j = i"
        by (simp_all add: selected_def)
      obtain x' res result where e: "exec x (sc_work st1 ! i) (resources_new (sc_limits st1)) = (x', res, result)"
        by (cases "exec x (sc_work st1 ! i) (resources_new (sc_limits st1))")
      have act: "state_at st1 i = Active" using s(2,4) by blast
      note fy = finish_execution_advances [OF s(1,2) act, of res result]
      show ?thesis
      proof (cases "finish_execution st1 i res result")
        case (Inl f)
        with fy Some Inr r e s(2) show ?thesis by (subst run.simps) simp
      next
        case f: (Inr st2)
        with fy have a: "advances {i} st1 st2" by simp
        have "idle st2"
          unfolding idle_def
        proof (intro allI impI notI)
          fix j assume "j < work_count st2" "state_at st2 j = Active"
          with evolvesD(5) [of "{i}" st1 st2 j] a s(4) show False by (auto simp: advances_def)
        qed
        moreover have "full_inv st2" using a by (simp add: advances_def)
        ultimately have "yields (\<lambda>(x', st'). full_inv st' \<and> finished st' \<and> work_count st2 \<le> work_count st') (run exec x' st2)"
          using "1.IH" [of "(st1, o')" st1 o' i "sc_work st1 ! i"] Inr r Some e f s(2) by simp
        then have "yields (\<lambda>(x', st'). full_inv st' \<and> finished st' \<and> work_count st \<le> work_count st') (run exec x' st2)"
          by (rule yields_weaken) (use advances_count [OF a] s(3) in auto)
        then show ?thesis
          using Inr r Some e f s(2) by (subst run.simps) simp
      qed
    qed
  qed
qed

end
