(* ===== verification/Scheduler_Theorems.thy ===== *)
theory Scheduler_Theorems
  imports Scheduler_Run
begin

text \<open>
  The schedulers a client of \<^verbatim>\<open>src/expansion/scheduler.rs\<close> can build through the public operations
  \<open>with_limits\<close>, \<open>enqueue\<close>, \<open>enqueue_definition\<close> and \<open>run\<close>, as a step relation, and what
  holds of every one of them.
\<close>

section \<open>Aborts\<close>

definition internal :: "failure \<Rightarrow> bool" where
  "internal f \<longleftrightarrow> f \<noteq> BadRole \<and> f \<noteq> BadReason"

lemma internal_simps [simp]: "internal Overflow" "internal Assertion" "internal Diverges" "\<not> internal BadRole" "\<not> internal BadReason"
  by (simp_all add: internal_def)

lemma recover_one_internal: "recover_one st i reason chain = Inl f \<Longrightarrow> internal f"
  by (auto simp: recover_one_def Let_def split: option.splits if_splits)

lemma any_recovered_internal: "any_recovered w ds = Inl f \<Longrightarrow> internal f"
  by (induction ds) (auto split: option.splits if_splits)

lemma all_completed_internal: "all_completed w ds = Inl f \<Longrightarrow> internal f"
  by (induction ds) (auto split: option.splits if_splits)

lemma sorted_dependents_internal: "sorted_dependents st p = Inl f \<Longrightarrow> internal f"
  by (auto simp: sorted_dependents_def Let_def split: if_splits)

lemma refresh_step_internal: "refresh_step st i = Inl f \<Longrightarrow> internal f"
  by (auto simp: refresh_step_def Let_def split: option.splits if_splits sum.splits bool.splits
      dest: recover_one_internal any_recovered_internal all_completed_internal sorted_dependents_internal)

lemma settle_internal: "settle st is = Inl f \<Longrightarrow> internal f"
proof (induction st "is" rule: settle.induct)
  case (2 st i "is")
  from "2.prems" show ?case
    by (auto simp: settle.simps(2) split: sum.splits prod.splits dest: refresh_step_internal "2.IH")
qed simp

lemma refresh_dependents_internal: "refresh_dependents st p = Inl f \<Longrightarrow> internal f"
  by (auto simp: refresh_dependents_def split: sum.splits dest: sorted_dependents_internal settle_internal)

lemma recover_internal: "recover st i reason chain = Inl f \<Longrightarrow> internal f"
  by (auto simp: recover_def split: sum.splits dest: recover_one_internal refresh_dependents_internal)

lemma enqueue_internal_internal: "enqueue_internal st rq parent deps kind = Inl f \<Longrightarrow> internal f"
  by (auto simp: enqueue_internal_def depth_below_def Let_def split: if_splits option.splits sum.splits
      dest: recover_internal settle_internal)

lemma enqueue_stages_internal: "enqueue_stages st g p rqs = Inl f \<Longrightarrow> internal f"
proof (induction rqs arbitrary: st p)
  case (Cons rq rqs)
  then show ?case
    by (auto simp: Let_def split: sum.splits prod.splits dest: enqueue_internal_internal)
qed simp

lemma enqueue_invocations_internal: "enqueue_invocations st i rqs = Inl f \<Longrightarrow> internal f"
proof (induction rqs arbitrary: st)
  case (Cons rq rqs)
  then show ?case
    by (auto split: sum.splits prod.splits dest: enqueue_internal_internal)
qed simp

text \<open>What the source asserts of the stages of a definition, and of an executor that respects it.\<close>

definition staged :: "definition_expansions \<Rightarrow> bool" where
  "staged d \<longleftrightarrow> list_all (\<lambda>r. rq_role r = RoleAttribute) (de_attributes d)
     \<and> list_all (\<lambda>r. rq_role r = RoleDerive) (de_derives d)"

definition well_behaved :: "'x executor \<Rightarrow> bool" where
  "well_behaved exec \<longleftrightarrow>
     (\<forall>x w r. case snd (snd (exec x w r)) of
        Inl reason \<Rightarrow> reason \<noteq> RCycle \<and> reason \<noteq> RDependency
      | Inr out \<Rightarrow> list_all staged (so_definitions out))"

lemma enqueue_definition_after_internal:
  "enqueue_definition_after st g d = Inl f \<Longrightarrow> staged d \<Longrightarrow> internal f"
  by (auto simp: enqueue_definition_after_def staged_def split: if_splits dest: enqueue_stages_internal)

lemma enqueue_definitions_internal:
  "enqueue_definitions st i ds = Inl f \<Longrightarrow> list_all staged ds \<Longrightarrow> internal f"
proof (induction ds arbitrary: st)
  case (Cons d ds)
  then show ?case
    by (auto split: sum.splits prod.splits dest: enqueue_definition_after_internal)
qed simp

lemma complete_internal: "complete st i out = Inl f \<Longrightarrow> list_all staged (so_definitions out) \<Longrightarrow> internal f"
  by (auto simp: complete_def Let_def split: if_splits sum.splits prod.splits
      dest: recover_internal refresh_dependents_internal enqueue_invocations_internal enqueue_definitions_internal)

lemma fail_internal: "fail st i reason = Inl f \<Longrightarrow> reason \<noteq> RCycle \<Longrightarrow> reason \<noteq> RDependency \<Longrightarrow> internal f"
  by (auto simp: fail_def split: if_splits dest: recover_internal)

lemma finish_execution_internal:
  assumes "finish_execution st i res result = Inl f"
    and "case result of Inl reason \<Rightarrow> reason \<noteq> RCycle \<and> reason \<noteq> RDependency | Inr out \<Rightarrow> list_all staged (so_definitions out)"
  shows "internal f"
  using assms
  by (auto simp: finish_execution_def Let_def split: option.splits sum.splits prod.splits
      dest: fail_internal complete_internal)

lemma next_ready_internal: "next_ready st = Inl f \<Longrightarrow> internal f"
proof (induction st rule: next_ready.induct)
  case (1 st)
  show ?case
  proof (cases "sc_ready st")
    case Nil
    with "1.prems" show ?thesis by (subst (asm) next_ready.simps) simp
  next
    case (Cons key rest)
    from "1.prems" show ?thesis
      by (subst (asm) next_ready.simps)
        (auto simp: Cons Let_def split: option.splits if_splits sum.splits dest: recover_internal
          intro: "1.IH" [OF Cons refl refl])
  qed
qed

lemma run_internal: "run exec x st = Inl f \<Longrightarrow> well_behaved exec \<Longrightarrow> internal f"
proof (induction exec x st rule: run.induct)
  case (1 exec x st)
  show ?case
  proof (cases "next_ready st")
    case (Inl g)
    with "1.prems" show ?thesis by (subst (asm) run.simps) (auto dest: next_ready_internal)
  next
    case (Inr r)
    obtain st1 o' where r: "r = (st1, o')" by fastforce
    from "1.prems" Inr r obtain i where o: "o' = Some i"
      by (subst (asm) run.simps) (cases o'; simp)
    show ?thesis
    proof (cases "vget (sc_work st1) i")
      case None
      with "1.prems"(1) Inr r o show ?thesis by (subst (asm) run.simps) auto
    next
      case (Some w)
      obtain x' res result where e: "exec x w (resources_new (sc_limits st1)) = (x', res, result)"
        by (cases "exec x w (resources_new (sc_limits st1))")
      have wb: "case result of Inl reason \<Rightarrow> reason \<noteq> RCycle \<and> reason \<noteq> RDependency | Inr out \<Rightarrow> list_all staged (so_definitions out)"
        using "1.prems"(2) e unfolding well_behaved_def by (metis snd_conv)
      show ?thesis
      proof (cases "finish_execution st1 i res result")
        case (Inl g)
        with "1.prems"(1) Inr r o Some e have "g = f" by (subst (asm) run.simps) simp
        with Inl wb show ?thesis by (blast dest: finish_execution_internal)
      next
        case f: (Inr st2)
        with "1.prems"(1) Inr r o Some e have "run exec x' st2 = Inl f" by (subst (asm) run.simps) simp
        then show ?thesis
          using "1.IH" [OF Inr r [symmetric] o Some e [symmetric] refl f] "1.prems"(2) by blast
      qed
    qed
  qed
qed

section \<open>Reachable schedulers\<close>

text \<open>
  A client state is the state of its executor and a scheduler. Between operations the client may
  change its own state; only \<open>run\<close> hands it to the executor.
\<close>

inductive driven :: "expansion_limits \<Rightarrow> 'x \<times> scheduler \<Rightarrow> bool" for lim where
  created: "driven lim (x, scheduler_with_limits lim)"
| enqueued: "driven lim (x, st) \<Longrightarrow> enqueue st rq = Inr (st', i) \<Longrightarrow> driven lim (x', st')"
| defined: "driven lim (x, st) \<Longrightarrow> enqueue_definition st d = Inr (st', is) \<Longrightarrow> driven lim (x', st')"
| ran: "driven lim (x, st) \<Longrightarrow> run exec x st = Inr (x', st') \<Longrightarrow> driven lim (x', st')"

lemma scheduler_with_limits_inv: "full_inv (scheduler_with_limits lim)"
  by (simp add: full_inv_def scheduler_inv_def graph_ok_def edges_ok_def ready_ok_def recoveries_ok_def
      order_ok_def budget_ok_def quiet_def admitted_def scheduler_with_limits_def)

lemma run_limits: "run exec x st = Inr (x', st') \<Longrightarrow> sc_limits st' = sc_limits st"
proof (induction exec x st rule: run.induct)
  case (1 exec x st)
  from "1.prems" obtain st1 o' where n: "next_ready st = Inr (st1, o')"
    by (subst (asm) run.simps) (auto split: sum.splits)
  have l1: "sc_limits st1 = sc_limits st" using next_ready_budget [OF n] by simp
  show ?case
  proof (cases o')
    case None
    with "1.prems" n l1 show ?thesis by (subst (asm) run.simps) simp
  next
    case (Some i)
    with "1.prems" n obtain w y res result st2 where s: "vget (sc_work st1) i = Some w"
      "exec x w (resources_new (sc_limits st1)) = (y, res, result)" "finish_execution st1 i res result = Inr st2"
      "run exec y st2 = Inr (x', st')"
      by (subst (asm) run.simps) (auto split: option.splits prod.splits sum.splits)
    have "sc_limits st' = sc_limits st2"
      using "1.IH" [OF n refl Some s(1) s(2) [symmetric] refl s(3) s(4)] .
    also have "\<dots> = sc_limits st1" using finish_execution_budget [OF s(3)] by (simp add: same_budget_def)
    finally show ?thesis using l1 by simp
  qed
qed

lemma driven_inv:
  assumes "driven lim (x, st)"
  shows "full_inv st \<and> idle st \<and> sc_limits st = lim"
  using assms
proof (induction "(x, st)" arbitrary: x st rule: driven.induct)
  case created
  show ?case using scheduler_with_limits_inv [of lim] by (simp add: idle_def scheduler_with_limits_def)
next
  case (enqueued x st rq st' i x')
  have "yields (\<lambda>(st', i). advances {} st st' \<and> i < work_count st') (enqueue st rq)"
    unfolding enqueue_def using enqueued by (intro enqueue_internal_advances) simp_all
  then have a: "advances {} st st'" using enqueued by simp
  with enqueued idle_advances [OF _ a] show ?case by (auto simp: advances_def dest: evolvesD(2))
next
  case (defined x st d st' "is" x')
  have "yields (\<lambda>(st', is). advances {} st st') (enqueue_definition st d)"
    unfolding enqueue_definition_def using defined by (intro enqueue_definition_after_advances) simp_all
  then have a: "advances {} st st'" using defined by simp
  with defined idle_advances [OF _ a] show ?case by (auto simp: advances_def dest: evolvesD(2))
next
  case (ran x st exec x' st')
  have "yields (\<lambda>(x', st'). full_inv st' \<and> finished st' \<and> work_count st \<le> work_count st') (run exec x st)"
    using ran by (intro run_yields) simp_all
  then have f: "full_inv st'" "finished st'" using ran by simp_all
  moreover have "idle st'" using f(2) by (auto simp: finished_def idle_def)
  ultimately show ?case using run_limits [OF ran(3)] ran by simp
qed

section \<open>Facts of one state\<close>

lemma sorted_ready_least:
  assumes "ready_ok st" "sc_ready st = key # rest" "i < work_count st" "state_at st i = Ready"
  shows "key \<le> key_at st i"
proof -
  have "key_at st i \<in> set (key # rest)" using assms unfolding ready_ok_def by (metis (mono_tags, lifting) imageI mem_Collect_eq)
  then show ?thesis using assms(1,2) by (auto simp: ready_ok_def)
qed

lemma recovered_dependency:
  assumes "full_inv st" "idle st" "i < work_count st" "d \<in> set (deps_at st i)" "is_recovered (state_at st d)"
  shows "is_recovered (state_at st i)"
proof -
  have si: "scheduler_inv st" using assms(1) by (simp add: full_inv_def)
  have "state_at st i \<notin> {Ready, Active, Completed}"
    using order_ok_dep_Completed [OF si assms(3) _ assms(4)] assms(5) by auto
  moreover have "state_at st i \<noteq> Pending"
    using assms by (auto simp: full_inv_def quiet_def waiting_def)
  ultimately show ?thesis by (cases "state_at st i") auto
qed

lemma next_ready_selects:
  assumes "full_inv st" "next_ready st = Inr (st', Some i)"
  obtains rest where "sc_ready st = key_at st i # rest" "i < work_count st" "state_at st i = Ready"
    "st' = set_state i Active
       (st\<lparr>sc_ready := rest, sc_usage := (sc_usage st)\<lparr>us_executions := us_executions (sc_usage st) + 1\<rparr>\<rparr>)"
proof -
  have rk: "ready_ok st" using assms(1) by (simp add: full_inv_def scheduler_inv_def)
  obtain key rest where k: "sc_ready st = key # rest"
    using assms(2) by (subst (asm) next_ready.simps) (auto split: list.splits)
  then obtain j where j: "key = key_at st j" "j < work_count st" "state_at st j = Ready"
    using rk unfolding ready_ok_def by (metis (mono_tags, lifting) image_iff list.set_intros(1) mem_Collect_eq)
  have sj: "snd (key_at st j) = j" by (simp add: key_at_def)
  have bud: "\<not> lim_executions (sc_limits st) \<le> us_executions (sc_usage st)"
    using next_ready_budget [OF assms(2)] by simp
  have "next_ready st = Inr (set_state j Active
       (st\<lparr>sc_ready := rest, sc_usage := (sc_usage st)\<lparr>us_executions := us_executions (sc_usage st) + 1\<rparr>\<rparr>), Some j)"
    using k j bud sj by (subst next_ready.simps) (simp add: Let_def state_at_def)
  with assms(2) have "st' = set_state j Active
       (st\<lparr>sc_ready := rest, sc_usage := (sc_usage st)\<lparr>us_executions := us_executions (sc_usage st) + 1\<rparr>\<rparr>)" "i = j"
    by auto
  with k j show thesis by (intro that [of rest]) simp_all
qed

section \<open>Histories\<close>

text \<open>
  What happened to a scheduler, told from outside: the work that was started, newest first, and the outputs by which work
  was completed. A run starts ready work, hands it to the executor and ends it with the meter and result that come back.
\<close>

inductive history ::
  "expansion_limits \<Rightarrow> scheduler \<Rightarrow> work_id list \<Rightarrow> (work_id \<times> scheduled_output) list \<Rightarrow> bool" for lim where
  created: "history lim (scheduler_with_limits lim) [] []"
| enqueued: "history lim st started outs \<Longrightarrow> enqueue st rq = Inr (st', i) \<Longrightarrow> history lim st' started outs"
| defined: "history lim st started outs \<Longrightarrow> enqueue_definition st d = Inr (st', is) \<Longrightarrow> history lim st' started outs"
| drained: "history lim st started outs \<Longrightarrow> next_ready st = Inr (st', None) \<Longrightarrow> history lim st' started outs"
| took: "history lim st started outs \<Longrightarrow> next_ready st = Inr (st', Some i) \<Longrightarrow> history lim st' (i # started) outs"
| failed: "history lim st started outs \<Longrightarrow> finish_execution st i res result = Inr st' \<Longrightarrow> \<not> completed st' i \<Longrightarrow>
    history lim st' started outs"
| ended: "history lim st started outs \<Longrightarrow> finish_execution st i res (Inr out) = Inr st' \<Longrightarrow> completed st' i \<Longrightarrow>
    history lim st' started ((i, out) # outs)"

lemma run_history:
  "run exec x st = Inr (x', st') \<Longrightarrow> history lim st started outs \<Longrightarrow> \<exists>started' outs'. history lim st' started' outs'"
proof (induction exec x st arbitrary: started outs rule: run.induct)
  case (1 exec x st)
  from "1.prems"(1) obtain st1 o' where n: "next_ready st = Inr (st1, o')"
    by (subst (asm) run.simps) (auto split: sum.splits)
  show ?case
  proof (cases o')
    case None
    with "1.prems" n show ?thesis by (subst (asm) run.simps) (auto intro: history.drained)
  next
    case (Some i)
    with "1.prems" n obtain w y res result st2 where s: "vget (sc_work st1) i = Some w"
      "exec x w (resources_new (sc_limits st1)) = (y, res, result)" "finish_execution st1 i res result = Inr st2"
      "run exec y st2 = Inr (x', st')"
      by (subst (asm) run.simps) (auto split: option.splits prod.splits sum.splits)
    have h: "history lim st1 (i # started) outs" using history.took "1.prems"(2) n Some by blast
    have "\<exists>outs2. history lim st2 (i # started) outs2"
    proof (cases "completed st2 i")
      case True
      have "\<not> completed st1 i" using finish_execution_active [OF s(3)] by (simp add: completed_def)
      with finish_execution_counts [OF s(3)] True obtain out where "result = Inr out"
        by (auto simp: same_usage_def split: sum.splits)
      with h s(3) True show ?thesis by (blast intro: history.ended)
    qed (use h s(3) in \<open>blast intro: history.failed\<close>)
    then show ?thesis using "1.IH" [OF n refl Some s(1) s(2) [symmetric] refl s(3) s(4)] by blast
  qed
qed

lemma driven_history: "driven lim (x, st) \<Longrightarrow> \<exists>started outs. history lim st started outs"
proof (induction "(x, st)" arbitrary: x st rule: driven.induct)
  case (ran x st exec x' st')
  then obtain started outs where "history lim st started outs" by blast
  then show ?case by (rule run_history [OF ran(3)])
qed (blast intro: history.intros)+

definition counted :: "expansion_limits \<Rightarrow> scheduler \<Rightarrow> work_id list \<Rightarrow> (work_id \<times> scheduled_output) list \<Rightarrow> bool" where
  "counted lim st started outs \<longleftrightarrow>
     sc_limits st = lim
     \<and> us_executions (sc_usage st) = length started \<and> length started \<le> lim_executions lim
     \<and> us_generated_nodes (sc_usage st) = (\<Sum>(i, out)\<leftarrow>outs. so_generated_nodes out)
     \<and> (\<Sum>(i, out)\<leftarrow>outs. so_generated_nodes out) \<le> lim_generated_nodes lim
     \<and> distinct (map fst outs) \<and> set (map fst outs) = {i. completed st i}"

lemma counted_same: "counted lim st started outs \<Longrightarrow> same_usage st st' \<Longrightarrow> counted lim st' started outs"
  by (simp add: counted_def same_usage_def same_budget_def)

lemma counted_next: "counted lim st started outs \<Longrightarrow> next_ready st = Inr (st', r) \<Longrightarrow>
    counted lim st' (case r of None \<Rightarrow> started | Some i \<Rightarrow> i # started) outs"
  by (drule next_ready_budget) (auto simp: counted_def split: option.splits)

lemma counted_output:
  assumes "counted lim st started outs" "counts st i out st'"
  shows "counted lim st' started (if completed st' i then (i, out) # outs else outs)"
proof -
  have "{j. completed st' j} = {j. completed st j} \<union> (if completed st' i then {i} else {})"
    using assms(2) by (auto simp: counts_def split: if_splits)
  then show ?thesis using assms by (auto simp: counted_def counts_def same_budget_def)
qed

lemma history_counted: "history lim st started outs \<Longrightarrow> counted lim st started outs"
proof (induction rule: history.induct)
  case created
  show ?case by (simp add: counted_def scheduler_with_limits_def completed_def)
next
  case (enqueued st started outs rq st' i)
  then show ?case unfolding enqueue_def by (blast intro: counted_same enqueue_internal_usage)
next
  case (defined st started outs d st' "is")
  then show ?case unfolding enqueue_definition_def by (blast intro: counted_same enqueue_definition_after_usage)
next
  case (drained st started outs st')
  then show ?case using counted_next by fastforce
next
  case (took st started outs st' i)
  then show ?case using counted_next by fastforce
next
  case (failed st started outs i res result st')
  then show ?case
    using finish_execution_counts [OF failed(2)] counted_output [of lim st started outs i _ st']
    by (cases result) (auto intro: counted_same)
next
  case (ended st started outs i res out st')
  then show ?case
    using finish_execution_counts [OF ended(2)] counted_output [of lim st started outs i out st'] by simp
qed

section \<open>Properties\<close>

text \<open>C17: a run ends: whatever the executor does, it either aborts with an overflow of the work
  identities or on output the source asserts against, or every scheduled work, given or generated,
  is completed or recovered. With an executor that respects the stages and reasons only the
  overflow is left.\<close>

theorem run_settles_everything:
  assumes "driven lim (x, st)"
  shows "(\<exists>x' st'. run exec x st = Inr (x', st') \<and> (\<forall>i<length (sc_work st'). is_settled (se_state (sc_work st' ! i)))
            \<and> length (sc_work st) \<le> length (sc_work st'))
       \<or> run exec x st = Inl Overflow
       \<or> run exec x st \<in> {Inl BadRole, Inl BadReason} \<and> \<not> well_behaved exec"
proof -
  have y: "yields (\<lambda>(x', st'). full_inv st' \<and> finished st' \<and> work_count st \<le> work_count st') (run exec x st)"
    using driven_inv [OF assms] by (intro run_yields) simp_all
  show ?thesis
  proof (cases "run exec x st")
    case (Inl f)
    with y run_internal [OF Inl] show ?thesis by (auto simp: internal_def)
  next
    case (Inr r)
    with y show ?thesis by (auto simp: finished_def state_at_def)
  qed
qed

text \<open>C18: recovery propagates: in every scheduler a client can hold, work that depends on recovered
  work is itself recovered, and work that is completed, or ready to run, has all its prerequisites
  completed.\<close>

theorem prerequisites_respected:
  assumes "driven lim (x, st)" "i < length (sc_work st)" "d \<in> set (se_dependencies (sc_work st ! i))"
  shows "(is_recovered (se_state (sc_work st ! d)) \<longrightarrow> is_recovered (se_state (sc_work st ! i)))
       \<and> (se_state (sc_work st ! i) \<in> {Ready, Completed} \<longrightarrow> se_state (sc_work st ! d) = Completed)"
  using driven_inv [OF assms(1)] assms(2,3) recovered_dependency [of st i d] order_ok_dep_Completed [of st i d]
  by (auto simp: full_inv_def state_at_def deps_at_def)

text \<open>C19: no re-entry: work that is not recovered lies within the depth limit and repeats neither the
  declaration, role and input of the work it was generated from, nor those of any ancestor.\<close>

theorem no_active_reentry:
  assumes "driven lim (x, st)" "i < length (sc_work st)" "\<not> is_recovered (se_state (sc_work st ! i))"
  shows "se_depth (sc_work st ! i) \<le> lim_active_depth lim
       \<and> (\<forall>a. ancestor st a i \<longrightarrow> \<not> repeats (se_request (sc_work st ! i)) (se_request (sc_work st ! a)))"
  using driven_inv [OF assms(1)] assms(2,3) by (auto simp: full_inv_def admitted_def fresh_def state_at_def)

text \<open>C25: the budgets hold of what really happened. Every scheduler a client can hold has a history, and in each of its
  histories the work started is no more than the execution limit, the nodes of all outputs accepted together are no more
  than the node limit, every completed work has exactly one accepted output, and the counters say these numbers.\<close>

theorem budgets_kept:
  assumes "driven lim (x, st)"
  shows "(\<exists>started outs. history lim st started outs)
    \<and> (\<forall>started outs. history lim st started outs \<longrightarrow>
         length started \<le> lim_executions lim
         \<and> (\<Sum>(i, out)\<leftarrow>outs. so_generated_nodes out) \<le> lim_generated_nodes lim
         \<and> distinct (map fst outs)
         \<and> set (map fst outs) = {i. i < length (sc_work st) \<and> se_state (sc_work st ! i) = Completed}
         \<and> us_executions (sc_usage st) = length started
         \<and> us_generated_nodes (sc_usage st) = (\<Sum>(i, out)\<leftarrow>outs. so_generated_nodes out))"
proof (intro conjI allI impI)
  show "\<exists>started outs. history lim st started outs" by (rule driven_history [OF assms])
qed (use history_counted in \<open>fastforce simp: counted_def completed_def\<close>)+


section \<open>A concrete client\<close>

text \<open>An executor that generates its own request again from declaration 1, a deeper one from 0.\<close>

definition sample_request :: "nat \<Rightarrow> nat \<Rightarrow> expansion_request" where
  "sample_request n off =
     \<lparr>rq_declaration = n, rq_role = RoleItems, rq_input = [], rq_location = location_physical [''p''] [] off,
      rq_invocation = 0, rq_definition = 0\<rparr>"

definition sample_executor :: "nat executor" where
  "sample_executor x w r =
     (x + 1, r, Inr \<lparr>so_generated_nodes = 1,
        so_invocations = (if rq_declaration (se_request w) \<le> 1 then [sample_request 1 x] else []),
        so_definitions = []\<rparr>)"

definition sample_limits :: expansion_limits where
  "sample_limits = \<lparr>lim_active_depth = 3, lim_executions = 5, lim_generated_nodes = 4,
     lim_interpreter_steps = 10, lim_live_value_bytes = 10\<rparr>"

definition result_of :: "'a \<Rightarrow> failure + 'a \<times> 'b \<Rightarrow> 'a" where
  "result_of a r = (case r of Inl f \<Rightarrow> a | Inr (st, b) \<Rightarrow> st)"

definition sample_one :: scheduler where
  "sample_one = result_of (scheduler_with_limits sample_limits)
     (enqueue (scheduler_with_limits sample_limits) (sample_request 7 9))"

definition sample_start :: scheduler where
  "sample_start = result_of sample_one (enqueue sample_one (sample_request 0 4))"

definition sample_end :: scheduler where
  "sample_end = (case run sample_executor 0 sample_start of Inl f \<Rightarrow> sample_start | Inr (x, st) \<Rightarrow> st)"

lemma sample_driven: "driven sample_limits (0::nat, sample_start)"
proof -
  have "enqueue (scheduler_with_limits sample_limits) (sample_request 7 9) = Inr (sample_one, 0)"
    "enqueue sample_one (sample_request 0 4) = Inr (sample_start, 1)" by code_simp+
  then show ?thesis by (blast intro: driven.intros)
qed

lemma sample_end_driven: "driven sample_limits (3::nat, sample_end)"
proof -
  have "run sample_executor 0 sample_start = Inr (3, sample_end)" by code_simp
  then show ?thesis by (rule driven.ran [OF sample_driven])
qed

theorem run_settles_everything_witness:
  "(\<exists>x' st'. run sample_executor 0 sample_start = Inr (x', st')
      \<and> (\<forall>i<length (sc_work st'). is_settled (se_state (sc_work st' ! i)))
      \<and> length (sc_work sample_start) \<le> length (sc_work st'))
   \<and> length (sc_work sample_start) = 2 \<and> length (sc_work sample_end) = 4"
proof -
  have "run sample_executor 0 sample_start = Inr (3, sample_end)"
    "length (sc_work sample_start) = 2" "length (sc_work sample_end) = 4" by code_simp+
  with run_settles_everything [OF sample_driven, of sample_executor] show ?thesis by simp
qed

theorem prerequisites_respected_witness:
  "is_recovered (se_state (sc_work sample_end ! 3)) \<and> se_state (sc_work sample_end ! 1) = Completed"
proof -
  have "se_state (sc_work sample_end ! 2) = Completed" "2 < length (sc_work sample_end)"
    "1 \<in> set (se_dependencies (sc_work sample_end ! 2))" "is_recovered (se_state (sc_work sample_end ! 3))"
    by code_simp+
  with prerequisites_respected [OF sample_end_driven, of 2 1] show ?thesis by simp
qed

theorem no_active_reentry_witness:
  "se_depth (sc_work sample_end ! 2) \<le> 3
   \<and> \<not> repeats (se_request (sc_work sample_end ! 2)) (se_request (sc_work sample_end ! 1))"
proof -
  have "\<not> is_recovered (se_state (sc_work sample_end ! 2))" "2 < length (sc_work sample_end)"
    "se_parent (sc_work sample_end ! 2) = Some 1" "lim_active_depth sample_limits = 3" by code_simp+
  with no_active_reentry [OF sample_end_driven, of 2] show ?thesis by (auto intro: ancestor.parent)
qed

theorem budgets_kept_witness:
  "\<exists>started outs. history sample_limits sample_end started outs \<and> length started = 3
     \<and> (\<Sum>(i, out)\<leftarrow>outs. so_generated_nodes out) = 3 \<and> set (map fst outs) = {0, 1, 2}"
proof -
  have c: "us_executions (sc_usage sample_end) = 3" "us_generated_nodes (sc_usage sample_end) = 3"
    "map (\<lambda>w. se_state w = Completed) (sc_work sample_end) = [True, True, True, False]" by code_simp+
  then have "{i. i < length (sc_work sample_end) \<and> se_state (sc_work sample_end ! i) = Completed} = {0, 1, 2}"
    by (auto simp: map_eq_Cons_conv less_Suc_eq numeral_eq_Suc nth_Cons split: nat.splits)
  with c budgets_kept [OF sample_end_driven] show ?thesis by metis
qed


end
