(* ===== verification/Type_Context.thy ===== *)
theory Type_Context
  imports Syntax_Tree "HOL-Library.Monad_Syntax"
begin

text \<open>
  Canonical types: \<^verbatim>\<open>src/types/context.rs\<close>. A type is an index into an arena of interned kinds;
  inference variables are bound in a table beside it. \<open>None\<close> is the outcome of code that does not
  return: an index out of range, an \<open>expect\<close> on a full arena, or the fuel of a recursion used up
  (the proofs give fuel that is enough for every arena the operations build).
\<close>

section \<open>Kinds\<close>

type_synonym type_id = nat
type_synonym inference_variable_id = nat
type_synonym declaration_id = nat
type_synonym builtin_id = nat
type_synonym generic_parameter_id = nat

datatype primitive_type =
  PUnit | PBool | PChar | PI8 | PI16 | PI32 | PI64 | PI128 | PIsize
  | PU8 | PU16 | PU32 | PU64 | PU128 | PUsize | PF32 | PF64 | PStr | PString

definition is_integer :: "primitive_type \<Rightarrow> bool" where
  "is_integer p \<longleftrightarrow> p \<in> {PI8, PI16, PI32, PI64, PI128, PIsize, PU8, PU16, PU32, PU64, PU128, PUsize}"

definition is_unsigned_integer :: "primitive_type \<Rightarrow> bool" where
  "is_unsigned_integer p \<longleftrightarrow> p \<in> {PU8, PU16, PU32, PU64, PU128, PUsize}"

definition is_float :: "primitive_type \<Rightarrow> bool" where
  "is_float p \<longleftrightarrow> p \<in> {PF32, PF64}"

datatype mutability = Shared | Mutable
datatype safety = Safe | Unsafe
datatype abi = AbiElamite | AbiC | AbiUnsupported string

datatype function_parameter = FunctionParameter (fp_ty: type_id) (fp_variadic: bool)

datatype nominal_identity = NominalIdentity (ni_package: "package_id option") (ni_declaration: declaration_id)

datatype type_kind =
  TError
| TNever
| TPrimitive primitive_type
| TNominal nominal_identity "type_id list"
| TBuiltin builtin_id "type_id list"
| TTuple "type_id list"
| TArray type_id nat
| TSlice mutability type_id
| TReference mutability type_id
| TRawPointer mutability type_id
| TFunction safety abi "type_id option" "function_parameter list" type_id
| TTraitObject type_id
| TClosure declaration_id "type_id list" "type_id list" type_id
| TForeign nominal_identity bool
| TAlias declaration_id "type_id list" type_id
| TGenericParameter generic_parameter_id
| TSelfType declaration_id
| TInferenceVariable inference_variable_id

text \<open>A \<open>BTreeMap\<close> that is only read by key and extended, as a finite map.\<close>

type_synonym substitution = "generic_parameter_id \<rightharpoonup> type_id"

datatype expected_type = ExpectedNone | ExpectedExact type_id

datatype type_mismatch = TypeMismatch (tm_left: type_id) (tm_right: type_id)

record type_context =
  tc_kinds :: "type_kind list"
  tc_interned :: "type_kind \<rightharpoonup> type_id"
  tc_bindings :: "type_id option list"

section \<open>Children\<close>

fun type_children :: "type_kind \<Rightarrow> type_id list" where
  "type_children (TNominal i args) = args"
| "type_children (TBuiltin b args) = args"
| "type_children (TTuple args) = args"
| "type_children (TAlias d args target) = args @ [target]"
| "type_children (TArray element n) = [element]"
| "type_children (TSlice m element) = [element]"
| "type_children (TTraitObject trait_type) = [trait_type]"
| "type_children (TReference m target) = [target]"
| "type_children (TRawPointer m target) = [target]"
| "type_children (TFunction s a receiver parameters return_type) =
     (case receiver of None \<Rightarrow> [] | Some r \<Rightarrow> [r]) @ map fp_ty parameters @ [return_type]"
| "type_children (TClosure d captures parameters return_type) = captures @ parameters @ [return_type]"
| "type_children TError = []"
| "type_children TNever = []"
| "type_children (TPrimitive p) = []"
| "type_children (TForeign i complete) = []"
| "type_children (TGenericParameter g) = []"
| "type_children (TSelfType d) = []"
| "type_children (TInferenceVariable v) = []"

text \<open>The kind with its children replaced; the list has one entry per child.\<close>

fun with_children :: "type_kind \<Rightarrow> type_id list \<Rightarrow> type_kind" where
  "with_children (TNominal i args) cs = TNominal i cs"
| "with_children (TBuiltin b args) cs = TBuiltin b cs"
| "with_children (TTuple args) cs = TTuple cs"
| "with_children (TAlias d args target) cs = TAlias d (butlast cs) (last cs)"
| "with_children (TArray element n) cs = TArray (hd cs) n"
| "with_children (TSlice m element) cs = TSlice m (hd cs)"
| "with_children (TTraitObject trait_type) cs = TTraitObject (hd cs)"
| "with_children (TReference m target) cs = TReference m (hd cs)"
| "with_children (TRawPointer m target) cs = TRawPointer m (hd cs)"
| "with_children (TFunction s a receiver parameters return_type) cs =
     (let rest = (case receiver of None \<Rightarrow> cs | Some r \<Rightarrow> tl cs) in
      TFunction s a (map_option (\<lambda>r. hd cs) receiver)
        (map (\<lambda>(p, ty). FunctionParameter ty (fp_variadic p)) (zip parameters (butlast rest)))
        (last rest))"
| "with_children (TClosure d captures parameters return_type) cs =
     TClosure d (take (length captures) cs) (butlast (drop (length captures) cs)) (last cs)"
| "with_children kind cs = kind"

definition map_type_children ::
  "('s \<Rightarrow> type_id \<Rightarrow> ('s \<times> type_id) option) \<Rightarrow> 's \<Rightarrow> type_kind \<Rightarrow> ('s \<times> type_kind) option" where
  "map_type_children f s kind =
     (case map_state f s (type_children kind) of
        None \<Rightarrow> None
      | Some (s', cs) \<Rightarrow> Some (s', with_children kind cs))"

definition type_discriminants_equal :: "type_kind \<Rightarrow> type_kind \<Rightarrow> bool" where
  "type_discriminants_equal left right =
     (case left of
        TPrimitive l \<Rightarrow> (case right of TPrimitive r \<Rightarrow> l = r | _ \<Rightarrow> False)
      | TNominal l xs \<Rightarrow> (case right of TNominal r ys \<Rightarrow> l = r | _ \<Rightarrow> False)
      | TBuiltin l xs \<Rightarrow> (case right of TBuiltin r ys \<Rightarrow> l = r | _ \<Rightarrow> False)
      | TTuple xs \<Rightarrow> (case right of TTuple ys \<Rightarrow> length xs = length ys | _ \<Rightarrow> False)
      | TArray x m \<Rightarrow> (case right of TArray y n \<Rightarrow> m = n | _ \<Rightarrow> False)
      | TSlice l x \<Rightarrow> (case right of TSlice r y \<Rightarrow> l = r | _ \<Rightarrow> False)
      | TTraitObject x \<Rightarrow> (case right of TTraitObject y \<Rightarrow> True | _ \<Rightarrow> False)
      | TError \<Rightarrow> right = TError
      | TNever \<Rightarrow> right = TNever
      | TReference l x \<Rightarrow> (case right of TReference r y \<Rightarrow> l = r | _ \<Rightarrow> False)
      | TRawPointer l x \<Rightarrow> (case right of TRawPointer r y \<Rightarrow> l = r | _ \<Rightarrow> False)
      | TFunction ls la lr lp lt \<Rightarrow>
          (case right of
             TFunction rs ra rr rp rt \<Rightarrow>
               ls = rs \<and> la = ra \<and> (lr \<noteq> None) = (rr \<noteq> None) \<and> length lp = length rp
               \<and> list_all (\<lambda>(l, r). fp_variadic l = fp_variadic r) (zip lp rp)
           | _ \<Rightarrow> False)
      | TClosure l cs ps t \<Rightarrow> (case right of TClosure r cs' ps' t' \<Rightarrow> l = r | _ \<Rightarrow> False)
      | TForeign l c \<Rightarrow> (case right of TForeign r d \<Rightarrow> l = r \<and> c = d | _ \<Rightarrow> False)
      | TGenericParameter l \<Rightarrow> right = TGenericParameter l
      | TSelfType l \<Rightarrow> right = TSelfType l
      | TInferenceVariable l \<Rightarrow> right = TInferenceVariable l
      | TAlias d xs t \<Rightarrow> False)"

text \<open>The variants \<open>same_outer_shape\<close> pairs up: equal constructors, aliases excepted.\<close>

fun variant :: "type_kind \<Rightarrow> nat" where
  "variant TError = 0" | "variant TNever = 1" | "variant (TPrimitive p) = 2" | "variant (TNominal i a) = 3"
| "variant (TBuiltin b a) = 4" | "variant (TTuple a) = 5" | "variant (TArray e n) = 6" | "variant (TSlice m e) = 7"
| "variant (TReference m t) = 8" | "variant (TRawPointer m t) = 9" | "variant (TFunction s a r p t) = 10"
| "variant (TTraitObject t) = 11" | "variant (TClosure d c p t) = 12" | "variant (TForeign i c) = 13"
| "variant (TAlias d a t) = 14" | "variant (TGenericParameter g) = 15" | "variant (TSelfType d) = 16"
| "variant (TInferenceVariable v) = 17"

definition same_outer_shape :: "type_kind \<Rightarrow> type_kind \<Rightarrow> bool" where
  "same_outer_shape left right \<longleftrightarrow>
     variant left = variant right \<and> variant left \<noteq> 14 \<and> type_discriminants_equal left right"

definition paired_children :: "type_kind \<Rightarrow> type_kind \<Rightarrow> (type_id \<times> type_id) list" where
  "paired_children left right = zip (type_children left) (type_children right)"

section \<open>The arena\<close>

definition kind_at :: "type_context \<Rightarrow> type_id \<Rightarrow> type_kind option" where
  "kind_at ctx ty = vget (tc_kinds ctx) ty"

definition id_at :: "type_context \<Rightarrow> nat \<Rightarrow> type_id option" where
  "id_at ctx i = (if i < length (tc_kinds ctx) then u32_try_from i else None)"

definition id_for_kind :: "type_context \<Rightarrow> type_kind \<Rightarrow> type_id option" where
  "id_for_kind ctx kind = tc_interned ctx kind"

definition intern :: "type_context \<Rightarrow> type_kind \<Rightarrow> (type_context \<times> type_id) option" where
  "intern ctx kind =
     (case tc_interned ctx kind of
        Some existing \<Rightarrow> Some (ctx, existing)
      | None \<Rightarrow>
          (case u32_try_from (length (tc_kinds ctx)) of
             None \<Rightarrow> None
           | Some i \<Rightarrow> Some (ctx\<lparr>tc_kinds := tc_kinds ctx @ [kind], tc_interned := (tc_interned ctx)(kind \<mapsto> i)\<rparr>, i)))"

definition initial_kinds :: "type_kind list" where
  "initial_kinds =
     [TError, TNever] @ map TPrimitive
       [PUnit, PBool, PChar, PI8, PI16, PI32, PI64, PI128, PIsize, PU8, PU16, PU32, PU64, PU128, PUsize, PF32, PF64,
        PStr, PString]"

definition context_new :: "type_context option" where
  "context_new =
     map_option fst (map_state intern \<lparr>tc_kinds = [], tc_interned = Map.empty, tc_bindings = []\<rparr> initial_kinds)"

definition error_type :: type_id where
  "error_type = 0"

definition never :: "type_context \<Rightarrow> type_id option" where
  "never ctx = tc_interned ctx TNever"

definition primitive :: "type_context \<Rightarrow> primitive_type \<Rightarrow> (type_context \<times> type_id) option" where
  "primitive ctx p = intern ctx (TPrimitive p)"

definition primitive_id :: "type_context \<Rightarrow> primitive_type \<Rightarrow> type_id option" where
  "primitive_id ctx p = tc_interned ctx (TPrimitive p)"

definition fresh_inference_variable :: "type_context \<Rightarrow> (type_context \<times> type_id) option" where
  "fresh_inference_variable ctx =
     (case u32_try_from (length (tc_bindings ctx)) of
        None \<Rightarrow> None
      | Some v \<Rightarrow> intern (ctx\<lparr>tc_bindings := tc_bindings ctx @ [None]\<rparr>) (TInferenceVariable v))"

lemma unseen_less:
  "v < n \<Longrightarrow> v \<notin> S \<Longrightarrow> card ({..<n} - insert v S) < card ({..<(n::nat)} - S)"
  by (rule psubset_card_mono) auto

text \<open>The loop of \<open>resolve_inference\<close>; every round sees a new variable of the table.\<close>

function resolve_from :: "type_context \<Rightarrow> inference_variable_id list \<Rightarrow> type_id \<Rightarrow> type_id option" where
  "resolve_from ctx seen ty =
     (case kind_at ctx ty of
        None \<Rightarrow> None
      | Some (TInferenceVariable v) \<Rightarrow>
          if v \<in> set seen then Some error_type
          else
            (case vget (tc_bindings ctx) v of
               None \<Rightarrow> None
             | Some None \<Rightarrow> Some ty
             | Some (Some bound) \<Rightarrow> resolve_from ctx (v # seen) bound)
      | Some k \<Rightarrow> Some ty)"
  by pat_completeness auto

termination
  by (relation "measure (\<lambda>(ctx, seen, ty). card ({..<length (tc_bindings ctx)} - set seen))")
    (auto intro!: unseen_less dest!: vget_SomeD)

declare resolve_from.simps [simp del]

definition resolve_inference :: "type_context \<Rightarrow> type_id \<Rightarrow> type_id option" where
  "resolve_inference ctx ty = resolve_from ctx [] ty"

section \<open>Searching\<close>

text \<open>
  \<open>any_type\<close>, \<open>contains_type\<close> and \<open>contains_inference\<close> thread one set of visited types through a
  depth-first search that stops at the first hit; here its call stack is a list.
\<close>

function search ::
  "type_context \<Rightarrow> (type_id \<Rightarrow> type_kind \<Rightarrow> bool) \<Rightarrow> type_id list \<Rightarrow> type_id list \<Rightarrow> bool option" where
  "search ctx P seen [] = Some False"
| "search ctx P seen (x # xs) =
     (case resolve_inference ctx x of
        None \<Rightarrow> None
      | Some ty \<Rightarrow>
          if ty \<in> set seen then search ctx P seen xs
          else
            (case kind_at ctx ty of
               None \<Rightarrow> None
             | Some kind \<Rightarrow>
                 if P ty kind then Some True else search ctx P (ty # seen) (type_children kind @ xs)))"
  by pat_completeness auto
termination
  by (relation "measures [\<lambda>(ctx, P, seen, xs). card ({..<length (tc_kinds ctx)} - set seen), \<lambda>(ctx, P, seen, xs). length xs]")
    (auto simp: kind_at_def intro!: unseen_less dest!: vget_SomeD)

declare search.simps(2) [simp del]

definition any_type :: "type_context \<Rightarrow> (type_kind \<Rightarrow> bool) \<Rightarrow> type_id \<Rightarrow> bool option" where
  "any_type ctx P ty = search ctx (\<lambda>i. P) [] [ty]"

definition contains_inference :: "type_context \<Rightarrow> type_id \<Rightarrow> inference_variable_id \<Rightarrow> bool option" where
  "contains_inference ctx ty needle = search ctx (\<lambda>i k. k = TInferenceVariable needle) [] [ty]"

definition contains_type :: "type_context \<Rightarrow> type_id \<Rightarrow> type_id \<Rightarrow> bool option" where
  "contains_type ctx outer needle =
     (case resolve_inference ctx needle of
        None \<Rightarrow> None
      | Some n \<Rightarrow> search ctx (\<lambda>i k. i = n) [] [outer])"

definition mentions_self :: "type_context \<Rightarrow> type_id \<Rightarrow> bool option" where
  "mentions_self ctx = any_type ctx (\<lambda>k. case k of TSelfType d \<Rightarrow> True | _ \<Rightarrow> False)"

definition contains_explicit_alias :: "type_context \<Rightarrow> type_id \<Rightarrow> bool option" where
  "contains_explicit_alias ctx = any_type ctx (\<lambda>k. case k of TAlias d a t \<Rightarrow> True | _ \<Rightarrow> False)"

definition is_function_at :: "type_context \<Rightarrow> type_id \<Rightarrow> bool" where
  "is_function_at ctx t = (case kind_at ctx t of Some (TFunction s a r p q) \<Rightarrow> True | _ \<Rightarrow> False)"

definition contains_managed_reference :: "type_context \<Rightarrow> type_id \<Rightarrow> bool option" where
  "contains_managed_reference ctx =
     any_type ctx (\<lambda>k. case k of TReference m t \<Rightarrow> \<not> is_function_at ctx t | _ \<Rightarrow> False)"

definition contains_generic_parameter :: "type_context \<Rightarrow> type_id \<Rightarrow> bool option" where
  "contains_generic_parameter ctx =
     any_type ctx (\<lambda>k. case k of TGenericParameter g \<Rightarrow> True | TSelfType d \<Rightarrow> True | TInferenceVariable v \<Rightarrow> True | _ \<Rightarrow> False)"

definition mentions_generic_parameter :: "type_context \<Rightarrow> type_id \<Rightarrow> generic_parameter_id \<Rightarrow> bool option" where
  "mentions_generic_parameter ctx ty g = any_type ctx (\<lambda>k. k = TGenericParameter g) ty"

definition contains_mutable_indirection :: "type_context \<Rightarrow> type_id \<Rightarrow> bool option" where
  "contains_mutable_indirection ctx =
     any_type ctx (\<lambda>k. case k of TReference m t \<Rightarrow> m = Mutable | TRawPointer m t \<Rightarrow> m = Mutable | _ \<Rightarrow> False)"

section \<open>Equality\<close>

lemma unseen_pair_less:
  "p \<in> A \<Longrightarrow> finite A \<Longrightarrow> p \<notin> S \<Longrightarrow> card (A - insert p S) < card (A - S)"
  by (rule psubset_card_mono) auto

text \<open>\<open>equal_inner\<close>, its call stack a list of the pairs still to compare\<close>

definition alias_target :: "type_kind \<Rightarrow> type_id option" where
  "alias_target k = (case k of TAlias d a t \<Rightarrow> Some t | _ \<Rightarrow> None)"

function equal_from :: "type_context \<Rightarrow> (type_id \<times> type_id) list \<Rightarrow> (type_id \<times> type_id) list \<Rightarrow> bool option" where
  "equal_from ctx seen [] = Some True"
| "equal_from ctx seen ((x, y) # ps) =
     (case (resolve_inference ctx x, resolve_inference ctx y) of
        (Some left, Some right) \<Rightarrow>
          if left = right \<or> (left, right) \<in> set seen then equal_from ctx seen ps
          else
            (case (kind_at ctx left, kind_at ctx right) of
               (Some lk, Some rk) \<Rightarrow>
                 (case alias_target lk of
                    Some target \<Rightarrow> equal_from ctx ((left, right) # seen) ((target, right) # ps)
                  | None \<Rightarrow>
                      (case alias_target rk of
                         Some target \<Rightarrow> equal_from ctx ((left, right) # seen) ((left, target) # ps)
                       | None \<Rightarrow>
                           if same_outer_shape lk rk
                           then equal_from ctx ((left, right) # seen) (paired_children lk rk @ ps)
                           else Some False))
             | _ \<Rightarrow> None)
      | _ \<Rightarrow> None)"
  by pat_completeness auto

termination
  by (relation "measures [\<lambda>(ctx, seen, ps). card ({..<length (tc_kinds ctx)} \<times> {..<length (tc_kinds ctx)} - set seen),
       \<lambda>(ctx, seen, ps). length ps]")
    (auto simp: kind_at_def intro!: unseen_pair_less dest!: vget_SomeD [OF sym])

declare equal_from.simps(2) [simp del]

definition exactly_equal :: "type_context \<Rightarrow> type_id \<Rightarrow> type_id \<Rightarrow> bool option" where
  "exactly_equal ctx left right = equal_from ctx [] [(left, right)]"

section \<open>Substitution\<close>

primrec substitute_self :: "nat \<Rightarrow> type_id \<Rightarrow> type_context \<Rightarrow> type_id \<Rightarrow> (type_context \<times> type_id) option" where
  "substitute_self 0 target ctx ty = None"
| "substitute_self (Suc fuel) target ctx ty =
     (case resolve_inference ctx ty of
        None \<Rightarrow> None
      | Some ty \<Rightarrow>
          (case kind_at ctx ty of
             None \<Rightarrow> None
           | Some (TSelfType d) \<Rightarrow> Some (ctx, target)
           | Some kind \<Rightarrow>
               (case map_type_children (substitute_self fuel target) ctx kind of
                  None \<Rightarrow> None
                | Some (ctx', replaced) \<Rightarrow> intern ctx' replaced)))"

primrec substitute :: "nat \<Rightarrow> substitution \<Rightarrow> type_context \<Rightarrow> type_id \<Rightarrow> (type_context \<times> type_id) option" where
  "substitute 0 \<sigma> ctx ty = None"
| "substitute (Suc fuel) \<sigma> ctx ty =
     (case resolve_inference ctx ty of
        None \<Rightarrow> None
      | Some ty \<Rightarrow>
          (case kind_at ctx ty of
             None \<Rightarrow> None
           | Some (TGenericParameter g) \<Rightarrow> Some (ctx, (case \<sigma> g of Some r \<Rightarrow> r | None \<Rightarrow> ty))
           | Some kind \<Rightarrow>
               (case map_type_children (substitute fuel \<sigma>) ctx kind of
                  None \<Rightarrow> None
                | Some (ctx', replaced) \<Rightarrow> intern ctx' replaced)))"

section \<open>Unification\<close>

text \<open>A failed unification keeps the bindings made before the mismatch, as the code does.\<close>

fun unify_pairs ::
  "(type_context \<Rightarrow> type_id \<Rightarrow> type_id \<Rightarrow> (type_context \<times> (type_mismatch + type_id)) option) \<Rightarrow>
   type_context \<Rightarrow> (type_id \<times> type_id) list \<Rightarrow> (type_context \<times> (type_mismatch + unit)) option" where
  "unify_pairs f ctx [] = Some (ctx, Inr ())"
| "unify_pairs f ctx ((x, y) # ps) =
     (case f ctx x y of
        None \<Rightarrow> None
      | Some (ctx', Inl m) \<Rightarrow> Some (ctx', Inl m)
      | Some (ctx', Inr ty) \<Rightarrow> unify_pairs f ctx' ps)"

definition bind_variable ::
  "type_context \<Rightarrow> inference_variable_id \<Rightarrow> type_id \<Rightarrow> type_mismatch \<Rightarrow>
   (type_context \<times> (type_mismatch + type_id)) option" where
  "bind_variable ctx v ty mismatch =
     (case contains_inference ctx ty v of
        None \<Rightarrow> None
      | Some True \<Rightarrow> Some (ctx, Inl mismatch)
      | Some False \<Rightarrow>
          if v < length (tc_bindings ctx)
          then Some (ctx\<lparr>tc_bindings := (tc_bindings ctx)[v := Some ty]\<rparr>, Inr ty)
          else None)"

definition variable_of :: "type_kind \<Rightarrow> inference_variable_id option" where
  "variable_of k = (case k of TInferenceVariable v \<Rightarrow> Some v | _ \<Rightarrow> None)"

primrec unify ::
  "nat \<Rightarrow> type_context \<Rightarrow> type_id \<Rightarrow> type_id \<Rightarrow> (type_context \<times> (type_mismatch + type_id)) option" where
  "unify 0 ctx x y = None"
| "unify (Suc fuel) ctx x y =
     (case (resolve_inference ctx x, resolve_inference ctx y) of
        (Some left, Some right) \<Rightarrow>
          if left = right \<or> left = error_type \<or> right = error_type
          then Some (ctx, Inr (if left = error_type then right else left))
          else
            (case (kind_at ctx left, kind_at ctx right) of
               (Some lk, Some rk) \<Rightarrow>
                 (case alias_target lk of
                    Some target \<Rightarrow> unify fuel ctx target right
                  | None \<Rightarrow>
                      (case alias_target rk of
                         Some target \<Rightarrow> unify fuel ctx left target
                       | None \<Rightarrow>
                           (case variable_of lk of
                              Some v \<Rightarrow> bind_variable ctx v right (TypeMismatch left right)
                            | None \<Rightarrow>
                                (case variable_of rk of
                                   Some v \<Rightarrow> bind_variable ctx v left (TypeMismatch left right)
                                 | None \<Rightarrow>
                                     if \<not> same_outer_shape lk rk then Some (ctx, Inl (TypeMismatch left right))
                                     else
                                       (case unify_pairs (unify fuel) ctx (paired_children lk rk) of
                                          None \<Rightarrow> None
                                        | Some (ctx', Inl m) \<Rightarrow> Some (ctx', Inl m)
                                        | Some (ctx', Inr u) \<Rightarrow> Some (ctx', Inr left))))))
             | _ \<Rightarrow> None)
      | _ \<Rightarrow> None)"

end
