(* ===== verification/Type_Arena.thy ===== *)
theory Type_Arena
  imports Type_Context
begin

text \<open>
  The arena of \<^verbatim>\<open>src/types/context.rs\<close> as an acyclic graph: its invariant, the first-order tree each
  type denotes, and what interning, resolution and searching compute in terms of them.
\<close>

section \<open>The graph\<close>

abbreviation type_count :: "type_context \<Rightarrow> nat" where
  "type_count ctx \<equiv> length (tc_kinds ctx)"

definition kind_of :: "type_context \<Rightarrow> type_id \<Rightarrow> type_kind" where
  "kind_of ctx i = tc_kinds ctx ! i"

definition bound_of :: "type_context \<Rightarrow> type_id \<Rightarrow> type_id option" where
  "bound_of ctx i = (case kind_of ctx i of TInferenceVariable v \<Rightarrow> tc_bindings ctx ! v | _ \<Rightarrow> None)"

definition edges :: "type_context \<Rightarrow> (type_id \<times> type_id) set" where
  "edges ctx = {(i, c). i < type_count ctx \<and> (c \<in> set (type_children (kind_of ctx i)) \<or> bound_of ctx i = Some c)}"

definition arena_ok :: "type_context \<Rightarrow> bool" where
  "arena_ok ctx \<longleftrightarrow>
     (\<forall>k i. tc_interned ctx k = Some i \<longleftrightarrow> i < type_count ctx \<and> kind_of ctx i = k)
     \<and> (\<forall>i c. (i, c) \<in> edges ctx \<longrightarrow> c < type_count ctx)
     \<and> (\<forall>i v. i < type_count ctx \<longrightarrow> kind_of ctx i = TInferenceVariable v \<longrightarrow> v < length (tc_bindings ctx))
     \<and> acyclic (edges ctx)
     \<and> take 21 (tc_kinds ctx) = initial_kinds"

lemma arena_okD:
  assumes "arena_ok ctx"
  shows "tc_interned ctx k = Some i \<longleftrightarrow> i < type_count ctx \<and> kind_of ctx i = k"
    and "(i, c) \<in> edges ctx \<Longrightarrow> c < type_count ctx"
    and "i < type_count ctx \<Longrightarrow> kind_of ctx i = TInferenceVariable v \<Longrightarrow> v < length (tc_bindings ctx)"
    and "acyclic (edges ctx)"
    and "take 21 (tc_kinds ctx) = initial_kinds"
  using assms unfolding arena_ok_def by blast+

lemma edges_source: "(i, c) \<in> edges ctx \<Longrightarrow> i < type_count ctx"
  by (simp add: edges_def)

lemma child_edge: "i < type_count ctx \<Longrightarrow> c \<in> set (type_children (kind_of ctx i)) \<Longrightarrow> (i, c) \<in> edges ctx"
  by (simp add: edges_def)

lemma bound_edge: "i < type_count ctx \<Longrightarrow> bound_of ctx i = Some c \<Longrightarrow> (i, c) \<in> edges ctx"
  by (simp add: edges_def)

lemma kinds_distinct: "arena_ok ctx \<Longrightarrow> i < type_count ctx \<Longrightarrow> j < type_count ctx \<Longrightarrow> kind_of ctx i = kind_of ctx j \<Longrightarrow> i = j"
  by (metis arena_okD(1) option.inject)

lemma kind_at_eq: "i < type_count ctx \<Longrightarrow> kind_at ctx i = Some (kind_of ctx i)"
  by (simp add: kind_at_def kind_of_def)

lemma arena_nonempty: "arena_ok ctx \<Longrightarrow> 21 \<le> type_count ctx"
proof -
  assume "arena_ok ctx"
  then have "length (take 21 (tc_kinds ctx)) = 21" by (simp add: arena_ok_def initial_kinds_def)
  then show ?thesis by simp
qed

lemma error_kind:
  assumes "arena_ok ctx"
  shows "error_type < type_count ctx" "kind_of ctx error_type = TError"
proof -
  show "error_type < type_count ctx" using arena_nonempty [OF assms] by (auto simp: error_type_def)
  have "take 21 (tc_kinds ctx) ! 0 = TError" using arena_okD(5) [OF assms] by (simp add: initial_kinds_def)
  then show "kind_of ctx error_type = TError" by (simp add: kind_of_def error_type_def)
qed

section \<open>Depth\<close>

definition rank :: "type_context \<Rightarrow> type_id \<Rightarrow> nat" where
  "rank ctx i = card ((edges ctx)\<^sup>+ `` {i})"

lemma trancl_bounded: "arena_ok ctx \<Longrightarrow> (i, c) \<in> (edges ctx)\<^sup>+ \<Longrightarrow> c < type_count ctx"
  by (erule trancl_induct) (auto dest: arena_okD(2))

lemma rtrancl_bounded: "arena_ok ctx \<Longrightarrow> (i, c) \<in> (edges ctx)\<^sup>* \<Longrightarrow> i < type_count ctx \<Longrightarrow> c < type_count ctx"
  by (auto simp: rtrancl_eq_or_trancl dest: trancl_bounded)

lemma successors_finite: "arena_ok ctx \<Longrightarrow> finite ((edges ctx)\<^sup>+ `` {i})"
  by (rule finite_subset [of _ "{..<type_count ctx}"]) (auto dest: trancl_bounded)

lemma rank_less:
  assumes "arena_ok ctx" "(i, c) \<in> edges ctx"
  shows "rank ctx c < rank ctx i"
  unfolding rank_def
proof (rule psubset_card_mono [OF successors_finite [OF assms(1)]])
  have "c \<notin> (edges ctx)\<^sup>+ `` {c}" using arena_okD(4) [OF assms(1)] by (simp add: acyclic_def)
  then show "(edges ctx)\<^sup>+ `` {c} \<subset> (edges ctx)\<^sup>+ `` {i}"
    using assms(2) by (auto intro: trancl_into_trancl2)
qed

lemma rank_bound:
  assumes "arena_ok ctx" "i < type_count ctx"
  shows "rank ctx i < type_count ctx"
proof -
  have "(edges ctx)\<^sup>+ `` {i} \<subset> {..<type_count ctx}"
    using assms trancl_bounded arena_okD(4) [OF assms(1)] by (auto simp: acyclic_def)
  then show ?thesis unfolding rank_def by (metis card_lessThan finite_lessThan psubset_card_mono)
qed

lemma rank_mono: "arena_ok ctx \<Longrightarrow> (i, j) \<in> (edges ctx)\<^sup>* \<Longrightarrow> rank ctx j \<le> rank ctx i"
  by (erule rtrancl_induct) (auto dest: rank_less)

text \<open>A walk of \<open>n\<close> edges into a node bounds how deep a recursion has gone.\<close>

definition walk_into :: "type_context \<Rightarrow> nat \<Rightarrow> type_id \<Rightarrow> bool" where
  "walk_into ctx n i \<longleftrightarrow> (\<exists>z. z < type_count ctx \<and> (z, i) \<in> edges ctx ^^ n)"

lemma walk_rank: "arena_ok ctx \<Longrightarrow> (z, i) \<in> edges ctx ^^ n \<Longrightarrow> n + rank ctx i \<le> rank ctx z"
proof (induction n arbitrary: i)
  case (Suc n)
  then obtain y where "(z, y) \<in> edges ctx ^^ n" "(y, i) \<in> edges ctx" by auto
  with Suc show ?case using rank_less [of ctx y i] by fastforce
qed simp

lemma walk_bound: "arena_ok ctx \<Longrightarrow> walk_into ctx n i \<Longrightarrow> n < type_count ctx"
  using walk_rank rank_bound unfolding walk_into_def by (metis add_leD1 le_less_trans)

lemma walk_start: "i < type_count ctx \<Longrightarrow> walk_into ctx 0 i"
  by (auto simp: walk_into_def)

lemma walk_edge: "walk_into ctx n i \<Longrightarrow> (i, c) \<in> edges ctx \<Longrightarrow> walk_into ctx (Suc n) c"
  by (auto simp: walk_into_def intro: relpow_Suc_I)

lemma walk_path: "walk_into ctx n i \<Longrightarrow> (i, j) \<in> (edges ctx)\<^sup>* \<Longrightarrow> \<exists>m\<ge>n. walk_into ctx m j"
proof -
  assume w: "walk_into ctx n i" and "(i, j) \<in> (edges ctx)\<^sup>*"
  then obtain k where "(i, j) \<in> edges ctx ^^ k" using rtrancl_imp_relpow by blast
  with w have "walk_into ctx (n + k) j" by (auto simp: walk_into_def relpow_add)
  then show ?thesis by (intro exI [of _ "n + k"]) simp
qed

section \<open>Resolution\<close>

lemma bound_of_variable: "kind_of ctx i = TInferenceVariable v \<Longrightarrow> bound_of ctx i = tc_bindings ctx ! v"
  by (simp add: bound_of_def)

lemma bound_kind: "bound_of ctx i = Some b \<Longrightarrow> \<exists>v. kind_of ctx i = TInferenceVariable v \<and> tc_bindings ctx ! v = Some b"
  by (auto simp: bound_of_def split: type_kind.splits)

definition bindings_path :: "type_context \<Rightarrow> (type_id \<times> type_id) set" where
  "bindings_path ctx = {(i, b). i < type_count ctx \<and> bound_of ctx i = Some b}"

lemma bindings_path_edges: "(i, j) \<in> (bindings_path ctx)\<^sup>* \<Longrightarrow> (i, j) \<in> (edges ctx)\<^sup>*"
  by (erule rtrancl_mono [THEN subsetD, rotated]) (auto simp: bindings_path_def edges_def)

lemma resolve_from_variable:
  assumes "i < type_count ctx" "kind_of ctx i = TInferenceVariable v" "v \<notin> set seen" "v < length (tc_bindings ctx)"
  shows "resolve_from ctx seen i =
    (case tc_bindings ctx ! v of None \<Rightarrow> Some i | Some b \<Rightarrow> resolve_from ctx (v # seen) b)"
  using assms by (subst resolve_from.simps) (simp add: kind_at_eq)

lemma resolve_from_other:
  assumes "i < type_count ctx" "\<nexists>v. kind_of ctx i = TInferenceVariable v"
  shows "resolve_from ctx seen i = Some i"
  using assms by (subst resolve_from.simps) (auto simp: kind_at_eq split: type_kind.split)

lemma resolve_from_Some:
  "arena_ok ctx \<Longrightarrow> i < type_count ctx \<Longrightarrow>
    \<forall>v\<in>set seen. \<exists>n. n < type_count ctx \<and> kind_of ctx n = TInferenceVariable v \<and> (n, i) \<in> (edges ctx)\<^sup>+ \<Longrightarrow>
    \<exists>j. resolve_from ctx seen i = Some j \<and> (i, j) \<in> (bindings_path ctx)\<^sup>* \<and> bound_of ctx j = None"
proof (induction ctx seen i rule: resolve_from.induct)
  case (1 ctx seen i)
  note ok = "1.prems"(1) and i = "1.prems"(2)
  show ?case
  proof (cases "\<exists>v. kind_of ctx i = TInferenceVariable v")
    case False
    then have "bound_of ctx i = None" by (auto simp: bound_of_def split: type_kind.split)
    with resolve_from_other [OF i False] show ?thesis by blast
  next
    case True
    then obtain v where v: "kind_of ctx i = TInferenceVariable v" by blast
    have vb: "v < length (tc_bindings ctx)" by (rule arena_okD(3) [OF ok i v])
    have fresh: "v \<notin> set seen"
    proof
      assume "v \<in> set seen"
      then obtain n where "n < type_count ctx" "kind_of ctx n = TInferenceVariable v" "(n, i) \<in> (edges ctx)\<^sup>+"
        using "1.prems"(3) by blast
      moreover from this have "n = i" using kinds_distinct [OF ok _ i] v by simp
      ultimately show False using arena_okD(4) [OF ok] by (simp add: acyclic_def)
    qed
    note eq = resolve_from_variable [OF i v fresh vb]
    show ?thesis
    proof (cases "tc_bindings ctx ! v")
      case None
      then show ?thesis using eq v by (auto simp: bound_of_def)
    next
      case (Some b)
      have e: "bound_of ctx i = Some b" using v Some by (simp add: bound_of_def)
      have b: "b < type_count ctx" using arena_okD(2) [OF ok bound_edge [OF i e]] .
      have "\<forall>w\<in>set (v # seen). \<exists>n. n < type_count ctx \<and> kind_of ctx n = TInferenceVariable w \<and> (n, b) \<in> (edges ctx)\<^sup>+"
        using "1.prems"(3) bound_edge [OF i e] v i by (auto intro: trancl_into_trancl)
      then obtain j where j: "resolve_from ctx (v # seen) b = Some j" "(b, j) \<in> (bindings_path ctx)\<^sup>*" "bound_of ctx j = None"
        using "1.IH" [OF kind_at_eq [OF i, unfolded v] refl fresh vget_Some [OF vb, unfolded Some] refl ok b] by auto
      have "(i, b) \<in> bindings_path ctx" using e i by (simp add: bindings_path_def)
      with j eq Some show ?thesis by (auto intro: converse_rtrancl_into_rtrancl)
    qed
  qed
qed

lemma bindings_path_functional:
  "(i, j) \<in> (bindings_path ctx)\<^sup>* \<Longrightarrow> (i, k) \<in> (bindings_path ctx)\<^sup>* \<Longrightarrow> bound_of ctx j = None \<Longrightarrow> bound_of ctx k = None \<Longrightarrow> j = k"
proof (induction rule: converse_rtrancl_induct)
  case base
  then show ?case by (auto elim: converse_rtranclE simp: bindings_path_def)
next
  case (step i b)
  from step.prems(1) step.hyps(1) step.prems(3) have "(b, k) \<in> (bindings_path ctx)\<^sup>*"
    by (auto elim: converse_rtranclE simp: bindings_path_def)
  with step show ?case by blast
qed

lemma resolve_inference_Some:
  assumes "arena_ok ctx" "i < type_count ctx"
  obtains j where "resolve_inference ctx i = Some j" "(i, j) \<in> (bindings_path ctx)\<^sup>*" "bound_of ctx j = None" "j < type_count ctx"
proof -
  obtain j where j: "resolve_from ctx [] i = Some j" "(i, j) \<in> (bindings_path ctx)\<^sup>*" "bound_of ctx j = None"
    using resolve_from_Some [OF assms, of "[]"] by auto
  with rtrancl_bounded [OF assms(1) bindings_path_edges [OF j(2)] assms(2)] that show thesis
    by (simp add: resolve_inference_def)
qed

lemma resolve_inference_eq:
  assumes "arena_ok ctx" "i < type_count ctx" "(i, j) \<in> (bindings_path ctx)\<^sup>*" "bound_of ctx j = None"
  shows "resolve_inference ctx i = Some j"
proof -
  obtain k where "resolve_inference ctx i = Some k" "(i, k) \<in> (bindings_path ctx)\<^sup>*" "bound_of ctx k = None"
    using resolve_inference_Some [OF assms(1,2)] .
  with bindings_path_functional [OF assms(3) this(2) assms(4)] show ?thesis by simp
qed

section \<open>Trees\<close>

text \<open>
  The first-order term a type denotes: bound variables and aliases are transparent, every other
  kind is a node labelled with the kind without its children.
\<close>

datatype ty_tree = Node type_kind "ty_tree list"

definition type_head :: "type_kind \<Rightarrow> type_kind" where
  "type_head k = with_children k (replicate (length (type_children k)) 0)"

definition transparent :: "type_context \<Rightarrow> type_id \<Rightarrow> type_id option" where
  "transparent ctx i = (case alias_target (kind_of ctx i) of Some t \<Rightarrow> Some t | None \<Rightarrow> bound_of ctx i)"

primrec tree :: "nat \<Rightarrow> type_context \<Rightarrow> type_id \<Rightarrow> ty_tree" where
  "tree 0 ctx i = Node TError []"
| "tree (Suc n) ctx i =
     (case transparent ctx i of
        Some j \<Rightarrow> tree n ctx j
      | None \<Rightarrow> Node (type_head (kind_of ctx i)) (map (tree n ctx) (type_children (kind_of ctx i))))"

definition tree_of :: "type_context \<Rightarrow> type_id \<Rightarrow> ty_tree" where
  "tree_of ctx i = tree (type_count ctx) ctx i"

lemma alias_target_child: "alias_target k = Some t \<Longrightarrow> t \<in> set (type_children k)"
  by (cases k) (auto simp: alias_target_def)

lemma transparent_edge: "i < type_count ctx \<Longrightarrow> transparent ctx i = Some j \<Longrightarrow> (i, j) \<in> edges ctx"
  by (auto simp: transparent_def edges_def dest: alias_target_child split: option.splits)

lemma tree_stable:
  assumes "arena_ok ctx"
  shows "i < type_count ctx \<Longrightarrow> rank ctx i < m \<Longrightarrow> rank ctx i < n \<Longrightarrow> tree m ctx i = tree n ctx i"
proof (induction "rank ctx i" arbitrary: i m n rule: less_induct)
  case less
  from less.prems obtain m' n' where mn: "m = Suc m'" "n = Suc n'" by (metis gr_implies_not0 not0_implies_Suc)
  have eq: "tree m' ctx c = tree n' ctx c" if "(i, c) \<in> edges ctx" for c
    using rank_less [OF assms that] less.prems mn arena_okD(2) [OF assms that] by (intro less.hyps) simp_all
  show ?case
    using eq transparent_edge [OF less.prems(1)] child_edge [OF less.prems(1)] by (auto simp: mn split: option.split)
qed

lemma tree_of_unfold:
  assumes "arena_ok ctx" "i < type_count ctx"
  shows "tree_of ctx i =
     (case transparent ctx i of
        Some j \<Rightarrow> tree_of ctx j
      | None \<Rightarrow> Node (type_head (kind_of ctx i)) (map (tree_of ctx) (type_children (kind_of ctx i))))"
proof -
  have b: "rank ctx i < type_count ctx" by (rule rank_bound [OF assms])
  then have "tree_of ctx i = tree (Suc (type_count ctx)) ctx i"
    unfolding tree_of_def by (intro tree_stable [OF assms]) simp_all
  moreover have "tree_of ctx = tree (type_count ctx) ctx" by (rule ext) (simp add: tree_of_def)
  ultimately show ?thesis by (simp split: option.split)
qed

lemma tree_of_bindings: "(i, j) \<in> (bindings_path ctx)\<^sup>* \<Longrightarrow> arena_ok ctx \<Longrightarrow> tree_of ctx i = tree_of ctx j"
proof (induction rule: converse_rtrancl_induct)
  case (step i b)
  then have "i < type_count ctx" "bound_of ctx i = Some b" by (simp_all add: bindings_path_def)
  moreover from this have "alias_target (kind_of ctx i) = None" using bound_kind by (fastforce simp: alias_target_def)
  ultimately show ?case using step tree_of_unfold [of ctx i] by (simp add: transparent_def)
qed simp

lemma resolve_tree:
  assumes "arena_ok ctx" "resolve_inference ctx i = Some j" "i < type_count ctx"
  shows "tree_of ctx j = tree_of ctx i" "j < type_count ctx" "bound_of ctx j = None" "(i, j) \<in> (edges ctx)\<^sup>*"
    "(i, j) \<in> (bindings_path ctx)\<^sup>*"
proof -
  obtain k where k: "resolve_inference ctx i = Some k" "(i, k) \<in> (bindings_path ctx)\<^sup>*" "bound_of ctx k = None" "k < type_count ctx"
    using resolve_inference_Some [OF assms(1,3)] .
  with assms(2) have [simp]: "k = j" by simp
  show "tree_of ctx j = tree_of ctx i" "j < type_count ctx" "bound_of ctx j = None" "(i, j) \<in> (edges ctx)\<^sup>*"
    "(i, j) \<in> (bindings_path ctx)\<^sup>*"
    using k tree_of_bindings [OF k(2) assms(1)] bindings_path_edges [OF k(2)] by simp_all
qed

section \<open>Heads and children\<close>

abbreviation retype :: "function_parameter list \<Rightarrow> type_id list \<Rightarrow> function_parameter list" where
  "retype \<equiv> map2 (\<lambda>p ty. FunctionParameter ty (fp_variadic p))"

lemma retype_simps [simp]:
  "length ys = length ps \<Longrightarrow> map fp_ty (retype ps ys) = ys"
  "length ys = length ps \<Longrightarrow> map fp_variadic (retype ps ys) = map fp_variadic ps"
  "length ys = length ps \<Longrightarrow> retype (retype ps ys) zs = retype ps zs"
  "retype ps (map fp_ty ps) = ps"
proof -
  show "length ys = length ps \<Longrightarrow> map fp_ty (retype ps ys) = ys"
    by (induction ps arbitrary: ys) (auto simp: length_Suc_conv)
  show "length ys = length ps \<Longrightarrow> map fp_variadic (retype ps ys) = map fp_variadic ps"
    by (induction ps arbitrary: ys) (auto simp: length_Suc_conv)
  show "length ys = length ps \<Longrightarrow> retype (retype ps ys) zs = retype ps zs"
  proof (induction ps arbitrary: ys zs)
    case (Cons p ps)
    then show ?case by (cases zs) (auto simp: length_Suc_conv)
  qed simp
  show "retype ps (map fp_ty ps) = ps" by (induction ps) auto
qed

text \<open>The child list of a kind whose last child has a place of its own.\<close>

lemma function_children_cases:
  assumes "length cs = length (type_children (TFunction s a r ps t))"
  obtains (plain) ys y where "r = None" "cs = ys @ [y]" "length ys = length ps"
  | (receiver) x c ys y where "r = Some x" "cs = c # ys @ [y]" "length ys = length ps"
proof (cases r)
  case None
  with assms show ?thesis by (cases cs rule: rev_cases) (auto intro: plain)
next
  case (Some x)
  with assms show ?thesis by (cases cs; cases "tl cs" rule: rev_cases) (auto intro: receiver)
qed

lemma children_with_children [simp]:
  "length cs = length (type_children k) \<Longrightarrow> type_children (with_children k cs) = cs"
proof (cases k)
  case (TFunction s a r ps t)
  assume "length cs = length (type_children k)"
  then have "length cs = length (type_children (TFunction s a r ps t))" using TFunction by simp
  then show ?thesis using TFunction by (cases rule: function_children_cases) (simp_all del: map_map)
next
  case (TAlias d args t)
  assume "length cs = length (type_children k)"
  then show ?thesis using TAlias by (cases cs rule: rev_cases) simp_all
next
  case (TClosure d cs' ps t)
  assume "length cs = length (type_children k)"
  then show ?thesis using TClosure by (cases cs rule: rev_cases) simp_all
qed (auto simp: length_Suc_conv)

lemma with_children_twice [simp]:
  "length cs = length (type_children k) \<Longrightarrow> length ds = length (type_children k) \<Longrightarrow>
   with_children (with_children k cs) ds = with_children k ds"
proof (cases k)
  case (TFunction s a r ps t)
  assume l: "length cs = length (type_children k)" and "length ds = length (type_children k)"
  then have "length ds = length (type_children (TFunction s a r ps t))" using TFunction by simp
  moreover have "length cs = length (type_children (TFunction s a r ps t))" using TFunction l by simp
  then show ?thesis
    using TFunction by (cases rule: function_children_cases) (simp_all)
qed (auto simp: length_Suc_conv)

lemma with_own_children [simp]: "with_children k (type_children k) = k"
  by (cases k) (auto split: option.split)

lemma type_head_with_children: "length cs = length (type_children k) \<Longrightarrow> type_head (with_children k cs) = type_head k"
  by (simp add: type_head_def)

lemma kind_from_head: "type_head k = type_head l \<Longrightarrow> type_children k = type_children l \<Longrightarrow> k = l"
  by (metis length_replicate type_head_def with_children_twice with_own_children)

section \<open>Searching\<close>

text \<open>A bound variable has no edge but its binding.\<close>

lemma bound_edge_unique: "bound_of ctx i = Some b \<Longrightarrow> (i, c) \<in> edges ctx \<Longrightarrow> c = b"
  using bound_kind by (fastforce simp: edges_def)

lemma skip_bindings:
  "(c, t) \<in> (bindings_path ctx)\<^sup>* \<Longrightarrow> (c, j) \<in> (edges ctx)\<^sup>* \<Longrightarrow> bound_of ctx j = None \<Longrightarrow> (t, j) \<in> (edges ctx)\<^sup>*"
proof (induction rule: converse_rtrancl_induct)
  case (step c b)
  then have b: "bound_of ctx c = Some b" by (simp add: bindings_path_def)
  from step.prems(1) have "(b, j) \<in> (edges ctx)\<^sup>*"
  proof (cases rule: converse_rtranclE)
    case base
    with b step.prems(2) show ?thesis by simp
  next
    case (step d)
    with bound_edge_unique [OF b] show ?thesis by simp
  qed
  with step.IH step.prems(2) show ?case by blast
qed

definition resolved :: "type_context \<Rightarrow> type_id \<Rightarrow> type_id" where
  "resolved ctx i = (case resolve_inference ctx i of Some j \<Rightarrow> j | None \<Rightarrow> i)"

lemma resolved_facts:
  assumes "arena_ok ctx" "i < type_count ctx"
  shows "resolve_inference ctx i = Some (resolved ctx i)" "resolved ctx i < type_count ctx"
    "bound_of ctx (resolved ctx i) = None" "(i, resolved ctx i) \<in> (edges ctx)\<^sup>*"
    "(i, resolved ctx i) \<in> (bindings_path ctx)\<^sup>*" "tree_of ctx (resolved ctx i) = tree_of ctx i"
proof -
  obtain j where j: "resolve_inference ctx i = Some j" using resolve_inference_Some [OF assms] by blast
  then show "resolve_inference ctx i = Some (resolved ctx i)" by (simp add: resolved_def)
  from resolve_tree [OF assms(1) this assms(2)]
  show "resolved ctx i < type_count ctx" "bound_of ctx (resolved ctx i) = None" "(i, resolved ctx i) \<in> (edges ctx)\<^sup>*"
    "(i, resolved ctx i) \<in> (bindings_path ctx)\<^sup>*" "tree_of ctx (resolved ctx i) = tree_of ctx i"
    by simp_all
qed

lemma resolved_unbound: "arena_ok ctx \<Longrightarrow> i < type_count ctx \<Longrightarrow> bound_of ctx i = None \<Longrightarrow> resolved ctx i = i"
  using resolve_inference_eq [of ctx i i] by (simp add: resolved_def)

text \<open>Sets that are closed under the search and contain no hit.\<close>

definition closed_without :: "type_context \<Rightarrow> (type_id \<Rightarrow> type_kind \<Rightarrow> bool) \<Rightarrow> type_id set \<Rightarrow> bool" where
  "closed_without ctx P S \<longleftrightarrow>
     (\<forall>s\<in>S. s < type_count ctx \<and> bound_of ctx s = None \<and> \<not> P s (kind_of ctx s)
        \<and> (\<forall>c\<in>set (type_children (kind_of ctx s)). resolved ctx c \<in> S))"

lemma closed_without_reach:
  assumes ok: "arena_ok ctx" and cl: "closed_without ctx P S"
  shows "s \<in> S \<Longrightarrow> (s, j) \<in> (edges ctx)\<^sup>* \<Longrightarrow> bound_of ctx j = None \<Longrightarrow> j \<in> S"
proof (induction "rank ctx s" arbitrary: s rule: less_induct)
  case less
  have s: "s < type_count ctx" "bound_of ctx s = None" "\<forall>c\<in>set (type_children (kind_of ctx s)). resolved ctx c \<in> S"
    using less.prems(1) cl by (auto simp: closed_without_def)
  from less.prems(2) show ?case
  proof (cases rule: converse_rtranclE)
    case base
    with less.prems(1) show ?thesis by simp
  next
    case (step c)
    have c: "c \<in> set (type_children (kind_of ctx s))" using step(1) s(2) by (simp add: edges_def)
    note r = resolved_facts [OF ok arena_okD(2) [OF ok step(1)]]
    have lower: "rank ctx (resolved ctx c) < rank ctx s"
      using rank_mono [OF ok r(4)] rank_less [OF ok step(1)] by (rule le_less_trans)
    have path: "(resolved ctx c, j) \<in> (edges ctx)\<^sup>*" by (rule skip_bindings [OF r(5) step(2) less.prems(3)])
    have "resolved ctx c \<in> S" using s(3) c by blast
    then show ?thesis by (rule less.hyps [OF lower _ path less.prems(3)])
  qed
qed

definition hit :: "type_context \<Rightarrow> (type_id \<Rightarrow> type_kind \<Rightarrow> bool) \<Rightarrow> type_id \<Rightarrow> bool" where
  "hit ctx P i \<longleftrightarrow> (\<exists>j. (i, j) \<in> (edges ctx)\<^sup>* \<and> bound_of ctx j = None \<and> P j (kind_of ctx j))"

lemma hit_step: "(i, c) \<in> (edges ctx)\<^sup>* \<Longrightarrow> hit ctx P c \<Longrightarrow> hit ctx P i"
  unfolding hit_def by (meson rtrancl_trans)

lemma search_result:
  "arena_ok ctx \<Longrightarrow> \<forall>x\<in>set xs. x < type_count ctx \<Longrightarrow>
   (\<forall>s\<in>set seen. s < type_count ctx \<and> bound_of ctx s = None \<and> \<not> P s (kind_of ctx s)
      \<and> (\<forall>c\<in>set (type_children (kind_of ctx s)). resolved ctx c \<in> set seen \<union> resolved ctx ` set xs)) \<Longrightarrow>
   \<exists>b. search ctx P seen xs = Some b \<and> (b \<longrightarrow> (\<exists>x\<in>set xs. hit ctx P x))
     \<and> (\<not> b \<longrightarrow> (\<exists>S. set seen \<subseteq> S \<and> resolved ctx ` set xs \<subseteq> S \<and> closed_without ctx P S))"
proof (induction ctx P seen xs rule: search.induct)
  case (1 ctx P seen)
  then show ?case by (auto simp: closed_without_def intro!: exI [of _ "set seen"])
next
  case (2 ctx P seen x xs)
  note ok = "2.prems"(1)
  have x: "x < type_count ctx" using "2.prems"(2) by simp
  note r = resolved_facts [OF ok x]
  let ?ty = "resolved ctx x"
  have k: "kind_at ctx ?ty = Some (kind_of ctx ?ty)" by (rule kind_at_eq [OF r(2)])
  show ?case
  proof (cases "?ty \<in> set seen")
    case True
    then have eq: "search ctx P seen (x # xs) = search ctx P seen xs" by (simp add: search.simps(2) r(1))
    have "\<exists>b. search ctx P seen xs = Some b \<and> (b \<longrightarrow> (\<exists>x\<in>set xs. hit ctx P x))
     \<and> (\<not> b \<longrightarrow> (\<exists>S. set seen \<subseteq> S \<and> resolved ctx ` set xs \<subseteq> S \<and> closed_without ctx P S))"
      using "2.prems"(2,3) by (intro "2.IH"(1) [OF r(1) True ok]) (simp_all add: True insert_absorb)
    then show ?thesis using True by (auto simp: eq)
  next
    case new: False
    show ?thesis
    proof (cases "P ?ty (kind_of ctx ?ty)")
      case True
      then have "search ctx P seen (x # xs) = Some True" using new by (simp add: search.simps(2) r(1) k)
      moreover have "hit ctx P x" using r(3,4) True by (auto simp: hit_def)
      ultimately show ?thesis by (intro exI [of _ True]) simp
    next
      case False
      let ?cs = "type_children (kind_of ctx ?ty)"
      have eq: "search ctx P seen (x # xs) = search ctx P (?ty # seen) (?cs @ xs)"
        using new False by (simp add: search.simps(2) r(1) k)
      have cs: "\<forall>c\<in>set ?cs. c < type_count ctx \<and> (x, c) \<in> (edges ctx)\<^sup>*"
      proof
        fix c assume "c \<in> set ?cs"
        then have e: "(?ty, c) \<in> edges ctx" by (rule child_edge [OF r(2)])
        show "c < type_count ctx \<and> (x, c) \<in> (edges ctx)\<^sup>*"
          using arena_okD(2) [OF ok e] rtrancl_into_rtrancl [OF r(4) e] by simp
      qed
      have "\<exists>b. search ctx P (?ty # seen) (?cs @ xs) = Some b \<and> (b \<longrightarrow> (\<exists>x\<in>set (?cs @ xs). hit ctx P x))
         \<and> (\<not> b \<longrightarrow> (\<exists>S. set (?ty # seen) \<subseteq> S \<and> resolved ctx ` set (?cs @ xs) \<subseteq> S \<and> closed_without ctx P S))"
      proof (rule "2.IH"(2) [OF r(1) new k False ok])
        show "\<forall>x\<in>set (?cs @ xs). x < type_count ctx" using cs "2.prems"(2) by auto
        show "\<forall>s\<in>set (?ty # seen). s < type_count ctx \<and> bound_of ctx s = None \<and> \<not> P s (kind_of ctx s)
            \<and> (\<forall>c\<in>set (type_children (kind_of ctx s)). resolved ctx c \<in> set (?ty # seen) \<union> resolved ctx ` set (?cs @ xs))"
          using "2.prems"(3) r(2,3) False by auto
      qed
      then obtain b where b: "search ctx P (?ty # seen) (?cs @ xs) = Some b"
        "b \<longrightarrow> (\<exists>x\<in>set (?cs @ xs). hit ctx P x)"
        "\<not> b \<longrightarrow> (\<exists>S. set (?ty # seen) \<subseteq> S \<and> resolved ctx ` set (?cs @ xs) \<subseteq> S \<and> closed_without ctx P S)" by blast
      have "\<exists>y\<in>set (x # xs). hit ctx P y" if "y \<in> set (?cs @ xs)" "hit ctx P y" for y
        using that cs hit_step [of x y ctx P] by auto
      then have "b \<longrightarrow> (\<exists>x\<in>set (x # xs). hit ctx P x)" using b(2) by blast
      moreover have "\<not> b \<longrightarrow> (\<exists>S. set seen \<subseteq> S \<and> resolved ctx ` set (x # xs) \<subseteq> S \<and> closed_without ctx P S)"
        using b(3) by (elim imp_forward ex_forward) auto
      ultimately show ?thesis unfolding eq b(1) by blast
    qed
  qed
qed

lemma search_iff:
  assumes "arena_ok ctx" "i < type_count ctx"
  shows "search ctx P [] [i] = Some (hit ctx P i)"
proof -
  obtain b where b: "search ctx P [] [i] = Some b" "b \<longrightarrow> hit ctx P i"
    "\<not> b \<longrightarrow> (\<exists>S. resolved ctx i \<in> S \<and> closed_without ctx P S)"
    using search_result [OF assms(1), of "[i]" "[]" P] assms(2) by auto
  have "\<not> hit ctx P i" if nb: "\<not> b"
  proof
    from b(3) nb obtain S where S: "resolved ctx i \<in> S" "closed_without ctx P S" by blast
    assume "hit ctx P i"
    then obtain j where j: "(i, j) \<in> (edges ctx)\<^sup>*" "bound_of ctx j = None" "P j (kind_of ctx j)" by (auto simp: hit_def)
    have "(resolved ctx i, j) \<in> (edges ctx)\<^sup>*"
      by (rule skip_bindings [OF resolved_facts(5) [OF assms] j(1,2)])
    from closed_without_reach [OF assms(1) S(2,1) this j(2)] S(2) j(3) show False by (auto simp: closed_without_def)
  qed
  with b show ?thesis by auto
qed

lemma contains_inference_iff:
  assumes "arena_ok ctx" "i < type_count ctx"
  shows "contains_inference ctx i v =
    Some (\<exists>j. (i, j) \<in> (edges ctx)\<^sup>* \<and> bound_of ctx j = None \<and> kind_of ctx j = TInferenceVariable v)"
  unfolding contains_inference_def search_iff [OF assms] by (simp add: hit_def)

end
