(* ===== verification/Type_Shapes.thy ===== *)
theory Type_Shapes
  imports Type_Arena
begin

text \<open>
  The shapes of \<^verbatim>\<open>src/types/context.rs\<close>: when two kinds have the same outer shape, and how that
  relates to their labels.
\<close>

section \<open>Shapes\<close>

text \<open>Same-shaped kinds have the same label; a declaration fixes the number of its arguments.\<close>

definition arity :: "type_kind \<Rightarrow> nat \<times> nat" where
  "arity k = (length (type_children k), (case k of TClosure d cs ps t \<Rightarrow> length cs | _ \<Rightarrow> 0))"

definition arities_agree :: "type_context \<Rightarrow> bool" where
  "arities_agree ctx \<longleftrightarrow>
     (\<forall>i<type_count ctx. \<forall>j<type_count ctx.
        same_outer_shape (kind_of ctx i) (kind_of ctx j) \<longrightarrow> arity (kind_of ctx i) = arity (kind_of ctx j))"

lemma variadic_zip:
  "length ps = length qs \<Longrightarrow> list_all (\<lambda>(l, r). fp_variadic l = fp_variadic r) (zip ps qs) \<longleftrightarrow> map fp_variadic ps = map fp_variadic qs"
  by (induction ps qs rule: list_induct2) auto

lemma retype_variadic:
  "length zs = length ps \<Longrightarrow> length zs = length qs \<Longrightarrow> retype ps zs = retype qs zs \<longleftrightarrow> map fp_variadic ps = map fp_variadic qs"
proof (induction zs arbitrary: ps qs)
  case (Cons z zs)
  then show ?case by (cases ps; cases qs) auto
qed simp

lemma retype_length: "length (retype ps zs) = min (length ps) (length zs)"
  by simp

lemma shape_cases:
  assumes "same_outer_shape k l"
  obtains "k = TError" "l = TError" | "k = TNever" "l = TNever"
  | p where "k = TPrimitive p" "l = TPrimitive p"
  | i a b where "k = TNominal i a" "l = TNominal i b"
  | i a b where "k = TBuiltin i a" "l = TBuiltin i b"
  | a b where "k = TTuple a" "l = TTuple b" "length a = length b"
  | a b n where "k = TArray a n" "l = TArray b n"
  | a b m where "k = TSlice m a" "l = TSlice m b"
  | a b m where "k = TReference m a" "l = TReference m b"
  | a b m where "k = TRawPointer m a" "l = TRawPointer m b"
  | s a r r' ps ps' t t' where "k = TFunction s a r ps t" "l = TFunction s a r' ps' t'" "(r = None) = (r' = None)"
      "map fp_variadic ps = map fp_variadic ps'"
  | a b where "k = TTraitObject a" "l = TTraitObject b"
  | d c c' p p' t t' where "k = TClosure d c p t" "l = TClosure d c' p' t'"
  | i c where "k = TForeign i c" "l = TForeign i c"
  | g where "k = TGenericParameter g" "l = TGenericParameter g"
  | d where "k = TSelfType d" "l = TSelfType d"
  | v where "k = TInferenceVariable v" "l = TInferenceVariable v"
proof -
  have d: "type_discriminants_equal k l" using assms by (simp add: same_outer_shape_def)
  show thesis
  proof (cases k)
    case (TFunction s a r ps t)
    with d obtain r' ps' t' where "l = TFunction s a r' ps' t'" "(r = None) = (r' = None)" "length ps = length ps'"
      "list_all (\<lambda>(l, r). fp_variadic l = fp_variadic r) (zip ps ps')"
      by (auto simp: type_discriminants_equal_def split: type_kind.splits)
    then show thesis using that(11) [OF TFunction] variadic_zip by blast
  qed (use d in \<open>auto simp: type_discriminants_equal_def split: type_kind.splits intro: that\<close>)
qed

lemma length_function_head:
  "type_head (TFunction s a r ps t) =
     TFunction s a (map_option (\<lambda>x. 0) r) (retype ps (replicate (length ps) 0)) 0"
  by (cases r) (simp_all add: type_head_def replicate_append_same [symmetric] del: replicate_append_same)

lemma type_head_simps:
  "type_head (TNominal i xs) = TNominal i (replicate (length xs) 0)"
  "type_head (TBuiltin b xs) = TBuiltin b (replicate (length xs) 0)"
  "type_head (TTuple xs) = TTuple (replicate (length xs) 0)"
  "type_head (TArray x n) = TArray 0 n"
  "type_head (TSlice m x) = TSlice m 0"
  "type_head (TReference m x) = TReference m 0"
  "type_head (TRawPointer m x) = TRawPointer m 0"
  "type_head (TTraitObject x) = TTraitObject 0"
  "type_head (TClosure d cs ps t) = TClosure d (replicate (length cs) 0) (replicate (length ps) 0) 0"
  "type_head (TAlias d xs t) = TAlias d (replicate (length xs) 0) 0"
  "type_head TError = TError" "type_head TNever = TNever" "type_head (TPrimitive p) = TPrimitive p"
  "type_head (TForeign i c) = TForeign i c" "type_head (TGenericParameter g) = TGenericParameter g"
  "type_head (TSelfType d) = TSelfType d" "type_head (TInferenceVariable v) = TInferenceVariable v"
proof -
  have r: "replicate (Suc n) (0::nat) = replicate n 0 @ [0]" for n by (simp add: replicate_append_same)
  show "type_head (TClosure d cs ps t) = TClosure d (replicate (length cs) 0) (replicate (length ps) 0) 0"
    by (simp add: type_head_def r add_Suc_right [symmetric] replicate_add butlast_append del: replicate_Suc add_Suc_right)
  show "type_head (TAlias d xs t) = TAlias d (replicate (length xs) 0) 0"
    by (simp add: type_head_def r del: replicate_Suc)
qed (simp_all add: type_head_def)

lemma shape_head:
  assumes "same_outer_shape k l" "arity k = arity l"
  shows "type_head k = type_head l"
  using assms(1)
proof (cases rule: shape_cases)
  case (11 s a r r' ps ps' t t')
  moreover from 11(4) have "length ps = length ps'" by (metis length_map)
  ultimately show ?thesis
    using retype_variadic [of "replicate (length ps) 0" ps ps']
    by (cases r; cases r') (simp_all add: length_function_head)
qed (use assms(2) in \<open>auto simp: type_head_simps arity_def\<close>)

lemma same_outer_shape_refl: "alias_target k = None \<Longrightarrow> same_outer_shape k k"
  by (cases k) (auto simp: same_outer_shape_def type_discriminants_equal_def alias_target_def variadic_zip)

lemma variant_head [simp]: "variant (type_head k) = variant k"
  by (cases k) (simp_all add: type_head_simps length_function_head)

lemma head_shape:
  assumes h: "type_head k = type_head l" and "alias_target k = None"
  shows "same_outer_shape k l"
proof -
  have v: "variant k = variant l" using h by (metis variant_head)
  show ?thesis
  proof (cases k)
    case (TFunction s a r ps t)
    with v obtain s' a' r' ps' t' where l: "l = TFunction s' a' r' ps' t'" by (cases l) auto
    then have e: "s = s'" "a = a'" "(r = None) = (r' = None)"
      "retype ps (replicate (length ps) 0) = retype ps' (replicate (length ps') 0)"
      using h TFunction by (auto simp: length_function_head)
    from arg_cong [OF e(4), of length] have "length ps = length ps'" by simp
    moreover from arg_cong [OF e(4), of "map fp_variadic"] have "map fp_variadic ps = map fp_variadic ps'" by (simp del: map_map)
    ultimately show ?thesis
      using e(1-3)
      by (cases r; cases r') (simp_all add: TFunction l same_outer_shape_def type_discriminants_equal_def variadic_zip)
  next
    case (TAlias d xs t)
    with assms(2) show ?thesis by (simp add: alias_target_def)
  qed (use v h in \<open>cases l; simp add: same_outer_shape_def type_discriminants_equal_def type_head_simps; metis length_replicate\<close>)+
qed

end
