(* ===== verification/Type_Unify.thy ===== *)
theory Type_Unify
  imports Type_Shapes
begin

text \<open>
  Equality and unification of \<^verbatim>\<open>src/types/context.rs\<close> against the trees types denote:
  \<open>exactly_equal\<close> decides equality of trees, \<open>unify\<close> returns, keeps the arena acyclic (the occurs
  check), only adds bindings, and makes the two trees equal up to recovered errors.
\<close>

section \<open>Equality of trees\<close>

lemma tree_leaf:
  assumes "arena_ok ctx" "i < type_count ctx" "bound_of ctx i = None" "alias_target (kind_of ctx i) = None"
  shows "tree_of ctx i = Node (type_head (kind_of ctx i)) (map (tree_of ctx) (type_children (kind_of ctx i)))"
  using tree_of_unfold [OF assms(1,2)] assms(3,4) by (simp add: transparent_def)

lemma tree_alias:
  assumes "arena_ok ctx" "i < type_count ctx" "alias_target (kind_of ctx i) = Some t"
  shows "tree_of ctx i = tree_of ctx t" "(i, t) \<in> edges ctx" "t < type_count ctx"
proof -
  show e: "(i, t) \<in> edges ctx" using assms(2,3) alias_target_child [OF assms(3)] by (simp add: edges_def)
  show "tree_of ctx i = tree_of ctx t" using tree_of_unfold [OF assms(1,2)] assms(3) by (simp add: transparent_def)
  show "t < type_count ctx" by (rule arena_okD(2) [OF assms(1) e])
qed

definition same_tree :: "type_context \<Rightarrow> type_id \<times> type_id \<Rightarrow> bool" where
  "same_tree ctx p \<longleftrightarrow> tree_of ctx (fst p) = tree_of ctx (snd p)"

definition pair_rank :: "type_context \<Rightarrow> type_id \<times> type_id \<Rightarrow> nat" where
  "pair_rank ctx p = rank ctx (fst p) + rank ctx (snd p)"

lemma paired_children_same:
  assumes "length (type_children k) = length (type_children l)"
  shows "(\<forall>p\<in>set (paired_children k l). same_tree ctx p)
    \<longleftrightarrow> map (tree_of ctx) (type_children k) = map (tree_of ctx) (type_children l)"
proof -
  have "(\<forall>p\<in>set (zip xs ys). same_tree ctx p) \<longleftrightarrow> map (tree_of ctx) xs = map (tree_of ctx) ys"
    if "length xs = length ys" for xs ys
    using that by (induction xs ys rule: list_induct2) (auto simp: same_tree_def)
  with assms show ?thesis by (simp add: paired_children_def)
qed

lemma paired_children_sides:
  "q \<in> set (paired_children k l) \<Longrightarrow> fst q \<in> set (type_children k) \<and> snd q \<in> set (type_children l)"
  by (cases q) (auto simp: paired_children_def dest: set_zip_leftD set_zip_rightD)

text \<open>A pair counts as compared when the smaller pairs still to do would make it equal.\<close>

definition pending_ok :: "type_context \<Rightarrow> (type_id \<times> type_id) list \<Rightarrow> (type_id \<times> type_id) list \<Rightarrow> bool" where
  "pending_ok ctx seen ps \<longleftrightarrow>
     (\<forall>q\<in>set seen. (\<forall>p\<in>set ps. pair_rank ctx p < pair_rank ctx q \<longrightarrow> same_tree ctx p) \<longrightarrow> same_tree ctx q)"

text \<open>Replacing the first pair by pairs that are smaller and decide it.\<close>

lemma pending_expand:
  assumes "pending_ok ctx seen (p # ps)" "pair_rank ctx q \<le> pair_rank ctx p" "same_tree ctx q = same_tree ctx p"
    and "\<forall>r\<in>set rs. pair_rank ctx r < pair_rank ctx q" "(\<forall>r\<in>set rs. same_tree ctx r) \<longrightarrow> same_tree ctx q"
  shows "pending_ok ctx (q # seen) (rs @ ps)"
  unfolding pending_ok_def
proof (intro ballI impI)
  fix z assume z: "z \<in> set (q # seen)"
    "\<forall>r\<in>set (rs @ ps). pair_rank ctx r < pair_rank ctx z \<longrightarrow> same_tree ctx r"
  have first: "same_tree ctx q" if "pair_rank ctx q \<le> pair_rank ctx z"
  proof -
    have "same_tree ctx r" if r: "r \<in> set rs" for r
    proof -
      have "pair_rank ctx r < pair_rank ctx q" using assms(4) r by blast
      with \<open>pair_rank ctx q \<le> pair_rank ctx z\<close> z(2) r show ?thesis by simp
    qed
    with assms(5) show ?thesis by blast
  qed
  show "same_tree ctx z"
  proof (cases "z = q")
    case True
    with first show ?thesis by simp
  next
    case False
    then have "z \<in> set seen" using z(1) by simp
    moreover have "same_tree ctx r" if "r \<in> set (p # ps)" "pair_rank ctx r < pair_rank ctx z" for r
      using that z(2) first assms(2,3) by (cases "r = p") auto
    ultimately show ?thesis using assms(1) unfolding pending_ok_def by blast
  qed
qed

lemma pending_skip:
  assumes "pending_ok ctx seen (p # ps)" "same_tree ctx p"
  shows "pending_ok ctx seen ps"
  using assms unfolding pending_ok_def by auto

lemma pending_seen:
  assumes "pending_ok ctx seen (p # ps)" "q \<in> set seen" "pair_rank ctx q \<le> pair_rank ctx p" "same_tree ctx q = same_tree ctx p"
  shows "pending_ok ctx seen ps"
  unfolding pending_ok_def
proof (intro ballI impI)
  fix z assume z: "z \<in> set seen" "\<forall>r\<in>set ps. pair_rank ctx r < pair_rank ctx z \<longrightarrow> same_tree ctx r"
  have "same_tree ctx p" if "pair_rank ctx p < pair_rank ctx z"
  proof -
    have "\<forall>r\<in>set (p # ps). pair_rank ctx r < pair_rank ctx q \<longrightarrow> same_tree ctx r"
      using z(2) that assms(3) by auto
    with assms show ?thesis unfolding pending_ok_def by blast
  qed
  with z assms(1) show "same_tree ctx z" unfolding pending_ok_def by auto
qed

lemma equal_from_result:
  "arena_ok ctx \<Longrightarrow> arities_agree ctx \<Longrightarrow>
   \<forall>(x, y)\<in>set ps. x < type_count ctx \<and> y < type_count ctx \<Longrightarrow> pending_ok ctx seen ps \<Longrightarrow>
   \<exists>b. equal_from ctx seen ps = Some b
     \<and> (b \<longrightarrow> (\<forall>q\<in>set seen \<union> set ps. same_tree ctx q)) \<and> (\<not> b \<longrightarrow> (\<exists>p\<in>set ps. \<not> same_tree ctx p))"
proof (induction ctx seen ps rule: equal_from.induct)
  case (1 ctx seen)
  then show ?case by (intro exI [of _ True]) (simp add: pending_ok_def)
next
  case (2 ctx seen x y ps)
  note ok = "2.prems"(1) and ar = "2.prems"(2)
  have xy: "x < type_count ctx" "y < type_count ctx" using "2.prems"(3) by simp_all
  define l where "l = resolved ctx x"
  define r where "r = resolved ctx y"
  note rl = resolved_facts [OF ok xy(1), folded l_def] and rr = resolved_facts [OF ok xy(2), folded r_def]
  note kl = kind_at_eq [OF rl(2)] and kr = kind_at_eq [OF rr(2)]
  have same: "same_tree ctx (l, r) = same_tree ctx (x, y)" using rl(6) rr(6) by (simp add: same_tree_def)
  have le: "pair_rank ctx (l, r) \<le> pair_rank ctx (x, y)"
    using rank_mono [OF ok rl(4)] rank_mono [OF ok rr(4)] by (simp add: pair_rank_def)
  have rest: "\<forall>(x, y)\<in>set ps. x < type_count ctx \<and> y < type_count ctx" using "2.prems"(3) by simp
  have skip: ?case if eq: "equal_from ctx seen ((x, y) # ps) = equal_from ctx seen ps"
    and pe: "pending_ok ctx seen ps" and ih: "\<exists>b. equal_from ctx seen ps = Some b
     \<and> (b \<longrightarrow> (\<forall>q\<in>set seen \<union> set ps. same_tree ctx q)) \<and> (\<not> b \<longrightarrow> (\<exists>p\<in>set ps. \<not> same_tree ctx p))"
    and now: "l = r \<or> (l, r) \<in> set seen"
  proof -
    obtain b where b: "equal_from ctx seen ps = Some b" "b \<longrightarrow> (\<forall>q\<in>set seen \<union> set ps. same_tree ctx q)"
      "\<not> b \<longrightarrow> (\<exists>p\<in>set ps. \<not> same_tree ctx p)" using ih by blast
    have "b \<longrightarrow> same_tree ctx (l, r)" 
      using b(2) now by (cases "l = r") (simp add: same_tree_def, blast)
    then have "b \<longrightarrow> same_tree ctx (x, y)" using same by simp
    with b show ?thesis unfolding eq by auto
  qed
  have push: ?case if eq: "equal_from ctx seen ((x, y) # ps) = equal_from ctx ((l, r) # seen) (rs @ ps)"
    and ih: "pending_ok ctx ((l, r) # seen) (rs @ ps) \<Longrightarrow>
       \<exists>b. equal_from ctx ((l, r) # seen) (rs @ ps) = Some b
     \<and> (b \<longrightarrow> (\<forall>q\<in>set ((l, r) # seen) \<union> set (rs @ ps). same_tree ctx q)) \<and> (\<not> b \<longrightarrow> (\<exists>p\<in>set (rs @ ps). \<not> same_tree ctx p))"
    and low: "\<forall>q\<in>set rs. pair_rank ctx q < pair_rank ctx (l, r)"
    and dec: "(\<forall>q\<in>set rs. same_tree ctx q) \<longleftrightarrow> same_tree ctx (l, r)" for rs
  proof -
    have "pending_ok ctx ((l, r) # seen) (rs @ ps)"
      using pending_expand [OF "2.prems"(4) le same low] dec by blast
    then obtain b where b: "equal_from ctx ((l, r) # seen) (rs @ ps) = Some b"
      "b \<longrightarrow> (\<forall>q\<in>set ((l, r) # seen) \<union> set (rs @ ps). same_tree ctx q)"
      "\<not> b \<longrightarrow> (\<exists>p\<in>set (rs @ ps). \<not> same_tree ctx p)" using ih by blast
    have "\<not> b \<longrightarrow> (\<exists>p\<in>set ((x, y) # ps). \<not> same_tree ctx p)" using b(3) dec same by auto
    moreover have "b \<longrightarrow> (\<forall>q\<in>set seen \<union> set ((x, y) # ps). same_tree ctx q)" using b(2) same by auto
    ultimately show ?thesis unfolding eq b(1) by blast
  qed
  show ?case
  proof (cases "l = r \<or> (l, r) \<in> set seen")
    case True
    then have eq: "equal_from ctx seen ((x, y) # ps) = equal_from ctx seen ps"
      by (simp add: equal_from.simps(2) rl(1) rr(1))
    have pe: "pending_ok ctx seen ps"
    proof (cases "l = r")
      case True
      then have "same_tree ctx (x, y)" using same by (simp add: same_tree_def)
      with "2.prems"(4) show ?thesis by (rule pending_skip)
    next
      case False
      with True have "(l, r) \<in> set seen" by simp
      from "2.prems"(4) this le same show ?thesis by (rule pending_seen)
    qed
    show ?thesis by (rule skip [OF eq pe "2.IH"(1) [OF refl rl(1) rr(1) True ok ar rest pe] True])
  next
    case new: False
    note ih = "2.IH"(2-4) [OF refl rl(1) rr(1) new refl kl kr]
    show ?thesis
    proof (cases "alias_target (kind_of ctx l)")
      case (Some t)
      note ta = tree_alias [OF ok rl(2) Some]
      show ?thesis
      proof (rule push)
        show "equal_from ctx seen ((x, y) # ps) = equal_from ctx ((l, r) # seen) ([(t, r)] @ ps)"
          using new Some by (simp add: equal_from.simps(2) rl(1) rr(1) kl kr)
      qed (use ih(3) [OF Some ok ar] rest ta rank_less [OF ok ta(2)] rr(2) in \<open>auto simp: same_tree_def pair_rank_def\<close>)
    next
      case nl: None
      show ?thesis
      proof (cases "alias_target (kind_of ctx r)")
        case (Some t)
        note ta = tree_alias [OF ok rr(2) Some]
        show ?thesis
        proof (rule push)
          show "equal_from ctx seen ((x, y) # ps) = equal_from ctx ((l, r) # seen) ([(l, t)] @ ps)"
            using new nl Some by (simp add: equal_from.simps(2) rl(1) rr(1) kl kr)
        qed (use ih(2) [OF nl Some ok ar] rest ta rank_less [OF ok ta(2)] rl(2) in \<open>auto simp: same_tree_def pair_rank_def\<close>)
      next
        case nr: None
        note tl = tree_leaf [OF ok rl(2,3) nl] and tr = tree_leaf [OF ok rr(2,3) nr]
        let ?k = "kind_of ctx l" and ?k' = "kind_of ctx r"
        show ?thesis
        proof (cases "same_outer_shape ?k ?k'")
          case False
          then have "equal_from ctx seen ((x, y) # ps) = Some False"
            using new nl nr by (simp add: equal_from.simps(2) rl(1) rr(1) kl kr)
          moreover have "\<not> same_tree ctx (l, r)" using head_shape [OF _ nl] False by (auto simp: same_tree_def tl tr)
          ultimately show ?thesis using same by (intro exI [of _ False]) simp
        next
          case True
          then have a: "arity ?k = arity ?k'" using ar rl(2) rr(2) by (auto simp: arities_agree_def)
          then have len: "length (type_children ?k) = length (type_children ?k')" by (simp add: arity_def)
          note h = shape_head [OF True a]
          have low: "\<forall>q\<in>set (paired_children ?k ?k'). pair_rank ctx q < pair_rank ctx (l, r)
              \<and> fst q < type_count ctx \<and> snd q < type_count ctx"
          proof
            fix q assume "q \<in> set (paired_children ?k ?k')"
            then have "fst q \<in> set (type_children ?k)" "snd q \<in> set (type_children ?k')"
              using paired_children_sides by blast+
            then have e: "(l, fst q) \<in> edges ctx" "(r, snd q) \<in> edges ctx"
              using child_edge [OF rl(2)] child_edge [OF rr(2)] by blast+
            show "pair_rank ctx q < pair_rank ctx (l, r) \<and> fst q < type_count ctx \<and> snd q < type_count ctx"
              using rank_less [OF ok e(1)] rank_less [OF ok e(2)] arena_okD(2) [OF ok e(1)] arena_okD(2) [OF ok e(2)]
              by (simp add: pair_rank_def)
          qed
          show ?thesis
          proof (rule push)
            show "equal_from ctx seen ((x, y) # ps) = equal_from ctx ((l, r) # seen) (paired_children ?k ?k' @ ps)"
              using new nl nr True by (simp add: equal_from.simps(2) rl(1) rr(1) kl kr)
            show "(\<forall>q\<in>set (paired_children ?k ?k'). same_tree ctx q) \<longleftrightarrow> same_tree ctx (l, r)"
              unfolding paired_children_same [OF len] by (simp add: same_tree_def tl tr h)
            show "\<forall>q\<in>set (paired_children ?k ?k'). pair_rank ctx q < pair_rank ctx (l, r)" using low by blast
          qed (rule ih(1) [OF nl nr True ok ar]; use low rest in auto)
        qed
      qed
    qed
  qed
qed

lemma exactly_equal_iff:
  assumes "arena_ok ctx" "arities_agree ctx" "x < type_count ctx" "y < type_count ctx"
  shows "exactly_equal ctx x y = Some (tree_of ctx x = tree_of ctx y)"
  using equal_from_result [OF assms(1,2), of "[(x, y)]" "[]"] assms(3,4)
  by (auto simp: exactly_equal_def pending_ok_def same_tree_def)

section \<open>Adding bindings\<close>

definition extends :: "type_context \<Rightarrow> type_context \<Rightarrow> bool" where
  "extends ctx ctx' \<longleftrightarrow>
     tc_kinds ctx' = tc_kinds ctx \<and> tc_interned ctx' = tc_interned ctx
     \<and> length (tc_bindings ctx') = length (tc_bindings ctx)
     \<and> (\<forall>v<length (tc_bindings ctx). \<forall>b. tc_bindings ctx ! v = Some b \<longrightarrow> tc_bindings ctx' ! v = Some b)"

lemma extends_refl [simp]: "extends ctx ctx"
  by (simp add: extends_def)

lemma extends_trans: "extends a b \<Longrightarrow> extends b c \<Longrightarrow> extends a c"
  by (simp add: extends_def)

lemma extends_kinds:
  assumes "extends ctx ctx'"
  shows "type_count ctx' = type_count ctx" "kind_of ctx' i = kind_of ctx i"
  using assms by (simp_all add: extends_def kind_of_def)

lemma extends_bound:
  assumes "arena_ok ctx" "extends ctx ctx'" "i < type_count ctx" "bound_of ctx i = Some b"
  shows "bound_of ctx' i = Some b"
proof -
  obtain v where v: "kind_of ctx i = TInferenceVariable v" "tc_bindings ctx ! v = Some b"
    using bound_kind [OF assms(4)] by blast
  have "v < length (tc_bindings ctx)" by (rule arena_okD(3) [OF assms(1,3) v(1)])
  then show ?thesis using v assms(2) by (simp add: bound_of_def extends_kinds [OF assms(2)]) (simp add: extends_def)
qed

lemma extends_edges: "arena_ok ctx \<Longrightarrow> extends ctx ctx' \<Longrightarrow> edges ctx \<subseteq> edges ctx'"
  using extends_bound by (auto simp: edges_def extends_kinds)

lemma relpow_subset:
  fixes r s :: "('a \<times> 'a) set"
  shows "r \<subseteq> s \<Longrightarrow> (x, y) \<in> r ^^ n \<Longrightarrow> (x, y) \<in> s ^^ n"
  by (induction n arbitrary: y) auto

lemma extends_walk: "arena_ok ctx \<Longrightarrow> extends ctx ctx' \<Longrightarrow> walk_into ctx n i \<Longrightarrow> walk_into ctx' n i"
  using relpow_subset [OF extends_edges] by (fastforce simp: walk_into_def extends_kinds(1))

text \<open>Equality of trees where a recovered error matches anything.\<close>

inductive matches :: "ty_tree \<Rightarrow> ty_tree \<Rightarrow> bool" where
  error_left: "matches (Node TError ts) t"
| error_right: "matches t (Node TError ts)"
| same_label: "list_all2 matches ts us \<Longrightarrow> matches (Node h ts) (Node h us)"

inductive_simps matches_Node: "matches (Node h ts) (Node k us)"

lemma matches_refl [simp]: "matches t t"
proof (induction t)
  case (Node h ts)
  then show ?case by (intro same_label) (simp add: list.rel_refl_strong)
qed

text \<open>On trees without errors that is equality.\<close>

fun error_free :: "ty_tree \<Rightarrow> bool" where
  "error_free (Node h ts) \<longleftrightarrow> h \<noteq> TError \<and> (\<forall>t\<in>set ts. error_free t)"

lemma matches_error_free: "matches t u \<Longrightarrow> error_free t \<Longrightarrow> error_free u \<Longrightarrow> t = u"
proof (induction rule: matches.induct)
  case (same_label ts us h)
  then show ?case by (auto simp: list_all2_conv_all_nth intro: nth_equalityI)
qed simp_all

lemma transparent_extends:
  assumes "arena_ok ctx" "extends ctx ctx'" "i < type_count ctx" "transparent ctx i = Some j"
  shows "transparent ctx' i = Some j"
  using assms extends_bound [OF assms(1-3)] by (auto simp: transparent_def extends_kinds split: option.splits)

lemma tree_terminal:
  assumes "arena_ok ctx" "i < type_count ctx" "transparent ctx i = None"
  shows "tree_of ctx i = Node (type_head (kind_of ctx i)) (map (tree_of ctx) (type_children (kind_of ctx i)))"
    "alias_target (kind_of ctx i) = None" "bound_of ctx i = None"
  using tree_of_unfold [OF assms(1,2)] assms(3) by (auto simp: transparent_def split: option.splits)

lemma tree_skip:
  assumes "arena_ok ctx" "i < type_count ctx" "transparent ctx i = Some j"
  shows "tree_of ctx i = tree_of ctx j" "j < type_count ctx" "rank ctx j < rank ctx i"
  using tree_of_unfold [OF assms(1,2)] assms(3) transparent_edge [OF assms(2,3)]
    arena_okD(2) [OF assms(1)] rank_less [OF assms(1)] by auto

lemma head_variable: "type_head k = TInferenceVariable v \<longleftrightarrow> k = TInferenceVariable v"
  by (cases k) (auto simp: type_head_simps length_function_head)

lemma head_error: "type_head k = TError \<longleftrightarrow> k = TError"
  by (cases k) (auto simp: type_head_simps length_function_head)

lemma matches_extends:
  assumes ok: "arena_ok ctx" and ok': "arena_ok ctx'" and ext: "extends ctx ctx'"
  shows "i < type_count ctx \<Longrightarrow> j < type_count ctx \<Longrightarrow> matches (tree_of ctx i) (tree_of ctx j) \<Longrightarrow>
         matches (tree_of ctx' i) (tree_of ctx' j)"
proof (induction "rank ctx i + rank ctx j" arbitrary: i j rule: less_induct)
  case less
  note n = extends_kinds(1) [OF ext] and kk = extends_kinds(2) [OF ext]
  have i': "i < type_count ctx'" and j': "j < type_count ctx'" using less.prems n by simp_all
  show ?case
  proof (cases "transparent ctx i")
    case (Some a)
    note s = tree_skip [OF ok less.prems(1) Some]
      and s' = tree_skip [OF ok' i' transparent_extends [OF ok ext less.prems(1) Some]]
    show ?thesis unfolding s'(1) using s less.prems by (intro less.hyps) simp_all
  next
    case ni: None
    show ?thesis
    proof (cases "transparent ctx j")
      case (Some a)
      note s = tree_skip [OF ok less.prems(2) Some]
        and s' = tree_skip [OF ok' j' transparent_extends [OF ok ext less.prems(2) Some]]
      show ?thesis unfolding s'(1) using s less.prems by (intro less.hyps) simp_all
    next
      case nj: None
      note ti = tree_terminal [OF ok less.prems(1) ni] and tj = tree_terminal [OF ok less.prems(2) nj]
      let ?k = "kind_of ctx i" and ?l = "kind_of ctx j"
      have error: "transparent ctx' m = None" if "kind_of ctx m = TError" for m
        using that by (simp add: transparent_def alias_target_def bound_of_def kk)
      from less.prems(3) consider "?k = TError" | "?l = TError"
        | "type_head ?k = type_head ?l" "list_all2 matches (map (tree_of ctx) (type_children ?k)) (map (tree_of ctx) (type_children ?l))"
        unfolding ti(1) tj(1) matches_Node head_error by metis
      then show ?thesis
      proof cases
        case 1
        with tree_terminal(1) [OF ok' i' error [OF 1]] show ?thesis by (simp add: kk type_head_simps matches.error_left)
      next
        case 2
        with tree_terminal(1) [OF ok' j' error [OF 2]] show ?thesis by (simp add: kk type_head_simps matches.error_right)
      next
        case 3
        show ?thesis
        proof (cases "\<exists>v. ?k = TInferenceVariable v")
          case True
          then have "?k = ?l" using 3(1) by (metis head_variable)
          then have "i = j" by (rule kinds_distinct [OF ok less.prems(1,2)])
          then show ?thesis by simp
        next
          case False
          then have "\<nexists>v. ?l = TInferenceVariable v" using 3(1) by (metis head_variable)
          with False have t': "transparent ctx' i = None" "transparent ctx' j = None"
            using ti(2) tj(2) by (auto simp: transparent_def bound_of_def kk split: type_kind.splits)
          have "list_all2 (\<lambda>a b. matches (tree_of ctx' a) (tree_of ctx' b)) (type_children ?k) (type_children ?l)"
            using 3(2) unfolding list.rel_map
          proof (rule list.rel_mono_strong)
            fix a b assume ab: "a \<in> set (type_children ?k)" "b \<in> set (type_children ?l)" "matches (tree_of ctx a) (tree_of ctx b)"
            have e: "(i, a) \<in> edges ctx" "(j, b) \<in> edges ctx"
              using child_edge [OF less.prems(1) ab(1)] child_edge [OF less.prems(2) ab(2)] by simp_all
            show "matches (tree_of ctx' a) (tree_of ctx' b)"
              using rank_less [OF ok e(1)] rank_less [OF ok e(2)] arena_okD(2) [OF ok e(1)] arena_okD(2) [OF ok e(2)] ab(3)
              by (intro less.hyps) simp_all
          qed
          then show ?thesis
            unfolding tree_terminal(1) [OF ok' i' t'(1)] tree_terminal(1) [OF ok' j' t'(2)] kk 3(1)
            by (intro same_label) (simp add: list.rel_map)
        qed
      qed
    qed
  qed
qed

section \<open>Binding a variable\<close>

definition bind :: "inference_variable_id \<Rightarrow> type_id \<Rightarrow> type_context \<Rightarrow> type_context" where
  "bind v t ctx = ctx\<lparr>tc_bindings := (tc_bindings ctx)[v := Some t]\<rparr>"

lemma bind_facts:
  assumes ok: "arena_ok ctx" and l: "l < type_count ctx" "kind_of ctx l = TInferenceVariable v" "bound_of ctx l = None"
    and t: "t < type_count ctx" "contains_inference ctx t v = Some False"
  shows "arena_ok (bind v t ctx)" "extends ctx (bind v t ctx)" "tree_of (bind v t ctx) l = tree_of (bind v t ctx) t"
proof -
  let ?c = "bind v t ctx"
  have v: "v < length (tc_bindings ctx)" by (rule arena_okD(3) [OF ok l(1,2)])
  have kk: "kind_of ?c i = kind_of ctx i" for i by (simp add: bind_def kind_of_def)
  have bb: "bound_of ?c i = (if i = l then Some t else bound_of ctx i)" if "i < type_count ctx" for i
  proof -
    have "kind_of ctx i = TInferenceVariable v \<longleftrightarrow> i = l" using kinds_distinct [OF ok that l(1)] l(2) by auto
    moreover have "tc_bindings ?c ! w = tc_bindings ctx ! w" if "w \<noteq> v" for w
      using that by (simp add: bind_def)
    moreover have "tc_bindings ?c ! v = Some t" using v by (simp add: bind_def)
    ultimately show ?thesis
      by (cases "kind_of ctx i") (auto simp: bound_of_def kk)
  qed
  have ed: "edges ?c = insert (l, t) (edges ctx)"
  proof (rule set_eqI)
    fix p :: "type_id \<times> type_id"
    obtain i c where p: "p = (i, c)" by fastforce
    have n: "type_count ?c = type_count ctx" by (simp add: bind_def)
    show "p \<in> edges ?c \<longleftrightarrow> p \<in> insert (l, t) (edges ctx)"
      using l bb [of i] by (cases "i = l") (auto simp: p edges_def kk n)
  qed
  have "(t, l) \<notin> (edges ctx)\<^sup>*"
    using t(2) l(2,3) unfolding contains_inference_iff [OF ok t(1)] by auto
  then have ac: "acyclic (edges ?c)" unfolding ed acyclic_insert using arena_okD(4) [OF ok] by simp
  show ok': "arena_ok ?c"
    unfolding arena_ok_def
  proof (intro conjI allI impI)
    show "tc_interned ?c k = Some i \<longleftrightarrow> i < type_count ?c \<and> kind_of ?c i = k" for k i
      using arena_okD(1) [OF ok] by (simp add: kk) (simp add: bind_def)
    show "c < type_count ?c" if "(i, c) \<in> edges ?c" for i c
      using that t(1) arena_okD(2) [OF ok] unfolding ed by (auto simp: bind_def)
    show "w < length (tc_bindings ?c)" if "i < type_count ?c" "kind_of ?c i = TInferenceVariable w" for i w
      using that arena_okD(3) [OF ok] unfolding kk by (auto simp: bind_def)
    show "take 21 (tc_kinds ?c) = initial_kinds" using arena_okD(5) [OF ok] by (simp add: bind_def)
  qed (rule ac)
  show "extends ctx ?c"
    using v l bound_of_variable [OF l(2)] by (auto simp: extends_def bind_def nth_list_update)
  have l': "l < type_count ?c" using l(1) by (simp add: bind_def)
  have "transparent ?c l = Some t" using bb [OF l(1)] l(2) by (simp add: transparent_def kk alias_target_def)
  then show "tree_of ?c l = tree_of ?c t" using tree_of_unfold [OF ok' l'] by simp
qed

lemma bind_variable_cases:
  assumes ok: "arena_ok ctx" and l: "l < type_count ctx" "kind_of ctx l = TInferenceVariable v" "bound_of ctx l = None"
    and t: "t < type_count ctx"
  obtains "bind_variable ctx v t m = Some (ctx, Inl m)"
  | "bind_variable ctx v t m = Some (bind v t ctx, Inr t)" "contains_inference ctx t v = Some False"
proof -
  obtain b where b: "contains_inference ctx t v = Some b" using contains_inference_iff [OF ok t] by simp
  have v: "v < length (tc_bindings ctx)" by (rule arena_okD(3) [OF ok l(1,2)])
  show thesis
    using that b v by (cases b) (simp_all add: bind_variable_def bind_def)
qed

section \<open>Unification\<close>

definition unifies :: "type_context \<Rightarrow> type_id \<Rightarrow> type_id \<Rightarrow> (type_context \<times> (type_mismatch + type_id)) option \<Rightarrow> bool" where
  "unifies ctx x y res \<longleftrightarrow>
     (\<exists>ctx' r. res = Some (ctx', r) \<and> arena_ok ctx' \<and> extends ctx ctx'
        \<and> (case r of Inl m \<Rightarrow> True
           | Inr t \<Rightarrow> t < type_count ctx \<and> matches (tree_of ctx' x) (tree_of ctx' y)))"

lemma unifiesI:
  "res = Some (ctx', r) \<Longrightarrow> arena_ok ctx' \<Longrightarrow> extends ctx ctx' \<Longrightarrow>
   (\<And>t. r = Inr t \<Longrightarrow> t < type_count ctx \<and> matches (tree_of ctx' x) (tree_of ctx' y)) \<Longrightarrow> unifies ctx x y res"
  unfolding unifies_def by (auto split: sum.split)

text \<open>The trees of the two sides may be replaced by equal ones.\<close>

lemma unifies_same:
  assumes u: "unifies ctx x' y' res" and "arena_ok ctx"
    and "(x, x') \<in> (edges ctx)\<^sup>*" "(y, y') \<in> (edges ctx)\<^sup>*"
    and x: "\<And>ctx'. arena_ok ctx' \<Longrightarrow> extends ctx ctx' \<Longrightarrow> tree_of ctx' x = tree_of ctx' x'"
    and y: "\<And>ctx'. arena_ok ctx' \<Longrightarrow> extends ctx ctx' \<Longrightarrow> tree_of ctx' y = tree_of ctx' y'"
  shows "unifies ctx x y res"
proof -
  obtain ctx' r where r: "res = Some (ctx', r)" "arena_ok ctx'" "extends ctx ctx'"
    "case r of Inl m \<Rightarrow> True | Inr t \<Rightarrow> t < type_count ctx \<and> matches (tree_of ctx' x') (tree_of ctx' y')"
    using u by (auto simp: unifies_def)
  then show ?thesis
    using x [OF r(2,3)] y [OF r(2,3)] by (intro unifiesI [OF r(1-3)]) auto
qed

lemma resolved_extends:
  assumes "arena_ok ctx" "arena_ok ctx'" "extends ctx ctx'" "i < type_count ctx"
  shows "tree_of ctx' i = tree_of ctx' (resolved ctx i)"
proof -
  have "(i, resolved ctx i) \<in> (bindings_path ctx')\<^sup>*"
    by (rule subsetD [OF rtrancl_mono resolved_facts(5) [OF assms(1,4)]])
      (auto simp: bindings_path_def extends_kinds [OF assms(3)] intro: extends_bound [OF assms(1,3)])
  then show ?thesis by (rule tree_of_bindings [OF _ assms(2)])
qed

lemma alias_extends:
  assumes "arena_ok ctx" "arena_ok ctx'" "extends ctx ctx'" "i < type_count ctx" "alias_target (kind_of ctx i) = Some t"
  shows "tree_of ctx' i = tree_of ctx' t"
  using tree_alias(1) [OF assms(2), of i t] assms(4,5) by (simp add: extends_kinds [OF assms(3)])

definition deep_enough :: "nat \<Rightarrow> type_context \<Rightarrow> type_id \<Rightarrow> type_id \<Rightarrow> bool" where
  "deep_enough fuel ctx x y \<longleftrightarrow>
     (\<exists>a b. walk_into ctx a x \<and> walk_into ctx b y \<and> 2 * type_count ctx \<le> fuel + a + b)"

lemma deep_enough_Suc:
  assumes "deep_enough fuel ctx x y" "arena_ok ctx"
  obtains n where "fuel = Suc n"
proof -
  obtain a b where "walk_into ctx a x" "walk_into ctx b y" "2 * type_count ctx \<le> fuel + a + b"
    using assms(1) by (auto simp: deep_enough_def)
  then have "fuel \<noteq> 0" using walk_bound [OF assms(2), of a x] walk_bound [OF assms(2), of b y] by auto
  with that show thesis by (cases fuel) auto
qed

lemma deep_enough_step:
  assumes "deep_enough (Suc n) ctx x y" "(x, x') \<in> (edges ctx)\<^sup>*" "(y, y') \<in> (edges ctx)\<^sup>*"
    "(x', u) \<in> edges ctx \<and> (v = y' \<or> (y', v) \<in> edges ctx) \<or> u = x' \<and> (y', v) \<in> edges ctx"
  shows "deep_enough n ctx u v"
proof -
  obtain a b where ab: "walk_into ctx a x" "walk_into ctx b y" "2 * type_count ctx \<le> Suc n + a + b"
    using assms(1) by (auto simp: deep_enough_def)
  obtain a' where a': "a \<le> a'" "walk_into ctx a' x'" using walk_path [OF ab(1) assms(2)] by blast
  obtain b' where b': "b \<le> b'" "walk_into ctx b' y'" using walk_path [OF ab(2) assms(3)] by blast
  have "(\<exists>m\<ge>a'. walk_into ctx m u) \<and> (\<exists>m\<ge>b'. walk_into ctx m v)
      \<and> ((\<exists>m\<ge>Suc a'. walk_into ctx m u) \<or> (\<exists>m\<ge>Suc b'. walk_into ctx m v))"
    using assms(4) walk_edge [OF a'(2)] walk_edge [OF b'(2)] a'(2) b'(2) by (metis le_Suc_eq order_refl)
  then obtain p q where "walk_into ctx p u" "walk_into ctx q v" "Suc (a' + b') \<le> p + q"
    by (metis add_Suc add_Suc_right add_mono)
  then show ?thesis unfolding deep_enough_def using ab(3) a'(1) b'(1) by (intro exI [of _ p] exI [of _ q]) auto
qed

lemma deep_enough_extends:
  "arena_ok ctx \<Longrightarrow> extends ctx ctx' \<Longrightarrow> deep_enough n ctx x y \<Longrightarrow> deep_enough n ctx' x y"
  unfolding deep_enough_def by (auto simp: extends_kinds(1) dest: extends_walk)

lemma unify_pairs_result:
  assumes ih: "\<And>ctx' x y. arena_ok ctx' \<Longrightarrow> extends ctx ctx' \<Longrightarrow> (x, y) \<in> set ps \<Longrightarrow> unifies ctx' x y (f ctx' x y)"
    and ok: "arena_ok ctx" and valid: "\<forall>(x, y)\<in>set ps. x < type_count ctx \<and> y < type_count ctx"
  shows "\<exists>ctx' r. unify_pairs f ctx ps = Some (ctx', r) \<and> arena_ok ctx' \<and> extends ctx ctx'
    \<and> (r = Inr () \<longrightarrow> (\<forall>(x, y)\<in>set ps. matches (tree_of ctx' x) (tree_of ctx' y)))"
  using assms
proof (induction ps arbitrary: ctx)
  case Nil
  then show ?case by simp
next
  case (Cons p ps)
  obtain x y where p: "p = (x, y)" by fastforce
  obtain ctx1 r where f: "f ctx x y = Some (ctx1, r)" "arena_ok ctx1" "extends ctx ctx1"
    "case r of Inl m \<Rightarrow> True | Inr t \<Rightarrow> t < type_count ctx \<and> matches (tree_of ctx1 x) (tree_of ctx1 y)"
    using Cons.prems(1) [OF Cons.prems(2) extends_refl, of x y] p by (auto simp: unifies_def)
  show ?case
  proof (cases r)
    case (Inl m)
    with f show ?thesis by (simp add: p)
  next
    case (Inr t)
    have "\<exists>ctx' r. unify_pairs f ctx1 ps = Some (ctx', r) \<and> arena_ok ctx' \<and> extends ctx1 ctx'
      \<and> (r = Inr () \<longrightarrow> (\<forall>(x, y)\<in>set ps. matches (tree_of ctx' x) (tree_of ctx' y)))"
    proof (rule Cons.IH [OF _ f(2)])
      show "unifies ctx' u v (f ctx' u v)" if "arena_ok ctx'" "extends ctx1 ctx'" "(u, v) \<in> set ps" for ctx' u v
        using Cons.prems(1) [OF that(1) extends_trans [OF f(3) that(2)]] that(3) by simp
      show "\<forall>(x, y)\<in>set ps. x < type_count ctx1 \<and> y < type_count ctx1"
        using Cons.prems(3) by (auto simp: extends_kinds(1) [OF f(3)])
    qed
    then obtain ctx2 s where c2: "unify_pairs f ctx1 ps = Some (ctx2, s)" "arena_ok ctx2" "extends ctx1 ctx2"
      "s = Inr () \<longrightarrow> (\<forall>(x, y)\<in>set ps. matches (tree_of ctx2 x) (tree_of ctx2 y))" by blast
    have "matches (tree_of ctx2 x) (tree_of ctx2 y)"
      using matches_extends [OF f(2) c2(2,3)] f(4) Inr Cons.prems(3) p extends_kinds(1) [OF f(3)] by simp
    with c2 f Inr extends_trans [OF f(3) c2(3)] show ?thesis by (simp add: p)
  qed
qed

lemma unify_result:
  "arena_ok ctx \<Longrightarrow> arities_agree ctx \<Longrightarrow> x < type_count ctx \<Longrightarrow> y < type_count ctx \<Longrightarrow> deep_enough fuel ctx x y \<Longrightarrow>
   unifies ctx x y (unify fuel ctx x y)"
proof (induction fuel arbitrary: ctx x y)
  case 0
  then show ?case by (auto elim: deep_enough_Suc)
next
  case (Suc n)
  note ok = Suc.prems(1) and ar = Suc.prems(2)
  define l where "l = resolved ctx x"
  define r where "r = resolved ctx y"
  note rl = resolved_facts [OF ok Suc.prems(3), folded l_def] and rr = resolved_facts [OF ok Suc.prems(4), folded r_def]
  note kl = kind_at_eq [OF rl(2)] and kr = kind_at_eq [OF rr(2)]
  have lift: "unifies ctx x y res" if "unifies ctx l r res" for res
    using unifies_same [OF that ok rl(4) rr(4)] resolved_extends [OF ok _ _ Suc.prems(3), folded l_def]
      resolved_extends [OF ok _ _ Suc.prems(4), folded r_def] by blast
  have child: "unifies ctx' u v (unify n ctx' u v)"
    if "arena_ok ctx'" "extends ctx ctx'"
      "(l, u) \<in> edges ctx \<and> (v = r \<or> (r, v) \<in> edges ctx) \<or> u = l \<and> (r, v) \<in> edges ctx" for ctx' u v
  proof (rule Suc.IH [OF that(1)])
    show "arities_agree ctx'" using ar by (simp add: arities_agree_def extends_kinds [OF that(2)])
    show "u < type_count ctx'" "v < type_count ctx'"
      using that(3) rl(2) rr(2) arena_okD(2) [OF ok] by (auto simp: extends_kinds(1) [OF that(2)])
    show "deep_enough n ctx' u v"
      by (rule deep_enough_extends [OF ok that(2) deep_enough_step [OF Suc.prems(5) rl(4) rr(4) that(3)]])
  qed
  have "unifies ctx l r (unify (Suc n) ctx x y)"
  proof (cases "l = r \<or> l = error_type \<or> r = error_type")
    case True
    then have "unify (Suc n) ctx x y = Some (ctx, Inr (if l = error_type then r else l))" by (simp add: rl(1) rr(1))
    moreover have "tree_of ctx error_type = Node TError []"
    proof -
      note e = error_kind [OF ok]
      have "transparent ctx error_type = None" by (simp add: transparent_def e(2) alias_target_def bound_of_def)
      from tree_terminal(1) [OF ok e(1) this] show ?thesis by (simp add: e(2) type_head_simps)
    qed
    ultimately show ?thesis
      using True ok rl(2) rr(2) by (intro unifiesI) (auto intro: matches.error_left matches.error_right)
  next
    case new: False
    show ?thesis
    proof (cases "alias_target (kind_of ctx l)")
      case (Some t)
      note ta = tree_alias [OF ok rl(2) Some]
      have eq: "unify (Suc n) ctx x y = unify n ctx t r" using new Some by (simp add: rl(1) rr(1) kl kr)
      show ?thesis unfolding eq
        by (rule unifies_same [OF child [OF ok extends_refl] ok r_into_rtrancl [OF ta(2)] rtrancl_refl])
          (use ta(2) alias_extends [OF ok _ _ rl(2) Some] in auto)
    next
      case nl: None
      show ?thesis
      proof (cases "alias_target (kind_of ctx r)")
        case (Some t)
        note ta = tree_alias [OF ok rr(2) Some]
        have eq: "unify (Suc n) ctx x y = unify n ctx l t" using new nl Some by (simp add: rl(1) rr(1) kl kr)
        show ?thesis unfolding eq
          by (rule unifies_same [OF child [OF ok extends_refl] ok rtrancl_refl r_into_rtrancl [OF ta(2)]])
            (use ta(2) alias_extends [OF ok _ _ rr(2) Some] in auto)
      next
        case nr: None
        let ?m = "TypeMismatch l r"
        show ?thesis
        proof (cases "variable_of (kind_of ctx l)")
          case (Some v)
          then have v: "kind_of ctx l = TInferenceVariable v" by (simp add: variable_of_def split: type_kind.splits)
          have eq: "unify (Suc n) ctx x y = bind_variable ctx v r ?m"
            using new nl nr Some by (simp add: rl(1) rr(1) kl kr)
          from bind_variable_cases [OF ok rl(2) v rl(3) rr(2), of ?m] show ?thesis
          proof cases
            case 1
            then show ?thesis unfolding eq using ok by (intro unifiesI) auto
          next
            case 2
            note b = bind_facts [OF ok rl(2) v rl(3) rr(2) 2(2)]
            show ?thesis unfolding eq by (rule unifiesI [OF 2(1) b(1,2)]) (simp add: b(3) rr(2))
          qed
        next
          case vl: None
          show ?thesis
          proof (cases "variable_of (kind_of ctx r)")
            case (Some v)
            then have v: "kind_of ctx r = TInferenceVariable v" by (simp add: variable_of_def split: type_kind.splits)
            have eq: "unify (Suc n) ctx x y = bind_variable ctx v l ?m"
              using new nl nr vl Some by (simp add: rl(1) rr(1) kl kr)
            from bind_variable_cases [OF ok rr(2) v rr(3) rl(2), of ?m] show ?thesis
            proof cases
              case 1
              then show ?thesis unfolding eq using ok by (intro unifiesI) auto
            next
              case 2
              note b = bind_facts [OF ok rr(2) v rr(3) rl(2) 2(2)]
              show ?thesis unfolding eq by (rule unifiesI [OF 2(1) b(1,2)]) (simp add: b(3) rl(2))
            qed
          next
            case vr: None
            let ?k = "kind_of ctx l" and ?k' = "kind_of ctx r"
            show ?thesis
            proof (cases "same_outer_shape ?k ?k'")
              case False
              then have "unify (Suc n) ctx x y = Some (ctx, Inl ?m)"
                using new nl nr vl vr by (simp add: rl(1) rr(1) kl kr)
              then show ?thesis using ok by (intro unifiesI) auto
            next
              case True
              then have a: "arity ?k = arity ?k'" using ar rl(2) rr(2) by (auto simp: arities_agree_def)
              then have len: "length (type_children ?k) = length (type_children ?k')" by (simp add: arity_def)
              let ?ps = "paired_children ?k ?k'"
              have sides: "(l, u) \<in> edges ctx \<and> (r, v) \<in> edges ctx" if "(u, v) \<in> set ?ps" for u v
                using paired_children_sides [OF that] child_edge [OF rl(2)] child_edge [OF rr(2)] by simp
              have "\<exists>ctx' res. unify_pairs (unify n) ctx ?ps = Some (ctx', res) \<and> arena_ok ctx' \<and> extends ctx ctx'
                  \<and> (res = Inr () \<longrightarrow> (\<forall>(x, y)\<in>set ?ps. matches (tree_of ctx' x) (tree_of ctx' y)))"
                by (rule unify_pairs_result [OF _ ok]) (use child sides arena_okD(2) [OF ok] in blast)+
              then obtain ctx' res where c: "unify_pairs (unify n) ctx ?ps = Some (ctx', res)" "arena_ok ctx'" "extends ctx ctx'"
                "res = Inr () \<longrightarrow> (\<forall>(x, y)\<in>set ?ps. matches (tree_of ctx' x) (tree_of ctx' y))" by blast
              show ?thesis
              proof (cases res)
                case (Inl m)
                then have "unify (Suc n) ctx x y = Some (ctx', Inl m)"
                  using new nl nr vl vr True c(1) by (simp add: rl(1) rr(1) kl kr)
                with c(2,3) show ?thesis by (intro unifiesI) auto
              next
                case (Inr u)
                then have e: "unify (Suc n) ctx x y = Some (ctx', Inr l)"
                  using new nl nr vl vr True c(1) by (simp add: rl(1) rr(1) kl kr)
                have n: "type_count ctx' = type_count ctx" and kk: "kind_of ctx' i = kind_of ctx i" for i
                  using extends_kinds [OF c(3)] by simp_all
                have t: "transparent ctx' l = None" "transparent ctx' r = None"
                  using nl nr vl vr by (auto simp: transparent_def kk bound_of_def variable_of_def split: type_kind.splits)
                have "list_all2 (\<lambda>a b. matches (tree_of ctx' a) (tree_of ctx' b)) (type_children ?k) (type_children ?k')"
                  using c(4) Inr len by (auto simp: list_all2_iff paired_children_def)
                moreover have "tree_of ctx' l = Node (type_head ?k) (map (tree_of ctx') (type_children ?k))"
                  using tree_terminal(1) [OF c(2) _ t(1)] rl(2) by (simp add: n kk)
                moreover have "tree_of ctx' r = Node (type_head ?k) (map (tree_of ctx') (type_children ?k'))"
                  using tree_terminal(1) [OF c(2) _ t(2)] rr(2) shape_head [OF True a] by (simp add: n kk)
                ultimately have "matches (tree_of ctx' l) (tree_of ctx' r)"
                  by (simp add: same_label list.rel_map)
                with e c(2,3) rl(2) show ?thesis by (intro unifiesI) auto
              qed
            qed
          qed
        qed
      qed
    qed
  qed
  then show ?case by (rule lift)
qed

section \<open>Most general\<close>

text \<open>
  \<open>solves ctx d\<close>: the arena \<open>d\<close> has the kinds of \<open>ctx\<close> and gives every variable \<open>ctx\<close> binds the
  tree of its binding; \<open>d\<close> need not bind it the same way.
\<close>

definition solves :: "type_context \<Rightarrow> type_context \<Rightarrow> bool" where
  "solves ctx d \<longleftrightarrow> tc_kinds d = tc_kinds ctx
     \<and> (\<forall>i b. i < type_count ctx \<longrightarrow> bound_of ctx i = Some b \<longrightarrow> tree_of d i = tree_of d b)"

text \<open>
  The occurs check looks at the arguments of an alias, which the tree does not show; it is exact when every inference
  variable below an alias is also below its target, as it is when aliases use all their parameters.
\<close>

definition aliases_used :: "type_context \<Rightarrow> bool" where
  "aliases_used ctx \<longleftrightarrow>
     (\<forall>i t j v. alias_target (kind_of ctx i) = Some t \<longrightarrow> kind_of ctx j = TInferenceVariable v \<longrightarrow>
        (i, j) \<in> (edges ctx)\<^sup>* \<longrightarrow> (t, j) \<in> (edges ctx)\<^sup>*)"

definition seen_edges :: "type_context \<Rightarrow> (type_id \<times> type_id) set" where
  "seen_edges ctx = {(i, c) \<in> edges ctx. \<forall>t. alias_target (kind_of ctx i) = Some t \<longrightarrow> c = t}"

lemma used_seen:
  assumes ok: "arena_ok ctx" and used: "aliases_used ctx" and v: "kind_of ctx j = TInferenceVariable v"
  shows "(i, j) \<in> (edges ctx)\<^sup>* \<Longrightarrow> (i, j) \<in> (seen_edges ctx)\<^sup>*"
proof (induction "rank ctx i" arbitrary: i rule: less_induct)
  case less
  show ?case
  proof (cases "i = j")
    case False
    with less.prems obtain c where c: "(i, c) \<in> edges ctx" "(c, j) \<in> (edges ctx)\<^sup>*" by (auto elim: converse_rtranclE)
    have "\<exists>c. (i, c) \<in> seen_edges ctx \<and> (c, j) \<in> (edges ctx)\<^sup>*"
    proof (cases "alias_target (kind_of ctx i)")
      case None
      with c show ?thesis by (auto simp: seen_edges_def)
    next
      case (Some t)
      then have "(i, t) \<in> seen_edges ctx" using tree_alias(2) [OF ok edges_source [OF c(1)] Some] by (simp add: seen_edges_def)
      moreover have "(t, j) \<in> (edges ctx)\<^sup>*" using used Some v less.prems unfolding aliases_used_def by blast
      ultimately show ?thesis by blast
    qed
    then obtain c where c: "(i, c) \<in> seen_edges ctx" "(c, j) \<in> (edges ctx)\<^sup>*" by blast
    then have "(i, c) \<in> edges ctx" by (simp add: seen_edges_def)
    from less.hyps [OF rank_less [OF ok this] c(2)] c(1) show ?thesis by (rule converse_rtrancl_into_rtrancl [rotated])
  qed simp
qed

text \<open>Later bindings only hang something below variables, so they do not change this.\<close>

lemma extends_path:
  assumes "extends ctx ctx'" "(i, j) \<in> (edges ctx')\<^sup>*"
  shows "(i, j) \<in> (edges ctx)\<^sup>* \<or> (\<exists>l v. kind_of ctx l = TInferenceVariable v \<and> (i, l) \<in> (edges ctx)\<^sup>* \<and> (l, j) \<in> (edges ctx')\<^sup>*)"
  using assms(2)
proof (induction rule: rtrancl_induct)
  case (step j k)
  have "(j, k) \<in> edges ctx \<or> (\<exists>v. kind_of ctx j = TInferenceVariable v)"
    using step.hyps(2) bound_kind [of ctx' j] by (auto simp: edges_def extends_kinds [OF assms(1)])
  then show ?case using step by (meson r_into_rtrancl rtrancl_trans)
qed simp

lemma aliases_used_extends:
  assumes "arena_ok ctx" "extends ctx ctx'" "aliases_used ctx"
  shows "aliases_used ctx'"
  unfolding aliases_used_def extends_kinds [OF assms(2)]
proof (intro allI impI)
  fix i t j v assume a: "alias_target (kind_of ctx i) = Some t" "kind_of ctx j = TInferenceVariable v" "(i, j) \<in> (edges ctx')\<^sup>*"
  have sub: "(p, q) \<in> (edges ctx)\<^sup>* \<Longrightarrow> (p, q) \<in> (edges ctx')\<^sup>*" for p q
    using rtrancl_mono [OF extends_edges [OF assms(1,2)]] by blast
  from extends_path [OF assms(2) a(3)] obtain l w where
    "kind_of ctx l = TInferenceVariable w" "(i, l) \<in> (edges ctx)\<^sup>*" "(l, j) \<in> (edges ctx')\<^sup>*"
    using a(2) by blast
  moreover from this have "(t, l) \<in> (edges ctx)\<^sup>*" using assms(3) a(1) unfolding aliases_used_def by blast
  ultimately show "(t, j) \<in> (edges ctx')\<^sup>*" using sub by (meson rtrancl_trans)
qed

lemma solves_kinds: "solves ctx d \<Longrightarrow> kind_of d i = kind_of ctx i" "solves ctx d \<Longrightarrow> type_count d = type_count ctx"
  by (simp_all add: solves_def kind_of_def)

lemma solves_path:
  "(i, j) \<in> (bindings_path ctx)\<^sup>* \<Longrightarrow> solves ctx d \<Longrightarrow> tree_of d i = tree_of d j"
  by (induction rule: rtrancl_induct) (auto simp: solves_def bindings_path_def)

lemma solves_terminal:
  assumes "arena_ok d" "solves ctx d" "i < type_count ctx" "alias_target (kind_of ctx i) = None" "variable_of (kind_of ctx i) = None"
  shows "tree_of d i = Node (type_head (kind_of ctx i)) (map (tree_of d) (type_children (kind_of ctx i)))"
proof -
  note k = solves_kinds [OF assms(2)]
  have "transparent d i = None"
    using assms(4,5) by (auto simp: transparent_def k(1) bound_of_def variable_of_def split: type_kind.splits)
  then show ?thesis using tree_terminal(1) [OF assms(1), of i] assms(3) by (simp add: k)
qed

lemma solves_alias:
  assumes "arena_ok d" "solves ctx d" "i < type_count ctx" "alias_target (kind_of ctx i) = Some t"
  shows "tree_of d i = tree_of d t"
  using tree_alias(1) [OF assms(1), of i t] assms(3,4) by (simp add: solves_kinds [OF assms(2)])

lemma solves_edge:
  assumes "arena_ok d" "solves ctx d" "(i, c) \<in> seen_edges ctx"
  shows "size (tree_of d c) \<le> size (tree_of d i)
    \<and> (alias_target (kind_of ctx i) = None \<longrightarrow> variable_of (kind_of ctx i) = None \<longrightarrow> size (tree_of d c) < size (tree_of d i))"
proof -
  have e: "(i, c) \<in> edges ctx" "\<forall>t. alias_target (kind_of ctx i) = Some t \<longrightarrow> c = t"
    using assms(3) by (auto simp: seen_edges_def)
  have i: "i < type_count ctx" by (rule edges_source [OF e(1)])
  show ?thesis
  proof (cases "alias_target (kind_of ctx i)")
    case (Some t)
    then show ?thesis using solves_alias [OF assms(1,2) i Some] e(2) by simp
  next
    case al: None
    show ?thesis
    proof (cases "variable_of (kind_of ctx i)")
      case (Some v)
      then have "bound_of ctx i = Some c" using e(1) by (auto simp: edges_def variable_of_def split: type_kind.splits)
      then show ?thesis using assms(2) i Some by (auto simp: solves_def)
    next
      case None
      have "c \<in> set (type_children (kind_of ctx i))"
        using e(1) None by (auto simp: edges_def bound_of_def variable_of_def split: type_kind.splits)
      then have "tree_of d c \<in> set (map (tree_of d) (type_children (kind_of ctx i)))" by simp
      from size_list_estimation' [OF this order_refl, of size]
      show ?thesis using solves_terminal [OF assms(1,2) i al None] by simp
    qed
  qed
qed

lemma solves_reach:
  assumes "arena_ok d" "solves ctx d"
  shows "(i, j) \<in> (seen_edges ctx)\<^sup>* \<Longrightarrow> size (tree_of d j) \<le> size (tree_of d i)"
  by (induction rule: rtrancl_induct) (use solves_edge [OF assms] in fastforce)+

lemma solved_occurs:
  assumes ok: "arena_ok ctx" and d: "arena_ok d" "solves ctx d" and used: "aliases_used ctx"
    and l: "l < type_count ctx" "kind_of ctx l = TInferenceVariable v"
    and r: "r < type_count ctx" "bound_of ctx r = None" "alias_target (kind_of ctx r) = None" "l \<noteq> r"
    and eq: "tree_of d l = tree_of d r"
  shows "contains_inference ctx r v = Some False"
proof -
  have "j \<noteq> l" if "(r, j) \<in> (edges ctx)\<^sup>*" for j
  proof
    assume [simp]: "j = l"
    have "(r, l) \<in> (seen_edges ctx)\<^sup>*" using used_seen [OF ok used l(2)] that by simp
    with r(4) obtain c where c: "(r, c) \<in> seen_edges ctx" "(c, l) \<in> (seen_edges ctx)\<^sup>*" by (auto elim: converse_rtranclE)
    have "variable_of (kind_of ctx r) = None"
      using c(1) r(2) by (auto simp: seen_edges_def edges_def variable_of_def split: type_kind.splits)
    with solves_edge [OF d c(1)] solves_reach [OF d c(2)] eq r(3) show False by simp
  qed
  then have "\<not> ((r, j) \<in> (edges ctx)\<^sup>* \<and> kind_of ctx j = TInferenceVariable v)" for j
    using kinds_distinct [OF ok _ l(1)] l(2) rtrancl_bounded [OF ok _ r(1)] by metis
  then show ?thesis unfolding contains_inference_iff [OF ok r(1)] by blast
qed

lemma solves_bind:
  assumes ok: "arena_ok ctx" and s: "solves ctx d"
    and l: "l < type_count ctx" "kind_of ctx l = TInferenceVariable v" and eq: "tree_of d l = tree_of d t"
  shows "solves (bind v t ctx) d"
proof -
  have v: "v < length (tc_bindings ctx)" by (rule arena_okD(3) [OF ok l])
  have "tree_of d i = tree_of d b" if i: "i < type_count ctx" "bound_of (bind v t ctx) i = Some b" for i b
  proof (cases "i = l")
    case True
    with i(2) l(2) v have "b = t" by (simp add: bound_of_def bind_def kind_of_def)
    with True eq show ?thesis by simp
  next
    case False
    obtain w where w: "kind_of (bind v t ctx) i = TInferenceVariable w" "tc_bindings (bind v t ctx) ! w = Some b"
      using bound_kind [OF i(2)] by blast
    then have "kind_of ctx i = TInferenceVariable w" by (simp add: bind_def kind_of_def)
    moreover from this have "w \<noteq> v" using kinds_distinct [OF ok i(1) l(1)] l(2) False by auto
    ultimately have "bound_of ctx i = Some b" using w(2) by (simp add: bound_of_def bind_def)
    with s i(1) show ?thesis by (simp add: solves_def)
  qed
  then show ?thesis using s by (simp add: solves_def) (simp add: bind_def)
qed

lemma unify_pairs_complete:
  assumes ih: "\<And>ctx' x y. arena_ok ctx' \<Longrightarrow> extends ctx ctx' \<Longrightarrow> solves ctx' d \<Longrightarrow> (x, y) \<in> set ps \<Longrightarrow>
      \<exists>ctx2 t. f ctx' x y = Some (ctx2, Inr t) \<and> arena_ok ctx2 \<and> extends ctx' ctx2 \<and> solves ctx2 d"
    and "arena_ok ctx" "solves ctx d"
  shows "\<exists>ctx'. unify_pairs f ctx ps = Some (ctx', Inr ()) \<and> arena_ok ctx' \<and> extends ctx ctx' \<and> solves ctx' d"
  using assms
proof (induction ps arbitrary: ctx)
  case Nil
  then show ?case by simp
next
  case (Cons p ps)
  obtain x y where p: "p = (x, y)" by fastforce
  obtain c2 t where c2: "f ctx x y = Some (c2, Inr t)" "arena_ok c2" "extends ctx c2" "solves c2 d"
    using Cons.prems(1) [OF Cons.prems(2) extends_refl Cons.prems(3), of x y] p by auto
  have "\<exists>ctx'. unify_pairs f c2 ps = Some (ctx', Inr ()) \<and> arena_ok ctx' \<and> extends c2 ctx' \<and> solves ctx' d"
  proof (rule Cons.IH [OF _ c2(2,4)])
    show "\<exists>c3 t. f c' u v = Some (c3, Inr t) \<and> arena_ok c3 \<and> extends c' c3 \<and> solves c3 d"
      if "arena_ok c'" "extends c2 c'" "solves c' d" "(u, v) \<in> set ps" for c' u v
      using Cons.prems(1) [OF that(1) extends_trans [OF c2(3) that(2)] that(3), of u v] that(4) by simp
  qed
  with c2 extends_trans [OF c2(3)] show ?case by (auto simp: p)
qed

lemma zip_map_eq: "map f xs = map f ys \<Longrightarrow> (u, v) \<in> set (zip xs ys) \<Longrightarrow> f u = f v"
proof (induction xs arbitrary: ys)
  case (Cons x xs)
  then show ?case by (cases ys) auto
qed simp

lemma unify_complete:
  "arena_ok ctx \<Longrightarrow> arities_agree ctx \<Longrightarrow> x < type_count ctx \<Longrightarrow> y < type_count ctx \<Longrightarrow> deep_enough fuel ctx x y \<Longrightarrow>
   arena_ok d \<Longrightarrow> aliases_used ctx \<Longrightarrow> solves ctx d \<Longrightarrow> tree_of d x = tree_of d y \<Longrightarrow>
   \<exists>ctx' t. unify fuel ctx x y = Some (ctx', Inr t) \<and> arena_ok ctx' \<and> extends ctx ctx' \<and> solves ctx' d"
proof (induction fuel arbitrary: ctx x y)
  case 0
  then show ?case by (auto elim: deep_enough_Suc)
next
  case (Suc n)
  note ok = Suc.prems(1) and ar = Suc.prems(2) and d = Suc.prems(6) and af = Suc.prems(7) and sol = Suc.prems(8)
  define l where "l = resolved ctx x"
  define r where "r = resolved ctx y"
  note rl = resolved_facts [OF ok Suc.prems(3), folded l_def] and rr = resolved_facts [OF ok Suc.prems(4), folded r_def]
  note kl = kind_at_eq [OF rl(2)] and kr = kind_at_eq [OF rr(2)]
  have eq: "tree_of d l = tree_of d r"
    using Suc.prems(9) solves_path [OF rl(5) sol] solves_path [OF rr(5) sol] by simp
  have res: "unifies ctx x y (unify (Suc n) ctx x y)" by (rule unify_result [OF Suc.prems(1-5)])
  have finish: ?case if "unify (Suc n) ctx x y = Some (ctx', Inr t)" "solves ctx' d" for ctx' t
    using that res by (auto simp: unifies_def)
  show ?case
  proof (cases "l = r \<or> l = error_type \<or> r = error_type")
    case True
    then have "unify (Suc n) ctx x y = Some (ctx, Inr (if l = error_type then r else l))" by (simp add: rl(1) rr(1))
    then show ?thesis using sol by (rule finish)
  next
    case new: False
    let ?m = "TypeMismatch l r"
    have further: "\<exists>ctx' t. unify n ctx u v = Some (ctx', Inr t) \<and> arena_ok ctx' \<and> extends ctx ctx' \<and> solves ctx' d"
      if "(l, u) \<in> edges ctx \<and> v = r \<or> u = l \<and> (r, v) \<in> edges ctx" "tree_of d u = tree_of d v" for u v
    proof (rule Suc.IH [OF ok ar _ _ deep_enough_step [OF Suc.prems(5) rl(4) rr(4)] d af sol that(2)])
      show "u < type_count ctx" "v < type_count ctx" using that(1) rl(2) rr(2) arena_okD(2) [OF ok] by blast+
    qed (use that(1) in blast)
    consider t where "alias_target (kind_of ctx l) = Some t"
      | t where "alias_target (kind_of ctx l) = None" "alias_target (kind_of ctx r) = Some t"
      | "alias_target (kind_of ctx l) = None" "alias_target (kind_of ctx r) = None"
      by (meson option.exhaust)
    then show ?thesis
    proof cases
      case (1 t)
      have "unify (Suc n) ctx x y = unify n ctx t r" using new 1 by (simp add: rl(1) rr(1) kl kr)
      with further [of t r] tree_alias(2) [OF ok rl(2) 1] solves_alias [OF d sol rl(2) 1] eq show ?thesis by simp
    next
      case (2 t)
      have "unify (Suc n) ctx x y = unify n ctx l t" using new 2 by (simp add: rl(1) rr(1) kl kr)
      with further [of l t] tree_alias(2) [OF ok rr(2) 2(2)] solves_alias [OF d sol rr(2) 2(2)] eq show ?thesis by simp
    next
    case 3
    note nl = 3(1) and nr = 3(2)
    show ?thesis
    proof (cases "variable_of (kind_of ctx l)")
      case (Some v)
      then have v: "kind_of ctx l = TInferenceVariable v" by (simp add: variable_of_def split: type_kind.splits)
      have "contains_inference ctx r v = Some False"
        by (rule solved_occurs [OF ok d sol af rl(2) v rr(2,3) nr _ eq]) (use new in simp)
      then have "unify (Suc n) ctx x y = Some (bind v r ctx, Inr r)"
        using new nl nr Some bind_variable_cases [OF ok rl(2) v rl(3) rr(2), of ?m] arena_okD(3) [OF ok rl(2) v]
        by (simp add: rl(1) rr(1) kl kr bind_variable_def bind_def)
      then show ?thesis by (rule finish) (rule solves_bind [OF ok sol rl(2) v eq])
    next
      case vl: None
      show ?thesis
      proof (cases "variable_of (kind_of ctx r)")
        case (Some v)
        then have v: "kind_of ctx r = TInferenceVariable v" by (simp add: variable_of_def split: type_kind.splits)
        have "contains_inference ctx l v = Some False"
          by (rule solved_occurs [OF ok d sol af rr(2) v rl(2,3) nl _ eq [symmetric]]) (use new in simp)
        then have "unify (Suc n) ctx x y = Some (bind v l ctx, Inr l)"
          using new nl nr vl Some arena_okD(3) [OF ok rr(2) v]
          by (simp add: rl(1) rr(1) kl kr bind_variable_def bind_def)
        then show ?thesis by (rule finish) (rule solves_bind [OF ok sol rr(2) v eq [symmetric]])
      next
        case vr: None
        let ?k = "kind_of ctx l" and ?k' = "kind_of ctx r"
        note tl = solves_terminal [OF d sol rl(2) nl vl] and tr = solves_terminal [OF d sol rr(2) nr vr]
        have h: "type_head ?k = type_head ?k'" "map (tree_of d) (type_children ?k) = map (tree_of d) (type_children ?k')"
          using eq tl tr by simp_all
        have shape: "same_outer_shape ?k ?k'" by (rule head_shape [OF h(1) nl])
        have "\<exists>ctx'. unify_pairs (unify n) ctx (paired_children ?k ?k') = Some (ctx', Inr ())
            \<and> arena_ok ctx' \<and> extends ctx ctx' \<and> solves ctx' d"
        proof (rule unify_pairs_complete [OF _ ok sol])
          fix c' u v assume c': "arena_ok c'" "extends ctx c'" "solves c' d" and uv: "(u, v) \<in> set (paired_children ?k ?k')"
          have e: "(l, u) \<in> edges ctx" "(r, v) \<in> edges ctx"
            using paired_children_sides [OF uv] child_edge [OF rl(2)] child_edge [OF rr(2)] by simp_all
          have "tree_of d u = tree_of d v"
            by (rule zip_map_eq [OF h(2)]) (use uv in \<open>simp add: paired_children_def\<close>)
          moreover have "deep_enough n c' u v"
            by (rule deep_enough_extends [OF ok c'(2) deep_enough_step [OF Suc.prems(5) rl(4) rr(4)]]) (use e in blast)
          moreover have "arities_agree c'" "aliases_used c'" "u < type_count c'" "v < type_count c'"
            using ar arena_okD(2) [OF ok e(1)] arena_okD(2) [OF ok e(2)] aliases_used_extends [OF ok c'(2) af]
            by (simp_all add: extends_kinds [OF c'(2)] arities_agree_def)
          ultimately show "\<exists>c2 t. unify n c' u v = Some (c2, Inr t) \<and> arena_ok c2 \<and> extends c' c2 \<and> solves c2 d"
            using c'(1,3) d by (intro Suc.IH)
        qed
        then obtain ctx' where "unify_pairs (unify n) ctx (paired_children ?k ?k') = Some (ctx', Inr ())" "solves ctx' d" by blast
        then show ?thesis
          using new nl nr vl vr shape by (intro finish [of ctx' l]) (simp_all add: rl(1) rr(1) kl kr)
      qed
    qed
    qed
  qed
qed

end
