(* ===== verification/Type_Build.thy ===== *)
theory Type_Build
  imports Type_Unify
begin

text \<open>
  How arenas come about (\<^verbatim>\<open>src/types/context.rs\<close>): interning keeps the arena a hash-consed acyclic
  graph, and substitution is the homomorphic extension of its leaves to the trees types denote.
\<close>

section \<open>Interning\<close>

definition valid_kind :: "type_context \<Rightarrow> type_kind \<Rightarrow> bool" where
  "valid_kind ctx k \<longleftrightarrow>
     (\<forall>c\<in>set (type_children k). c < type_count ctx)
     \<and> (\<forall>v. k = TInferenceVariable v \<longrightarrow> v < length (tc_bindings ctx) \<and> tc_bindings ctx ! v = None)"

definition grows :: "type_context \<Rightarrow> type_context \<Rightarrow> bool" where
  "grows ctx ctx' \<longleftrightarrow> (\<exists>ks. tc_kinds ctx' = tc_kinds ctx @ ks) \<and> tc_bindings ctx' = tc_bindings ctx"

lemma grows_refl [simp]: "grows ctx ctx"
  by (simp add: grows_def)

lemma grows_trans: "grows a b \<Longrightarrow> grows b c \<Longrightarrow> grows a c"
  by (auto simp: grows_def)

lemma transparent_cong:
  assumes "kind_of c' j = kind_of c i" "tc_bindings c' = tc_bindings c"
  shows "bound_of c' j = bound_of c i" "transparent c' j = transparent c i"
proof -
  show "bound_of c' j = bound_of c i" using assms by (cases "kind_of c i") (simp_all add: bound_of_def)
  with assms(1) show "transparent c' j = transparent c i" by (simp add: transparent_def split: option.split)
qed

lemma grows_facts:
  assumes "grows ctx ctx'"
  shows "type_count ctx \<le> type_count ctx'" "i < type_count ctx \<Longrightarrow> kind_of ctx' i = kind_of ctx i"
    "i < type_count ctx \<Longrightarrow> bound_of ctx' i = bound_of ctx i"
    "i < type_count ctx \<Longrightarrow> transparent ctx' i = transparent ctx i"
proof -
  have k: "kind_of ctx' i = kind_of ctx i" if "i < type_count ctx" for i
    using assms that by (auto simp: grows_def kind_of_def nth_append)
  moreover have b: "bound_of ctx' i = bound_of ctx i" if "i < type_count ctx" for i
    using transparent_cong(1) [OF k [OF that]] assms by (simp add: grows_def)
  ultimately show "i < type_count ctx \<Longrightarrow> kind_of ctx' i = kind_of ctx i"
    "i < type_count ctx \<Longrightarrow> bound_of ctx' i = bound_of ctx i"
    "i < type_count ctx \<Longrightarrow> transparent ctx' i = transparent ctx i"
    by (simp_all add: transparent_def split: option.split)
  show "type_count ctx \<le> type_count ctx'" using assms by (auto simp: grows_def)
qed

lemma grows_tree:
  assumes ok: "arena_ok ctx" and ok': "arena_ok ctx'" and g: "grows ctx ctx'"
  shows "i < type_count ctx \<Longrightarrow> tree_of ctx' i = tree_of ctx i"
proof (induction "rank ctx i" arbitrary: i rule: less_induct)
  case less
  note f = grows_facts [OF g]
  have i': "i < type_count ctx'" using less.prems f(1) by simp
  have ih: "tree_of ctx' c = tree_of ctx c" if "(i, c) \<in> edges ctx" for c
    by (rule less.hyps [OF rank_less [OF ok that] arena_okD(2) [OF ok that]])
  show ?case
  proof (cases "transparent ctx i")
    case (Some j)
    then show ?thesis
      using tree_of_unfold [OF ok less.prems] tree_of_unfold [OF ok' i'] f(4) [OF less.prems]
        ih [OF transparent_edge [OF less.prems Some]] by simp
  next
    case None
    have "map (tree_of ctx') (type_children (kind_of ctx i)) = map (tree_of ctx) (type_children (kind_of ctx i))"
      using ih child_edge [OF less.prems] by simp
    then show ?thesis
      using None tree_of_unfold [OF ok less.prems] tree_of_unfold [OF ok' i'] f(2,4) [OF less.prems] by simp
  qed
qed

lemma intern_facts:
  assumes ok: "arena_ok ctx" and k: "valid_kind ctx k" and i: "intern ctx k = Some (ctx', i)"
  shows "arena_ok ctx'" "grows ctx ctx'" "i < type_count ctx'" "kind_of ctx' i = k" "type_count ctx' \<le> Suc (type_count ctx)"
proof -
  have "arena_ok ctx' \<and> grows ctx ctx' \<and> i < type_count ctx' \<and> kind_of ctx' i = k \<and> type_count ctx' \<le> Suc (type_count ctx)"
  proof (cases "tc_interned ctx k")
    case (Some j)
    with i have "ctx' = ctx" "i = j" by (simp_all add: intern_def)
    with ok Some arena_okD(1) [OF ok, of k j] show ?thesis by simp
  next
    case None
    let ?n = "type_count ctx"
    from i None have c: "ctx' = ctx\<lparr>tc_kinds := tc_kinds ctx @ [k], tc_interned := (tc_interned ctx)(k \<mapsto> ?n)\<rparr>" "i = ?n"
      by (auto simp: intern_def split: option.splits)
    have g: "grows ctx ctx'" by (simp add: c grows_def)
    note f = grows_facts [OF g]
    have n': "type_count ctx' = Suc ?n" by (simp add: c)
    have kn: "kind_of ctx' ?n = k" by (simp add: c kind_of_def)
    have bn: "bound_of ctx' ?n = None"
    proof -
      have "tc_bindings ctx' = tc_bindings ctx" by (simp add: c)
      with k kn show ?thesis by (auto simp: bound_of_def valid_kind_def split: type_kind.split)
    qed
    have new: "kind_of ctx j \<noteq> k" if "j < ?n" for j
      using arena_okD(1) [OF ok, of k j] that None by auto
    have ed: "(a, b) \<in> edges ctx' \<longleftrightarrow> (a, b) \<in> edges ctx \<or> a = ?n \<and> b \<in> set (type_children k)" for a b
      using f(2,3) by (auto simp: edges_def n' less_Suc_eq kn bn)
    have "arena_ok ctx'"
      unfolding arena_ok_def
    proof (intro conjI allI impI)
      show "tc_interned ctx' l = Some j \<longleftrightarrow> j < type_count ctx' \<and> kind_of ctx' j = l" for l j
      proof (cases "l = k")
        case True
        have "tc_interned ctx' k = Some ?n" by (simp add: c)
        with True new f(2) kn show ?thesis by (auto simp: n' less_Suc_eq)
      next
        case False
        have "tc_interned ctx' l = tc_interned ctx l" using False by (simp add: c)
        with False arena_okD(1) [OF ok, of l j] f(2) kn show ?thesis by (auto simp: n' less_Suc_eq)
      qed
      show "b < type_count ctx'" if "(a, b) \<in> edges ctx'" for a b
        using that k arena_okD(2) [OF ok] by (auto simp: ed n' valid_kind_def less_SucI)
      show "v < length (tc_bindings ctx')" if "j < type_count ctx'" "kind_of ctx' j = TInferenceVariable v" for j v
        using that k arena_okD(3) [OF ok] kn f(2) by (auto simp: n' less_Suc_eq valid_kind_def c)
      show "acyclic (edges ctx')"
      proof (rule acyclicI_order [where f = "\<lambda>a. if a = ?n then ?n else rank ctx a"])
        fix a b assume "(a, b) \<in> edges ctx'"
        then consider "(a, b) \<in> edges ctx" | "a = ?n" "b < ?n" using k by (auto simp: ed valid_kind_def)
        then show "(if b = ?n then ?n else rank ctx b) < (if a = ?n then ?n else rank ctx a)"
        proof cases
          case 1
          then show ?thesis using rank_less [OF ok 1] arena_okD(2) [OF ok 1] edges_source [OF 1] by simp
        next
          case 2
          then show ?thesis using rank_bound [OF ok 2(2)] by simp
        qed
      qed
      have "21 \<le> ?n" by (rule arena_nonempty [OF ok])
      then show "take 21 (tc_kinds ctx') = initial_kinds" using arena_okD(5) [OF ok] by (simp add: c)
    qed
    with g n' kn c show ?thesis by simp
  qed
  then show "arena_ok ctx'" "grows ctx ctx'" "i < type_count ctx'" "kind_of ctx' i = k" "type_count ctx' \<le> Suc (type_count ctx)"
    by simp_all
qed

lemma intern_room: "type_count ctx \<le> u32_max \<Longrightarrow> \<exists>r. intern ctx k = Some r"
  by (auto simp: intern_def split: option.split)

lemma intern_existing: "arena_ok ctx \<Longrightarrow> i < type_count ctx \<Longrightarrow> intern ctx (kind_of ctx i) = Some (ctx, i)"
  using arena_okD(1) [of ctx "kind_of ctx i" i] by (simp add: intern_def)

section \<open>Substitution\<close>

text \<open>Both substitutions are one rewriting of leaves; the leaves differ.\<close>

primrec rewrite ::
  "nat \<Rightarrow> (type_id \<Rightarrow> type_kind \<Rightarrow> type_id option) \<Rightarrow> type_context \<Rightarrow> type_id \<Rightarrow> (type_context \<times> type_id) option" where
  "rewrite 0 leaf ctx ty = None"
| "rewrite (Suc fuel) leaf ctx ty =
     (case resolve_inference ctx ty of
        None \<Rightarrow> None
      | Some ty \<Rightarrow>
          (case kind_at ctx ty of
             None \<Rightarrow> None
           | Some kind \<Rightarrow>
               (case leaf ty kind of
                  Some r \<Rightarrow> Some (ctx, r)
                | None \<Rightarrow>
                    (case map_type_children (rewrite fuel leaf) ctx kind of
                       None \<Rightarrow> None
                     | Some (ctx', replaced) \<Rightarrow> intern ctx' replaced))))"

definition generic_leaf :: "substitution \<Rightarrow> type_id \<Rightarrow> type_kind \<Rightarrow> type_id option" where
  "generic_leaf \<sigma> ty k =
     (case k of TGenericParameter g \<Rightarrow> Some (case \<sigma> g of Some r \<Rightarrow> r | None \<Rightarrow> ty) | _ \<Rightarrow> None)"

definition self_leaf :: "type_id \<Rightarrow> type_id \<Rightarrow> type_kind \<Rightarrow> type_id option" where
  "self_leaf target ty k = (case k of TSelfType d \<Rightarrow> Some target | _ \<Rightarrow> None)"

lemma substitute_rewrite: "substitute fuel \<sigma> = rewrite fuel (generic_leaf \<sigma>)"
proof (induction fuel)
  case (Suc n)
  show ?case
    by (intro ext) (auto simp: Suc generic_leaf_def split: option.split type_kind.split)
qed (auto simp: fun_eq_iff)

lemma substitute_self_rewrite: "substitute_self fuel target = rewrite fuel (self_leaf target)"
proof (induction fuel)
  case (Suc n)
  show ?case
    by (intro ext) (auto simp: Suc self_leaf_def split: option.split type_kind.split)
qed (auto simp: fun_eq_iff)

fun rewrite_tree :: "(type_kind \<Rightarrow> ty_tree option) \<Rightarrow> ty_tree \<Rightarrow> ty_tree" where
  "rewrite_tree f (Node h ts) = (case f h of Some t \<Rightarrow> t | None \<Rightarrow> Node h (map (rewrite_tree f) ts))"

text \<open>How many nodes a rewriting visits, an upper bound of what it interns.\<close>

primrec visits :: "nat \<Rightarrow> type_context \<Rightarrow> type_id \<Rightarrow> nat" where
  "visits 0 ctx i = 0"
| "visits (Suc n) ctx i = Suc (sum_list (map (visits n ctx) (type_children (kind_of ctx (resolved ctx i)))))"

text \<open>Leaves have no children and stand for the trees \<open>f\<close> gives their labels.\<close>

definition leaf_ok :: "type_context \<Rightarrow> (type_id \<Rightarrow> type_kind \<Rightarrow> type_id option) \<Rightarrow> (type_kind \<Rightarrow> ty_tree option) \<Rightarrow> bool" where
  "leaf_ok ctx leaf f \<longleftrightarrow>
     (\<forall>i<type_count ctx. case leaf i (kind_of ctx i) of
        None \<Rightarrow> f (type_head (kind_of ctx i)) = None
      | Some r \<Rightarrow> r < type_count ctx \<and> transparent ctx i = None \<and> f (type_head (kind_of ctx i)) = Some (tree_of ctx r))"

lemma resolved_grows:
  assumes "arena_ok c0" "arena_ok c" "grows c0 c" "i < type_count c0"
  shows "resolved c i = resolved c0 i"
proof -
  note f = grows_facts [OF assms(3)] and r = resolved_facts [OF assms(1,4)]
  have "(i, resolved c0 i) \<in> (bindings_path c)\<^sup>*"
    by (rule subsetD [OF rtrancl_mono r(5)]) (use f in \<open>auto simp: bindings_path_def\<close>)
  moreover have "bound_of c (resolved c0 i) = None" using f(3) r(2,3) by simp
  ultimately have "resolve_inference c i = Some (resolved c0 i)"
    using resolve_inference_eq [OF assms(2)] assms(4) f(1) by simp
  then show ?thesis by (simp add: resolved_def)
qed

definition rewritten ::
  "type_context \<Rightarrow> (type_kind \<Rightarrow> ty_tree option) \<Rightarrow> type_context \<Rightarrow> nat \<Rightarrow> type_id \<Rightarrow> (type_context \<times> type_id) option \<Rightarrow> bool" where
  "rewritten c0 f c w i res \<longleftrightarrow>
     (\<exists>c' t. res = Some (c', t) \<and> arena_ok c' \<and> grows c c' \<and> type_count c' \<le> type_count c + w
        \<and> t < type_count c' \<and> tree_of c' t = rewrite_tree f (tree_of c0 i))"

lemma rewrite_children:
  assumes step: "\<And>c i. arena_ok c \<Longrightarrow> grows c0 c \<Longrightarrow> type_count c + g i \<le> Suc u32_max \<Longrightarrow> i \<in> set is \<Longrightarrow>
      rewritten c0 f c (g i) i (h c i)"
  shows "arena_ok c \<Longrightarrow> grows c0 c \<Longrightarrow> type_count c + sum_list (map g is) \<le> Suc u32_max \<Longrightarrow>
    \<exists>c' ts. map_state h c is = Some (c', ts) \<and> arena_ok c' \<and> grows c c'
      \<and> type_count c' \<le> type_count c + sum_list (map g is) \<and> (\<forall>t\<in>set ts. t < type_count c')
      \<and> map (tree_of c') ts = map (\<lambda>i. rewrite_tree f (tree_of c0 i)) is"
  using step
proof (induction "is" arbitrary: c)
  case Nil
  then show ?case by simp
next
  case (Cons i "is")
  obtain c1 t where c1: "h c i = Some (c1, t)" "arena_ok c1" "grows c c1" "type_count c1 \<le> type_count c + g i"
    "t < type_count c1" "tree_of c1 t = rewrite_tree f (tree_of c0 i)"
    using Cons.prems(4) [OF Cons.prems(1,2), of i] Cons.prems(3) by (auto simp: rewritten_def)
  have "\<exists>c' ts. map_state h c1 is = Some (c', ts) \<and> arena_ok c' \<and> grows c1 c'
      \<and> type_count c' \<le> type_count c1 + sum_list (map g is) \<and> (\<forall>t\<in>set ts. t < type_count c')
      \<and> map (tree_of c') ts = map (\<lambda>i. rewrite_tree f (tree_of c0 i)) is"
    using Cons.prems c1(4) by (intro Cons.IH [OF c1(2) grows_trans [OF Cons.prems(2) c1(3)]]) auto
  then obtain c2 ts where c2: "map_state h c1 is = Some (c2, ts)" "arena_ok c2" "grows c1 c2"
    "type_count c2 \<le> type_count c1 + sum_list (map g is)" "\<forall>t\<in>set ts. t < type_count c2"
    "map (tree_of c2) ts = map (\<lambda>i. rewrite_tree f (tree_of c0 i)) is" by blast
  have "t < type_count c2" "tree_of c2 t = tree_of c1 t"
    using c1(5) grows_facts(1) [OF c2(3)] grows_tree [OF c1(2) c2(2,3) c1(5)] by simp_all
  with c1 c2 grows_trans [OF c1(3) c2(3)] show ?case by (auto simp: case_prod_beta)
qed

lemma rewrite_result:
  assumes ok0: "arena_ok c0" and lf: "leaf_ok c0 leaf f"
  shows "arena_ok c \<Longrightarrow> grows c0 c \<Longrightarrow> i < type_count c0 \<Longrightarrow> walk_into c0 a i \<Longrightarrow> type_count c0 \<le> fuel + a \<Longrightarrow>
    type_count c + visits fuel c0 i \<le> Suc u32_max \<Longrightarrow> rewritten c0 f c (visits fuel c0 i) i (rewrite fuel leaf c i)"
proof (induction fuel arbitrary: c i a)
  case 0
  then show ?case using walk_bound [OF ok0] by fastforce
next
  case (Suc n)
  note ok = Suc.prems(1) and g = Suc.prems(2)
  note f = grows_facts [OF g]
  define t where "t = resolved c0 i"
  note r = resolved_facts [OF ok0 Suc.prems(3), folded t_def]
  have t': "t < type_count c" using r(2) f(1) by simp
  have res: "resolve_inference c i = Some t"
    using resolved_facts(1) [OF ok, of i] resolved_grows [OF ok0 ok g Suc.prems(3)] Suc.prems(3) f(1) by (simp add: t_def)
  have k: "kind_at c t = Some (kind_of c0 t)" using kind_at_eq [OF t'] f(2) [OF r(2)] by simp
  let ?k = "kind_of c0 t"
  have tree: "tree_of c0 i = tree_of c0 t" using r(6) by simp
  show ?case
  proof (cases "leaf t ?k")
    case (Some q)
    then have q: "q < type_count c0" "transparent c0 t = None" "f (type_head ?k) = Some (tree_of c0 q)"
      using lf r(2) by (auto simp: leaf_ok_def split: option.splits)
    have "rewrite (Suc n) leaf c i = Some (c, q)" by (simp add: res k Some)
    moreover have "rewrite_tree f (tree_of c0 t) = tree_of c0 q"
      using tree_terminal(1) [OF ok0 r(2) q(2)] q(3) by simp
    ultimately show ?thesis
      using ok q(1) f(1) grows_tree [OF ok0 ok g q(1)] by (simp add: rewritten_def tree)
  next
    case None
    then have fn: "f (type_head ?k) = None" using lf r(2) by (auto simp: leaf_ok_def split: option.splits)
    let ?cs = "type_children ?k" and ?g = "visits n c0"
    have v: "visits (Suc n) c0 i = Suc (sum_list (map ?g ?cs))" by (simp add: t_def)
    obtain b where b: "a \<le> b" "walk_into c0 b t" using walk_path [OF Suc.prems(4) r(4)] by blast
    have "\<exists>c' ts. map_state (rewrite n leaf) c ?cs = Some (c', ts) \<and> arena_ok c' \<and> grows c c'
      \<and> type_count c' \<le> type_count c + sum_list (map ?g ?cs) \<and> (\<forall>t\<in>set ts. t < type_count c')
      \<and> map (tree_of c') ts = map (\<lambda>i. rewrite_tree f (tree_of c0 i)) ?cs"
    proof (rule rewrite_children [OF _ ok g])
      fix c' j assume c': "arena_ok c'" "grows c0 c'" "type_count c' + ?g j \<le> Suc u32_max" "j \<in> set ?cs"
      have e: "(t, j) \<in> edges c0" by (rule child_edge [OF r(2) c'(4)])
      show "rewritten c0 f c' (?g j) j (rewrite n leaf c' j)"
        using Suc.prems(5) b(1) by (intro Suc.IH [OF c'(1,2) arena_okD(2) [OF ok0 e] walk_edge [OF b(2) e] _ c'(3)]) simp
    qed (use Suc.prems(6) v in simp)
    then obtain c' ts where c': "map_state (rewrite n leaf) c ?cs = Some (c', ts)" "arena_ok c'" "grows c c'"
      "type_count c' \<le> type_count c + sum_list (map ?g ?cs)" "\<forall>t\<in>set ts. t < type_count c'"
      "map (tree_of c') ts = map (\<lambda>i. rewrite_tree f (tree_of c0 i)) ?cs" by blast
    note g' = grows_trans [OF g c'(3)]
    have len: "length ts = length ?cs" by (rule map_state_length [OF c'(1)])
    let ?new = "with_children ?k ts"
    have eq: "rewrite (Suc n) leaf c i = intern c' ?new" by (simp add: res k None map_type_children_def c'(1))
    have valid: "valid_kind c' ?new"
      unfolding valid_kind_def
    proof (intro conjI allI impI)
      show "\<forall>x\<in>set (type_children ?new). x < type_count c'" using c'(5) by (simp add: len)
      fix w assume "?new = TInferenceVariable w"
      then have w: "?k = TInferenceVariable w" by (metis head_variable len type_head_with_children)
      have "w < length (tc_bindings c0)" by (rule arena_okD(3) [OF ok0 r(2) w])
      moreover have "tc_bindings c0 ! w = None" using r(3) w by (simp add: bound_of_def)
      moreover have "tc_bindings c' = tc_bindings c0" using g' by (simp add: grows_def)
      ultimately show "w < length (tc_bindings c')" "tc_bindings c' ! w = None" by simp_all
    qed
    have "type_count c' \<le> u32_max" using c'(4) Suc.prems(6) v by simp
    then obtain c2 q where i2: "intern c' ?new = Some (c2, q)" using intern_room [of c' ?new] by auto
    note n2 = intern_facts [OF c'(2) valid i2]
    have trees: "map (tree_of c2) ts = map (\<lambda>i. rewrite_tree f (tree_of c0 i)) ?cs"
      using c'(5,6) grows_tree [OF c'(2) n2(1,2)] by (metis (no_types, lifting) map_eq_conv)
    have "tree_of c2 q = rewrite_tree f (tree_of c0 t)"
    proof (cases "alias_target ?k")
      case (Some target)
      then obtain d args where al: "?k = TAlias d args target" by (auto simp: alias_target_def split: type_kind.splits)
      with len have "ts \<noteq> []" by auto
      then have ll: "last ts = ts ! (length ts - 1)" "alias_target ?new = Some (last ts)"
        by (simp_all add: last_conv_nth al alias_target_def)
      have "tree_of c2 q = tree_of c2 (last ts)"
        using tree_alias(1) [OF n2(1,3), of "last ts"] ll(2) by (simp add: n2(4))
      also have "\<dots> = last (map (tree_of c2) ts)" using \<open>ts \<noteq> []\<close> by (simp add: last_map)
      also have "\<dots> = rewrite_tree f (tree_of c0 target)" unfolding trees using al by (simp add: last_map)
      also have "tree_of c0 target = tree_of c0 t" using tree_alias(1) [OF ok0 r(2) Some] by simp
      finally show ?thesis .
    next
      case na: None
      have tt: "transparent c0 t = None" using na r(3) by (simp add: transparent_def)
      have "transparent c2 q = None"
      proof (cases "\<exists>w. ?k = TInferenceVariable w")
        case True
        then have "?new = ?k" "ts = []" using len by auto
        moreover have "tc_bindings c2 = tc_bindings c0" using g' n2(2) by (simp add: grows_def)
        ultimately show ?thesis using tt transparent_cong(2) [of c2 q c0 t] n2(4) by simp
      next
        case False
        then have "\<nexists>w. ?new = TInferenceVariable w" by (metis head_variable len type_head_with_children)
        moreover have "alias_target ?new = None" using na len by (cases ?k) (auto simp: alias_target_def Let_def)
        ultimately show ?thesis using n2(4) by (auto simp: transparent_def bound_of_def split: type_kind.split)
      qed
      from tree_terminal(1) [OF n2(1,3) this] tree_terminal(1) [OF ok0 r(2) tt]
      show ?thesis by (simp add: n2(4) len type_head_with_children fn trees)
    qed
    then show ?thesis
      using i2 eq n2 c'(3,4) v grows_trans [OF c'(3) n2(2)] by (auto simp: rewritten_def tree)
  qed
qed

end
