(* ===== verification/Type_Theorems.thy ===== *)
theory Type_Theorems
  imports Type_Build
begin

text \<open>
  The arenas the operations of \<^verbatim>\<open>src/types/context.rs\<close> build, and what holds of them: hash-consing,
  equality, unification and substitution against the trees types denote.
\<close>

section \<open>Entry points\<close>

text \<open>The recursive operations with fuel that suffices for every arena built below.\<close>

definition unify_types :: "type_context \<Rightarrow> type_id \<Rightarrow> type_id \<Rightarrow> (type_context \<times> (type_mismatch + type_id)) option" where
  "unify_types ctx x y = unify (2 * length (tc_kinds ctx)) ctx x y"

definition substitute_type :: "substitution \<Rightarrow> type_context \<Rightarrow> type_id \<Rightarrow> (type_context \<times> type_id) option" where
  "substitute_type \<sigma> ctx ty = substitute (length (tc_kinds ctx)) \<sigma> ctx ty"

definition substitute_self_type :: "type_id \<Rightarrow> type_context \<Rightarrow> type_id \<Rightarrow> (type_context \<times> type_id) option" where
  "substitute_self_type target ctx ty = substitute_self (length (tc_kinds ctx)) target ctx ty"

lemma unify_deep_enough: "x < type_count ctx \<Longrightarrow> y < type_count ctx \<Longrightarrow> deep_enough (2 * type_count ctx) ctx x y"
  unfolding deep_enough_def by (intro exI [of _ 0]) (simp add: walk_start)

inductive built :: "type_context \<Rightarrow> bool" where
  created: "context_new = Some ctx \<Longrightarrow> built ctx"
| interned: "built ctx \<Longrightarrow> valid_kind ctx k \<Longrightarrow> intern ctx k = Some (ctx', i) \<Longrightarrow> built ctx'"
| variable: "built ctx \<Longrightarrow> fresh_inference_variable ctx = Some (ctx', i) \<Longrightarrow> built ctx'"
| unified: "built ctx \<Longrightarrow> arities_agree ctx \<Longrightarrow> x < type_count ctx \<Longrightarrow> y < type_count ctx \<Longrightarrow>
    unify_types ctx x y = Some (ctx', r) \<Longrightarrow> built ctx'"

section \<open>The invariant\<close>

lemma context_new_kinds:
  assumes c: "context_new = Some ctx"
  shows "tc_kinds ctx = initial_kinds \<and> tc_bindings ctx = []"
proof -
  have "map_option tc_kinds context_new = Some initial_kinds" "map_option tc_bindings context_new = Some []" by code_simp+
  then show ?thesis unfolding c by simp
qed

lemma intern_interned:
  assumes "\<forall>k i. tc_interned ctx k = Some i \<longleftrightarrow> i < type_count ctx \<and> kind_of ctx i = k" "intern ctx k = Some (ctx', i)"
  shows "\<forall>k i. tc_interned ctx' k = Some i \<longleftrightarrow> i < type_count ctx' \<and> kind_of ctx' i = k"
proof (cases "tc_interned ctx k")
  case (Some j)
  with assms show ?thesis by (simp add: intern_def)
next
  case None
  with assms(2) have c: "ctx' = ctx\<lparr>tc_kinds := tc_kinds ctx @ [k], tc_interned := (tc_interned ctx)(k \<mapsto> type_count ctx)\<rparr>"
    by (auto simp: intern_def split: option.splits)
  have new: "kind_of ctx j \<noteq> k" if "j < type_count ctx" for j
    using assms(1) [rule_format, of k j] None that by simp
  have n: "type_count ctx' = Suc (type_count ctx)" by (simp add: c)
  have kk: "kind_of ctx' j = (if j < type_count ctx then kind_of ctx j else k)" if "j \<le> type_count ctx" for j
    using that by (auto simp: c kind_of_def nth_append)
  show ?thesis
  proof (intro allI)
    fix l j
    have "tc_interned ctx' l = (if l = k then Some (type_count ctx) else tc_interned ctx l)" by (simp add: c)
    then show "tc_interned ctx' l = Some j \<longleftrightarrow> j < type_count ctx' \<and> kind_of ctx' j = l"
      using assms(1) [rule_format, of l j] new [of j] kk [of j] by (auto simp: n less_Suc_eq)
  qed
qed

lemma context_new_interned:
  "context_new = Some ctx \<Longrightarrow> tc_interned ctx k = Some i \<longleftrightarrow> i < type_count ctx \<and> kind_of ctx i = k"
proof -
  have "\<forall>k i. tc_interned c' k = Some i \<longleftrightarrow> i < type_count c' \<and> kind_of c' i = k"
    if "map_state intern c ks = Some (c', is)" "\<forall>k i. tc_interned c k = Some i \<longleftrightarrow> i < type_count c \<and> kind_of c i = k" for c ks c' "is"
    using that
  proof (induction ks arbitrary: c "is")
    case (Cons k ks)
    then obtain c1 j js where s: "intern c k = Some (c1, j)" "map_state intern c1 ks = Some (c', js)"
      by (auto split: option.splits prod.splits)
    show ?case by (rule Cons.IH [OF s(2) intern_interned [OF Cons.prems(2) s(1)]])
  qed simp
  then show "context_new = Some ctx \<Longrightarrow> tc_interned ctx k = Some i \<longleftrightarrow> i < type_count ctx \<and> kind_of ctx i = k"
    by (fastforce simp: context_new_def)
qed

lemma context_new_ok: "context_new = Some ctx \<Longrightarrow> arena_ok ctx"
proof -
  assume c: "context_new = Some ctx"
  note k = context_new_kinds [OF c]
  have "\<forall>x\<in>set initial_kinds. type_children x = [] \<and> variable_of x = None" by code_simp
  then have leaf: "type_children (kind_of ctx i) = [] \<and> variable_of (kind_of ctx i) = None" if "i < type_count ctx" for i
    using that k by (simp add: kind_of_def)
  have var: "kind_of ctx i \<noteq> TInferenceVariable v" if "i < type_count ctx" for i v
    using leaf [OF that] by (auto simp: variable_of_def)
  have "bound_of ctx i = None" if "i < type_count ctx" for i
    using var [OF that] by (auto simp: bound_of_def split: type_kind.split)
  then have e: "edges ctx = {}" using leaf by (auto simp: edges_def)
  have "take 21 (tc_kinds ctx) = initial_kinds" unfolding conjunct1 [OF k] by code_simp
  then show ?thesis
    unfolding arena_ok_def e using context_new_interned [OF c] var by (simp add: acyclic_def)
qed

lemma fresh_facts:
  assumes ok: "arena_ok ctx" and f: "fresh_inference_variable ctx = Some (ctx', i)"
  shows "arena_ok ctx'"
proof -
  let ?v = "length (tc_bindings ctx)" and ?c = "ctx\<lparr>tc_bindings := tc_bindings ctx @ [None]\<rparr>"
  have i: "intern ?c (TInferenceVariable ?v) = Some (ctx', i)" using f by (auto simp: fresh_inference_variable_def split: option.splits)
  have kk: "kind_of ?c j = kind_of ctx j" for j by (simp add: kind_of_def)
  have bb: "bound_of ?c j = bound_of ctx j" if "j < type_count ctx" for j
  proof (cases "\<exists>w. kind_of ctx j = TInferenceVariable w")
    case True
    then obtain w where w: "kind_of ctx j = TInferenceVariable w" by blast
    then have "w < ?v" by (rule arena_okD(3) [OF ok that])
    then show ?thesis using w kk by (simp add: bound_of_def nth_append)
  next
    case False
    then show ?thesis by (simp add: bound_of_def kk split: type_kind.split)
  qed
  have e: "edges ?c = edges ctx" using bb by (auto simp: edges_def kk)
  have "arena_ok ?c"
    unfolding arena_ok_def e kk using ok arena_okD(3) [OF ok] by (auto simp: arena_ok_def less_Suc_eq)
  moreover have "valid_kind ?c (TInferenceVariable ?v)" by (simp add: valid_kind_def)
  ultimately show ?thesis using i by (rule intern_facts(1))
qed

lemma built_ok: "built ctx \<Longrightarrow> arena_ok ctx"
proof (induction rule: built.induct)
  case (unified ctx x y ctx' r)
  then have "unifies ctx x y (unify_types ctx x y)"
    unfolding unify_types_def by (intro unify_result) (simp_all add: unify_deep_enough)
  then show ?case using unified by (auto simp: unifies_def)
qed (auto intro: context_new_ok fresh_facts intern_facts(1))

section \<open>A concrete arena\<close>

text \<open>The tuples \<open>(?0, i32)\<close>, \<open>(bool, i32)\<close> and \<open>(T, ?0)\<close> over a variable and a generic parameter.\<close>

definition after :: "type_context \<Rightarrow> (type_context \<times> type_id) option \<Rightarrow> type_context" where
  "after ctx r = (case r of Some (ctx', i) \<Rightarrow> ctx' | None \<Rightarrow> ctx)"

definition sample_base :: type_context where
  "sample_base = (case context_new of Some ctx \<Rightarrow> ctx | None \<Rightarrow> \<lparr>tc_kinds = [], tc_interned = Map.empty, tc_bindings = []\<rparr>)"

definition sample_var :: type_context where
  "sample_var = after sample_base (fresh_inference_variable sample_base)"

definition sample_pair :: type_context where
  "sample_pair = after sample_var (intern sample_var (TTuple [21, 7]))"

definition sample_arena :: type_context where
  "sample_arena = after sample_pair (intern sample_pair (TTuple [3, 7]))"

definition sample_unified :: type_context where
  "sample_unified = (case unify_types sample_arena 22 23 of Some (ctx, r) \<Rightarrow> ctx | None \<Rightarrow> sample_arena)"

lemma after_Some: "r = Some (ctx', i) \<Longrightarrow> after ctx r = ctx'"
  by (simp add: after_def)

lemma some_after: "\<exists>i. map_option snd r = Some i \<Longrightarrow> \<exists>i. r = Some (after ctx r, i)"
  by (auto simp: after_def)

lemma sample_built: "built sample_arena" "built sample_base"
proof -
  have "tc_kinds sample_base \<noteq> []" by code_simp
  then have "context_new = Some sample_base" by (auto simp: sample_base_def split: option.splits)
  then show b0: "built sample_base" by (rule built.created)
  have "map_option snd (fresh_inference_variable sample_base) = Some 21"
    "map_option snd (intern sample_var (TTuple [21, 7])) = Some 22"
    "map_option snd (intern sample_pair (TTuple [3, 7])) = Some 23" by code_simp+
  then obtain i j k where s: "fresh_inference_variable sample_base = Some (sample_var, i)"
    "intern sample_var (TTuple [21, 7]) = Some (sample_pair, j)"
    "intern sample_pair (TTuple [3, 7]) = Some (sample_arena, k)"
    unfolding sample_var_def sample_pair_def sample_arena_def using some_after by metis
  have b1: "built sample_var" by (rule built.variable [OF b0 s(1)])
  have "length (tc_kinds sample_var) = 22" "length (tc_kinds sample_pair) = 23" by code_simp+
  then have "valid_kind sample_var (TTuple [21, 7])" "valid_kind sample_pair (TTuple [3, 7])" by (simp_all add: valid_kind_def)
  with b1 s show "built sample_arena" by (blast intro: built.interned)
qed

lemma sample_arities: "arities_agree sample_arena" "length (tc_kinds sample_arena) = 24"
proof -
  have "list_all (\<lambda>k. list_all (\<lambda>l. same_outer_shape k l \<longrightarrow> arity k = arity l) (tc_kinds sample_arena)) (tc_kinds sample_arena)"
    by code_simp
  then show "arities_agree sample_arena" by (auto simp: arities_agree_def list_all_iff kind_of_def)
  show "length (tc_kinds sample_arena) = 24" by code_simp
qed

section \<open>Properties\<close>








text \<open>The alias \<open>type A[T] = (T, u8)\<close> at a variable, against a tuple\<close>

definition sample_aliased :: type_context where
  "sample_aliased = after sample_arena (intern sample_arena (TAlias 5 [21] 22))"

definition sample_alias_unified :: type_context where
  "sample_alias_unified = (case unify_types sample_aliased 24 23 of Some (ctx, r) \<Rightarrow> ctx | None \<Rightarrow> sample_aliased)"

lemma sample_aliased_built: "built sample_aliased" "arities_agree sample_aliased" "type_count sample_aliased = 25"
proof -
  have "map_option snd (intern sample_arena (TAlias 5 [21] 22)) = Some 24" by code_simp
  then obtain i where "intern sample_arena (TAlias 5 [21] 22) = Some (sample_aliased, i)"
    unfolding sample_aliased_def using some_after by metis
  moreover have "valid_kind sample_arena (TAlias 5 [21] 22)" using sample_arities(2) by (simp add: valid_kind_def)
  ultimately show "built sample_aliased" using sample_built(1) by (blast intro: built.interned)
  have "list_all (\<lambda>k. list_all (\<lambda>l. same_outer_shape k l \<longrightarrow> arity k = arity l) (tc_kinds sample_aliased)) (tc_kinds sample_aliased)"
    by code_simp
  then show "arities_agree sample_aliased" by (auto simp: arities_agree_def list_all_iff kind_of_def)
  show "type_count sample_aliased = 25" by code_simp
qed

lemma sample_aliases_used: "aliases_used sample_aliased"
  unfolding aliases_used_def
proof (intro allI impI)
  let ?c = sample_aliased
  have al: "map alias_target (tc_kinds ?c) = replicate 24 None @ [Some 22]"
    and va: "map variable_of (tc_kinds ?c) = replicate 21 None @ [Some 0] @ replicate 3 None"
    and kd: "tc_kinds ?c ! 22 = TTuple [21, 7]" by code_simp+
  have n: "type_count ?c = 25" by (rule sample_aliased_built(3))
  have kal: "alias_target (kind_of ?c i) = (replicate 24 None @ [Some 22]) ! i" if "i < 25" for i
    using that n unfolding al [symmetric] by (simp add: kind_of_def)
  have kva: "variable_of (kind_of ?c i) = (replicate 21 None @ [Some 0] @ replicate 3 None) ! i" if "i < 25" for i
    using that n unfolding va [symmetric] by (simp add: kind_of_def)
  fix i t j v
  assume a: "alias_target (kind_of ?c i) = Some t" "kind_of ?c j = TInferenceVariable v" "(i, j) \<in> (edges ?c)\<^sup>*"
  then have "i \<noteq> j" by (auto simp: alias_target_def)
  with a(3) obtain c where "(i, c) \<in> edges ?c" by (auto elim: converse_rtranclE)
  then have i25: "i < 25" using edges_source n by force
  then have "j < 25" using rtrancl_bounded [OF built_ok [OF sample_aliased_built(1)] a(3)] n by simp
  with i25 a(1,2) kal [of i] kva [of j] have "i = 24" "j = 21"
    by (auto simp: variable_of_def nth_append nth_Cons split: if_splits nat.splits)
  moreover from this have "t = 22" using a(1) kal [of 24] by (simp add: nth_append)
  ultimately show "(t, j) \<in> (edges ?c)\<^sup>*"
    using kd n by (auto intro!: r_into_rtrancl child_edge simp: kind_of_def)
qed


text \<open>C24: substitution returns when the arena has room, leaves every existing type as it was, and yields
  the type whose tree is the old one with every generic parameter replaced.\<close>

theorem substitute_homomorphic:
  assumes "built ctx" "ty < length (tc_kinds ctx)" "\<forall>g r. \<sigma> g = Some r \<longrightarrow> r < length (tc_kinds ctx)"
    and "length (tc_kinds ctx) + visits (length (tc_kinds ctx)) ctx ty \<le> Suc u32_max"
  shows "\<exists>ctx' t. substitute_type \<sigma> ctx ty = Some (ctx', t)
    \<and> (\<forall>i<length (tc_kinds ctx). tree_of ctx' i = tree_of ctx i)
    \<and> tree_of ctx' t = rewrite_tree (\<lambda>h. case h of
          TGenericParameter g \<Rightarrow> Some (case \<sigma> g of Some r \<Rightarrow> tree_of ctx r | None \<Rightarrow> Node h [])
        | _ \<Rightarrow> None) (tree_of ctx ty)"
proof -
  let ?f = "\<lambda>h. case h of TGenericParameter g \<Rightarrow> Some (case \<sigma> g of Some r \<Rightarrow> tree_of ctx r | None \<Rightarrow> Node h []) | _ \<Rightarrow> None"
  note ok = built_ok [OF assms(1)]
  have leaf: "leaf_ok ctx (generic_leaf \<sigma>) ?f"
    unfolding leaf_ok_def
  proof (intro allI impI)
    fix i assume i: "i < type_count ctx"
    show "case generic_leaf \<sigma> i (kind_of ctx i) of None \<Rightarrow> ?f (type_head (kind_of ctx i)) = None
      | Some r \<Rightarrow> r < type_count ctx \<and> transparent ctx i = None \<and> ?f (type_head (kind_of ctx i)) = Some (tree_of ctx r)"
    proof (cases "\<exists>g. kind_of ctx i = TGenericParameter g")
      case True
      then obtain g where g: "kind_of ctx i = TGenericParameter g" by blast
      then have t: "transparent ctx i = None" by (simp add: transparent_def alias_target_def bound_of_def)
      have "tree_of ctx i = Node (TGenericParameter g) []"
        using tree_terminal(1) [OF ok i t] by (simp add: g type_head_simps)
      with t g i assms(3) show ?thesis
        by (cases "\<sigma> g") (simp_all add: generic_leaf_def type_head_simps)
    next
      case False
      then have "variant (type_head (kind_of ctx i)) \<noteq> 15" by (cases "kind_of ctx i") simp_all
      then have "?f (type_head (kind_of ctx i)) = None" by (cases "type_head (kind_of ctx i)") simp_all
      moreover have "generic_leaf \<sigma> i (kind_of ctx i) = None"
        using False by (cases "kind_of ctx i") (simp_all add: generic_leaf_def)
      ultimately show ?thesis by simp
    qed
  qed
  have "rewritten ctx ?f ctx (visits (type_count ctx) ctx ty) ty (substitute_type \<sigma> ctx ty)"
    unfolding substitute_type_def substitute_rewrite
    by (rule rewrite_result [OF ok leaf ok grows_refl assms(2) walk_start [OF assms(2)] _ assms(4)]) simp
  then obtain ctx' t where r: "substitute_type \<sigma> ctx ty = Some (ctx', t)" "arena_ok ctx'" "grows ctx ctx'"
    "tree_of ctx' t = rewrite_tree ?f (tree_of ctx ty)" unfolding rewritten_def by blast
  then show ?thesis using grows_tree [OF ok r(2,3)] by blast
qed

definition sample_generic :: type_context where
  "sample_generic = after sample_base (intern sample_base (TGenericParameter 0))"

definition sample_template :: type_context where
  "sample_template = after sample_generic (intern sample_generic (TTuple [21, 7]))"

lemma sample_template_built: "built sample_template"
proof -
  have "map_option snd (intern sample_base (TGenericParameter 0)) = Some 21"
    "map_option snd (intern sample_generic (TTuple [21, 7])) = Some 22" by code_simp+
  then obtain i j where s: "intern sample_base (TGenericParameter 0) = Some (sample_generic, i)"
    "intern sample_generic (TTuple [21, 7]) = Some (sample_template, j)"
    unfolding sample_generic_def sample_template_def using some_after by metis
  have "length (tc_kinds sample_generic) = 22" by code_simp
  then have "valid_kind sample_base (TGenericParameter 0)" "valid_kind sample_generic (TTuple [21, 7])" by (simp_all add: valid_kind_def)
  with sample_built(2) s show ?thesis by (blast intro: built.interned)
qed

theorem substitute_homomorphic_witness:
  "\<exists>ctx' t. substitute_type [0 \<mapsto> 3] sample_template 22 = Some (ctx', t)
     \<and> tree_of ctx' t = Node (TTuple [0, 0]) [Node (TPrimitive PBool) [], Node (TPrimitive PI32) []]"
proof -
  let ?f = "\<lambda>h. case h of TGenericParameter g \<Rightarrow>
      Some (case [0 \<mapsto> 3] g of Some r \<Rightarrow> tree_of sample_template r | None \<Rightarrow> Node h []) | _ \<Rightarrow> None"
  have n: "length (tc_kinds sample_template) = 23" "visits 23 sample_template 22 = 3" by code_simp+
  have "rewrite_tree ?f (tree_of sample_template 22)
      = Node (TTuple [0, 0]) [Node (TPrimitive PBool) [], Node (TPrimitive PI32) []]" by code_simp
  moreover have "\<exists>ctx' t. substitute_type [0 \<mapsto> 3] sample_template 22 = Some (ctx', t)
    \<and> (\<forall>i<length (tc_kinds sample_template). tree_of ctx' i = tree_of sample_template i)
    \<and> tree_of ctx' t = rewrite_tree ?f (tree_of sample_template 22)"
    by (rule substitute_homomorphic [OF sample_template_built]) (simp_all add: n u32_max_def)
  ultimately show ?thesis by metis
qed

end
