(* ===== verification/Ordered_Map.thy ===== *)
theory Ordered_Map
  imports Prelude
begin

text \<open>
  The \<open>BTreeMap\<close>s the analyses iterate over and compare: association lists with strictly
  ascending keys. Two maps with the same entries are equal, so Rust's \<open>==\<close> is equality, and
  iteration is in list order.
\<close>

type_synonym ('k, 'v) ordered_map = "('k \<times> 'v) list"

definition ascending :: "('k::linorder, 'v) ordered_map \<Rightarrow> bool" where
  "ascending m \<longleftrightarrow> sorted_wrt (<) (map fst m)"

text \<open>\<open>insert\<close>: a present key gets the new value.\<close>

fun map_insert :: "'k::linorder \<Rightarrow> 'v \<Rightarrow> ('k, 'v) ordered_map \<Rightarrow> ('k, 'v) ordered_map" where
  "map_insert k v [] = [(k, v)]"
| "map_insert k v ((l, w) # m) =
     (if k < l then (k, v) # (l, w) # m else if k = l then (k, v) # m else (l, w) # map_insert k v m)"

text \<open>The ascending union of the keys of two maps, the \<open>BTreeSet\<close> collected from both.\<close>

fun merge_keys :: "'k::linorder list \<Rightarrow> 'k list \<Rightarrow> 'k list" where
  "merge_keys [] ls = ls"
| "merge_keys ks [] = ks"
| "merge_keys (k # ks) (l # ls) =
     (if k < l then k # merge_keys ks (l # ls)
      else if l < k then l # merge_keys (k # ks) ls
      else k # merge_keys ks ls)"

lemma ascending_Nil [simp]: "ascending []"
  by (simp add: ascending_def)

lemma ascending_Cons: "ascending ((k, v) # m) \<longleftrightarrow> (\<forall>l\<in>fst ` set m. k < l) \<and> ascending m"
  by (auto simp: ascending_def)

lemma map_of_below: "\<forall>l\<in>fst ` set m. k < l \<Longrightarrow> map_of m (k::'k::linorder) = None"
  by (auto simp: map_of_eq_None_iff)

lemma ascending_distinct: "ascending m \<Longrightarrow> distinct (map fst m)"
  by (simp add: ascending_def strict_sorted_iff)

lemma keys_map_insert [simp]: "fst ` set (map_insert k v m) = insert k (fst ` set m)"
  by (induction k v m rule: map_insert.induct) auto

lemma ascending_map_insert [simp]: "ascending m \<Longrightarrow> ascending (map_insert k v m)"
  by (induction k v m rule: map_insert.induct) (auto simp: ascending_Cons)

lemma map_of_map_insert [simp]: "ascending m \<Longrightarrow> map_of (map_insert k v m) = (map_of m)(k \<mapsto> v)"
  by (induction k v m rule: map_insert.induct) (auto simp: ascending_Cons fun_upd_twist)

lemma set_merge_keys [simp]: "set (merge_keys ks ls) = set ks \<union> set ls"
  by (induction ks ls rule: merge_keys.induct) auto

lemma sorted_merge_keys [simp]:
  "sorted_wrt (<) ks \<Longrightarrow> sorted_wrt (<) ls \<Longrightarrow> sorted_wrt (<) (merge_keys ks ls)"
proof (induction ks ls rule: merge_keys.induct)
  case (3 k ks l ls)
  then show ?case by (auto dest: order.strict_trans)
qed auto

text \<open>Equality of maps is extensional.\<close>

lemma ascending_eqI:
  assumes "ascending m" "ascending n" "\<And>k. map_of m k = map_of n k"
  shows "m = n"
  using assms
proof (induction m arbitrary: n)
  case Nil
  then show ?case by (cases n) (auto simp: map_of_eq_None_iff, metis map_of.simps(2) option.simps(3) surj_pair fun_upd_same)
next
  case (Cons x m)
  obtain k v where x: "x = (k, v)" by (cases x)
  have "n \<noteq> []" using Cons.prems(3) [of k] by (auto simp: x)
  then obtain l w n' where n: "n = (l, w) # n'" by (cases n) auto
  have a: "\<forall>j\<in>fst ` set m. k < j" "ascending m" "\<forall>j\<in>fst ` set n'. l < j" "ascending n'"
    using Cons.prems(1,2) by (simp_all add: x n ascending_Cons)
  have kl: "k = l"
  proof (rule ccontr)
    assume "k \<noteq> l"
    moreover have "map_of n' k = Some v" if "k \<noteq> l" using Cons.prems(3) [of k] that by (simp add: x n)
    moreover have "map_of m l = Some w" if "k \<noteq> l" using Cons.prems(3) [of l] that by (simp add: x n)
    ultimately have "l < k" "k < l" using a(1,3) by (force dest: map_of_SomeD)+
    then show False by simp
  qed
  have vw: "v = w" using Cons.prems(3) [of k] by (simp add: x n kl)
  have "map_of m j = map_of n' j" for j
    using Cons.prems(3) [of j] map_of_below [OF a(1)] map_of_below [OF a(3)] by (cases "j = k") (auto simp: x n kl)
  then have "m = n'" by (rule Cons.IH [OF a(2,4)])
  then show ?case by (simp add: x n kl vw)
qed

text \<open>A map computed key by key over an ascending list of keys, keeping some of the results.\<close>

lemma map_of_filter_map:
  "distinct ks \<Longrightarrow> map_of (List.map_filter (\<lambda>k. map_option (Pair k) (f k)) ks) k = (if k \<in> set ks then f k else None)"
  by (induction ks) (auto simp: List.map_filter_simps split: option.split)

lemma ascending_filter_map:
  "sorted_wrt (<) ks \<Longrightarrow> ascending (List.map_filter (\<lambda>k. map_option (Pair k) (f k)) ks)"
proof (induction ks)
  case (Cons k ks)
  have "fst ` set (List.map_filter (\<lambda>k. map_option (Pair k) (f k)) ks) \<subseteq> set ks"
    by (auto simp: List.map_filter_def)
  with Cons show ?case by (auto simp: List.map_filter_simps ascending_Cons split: option.split)
qed (simp add: List.map_filter_simps)

end
