(* ===== verification/Ownership.thy ===== *)
theory Ownership
  imports Type_Context Ordered_Map "HOL-Library.Product_Lexorder"
begin

text \<open>
  The ownership vocabulary of \<^verbatim>\<open>src/operations.rs\<close>: capabilities, places and their overlap, uses,
  logical copies and the standard alternatives to the trapping arithmetic operators. Identities and
  \<open>usize\<close>/\<open>u128\<close> indices are natural numbers.
\<close>

section \<open>Capabilities\<close>

datatype capability_state = Absent | Present | Conditional | CapabilityError

definition is_present :: "capability_state \<Rightarrow> bool" where
  "is_present c \<longleftrightarrow> c = Present"

record ownership_facts =
  of_copy :: capability_state
  of_clone :: capability_state
  of_needs_drop :: capability_state
  of_contains_borrow :: capability_state
  of_send :: capability_state
  of_sync :: capability_state

definition facts_ERROR :: ownership_facts where
  "facts_ERROR = \<lparr>of_copy = CapabilityError, of_clone = CapabilityError, of_needs_drop = CapabilityError,
     of_contains_borrow = CapabilityError, of_send = CapabilityError, of_sync = CapabilityError\<rparr>"

section \<open>Places\<close>

type_synonym local_binding_id = nat
type_synonym field_id = nat
type_synonym variant_id = nat

datatype ownership_place_root = RootLocal local_binding_id | RootClosureCapture nat | RootExpression span

datatype ownership_projection =
  ProjField field_id
| ProjTupleField nat
| ProjConstantIndex nat
| ProjDynamicIndex
| ProjDereference
| ProjReceiverAdaptation

record ownership_place =
  op_root :: ownership_place_root
  op_projections :: "ownership_projection list"

text \<open>The derived orders: by variant, then by payload; a span by file, start and end.\<close>

definition span_key :: "span \<Rightarrow> nat \<times> nat \<times> nat" where
  "span_key s = (span_file s, span_start s, span_end s)"

lemma span_key_inject [simp]: "span_key s = span_key t \<longleftrightarrow> s = t"
  by (cases s; cases t) (auto simp: span_key_def)

fun projection_key :: "ownership_projection \<Rightarrow> nat \<times> nat" where
  "projection_key (ProjField f) = (0, f)"
| "projection_key (ProjTupleField i) = (1, i)"
| "projection_key (ProjConstantIndex i) = (2, i)"
| "projection_key ProjDynamicIndex = (3, 0)"
| "projection_key ProjDereference = (4, 0)"
| "projection_key ProjReceiverAdaptation = (5, 0)"

lemma projection_key_inject [simp]: "projection_key p = projection_key q \<longleftrightarrow> p = q"
  by (cases p; cases q) auto

fun root_key :: "ownership_place_root \<Rightarrow> nat \<times> nat \<times> nat \<times> nat" where
  "root_key (RootLocal b) = (0, b, 0, 0)"
| "root_key (RootClosureCapture i) = (1, i, 0, 0)"
| "root_key (RootExpression s) = (2, span_key s)"

lemma root_key_inject [simp]: "root_key p = root_key q \<longleftrightarrow> p = q"
  by (cases p; cases q) (auto simp: span_key_def [symmetric])

instantiation ownership_projection :: linorder
begin

definition less_eq_ownership_projection :: "ownership_projection \<Rightarrow> ownership_projection \<Rightarrow> bool" where
  "p \<le> q \<longleftrightarrow> projection_key p \<le> projection_key q"

definition less_ownership_projection :: "ownership_projection \<Rightarrow> ownership_projection \<Rightarrow> bool" where
  "p < q \<longleftrightarrow> projection_key p < projection_key q"

instance
  by intro_classes (auto simp: less_eq_ownership_projection_def less_ownership_projection_def less_le_not_le)

end

instantiation ownership_place_root :: linorder
begin

definition less_eq_ownership_place_root :: "ownership_place_root \<Rightarrow> ownership_place_root \<Rightarrow> bool" where
  "p \<le> q \<longleftrightarrow> root_key p \<le> root_key q"

definition less_ownership_place_root :: "ownership_place_root \<Rightarrow> ownership_place_root \<Rightarrow> bool" where
  "p < q \<longleftrightarrow> root_key p < root_key q"

instance
  by intro_classes (auto simp: less_eq_ownership_place_root_def less_ownership_place_root_def less_le_not_le)

end

section \<open>Overlap\<close>

datatype place_overlap = OverlapEqual | OverlapDisjoint | OverlapMay

definition is_expression_root :: "ownership_place_root \<Rightarrow> bool" where
  "is_expression_root r = (case r of RootExpression s \<Rightarrow> True | _ \<Rightarrow> False)"

text \<open>The verdict on the first two projections that differ\<close>

definition projections_conflict :: "ownership_projection \<Rightarrow> ownership_projection \<Rightarrow> place_overlap" where
  "projections_conflict l r =
     (case (l, r) of
        (ProjField a, ProjField b) \<Rightarrow> if a \<noteq> b then OverlapDisjoint else OverlapMay
      | (ProjTupleField a, ProjTupleField b) \<Rightarrow> if a \<noteq> b then OverlapDisjoint else OverlapMay
      | (ProjConstantIndex a, ProjConstantIndex b) \<Rightarrow> if a \<noteq> b then OverlapDisjoint else OverlapMay
      | _ \<Rightarrow> OverlapMay)"

text \<open>The loop over the zipped projections\<close>

fun overlap_projections :: "ownership_projection list \<Rightarrow> ownership_projection list \<Rightarrow> place_overlap" where
  "overlap_projections (l # ls) (r # rs) =
     (if l = r then overlap_projections ls rs else projections_conflict l r)"
| "overlap_projections ls rs = OverlapMay"

definition overlap :: "ownership_place \<Rightarrow> ownership_place \<Rightarrow> place_overlap" where
  "overlap p q =
     (if op_root p \<noteq> op_root q then
        if is_expression_root (op_root p) \<or> is_expression_root (op_root q)
          \<or> ProjDereference \<in> set (op_projections p) \<or> ProjDereference \<in> set (op_projections q)
        then OverlapMay else OverlapDisjoint
      else if op_projections p = op_projections q then OverlapEqual
      else overlap_projections (op_projections p) (op_projections q))"

section \<open>Uses and logical copies\<close>

datatype ownership_use_kind =
  UseProduce | UseMove | UseCopy | UseClone | UseBorrowShared | UseBorrowExclusive
| UseReborrowShared | UseReborrowExclusive | UseDrop | UseLegacyCopy

datatype logical_copy_kind =
  CopyBinding | CopyAssignment | CopyReturn | CopyArgument | CopyAggregateElement | CopyPatternBinding
| CopyReceiver | CopyClosureCapture | CopyIterationSnapshot | CopyIterationElement | CopyFormatting
| CopyCollectionLookup | CopyControlFlowMerge | CopyPropagation

datatype logical_copy_lifetime =
  LifetimeUnknown | LifetimeTemporary | LifetimeLexicalScope | LifetimeAggregate | LifetimeCallee
| LifetimeCaller | LifetimeClosure | LifetimeLoop | LifetimeThread | LifetimeSynchronizedStorage

record logical_copy_context =
  lcc_kind :: logical_copy_kind
  lcc_source_lifetime :: logical_copy_lifetime
  lcc_destination_lifetime :: logical_copy_lifetime

definition copy_context_ordinary ::
  "logical_copy_kind \<Rightarrow> logical_copy_lifetime \<Rightarrow> logical_copy_lifetime \<Rightarrow> logical_copy_context" where
  "copy_context_ordinary k s d = \<lparr>lcc_kind = k, lcc_source_lifetime = s, lcc_destination_lifetime = d\<rparr>"

datatype logical_copy_allocation =
  AllocationNone | AllocationPreserveIdentity | AllocationShallow | AllocationSharedBacking | AllocationRuntimeManaged

datatype logical_copy_mode = Materialize | ReuseSource

record logical_copy_facts =
  lcf_context :: logical_copy_context
  lcf_allocation :: logical_copy_allocation
  lcf_mode :: logical_copy_mode

record ownership_use =
  ou_kind :: ownership_use_kind
  ou_facts :: ownership_facts
  ou_place :: "ownership_place option"
  ou_legacy_copy :: "logical_copy_facts option"

definition ownership_use_default :: ownership_use where
  "ownership_use_default = \<lparr>ou_kind = UseProduce, ou_facts = facts_ERROR, ou_place = None, ou_legacy_copy = None\<rparr>"

datatype value_passing_mode = Owned | ReadOnlyBorrowed

datatype receiver_adjustment =
  AdjustPass | AdjustCopyValue | AdjustDereferenceAndCopy | AdjustBorrowShared | AdjustBorrowMutable

section \<open>Numeric alternatives\<close>

datatype numeric_outcome = Checked | Wrapping | Saturating

datatype numeric_operator =
  OpAdd | OpSubtract | OpMultiply | OpDivide | OpRemainder | OpNegate | OpShiftLeft | OpShiftRight

definition is_shift :: "numeric_operator \<Rightarrow> bool" where
  "is_shift n \<longleftrightarrow> n = OpShiftLeft \<or> n = OpShiftRight"

record numeric_alternative =
  na_name :: string
  na_outcome :: numeric_outcome
  na_operator :: numeric_operator

text \<open>The arms of the first \<open>match\<close>, in order\<close>

definition alternative_names :: "(string \<times> numeric_outcome \<times> numeric_operator) list" where
  "alternative_names =
     [(''checked_add'', Checked, OpAdd), (''checked_sub'', Checked, OpSubtract),
      (''checked_mul'', Checked, OpMultiply), (''checked_div'', Checked, OpDivide),
      (''checked_rem'', Checked, OpRemainder), (''checked_neg'', Checked, OpNegate),
      (''checked_shl'', Checked, OpShiftLeft), (''checked_shr'', Checked, OpShiftRight),
      (''wrapping_add'', Wrapping, OpAdd), (''wrapping_sub'', Wrapping, OpSubtract),
      (''wrapping_mul'', Wrapping, OpMultiply), (''wrapping_div'', Wrapping, OpDivide),
      (''wrapping_rem'', Wrapping, OpRemainder), (''wrapping_neg'', Wrapping, OpNegate),
      (''wrapping_shl'', Wrapping, OpShiftLeft), (''wrapping_shr'', Wrapping, OpShiftRight),
      (''saturating_add'', Saturating, OpAdd), (''saturating_sub'', Saturating, OpSubtract),
      (''saturating_mul'', Saturating, OpMultiply)]"

text \<open>The second \<open>match\<close>, from the outcome and the operator back to a name\<close>

definition canonical_name :: "numeric_outcome \<Rightarrow> numeric_operator \<Rightarrow> string" where
  "canonical_name outcome operator =
     (case outcome of
        Checked \<Rightarrow>
          (case operator of OpAdd \<Rightarrow> ''checked_add'' | OpSubtract \<Rightarrow> ''checked_sub'' | OpMultiply \<Rightarrow> ''checked_mul''
           | OpDivide \<Rightarrow> ''checked_div'' | OpRemainder \<Rightarrow> ''checked_rem'' | OpNegate \<Rightarrow> ''checked_neg''
           | OpShiftLeft \<Rightarrow> ''checked_shl'' | OpShiftRight \<Rightarrow> ''checked_shr'')
      | Wrapping \<Rightarrow>
          (case operator of OpAdd \<Rightarrow> ''wrapping_add'' | OpSubtract \<Rightarrow> ''wrapping_sub'' | OpMultiply \<Rightarrow> ''wrapping_mul''
           | OpDivide \<Rightarrow> ''wrapping_div'' | OpRemainder \<Rightarrow> ''wrapping_rem'' | OpNegate \<Rightarrow> ''wrapping_neg''
           | OpShiftLeft \<Rightarrow> ''wrapping_shl'' | OpShiftRight \<Rightarrow> ''wrapping_shr'')
      | Saturating \<Rightarrow>
          (case operator of OpAdd \<Rightarrow> ''saturating_add'' | OpSubtract \<Rightarrow> ''saturating_sub'' | _ \<Rightarrow> ''saturating_mul''))"

definition alternative_from_name :: "string \<Rightarrow> numeric_alternative option" where
  "alternative_from_name name =
     map_option (\<lambda>(outcome, operator).
         \<lparr>na_name = canonical_name outcome operator, na_outcome = outcome, na_operator = operator\<rparr>)
       (map_of alternative_names name)"

end
