(* ===== verification/Standard_Calls.thy ===== *)
theory Standard_Calls
  imports Type_Context
begin

text \<open>
  The operations the compiler supplies, from \<^verbatim>\<open>src/operations.rs\<close>: the vocabulary the checker
  selects from, the typed IR carries and the backend lowers, with the rewriting of the types an
  operation carries.
\<close>

datatype (plugins only: code size) text_operation =
  TextByteLen | TextNextScalar | TextSliceBytes | TextStringView | TextFromChars

datatype (plugins only: code size) system_operation =
  SystemPathView | SystemOpen | SystemReadDir | SystemMetadata | SystemCreateDir | SystemRemoveDir
| SystemRemoveFile | SystemRename | SystemFileReadToEnd | SystemFileWriteAll | SystemFileMetadata | SystemFileClose
| SystemDirectoryNext | SystemDirectoryClose | SystemArgs | SystemEnvGet | SystemCurrentDir | SystemProcessRun
| SystemProcessExit

datatype (plugins only:) standard_call =
  StdPanic
| StdAssert
| StdFail type_id
| StdTrap type_id declaration_id
| StdClockNow type_id bool
| StdStringFrom
| StdClone type_id
| StdBoxNew type_id type_id
| StdBoxPointer type_id type_id bool bool
| StdBoxFromRaw type_id type_id
| StdMaybeUninitNew type_id type_id
| StdMaybeUninitPointer type_id type_id
| StdMaybeUninitAssumeInit type_id type_id
| StdIntegerMax type_id
| StdSharedNew type_id type_id
| StdSharedGet type_id type_id
| StdSharedDowngrade type_id type_id type_id
| StdWeakUpgrade type_id type_id type_id type_id
| StdStoreNew type_id type_id
| StdStoreLen type_id
| StdStoreIsEmpty type_id
| StdStoreInsert type_id type_id type_id
| StdStoreGet type_id type_id type_id bool
| StdStoreRemove type_id type_id type_id
| StdStoreCompact type_id
| StdStoreClear type_id type_id
| StdText text_operation type_id type_id
| StdSystem system_operation type_id
| StdIdentityFrom type_id
| StdForeignRootRetain type_id bool
| StdForeignRootPointer type_id bool
| StdForeignRootClose type_id
| StdThreadSpawn type_id type_id declaration_id bool type_id
| StdThreadJoin type_id type_id
| StdThreadIsFinished type_id
| StdThreadScope type_id type_id declaration_id bool type_id
| StdScopedThreadSpawn type_id type_id type_id declaration_id bool type_id
| StdScopedThreadJoin type_id type_id
| StdChannelCreate type_id type_id type_id bool
| StdChannelSend type_id type_id bool
| StdChannelReceive type_id type_id bool
| StdChannelClose type_id bool
| StdMutexNew type_id type_id
| StdMutexLock type_id type_id type_id
| StdMutexGuardGet type_id type_id bool
| StdMutexRead type_id type_id
| StdMutexReplace type_id type_id
| StdMutexUpdate type_id type_id type_id declaration_id bool
| StdAtomicNew type_id type_id
| StdAtomicLoad type_id type_id
| StdAtomicStore type_id type_id
| StdAtomicExchange type_id type_id
| StdAtomicCompareExchange type_id type_id
| StdAtomicFetchAdd type_id type_id bool
| StdFormatterWrite type_id
| StdArrayLen type_id
| StdArrayGet type_id
| StdSliceLen type_id
| StdVecNew type_id
| StdVecLen type_id
| StdVecIsEmpty type_id
| StdVecGet type_id
| StdVecGetVar type_id
| StdVecAppend type_id
| StdVecInsert type_id
| StdVecRemove type_id
| StdVecPop type_id
| StdVecClear type_id
| StdMapNew type_id
| StdMapLen type_id
| StdMapIsEmpty type_id
| StdMapContainsKey type_id
| StdMapGet type_id
| StdMapGetVar type_id
| StdMapInsert type_id
| StdMapRemove type_id
| StdMapClear type_id
| StdSetNew type_id
| StdSetLen type_id
| StdSetIsEmpty type_id
| StdSetContains type_id
| StdSetInsert type_id
| StdSetRemove type_id
| StdSetClear type_id

text \<open>\<open>map_types\<close> takes a closure; here it is the function the closure computes.\<close>

primrec map_types :: "(type_id \<Rightarrow> type_id) \<Rightarrow> standard_call \<Rightarrow> standard_call" where
  "map_types f StdPanic = StdPanic"
| "map_types f StdAssert = StdAssert"
| "map_types f (StdFail value_type) = StdFail (f value_type)"
| "map_types f (StdTrap reason_type trait_declaration) = StdTrap (f reason_type) trait_declaration"
| "map_types f (StdClockNow clock_type monotonic) = StdClockNow (f clock_type) monotonic"
| "map_types f StdStringFrom = StdStringFrom"
| "map_types f (StdClone value) = StdClone (f value)"
| "map_types f (StdBoxNew boxed value) = StdBoxNew (f boxed) (f value)"
| "map_types f (StdBoxPointer boxed value mutable consuming) = StdBoxPointer (f boxed) (f value) mutable consuming"
| "map_types f (StdBoxFromRaw boxed value) = StdBoxFromRaw (f boxed) (f value)"
| "map_types f (StdMaybeUninitNew storage value) = StdMaybeUninitNew (f storage) (f value)"
| "map_types f (StdMaybeUninitPointer storage value) = StdMaybeUninitPointer (f storage) (f value)"
| "map_types f (StdMaybeUninitAssumeInit storage value) = StdMaybeUninitAssumeInit (f storage) (f value)"
| "map_types f (StdIntegerMax value) = StdIntegerMax (f value)"
| "map_types f (StdSharedNew shared value) = StdSharedNew (f shared) (f value)"
| "map_types f (StdSharedGet shared value) = StdSharedGet (f shared) (f value)"
| "map_types f (StdSharedDowngrade shared weak value) = StdSharedDowngrade (f shared) (f weak) (f value)"
| "map_types f (StdWeakUpgrade weak shared value result) = StdWeakUpgrade (f weak) (f shared) (f value) (f result)"
| "map_types f (StdStoreNew store value) = StdStoreNew (f store) (f value)"
| "map_types f (StdStoreLen store) = StdStoreLen (f store)"
| "map_types f (StdStoreIsEmpty store) = StdStoreIsEmpty (f store)"
| "map_types f (StdStoreInsert store handle value) = StdStoreInsert (f store) (f handle) (f value)"
| "map_types f (StdStoreGet store handle value mutable) = StdStoreGet (f store) (f handle) (f value) mutable"
| "map_types f (StdStoreRemove store handle value) = StdStoreRemove (f store) (f handle) (f value)"
| "map_types f (StdStoreCompact store) = StdStoreCompact (f store)"
| "map_types f (StdStoreClear store value) = StdStoreClear (f store) (f value)"
| "map_types f (StdText operation result_type input_type) = StdText operation (f result_type) (f input_type)"
| "map_types f (StdSystem operation result_type) = StdSystem operation (f result_type)"
| "map_types f (StdIdentityFrom wrapper) = StdIdentityFrom (f wrapper)"
| "map_types f (StdForeignRootRetain handle mutable) = StdForeignRootRetain (f handle) mutable"
| "map_types f (StdForeignRootPointer handle mutable) = StdForeignRootPointer (f handle) mutable"
| "map_types f (StdForeignRootClose handle) = StdForeignRootClose (f handle)"
| "map_types f (StdThreadSpawn thread callable entry closure_entry return_type) = StdThreadSpawn (f thread) (f callable) entry closure_entry (f return_type)"
| "map_types f (StdThreadJoin thread return_type) = StdThreadJoin (f thread) (f return_type)"
| "map_types f (StdThreadIsFinished thread) = StdThreadIsFinished (f thread)"
| "map_types f (StdThreadScope scope callable entry closure_entry return_type) = StdThreadScope (f scope) (f callable) entry closure_entry (f return_type)"
| "map_types f (StdScopedThreadSpawn scope thread callable entry closure_entry return_type) = StdScopedThreadSpawn (f scope) (f thread) (f callable) entry closure_entry (f return_type)"
| "map_types f (StdScopedThreadJoin thread return_type) = StdScopedThreadJoin (f thread) (f return_type)"
| "map_types f (StdChannelCreate sender receiver element bounded) = StdChannelCreate (f sender) (f receiver) (f element) bounded"
| "map_types f (StdChannelSend sender element nonblocking) = StdChannelSend (f sender) (f element) nonblocking"
| "map_types f (StdChannelReceive receiver element nonblocking) = StdChannelReceive (f receiver) (f element) nonblocking"
| "map_types f (StdChannelClose handle sender) = StdChannelClose (f handle) sender"
| "map_types f (StdMutexNew mutex value_type) = StdMutexNew (f mutex) (f value_type)"
| "map_types f (StdMutexLock mutex guard value_type) = StdMutexLock (f mutex) (f guard) (f value_type)"
| "map_types f (StdMutexGuardGet guard value_type mutable) = StdMutexGuardGet (f guard) (f value_type) mutable"
| "map_types f (StdMutexRead mutex value_type) = StdMutexRead (f mutex) (f value_type)"
| "map_types f (StdMutexReplace mutex value_type) = StdMutexReplace (f mutex) (f value_type)"
| "map_types f (StdMutexUpdate mutex value_type callable entry closure_entry) = StdMutexUpdate (f mutex) (f value_type) (f callable) entry closure_entry"
| "map_types f (StdAtomicNew atomic value_type) = StdAtomicNew (f atomic) (f value_type)"
| "map_types f (StdAtomicLoad atomic value_type) = StdAtomicLoad (f atomic) (f value_type)"
| "map_types f (StdAtomicStore atomic value_type) = StdAtomicStore (f atomic) (f value_type)"
| "map_types f (StdAtomicExchange atomic value_type) = StdAtomicExchange (f atomic) (f value_type)"
| "map_types f (StdAtomicCompareExchange atomic value_type) = StdAtomicCompareExchange (f atomic) (f value_type)"
| "map_types f (StdAtomicFetchAdd atomic value_type subtract) = StdAtomicFetchAdd (f atomic) (f value_type) subtract"
| "map_types f (StdFormatterWrite formatter) = StdFormatterWrite (f formatter)"
| "map_types f (StdArrayLen collection) = StdArrayLen (f collection)"
| "map_types f (StdArrayGet collection) = StdArrayGet (f collection)"
| "map_types f (StdSliceLen collection) = StdSliceLen (f collection)"
| "map_types f (StdVecNew collection) = StdVecNew (f collection)"
| "map_types f (StdVecLen collection) = StdVecLen (f collection)"
| "map_types f (StdVecIsEmpty collection) = StdVecIsEmpty (f collection)"
| "map_types f (StdVecGet collection) = StdVecGet (f collection)"
| "map_types f (StdVecGetVar collection) = StdVecGetVar (f collection)"
| "map_types f (StdVecAppend collection) = StdVecAppend (f collection)"
| "map_types f (StdVecInsert collection) = StdVecInsert (f collection)"
| "map_types f (StdVecRemove collection) = StdVecRemove (f collection)"
| "map_types f (StdVecPop collection) = StdVecPop (f collection)"
| "map_types f (StdVecClear collection) = StdVecClear (f collection)"
| "map_types f (StdMapNew collection) = StdMapNew (f collection)"
| "map_types f (StdMapLen collection) = StdMapLen (f collection)"
| "map_types f (StdMapIsEmpty collection) = StdMapIsEmpty (f collection)"
| "map_types f (StdMapContainsKey collection) = StdMapContainsKey (f collection)"
| "map_types f (StdMapGet collection) = StdMapGet (f collection)"
| "map_types f (StdMapGetVar collection) = StdMapGetVar (f collection)"
| "map_types f (StdMapInsert collection) = StdMapInsert (f collection)"
| "map_types f (StdMapRemove collection) = StdMapRemove (f collection)"
| "map_types f (StdMapClear collection) = StdMapClear (f collection)"
| "map_types f (StdSetNew collection) = StdSetNew (f collection)"
| "map_types f (StdSetLen collection) = StdSetLen (f collection)"
| "map_types f (StdSetIsEmpty collection) = StdSetIsEmpty (f collection)"
| "map_types f (StdSetContains collection) = StdSetContains (f collection)"
| "map_types f (StdSetInsert collection) = StdSetInsert (f collection)"
| "map_types f (StdSetRemove collection) = StdSetRemove (f collection)"
| "map_types f (StdSetClear collection) = StdSetClear (f collection)"

lemma map_types_id: "map_types (\<lambda>t. t) c = c"
  by (cases c) simp_all

lemma map_types_compose: "map_types f (map_types g c) = map_types (\<lambda>t. f (g t)) c"
  by (cases c) simp_all

end
