(* ===== verification/Ownership_Theorems.thy ===== *)
theory Ownership_Theorems
  imports Ownership Standard_Calls "HOL-Library.Sublist"
begin

text \<open>
  What the ownership vocabulary promises: disjoint places share no storage, the names of the numeric
  alternatives are read back exactly, and rewriting the types of a standard operation is functorial.
\<close>

section \<open>Storage\<close>

text \<open>
  A storage cell is a local's or a capture's storage followed by the selections made in it. A dynamic
  index selects any element; a receiver adaptation selects nothing; the storage of an expression is
  wherever the program put it. A dereference goes on in the cell that the pointer in its cell points to.
\<close>

datatype selection = SelectField field_id | SelectTuple nat | SelectIndex nat
datatype storage = LocalStorage local_binding_id | CaptureStorage nat

type_synonym cell = "storage \<times> selection list"

fun selects :: "ownership_projection list \<Rightarrow> selection list \<Rightarrow> bool" where
  "selects [] ss \<longleftrightarrow> ss = []"
| "selects (ProjReceiverAdaptation # ps) ss \<longleftrightarrow> selects ps ss"
| "selects (ProjField f # ps) (s # ss) \<longleftrightarrow> s = SelectField f \<and> selects ps ss"
| "selects (ProjTupleField i # ps) (s # ss) \<longleftrightarrow> s = SelectTuple i \<and> selects ps ss"
| "selects (ProjConstantIndex i # ps) (s # ss) \<longleftrightarrow> s = SelectIndex i \<and> selects ps ss"
| "selects (ProjDynamicIndex # ps) (s # ss) \<longleftrightarrow> (\<exists>i. s = SelectIndex i) \<and> selects ps ss"
| "selects (p # ps) ss \<longleftrightarrow> False"

fun root_cell :: "(span \<Rightarrow> cell) \<Rightarrow> ownership_place_root \<Rightarrow> cell" where
  "root_cell w (RootLocal b) = (LocalStorage b, [])"
| "root_cell w (RootClosureCapture i) = (CaptureStorage i, [])"
| "root_cell w (RootExpression s) = w s"

fun reaches :: "(cell \<Rightarrow> cell) \<Rightarrow> ownership_projection list \<Rightarrow> cell \<Rightarrow> cell \<Rightarrow> bool" where
  "reaches m [] c d \<longleftrightarrow> d = c"
| "reaches m (ProjReceiverAdaptation # ps) c d \<longleftrightarrow> reaches m ps c d"
| "reaches m (ProjField f # ps) c d \<longleftrightarrow> reaches m ps (fst c, snd c @ [SelectField f]) d"
| "reaches m (ProjTupleField i # ps) c d \<longleftrightarrow> reaches m ps (fst c, snd c @ [SelectTuple i]) d"
| "reaches m (ProjConstantIndex i # ps) c d \<longleftrightarrow> reaches m ps (fst c, snd c @ [SelectIndex i]) d"
| "reaches m (ProjDynamicIndex # ps) c d \<longleftrightarrow> (\<exists>i. reaches m ps (fst c, snd c @ [SelectIndex i]) d)"
| "reaches m (ProjDereference # ps) c d \<longleftrightarrow> reaches m ps (m c) d"

definition occupies :: "(span \<Rightarrow> cell) \<Rightarrow> (cell \<Rightarrow> cell) \<Rightarrow> ownership_place \<Rightarrow> cell \<Rightarrow> bool" where
  "occupies w m p c \<longleftrightarrow>
     (\<exists>d rest. reaches m (op_projections p) (root_cell w (op_root p)) d \<and> c = (fst d, snd d @ rest))"

lemma reaches_append: "reaches m (ps @ qs) c d \<longleftrightarrow> (\<exists>e. reaches m ps c e \<and> reaches m qs e d)"
  by (induction m ps c d rule: reaches.induct) auto

lemma reaches_unique:
  "ProjDynamicIndex \<notin> set ps \<Longrightarrow> reaches m ps c d \<Longrightarrow> reaches m ps c e \<Longrightarrow> d = e"
  by (induction m ps c d rule: reaches.induct) auto

lemma selects_Cons:
  "selects (ProjField f # ps) ss \<longleftrightarrow> (\<exists>ts. ss = SelectField f # ts \<and> selects ps ts)"
  "selects (ProjTupleField i # ps) ss \<longleftrightarrow> (\<exists>ts. ss = SelectTuple i # ts \<and> selects ps ts)"
  "selects (ProjConstantIndex i # ps) ss \<longleftrightarrow> (\<exists>ts. ss = SelectIndex i # ts \<and> selects ps ts)"
  "selects (ProjDynamicIndex # ps) ss \<longleftrightarrow> (\<exists>i ts. ss = SelectIndex i # ts \<and> selects ps ts)"
  by (cases ss; auto)+

lemma reaches_selects:
  "ProjDereference \<notin> set ps \<Longrightarrow> reaches m ps c d \<longleftrightarrow> (\<exists>ss. selects ps ss \<and> d = (fst c, snd c @ ss))"
  by (induction m ps c d rule: reaches.induct) (auto simp: selects_Cons)

text \<open>
  The pointers two places go through are the same: what follows their common selections has no dereference, and a
  pointer in a common part is not taken from an element chosen at run time.
\<close>

definition same_pointers :: "ownership_projection list \<Rightarrow> ownership_projection list \<Rightarrow> bool" where
  "same_pointers ps qs \<longleftrightarrow>
     (let pre = longest_common_prefix ps qs in
      ProjDereference \<notin> set (drop (length pre) ps) \<and> ProjDereference \<notin> set (drop (length pre) qs)
      \<and> (ProjDereference \<in> set pre \<longrightarrow> ProjDynamicIndex \<notin> set pre))"

section \<open>Overlap\<close>

lemma conflict_disjoint: "projections_conflict l r = OverlapDisjoint \<Longrightarrow>
    (\<exists>a b. a \<noteq> b \<and> (l = ProjField a \<and> r = ProjField b \<or> l = ProjTupleField a \<and> r = ProjTupleField b
      \<or> l = ProjConstantIndex a \<and> r = ProjConstantIndex b))"
  by (auto simp: projections_conflict_def split: ownership_projection.splits if_splits)

lemma conflict_selects:
  assumes "projections_conflict l r = OverlapDisjoint" "selects (l # ls) ss" "selects (r # rs) ts"
  shows "\<not> (\<exists>u v. ss @ u = ts @ v)"
  using conflict_disjoint [OF assms(1)] assms(2,3) by (cases ss; cases ts) auto

lemma overlap_projections_sound:
  "overlap_projections ps qs = OverlapDisjoint \<Longrightarrow> ProjDereference \<notin> set ps \<Longrightarrow> selects ps ss \<Longrightarrow> selects qs ts
   \<Longrightarrow> ss @ u \<noteq> ts @ v"
proof (induction ps qs arbitrary: ss ts rule: overlap_projections.induct)
  case (1 l ls r rs)
  show ?case
  proof (cases "l = r")
    case True
    show ?thesis
    proof (cases "l = ProjReceiverAdaptation")
      case adapted: True
      with 1(1) [OF True, of ss ts] 1(2-5) True show ?thesis by simp
    next
      case False
      with 1 True show ?thesis by (cases l; cases ss; cases ts) auto
    qed
  next
    case False
    with 1(2) have "projections_conflict l r = OverlapDisjoint" by simp
    from conflict_selects [OF this 1(4,5)] show ?thesis by blast
  qed
qed simp_all

lemma overlap_projections_commute: "overlap_projections ps qs = overlap_projections qs ps"
proof (induction ps qs rule: overlap_projections.induct)
  case (1 l ls r rs)
  moreover have "projections_conflict l r = projections_conflict r l"
    by (cases l; cases r) (simp_all add: projections_conflict_def)
  ultimately show ?case by simp
qed simp_all

lemma overlap_commute: "overlap p q = overlap q p"
  using overlap_projections_commute [of "op_projections p" "op_projections q"] by (simp add: overlap_def eq_commute disj_ac)

section \<open>Properties\<close>

lemma overlap_projections_drop: "overlap_projections (pre @ ps) (pre @ qs) = overlap_projections ps qs"
  by (induction pre) simp_all

lemma disjoint_reaches:
  assumes "overlap_projections ps qs = OverlapDisjoint" "same_pointers ps qs" "reaches m ps c d" "reaches m qs c e"
  shows "(fst d, snd d @ u) \<noteq> (fst e, snd e @ v)"
proof -
  let ?pre = "longest_common_prefix ps qs"
  obtain ps' qs' where split: "ps = ?pre @ ps'" "qs = ?pre @ qs'"
    using longest_common_prefix_prefix1 [of ps qs] longest_common_prefix_prefix2 [of ps qs] by (auto simp: prefix_def)
  have drops: "drop (length ?pre) ps = ps'" "drop (length ?pre) qs = qs'" by (metis split append_eq_conv_conj)+
  then have free: "ProjDereference \<notin> set ps'" "ProjDereference \<notin> set qs'"
    and pre: "ProjDereference \<in> set ?pre \<longrightarrow> ProjDynamicIndex \<notin> set ?pre"
    using assms(2) by (simp_all add: same_pointers_def Let_def)
  have apart: "(fst (fst x, snd x @ ss), (snd x @ ss) @ u) \<noteq> (fst (fst x, snd x @ ts), (snd x @ ts) @ v)"
    if "overlap_projections as bs = OverlapDisjoint" "ProjDereference \<notin> set as" "selects as ss" "selects bs ts" for x as bs ss ts
    using overlap_projections_sound [OF that] by simp
  show ?thesis
  proof (cases "ProjDereference \<in> set ?pre")
    case True
    obtain x where x: "reaches m ?pre c x" "reaches m ps' x d" using assms(3) split(1) reaches_append by metis
    obtain y where y: "reaches m ?pre c y" "reaches m qs' y e" using assms(4) split(2) reaches_append by metis
    have "x = y" using reaches_unique [OF _ x(1) y(1)] pre True by blast
    moreover have "overlap_projections ps' qs' = OverlapDisjoint" using assms(1) split overlap_projections_drop by metis
    ultimately show ?thesis using x(2) y(2) apart free by (auto simp: reaches_selects)
  next
    case False
    then have "ProjDereference \<notin> set ps" "ProjDereference \<notin> set qs" using free split by (metis Un_iff set_append)+
    then show ?thesis using assms(1,3,4) apart by (auto simp: reaches_selects)
  qed
qed


definition sample_place :: "ownership_projection list \<Rightarrow> ownership_place" where
  "sample_place ps = \<lparr>op_root = RootLocal 0, op_projections = ps\<rparr>"


text \<open>a name denotes a standard alternative to a trapping operator exactly when it is the canonical
  name of its outcome and operator, so distinct alternatives have distinct names.\<close>

theorem alternative_name_roundtrip:
  "alternative_from_name name = Some a \<longleftrightarrow>
     na_name a = name \<and> name = canonical_name (na_outcome a) (na_operator a)
     \<and> (na_outcome a = Saturating \<longrightarrow> na_operator a \<in> {OpAdd, OpSubtract, OpMultiply})"
proof
  have names: "list_all (\<lambda>(n, oc, op). canonical_name oc op = n
      \<and> (oc = Saturating \<longrightarrow> op = OpAdd \<or> op = OpSubtract \<or> op = OpMultiply)) alternative_names"
    by code_simp
  assume "alternative_from_name name = Some a"
  then obtain oc op where m: "map_of alternative_names name = Some (oc, op)"
    and a: "a = \<lparr>na_name = canonical_name oc op, na_outcome = oc, na_operator = op\<rparr>"
    by (auto simp: alternative_from_name_def)
  from map_of_SomeD [OF m] names have "canonical_name oc op = name"
    "oc = Saturating \<longrightarrow> op = OpAdd \<or> op = OpSubtract \<or> op = OpMultiply" by (auto simp: list_all_iff)
  with a show "na_name a = name \<and> name = canonical_name (na_outcome a) (na_operator a)
     \<and> (na_outcome a = Saturating \<longrightarrow> na_operator a \<in> {OpAdd, OpSubtract, OpMultiply})" by simp
next
  assume a: "na_name a = name \<and> name = canonical_name (na_outcome a) (na_operator a)
     \<and> (na_outcome a = Saturating \<longrightarrow> na_operator a \<in> {OpAdd, OpSubtract, OpMultiply})"
  have "map_of alternative_names (canonical_name oc op) = Some (oc, op)"
    if "oc = Saturating \<longrightarrow> op \<in> {OpAdd, OpSubtract, OpMultiply}" for oc op
    using that by (cases oc; cases op) (simp_all add: alternative_names_def canonical_name_def)
  with a show "alternative_from_name name = Some a"
    by (cases a) (simp add: alternative_from_name_def)
qed

theorem alternative_name_roundtrip_witness:
  "alternative_from_name ''saturating_add'' = Some \<lparr>na_name = ''saturating_add'', na_outcome = Saturating, na_operator = OpAdd\<rparr>"
  unfolding alternative_name_roundtrip by code_simp

text \<open>Specialising the types an operation carries composes: specialising in two steps is
  specialising by the composed substitution, and the identity changes nothing.\<close>

theorem map_types_functorial:
  "map_types f (map_types g c) = map_types (\<lambda>t. f (g t)) c \<and> map_types (\<lambda>t. t) c = c"
  by (simp add: map_types_id map_types_compose)

end
