(* ===== verification/Ownership_Query.thy ===== *)
theory Ownership_Query
  imports Ownership "HOL-Library.Monad_Syntax"
begin

text \<open>
  The ownership-capability query of \<^verbatim>\<open>src/types/ownership.rs\<close>: a depth-first search through the
  components of a type with a cache that outlives the query and a set of the types being visited,
  which are answered with an optimistic seed. The query returns None when it goes deeper than the
  given bound; a program whose generic types instantiate ever larger types has no bound.
\<close>

section \<open>Combining capabilities\<close>

definition state_if_bound :: "bool \<Rightarrow> capability_state" where
  "state_if_bound bound = (if bound then Present else Conditional)"

definition plain :: "capability_state \<Rightarrow> ownership_facts" where
  "plain c = \<lparr>of_copy = c, of_clone = c, of_needs_drop = Absent, of_contains_borrow = Absent, of_send = c, of_sync = c\<rparr>"

definition conditional :: ownership_facts where
  "conditional = \<lparr>of_copy = Conditional, of_clone = Conditional, of_needs_drop = Conditional,
     of_contains_borrow = Conditional, of_send = Conditional, of_sync = Conditional\<rparr>"

definition conjoin :: "capability_state \<Rightarrow> capability_state \<Rightarrow> capability_state" where
  "conjoin a b =
     (if a = CapabilityError \<or> b = CapabilityError then CapabilityError
      else if a = Absent \<or> b = Absent then Absent
      else if a = Conditional \<or> b = Conditional then Conditional
      else Present)"

definition conjunction :: "capability_state list \<Rightarrow> capability_state" where
  "conjunction cs = foldl conjoin Present cs"

definition disjoin :: "capability_state \<Rightarrow> capability_state \<Rightarrow> capability_state" where
  "disjoin a b =
     (if a = CapabilityError \<or> b = CapabilityError then CapabilityError
      else if a = Present \<or> b = Present then Present
      else if a = Conditional \<or> b = Conditional then Conditional
      else Absent)"

definition disjunction :: "capability_state list \<Rightarrow> capability_state" where
  "disjunction cs = foldl disjoin Absent cs"

section \<open>Declarations\<close>

text \<open>
  What the query reads of the program. \<open>op_fields\<close> gives the types of the fields of a nominal type
  with its arguments substituted; the arena \<open>op_types\<close> already holds them.
\<close>

record impl_entry =
  im_trait :: "type_id option"
  im_target :: "type_id option"
  im_unsafe :: bool

record own_program =
  op_types :: type_context
  op_owned :: bool
  op_is_trait :: "declaration_id \<Rightarrow> bool"
  op_declaration_name :: "declaration_id \<Rightarrow> string"
  op_builtin_name :: "builtin_id \<Rightarrow> string"
  op_fields :: "declaration_id \<Rightarrow> type_id list \<Rightarrow> type_id list"
  op_foreign_fields :: "declaration_id \<Rightarrow> type_id list"
  op_impls :: "impl_entry list"
  op_obligations :: "(generic_parameter_id \<times> type_id) list"

primrec type_name_from :: "nat \<Rightarrow> own_program \<Rightarrow> type_id \<Rightarrow> string option" where
  "type_name_from 0 p ty = None"
| "type_name_from (Suc n) p ty =
     (case kind_at (op_types p) ty of
        Some (TAlias d args target) \<Rightarrow> type_name_from n p target
      | Some (TNominal identity args) \<Rightarrow> Some (op_declaration_name p (ni_declaration identity))
      | Some (TBuiltin b args) \<Rightarrow> Some (op_builtin_name p b)
      | _ \<Rightarrow> None)"

text \<open>A chain of aliases is shorter than the arena.\<close>

definition type_name :: "own_program \<Rightarrow> type_id \<Rightarrow> string option" where
  "type_name p ty = type_name_from (length (tc_kinds (op_types p))) p ty"

definition impl_matches :: "own_program \<Rightarrow> type_id \<Rightarrow> string \<Rightarrow> impl_entry \<Rightarrow> bool" where
  "impl_matches p ty name im =
     (case (im_trait im, im_target im) of
        (Some t, Some target) \<Rightarrow> type_name p t = Some name \<and> exactly_equal (op_types p) target ty = Some True
      | _ \<Rightarrow> False)"

definition has_trait_impl :: "own_program \<Rightarrow> type_id \<Rightarrow> string \<Rightarrow> bool" where
  "has_trait_impl p ty name = list_ex (impl_matches p ty name) (op_impls p)"

definition has_unsafe_capability_impl :: "own_program \<Rightarrow> type_id \<Rightarrow> string \<Rightarrow> bool" where
  "has_unsafe_capability_impl p ty name =
     (op_owned p \<and> list_ex (\<lambda>im. im_unsafe im \<and> impl_matches p ty name im) (op_impls p))"

definition parameter_bound :: "own_program \<Rightarrow> generic_parameter_id \<Rightarrow> string \<Rightarrow> bool" where
  "parameter_bound p g name = list_ex (\<lambda>(h, t). h = g \<and> type_name p t = Some name) (op_obligations p)"

definition generic_facts :: "own_program \<Rightarrow> generic_parameter_id \<Rightarrow> ownership_facts" where
  "generic_facts p g =
     \<lparr>of_copy = state_if_bound (parameter_bound p g ''Copy''),
      of_clone = state_if_bound (parameter_bound p g ''Clone'' \<or> parameter_bound p g ''Copy''),
      of_needs_drop = Conditional, of_contains_borrow = Conditional,
      of_send = state_if_bound (parameter_bound p g ''Send''), of_sync = state_if_bound (parameter_bound p g ''Sync'')\<rparr>"

definition primitive_facts :: "primitive_type \<Rightarrow> ownership_facts" where
  "primitive_facts t =
     (case t of
        PString \<Rightarrow> \<lparr>of_copy = Absent, of_clone = Present, of_needs_drop = Present, of_contains_borrow = Absent,
          of_send = Present, of_sync = Present\<rparr>
      | PStr \<Rightarrow> \<lparr>of_copy = Present, of_clone = Present, of_needs_drop = Absent, of_contains_borrow = Present,
          of_send = Present, of_sync = Present\<rparr>
      | _ \<Rightarrow> plain Present)"

section \<open>Components\<close>

type_synonym fact_cache = "type_id \<rightharpoonup> ownership_facts"
type_synonym fact_query = "fact_cache \<Rightarrow> type_id \<Rightarrow> (fact_cache \<times> ownership_facts) option"

text \<open>A pass over a list of types, and what is made of its results\<close>

definition pass :: "fact_query \<Rightarrow> fact_cache \<Rightarrow> type_id list \<Rightarrow> (ownership_facts list \<Rightarrow> 'a) \<Rightarrow> (fact_cache \<times> 'a) option" where
  "pass q cache tys f = map_option (\<lambda>(cache', fs). (cache', f fs)) (map_state q cache tys)"

definition aggregate_facts :: "bool \<Rightarrow> bool \<Rightarrow> ownership_facts list \<Rightarrow> ownership_facts" where
  "aggregate_facts custom_drop custom_clone children =
     (let copy = (if custom_drop then Absent else conjunction (map of_copy children)) in
      \<lparr>of_copy = copy,
       of_clone = (if custom_clone \<or> copy = Present then Present
                   else if copy = CapabilityError then CapabilityError else Absent),
       of_needs_drop = (if custom_drop then Present else disjunction (map of_needs_drop children)),
       of_contains_borrow = disjunction (map of_contains_borrow children),
       of_send = conjunction (map of_send children), of_sync = conjunction (map of_sync children)\<rparr>)"

definition aggregate :: "fact_query \<Rightarrow> fact_cache \<Rightarrow> type_id list \<Rightarrow> bool \<Rightarrow> bool \<Rightarrow> (fact_cache \<times> ownership_facts) option" where
  "aggregate q cache tys custom_drop custom_clone = pass q cache tys (aggregate_facts custom_drop custom_clone)"

definition reference_facts :: "mutability \<Rightarrow> ownership_facts \<Rightarrow> ownership_facts" where
  "reference_facts m t =
     (let c = (if m = Shared then Present else Absent) in
      \<lparr>of_copy = c, of_clone = c, of_needs_drop = Absent, of_contains_borrow = Present,
       of_send = (if m = Shared then of_sync t else of_send t), of_sync = of_sync t\<rparr>)"

definition reference_like :: "fact_query \<Rightarrow> fact_cache \<Rightarrow> mutability \<Rightarrow> type_id \<Rightarrow> (fact_cache \<times> ownership_facts) option" where
  "reference_like q cache m target = do {
     (cache', t) \<leftarrow> q cache target;
     Some (cache', reference_facts m t)
   }"

definition nominal_facts ::
  "own_program \<Rightarrow> fact_query \<Rightarrow> fact_cache \<Rightarrow> type_id \<Rightarrow> declaration_id \<Rightarrow> type_id list \<Rightarrow>
   (fact_cache \<times> ownership_facts) option" where
  "nominal_facts p q cache ty d args =
     (if op_is_trait p d then Some (cache, conditional)
      else aggregate q cache (op_fields p d args) (has_trait_impl p ty ''Drop'') (has_trait_impl p ty ''Clone''))"

section \<open>Built-in types\<close>

definition borrow_of :: "ownership_facts list \<Rightarrow> capability_state" where
  "borrow_of fs = disjunction (map of_contains_borrow fs)"

definition send_of :: "ownership_facts list \<Rightarrow> capability_state" where
  "send_of fs = conjunction (map of_send fs)"

definition sync_of :: "ownership_facts list \<Rightarrow> capability_state" where
  "sync_of fs = conjunction (map of_sync fs)"

text \<open>\<open>Shared\<close> and \<open>Weak\<close> are sent only when what they share may be shared and sent.\<close>

definition send_and_sync_of :: "ownership_facts list \<Rightarrow> capability_state" where
  "send_and_sync_of fs = conjunction (concat (map (\<lambda>f. [of_send f, of_sync f]) fs))"

datatype builtin_class =
  ClassConditional | ClassOwning | ClassCounted | ClassStore | ClassHandle | ClassMaybeUninit | ClassResource
| ClassScope | ClassEndpoint | ClassMutex | ClassGuard | ClassAtomic | ClassUnknown

definition builtin_classes :: "(string \<times> builtin_class) list" where
  "builtin_classes =
     map (\<lambda>n. (n, ClassConditional)) [''Copy'', ''Send'', ''Sync'', ''Default'', ''PartialEq'', ''Eq'', ''PartialOrd'', ''Ord'',
       ''Hash'', ''StableHash'', ''Display'', ''Formatter'']
     @ map (\<lambda>n. (n, ClassOwning)) [''Vec'', ''Map'', ''Set'', ''Box'']
     @ [(''Shared'', ClassCounted), (''Weak'', ClassCounted), (''Store'', ClassStore), (''Handle'', ClassHandle),
        (''MaybeUninit'', ClassMaybeUninit)]
     @ map (\<lambda>n. (n, ClassResource)) [''ForeignRoot'', ''ForeignRootMut'', ''File'', ''Directory'', ''Thread'']
     @ [(''Scope'', ClassScope), (''ScopedThread'', ClassScope), (''Sender'', ClassEndpoint), (''Receiver'', ClassEndpoint),
        (''Mutex'', ClassMutex), (''MutexGuard'', ClassGuard), (''AtomicBool'', ClassAtomic), (''AtomicI32'', ClassAtomic),
        (''AtomicUsize'', ClassAtomic)]"

definition builtin_class_of :: "string \<Rightarrow> builtin_class" where
  "builtin_class_of name = (case map_of builtin_classes name of Some c \<Rightarrow> c | None \<Rightarrow> ClassUnknown)"

definition six :: "capability_state \<Rightarrow> capability_state \<Rightarrow> capability_state \<Rightarrow> capability_state \<Rightarrow> capability_state \<Rightarrow> capability_state \<Rightarrow>
    ownership_facts" where
  "six c l d b s y = \<lparr>of_copy = c, of_clone = l, of_needs_drop = d, of_contains_borrow = b, of_send = s, of_sync = y\<rparr>"

definition builtin_facts :: "fact_query \<Rightarrow> fact_cache \<Rightarrow> string \<Rightarrow> type_id list \<Rightarrow> (fact_cache \<times> ownership_facts) option" where
  "builtin_facts q cache name args =
     (case builtin_class_of name of
        ClassConditional \<Rightarrow> Some (cache, conditional)
      | ClassOwning \<Rightarrow> do {
          (c1, facts) \<leftarrow> aggregate q cache args True False;
          (c2, clone) \<leftarrow> pass q c1 args (\<lambda>fs. conjunction (map of_clone fs));
          Some (c2, facts\<lparr>of_copy := Absent, of_clone := clone\<rparr>)
        }
      | ClassCounted \<Rightarrow> do {
          (c1, borrow) \<leftarrow> pass q cache args borrow_of;
          (c2, send) \<leftarrow> pass q c1 args send_and_sync_of;
          (c3, sync) \<leftarrow> pass q c2 args sync_of;
          Some (c3, six Absent Present Present borrow send sync)
        }
      | ClassStore \<Rightarrow> do {
          (c1, borrow) \<leftarrow> pass q cache args borrow_of;
          (c2, send) \<leftarrow> pass q c1 args send_of;
          Some (c2, six Absent Absent Present borrow send Absent)
        }
      | ClassHandle \<Rightarrow> Some (cache, six Present Present Absent Absent Present Present)
      | ClassMaybeUninit \<Rightarrow> do {
          (c1, borrow) \<leftarrow> pass q cache args borrow_of;
          (c2, send) \<leftarrow> pass q c1 args send_of;
          Some (c2, six Absent Absent Absent borrow send Absent)
        }
      | ClassResource \<Rightarrow> do {
          (c1, borrow) \<leftarrow> pass q cache args borrow_of;
          (c2, send) \<leftarrow> pass q c1 args send_of;
          (c3, sync) \<leftarrow> pass q c2 args sync_of;
          Some (c3, six Absent Absent Present borrow send sync)
        }
      | ClassScope \<Rightarrow> Some (cache, six Absent Absent Present Present Absent Absent)
      | ClassEndpoint \<Rightarrow> do {
          (c1, borrow) \<leftarrow> pass q cache args borrow_of;
          (c2, send) \<leftarrow> pass q c1 args send_of;
          (c3, sync) \<leftarrow> pass q c2 args send_of;
          Some (c3, six Absent Present Present borrow send sync)
        }
      | ClassMutex \<Rightarrow> do {
          (c1, borrow) \<leftarrow> pass q cache args borrow_of;
          (c2, send) \<leftarrow> pass q c1 args send_of;
          (c3, sync) \<leftarrow> pass q c2 args send_of;
          Some (c3, six Absent Absent Present borrow send sync)
        }
      | ClassGuard \<Rightarrow> do {
          (c1, sync) \<leftarrow> pass q cache args sync_of;
          Some (c1, six Absent Absent Present Present Absent sync)
        }
      | ClassAtomic \<Rightarrow> Some (cache, six Absent Absent Present Absent Present Present)
      | ClassUnknown \<Rightarrow> do {
          (c1, borrow) \<leftarrow> pass q cache args borrow_of;
          Some (c1, six Absent Absent Conditional borrow Conditional Conditional)
        })"

section \<open>The query\<close>

definition trait_object_facts :: "string option \<Rightarrow> ownership_facts" where
  "trait_object_facts capability =
     six Absent Absent Absent Present (state_if_bound (capability = Some ''Send'' \<or> capability = Some ''Sync''))
       (state_if_bound (capability = Some ''Sync''))"

definition kind_facts :: "own_program \<Rightarrow> fact_query \<Rightarrow> fact_cache \<Rightarrow> type_id \<Rightarrow> type_kind \<Rightarrow> (fact_cache \<times> ownership_facts) option" where
  "kind_facts p q cache ty k =
     (case k of
        TError \<Rightarrow> Some (cache, facts_ERROR)
      | TInferenceVariable v \<Rightarrow> Some (cache, facts_ERROR)
      | TAlias d args target \<Rightarrow> q cache target
      | TNever \<Rightarrow> Some (cache, plain Present)
      | TPrimitive t \<Rightarrow> Some (cache, primitive_facts t)
      | TTuple elements \<Rightarrow> aggregate q cache elements False False
      | TArray element n \<Rightarrow> aggregate q cache [element] False False
      | TSlice m element \<Rightarrow> reference_like q cache m element
      | TReference m target \<Rightarrow> reference_like q cache m target
      | TRawPointer m target \<Rightarrow> Some (cache, six Present Present Absent Absent Absent Absent)
      | TFunction s a r ps t \<Rightarrow> Some (cache, plain Present)
      | TClosure d captures ps t \<Rightarrow> do {
          (c1, facts) \<leftarrow> aggregate q cache captures False False;
          (c2, clone) \<leftarrow> pass q c1 captures (\<lambda>fs. conjunction (map of_clone fs));
          Some (c2, facts\<lparr>of_clone := clone\<rparr>)
        }
      | TNominal identity args \<Rightarrow> nominal_facts p q cache ty (ni_declaration identity) args
      | TBuiltin b args \<Rightarrow> builtin_facts q cache (op_builtin_name p b) args
      | TForeign identity complete \<Rightarrow>
          if complete then aggregate q cache (op_foreign_fields p (ni_declaration identity)) False False
          else Some (cache, facts_ERROR)
      | TTraitObject t \<Rightarrow> Some (cache, trait_object_facts (type_name p t))
      | TSelfType d \<Rightarrow> Some (cache, conditional)
      | TGenericParameter g \<Rightarrow> Some (cache, generic_facts p g))"

definition unsafe_overrides :: "own_program \<Rightarrow> type_id \<Rightarrow> ownership_facts \<Rightarrow> ownership_facts" where
  "unsafe_overrides p ty facts =
     facts\<lparr>of_send := (if has_unsafe_capability_impl p ty ''Send'' then Present else of_send facts),
       of_sync := (if has_unsafe_capability_impl p ty ''Sync'' then Present else of_sync facts)\<rparr>"

text \<open>A type that is being visited is answered with the seeds of its equations.\<close>

definition visiting_seed :: "type_kind \<Rightarrow> ownership_facts" where
  "visiting_seed k =
     (case k of
        TAlias d args target \<Rightarrow> facts_ERROR
      | TError \<Rightarrow> facts_ERROR
      | TInferenceVariable v \<Rightarrow> facts_ERROR
      | _ \<Rightarrow> six Present Present Absent Absent Present Present)"

primrec facts :: "nat \<Rightarrow> own_program \<Rightarrow> type_id list \<Rightarrow> fact_query" where
  "facts 0 p visiting cache ty = None"
| "facts (Suc fuel) p visiting cache ty = do {
     ty \<leftarrow> resolve_inference (op_types p) ty;
     case cache ty of
       Some f \<Rightarrow> Some (cache, f)
     | None \<Rightarrow> do {
         k \<leftarrow> kind_at (op_types p) ty;
         if ty \<in> set visiting then Some (cache, visiting_seed k)
         else do {
           (cache', f) \<leftarrow> kind_facts p (facts fuel p (ty # visiting)) cache ty k;
           Some (cache'(ty \<mapsto> unsafe_overrides p ty f), unsafe_overrides p ty f)
         }
       }
   }"

text \<open>The query of the other passes: it starts from the cache of the queries before.\<close>

definition ownership_facts_of :: "nat \<Rightarrow> own_program \<Rightarrow> fact_query" where
  "ownership_facts_of fuel p cache ty = facts fuel p [] cache ty"

end
