(* ===== verification/Ownership_Exact.thy ===== *)
theory Ownership_Exact
  imports Ownership_Query Type_Theorems
begin

text \<open>
  The ownership equations and what the query of \<^verbatim>\<open>src/types/ownership.rs\<close> makes of them: it solves them
  on every type that does not contain itself, in whatever order types are asked for; on mutually
  recursive types it may not.
\<close>

section \<open>The equations\<close>

text \<open>The types the facts of a type are made of\<close>

definition components :: "own_program \<Rightarrow> type_kind \<Rightarrow> type_id list" where
  "components p k =
     (case k of
        TAlias d args target \<Rightarrow> [target]
      | TTuple elements \<Rightarrow> elements
      | TArray element n \<Rightarrow> [element]
      | TSlice m element \<Rightarrow> [element]
      | TReference m target \<Rightarrow> [target]
      | TClosure d captures ps t \<Rightarrow> captures
      | TNominal identity args \<Rightarrow>
          if op_is_trait p (ni_declaration identity) then [] else op_fields p (ni_declaration identity) args
      | TBuiltin b args \<Rightarrow>
          if builtin_class_of (op_builtin_name p b) \<in> {ClassConditional, ClassHandle, ClassScope, ClassAtomic} then [] else args
      | TForeign identity complete \<Rightarrow> if complete then op_foreign_fields p (ni_declaration identity) else []
      | _ \<Rightarrow> [])"

definition part :: "own_program \<Rightarrow> type_id \<Rightarrow> type_id \<Rightarrow> bool" where
  "part p c ty \<longleftrightarrow>
     (\<exists>k t. kind_at (op_types p) ty = Some k \<and> t \<in> set (components p k) \<and> resolve_inference (op_types p) t = Some c)"

text \<open>Unfolding the type ends.\<close>

abbreviation finite_type :: "own_program \<Rightarrow> type_id \<Rightarrow> bool" where
  "finite_type p \<equiv> Wellfounded.accp (part p)"

text \<open>One step with the components answered by a table of facts\<close>

definition table_query :: "own_program \<Rightarrow> (type_id \<Rightarrow> ownership_facts) \<Rightarrow> fact_query" where
  "table_query p \<phi> cache t = Some (cache, \<phi> (resolved (op_types p) t))"

definition equation :: "own_program \<Rightarrow> (type_id \<Rightarrow> ownership_facts) \<Rightarrow> type_id \<Rightarrow> type_kind \<Rightarrow> ownership_facts" where
  "equation p \<phi> ty k =
     (case kind_facts p (table_query p \<phi>) Map.empty ty k of Some (c, f) \<Rightarrow> unsafe_overrides p ty f | None \<Rightarrow> facts_ERROR)"

definition solves :: "own_program \<Rightarrow> (type_id \<Rightarrow> ownership_facts) \<Rightarrow> bool" where
  "solves p \<phi> \<longleftrightarrow>
     (\<forall>ty k. kind_at (op_types p) ty = Some k \<longrightarrow> resolve_inference (op_types p) ty = Some ty \<longrightarrow> \<phi> ty = equation p \<phi> ty k)"

definition solves_finite :: "own_program \<Rightarrow> (type_id \<Rightarrow> ownership_facts) \<Rightarrow> bool" where
  "solves_finite p \<phi> \<longleftrightarrow>
     (\<forall>ty k. finite_type p ty \<longrightarrow> kind_at (op_types p) ty = Some k \<longrightarrow> resolve_inference (op_types p) ty = Some ty \<longrightarrow>
        \<phi> ty = equation p \<phi> ty k)"

lemma solves_solves_finite: "solves p \<phi> \<Longrightarrow> solves_finite p \<phi>"
  by (simp add: solves_def solves_finite_def)

section \<open>One step\<close>

definition all_finite :: "own_program \<Rightarrow> type_id list \<Rightarrow> bool" where
  "all_finite p tys \<longleftrightarrow> (\<forall>t\<in>set tys. finite_type p (resolved (op_types p) t))"

definition cache_ok :: "own_program \<Rightarrow> (type_id \<Rightarrow> ownership_facts) \<Rightarrow> fact_cache \<Rightarrow> bool" where
  "cache_ok p \<phi> c \<longleftrightarrow> (\<forall>t f. c t = Some f \<longrightarrow> finite_type p t \<longrightarrow> f = \<phi> t)"

definition sound_query :: "own_program \<Rightarrow> (type_id \<Rightarrow> ownership_facts) \<Rightarrow> fact_query \<Rightarrow> type_id list \<Rightarrow> bool" where
  "sound_query p \<phi> q tys \<longleftrightarrow>
     (\<forall>c t c' f. cache_ok p \<phi> c \<longrightarrow> t \<in> set tys \<longrightarrow> q c t = Some (c', f) \<longrightarrow>
        cache_ok p \<phi> c' \<and> (finite_type p (resolved (op_types p) t) \<longrightarrow> f = \<phi> (resolved (op_types p) t)))"

abbreviation table :: "own_program \<Rightarrow> (type_id \<Rightarrow> ownership_facts) \<Rightarrow> type_id list \<Rightarrow> ownership_facts list" where
  "table p \<phi> tys \<equiv> map (\<lambda>t. \<phi> (resolved (op_types p) t)) tys"

lemma map_state_sound:
  "map_state q c tys = Some (c', fs) \<Longrightarrow> sound_query p \<phi> q tys \<Longrightarrow> cache_ok p \<phi> c \<Longrightarrow>
   cache_ok p \<phi> c' \<and> (all_finite p tys \<longrightarrow> fs = table p \<phi> tys)"
proof (induction tys arbitrary: c fs)
  case (Cons t tys)
  from Cons.prems(1) obtain c1 f fs' where m: "q c t = Some (c1, f)" "map_state q c1 tys = Some (c', fs')" "fs = f # fs'"
    by (auto split: option.splits prod.splits)
  have one: "cache_ok p \<phi> c1 \<and> (finite_type p (resolved (op_types p) t) \<longrightarrow> f = \<phi> (resolved (op_types p) t))"
    by (rule Cons.prems(2) [unfolded sound_query_def, rule_format, OF Cons.prems(3) _ m(1)]) simp
  have "sound_query p \<phi> q tys" using Cons.prems(2) unfolding sound_query_def by (meson list.set_intros(2))
  from Cons.IH [OF m(2) this] one m(3) show ?case by (simp add: all_finite_def)
qed simp

lemma pass_sound:
  "pass q c tys f = Some (c', x) \<Longrightarrow> sound_query p \<phi> q tys \<Longrightarrow> cache_ok p \<phi> c \<Longrightarrow>
   cache_ok p \<phi> c' \<and> (all_finite p tys \<longrightarrow> x = f (table p \<phi> tys))"
  using map_state_sound [of q c tys] by (auto simp: pass_def)

lemma map_state_table: "map_state (table_query p \<phi>) c tys = Some (c, table p \<phi> tys)"
  by (induction tys arbitrary: c) (simp_all add: table_query_def)

lemma pass_table: "pass (table_query p \<phi>) c tys f = Some (c, f (table p \<phi> tys))"
  by (simp add: pass_def map_state_table)

text \<open>A step asks only for components, so it keeps what they keep.\<close>

lemma builtin_sound:
  assumes "builtin_facts q c name args = Some (c', x)" "sound_query p \<phi> q args" "cache_ok p \<phi> c"
  shows "cache_ok p \<phi> c' \<and> (all_finite p args \<longrightarrow> map_option snd (builtin_facts (table_query p \<phi>) d name args) = Some x)"
  using assms(1,3)
  by (cases "builtin_class_of name")
    (auto simp: builtin_facts_def aggregate_def bind_eq_Some_conv pass_table dest!: pass_sound [OF _ assms(2)])

lemma reference_sound:
  assumes "reference_like q c m t = Some (c', x)" "sound_query p \<phi> q [t]" "cache_ok p \<phi> c"
  shows "cache_ok p \<phi> c' \<and> (all_finite p [t] \<longrightarrow> map_option snd (reference_like (table_query p \<phi>) d m t) = Some x)"
proof -
  from assms(1) obtain f where "q c t = Some (c', f)" "x = reference_facts m f" by (auto simp: reference_like_def bind_eq_Some_conv)
  with assms(2,3) show ?thesis by (auto simp: reference_like_def table_query_def sound_query_def all_finite_def)
qed

lemma kind_sound:
  assumes "kind_facts p q c ty k = Some (c', x)" "sound_query p \<phi> q (components p k)" "cache_ok p \<phi> c"
  shows "cache_ok p \<phi> c'
    \<and> (all_finite p (components p k) \<longrightarrow> map_option snd (kind_facts p (table_query p \<phi>) d ty k) = Some x)"
proof (cases k)
  case (TBuiltin b args)
  show ?thesis
  proof (cases "builtin_class_of (op_builtin_name p b) \<in> {ClassConditional, ClassHandle, ClassScope, ClassAtomic}")
    case True
    with assms(1,3) TBuiltin show ?thesis by (auto simp: kind_facts_def builtin_facts_def)
  next
    case False
    with assms TBuiltin builtin_sound [of q c "op_builtin_name p b" args c' x p \<phi> d] show ?thesis
      by (simp add: kind_facts_def components_def)
  qed
next
  case (TSlice m t)
  with assms reference_sound [of q c m t c' x p \<phi> d] show ?thesis by (simp add: kind_facts_def components_def)
next
  case (TReference m t)
  with assms reference_sound [of q c m t c' x p \<phi> d] show ?thesis by (simp add: kind_facts_def components_def)
next
  case (TAlias e args t)
  with assms show ?thesis by (auto simp: kind_facts_def components_def table_query_def sound_query_def all_finite_def)
next
  case (TClosure e caps ps t)
  have s: "sound_query p \<phi> q caps" using assms(2) by (simp add: TClosure components_def)
  show ?thesis using assms(1,3)
    by (auto simp: TClosure kind_facts_def components_def aggregate_def bind_eq_Some_conv pass_table dest!: pass_sound [OF _ s])
next
  case (TNominal i args)
  show ?thesis
  proof (cases "op_is_trait p (ni_declaration i)")
    case False
    then have s: "sound_query p \<phi> q (op_fields p (ni_declaration i) args)" using assms(2) by (simp add: TNominal components_def)
    show ?thesis using assms(1,3) False
      by (auto simp: TNominal kind_facts_def components_def nominal_facts_def aggregate_def pass_table dest!: pass_sound [OF _ s])
  qed (use assms(1,3) in \<open>auto simp: TNominal kind_facts_def nominal_facts_def\<close>)
next
  case (TForeign i complete)
  show ?thesis
  proof (cases complete)
    case True
    then have s: "sound_query p \<phi> q (op_foreign_fields p (ni_declaration i))" using assms(2) by (simp add: TForeign components_def)
    show ?thesis using assms(1,3) True
      by (auto simp: TForeign kind_facts_def components_def aggregate_def pass_table dest!: pass_sound [OF _ s])
  qed (use assms(1,3) in \<open>auto simp: TForeign kind_facts_def\<close>)
next
  case (TTuple tys)
  have s: "sound_query p \<phi> q tys" using assms(2) by (simp add: TTuple components_def)
  show ?thesis using assms(1,3)
    by (auto simp: TTuple kind_facts_def components_def aggregate_def pass_table dest!: pass_sound [OF _ s])
next
  case (TArray t n)
  have s: "sound_query p \<phi> q [t]" using assms(2) by (simp add: TArray components_def)
  show ?thesis using assms(1,3)
    by (auto simp: TArray kind_facts_def components_def aggregate_def pass_table dest!: pass_sound [OF _ s])
qed (use assms(1,3) in \<open>auto simp: kind_facts_def\<close>)

section \<open>The search\<close>

lemma finite_no_loop: "finite_type p x \<Longrightarrow> \<not> (part p)\<^sup>+\<^sup>+ x x"
proof (induction rule: accp.induct)
  case (accI x)
  show ?case
  proof
    assume "(part p)\<^sup>+\<^sup>+ x x"
    then obtain y where y: "part p y x" "(part p)\<^sup>*\<^sup>* x y" by (metis rtranclp.rtrancl_refl tranclp.cases tranclp_into_rtranclp)
    then have "(part p)\<^sup>+\<^sup>+ y y" by (meson rtranclp_into_tranclp2)
    with accI y(1) show False by blast
  qed
qed

lemma finite_part: "finite_type p ty \<Longrightarrow> part p c ty \<Longrightarrow> finite_type p c"
  by (rule accp_downward)

lemma finite_components: "finite_type p ty \<Longrightarrow> kind_at (op_types p) ty = Some k \<Longrightarrow>
    (\<And>t. t \<in> set (components p k) \<Longrightarrow> resolve_inference (op_types p) t \<noteq> None) \<Longrightarrow> all_finite p (components p k)"
  by (fastforce simp: all_finite_def resolved_def part_def intro: finite_part)

lemma resolved_eq: "resolve_inference ctx t = Some r \<Longrightarrow> resolved ctx t = r"
  by (simp add: resolved_def)

text \<open>The arena is well formed and every component of a type is in it.\<close>

definition program_ok :: "own_program \<Rightarrow> bool" where
  "program_ok p \<longleftrightarrow> arena_ok (op_types p)
     \<and> (\<forall>ty k t. kind_at (op_types p) ty = Some k \<longrightarrow> t \<in> set (components p k) \<longrightarrow> t < type_count (op_types p))"

lemma program_resolves:
  "program_ok p \<Longrightarrow> kind_at (op_types p) ty = Some k \<Longrightarrow> t \<in> set (components p k) \<Longrightarrow>
   \<exists>r. resolve_inference (op_types p) t = Some r"
  using resolve_inference_Some [of "op_types p" t] unfolding program_ok_def by metis

lemma resolve_idem:
  assumes "program_ok p" "resolve_inference (op_types p) t = Some r" "t < type_count (op_types p)"
  shows "resolve_inference (op_types p) r = Some r" "r < type_count (op_types p)"
proof -
  have ok: "arena_ok (op_types p)" using assms(1) by (simp add: program_ok_def)
  note f = resolve_tree [OF ok assms(2,3)]
  show "resolve_inference (op_types p) r = Some r" by (rule resolve_inference_eq [OF ok f(2) _ f(3)]) simp
  show "r < type_count (op_types p)" by (rule f(2))
qed

lemma resolve_bounded: "resolve_inference ctx t = Some r \<Longrightarrow> t < type_count ctx"
  by (auto simp: resolve_inference_def kind_at_def vget_def split: option.splits if_splits type_kind.splits elim: resolve_from.elims)

text \<open>What the search returns for a type that does not contain itself solves its equation; what it
  leaves in the cache for such types does, too.\<close>

lemma facts_sound:
  assumes p: "program_ok p" and sol: "solves_finite p \<phi>"
  shows "facts fuel p V c ty = Some (c', f) \<Longrightarrow> cache_ok p \<phi> c \<Longrightarrow> resolve_inference (op_types p) ty = Some r \<Longrightarrow>
    (\<And>v. v \<in> set V \<Longrightarrow> (part p)\<^sup>+\<^sup>+ r v) \<Longrightarrow> cache_ok p \<phi> c' \<and> (finite_type p r \<longrightarrow> f = \<phi> r)"
proof (induction fuel arbitrary: V c ty c' f r)
  case (Suc fuel)
  note idem = resolve_idem [OF p Suc.prems(3) resolve_bounded [OF Suc.prems(3)]]
  show ?case
  proof (cases "c r")
    case (Some g)
    with Suc.prems show ?thesis by (auto simp: cache_ok_def)
  next
    case None
    obtain k where k: "kind_at (op_types p) r = Some k" using idem(2) by (simp add: kind_at_eq)
    show ?thesis
    proof (cases "r \<in> set V")
      case True
      with Suc.prems(4) finite_no_loop have "\<not> finite_type p r" by blast
      with Suc.prems None k True show ?thesis by simp
    next
      case False
      let ?q = "facts fuel p (r # V)"
      from Suc.prems(1,3) None k False obtain c1 g where g: "kind_facts p ?q c r k = Some (c1, g)"
        "c' = c1(r \<mapsto> unsafe_overrides p r g)" "f = unsafe_overrides p r g" by (auto simp: bind_eq_Some_conv)
      have q: "sound_query p \<phi> ?q (components p k)"
        unfolding sound_query_def
      proof (intro allI impI)
        fix d t d' h
        assume d: "cache_ok p \<phi> d" "t \<in> set (components p k)" "?q d t = Some (d', h)"
        obtain s where s: "resolve_inference (op_types p) t = Some s" using program_resolves [OF p k d(2)] by blast
        then have sr: "part p s r" using k d(2) by (auto simp: part_def)
        have "(part p)\<^sup>+\<^sup>+ s v" if "v \<in> set (r # V)" for v
          using that sr Suc.prems(4) by (auto intro: tranclp_into_tranclp2)
        from Suc.IH [OF d(3,1) s this] show "cache_ok p \<phi> d'
            \<and> (finite_type p (resolved (op_types p) t) \<longrightarrow> h = \<phi> (resolved (op_types p) t))" by (simp add: resolved_eq [OF s])
      qed
      from kind_sound [OF g(1) q Suc.prems(2), of Map.empty] have ks: "cache_ok p \<phi> c1"
        "all_finite p (components p k) \<Longrightarrow> map_option snd (kind_facts p (table_query p \<phi>) Map.empty r k) = Some g" by blast+
      have "f = \<phi> r" if "finite_type p r"
      proof -
        have "all_finite p (components p k)" using finite_components [OF that k] program_resolves [OF p k] by blast
        with ks(2) have "equation p \<phi> r k = f" by (auto simp: equation_def g(3))
        with sol that k idem(1) show ?thesis by (auto simp: solves_finite_def)
      qed
      with ks(1) g(2,3) show ?thesis by (auto simp: cache_ok_def)
    qed
  qed
qed simp

text \<open>A step answers when its components are answered.\<close>

lemma map_state_answered: "(\<And>c t. t \<in> set tys \<Longrightarrow> q c t \<noteq> None) \<Longrightarrow> map_state q c tys \<noteq> None"
proof (induction tys arbitrary: c)
  case (Cons t tys)
  obtain c1 f where q: "q c t = Some (c1, f)" using Cons.prems [of t c] by auto
  have "map_state q c1 tys \<noteq> None" by (rule Cons.IH) (use Cons.prems in simp)
  with q show ?case by (auto split: option.split)
qed simp

lemma pass_answered: "(\<And>c t. t \<in> set tys \<Longrightarrow> q c t \<noteq> None) \<Longrightarrow> \<exists>c' x. pass q c tys f = Some (c', x)"
  using map_state_answered [of tys q c] by (fastforce simp: pass_def)

lemma pass_bind:
  assumes "\<And>c t. t \<in> set tys \<Longrightarrow> q c t \<noteq> None" "\<And>c' x. g c' x \<noteq> None"
  shows "pass q c tys f \<bind> (\<lambda>(c', x). g c' x) \<noteq> None"
proof -
  obtain c' x where "pass q c tys f = Some (c', x)" using pass_answered [of tys q c f] assms(1) by blast
  with assms(2) show ?thesis by simp
qed

lemma builtin_answered:
  assumes "\<And>c t. t \<in> set args \<Longrightarrow> q c t \<noteq> None"
  shows "builtin_facts q c name args \<noteq> None"
  unfolding builtin_facts_def aggregate_def
  by (cases "builtin_class_of name") (simp_all only: builtin_class.case, (intro pass_bind assms option.distinct(2) | assumption)+)

lemma kind_answered:
  assumes "\<And>c t. t \<in> set (components p k) \<Longrightarrow> q c t \<noteq> None"
  shows "kind_facts p q c ty k \<noteq> None"
proof (cases k)
  case (TBuiltin b args)
  show ?thesis
  proof (cases "builtin_class_of (op_builtin_name p b) \<in> {ClassConditional, ClassHandle, ClassScope, ClassAtomic}")
    case True
    with TBuiltin show ?thesis by (auto simp: kind_facts_def builtin_facts_def)
  next
    case False
    then have "\<And>c t. t \<in> set args \<Longrightarrow> q c t \<noteq> None" using assms TBuiltin by (simp add: components_def)
    from builtin_answered [OF this] show ?thesis by (simp add: TBuiltin kind_facts_def)
  qed
next
  case (TClosure e caps ps t)
  then have n: "\<And>c t. t \<in> set caps \<Longrightarrow> q c t \<noteq> None" using assms by (simp add: components_def)
  show ?thesis unfolding TClosure kind_facts_def aggregate_def type_kind.case by (intro pass_bind n option.distinct(2))
next
  case (TNominal i args)
  then have "\<And>c t. t \<in> set (op_fields p (ni_declaration i) args) \<Longrightarrow> q c t \<noteq> None" if "\<not> op_is_trait p (ni_declaration i)"
    using assms that by (simp add: components_def)
  from pass_answered [OF this] show ?thesis by (fastforce simp: TNominal kind_facts_def nominal_facts_def aggregate_def)
next
  case (TForeign i complete)
  then have "\<And>c t. t \<in> set (op_foreign_fields p (ni_declaration i)) \<Longrightarrow> q c t \<noteq> None" if complete
    using assms that by (simp add: components_def)
  from pass_answered [OF this] show ?thesis by (fastforce simp: TForeign kind_facts_def aggregate_def)
next
  case (TTuple tys)
  then have "\<And>c t. t \<in> set tys \<Longrightarrow> q c t \<noteq> None" using assms by (simp add: components_def)
  from pass_answered [OF this] show ?thesis by (fastforce simp: TTuple kind_facts_def aggregate_def)
next
  case (TArray t n)
  then have "\<And>c u. u \<in> set [t] \<Longrightarrow> q c u \<noteq> None" using assms by (simp add: components_def)
  from pass_answered [OF this] show ?thesis by (fastforce simp: TArray kind_facts_def aggregate_def)
next
  case (TSlice m t)
  then have "q c t \<noteq> None" using assms by (simp add: components_def)
  then show ?thesis by (auto simp: TSlice kind_facts_def reference_like_def)
next
  case (TReference m t)
  then have "q c t \<noteq> None" using assms by (simp add: components_def)
  then show ?thesis by (auto simp: TReference kind_facts_def reference_like_def)
qed (use assms in \<open>auto simp: kind_facts_def components_def\<close>)

text \<open>So a type whose unfolding ends is answered within a bound that does not depend on the cache.\<close>

lemma facts_answered:
  assumes p: "program_ok p"
  shows "finite_type p r \<Longrightarrow> \<exists>n. \<forall>fuel\<ge>n. \<forall>V c ty. resolve_inference (op_types p) ty = Some r \<longrightarrow> facts fuel p V c ty \<noteq> None"
proof (induction rule: accp.induct)
  case (accI r)
  show ?case
  proof (cases "\<exists>ty. resolve_inference (op_types p) ty = Some r")
    case False
    then show ?thesis by blast
  next
    case True
    then obtain ty where ty: "resolve_inference (op_types p) ty = Some r" by blast
    obtain k where k: "kind_at (op_types p) r = Some k"
      using resolve_idem(2) [OF p ty resolve_bounded [OF ty]] by (simp add: kind_at_eq)
    have "\<exists>n. \<forall>fuel\<ge>n. \<forall>V c. facts fuel p V c t \<noteq> None" if t: "t \<in> set (components p k)" for t
    proof -
      obtain s where s: "resolve_inference (op_types p) t = Some s" using program_resolves [OF p k t] by blast
      then have "part p s r" using k t by (auto simp: part_def)
      with accI(2) s show ?thesis by blast
    qed
    then obtain N where N: "\<And>t fuel V c. t \<in> set (components p k) \<Longrightarrow> N t \<le> fuel \<Longrightarrow> facts fuel p V c t \<noteq> None" by metis
    let ?n = "Suc (Max (insert 0 (N ` set (components p k))))"
    have "facts fuel p V c ty \<noteq> None" if f: "?n \<le> fuel" and e: "resolve_inference (op_types p) ty = Some r" for fuel V c ty
    proof -
      obtain m where m: "fuel = Suc m" "Max (insert 0 (N ` set (components p k))) \<le> m" using f by (cases fuel) auto
      have "N t \<le> m" if "t \<in> set (components p k)" for t
        using m(2) that by (meson Max_ge finite.insertI finite_imageI finite_set image_eqI insertI2 le_trans)
      with N have "kind_facts p (facts m p (r # V)) c r k \<noteq> None" by (intro kind_answered) blast
      then show ?thesis using e k by (auto simp: m(1) split: option.split)
    qed
    then show ?thesis by blast
  qed
qed

section \<open>Queries\<close>

text \<open>The caches a sequence of queries leaves\<close>

inductive queried :: "own_program \<Rightarrow> fact_cache \<Rightarrow> bool" for p where
  start: "queried p Map.empty"
| query: "queried p c \<Longrightarrow> ownership_facts_of fuel p c ty = Some (c', f) \<Longrightarrow> queried p c'"

lemma queried_ok:
  assumes p: "program_ok p" and sol: "solves_finite p \<phi>"
  shows "queried p c \<Longrightarrow> cache_ok p \<phi> c"
proof (induction rule: queried.induct)
  case (query c fuel ty c' f)
  then obtain r where r: "resolve_inference (op_types p) ty = Some r"
    by (cases fuel) (auto simp: ownership_facts_of_def bind_eq_Some_conv)
  from facts_sound [OF p sol query(2) [unfolded ownership_facts_of_def] query(3) r] show ?case by simp
qed (simp add: cache_ok_def)


end
