(* ===== verification/Ownership_Examples.thy ===== *)
theory Ownership_Examples
  imports Ownership_Exact
begin

text \<open>
  Ownership queries on a concrete program: the facts of a tuple are exact, those of mutually recursive
  structs depend on which of them is asked for first.
\<close>

section \<open>A program\<close>

text \<open>
  \<open>struct A\<close> holds a vector of \<open>B\<close> and a raw pointer, \<open>struct B\<close> a vector of \<open>A\<close>. Type 21 is \<open>A\<close>, 22 \<open>B\<close>,
  23 \<open>Vec[A]\<close>, 24 \<open>Vec[B]\<close>, 25 a raw pointer to a 32-bit integer and 26 a pair of an integer and a \<open>String\<close>.
\<close>

definition added_kinds :: "type_kind list" where
  "added_kinds = [TNominal (NominalIdentity None 0) [], TNominal (NominalIdentity None 1) [], TBuiltin 0 [21], TBuiltin 0 [22],
     TRawPointer Mutable 7, TTuple [7, 20]]"

definition recursive_types :: type_context where
  "recursive_types = foldl (\<lambda>ctx k. after ctx (intern ctx k)) sample_base added_kinds"

definition recursive_program :: own_program where
  "recursive_program = \<lparr>op_types = recursive_types, op_owned = True, op_is_trait = (\<lambda>d. False),
     op_declaration_name = (\<lambda>d. if d = 0 then ''A'' else ''B''), op_builtin_name = (\<lambda>b. ''Vec''),
     op_fields = (\<lambda>d args. if d = 0 then [24, 25] else [23]), op_foreign_fields = (\<lambda>d. []), op_impls = [], op_obligations = []\<rparr>"

definition fresh_facts :: "type_id \<Rightarrow> ownership_facts" where
  "fresh_facts ty = (case ownership_facts_of 20 recursive_program Map.empty ty of Some (c, f) \<Rightarrow> f | None \<Rightarrow> facts_ERROR)"

definition after_A :: fact_cache where
  "after_A = (case ownership_facts_of 20 recursive_program Map.empty 21 of Some (c, f) \<Rightarrow> c | None \<Rightarrow> Map.empty)"

lemma recursive_count: "type_count recursive_types = 27"
  by code_simp

definition plain_kind :: "type_context \<Rightarrow> type_kind \<Rightarrow> bool" where
  "plain_kind ctx k \<longleftrightarrow> intern ctx k \<noteq> None \<and> list_all (\<lambda>c. c < length (tc_kinds ctx)) (type_children k)
     \<and> (case k of TInferenceVariable v \<Rightarrow> False | _ \<Rightarrow> True)"

lemma plain_built:
  assumes "built ctx" "plain_kind ctx k"
  shows "built (after ctx (intern ctx k))"
proof -
  from assms(2) obtain c i where i: "intern ctx k = Some (c, i)" by (auto simp: plain_kind_def)
  have "valid_kind ctx k" using assms(2) by (cases k) (simp_all add: plain_kind_def valid_kind_def list_all_iff)
  from built.interned [OF assms(1) this i] i show ?thesis by (simp add: after_def)
qed

primrec plain_kinds :: "type_context \<Rightarrow> type_kind list \<Rightarrow> bool" where
  "plain_kinds ctx [] = True"
| "plain_kinds ctx (k # ks) = (plain_kind ctx k \<and> plain_kinds (after ctx (intern ctx k)) ks)"

lemma fold_built: "built ctx \<Longrightarrow> plain_kinds ctx ks \<Longrightarrow> built (foldl (\<lambda>c k. after c (intern c k)) ctx ks)"
  by (induction ks arbitrary: ctx) (simp_all add: plain_built)

lemma recursive_built: "built recursive_types"
proof -
  have "plain_kinds sample_base added_kinds" by code_simp
  with sample_built(2) show ?thesis unfolding recursive_types_def by (rule fold_built)
qed

lemma recursive_ok: "program_ok recursive_program"
proof -
  have c: "list_all (\<lambda>ty. case kind_at recursive_types ty of Some k \<Rightarrow> list_all (\<lambda>t. t < 27) (components recursive_program k) | None \<Rightarrow> True)
      [0..<27]" by code_simp
  have "t < 27" if "kind_at recursive_types ty = Some k" "t \<in> set (components recursive_program k)" for ty k t
  proof -
    have "ty < 27" using that(1) recursive_count by (auto simp: kind_at_def vget_def split: if_splits)
    then have "case kind_at recursive_types ty of Some k \<Rightarrow> list_all (\<lambda>t. t < 27) (components recursive_program k) | None \<Rightarrow> True"
      using c by (simp add: list_all_iff)
    with that show ?thesis by (simp add: list_all_iff)
  qed
  then show ?thesis using built_ok [OF recursive_built] recursive_count by (auto simp: program_ok_def recursive_program_def)
qed

lemma fresh_solves: "solves recursive_program fresh_facts"
proof -
  have c: "list_all (\<lambda>ty. case kind_at recursive_types ty of Some k \<Rightarrow> fresh_facts ty = equation recursive_program fresh_facts ty k | None \<Rightarrow> True)
      [0..<27]" by code_simp
  have "fresh_facts ty = equation recursive_program fresh_facts ty k" if "kind_at recursive_types ty = Some k" for ty k
  proof -
    have "ty < 27" using that recursive_count by (auto simp: kind_at_def vget_def split: if_splits)
    then have "case kind_at recursive_types ty of Some k \<Rightarrow> fresh_facts ty = equation recursive_program fresh_facts ty k | None \<Rightarrow> True"
      using c by (simp add: list_all_iff)
    with that show ?thesis by simp
  qed
  then show ?thesis by (simp add: solves_def recursive_program_def)
qed

lemma fin: "kind_at (op_types p) ty = Some (TPrimitive t) \<Longrightarrow> finite_type p ty"
  by (rule accp.accI) (auto simp: part_def components_def)

lemma pair_finite: "finite_type recursive_program 26"
proof (rule accp.accI)
  fix c assume "part recursive_program c 26"
  moreover have "kind_at (op_types recursive_program) 26 = Some (TTuple [7, 20])" by code_simp
  moreover have "resolve_inference (op_types recursive_program) 7 = Some 7"
    "resolve_inference (op_types recursive_program) 20 = Some 20" by code_simp+
  ultimately have "c = 7 \<or> c = 20" by (auto simp: part_def components_def)
  moreover have "kind_at (op_types recursive_program) 7 = Some (TPrimitive PI32)"
    "kind_at (op_types recursive_program) 20 = Some (TPrimitive PString)" by code_simp+
  ultimately show "finite_type recursive_program c" by (metis fin)
qed

lemma raw_pointer_not_sent:
  assumes "solves recursive_program \<phi>"
  shows "of_send (\<phi> 22) \<in> {Absent, CapabilityError}"
proof -
  have k: "kind_at (op_types recursive_program) 21 = Some (TNominal (NominalIdentity None 0) [])"
    "kind_at (op_types recursive_program) 22 = Some (TNominal (NominalIdentity None 1) [])"
    "kind_at (op_types recursive_program) 23 = Some (TBuiltin 0 [21])"
    "kind_at (op_types recursive_program) 25 = Some (TRawPointer Mutable 7)" by code_simp+
  have r: "resolve_inference (op_types recursive_program) 21 = Some 21" "resolve_inference (op_types recursive_program) 22 = Some 22"
    "resolve_inference (op_types recursive_program) 23 = Some 23" "resolve_inference (op_types recursive_program) 24 = Some 24"
    "resolve_inference (op_types recursive_program) 25 = Some 25" by code_simp+
  have s: "op_is_trait recursive_program d = False" "op_fields recursive_program 0 [] = [24, 25]" "op_fields recursive_program (Suc 0) [] = [23]"
    "op_builtin_name recursive_program 0 = ''Vec''" "op_impls recursive_program = []" for d
    by (simp_all add: recursive_program_def)
  have o: "builtin_class_of ''Vec'' = ClassOwning" by code_simp
  note e = assms [unfolded solves_def, rule_format]
  note d = equation_def kind_facts_def nominal_facts_def aggregate_def pass_table resolved_def s has_unsafe_capability_impl_def
    has_trait_impl_def unsafe_overrides_def aggregate_facts_def conjunction_def conjoin_def Let_def
  have "of_send (\<phi> 25) = Absent" using e [OF k(4) r(5)] by (simp add: d six_def)
  then have A: "of_send (\<phi> 21) \<in> {Absent, CapabilityError}" using e [OF k(1) r(1)] by (simp add: d r)
  then have V: "of_send (\<phi> 23) \<in> {Absent, CapabilityError}" using e [OF k(3) r(3)] by (auto simp: d builtin_facts_def o r)
  then show ?thesis using e [OF k(2) r(2)] by (auto simp: d r)
qed

section \<open>Exact and inexact answers\<close>


text \<open>The answer for a recursive type depends on the order of the queries: asked first, \<open>B\<close> cannot be sent
  to another thread, because it holds \<open>A\<close>s and those a raw pointer; asked after \<open>A\<close>, it can. The seed that
  answers \<open>A\<close> while it is being visited stays in what the cache remembers of \<open>B\<close>.\<close>

theorem recursive_facts_order:
  "map_option (of_send \<circ> snd) (ownership_facts_of 20 recursive_program Map.empty 22) = Some Absent
   \<and> map_option (of_send \<circ> snd) (ownership_facts_of 20 recursive_program after_A 22) = Some Present"
  by code_simp

end
