(* ===== verification/Move_State.thy ===== *)
theory Move_State
  imports Ownership
begin

text \<open>
  The state of the move checker, \<^verbatim>\<open>src/check/moves.rs\<close>: for every root a tree of projections whose
  nodes record when the place last became available or unavailable, and the join of two states. A
  place without a node of its own has the transition of its nearest ancestor.
\<close>

section \<open>Transitions\<close>

datatype unavailable_kind = Uninitialized | Moved

record transition =
  tr_available :: bool
  tr_span :: span
  tr_kind :: unavailable_kind

definition transition_initialized :: "span \<Rightarrow> transition" where
  "transition_initialized sp = \<lparr>tr_available = True, tr_span = sp, tr_kind = Uninitialized\<rparr>"

definition transition_uninitialized :: "span \<Rightarrow> transition" where
  "transition_uninitialized sp = \<lparr>tr_available = False, tr_span = sp, tr_kind = Uninitialized\<rparr>"

definition transition_moved :: "span \<Rightarrow> transition" where
  "transition_moved sp = \<lparr>tr_available = False, tr_span = sp, tr_kind = Moved\<rparr>"

text \<open>The key of the derived order on \<open>(span, kind)\<close>\<close>

definition transition_key :: "transition \<Rightarrow> (nat \<times> nat \<times> nat) \<times> nat" where
  "transition_key t = (span_key (tr_span t), case tr_kind t of Uninitialized \<Rightarrow> 0 | Moved \<Rightarrow> 1)"

definition join_transition :: "transition \<Rightarrow> transition \<Rightarrow> transition" where
  "join_transition left right =
     (case (tr_available left, tr_available right) of
        (True, True) \<Rightarrow> if span_key (tr_span left) \<le> span_key (tr_span right) then left else right
      | (False, True) \<Rightarrow> left
      | (True, False) \<Rightarrow> right
      | (False, False) \<Rightarrow> if transition_key left \<le> transition_key right then left else right)"

section \<open>Nodes\<close>

datatype state_node = StateNode (sn_transition: transition) (sn_children: "(ownership_projection \<times> state_node) list")

definition node_new :: "transition \<Rightarrow> state_node" where
  "node_new t = StateNode t []"

text \<open>The child of a node, or the node it would inherit\<close>

definition child_or_new :: "state_node \<Rightarrow> ownership_projection \<Rightarrow> state_node" where
  "child_or_new n p = (case map_of (sn_children n) p of Some c \<Rightarrow> c | None \<Rightarrow> node_new (sn_transition n))"

fun node_set :: "state_node \<Rightarrow> ownership_projection list \<Rightarrow> transition \<Rightarrow> state_node" where
  "node_set n [] t = StateNode t []"
| "node_set n (p # ps) t =
     StateNode (sn_transition n) (map_insert p (node_set (child_or_new n p) ps t) (sn_children n))"

lemma child_size: "map_of cs p = Some c \<Longrightarrow> size c < Suc (size_list (size_prod (\<lambda>p. 0) size) cs)"
  by (induction cs) (auto split: if_splits)

lemma size_child_or_new: "size (child_or_new n p) \<le> size n"
  by (cases n) (auto simp: child_or_new_def node_new_def split: option.split dest!: child_size)

lemma size_child_less: "p \<in> fst ` set (sn_children n) \<Longrightarrow> size (child_or_new n p) < size n"
proof -
  assume "p \<in> fst ` set (sn_children n)"
  then obtain c where "map_of (sn_children n) p = Some c" by (metis map_of_eq_None_iff not_None_eq)
  then show ?thesis by (cases n) (auto simp: child_or_new_def dest!: child_size)
qed

text \<open>The loop of \<open>join_nodes\<close> over the joined keys, keeping the children that differ from their parent\<close>

fun join_children :: "(ownership_projection \<Rightarrow> state_node) \<Rightarrow> transition \<Rightarrow> ownership_projection list \<Rightarrow>
    (ownership_projection \<times> state_node) list" where
  "join_children f t [] = []"
| "join_children f t (p # ps) =
     (let child = f p
      in if sn_transition child \<noteq> t \<or> sn_children child \<noteq> [] then (p, child) # join_children f t ps
         else join_children f t ps)"

lemma join_children_cong [fundef_cong]:
  "ps = qs \<Longrightarrow> t = u \<Longrightarrow> (\<And>p. p \<in> set qs \<Longrightarrow> f p = g p) \<Longrightarrow> join_children f t ps = join_children g u qs"
  by (induction ps arbitrary: qs) (auto simp: Let_def)

lemma join_sizes:
  "p \<in> set (merge_keys (map fst (sn_children a)) (map fst (sn_children b)))
   \<Longrightarrow> size (child_or_new a p) + size (child_or_new b p) < size a + size b"
  using size_child_or_new [of a p] size_child_or_new [of b p] size_child_less [of p a] size_child_less [of p b]
  by force

function join_nodes :: "state_node \<Rightarrow> state_node \<Rightarrow> state_node" where
  "join_nodes left right =
     (let t = join_transition (sn_transition left) (sn_transition right)
      in StateNode t
           (join_children (\<lambda>p. join_nodes (child_or_new left p) (child_or_new right p)) t
              (merge_keys (map fst (sn_children left)) (map fst (sn_children right)))))"
  by pat_completeness auto
termination
  by (relation "measure (\<lambda>(a, b). size a + size b)") (auto dest!: join_sizes simp del: set_merge_keys)

declare join_nodes.simps [simp del]

text \<open>The same equations with the recursion below a list, for evaluation\<close>

definition keep_child :: "transition \<Rightarrow> ownership_projection \<Rightarrow> state_node \<Rightarrow> (ownership_projection \<times> state_node) list \<Rightarrow>
    (ownership_projection \<times> state_node) list" where
  "keep_child t p child rest = (if sn_transition child \<noteq> t \<or> sn_children child \<noteq> [] then (p, child) # rest else rest)"

definition join_below :: "state_node \<Rightarrow> state_node \<Rightarrow> transition \<Rightarrow> ownership_projection list \<Rightarrow> (ownership_projection \<times> state_node) list" where
  "join_below left right t ps = join_children (\<lambda>p. join_nodes (child_or_new left p) (child_or_new right p)) t ps"

definition join_under :: "transition \<Rightarrow> state_node \<Rightarrow> state_node \<Rightarrow> state_node" where
  "join_under t left right = StateNode t (join_below left right t (merge_keys (map fst (sn_children left)) (map fst (sn_children right))))"

lemma join_below_code [code]:
  "join_below left right t [] = []"
  "join_below left right t (p # ps) =
     keep_child t p (join_nodes (child_or_new left p) (child_or_new right p)) (join_below left right t ps)"
  by (simp_all add: join_below_def keep_child_def Let_def)

lemma join_nodes_code [code]:
  "join_nodes left right = join_under (join_transition (sn_transition left) (sn_transition right)) left right"
  by (subst join_nodes.simps) (simp add: join_under_def join_below_def Let_def)

section \<open>States\<close>

type_synonym move_state = "(ownership_place_root, state_node) ordered_map"

definition state_set :: "move_state \<Rightarrow> ownership_place \<Rightarrow> transition \<Rightarrow> move_state" where
  "state_set st place t =
     (case map_of st (op_root place) of
        None \<Rightarrow> st
      | Some root \<Rightarrow> map_insert (op_root place) (node_set root (op_projections place) t) st)"

definition join_roots :: "move_state \<Rightarrow> move_state \<Rightarrow> ownership_place_root \<Rightarrow> state_node option" where
  "join_roots joined st root =
     (case (map_of joined root, map_of st root) of
        (Some left, Some right) \<Rightarrow> Some (join_nodes left right)
      | (Some n, None) \<Rightarrow> Some n
      | (None, Some n) \<Rightarrow> Some n
      | (None, None) \<Rightarrow> None)"

definition join_two :: "move_state \<Rightarrow> move_state \<Rightarrow> move_state" where
  "join_two joined st =
     List.map_filter (\<lambda>root. map_option (Pair root) (join_roots joined st root))
       (merge_keys (map fst joined) (map fst st))"

fun join_states :: "move_state list \<Rightarrow> move_state option" where
  "join_states [] = None"
| "join_states (s # ss) = Some (foldl join_two s ss)"

section \<open>What a node says of a place\<close>

fun node_at :: "state_node \<Rightarrow> ownership_projection list \<Rightarrow> transition" where
  "node_at n [] = sn_transition n"
| "node_at n (p # ps) = node_at (child_or_new n p) ps"

inductive node_ok :: "state_node \<Rightarrow> bool" where
  "ascending cs \<Longrightarrow> (\<And>p c. (p, c) \<in> set cs \<Longrightarrow> node_ok c) \<Longrightarrow> node_ok (StateNode t cs)"

inductive_cases node_okE: "node_ok (StateNode t cs)"

lemma node_ok_simp: "node_ok n \<longleftrightarrow> ascending (sn_children n) \<and> (\<forall>(p, c)\<in>set (sn_children n). node_ok c)"
  by (cases n) (auto intro: node_ok.intros elim: node_okE)

lemma node_new_sel [simp]: "sn_transition (node_new t) = t" "sn_children (node_new t) = []"
  by (simp_all add: node_new_def)

lemma node_new_ok [simp]: "node_ok (node_new t)"
  by (simp add: node_ok_simp [of "node_new t"])

lemma child_or_new_new [simp]: "child_or_new (node_new t) p = node_new t"
  by (simp add: child_or_new_def)

lemma child_ok [simp]: "node_ok n \<Longrightarrow> node_ok (child_or_new n p)"
  by (auto simp: child_or_new_def node_ok_simp [of n] split: option.split dest!: map_of_SomeD)

lemma node_at_new [simp]: "node_at (node_new t) ps = t"
  by (induction ps) simp_all

lemma child_or_new_insert:
  "ascending (sn_children n) \<Longrightarrow>
   child_or_new (StateNode t (map_insert p c (sn_children n))) q
     = (if q = p then c else case map_of (sn_children n) q of Some c \<Rightarrow> c | None \<Rightarrow> node_new t)"
  by (auto simp: child_or_new_def split: option.split)

lemma node_ok_set [simp]: "node_ok n \<Longrightarrow> node_ok (node_set n ps t)"
proof (induction ps arbitrary: n)
  case Nil
  then show ?case by (simp add: node_ok_simp [of "StateNode t []"])
next
  case (Cons p ps)
  have c: "node_ok (node_set (child_or_new n p) ps t)" by (rule Cons.IH) (simp add: Cons.prems)
  have "\<forall>(q, d)\<in>set (map_insert p x cs). node_ok d" if "node_ok x" "\<forall>(q, d)\<in>set cs. node_ok d" for x cs
    using that by (induction p x cs rule: map_insert.induct) auto
  from this [OF c, of "sn_children n"] Cons.prems show ?case
    by (simp add: node_ok_simp [of n] node_ok_simp [of "StateNode _ _"])
qed

text \<open>Setting a place sets all of it and nothing else.\<close>

lemma node_at_set:
  "node_ok n \<Longrightarrow> node_at (node_set n ps t) qs = (if prefix ps qs then t else node_at n qs)"
proof (induction ps arbitrary: n qs)
  case Nil
  have "node_at (StateNode t []) qs = node_at (node_new t) qs" by (simp add: node_new_def)
  then show ?case by simp
next
  case (Cons p ps)
  have a: "ascending (sn_children n)" using Cons.prems by (simp add: node_ok_simp [of n])
  show ?case
  proof (cases qs)
    case Nil
    then show ?thesis by simp
  next
    case q: (Cons q qs')
    show ?thesis
    proof (cases "q = p")
      case True
      with Cons.IH [of "child_or_new n p" qs'] Cons.prems show ?thesis
        by (simp add: q child_or_new_insert [OF a])
    next
      case False
      then show ?thesis by (simp add: q child_or_new_insert [OF a]) (simp add: child_or_new_def)
    qed
  qed
qed

section \<open>Joins\<close>

definition coherent :: "transition \<Rightarrow> bool" where
  "coherent t \<longleftrightarrow> (tr_available t \<longrightarrow> tr_kind t = Uninitialized)"

definition node_coherent :: "state_node \<Rightarrow> bool" where
  "node_coherent n \<longleftrightarrow> (\<forall>ps. coherent (node_at n ps))"

lemma join_available [simp]: "tr_available (join_transition a b) \<longleftrightarrow> tr_available a \<and> tr_available b"
  by (auto simp: join_transition_def split: bool.split)

text \<open>On coherent transitions the join is the minimum of a linear order, unavailable ones first.\<close>

definition join_rank :: "transition \<Rightarrow> nat \<times> (nat \<times> nat \<times> nat) \<times> nat" where
  "join_rank t = (if tr_available t then 1 else 0, transition_key t)"

lemma join_rank_inject: "join_rank a = join_rank b \<longleftrightarrow> a = b"
  by (cases a; cases b)
    (auto simp: join_rank_def transition_key_def split: if_splits unavailable_kind.splits)

lemma join_transition_min:
  "coherent a \<Longrightarrow> coherent b \<Longrightarrow> join_transition a b = (if join_rank a \<le> join_rank b then a else b)"
  by (auto simp: join_transition_def join_rank_def coherent_def transition_key_def split: bool.split)

lemma join_transition_cases: "join_transition a b = a \<or> join_transition a b = b"
  by (simp add: join_transition_def split: bool.split)

lemma coherent_join [simp]: "coherent a \<Longrightarrow> coherent b \<Longrightarrow> coherent (join_transition a b)"
  using join_transition_cases [of a b] by auto

lemma join_transition_idem [simp]: "join_transition a a = a"
  by (simp add: join_transition_def split: bool.split)

lemma join_transition_commute: "coherent a \<Longrightarrow> coherent b \<Longrightarrow> join_transition a b = join_transition b a"
  by (auto simp: join_transition_min join_rank_inject [symmetric])

lemma join_transition_assoc:
  "coherent a \<Longrightarrow> coherent b \<Longrightarrow> coherent c \<Longrightarrow>
   join_transition (join_transition a b) c = join_transition a (join_transition b c)"
  by (auto simp: join_transition_min)

end
