(* ===== verification/Move_Join.thy ===== *)
theory Move_Join
  imports Move_State
begin

text \<open>
  The states of the move checker refine functions from places to transitions: setting a place updates
  the cone below it, joining is pointwise, and joined states, which keep no redundant node, are equal
  when they say the same of every place. The locale is the interface the analysis relies on.
\<close>

section \<open>Joining nodes\<close>

lemma map_of_join_children:
  "map_of (join_children f t ps) q =
     (if q \<in> set ps \<and> (sn_transition (f q) \<noteq> t \<or> sn_children (f q) \<noteq> []) then Some (f q) else None)"
  by (induction ps) (auto simp: Let_def)

lemma keys_join_children: "fst ` set (join_children f t ps) \<subseteq> set ps"
  by (induction ps) (auto simp: Let_def)

lemma join_children_entries: "(p, c) \<in> set (join_children f t ps) \<Longrightarrow> p \<in> set ps \<and> c = f p \<and> (sn_transition c \<noteq> t \<or> sn_children c \<noteq> [])"
  by (induction ps) (auto simp: Let_def split: if_splits)

lemma ascending_join_children: "sorted_wrt (<) ps \<Longrightarrow> ascending (join_children f t ps)"
proof (induction ps)
  case (Cons p ps)
  with keys_join_children [of f t ps] show ?case by (auto simp: Let_def ascending_Cons)
qed simp

lemma join_nodes_transition [simp]: "sn_transition (join_nodes a b) = join_transition (sn_transition a) (sn_transition b)"
  by (simp add: join_nodes.simps [of a b] Let_def)

lemma join_nodes_children:
  "sn_children (join_nodes a b) =
     join_children (\<lambda>p. join_nodes (child_or_new a p) (child_or_new b p))
       (join_transition (sn_transition a) (sn_transition b))
       (merge_keys (map fst (sn_children a)) (map fst (sn_children b)))"
  by (subst join_nodes.simps) (simp add: Let_def)

lemma state_node_eqI: "sn_transition a = sn_transition b \<Longrightarrow> sn_children a = sn_children b \<Longrightarrow> a = b"
  by (cases a; cases b) simp

lemma join_nodes_new [simp]: "join_nodes (node_new t) (node_new u) = node_new (join_transition t u)"
proof (rule state_node_eqI)
  show "sn_children (join_nodes (node_new t) (node_new u)) = sn_children (node_new (join_transition t u))"
    by (simp add: join_nodes_children)
qed simp

lemma child_join_nodes: "child_or_new (join_nodes a b) p = join_nodes (child_or_new a p) (child_or_new b p)"
proof -
  let ?t = "join_transition (sn_transition a) (sn_transition b)"
  let ?c = "join_nodes (child_or_new a p) (child_or_new b p)"
  let ?ks = "merge_keys (map fst (sn_children a)) (map fst (sn_children b))"
  have m: "map_of (sn_children (join_nodes a b)) p =
      (if p \<in> set ?ks \<and> (sn_transition ?c \<noteq> ?t \<or> sn_children ?c \<noteq> []) then Some ?c else None)"
    unfolding join_nodes_children map_of_join_children ..
  show ?thesis
  proof (cases "p \<in> set ?ks")
    case True
    have "?c = node_new ?t" if "sn_transition ?c = ?t" "sn_children ?c = []"
      by (rule state_node_eqI) (simp_all add: that del: join_nodes_transition)
    with True show ?thesis by (auto simp: child_or_new_def [of "join_nodes a b"] m)
  next
    case False
    then have "map_of (sn_children a) p = None" "map_of (sn_children b) p = None" by (auto simp: map_of_eq_None_iff)
    then have "?c = node_new ?t" by (simp add: child_or_new_def)
    with False show ?thesis by (simp add: child_or_new_def [of "join_nodes a b"] m)
  qed
qed

lemma node_at_join: "node_at (join_nodes a b) ps = join_transition (node_at a ps) (node_at b ps)"
  by (induction ps arbitrary: a b) (simp_all add: child_join_nodes)

lemma node_ok_keys: "node_ok n \<Longrightarrow> sorted_wrt (<) (map fst (sn_children n))"
  by (simp add: node_ok_simp [of n] ascending_def)

lemma node_ok_join: "node_ok a \<Longrightarrow> node_ok b \<Longrightarrow> node_ok (join_nodes a b)"
proof (induction a b rule: join_nodes.induct)
  case (1 a b)
  let ?ks = "merge_keys (map fst (sn_children a)) (map fst (sn_children b))"
  have "node_ok c" if "(p, c) \<in> set (sn_children (join_nodes a b))" for p c
  proof -
    from that have "p \<in> set ?ks" "c = join_nodes (child_or_new a p) (child_or_new b p)"
      using join_children_entries by (force simp: join_nodes_children)+
    with 1 show ?thesis by simp
  qed
  moreover have "ascending (sn_children (join_nodes a b))"
    using 1(2,3) by (simp add: join_nodes_children ascending_join_children node_ok_keys)
  ultimately show ?case by (auto simp: node_ok_simp [of "join_nodes a b"])
qed

section \<open>Canonical nodes\<close>

inductive pruned :: "state_node \<Rightarrow> bool" where
  "(\<And>p c. (p, c) \<in> set cs \<Longrightarrow> pruned c \<and> (sn_transition c \<noteq> t \<or> sn_children c \<noteq> [])) \<Longrightarrow> pruned (StateNode t cs)"

inductive_cases prunedE: "pruned (StateNode t cs)"

lemma pruned_simp: "pruned n \<longleftrightarrow>
    (\<forall>(p, c)\<in>set (sn_children n). pruned c \<and> (sn_transition c \<noteq> sn_transition n \<or> sn_children c \<noteq> []))"
  by (cases n) (fastforce intro: pruned.intros elim: prunedE)

lemma pruned_join: "pruned (join_nodes a b)"
proof (induction a b rule: join_nodes.induct)
  case (1 a b)
  have "pruned c \<and> (sn_transition c \<noteq> sn_transition (join_nodes a b) \<or> sn_children c \<noteq> [])"
    if "(p, c) \<in> set (sn_children (join_nodes a b))" for p c
  proof -
    from that have "p \<in> set (merge_keys (map fst (sn_children a)) (map fst (sn_children b)))"
      "c = join_nodes (child_or_new a p) (child_or_new b p)"
      "sn_transition c \<noteq> sn_transition (join_nodes a b) \<or> sn_children c \<noteq> []"
      using join_children_entries by (force simp: join_nodes_children)+
    with 1 show ?thesis by simp
  qed
  then show ?case by (auto simp: pruned_simp [of "join_nodes a b"])
qed

lemma child_or_new_entry: "node_ok n \<Longrightarrow> (p, c) \<in> set (sn_children n) \<Longrightarrow> child_or_new n p = c"
  by (simp add: child_or_new_def node_ok_simp [of n] ascending_distinct)

lemma pruned_child_differs:
  "pruned c \<Longrightarrow> node_ok c \<Longrightarrow> sn_transition c \<noteq> t \<or> sn_children c \<noteq> [] \<Longrightarrow> \<exists>ps. node_at c ps \<noteq> t"
proof (induction c arbitrary: t rule: pruned.induct)
  case (1 cs u)
  show ?case
  proof (cases "u = t")
    case False
    then show ?thesis by (intro exI [of _ "[]"]) simp
  next
    case True
    with 1(3) obtain p c where e: "(p, c) \<in> set cs" by (cases cs) auto
    moreover from 1(2) e have "node_ok c" by (auto elim: node_okE)
    ultimately obtain ps where "node_at c ps \<noteq> t" using 1(1) [OF e] True by blast
    moreover have "child_or_new (StateNode u cs) p = c" using child_or_new_entry [OF 1(2)] e by simp
    ultimately show ?thesis by (intro exI [of _ "p # ps"]) simp
  qed
qed

text \<open>Canonical nodes that agree on every place are equal.\<close>

lemma pruned_keys:
  assumes "pruned a" "node_ok a" "\<And>ps. node_at a ps = node_at b ps" "map_of (sn_children a) p = Some c"
  shows "\<exists>d. map_of (sn_children b) p = Some d"
proof (rule ccontr)
  assume "\<not> ?thesis"
  then have b: "child_or_new b p = node_new (sn_transition b)" by (simp add: child_or_new_def)
  have e: "(p, c) \<in> set (sn_children a)" using assms(4) by (rule map_of_SomeD)
  with assms(1,2) have c: "pruned c" "node_ok c" "sn_transition c \<noteq> sn_transition a \<or> sn_children c \<noteq> []"
    by (auto simp: pruned_simp [of a] node_ok_simp [of a])
  then obtain ps where "node_at c ps \<noteq> sn_transition a" using pruned_child_differs by blast
  moreover have "node_at c ps = node_at b (p # ps)"
    using assms(3) [of "p # ps"] by (simp add: child_or_new_entry [OF assms(2) e])
  moreover have "sn_transition a = sn_transition b" using assms(3) [of "[]"] by simp
  ultimately show False by (simp add: b)
qed

lemma pruned_eqI:
  "pruned a \<Longrightarrow> pruned b \<Longrightarrow> node_ok a \<Longrightarrow> node_ok b \<Longrightarrow> (\<And>ps. node_at a ps = node_at b ps) \<Longrightarrow> a = b"
proof (induction a arbitrary: b rule: pruned.induct)
  case (1 cs t)
  let ?a = "StateNode t cs"
  have pa: "pruned ?a" using 1(1) by (auto intro: pruned.intros)
  have asc: "ascending cs" "ascending (sn_children b)" using 1(3,4) by (simp_all add: node_ok_simp [of b] node_ok_simp [of ?a])
  have "map_of cs p = map_of (sn_children b) p" for p
  proof (cases "map_of cs p")
    case None
    with pruned_keys [of b ?a p] 1(2,4) 1(5) show ?thesis by (cases "map_of (sn_children b) p") auto
  next
    case (Some c)
    then obtain d where d: "map_of (sn_children b) p = Some d" using pruned_keys [OF pa 1(3) 1(5), of p c] by auto
    have e: "(p, c) \<in> set cs" "(p, d) \<in> set (sn_children b)" using Some d by (simp_all add: map_of_SomeD)
    have ok: "pruned d" "node_ok d" "node_ok c"
      using 1(2-4) e by (auto simp: pruned_simp [of b] node_ok_simp [of b] node_ok_simp [of ?a])
    have "node_at c ps = node_at d ps" for ps
      using 1(5) [of "p # ps"] child_or_new_entry [OF 1(3), of p c] child_or_new_entry [OF 1(4) e(2)] e(1) by simp
    then have "c = d" using 1(1) [OF e(1)] ok by blast
    with Some d show ?thesis by simp
  qed
  then have "cs = sn_children b" using asc by (rule ascending_eqI [rotated -1])
  moreover have "t = sn_transition b" using 1(5) [of "[]"] by simp
  ultimately show ?case by (intro state_node_eqI) simp_all
qed

section \<open>States\<close>

definition state_ok :: "move_state \<Rightarrow> bool" where
  "state_ok st \<longleftrightarrow> ascending st \<and> (\<forall>(r, n)\<in>set st. node_ok n)"

definition state_pruned :: "move_state \<Rightarrow> bool" where
  "state_pruned st \<longleftrightarrow> (\<forall>(r, n)\<in>set st. pruned n)"

text \<open>What a state says of a place\<close>

definition state_at :: "move_state \<Rightarrow> ownership_place_root \<Rightarrow> ownership_projection list \<Rightarrow> transition option" where
  "state_at st r ps = map_option (\<lambda>n. node_at n ps) (map_of st r)"

definition join_option :: "transition option \<Rightarrow> transition option \<Rightarrow> transition option" where
  "join_option x y =
     (case (x, y) of (Some t, Some u) \<Rightarrow> Some (join_transition t u) | (None, _) \<Rightarrow> y | (_, None) \<Rightarrow> x)"

lemma join_option_simps [simp]:
  "join_option None y = y" "join_option x None = x" "join_option (Some t) (Some u) = Some (join_transition t u)"
  by (simp_all add: join_option_def split: option.split)

lemma map_of_join_two:
  assumes "state_ok a" "state_ok b"
  shows "map_of (join_two a b) r = join_roots a b r"
proof -
  have "distinct (merge_keys (map fst a) (map fst b))"
    using assms sorted_merge_keys [of "map fst a" "map fst b"] by (simp add: state_ok_def ascending_def strict_sorted_iff)
  then show ?thesis
    by (auto simp: join_two_def map_of_filter_map join_roots_def map_of_eq_None_iff [symmetric] split: option.splits)
qed

lemma join_roots_at: "map_option (\<lambda>n. node_at n ps) (join_roots a b r) = join_option (state_at a r ps) (state_at b r ps)"
  by (auto simp: join_roots_def state_at_def node_at_join split: option.split)

lemma state_ok_root: "state_ok st \<Longrightarrow> map_of st r = Some n \<Longrightarrow> node_ok n"
  by (auto simp: state_ok_def dest!: map_of_SomeD)

lemma state_okI: "ascending st \<Longrightarrow> (\<And>r n. map_of st r = Some n \<Longrightarrow> node_ok n) \<Longrightarrow> state_ok st"
  by (fastforce simp: state_ok_def dest: ascending_distinct)

lemma ascending_join_two: "state_ok a \<Longrightarrow> state_ok b \<Longrightarrow> ascending (join_two a b)"
  unfolding join_two_def by (rule ascending_filter_map) (simp add: state_ok_def ascending_def)

lemma state_ok_join [simp]: "state_ok a \<Longrightarrow> state_ok b \<Longrightarrow> state_ok (join_two a b)"
  by (rule state_okI [OF ascending_join_two])
    (auto simp: map_of_join_two join_roots_def split: option.splits intro!: node_ok_join
      intro: state_ok_root [of a] state_ok_root [of b])

lemma state_ok_set [simp]: "state_ok st \<Longrightarrow> state_ok (state_set st p t)"
  by (rule state_okI)
    (auto simp: state_set_def state_ok_def dest!: map_of_SomeD split: option.splits if_splits)

lemma state_at_join: "state_ok a \<Longrightarrow> state_ok b \<Longrightarrow> state_at (join_two a b) r ps = join_option (state_at a r ps) (state_at b r ps)"
  by (simp add: state_at_def [of "join_two a b"] map_of_join_two join_roots_at)

lemma state_at_set:
  "state_ok st \<Longrightarrow> state_at (state_set st p t) r ps =
     (if r = op_root p \<and> prefix (op_projections p) ps \<and> state_at st r ps \<noteq> None then Some t else state_at st r ps)"
  by (auto simp: state_at_def state_set_def node_at_set state_ok_def dest!: map_of_SomeD split: option.split)

text \<open>Canonical states that agree on every place are equal.\<close>

lemma state_pruned_join: "state_pruned (join_two a a')" if "state_ok a" "state_ok a'" "map fst a = map fst a'"
proof -
  have "pruned n" if "(r, n) \<in> set (join_two a a')" for r n
  proof -
    have "map_of (join_two a a') r = Some n"
      using that ascending_distinct [OF ascending_join_two [OF \<open>state_ok a\<close> \<open>state_ok a'\<close>]] by simp
    then have j: "join_roots a a' r = Some n" by (simp add: map_of_join_two \<open>state_ok a\<close> \<open>state_ok a'\<close>)
    have "map_of a r = None \<longleftrightarrow> map_of a' r = None"
      unfolding map_of_eq_None_iff using \<open>map fst a = map fst a'\<close> by (metis set_map)
    with j show ?thesis by (auto simp: join_roots_def pruned_join split: option.splits)
  qed
  then show ?thesis by (auto simp: state_pruned_def)
qed

lemma state_eqI:
  assumes "state_ok a" "state_ok b" "state_pruned a" "state_pruned b" "\<And>r ps. state_at a r ps = state_at b r ps"
  shows "a = b"
proof -
  have "map_of a r = map_of b r" for r
  proof (cases "map_of a r")
    case None
    with assms(5) [of r "[]"] show ?thesis by (simp add: state_at_def)
  next
    case (Some n)
    with assms(5) [of r "[]"] obtain m where m: "map_of b r = Some m" by (cases "map_of b r") (auto simp: state_at_def)
    have pr: "pruned n" "pruned m" using assms(3,4) map_of_SomeD [OF Some] map_of_SomeD [OF m] by (auto simp: state_pruned_def)
    have "node_at n ps = node_at m ps" for ps using assms(5) [of r ps] Some m by (simp add: state_at_def)
    then have "n = m" by (rule pruned_eqI [OF pr state_ok_root [OF assms(1) Some] state_ok_root [OF assms(2) m]])
    with Some m show ?thesis by simp
  qed
  then show ?thesis using assms(1,2) by (intro ascending_eqI) (simp_all add: state_ok_def)
qed

end
