(* ===== verification/Typed_Ir.thy ===== *)
theory Typed_Ir
  imports Ownership Standard_Calls
begin

text \<open>
  The typed high-level IR of \<^verbatim>\<open>src/ir/mod.rs\<close> and \<^verbatim>\<open>src/ir/typed/model.rs\<close>: expressions, places,
  patterns and statements as lowering builds them and the move checker reads them. Floating-point
  constants are kept as their source characters, as in the code; a character is its scalar value.
\<close>

section \<open>Constants and operators\<close>

datatype ir_constant =
  ConstUnit
| ConstBool bool
| ConstInteger (magnitude: nat) (negative: bool)
| ConstFloat string
| ConstCharacter nat
| ConstString string
| ConstNull

datatype unary_operator = UnaryPositive | UnaryNegative | UnaryLogicalNot | UnaryBitwiseNot

datatype (plugins only: code size) binary_operator =
  BinAdd | BinPointerOffsetAdd | BinConcatenate | BinSubtract | BinPointerOffsetSubtract | BinPointerDistance
| BinMultiply | BinDivide | BinRemainder | BinBitAnd | BinBitOr | BinBitXor | BinShiftLeft | BinShiftRight
| BinEqual | BinNotEqual | BinLess | BinLessEqual | BinGreater | BinGreaterEqual
| BinPointerLess | BinPointerLessEqual | BinPointerGreater | BinPointerGreaterEqual | BinLogicalAnd | BinLogicalOr

datatype assignment_operator =
  AssignAssign | AssignAdd | AssignSubtract | AssignMultiply | AssignDivide | AssignRemainder
| AssignBitAnd | AssignBitOr | AssignBitXor | AssignShiftLeft | AssignShiftRight

section \<open>Instances and classifications\<close>

record function_instance =
  fi_declaration :: declaration_id
  fi_arguments :: "type_id list"
  fi_self_type :: "type_id option"

datatype place_kind = PlaceValue | PlaceAddressable | PlaceMutable | PlaceCollectionInterior | PlaceRawPointerTarget

datatype index_kind = IndexArray nat | IndexSlice | IndexVec type_id | IndexMap type_id

datatype collection_literal_kind = LiteralVec | LiteralMap | LiteralSet

section \<open>Expressions\<close>

datatype (plugins only: code size) typed_expression =
  TypedExpression (te_ty: type_id) (te_place: place_kind) (te_copy: "logical_copy_facts option")
    (te_ownership: "ownership_use list") (te_span: span) (te_kind: typed_expression_kind)

and typed_expression_kind =
  EConstant ir_constant
| EFunctionReference function_instance
| ELocal local_binding_id
| EClosureCapture nat
| EClosure function_instance "typed_expression list"
| EUnary unary_operator typed_expression
| EBinary binary_operator typed_expression typed_expression
| ECast typed_expression
| ECall typed_callee "typed_expression list" "value_passing_mode list"
| EField typed_expression field_id
| ETupleField typed_expression nat
| EIndex typed_expression typed_expression
| EAddressOf typed_place
| EAddressOfTemporary typed_expression
| EDereference typed_expression
| EDefaultValue type_id
| EPropagate typed_expression declaration_id variant_id field_id variant_id field_id type_id
| ENumericConversion numeric_outcome typed_expression type_id
| ENumericAlternative numeric_alternative typed_expression "typed_expression option"
| EStandardCall standard_call "typed_expression list"
| ECollectionLiteral collection_literal_kind "typed_expression list"
| EMakeTraitObject typed_expression declaration_id type_id type_id
| ETuple "typed_expression list"
| EArray "typed_expression list"
| EStruct declaration_id "(field_id \<times> typed_expression) list"
| EEnum declaration_id variant_id "(field_id \<times> typed_expression) list"
| EVariadicSlice "typed_expression list"
| EFormattedString "formatted_part list"

and typed_callee =
  CalleeFunction function_instance
| CalleeIndirect typed_expression
| CalleeClosure function_instance typed_expression
| CalleeDynamic declaration_id nat
| CalleePrint bool

and formatted_part =
  PartText string
| PartExpression typed_expression

and typed_place =
  PLocal local_binding_id type_id span
| PClosureCapture nat type_id span
| PField typed_place field_id type_id span
| PTupleField typed_place nat type_id span
| PIndex typed_place typed_expression type_id index_kind span
| PDereference typed_expression type_id span

section \<open>Patterns and statements\<close>

datatype (plugins only: code size) typed_pattern =
  TypedPattern (tp_ty: type_id) (tp_span: span) (tp_kind: typed_pattern_kind)

and typed_pattern_kind =
  PatWildcard
| PatBinding local_binding_id
| PatLiteral ir_constant
| PatAlternative "typed_pattern list"
| PatDereference typed_pattern
| PatTuple "typed_pattern list"
| PatStruct declaration_id "(field_id \<times> typed_pattern) list"
| PatVariant variant_id "(field_id \<times> typed_pattern) list"

datatype drop_projection =
  DropField field_id
| DropTupleField nat
| DropArrayIndex nat
| DropVariantField variant_id field_id
| DropClosureCapture nat

datatype (plugins only: code size) drop_action =
  DropAction (da_ty: type_id) (da_projections: "drop_projection list") (da_kind: drop_action_kind)

and drop_action_kind =
  DropStructuralLeaf
| DropCustom function_instance
| DropOwnedString
| DropOwnedVec "drop_action list"
| DropOwnedMap "drop_action list" "drop_action list"
| DropOwnedSet "drop_action list"
| DropOwnedBox "drop_action list"
| DropOwnedShared type_id
| DropOwnedWeak type_id
| DropOwnedStore type_id
| DropOwnedThread type_id
| DropOwnedChannel type_id
| DropOwnedMutex type_id
| DropOwnedMutexGuard type_id
| DropOwnedAtomic type_id

datatype iteration_kind =
  IterSlice type_id type_id
| IterArray nat type_id
| IterVec type_id type_id
| IterMap type_id type_id type_id type_id
| IterSet type_id type_id
| IterStore type_id type_id
| IterUser type_id type_id type_id type_id variant_id field_id function_instance

record typed_tuple_binding =
  ttb_binding :: local_binding_id
  ttb_ty :: type_id
  ttb_indices :: "nat list"

datatype (plugins only: code size) typed_statement =
  TypedStatement (ts_span: span) (ts_kind: typed_statement_kind)

and typed_statement_kind =
  SLet local_binding_id bool type_id typed_expression
| SDestructure "typed_tuple_binding list" bool typed_expression
| SAssign typed_place assignment_operator typed_expression
| SExpression typed_expression
| SReturn "typed_expression option"
| SIf typed_expression "typed_statement list" "typed_statement list"
| SWhile typed_expression "typed_statement list"
| SFor local_binding_id typed_expression iteration_kind "drop_action list" "typed_statement list"
| SMatch typed_expression "typed_match_arm list"
| SBlock "typed_statement list"
| SDefer "typed_statement list"
| SExpect typed_expression declaration_id "typed_statement list"
| SBreak
| SContinue
| SPass

and typed_match_arm =
  TypedMatchArm (tma_pattern: typed_pattern) (tma_guard: "typed_expression option") (tma_body: "typed_statement list")
    (tma_span: span)

section \<open>Functions and programs\<close>

record typed_parameter =
  tpa_binding :: local_binding_id
  tpa_ty :: type_id
  tpa_span :: span
  tpa_passing :: value_passing_mode

record drop_requirement =
  dr_binding :: local_binding_id
  dr_ty :: type_id
  dr_span :: span
  dr_operation :: ownership_use
  dr_actions :: "drop_action list"

record typed_closure_body =
  tcb_ty :: type_id
  tcb_captures :: "(local_binding_id, nat) ordered_map"

record typed_function =
  tf_declaration :: declaration_id
  tf_instance :: function_instance
  tf_name :: string
  tf_span :: span
  tf_parameters :: "typed_parameter list"
  tf_return_type :: type_id
  tf_body :: "typed_statement list"
  tf_local_types :: "(local_binding_id, type_id) ordered_map"
  tf_drop_requirements :: "drop_requirement list"
  tf_promoted_locals :: "local_binding_id list"
  tf_closure :: "typed_closure_body option"

record typed_struct =
  tst_ty :: type_id
  tst_declaration :: declaration_id
  tst_name :: string
  tst_fields :: "(field_id \<times> string \<times> type_id) list"

record typed_variant =
  tv_id :: variant_id
  tv_name :: string
  tv_fields :: "(field_id \<times> string \<times> type_id) list"

record typed_enum =
  ten_ty :: type_id
  ten_declaration :: declaration_id
  ten_name :: string
  ten_variants :: "typed_variant list"

section \<open>Places\<close>

fun tpl_ty :: "typed_place \<Rightarrow> type_id" where
  "tpl_ty (PLocal b ty sp) = ty"
| "tpl_ty (PClosureCapture i ty sp) = ty"
| "tpl_ty (PField base f ty sp) = ty"
| "tpl_ty (PTupleField base i ty sp) = ty"
| "tpl_ty (PIndex base i ty k sp) = ty"
| "tpl_ty (PDereference base ty sp) = ty"

fun tpl_span :: "typed_place \<Rightarrow> span" where
  "tpl_span (PLocal b ty sp) = sp"
| "tpl_span (PClosureCapture i ty sp) = sp"
| "tpl_span (PField base f ty sp) = sp"
| "tpl_span (PTupleField base i ty sp) = sp"
| "tpl_span (PIndex base i ty k sp) = sp"
| "tpl_span (PDereference base ty sp) = sp"

definition place_root :: "ownership_place_root \<Rightarrow> ownership_place" where
  "place_root r = \<lparr>op_root = r, op_projections = []\<rparr>"

definition place_push :: "ownership_place \<Rightarrow> ownership_projection \<Rightarrow> ownership_place" where
  "place_push p x = p\<lparr>op_projections := op_projections p @ [x]\<rparr>"

definition index_projection :: "typed_expression \<Rightarrow> ownership_projection" where
  "index_projection index =
     (case te_kind index of
        EConstant c \<Rightarrow> (case c of ConstInteger m False \<Rightarrow> ProjConstantIndex m | _ \<Rightarrow> ProjDynamicIndex)
      | _ \<Rightarrow> ProjDynamicIndex)"

fun tpl_ownership_place :: "typed_place \<Rightarrow> ownership_place"
and te_ownership_place :: "typed_expression \<Rightarrow> ownership_place option"
and kind_ownership_place :: "typed_expression_kind \<Rightarrow> ownership_place option" where
  "tpl_ownership_place (PLocal b ty sp) = place_root (RootLocal b)"
| "tpl_ownership_place (PClosureCapture i ty sp) = place_root (RootClosureCapture i)"
| "tpl_ownership_place (PField base f ty sp) = place_push (tpl_ownership_place base) (ProjField f)"
| "tpl_ownership_place (PTupleField base i ty sp) = place_push (tpl_ownership_place base) (ProjTupleField i)"
| "tpl_ownership_place (PIndex base index ty k sp) = place_push (tpl_ownership_place base) (index_projection index)"
| "tpl_ownership_place (PDereference base ty sp) =
     place_push (case te_ownership_place base of Some p \<Rightarrow> p | None \<Rightarrow> place_root (RootExpression (te_span base)))
       ProjDereference"
| "te_ownership_place (TypedExpression ty p c ow sp kind) = kind_ownership_place kind"
| "kind_ownership_place (ELocal b) = Some (place_root (RootLocal b))"
| "kind_ownership_place (EClosureCapture i) = Some (place_root (RootClosureCapture i))"
| "kind_ownership_place (EField base f) = map_option (\<lambda>p. place_push p (ProjField f)) (te_ownership_place base)"
| "kind_ownership_place (ETupleField base i) = map_option (\<lambda>p. place_push p (ProjTupleField i)) (te_ownership_place base)"
| "kind_ownership_place (EIndex base index) = map_option (\<lambda>p. place_push p (index_projection index)) (te_ownership_place base)"
| "kind_ownership_place (EDereference base) =
     Some (place_push (case te_ownership_place base of Some p \<Rightarrow> p | None \<Rightarrow> place_root (RootExpression (te_span base)))
       ProjDereference)"
| "kind_ownership_place (EAddressOf place) = Some (tpl_ownership_place place)"
| "kind_ownership_place _ = None"

end
