(* ===== verification/Move_Check.thy ===== *)
theory Move_Check
  imports Move_Join Typed_Ir Diagnostics
begin

text \<open>
  The move and definite-initialization analysis of \<^verbatim>\<open>src/check/moves.rs\<close>. The program's declarations
  and types are read through the queries the checker makes of them: they are fields of \<open>move_env\<close>,
  and every theorem holds for all of them. Code that does not return, a search through a type that
  contains itself by value, sets the flag \<open>ck_stuck\<close>; the depth bound is \<open>me_depth\<close>.
\<close>

section \<open>Queries\<close>

record field_data =
  fd_id :: field_id
  fd_parent_declaration :: declaration_id
  fd_parent_variant :: "variant_id option"

record move_env =
  me_kind :: "type_id \<Rightarrow> type_kind"
  me_copy :: "type_id \<Rightarrow> bool"
  me_custom_drop :: "type_id \<Rightarrow> bool"
  me_builtin_name :: "builtin_id \<Rightarrow> string"
  me_is_enum :: "declaration_id \<Rightarrow> bool"
  me_fields :: "field_data list"
  me_field_type :: "field_id \<Rightarrow> type_id list \<Rightarrow> type_id option"
  me_local_span :: "local_binding_id \<Rightarrow> span"
  me_depth :: nat

record checker =
  ck_diagnostics :: "diagnostic list"
  ck_reported :: "(span \<times> string) list"
  ck_root_types :: "(ownership_place_root, type_id) ordered_map"
  ck_stuck :: bool

section \<open>Places and types\<close>

definition normalized_place :: "ownership_place \<Rightarrow> ownership_place" where
  "normalized_place p = p\<lparr>op_projections := filter (\<lambda>x. x \<noteq> ProjReceiverAdaptation) (op_projections p)\<rparr>"

definition nominal_children :: "move_env \<Rightarrow> declaration_id \<Rightarrow> type_id list \<Rightarrow> (ownership_projection \<times> type_id) list" where
  "nominal_children env d args =
     List.map_filter (\<lambda>f. map_option (Pair (ProjField (fd_id f))) (me_field_type env (fd_id f) args))
       (filter (\<lambda>f. fd_parent_declaration f = d \<and> fd_parent_variant f = None) (me_fields env))"

definition structural_children :: "move_env \<Rightarrow> type_id \<Rightarrow> (ownership_projection \<times> type_id) list" where
  "structural_children env ty =
     (case me_kind env ty of
        TTuple elements \<Rightarrow> map (\<lambda>(i, t). (ProjTupleField i, t)) (enumerate 0 elements)
      | TNominal identity args \<Rightarrow>
          if \<not> me_is_enum env (ni_declaration identity) then nominal_children env (ni_declaration identity) args else []
      | TForeign identity complete \<Rightarrow> if complete then nominal_children env (ni_declaration identity) [] else []
      | _ \<Rightarrow> [])"

definition array_shape :: "type_kind \<Rightarrow> (type_id \<times> nat) option" where
  "array_shape k = (case k of TArray element n \<Rightarrow> Some (element, n) | _ \<Rightarrow> None)"

definition project_type :: "move_env \<Rightarrow> type_id \<Rightarrow> ownership_projection \<Rightarrow> type_id option" where
  "project_type env ty p =
     (case p of
        ProjReceiverAdaptation \<Rightarrow> Some ty
      | ProjDereference \<Rightarrow>
          (case me_kind env ty of TReference m t \<Rightarrow> Some t | TRawPointer m t \<Rightarrow> Some t | _ \<Rightarrow> None)
      | ProjTupleField i \<Rightarrow> (case me_kind env ty of TTuple elements \<Rightarrow> vget elements i | _ \<Rightarrow> None)
      | ProjField f \<Rightarrow>
          (case me_kind env ty of
             TNominal i args \<Rightarrow> me_field_type env f args
           | TForeign i complete \<Rightarrow> if complete then me_field_type env f [] else None
           | _ \<Rightarrow> None)
      | _ \<Rightarrow>
          (case me_kind env ty of
             TArray e n \<Rightarrow> Some e
           | TSlice m e \<Rightarrow> Some e
           | TBuiltin b args \<Rightarrow>
               if (me_builtin_name env b = ''Vec'' \<or> me_builtin_name env b = ''Set'') \<and> length args = 1 then vget args 0
               else if me_builtin_name env b = ''Map'' \<and> length args = 2 then vget args 1
               else None
           | _ \<Rightarrow> None))"

section \<open>Availability\<close>

text \<open>The first cause a loop over children returns\<close>

fun first_cause :: "('a \<Rightarrow> transition option option) \<Rightarrow> 'a list \<Rightarrow> transition option option" where
  "first_cause f [] = Some None"
| "first_cause f (x # xs) =
     (case f x of None \<Rightarrow> None | Some (Some c) \<Rightarrow> Some (Some c) | Some None \<Rightarrow> first_cause f xs)"

definition initialized_indices :: "nat \<Rightarrow> (ownership_projection \<times> state_node) list \<Rightarrow> nat list" where
  "initialized_indices n cs =
     List.map_filter (\<lambda>(p, c). case p of ProjConstantIndex i \<Rightarrow> if i < n then Some i else None | _ \<Rightarrow> None) cs"

primrec first_unavailable :: "nat \<Rightarrow> move_env \<Rightarrow> state_node \<Rightarrow> type_id \<Rightarrow> transition option option" where
  "first_unavailable 0 env node ty = None"
| "first_unavailable (Suc fuel) env node ty =
     (let effective = sn_transition node in
      case array_shape (me_kind env ty) of
        Some (element, n) \<Rightarrow>
          if tr_available effective
          then first_cause (\<lambda>(p, child). first_unavailable fuel env child element) (sn_children node)
          else if length (initialized_indices n (sn_children node)) \<noteq> n
            \<or> length (initialized_indices n (sn_children node)) \<noteq> length (sn_children node)
          then Some (Some effective)
          else first_cause (\<lambda>(p, child). first_unavailable fuel env child element) (sn_children node)
      | None \<Rightarrow>
          (let structural = structural_children env ty in
           if tr_available effective
           then first_cause (\<lambda>(p, child). first_unavailable fuel env child
                  (case map_of structural p of Some t \<Rightarrow> t | None \<Rightarrow> ty)) (sn_children node)
           else if structural = [] then Some (Some effective)
           else first_cause (\<lambda>(p, t). first_unavailable fuel env
                  (case map_of (sn_children node) p of Some c \<Rightarrow> c | None \<Rightarrow> node_new effective) t) structural))"

definition check_depth :: "move_env \<Rightarrow> state_node \<Rightarrow> nat" where
  "check_depth env node = Suc (me_depth env + size node)"

definition or_type :: "type_id option \<Rightarrow> type_id \<Rightarrow> type_id" where
  "or_type t u = (case t of Some v \<Rightarrow> v | None \<Rightarrow> u)"

text \<open>The loop of \<open>unavailable_cause\<close> over the projections of a place\<close>

fun cause_below :: "move_env \<Rightarrow> type_id \<Rightarrow> state_node \<Rightarrow> type_id option \<Rightarrow> ownership_projection list \<Rightarrow> transition option option" where
  "cause_below env ty node current [] = first_unavailable (check_depth env node) env node (or_type current ty)"
| "cause_below env ty node current (p # ps) =
     (if p = ProjDynamicIndex then first_unavailable (check_depth env node) env node (or_type current ty)
      else cause_below env ty (child_or_new node p) (Option.bind current (\<lambda>t. project_type env t p)) ps)"

definition unavailable_cause ::
  "move_env \<Rightarrow> checker \<Rightarrow> ownership_place \<Rightarrow> type_id \<Rightarrow> move_state \<Rightarrow> transition option option" where
  "unavailable_cause env ck place ty st =
     (case map_of st (op_root place) of
        None \<Rightarrow> Some None
      | Some node \<Rightarrow> cause_below env ty node (map_of (ck_root_types ck) (op_root place)) (op_projections place))"

section \<open>Reporting\<close>

definition report :: "span \<Rightarrow> string \<Rightarrow> diagnostic \<Rightarrow> checker \<Rightarrow> checker" where
  "report sp key d ck =
     (if (sp, key) \<in> set (ck_reported ck) then ck
      else ck\<lparr>ck_reported := (sp, key) # ck_reported ck, ck_diagnostics := ck_diagnostics ck @ [d]\<rparr>)"

definition ownership_error :: "span \<Rightarrow> string \<Rightarrow> diagnostic" where
  "ownership_error sp m = with_primary (diagnostic_new Ownership m) sp"

definition unavailable_message :: "unavailable_kind \<Rightarrow> string \<times> string \<times> string" where
  "unavailable_message k =
     (case k of
        Moved \<Rightarrow> (''use-after-move'', ''cannot use this place because it is moved or partially moved'',
          ''this consuming use moved the value'')
      | Uninitialized \<Rightarrow> (''use-before-init'', ''cannot use this place before it is definitely initialized'',
          ''the place is uninitialized from here''))"

definition require_available ::
  "move_env \<Rightarrow> ownership_place \<Rightarrow> type_id \<Rightarrow> span \<Rightarrow> move_state \<Rightarrow> checker \<Rightarrow> bool \<times> checker" where
  "require_available env place ty sp st ck =
     (case unavailable_cause env ck place ty st of
        None \<Rightarrow> (False, ck\<lparr>ck_stuck := True\<rparr>)
      | Some None \<Rightarrow> (True, ck)
      | Some (Some cause) \<Rightarrow>
          (case unavailable_message (tr_kind cause) of
             (key, m, rel) \<Rightarrow> (False, report sp key (with_related (ownership_error sp m) (tr_span cause) rel) ck)))"

definition report_indexed_move :: "span \<Rightarrow> checker \<Rightarrow> checker" where
  "report_indexed_move sp =
     report sp ''move-index'' (ownership_error sp
       (''cannot move a non-`Copy` value out of an indexed place; use an '' @
        ''ownership-taking operation such as `remove`, `pop`, or `take`''))"

text \<open>The loop of \<open>invalid_move_projection\<close>; the type before each projection is threaded along.\<close>

fun invalid_move_below :: "move_env \<Rightarrow> span \<Rightarrow> type_id option \<Rightarrow> ownership_projection list \<Rightarrow> checker \<Rightarrow> bool \<times> checker" where
  "invalid_move_below env sp current [] ck = (False, ck)"
| "invalid_move_below env sp current (p # ps) ck =
     (let onward = invalid_move_below env sp (Option.bind current (\<lambda>t. project_type env t p)) ps ck in
      case p of
        ProjDereference \<Rightarrow>
          (True, report sp ''move-dereference'' (ownership_error sp
             ''cannot move a non-`Copy` value through a borrowed or raw pointer place'') ck)
      | ProjDynamicIndex \<Rightarrow> (True, report_indexed_move sp ck)
      | ProjConstantIndex i \<Rightarrow>
          if (case current of Some t \<Rightarrow> array_shape (me_kind env t) \<noteq> None | None \<Rightarrow> False) then onward
          else (True, report_indexed_move sp ck)
      | ProjReceiverAdaptation \<Rightarrow> invalid_move_below env sp current ps ck
      | _ \<Rightarrow> onward)"

definition invalid_move_projection :: "move_env \<Rightarrow> ownership_place \<Rightarrow> span \<Rightarrow> checker \<Rightarrow> bool \<times> checker" where
  "invalid_move_projection env place sp ck =
     invalid_move_below env sp (map_of (ck_root_types ck) (op_root place)) (op_projections place) ck"

fun drops_partially :: "move_env \<Rightarrow> type_id option \<Rightarrow> ownership_projection list \<Rightarrow> bool" where
  "drops_partially env current [] = False"
| "drops_partially env current (p # ps) =
     ((case current of Some t \<Rightarrow> me_custom_drop env t | None \<Rightarrow> False)
      \<or> drops_partially env (Option.bind current (\<lambda>t. project_type env t p)) ps)"

definition partially_moves_custom_drop :: "move_env \<Rightarrow> ownership_place \<Rightarrow> checker \<Rightarrow> bool" where
  "partially_moves_custom_drop env place ck =
     drops_partially env (map_of (ck_root_types ck) (op_root place)) (op_projections place)"

section \<open>Operations on places\<close>

type_synonym check_state = "move_state \<times> checker"

definition is_capture_root :: "ownership_place_root \<Rightarrow> bool" where
  "is_capture_root r = (case r of RootClosureCapture i \<Rightarrow> True | _ \<Rightarrow> False)"

definition move_place :: "move_env \<Rightarrow> ownership_place \<Rightarrow> type_id \<Rightarrow> span \<Rightarrow> check_state \<Rightarrow> check_state" where
  "move_place env place ty sp s =
     (case s of (st, ck) \<Rightarrow>
        if is_capture_root (op_root place) then
          (st, report sp ''move-closure-capture''
                 (ownership_error sp ''cannot move a capture out of a closure's shared receiver'') ck)
        else
          (case invalid_move_projection env place sp ck of
             (True, ck1) \<Rightarrow> (st, ck1)
           | (False, ck1) \<Rightarrow>
               (case require_available env place ty sp st ck1 of
                  (False, ck2) \<Rightarrow> (st, ck2)
                | (True, ck2) \<Rightarrow>
                    if partially_moves_custom_drop env place ck2 then
                      (st, report sp ''partial-drop''
                             (ownership_error sp ''cannot partially move a value with a custom `Drop` implementation'') ck2)
                    else (state_set st place (transition_moved sp), ck2))))"

text \<open>\<open>require_available\<close> where the code ignores its result\<close>

definition require_place :: "move_env \<Rightarrow> ownership_place \<Rightarrow> type_id \<Rightarrow> span \<Rightarrow> check_state \<Rightarrow> check_state" where
  "require_place env place ty sp s = (case s of (st, ck) \<Rightarrow> (st, snd (require_available env place ty sp st ck)))"

definition set_place :: "ownership_place \<Rightarrow> transition \<Rightarrow> check_state \<Rightarrow> check_state" where
  "set_place place t s = (case s of (st, ck) \<Rightarrow> (state_set st place t, ck))"

definition initialize_local :: "local_binding_id \<Rightarrow> span \<Rightarrow> check_state \<Rightarrow> check_state" where
  "initialize_local b sp = set_place (place_root (RootLocal b)) (transition_initialized sp)"

section \<open>Expressions\<close>

definition is_borrow :: "ownership_use_kind \<Rightarrow> bool" where
  "is_borrow k \<longleftrightarrow> k \<in> {UseBorrowShared, UseBorrowExclusive, UseReborrowShared, UseReborrowExclusive}"

definition is_address_of :: "typed_expression_kind \<Rightarrow> bool" where
  "is_address_of k = (case k of EAddressOf p \<Rightarrow> True | _ \<Rightarrow> False)"

definition borrows_place :: "typed_expression \<Rightarrow> bool" where
  "borrows_place e \<longleftrightarrow> is_address_of (te_kind e) \<and> (\<exists>u\<in>set (te_ownership e). is_borrow (ou_kind u))"

text \<open>One operation of an expression's ordered ownership intents\<close>

definition apply_use :: "move_env \<Rightarrow> typed_expression \<Rightarrow> ownership_use \<Rightarrow> check_state \<Rightarrow> check_state" where
  "apply_use env e u s =
     (case map_option normalized_place (ou_place u) of
        None \<Rightarrow> s
      | Some place \<Rightarrow>
          if borrows_place e \<and> (ou_kind u = UseMove \<or> ou_kind u = UseCopy) then s
          else if ou_kind u = UseMove then move_place env place (te_ty e) (te_span e) s
          else require_place env place (te_ty e) (te_span e) s)"

definition apply_uses :: "move_env \<Rightarrow> typed_expression \<Rightarrow> check_state \<Rightarrow> check_state" where
  "apply_uses env e s = fold (apply_use env e) (te_ownership e) s"

definition short_circuits :: "binary_operator \<Rightarrow> bool" where
  "short_circuits b \<longleftrightarrow> b = BinLogicalAnd \<or> b = BinLogicalOr"

text \<open>The state after an operand that may be skipped\<close>

definition maybe_skipped :: "(check_state \<Rightarrow> check_state) \<Rightarrow> check_state \<Rightarrow> check_state" where
  "maybe_skipped f s =
     (case f s of (st', ck') \<Rightarrow> (case join_states [fst s, st'] of Some joined \<Rightarrow> (joined, ck') | None \<Rightarrow> (fst s, ck')))"

lemma size_member: "x \<in> set xs \<Longrightarrow> f x < Suc (size_list f xs + n)"
  using size_list_estimation' [of x xs "f x" f] by simp

lemma size_field_member: "(a, b) \<in> set xs \<Longrightarrow> size b < Suc (size_list (size_prod (\<lambda>x. 0) size) xs)"
  using size_member [of "(a, b)" xs "size_prod (\<lambda>x. 0) size" 0] by simp

function visit_expression :: "move_env \<Rightarrow> typed_expression \<Rightarrow> bool \<Rightarrow> check_state \<Rightarrow> check_state"
and visit_kind :: "move_env \<Rightarrow> typed_expression_kind \<Rightarrow> check_state \<Rightarrow> check_state"
and visit_callee :: "move_env \<Rightarrow> typed_callee \<Rightarrow> check_state \<Rightarrow> check_state"
and visit_part :: "move_env \<Rightarrow> formatted_part \<Rightarrow> check_state \<Rightarrow> check_state"
and visit_place_inputs :: "move_env \<Rightarrow> typed_place \<Rightarrow> check_state \<Rightarrow> check_state" where
  "visit_expression env (TypedExpression ty pk cp ow sp kind) apply_self s =
     (let s' = visit_kind env kind s
      in if apply_self then apply_uses env (TypedExpression ty pk cp ow sp kind) s' else s')"
| "visit_kind env (EConstant c) s = s"
| "visit_kind env (EFunctionReference i) s = s"
| "visit_kind env (ELocal b) s = s"
| "visit_kind env (EClosureCapture i) s = s"
| "visit_kind env (EDefaultValue t) s = s"
| "visit_kind env (EClosure i captures) s = fold (\<lambda>e. visit_expression env e True) captures s"
| "visit_kind env (ETuple es) s = fold (\<lambda>e. visit_expression env e True) es s"
| "visit_kind env (EArray es) s = fold (\<lambda>e. visit_expression env e True) es s"
| "visit_kind env (EVariadicSlice es) s = fold (\<lambda>e. visit_expression env e True) es s"
| "visit_kind env (EUnary u e) s = visit_expression env e True s"
| "visit_kind env (ECast e) s = visit_expression env e True s"
| "visit_kind env (EDereference e) s = visit_expression env e True s"
| "visit_kind env (EAddressOfTemporary e) s = visit_expression env e True s"
| "visit_kind env (EMakeTraitObject e d t c) s = visit_expression env e True s"
| "visit_kind env (EPropagate e d ov okf ev ef t) s = visit_expression env e True s"
| "visit_kind env (EBinary b l r) s =
     (if short_circuits b then maybe_skipped (visit_expression env r True) (visit_expression env l True s)
      else visit_expression env r True (visit_expression env l True s))"
| "visit_kind env (ECall callee args modes) s =
     fold (\<lambda>e. visit_expression env e True) args (visit_callee env callee s)"
| "visit_kind env (EField e f) s = visit_expression env e False s"
| "visit_kind env (ETupleField e i) s = visit_expression env e False s"
| "visit_kind env (EIndex e i) s = visit_expression env i True (visit_expression env e False s)"
| "visit_kind env (EAddressOf p) s = visit_place_inputs env p s"
| "visit_kind env (ENumericConversion oc e t) s = visit_expression env e True s"
| "visit_kind env (ENumericAlternative na e None) s = visit_expression env e True s"
| "visit_kind env (ENumericAlternative na e (Some operand)) s =
     visit_expression env operand True (visit_expression env e True s)"
| "visit_kind env (EStandardCall c args) s = fold (\<lambda>e. visit_expression env e True) args s"
| "visit_kind env (ECollectionLiteral k es) s = fold (\<lambda>e. visit_expression env e True) es s"
| "visit_kind env (EStruct d fs) s = fold (\<lambda>(f, e). visit_expression env e True) fs s"
| "visit_kind env (EEnum d v fs) s = fold (\<lambda>(f, e). visit_expression env e True) fs s"
| "visit_kind env (EFormattedString parts) s = fold (\<lambda>p. visit_part env p) parts s"
| "visit_callee env (CalleeFunction i) s = s"
| "visit_callee env (CalleeIndirect e) s = visit_expression env e True s"
| "visit_callee env (CalleeClosure i e) s = visit_expression env e True s"
| "visit_callee env (CalleeDynamic d i) s = s"
| "visit_callee env (CalleePrint n) s = s"
| "visit_part env (PartText t) s = s"
| "visit_part env (PartExpression e) s = visit_expression env e True s"
| "visit_place_inputs env (PLocal b ty sp) s = s"
| "visit_place_inputs env (PClosureCapture i ty sp) s = s"
| "visit_place_inputs env (PField base f ty sp) s = visit_place_inputs env base s"
| "visit_place_inputs env (PTupleField base i ty sp) s = visit_place_inputs env base s"
| "visit_place_inputs env (PIndex base i ty k sp) s = visit_expression env i True (visit_place_inputs env base s)"
| "visit_place_inputs env (PDereference base ty sp) s = visit_expression env base True s"
  by pat_completeness auto
termination
  by (relation "measure (\<lambda>x. case x of
        Inl (Inl (env, e, b, s)) \<Rightarrow> size e
      | Inl (Inr (env, k, s)) \<Rightarrow> size k
      | Inr (Inl (env, c, s)) \<Rightarrow> size c
      | Inr (Inr (Inl (env, p, s))) \<Rightarrow> size p
      | Inr (Inr (Inr (env, p, s))) \<Rightarrow> size p)")
    (auto intro: size_member size_member [where n = 0, simplified] size_field_member)

section \<open>Patterns\<close>

definition place_project :: "ownership_place option \<Rightarrow> ownership_projection \<Rightarrow> ownership_place option" where
  "place_project source p = map_option (\<lambda>place. place_push place p) source"

definition consume_pattern_source ::
  "move_env \<Rightarrow> ownership_place option \<Rightarrow> type_id \<Rightarrow> span \<Rightarrow> check_state \<Rightarrow> check_state" where
  "consume_pattern_source env source ty sp s =
     (case source of
        None \<Rightarrow> s
      | Some place \<Rightarrow> if me_copy env ty then require_place env place ty sp s else move_place env place ty sp s)"

text \<open>Whether a pattern moves a part of its source, and the locals it binds\<close>

function pattern_consumes_non_copy :: "move_env \<Rightarrow> typed_pattern \<Rightarrow> bool" where
  "pattern_consumes_non_copy env (TypedPattern ty sp PatWildcard) = (\<not> me_copy env ty)"
| "pattern_consumes_non_copy env (TypedPattern ty sp (PatBinding b)) = (\<not> me_copy env ty)"
| "pattern_consumes_non_copy env (TypedPattern ty sp (PatLiteral c)) = False"
| "pattern_consumes_non_copy env (TypedPattern ty sp (PatAlternative ps)) = (\<exists>p\<in>set ps. pattern_consumes_non_copy env p)"
| "pattern_consumes_non_copy env (TypedPattern ty sp (PatDereference p)) = pattern_consumes_non_copy env p"
| "pattern_consumes_non_copy env (TypedPattern ty sp (PatTuple ps)) = (\<exists>p\<in>set ps. pattern_consumes_non_copy env p)"
| "pattern_consumes_non_copy env (TypedPattern ty sp (PatStruct d fs)) = (\<exists>(f, p)\<in>set fs. pattern_consumes_non_copy env p)"
| "pattern_consumes_non_copy env (TypedPattern ty sp (PatVariant v fs)) = (\<exists>(f, p)\<in>set fs. pattern_consumes_non_copy env p)"
  by pat_completeness auto
termination
  by (relation "measure (\<lambda>(env, p). size p)")
    (auto intro: size_member [where n = 1, simplified] less_SucI size_field_member)

function initialize_pattern_bindings :: "typed_pattern \<Rightarrow> check_state \<Rightarrow> check_state" where
  "initialize_pattern_bindings (TypedPattern ty sp PatWildcard) s = s"
| "initialize_pattern_bindings (TypedPattern ty sp (PatBinding b)) s = initialize_local b sp s"
| "initialize_pattern_bindings (TypedPattern ty sp (PatLiteral c)) s = s"
| "initialize_pattern_bindings (TypedPattern ty sp (PatAlternative ps)) s = fold (\<lambda>p. initialize_pattern_bindings p) ps s"
| "initialize_pattern_bindings (TypedPattern ty sp (PatDereference p)) s = initialize_pattern_bindings p s"
| "initialize_pattern_bindings (TypedPattern ty sp (PatTuple ps)) s = fold (\<lambda>p. initialize_pattern_bindings p) ps s"
| "initialize_pattern_bindings (TypedPattern ty sp (PatStruct d fs)) s =
     fold (\<lambda>(f, p). initialize_pattern_bindings p) fs s"
| "initialize_pattern_bindings (TypedPattern ty sp (PatVariant v fs)) s =
     fold (\<lambda>(f, p). initialize_pattern_bindings p) fs s"
  by pat_completeness auto
termination
  by (relation "measure (\<lambda>(p, s). size p)")
    (auto intro: size_member [where n = 1, simplified] less_SucI size_field_member)

text \<open>The states after each alternative, the checker threaded through them\<close>

fun each_from :: "('a \<Rightarrow> check_state \<Rightarrow> check_state) \<Rightarrow> 'a list \<Rightarrow> move_state \<Rightarrow> checker \<Rightarrow> move_state list \<times> checker" where
  "each_from f [] st ck = ([], ck)"
| "each_from f (x # xs) st ck =
     (case f x (st, ck) of (st', ck') \<Rightarrow> (case each_from f xs st ck' of (sts, ck'') \<Rightarrow> (st' # sts, ck'')))"

lemma each_from_cong [fundef_cong]:
  "xs = ys \<Longrightarrow> st = su \<Longrightarrow> ck = cl \<Longrightarrow> (\<And>x s. x \<in> set ys \<Longrightarrow> f x s = g x s) \<Longrightarrow> each_from f xs st ck = each_from g ys su cl"
  by (induction xs arbitrary: ys ck cl) (auto split: prod.split)

lemma enumerate_member: "(i, x) \<in> set (enumerate n xs) \<Longrightarrow> x \<in> set xs"
  by (auto simp: in_set_enumerate_eq)

function apply_pattern :: "move_env \<Rightarrow> typed_pattern \<Rightarrow> ownership_place option \<Rightarrow> check_state \<Rightarrow> check_state" where
  "apply_pattern env (TypedPattern ty sp PatWildcard) source s = consume_pattern_source env source ty sp s"
| "apply_pattern env (TypedPattern ty sp (PatBinding b)) source s =
     initialize_local b sp (consume_pattern_source env source ty sp s)"
| "apply_pattern env (TypedPattern ty sp (PatLiteral c)) source s = s"
| "apply_pattern env (TypedPattern ty sp (PatAlternative ps)) source s =
     (case each_from (\<lambda>p. apply_pattern env p source) ps (fst s) (snd s) of
        (states, ck) \<Rightarrow> (case join_states states of Some joined \<Rightarrow> (joined, ck) | None \<Rightarrow> (fst s, ck)))"
| "apply_pattern env (TypedPattern ty sp (PatDereference p)) source s =
     apply_pattern env p (place_project source ProjDereference) s"
| "apply_pattern env (TypedPattern ty sp (PatTuple ps)) source s =
     fold (\<lambda>(i, p). apply_pattern env p (place_project source (ProjTupleField i))) (enumerate 0 ps) s"
| "apply_pattern env (TypedPattern ty sp (PatStruct d fs)) source s =
     fold (\<lambda>(f, p). apply_pattern env p (place_project source (ProjField f))) fs s"
| "apply_pattern env (TypedPattern ty sp (PatVariant v fs)) source s =
     fold (\<lambda>(f, p). initialize_pattern_bindings p) fs
       (if \<exists>(f, p)\<in>set fs. pattern_consumes_non_copy env p then consume_pattern_source env source ty sp s else s)"
  by pat_completeness auto
termination
  by (relation "measure (\<lambda>(env, p, source, s). size p)")
    (auto intro: size_member [where n = 1, simplified] less_SucI size_field_member dest: enumerate_member)

section \<open>Statements\<close>

record flow =
  fl_normal :: "move_state option"
  fl_dead :: "move_state option"
  fl_breaks :: "move_state list"
  fl_continues :: "move_state list"

definition flow_default :: flow where
  "flow_default = \<lparr>fl_normal = None, fl_dead = None, fl_breaks = [], fl_continues = []\<rparr>"

definition flow_normal :: "move_state \<Rightarrow> flow" where
  "flow_normal st = flow_default\<lparr>fl_normal := Some st\<rparr>"

definition option_list :: "'a option \<Rightarrow> 'a list" where
  "option_list x = (case x of None \<Rightarrow> [] | Some y \<Rightarrow> [y])"

definition transition_bound :: "checker \<Rightarrow> nat" where
  "transition_bound ck = max (length (ck_root_types ck) * 4) 8"

text \<open>The head of the next round: the entry joined with the flows that go back\<close>

definition next_head :: "move_state \<Rightarrow> flow \<Rightarrow> move_state" where
  "next_head entry fl = the (join_states (entry # option_list (join_states (option_list (fl_normal fl) @ fl_continues fl))))"

text \<open>
  The rounds of a loop. \<open>before\<close> runs at the head (the condition of a \<open>while\<close>, nothing for a \<open>for\<close>) and
  its state is the one the loop leaves with; \<open>body\<close> starts from there. After \<open>n\<close> rounds without a
  fixpoint the loop leaves with the last head.
\<close>

primrec loop_rounds ::
  "(check_state \<Rightarrow> check_state) \<Rightarrow> (move_state \<Rightarrow> checker \<Rightarrow> flow \<times> checker) \<Rightarrow> move_state \<Rightarrow>
   nat \<Rightarrow> move_state \<Rightarrow> move_state list \<Rightarrow> checker \<Rightarrow> flow \<times> checker" where
  "loop_rounds before body entry 0 head breaks ck =
     (case before (head, ck) of
        (exit, ck') \<Rightarrow> (flow_default\<lparr>fl_normal := join_states (exit # breaks)\<rparr>, ck'))"
| "loop_rounds before body entry (Suc n) head breaks ck =
     (case before (head, ck) of
        (exit, ck1) \<Rightarrow>
          (case body exit ck1 of
             (fl, ck2) \<Rightarrow>
               if next_head entry fl = head
               then (flow_default\<lparr>fl_normal := join_states (exit # breaks @ fl_breaks fl)\<rparr>, ck2)
               else loop_rounds before body entry n (next_head entry fl) (breaks @ fl_breaks fl) ck2))"

lemma loop_rounds_cong [fundef_cong]:
  assumes "before = before'" "\<And>st ck. body st ck = body' st ck" "entry = entry'" "n = n'" "head = head'" "breaks = breaks'" "ck = ck'"
  shows "loop_rounds before body entry n head breaks ck = loop_rounds before' body' entry' n' head' breaks' ck'"
proof -
  have "body = body'" using assms(2) by blast
  then show ?thesis using assms by simp
qed

definition join_flows :: "flow list \<Rightarrow> flow" where
  "join_flows fls =
     \<lparr>fl_normal = join_states (concat (map (\<lambda>f. option_list (fl_normal f)) fls)),
      fl_dead = join_states (concat (map (\<lambda>f. option_list (fl_dead f)) fls)),
      fl_breaks = concat (map fl_breaks fls), fl_continues = concat (map fl_continues fls)\<rparr>"

definition extend_flow :: "flow \<Rightarrow> flow \<Rightarrow> flow" where
  "extend_flow fl nxt = fl\<lparr>fl_normal := fl_normal nxt, fl_breaks := fl_breaks fl @ fl_breaks nxt,
     fl_continues := fl_continues fl @ fl_continues nxt\<rparr>"

definition or_else :: "'a option \<Rightarrow> 'a option \<Rightarrow> 'a option" where
  "or_else x y = (case x of Some z \<Rightarrow> Some z | None \<Rightarrow> y)"

definition visit_optional :: "move_env \<Rightarrow> typed_expression option \<Rightarrow> check_state \<Rightarrow> check_state" where
  "visit_optional env e s = (case e of Some v \<Rightarrow> visit_expression env v True s | None \<Rightarrow> s)"

text \<open>
  \<open>check_from\<close> is the loop of \<open>check_block\<close>, \<open>check_arms\<close> the loop of \<open>check_match\<close>. Code after a statement that does
  not complete is still checked, from the state before it, and never rejoins.
\<close>

function check_from :: "move_env \<Rightarrow> typed_statement list \<Rightarrow> flow \<Rightarrow> move_state option \<Rightarrow> checker \<Rightarrow> flow \<times> checker"
and check_statement :: "move_env \<Rightarrow> typed_statement \<Rightarrow> move_state \<Rightarrow> checker \<Rightarrow> flow \<times> checker"
and check_arms :: "move_env \<Rightarrow> typed_match_arm list \<Rightarrow> ownership_place option \<Rightarrow> move_state \<Rightarrow> checker \<Rightarrow> flow list \<times> checker" where
  "check_from env [] fl unreachable ck = (fl, ck)"
| "check_from env (s # ss) fl unreachable ck =
     (case fl_normal fl of
        Some current \<Rightarrow>
          (case check_statement env s current ck of
             (nxt, ck') \<Rightarrow>
               check_from env ss (extend_flow fl nxt)
                 (if fl_normal nxt = None then or_else (fl_dead nxt) (Some current) else unreachable) ck')
      | None \<Rightarrow>
          (case unreachable of
             None \<Rightarrow> check_from env ss fl unreachable ck
           | Some current \<Rightarrow>
               (case check_statement env s current ck of
                  (nxt, ck') \<Rightarrow> check_from env ss fl (or_else (fl_normal nxt) (Some current)) ck')))"
| "check_statement env (TypedStatement sp (SLet b m ty e)) st ck =
     (case initialize_local b sp (visit_expression env e True (st, ck)) of (st', ck') \<Rightarrow> (flow_normal st', ck'))"
| "check_statement env (TypedStatement sp (SDestructure bs m e)) st ck =
     (case fold (\<lambda>b. initialize_local (ttb_binding b) sp) bs (visit_expression env e True (st, ck)) of
        (st', ck') \<Rightarrow> (flow_normal st', ck'))"
| "check_statement env (TypedStatement sp (SAssign place operator e)) st ck =
     (let s1 = visit_expression env e True (visit_place_inputs env place (st, ck));
          op = normalized_place (tpl_ownership_place place);
          s2 = (if operator \<noteq> AssignAssign then require_place env op (tpl_ty place) (tpl_span place) s1 else s1)
      in case set_place op (transition_initialized (tpl_span place)) s2 of (st', ck') \<Rightarrow> (flow_normal st', ck'))"
| "check_statement env (TypedStatement sp (SExpression e)) st ck =
     (case visit_expression env e True (st, ck) of (st', ck') \<Rightarrow> (flow_normal st', ck'))"
| "check_statement env (TypedStatement sp (SReturn e)) st ck =
     (case visit_optional env e (st, ck) of (st', ck') \<Rightarrow> (flow_default\<lparr>fl_dead := Some st'\<rparr>, ck'))"
| "check_statement env (TypedStatement sp (SIf e then_body else_body)) st ck =
     (case visit_expression env e True (st, ck) of
        (st1, ck1) \<Rightarrow>
          (case check_from env then_body (flow_normal st1) None ck1 of
             (then_flow, ck2) \<Rightarrow>
               (case check_from env else_body (flow_normal st1) None ck2 of
                  (else_flow, ck3) \<Rightarrow> (join_flows [then_flow, else_flow], ck3))))"
| "check_statement env (TypedStatement sp (SWhile e body)) st ck =
     loop_rounds (visit_expression env e True) (\<lambda>st' ck'. check_from env body (flow_normal st') None ck') st
       (Suc (transition_bound ck)) st [] ck"
| "check_statement env (TypedStatement sp (SFor b e k ds body)) st ck =
     (case visit_expression env e True (st, ck) of
        (st1, ck1) \<Rightarrow>
          loop_rounds (\<lambda>s. s)
            (\<lambda>st' ck'. case initialize_local b sp (st', ck') of (st'', ck'') \<Rightarrow> check_from env body (flow_normal st'') None ck'') st1
            (Suc (transition_bound ck1)) st1 [] ck1)"
| "check_statement env (TypedStatement sp (SMatch e arms)) st ck =
     (case visit_expression env e True (st, ck) of
        (st1, ck1) \<Rightarrow>
          (case check_arms env arms (map_option normalized_place (te_ownership_place e)) st1 ck1 of
             (flows, ck2) \<Rightarrow> (join_flows flows, ck2)))"
| "check_statement env (TypedStatement sp (SBlock body)) st ck = check_from env body (flow_normal st) None ck"
| "check_statement env (TypedStatement sp (SDefer body)) st ck =
     (flow_normal st, snd (check_from env body (flow_normal st) None ck))"
| "check_statement env (TypedStatement sp (SExpect e d body)) st ck =
     (case visit_expression env e True (st, ck) of
        (st1, ck1) \<Rightarrow>
          (case check_from env body (flow_normal st1) None ck1 of
             (handler, ck2) \<Rightarrow> (handler\<lparr>fl_normal := join_states (st1 # option_list (fl_normal handler))\<rparr>, ck2)))"
| "check_statement env (TypedStatement sp SBreak) st ck = (flow_default\<lparr>fl_dead := Some st, fl_breaks := [st]\<rparr>, ck)"
| "check_statement env (TypedStatement sp SContinue) st ck = (flow_default\<lparr>fl_dead := Some st, fl_continues := [st]\<rparr>, ck)"
| "check_statement env (TypedStatement sp SPass) st ck = (flow_normal st, ck)"
| "check_arms env [] source st ck = ([], ck)"
| "check_arms env (TypedMatchArm p g body sp # arms) source st ck =
     (case visit_optional env g (apply_pattern env p source (st, ck)) of
        (st1, ck1) \<Rightarrow>
          (case check_from env body (flow_normal st1) None ck1 of
             (fl, ck2) \<Rightarrow>
               (case check_arms env arms source st ck2 of (fls, ck3) \<Rightarrow> (fl # fls, ck3))))"
  by pat_completeness auto
termination
  by (relation "measure (\<lambda>x. case x of
        Inl (env, ss, fl, u, ck) \<Rightarrow> size_list size ss
      | Inr (Inl (env, s, st, ck)) \<Rightarrow> size s
      | Inr (Inr (env, arms, source, st, ck)) \<Rightarrow> size_list size arms)") auto

definition check_block :: "move_env \<Rightarrow> typed_statement list \<Rightarrow> move_state \<Rightarrow> checker \<Rightarrow> flow \<times> checker" where
  "check_block env body st ck = check_from env body (flow_normal st) None ck"

section \<open>Functions\<close>

definition enter_root :: "ownership_place_root \<Rightarrow> type_id \<Rightarrow> transition \<Rightarrow> check_state \<Rightarrow> check_state" where
  "enter_root r ty t s =
     (case s of (st, ck) \<Rightarrow> (map_insert r (node_new t) st, ck\<lparr>ck_root_types := map_insert r ty (ck_root_types ck)\<rparr>))"

definition enter_local :: "move_env \<Rightarrow> typed_function \<Rightarrow> local_binding_id \<times> type_id \<Rightarrow> check_state \<Rightarrow> check_state" where
  "enter_local env f x =
     (case x of (b, ty) \<Rightarrow>
        enter_root (RootLocal b) ty
          (if b \<in> set (map tpa_binding (tf_parameters f)) then transition_initialized (me_local_span env b)
           else transition_uninitialized (me_local_span env b)))"

definition enter_capture :: "move_env \<Rightarrow> typed_function \<Rightarrow> local_binding_id \<times> nat \<Rightarrow> check_state \<Rightarrow> check_state" where
  "enter_capture env f x s =
     (case x of (b, i) \<Rightarrow>
        (case map_of (tf_local_types f) b of
           None \<Rightarrow> s
         | Some ty \<Rightarrow>
             (case enter_root (RootClosureCapture i) ty (transition_initialized (me_local_span env b)) s of
                (st, ck) \<Rightarrow> (map_insert (RootLocal b) (node_new (transition_initialized (me_local_span env b))) st, ck))))"

definition entry_state :: "move_env \<Rightarrow> typed_function \<Rightarrow> checker \<Rightarrow> check_state" where
  "entry_state env f ck =
     (let s = fold (enter_local env f) (tf_local_types f) ([], ck\<lparr>ck_root_types := []\<rparr>)
      in case tf_closure f of None \<Rightarrow> s | Some c \<Rightarrow> fold (enter_capture env f) (tcb_captures c) s)"

definition check_function :: "move_env \<Rightarrow> typed_function \<Rightarrow> checker \<Rightarrow> checker" where
  "check_function env f ck = (case entry_state env f ck of (st, ck') \<Rightarrow> snd (check_block env (tf_body f) st ck'))"

definition checker_new :: checker where
  "checker_new = \<lparr>ck_diagnostics = [], ck_reported = [], ck_root_types = [], ck_stuck = False\<rparr>"

text \<open>The pass over a program of the owned revision; a legacy program is not checked.\<close>

definition check_moves :: "move_env \<Rightarrow> bool \<Rightarrow> typed_function list \<Rightarrow> checker" where
  "check_moves env owned functions = (if owned then fold (check_function env) functions checker_new else checker_new)"

end
