(* ===== verification/Move_Paths.thy ===== *)
theory Move_Paths
  imports Move_Check
begin

text \<open>
  What the move checker is about: the uses, moves and initializations an execution performs, in
  order, the executions a function body has, and when an execution touches storage that is not
  initialized. Nothing here depends on the states the checker keeps.
\<close>

section \<open>Events\<close>

datatype event = EvUse ownership_place type_id | EvMove ownership_place type_id | EvSet ownership_place

type_synonym traces = "event list set"

definition seqs :: "traces \<Rightarrow> traces \<Rightarrow> traces" where
  "seqs A B = {a @ b |a b. a \<in> A \<and> b \<in> B}"

definition seq_all :: "traces list \<Rightarrow> traces" where
  "seq_all As = foldr seqs As {[]}"

definition use_events :: "typed_expression \<Rightarrow> ownership_use \<Rightarrow> event list" where
  "use_events e u =
     (case map_option normalized_place (ou_place u) of
        None \<Rightarrow> []
      | Some place \<Rightarrow>
          if borrows_place e \<and> (ou_kind u = UseMove \<or> ou_kind u = UseCopy) then []
          else if ou_kind u = UseMove then [EvMove place (te_ty e)]
          else [EvUse place (te_ty e)])"

text \<open>Operands are evaluated left to right; the right operand of a logical operator may be skipped.\<close>

function expression_traces :: "typed_expression \<Rightarrow> bool \<Rightarrow> traces"
and kind_traces :: "typed_expression_kind \<Rightarrow> traces"
and callee_traces :: "typed_callee \<Rightarrow> traces"
and part_traces :: "formatted_part \<Rightarrow> traces"
and place_traces :: "typed_place \<Rightarrow> traces" where
  "expression_traces (TypedExpression ty pk cp ow sp kind) whole =
     (if whole
      then seqs (kind_traces kind) {concat (map (use_events (TypedExpression ty pk cp ow sp kind)) ow)}
      else kind_traces kind)"
| "kind_traces (EConstant c) = {[]}"
| "kind_traces (EFunctionReference i) = {[]}"
| "kind_traces (ELocal b) = {[]}"
| "kind_traces (EClosureCapture i) = {[]}"
| "kind_traces (EDefaultValue t) = {[]}"
| "kind_traces (EClosure i es) = seq_all (map (\<lambda>e. expression_traces e True) es)"
| "kind_traces (ETuple es) = seq_all (map (\<lambda>e. expression_traces e True) es)"
| "kind_traces (EArray es) = seq_all (map (\<lambda>e. expression_traces e True) es)"
| "kind_traces (EVariadicSlice es) = seq_all (map (\<lambda>e. expression_traces e True) es)"
| "kind_traces (EUnary u e) = expression_traces e True"
| "kind_traces (ECast e) = expression_traces e True"
| "kind_traces (EDereference e) = expression_traces e True"
| "kind_traces (EAddressOfTemporary e) = expression_traces e True"
| "kind_traces (EMakeTraitObject e d t c) = expression_traces e True"
| "kind_traces (EPropagate e d ov okf ev ef t) = expression_traces e True"
| "kind_traces (EBinary b l r) =
     seqs (expression_traces l True)
       (if short_circuits b then {[]} \<union> expression_traces r True else expression_traces r True)"
| "kind_traces (ECall callee args modes) =
     seqs (callee_traces callee) (seq_all (map (\<lambda>e. expression_traces e True) args))"
| "kind_traces (EField e f) = expression_traces e False"
| "kind_traces (ETupleField e i) = expression_traces e False"
| "kind_traces (EIndex e i) = seqs (expression_traces e False) (expression_traces i True)"
| "kind_traces (EAddressOf p) = place_traces p"
| "kind_traces (ENumericConversion oc e t) = expression_traces e True"
| "kind_traces (ENumericAlternative na e None) = expression_traces e True"
| "kind_traces (ENumericAlternative na e (Some operand)) = seqs (expression_traces e True) (expression_traces operand True)"
| "kind_traces (EStandardCall c es) = seq_all (map (\<lambda>e. expression_traces e True) es)"
| "kind_traces (ECollectionLiteral k es) = seq_all (map (\<lambda>e. expression_traces e True) es)"
| "kind_traces (EStruct d fs) = seq_all (map (\<lambda>(f, e). expression_traces e True) fs)"
| "kind_traces (EEnum d v fs) = seq_all (map (\<lambda>(f, e). expression_traces e True) fs)"
| "kind_traces (EFormattedString ps) = seq_all (map (\<lambda>p. part_traces p) ps)"
| "callee_traces (CalleeFunction i) = {[]}"
| "callee_traces (CalleeIndirect e) = expression_traces e True"
| "callee_traces (CalleeClosure i e) = expression_traces e True"
| "callee_traces (CalleeDynamic d i) = {[]}"
| "callee_traces (CalleePrint n) = {[]}"
| "part_traces (PartText t) = {[]}"
| "part_traces (PartExpression e) = expression_traces e True"
| "place_traces (PLocal b ty sp) = {[]}"
| "place_traces (PClosureCapture i ty sp) = {[]}"
| "place_traces (PField base f ty sp) = place_traces base"
| "place_traces (PTupleField base i ty sp) = place_traces base"
| "place_traces (PIndex base i ty k sp) = seqs (place_traces base) (expression_traces i True)"
| "place_traces (PDereference base ty sp) = expression_traces base True"
  by pat_completeness auto
termination
  by (relation "measure (\<lambda>x. case x of
        Inl (Inl (e, b)) \<Rightarrow> size e
      | Inl (Inr k) \<Rightarrow> size k
      | Inr (Inl c) \<Rightarrow> size c
      | Inr (Inr (Inl p)) \<Rightarrow> size p
      | Inr (Inr (Inr p)) \<Rightarrow> size p)")
    (auto intro: size_member size_member [where n = 0, simplified] size_field_member)

section \<open>Executions\<close>

text \<open>
  An execution ends normally, at a \<open>break\<close> or a \<open>continue\<close>, or leaves the function: by \<open>return\<close>, by a
  propagated error or by a trap, which may happen anywhere in an evaluation.
\<close>

datatype ending = EndNormal | EndBreak | EndContinue | EndLeave

type_synonym runs = "(event list \<times> ending) set"

definition normally :: "traces \<Rightarrow> runs" where
  "normally T = {(t, EndNormal) |t. t \<in> T}"

definition evaluating :: "traces \<Rightarrow> runs" where
  "evaluating T = normally T \<union> {(t', EndLeave) |t t'. t \<in> T \<and> prefix t' t}"

definition seq_runs :: "runs \<Rightarrow> runs \<Rightarrow> runs" where
  "seq_runs A B = {(t, e). (t, e) \<in> A \<and> e \<noteq> EndNormal} \<union> {(t @ u, e) |t u e. (t, EndNormal) \<in> A \<and> (u, e) \<in> B}"

inductive_set loop_runs :: "runs \<Rightarrow> runs \<Rightarrow> runs" for H B where
  exit: "(t, EndNormal) \<in> H \<Longrightarrow> (t, EndNormal) \<in> loop_runs H B"
| head_leaves: "(t, EndLeave) \<in> H \<Longrightarrow> (t, EndLeave) \<in> loop_runs H B"
| again: "(t, EndNormal) \<in> H \<Longrightarrow> (b, e) \<in> B \<Longrightarrow> e = EndNormal \<or> e = EndContinue \<Longrightarrow> (l, e') \<in> loop_runs H B
    \<Longrightarrow> (t @ b @ l, e') \<in> loop_runs H B"
| breaks: "(t, EndNormal) \<in> H \<Longrightarrow> (b, EndBreak) \<in> B \<Longrightarrow> (t @ b, EndNormal) \<in> loop_runs H B"
| leaves: "(t, EndNormal) \<in> H \<Longrightarrow> (b, EndLeave) \<in> B \<Longrightarrow> (t @ b, EndLeave) \<in> loop_runs H B"

text \<open>The locals a pattern binds; one alternative matches.\<close>

function binding_traces :: "typed_pattern \<Rightarrow> traces" where
  "binding_traces (TypedPattern ty sp PatWildcard) = {[]}"
| "binding_traces (TypedPattern ty sp (PatBinding b)) = {[EvSet (place_root (RootLocal b))]}"
| "binding_traces (TypedPattern ty sp (PatLiteral c)) = {[]}"
| "binding_traces (TypedPattern ty sp (PatAlternative ps)) = (\<Union>p\<in>set ps. binding_traces p)"
| "binding_traces (TypedPattern ty sp (PatDereference p)) = binding_traces p"
| "binding_traces (TypedPattern ty sp (PatTuple ps)) = seq_all (map (\<lambda>p. binding_traces p) ps)"
| "binding_traces (TypedPattern ty sp (PatStruct d fs)) = seq_all (map (\<lambda>(f, p). binding_traces p) fs)"
| "binding_traces (TypedPattern ty sp (PatVariant v fs)) = seq_all (map (\<lambda>(f, p). binding_traces p) fs)"
  by pat_completeness auto
termination
  by (relation "measure size")
    (auto intro: size_member [where n = 1, simplified] less_SucI size_field_member)

definition consume_events :: "move_env \<Rightarrow> ownership_place option \<Rightarrow> type_id \<Rightarrow> event list" where
  "consume_events env source ty =
     (case source of None \<Rightarrow> [] | Some p \<Rightarrow> if me_copy env ty then [EvUse p ty] else [EvMove p ty])"

text \<open>Matching a pattern moves or copies what it binds; a wildcard may leave the value where it is.\<close>

function pattern_traces :: "move_env \<Rightarrow> typed_pattern \<Rightarrow> ownership_place option \<Rightarrow> traces" where
  "pattern_traces env (TypedPattern ty sp PatWildcard) source = {[], consume_events env source ty}"
| "pattern_traces env (TypedPattern ty sp (PatBinding b)) source =
     {consume_events env source ty @ [EvSet (place_root (RootLocal b))]}"
| "pattern_traces env (TypedPattern ty sp (PatLiteral c)) source = {[]}"
| "pattern_traces env (TypedPattern ty sp (PatAlternative ps)) source = (\<Union>p\<in>set ps. pattern_traces env p source)"
| "pattern_traces env (TypedPattern ty sp (PatDereference p)) source =
     pattern_traces env p (place_project source ProjDereference)"
| "pattern_traces env (TypedPattern ty sp (PatTuple ps)) source =
     seq_all (map (\<lambda>(i, p). pattern_traces env p (place_project source (ProjTupleField i))) (enumerate 0 ps))"
| "pattern_traces env (TypedPattern ty sp (PatStruct d fs)) source =
     seq_all (map (\<lambda>(f, p). pattern_traces env p (place_project source (ProjField f))) fs)"
| "pattern_traces env (TypedPattern ty sp (PatVariant v fs)) source =
     seqs {if \<exists>(f, p)\<in>set fs. pattern_consumes_non_copy env p then consume_events env source ty else []}
       (seq_all (map (\<lambda>(f, p). binding_traces p) fs))"
  by pat_completeness auto
termination
  by (relation "measure (\<lambda>(env, p, source). size p)")
    (auto intro: size_member [where n = 1, simplified] less_SucI size_field_member dest: enumerate_member)

definition optional_traces :: "typed_expression option \<Rightarrow> traces" where
  "optional_traces e = (case e of Some v \<Rightarrow> expression_traces v True | None \<Rightarrow> {[]})"

text \<open>
  The arms of a match are tried in order. An arm is passed over when its pattern does not match or
  when its guard fails; the bindings of a failed arm were made tentatively and its moves are rolled
  back, but whatever the guard did stays done. A deferred body is only registered here.
\<close>

function statement_runs :: "move_env \<Rightarrow> typed_statement \<Rightarrow> runs"
and block_runs :: "move_env \<Rightarrow> typed_statement list \<Rightarrow> runs"
and arm_runs :: "move_env \<Rightarrow> typed_match_arm list \<Rightarrow> ownership_place option \<Rightarrow> runs" where
  "statement_runs env (TypedStatement sp (SLet b m ty e)) =
     seq_runs (evaluating (expression_traces e True)) (normally {[EvSet (place_root (RootLocal b))]})"
| "statement_runs env (TypedStatement sp (SDestructure bs m e)) =
     seq_runs (evaluating (expression_traces e True))
       (normally {map (\<lambda>b. EvSet (place_root (RootLocal (ttb_binding b)))) bs})"
| "statement_runs env (TypedStatement sp (SAssign place operator e)) =
     (let op = normalized_place (tpl_ownership_place place) in
      seq_runs (evaluating (seqs (place_traces place) (expression_traces e True)))
        (normally {(if operator \<noteq> AssignAssign then [EvUse op (tpl_ty place)] else []) @ [EvSet op]}))"
| "statement_runs env (TypedStatement sp (SExpression e)) = evaluating (expression_traces e True)"
| "statement_runs env (TypedStatement sp (SReturn e)) =
     seq_runs (evaluating (optional_traces e)) {([], EndLeave)}"
| "statement_runs env (TypedStatement sp (SIf e then_body else_body)) =
     seq_runs (evaluating (expression_traces e True)) (block_runs env then_body \<union> block_runs env else_body)"
| "statement_runs env (TypedStatement sp (SWhile e body)) =
     loop_runs (evaluating (expression_traces e True)) (block_runs env body)"
| "statement_runs env (TypedStatement sp (SFor b e k ds body)) =
     seq_runs (evaluating (expression_traces e True))
       (loop_runs (normally {[]}) (seq_runs (normally {[EvSet (place_root (RootLocal b))]}) (block_runs env body)))"
| "statement_runs env (TypedStatement sp (SMatch e arms)) =
     seq_runs (evaluating (expression_traces e True))
       (arm_runs env arms (map_option normalized_place (te_ownership_place e)))"
| "statement_runs env (TypedStatement sp (SBlock body)) = block_runs env body"
| "statement_runs env (TypedStatement sp (SDefer body)) = normally {[]}"
| "statement_runs env (TypedStatement sp (SExpect e d body)) =
     seq_runs (evaluating (expression_traces e True)) (normally {[]} \<union> block_runs env body)"
| "statement_runs env (TypedStatement sp SBreak) = {([], EndBreak)}"
| "statement_runs env (TypedStatement sp SContinue) = {([], EndContinue)}"
| "statement_runs env (TypedStatement sp SPass) = normally {[]}"
| "block_runs env [] = normally {[]}"
| "block_runs env (s # ss) = seq_runs (statement_runs env s) (block_runs env ss)"
| "arm_runs env [] source = {([], EndLeave)}"
| "arm_runs env (TypedMatchArm p g body sp # arms) source =
     seq_runs (evaluating (seqs (pattern_traces env p source) (optional_traces g))) (block_runs env body)
     \<union> seq_runs (normally ({[]} \<union> seqs (binding_traces p) (optional_traces g))) (arm_runs env arms source)"
  by pat_completeness auto
termination
  by (relation "measure (\<lambda>x. case x of
        Inl (env, s) \<Rightarrow> size s
      | Inr (Inl (env, ss)) \<Rightarrow> size_list size ss
      | Inr (Inr (env, arms, source)) \<Rightarrow> size_list size arms)") auto

section \<open>Storage\<close>

text \<open>Which places hold an initialized value the program still owns\<close>

type_synonym contents = "ownership_place_root \<Rightarrow> ownership_projection list \<Rightarrow> bool"

definition put :: "contents \<Rightarrow> ownership_place \<Rightarrow> bool \<Rightarrow> contents" where
  "put C p b = (\<lambda>r q. if r = op_root p \<and> prefix (op_projections p) q then b else C r q)"

fun after_events :: "contents \<Rightarrow> event list \<Rightarrow> contents" where
  "after_events C [] = C"
| "after_events C (EvUse p ty # t) = after_events C t"
| "after_events C (EvMove p ty # t) = after_events (put C p False) t"
| "after_events C (EvSet p # t) = after_events (put C p True) t"

text \<open>The parts of a value that hold data of their own: what has no structural parts.\<close>

inductive leaf :: "move_env \<Rightarrow> type_id \<Rightarrow> ownership_projection list \<Rightarrow> bool" for env where
  whole: "array_shape (me_kind env ty) = None \<Longrightarrow> structural_children env ty = [] \<Longrightarrow> leaf env ty []"
| part: "array_shape (me_kind env ty) = None \<Longrightarrow> map_of (structural_children env ty) p = Some t \<Longrightarrow> leaf env t ps
    \<Longrightarrow> leaf env ty (p # ps)"
| element: "array_shape (me_kind env ty) = Some (e, n) \<Longrightarrow> i < n \<Longrightarrow> leaf env e ps
    \<Longrightarrow> leaf env ty (ProjConstantIndex i # ps)"

text \<open>The storage an access to a place may read: all of the collection at a dynamic index.\<close>

fun extent :: "move_env \<Rightarrow> type_id option \<Rightarrow> ownership_projection list \<Rightarrow> ownership_projection list \<times> type_id option" where
  "extent env current [] = ([], current)"
| "extent env current (p # ps) =
     (if p = ProjDynamicIndex then ([], current)
      else (case extent env (Option.bind current (\<lambda>t. project_type env t p)) ps of (path, t) \<Rightarrow> (p # path, t)))"

type_synonym root_types = "(ownership_place_root, type_id) ordered_map"

definition readable :: "move_env \<Rightarrow> root_types \<Rightarrow> contents \<Rightarrow> ownership_place \<Rightarrow> type_id \<Rightarrow> bool" where
  "readable env rt C p ty \<longleftrightarrow>
     (\<forall>root_ty. map_of rt (op_root p) = Some root_ty \<longrightarrow>
        (case extent env (Some root_ty) (op_projections p) of
           (path, t) \<Rightarrow> \<forall>ps. leaf env (or_type t ty) ps \<longrightarrow> C (op_root p) (path @ ps)))"

text \<open>Every use and every move finds its place readable.\<close>

fun safe :: "move_env \<Rightarrow> root_types \<Rightarrow> contents \<Rightarrow> event list \<Rightarrow> bool" where
  "safe env rt C [] = True"
| "safe env rt C (EvUse p ty # t) = (readable env rt C p ty \<and> safe env rt C t)"
| "safe env rt C (EvMove p ty # t) = (readable env rt C p ty \<and> safe env rt (put C p False) t)"
| "safe env rt C (EvSet p # t) = safe env rt (put C p True) t"

lemma after_append [simp]: "after_events C (t @ u) = after_events (after_events C t) u"
  by (induction C t rule: after_events.induct) simp_all

lemma safe_append [simp]: "safe env rt C (t @ u) \<longleftrightarrow> safe env rt C t \<and> safe env rt (after_events C t) u"
  by (induction env rt C t rule: safe.induct) simp_all

lemma safe_prefix: "prefix t u \<Longrightarrow> safe env rt C u \<Longrightarrow> safe env rt C t"
  by (auto simp: prefix_def)

text \<open>More contents keep an execution safe.\<close>

definition holds_more :: "contents \<Rightarrow> contents \<Rightarrow> bool" where
  "holds_more C D \<longleftrightarrow> (\<forall>r q. C r q \<longrightarrow> D r q)"

lemma holds_more_put: "holds_more C D \<Longrightarrow> holds_more (put C p b) (put D p b)"
  by (simp add: holds_more_def put_def)

lemma safe_mono: "holds_more C D \<Longrightarrow> safe env rt C t \<Longrightarrow> safe env rt D t"
proof (induction env rt C t arbitrary: D rule: safe.induct)
  case (2 env rt C p ty t)
  then show ?case by (fastforce simp: readable_def holds_more_def split: prod.splits)
next
  case (3 env rt C p ty t)
  from 3(2,3) have "readable env rt D p ty" by (fastforce simp: readable_def holds_more_def split: prod.splits)
  with 3 holds_more_put show ?case by simp
next
  case (4 env rt C p t)
  with holds_more_put show ?case by simp
qed simp

lemma after_mono: "holds_more C D \<Longrightarrow> holds_more (after_events C t) (after_events D t)"
  by (induction C t arbitrary: D rule: after_events.induct) (simp_all add: holds_more_put)

end
