(* ===== verification/Move_Contract.thy ===== *)
theory Move_Contract
  imports Move_Paths
begin

text \<open>
  The contract every step of the move checker keeps: it never touches the roots, it only adds
  diagnostics, and while there is none, it changes each place in a way that does not depend on the
  state, and it covers every execution of the code it checks.
\<close>

section \<open>Effects on a place\<close>

datatype effect = Keep | Put transition | Blend transition

fun apply_effect :: "effect \<Rightarrow> transition \<Rightarrow> transition" where
  "apply_effect Keep x = x"
| "apply_effect (Put t) x = t"
| "apply_effect (Blend t) x = join_transition x t"

fun effect_then :: "effect \<Rightarrow> effect \<Rightarrow> effect" where
  "effect_then a Keep = a"
| "effect_then a (Put t) = Put t"
| "effect_then Keep (Blend t) = Blend t"
| "effect_then (Put u) (Blend t) = Put (join_transition u t)"
| "effect_then (Blend u) (Blend t) = Blend (join_transition u t)"

fun effect_join :: "effect \<Rightarrow> effect \<Rightarrow> effect" where
  "effect_join Keep Keep = Keep"
| "effect_join Keep (Put t) = Blend t"
| "effect_join Keep (Blend t) = Blend t"
| "effect_join (Put t) Keep = Blend t"
| "effect_join (Put t) (Put u) = Put (join_transition t u)"
| "effect_join (Put t) (Blend u) = Blend (join_transition t u)"
| "effect_join (Blend t) Keep = Blend t"
| "effect_join (Blend t) (Put u) = Blend (join_transition t u)"
| "effect_join (Blend t) (Blend u) = Blend (join_transition t u)"

fun effect_coherent :: "effect \<Rightarrow> bool" where
  "effect_coherent Keep = True"
| "effect_coherent (Put t) = coherent t"
| "effect_coherent (Blend t) = coherent t"

lemma apply_effect_coherent: "effect_coherent a \<Longrightarrow> coherent x \<Longrightarrow> coherent (apply_effect a x)"
  by (cases a) simp_all

lemma effect_then_ok [simp]: "effect_coherent a \<Longrightarrow> effect_coherent b \<Longrightarrow> effect_coherent (effect_then a b)"
  by (cases a; cases b) simp_all

lemma effect_join_ok [simp]: "effect_coherent a \<Longrightarrow> effect_coherent b \<Longrightarrow> effect_coherent (effect_join a b)"
  by (cases a; cases b) simp_all

lemma apply_effect_then:
  "effect_coherent a \<Longrightarrow> effect_coherent b \<Longrightarrow> coherent x \<Longrightarrow> apply_effect (effect_then a b) x = apply_effect b (apply_effect a x)"
  by (cases a; cases b) (simp_all add: join_transition_assoc)

lemma join_transition_left_commute:
  "coherent a \<Longrightarrow> coherent b \<Longrightarrow> coherent c \<Longrightarrow>
   join_transition a (join_transition b c) = join_transition b (join_transition a c)"
  by (metis join_transition_assoc join_transition_commute)

lemma join_transition_absorb: "coherent a \<Longrightarrow> coherent b \<Longrightarrow> join_transition a (join_transition a b) = join_transition a b"
  by (metis join_transition_assoc join_transition_idem)

lemmas join_transition_ac = join_transition_assoc join_transition_left_commute join_transition_absorb

lemma apply_effect_join:
  "effect_coherent a \<Longrightarrow> effect_coherent b \<Longrightarrow> coherent x \<Longrightarrow>
   apply_effect (effect_join a b) x = join_transition (apply_effect a x) (apply_effect b x)"
  by (cases a; cases b) (simp_all add: join_transition_ac join_transition_commute [of _ x])

text \<open>A loop head is stable after one round.\<close>

lemma effect_stable:
  "effect_coherent a \<Longrightarrow> coherent x \<Longrightarrow>
   join_transition x (apply_effect a (join_transition x (apply_effect a x))) = join_transition x (apply_effect a x)"
  by (cases a) (simp_all add: join_transition_ac)

section \<open>The interface of states\<close>

definition covers_by :: "('s \<Rightarrow> ownership_place_root \<Rightarrow> ownership_projection list \<Rightarrow> transition option) \<Rightarrow> 's \<Rightarrow> contents \<Rightarrow> bool" where
  "covers_by at s C \<longleftrightarrow> (\<forall>r q t. at s r q = Some t \<longrightarrow> tr_available t \<longrightarrow> C r q)"

definition effect_by ::
  "('s \<Rightarrow> ownership_place_root \<Rightarrow> ownership_projection list \<Rightarrow> transition option) \<Rightarrow>
   (ownership_place_root \<Rightarrow> ownership_projection list \<Rightarrow> effect) \<Rightarrow> 's \<Rightarrow> 's \<Rightarrow> bool" where
  "effect_by at F s s' \<longleftrightarrow> (\<forall>r q. at s' r q = map_option (apply_effect (F r q)) (at s r q))"

definition set_effect :: "ownership_place \<Rightarrow> transition \<Rightarrow> ownership_place_root \<Rightarrow> ownership_projection list \<Rightarrow> effect" where
  "set_effect p t r q = (if r = op_root p \<and> prefix (op_projections p) q then Put t else Keep)"

locale place_states =
  fixes at :: "'s \<Rightarrow> ownership_place_root \<Rightarrow> ownership_projection list \<Rightarrow> transition option"
    and upd :: "'s \<Rightarrow> ownership_place \<Rightarrow> transition \<Rightarrow> 's"
    and merge :: "'s \<Rightarrow> 's \<Rightarrow> 's"
    and ok :: "'s \<Rightarrow> bool"
  assumes at_upd: "ok s \<Longrightarrow> at (upd s p t) r q =
      (if r = op_root p \<and> prefix (op_projections p) q \<and> at s r q \<noteq> None then Some t else at s r q)"
    and at_merge: "ok s \<Longrightarrow> ok u \<Longrightarrow> at (merge s u) r q = join_option (at s r q) (at u r q)"
    and ok_upd: "ok s \<Longrightarrow> coherent t \<Longrightarrow> ok (upd s p t)"
    and ok_merge: "ok s \<Longrightarrow> ok u \<Longrightarrow> ok (merge s u)"
    and at_coherent: "ok s \<Longrightarrow> at s r q = Some t \<Longrightarrow> coherent t"
begin

lemma covers_upd: "ok s \<Longrightarrow> covers_by at s C \<Longrightarrow> covers_by at (upd s p t) (put C p (tr_available t))"
  unfolding covers_by_def put_def at_upd by auto

lemma covers_mono: "covers_by at s C \<Longrightarrow> holds_more C D \<Longrightarrow> covers_by at s D"
  by (auto simp: covers_by_def holds_more_def)

lemma covers_merge: "ok s \<Longrightarrow> ok u \<Longrightarrow> covers_by at s C \<or> covers_by at u C \<Longrightarrow>
    (\<And>r q. at s r q = None \<longleftrightarrow> at u r q = None) \<Longrightarrow> covers_by at (merge s u) C"
proof -
  assume a: "ok s" "ok u" "covers_by at s C \<or> covers_by at u C" "\<And>r q. at s r q = None \<longleftrightarrow> at u r q = None"
  have "C r q" if "at (merge s u) r q = Some t" "tr_available t" for r q t
  proof -
    from that(1) a(4) [of r q] obtain x y where "at s r q = Some x" "at u r q = Some y" "t = join_transition x y"
      unfolding at_merge [OF a(1,2)] by (cases "at s r q"; cases "at u r q") auto
    with that(2) a(3) show ?thesis by (auto simp: covers_by_def)
  qed
  then show ?thesis by (simp add: covers_by_def)
qed

lemma effect_refl: "effect_by at (\<lambda>r q. Keep) s s"
  by (simp add: effect_by_def option.map_ident_strong)

lemma effect_upd: "ok s \<Longrightarrow> effect_by at (set_effect p t) s (upd s p t)"
  unfolding effect_by_def by (auto simp: at_upd set_effect_def option.map_ident_strong)

lemma effect_trans:
  assumes "ok s" "\<And>r q. effect_coherent (F r q)" "\<And>r q. effect_coherent (G r q)" "effect_by at F s s'" "effect_by at G s' s''"
  shows "effect_by at (\<lambda>r q. effect_then (F r q) (G r q)) s s''"
  using assms at_coherent [OF assms(1)] unfolding effect_by_def
  by (auto simp: option.map_comp apply_effect_then intro!: option.map_cong)

lemma effect_merge:
  assumes "ok s" "ok u" "ok v" "\<And>r q. effect_coherent (F r q)" "\<And>r q. effect_coherent (G r q)"
    "effect_by at F s u" "effect_by at G s v"
  shows "effect_by at (\<lambda>r q. effect_join (F r q) (G r q)) s (merge u v)"
  unfolding effect_by_def
proof (intro allI)
  fix r q
  show "at (merge u v) r q = map_option (apply_effect (effect_join (F r q) (G r q))) (at s r q)"
    using assms at_coherent [OF assms(1), of r q]
    by (cases "at s r q") (simp_all add: at_merge effect_by_def apply_effect_join)
qed

lemma effect_domain: "effect_by at F s s' \<Longrightarrow> at s' r q = None \<longleftrightarrow> at s r q = None"
  by (simp add: effect_by_def)

end

definition sane :: "move_state \<Rightarrow> bool" where
  "sane st \<longleftrightarrow> state_ok st \<and> (\<forall>r q t. state_at st r q = Some t \<longrightarrow> coherent t)"

lemma saneD: "sane st \<Longrightarrow> state_ok st" "sane st \<Longrightarrow> state_at st r q = Some t \<Longrightarrow> coherent t"
  by (simp_all add: sane_def)

lemma sane_join:
  assumes "sane a" "sane b"
  shows "sane (join_two a b)"
proof -
  have "coherent t" if "state_at (join_two a b) r q = Some t" for r q t
  proof (cases "state_at a r q"; cases "state_at b r q")
    fix x y
    assume xy: "state_at a r q = Some x" "state_at b r q = Some y"
    then have "coherent x" "coherent y" using assms by (simp_all add: saneD(2))
    with that xy saneD(1) [OF assms(1)] saneD(1) [OF assms(2)] show ?thesis by (auto simp: state_at_join)
  qed (use that assms in \<open>auto simp: state_at_join saneD\<close>)
  then show ?thesis using assms by (simp add: sane_def)
qed

lemma sane_set: "sane st \<Longrightarrow> coherent t \<Longrightarrow> sane (state_set st p t)"
  by (auto simp: sane_def state_at_set split: if_splits)

interpretation ms: place_states state_at state_set join_two sane
proof
  fix s u p t r q
  show "sane s \<Longrightarrow> state_at (state_set s p t) r q =
      (if r = op_root p \<and> prefix (op_projections p) q \<and> state_at s r q \<noteq> None then Some t else state_at s r q)"
    by (rule state_at_set [OF saneD(1)])
  show "sane s \<Longrightarrow> sane u \<Longrightarrow> state_at (join_two s u) r q = join_option (state_at s r q) (state_at u r q)"
    by (rule state_at_join [OF saneD(1) saneD(1)])
qed (simp_all add: sane_set sane_join saneD(2))

abbreviation covers :: "move_state \<Rightarrow> contents \<Rightarrow> bool" where
  "covers \<equiv> covers_by state_at"

abbreviation has_effect :: "(ownership_place_root \<Rightarrow> ownership_projection list \<Rightarrow> effect) \<Rightarrow> move_state \<Rightarrow> move_state \<Rightarrow> bool" where
  "has_effect \<equiv> effect_by state_at"

end
