(* ===== verification/Move_Steps.thy ===== *)
theory Move_Steps
  imports Move_Contract
begin

text \<open>
  Expressions and patterns keep the contract: the search for an unavailable part returns and finds one
  whenever an access would read uninitialized storage, and every visit covers the events it stands for.
\<close>

section \<open>The search for an unavailable part\<close>

text \<open>Values have finite size: every part has a smaller rank, within the depth bound.\<close>

definition sized :: "move_env \<Rightarrow> bool" where
  "sized env \<longleftrightarrow> (\<exists>rank. \<forall>ty. rank ty \<le> me_depth env
     \<and> (\<forall>e n. array_shape (me_kind env ty) = Some (e, n) \<longrightarrow> rank e < rank ty)
     \<and> (\<forall>p t. (p, t) \<in> set (structural_children env ty) \<longrightarrow> rank t < rank ty))"

lemma first_cause_total: "(\<And>x. x \<in> set xs \<Longrightarrow> f x \<noteq> None) \<Longrightarrow> first_cause f xs \<noteq> None"
  by (induction xs) (auto split: option.split)

lemma first_cause_none: "first_cause f xs = Some None \<Longrightarrow> x \<in> set xs \<Longrightarrow> f x = Some None"
  by (induction xs) (auto split: option.splits)

lemma child_size_less: "(p, c) \<in> set (sn_children node) \<Longrightarrow> size c < size node"
  by (cases node) (auto dest: size_field_member)

lemma first_unavailable_total:
  assumes rank: "\<And>ty. (\<forall>e n. array_shape (me_kind env ty) = Some (e, n) \<longrightarrow> rank e < rank ty)
     \<and> (\<forall>p t. (p, t) \<in> set (structural_children env ty) \<longrightarrow> rank t < rank ty)"
  shows "rank ty + size node < fuel \<Longrightarrow> first_unavailable fuel env node ty \<noteq> None"
proof (induction fuel arbitrary: node ty)
  case (Suc fuel)
  have child: "first_unavailable fuel env c t \<noteq> None" if "(p, c) \<in> set (sn_children node)" "rank t \<le> rank ty" for p c t
    using Suc.IH [of t c] Suc.prems child_size_less [OF that(1)] that(2) by simp
  show ?case
  proof (cases "array_shape (me_kind env ty)")
    case (Some en)
    then obtain e n where en: "array_shape (me_kind env ty) = Some (e, n)" by (cases en) auto
    then have "rank e \<le> rank ty" using rank [of ty] by (simp add: less_imp_le)
    with child have "first_cause (\<lambda>(p, c). first_unavailable fuel env c e) (sn_children node) \<noteq> None"
      by (intro first_cause_total) auto
    with en show ?thesis by (simp add: Let_def)
  next
    case None
    have "rank (case map_of (structural_children env ty) p of Some t \<Rightarrow> t | None \<Rightarrow> ty) \<le> rank ty" for p
      using rank [of ty] by (auto split: option.split dest!: map_of_SomeD intro: less_imp_le)
    with child have a: "first_cause (\<lambda>(p, c). first_unavailable fuel env c
        (case map_of (structural_children env ty) p of Some t \<Rightarrow> t | None \<Rightarrow> ty)) (sn_children node) \<noteq> None"
      by (intro first_cause_total) auto
    have "first_unavailable fuel env (case map_of (sn_children node) p of Some c \<Rightarrow> c | None \<Rightarrow> node_new (sn_transition node)) t \<noteq> None"
      if "(p, t) \<in> set (structural_children env ty)" for p t
    proof -
      have "rank t < rank ty" using rank [of ty] that by blast
      moreover have "size (child_or_new node p) \<le> size node" by (rule size_child_or_new)
      ultimately show ?thesis using Suc.IH [of t "child_or_new node p"] Suc.prems by (simp add: child_or_new_def)
    qed
    then have "first_cause (\<lambda>(p, t). first_unavailable fuel env
        (case map_of (sn_children node) p of Some c \<Rightarrow> c | None \<Rightarrow> node_new (sn_transition node)) t)
        (structural_children env ty) \<noteq> None"
      by (intro first_cause_total) auto
    with None a show ?thesis by (simp add: Let_def)
  qed
qed simp

lemma check_depth_total:
  assumes "sized env"
  shows "first_unavailable (check_depth env node) env node ty \<noteq> None"
proof -
  obtain rank where r: "\<And>ty. rank ty \<le> me_depth env" "\<And>ty. (\<forall>e n. array_shape (me_kind env ty) = Some (e, n) \<longrightarrow> rank e < rank ty)
     \<and> (\<forall>p t. (p, t) \<in> set (structural_children env ty) \<longrightarrow> rank t < rank ty)" using assms unfolding sized_def by blast
  have "rank ty + size node < check_depth env node" using r(1) [of ty] by (simp add: check_depth_def)
  then show ?thesis by (rule first_unavailable_total [OF r(2)])
qed

lemma cause_below_total: "sized env \<Longrightarrow> cause_below env ty node current ps \<noteq> None"
  by (induction env ty node current ps rule: cause_below.induct) (simp_all add: check_depth_total del: not_None_eq)

text \<open>When it finds nothing, every part that holds data is available.\<close>

lemma initialized_indices_all:
  assumes "node_ok node" "length (initialized_indices n (sn_children node)) = n" "i < n"
  shows "\<exists>c. (ProjConstantIndex i, c) \<in> set (sn_children node)"
proof -
  let ?g = "\<lambda>(p, c). case p of ProjConstantIndex i \<Rightarrow> if i < n then Some i else None | _ \<Rightarrow> None"
  have d: "distinct (map fst (sn_children node))"
    using assms(1) by (simp add: node_ok_simp [of node] ascending_distinct)
  have sub: "set (initialized_indices n cs) \<subseteq> {..<n}" for cs
    by (auto simp: initialized_indices_def List.map_filter_def split: ownership_projection.splits if_splits)
  have mem: "j \<in> set (initialized_indices n cs) \<longleftrightarrow> j < n \<and> ProjConstantIndex j \<in> fst ` set cs" for j cs
    by (force simp: initialized_indices_def List.map_filter_def split: ownership_projection.splits if_splits)
  have dist: "distinct (map fst cs) \<Longrightarrow> distinct (initialized_indices n cs)" for cs
  proof (induction cs)
    case (Cons pc cs)
    obtain p c where pc: "pc = (p, c)" by (cases pc)
    show ?case
    proof (cases "\<exists>j<n. p = ProjConstantIndex j")
      case True
      then obtain j where j: "j < n" "p = ProjConstantIndex j" by blast
      then have "initialized_indices n (pc # cs) = j # initialized_indices n cs"
        by (simp add: initialized_indices_def List.map_filter_simps pc)
      moreover have "j \<notin> set (initialized_indices n cs)" using Cons.prems by (auto simp: mem pc j)
      ultimately show ?thesis using Cons by simp
    next
      case False
      then have "initialized_indices n (pc # cs) = initialized_indices n cs"
        by (auto simp: initialized_indices_def List.map_filter_simps pc split: ownership_projection.split)
      then show ?thesis using Cons by simp
    qed
  qed (simp add: initialized_indices_def List.map_filter_simps)
  have "card (set (initialized_indices n (sn_children node))) = card {..<n}"
    using distinct_card [OF dist [OF d]] assms(2) by simp
  then have "set (initialized_indices n (sn_children node)) = {..<n}"
    by (intro card_subset_eq [OF _ sub]) simp_all
  with assms(3) have "i \<in> set (initialized_indices n (sn_children node))" by simp
  then show ?thesis by (auto simp: mem)
qed

lemma first_unavailable_sound:
  "first_unavailable fuel env node ty = Some None \<Longrightarrow> node_ok node \<Longrightarrow> leaf env ty ps \<Longrightarrow> tr_available (node_at node ps)"
proof (induction fuel arbitrary: node ty ps)
  case (Suc fuel)
  have entry: "child_or_new node p = c \<and> node_ok c" if "(p, c) \<in> set (sn_children node)" for p c
    using Suc.prems(2) child_or_new_entry [OF Suc.prems(2) that] that by (auto simp: node_ok_simp [of node])
  have inherited: "child_or_new node p = node_new (sn_transition node)" if "map_of (sn_children node) p = None" for p
    using that by (simp add: child_or_new_def)
  from Suc.prems(3) show ?case
  proof cases
    case whole
    then show ?thesis using Suc.prems(1) by (simp add: Let_def split: if_splits)
  next
    case (part p t qs)
    show ?thesis
    proof (cases "tr_available (sn_transition node)")
      case True
      show ?thesis
      proof (cases "map_of (sn_children node) p")
        case None
        then show ?thesis using True by (simp add: part(1) inherited)
      next
        case (Some c)
        then have c: "(p, c) \<in> set (sn_children node)" by (rule map_of_SomeD)
        have "first_cause (\<lambda>(p, child). first_unavailable fuel env child
            (case map_of (structural_children env ty) p of Some t \<Rightarrow> t | None \<Rightarrow> ty)) (sn_children node) = Some None"
          using Suc.prems(1) True part(2) by (simp add: Let_def)
        from first_cause_none [OF this c] part(3) have "first_unavailable fuel env c t = Some None" by simp
        from Suc.IH [OF this _ part(4)] entry [OF c] show ?thesis by (simp add: part(1))
      qed
    next
      case False
      have st: "(p, t) \<in> set (structural_children env ty)" using part(3) by (rule map_of_SomeD)
      have ne: "structural_children env ty \<noteq> []" using st by auto
      have "first_cause (\<lambda>(p, t). first_unavailable fuel env
          (case map_of (sn_children node) p of Some c \<Rightarrow> c | None \<Rightarrow> node_new (sn_transition node)) t)
          (structural_children env ty) = Some None"
        using Suc.prems(1) False part(2) ne by (simp add: Let_def)
      from first_cause_none [OF this st] have "first_unavailable fuel env (child_or_new node p) t = Some None"
        by (simp add: child_or_new_def)
      from Suc.IH [OF this child_ok [OF Suc.prems(2)] part(4)] show ?thesis by (simp add: part(1))
    qed
  next
    case (element e n i qs)
    have all: "first_unavailable fuel env c e = Some None" if "(p, c) \<in> set (sn_children node)" for p c
    proof -
      have "first_cause (\<lambda>(p, child). first_unavailable fuel env child e) (sn_children node) = Some None"
        using Suc.prems(1) element(2) by (simp add: Let_def split: if_splits)
      from first_cause_none [OF this that] show ?thesis by simp
    qed
    show ?thesis
    proof (cases "map_of (sn_children node) (ProjConstantIndex i)")
      case None
      then have "\<nexists>c. (ProjConstantIndex i, c) \<in> set (sn_children node)" by (force simp: map_of_eq_None_iff)
      then have "length (initialized_indices n (sn_children node)) \<noteq> n"
        using initialized_indices_all [OF Suc.prems(2) _ element(3)] by blast
      then have "tr_available (sn_transition node)"
        using Suc.prems(1) element(2) by (simp add: Let_def split: if_splits)
      then show ?thesis using None by (simp add: element(1) inherited)
    next
      case (Some c)
      then have c: "(ProjConstantIndex i, c) \<in> set (sn_children node)" by (rule map_of_SomeD)
      from Suc.IH [OF all [OF c] _ element(4)] entry [OF c] show ?thesis by (simp add: element(1))
    qed
  qed
qed simp

lemma cause_below_sound:
  "cause_below env ty node current ps = Some None \<Longrightarrow> node_ok node \<Longrightarrow> extent env current ps = (path, t)
   \<Longrightarrow> leaf env (or_type t ty) qs \<Longrightarrow> tr_available (node_at node (path @ qs))"
proof (induction env ty node current ps arbitrary: path rule: cause_below.induct)
  case (1 env ty node current)
  then show ?case by (auto intro: first_unavailable_sound)
next
  case (2 env ty node current p ps)
  show ?case
  proof (cases "p = ProjDynamicIndex")
    case True
    with 2 show ?thesis by (auto intro: first_unavailable_sound)
  next
    case False
    obtain path' t' where e: "extent env (Option.bind current (\<lambda>t. project_type env t p)) ps = (path', t')" by (cases "extent env (Option.bind current (\<lambda>t. project_type env t p)) ps")
    with 2(4) False have "path = p # path'" "t = t'" by simp_all
    with 2 False e show ?thesis by simp
  qed
qed

end
