(* ===== verification/Move_Visits.thy ===== *)
theory Move_Visits
  imports Move_Steps
begin

text \<open>Expressions and patterns keep the contract of the move checker.\<close>

section \<open>The contract of a step\<close>

definition clean :: "checker \<Rightarrow> bool" where
  "clean ck \<longleftrightarrow> ck_diagnostics ck = [] \<and> \<not> ck_stuck ck"

definition tidy :: "checker \<Rightarrow> bool" where
  "tidy ck \<longleftrightarrow> (ck_diagnostics ck = [] \<longrightarrow> ck_reported ck = [])"

text \<open>What a step may do to the checker\<close>

definition steady :: "move_env \<Rightarrow> checker \<Rightarrow> checker \<Rightarrow> bool" where
  "steady env ck ck' \<longleftrightarrow> ck_root_types ck' = ck_root_types ck \<and> tidy ck' \<and> (sized env \<longrightarrow> ck_stuck ck' = ck_stuck ck)
     \<and> (clean ck' \<longrightarrow> ck' = ck)"

definition ready :: "move_state \<Rightarrow> checker \<Rightarrow> bool" where
  "ready st ck \<longleftrightarrow> sane st \<and> map fst st = map fst (ck_root_types ck) \<and> tidy ck"

type_synonym effects = "ownership_place_root \<Rightarrow> ownership_projection list \<Rightarrow> effect"

definition effects_ok :: "effects \<Rightarrow> bool" where
  "effects_ok F \<longleftrightarrow> (\<forall>r q. effect_coherent (F r q))"

definition effects_then :: "effects \<Rightarrow> effects \<Rightarrow> effects" where
  "effects_then F G = (\<lambda>r q. effect_then (F r q) (G r q))"

definition effects_join :: "effects \<Rightarrow> effects \<Rightarrow> effects" where
  "effects_join F G = (\<lambda>r q. effect_join (F r q) (G r q))"

definition covers_traces :: "move_env \<Rightarrow> root_types \<Rightarrow> traces \<Rightarrow> move_state \<Rightarrow> move_state \<Rightarrow> bool" where
  "covers_traces env rt T st st' \<longleftrightarrow>
     (\<forall>C t. covers st C \<longrightarrow> t \<in> T \<longrightarrow> safe env rt C t \<and> covers st' (after_events C t))"

text \<open>What a step does to a state, as far as no diagnostic was reported\<close>

definition state_step :: "move_env \<Rightarrow> root_types \<Rightarrow> bool \<Rightarrow> effects \<Rightarrow> traces \<Rightarrow> move_state \<Rightarrow> move_state \<Rightarrow> bool" where
  "state_step env rt silent F T st st' \<longleftrightarrow>
     sane st' \<and> map fst st' = map fst st \<and> (silent \<longrightarrow> has_effect F st st' \<and> covers_traces env rt T st st')"

definition step_ok :: "move_env \<Rightarrow> effects \<Rightarrow> traces \<Rightarrow> check_state \<Rightarrow> check_state \<Rightarrow> bool" where
  "step_ok env F T s s' \<longleftrightarrow>
     state_step env (ck_root_types (snd s)) (clean (snd s')) F T (fst s) (fst s') \<and> steady env (snd s) (snd s')"

definition contract :: "move_env \<Rightarrow> (check_state \<Rightarrow> check_state) \<Rightarrow> traces \<Rightarrow> bool" where
  "contract env f T \<longleftrightarrow>
     (\<exists>F. effects_ok F \<and> (\<forall>s. ready (fst s) (snd s) \<longrightarrow> step_ok env F T s (f s)))"

section \<open>Composing steps\<close>

lemma steady_refl: "tidy ck \<Longrightarrow> steady env ck ck"
  by (simp add: steady_def)

lemma steady_trans: "steady env a b \<Longrightarrow> steady env b c \<Longrightarrow> steady env a c"
  by (auto simp: steady_def)

lemma step_ready: "step_ok env F T s s' \<Longrightarrow> ready (fst s) (snd s) \<Longrightarrow> ready (fst s') (snd s')"
  by (simp add: step_ok_def state_step_def ready_def steady_def)

lemma ready_sane: "ready st ck \<Longrightarrow> sane st"
  by (simp add: ready_def)

lemma effects_ok_then: "effects_ok F \<Longrightarrow> effects_ok G \<Longrightarrow> effects_ok (effects_then F G)"
  by (simp add: effects_ok_def effects_then_def)

lemma effects_ok_join: "effects_ok F \<Longrightarrow> effects_ok G \<Longrightarrow> effects_ok (effects_join F G)"
  by (simp add: effects_ok_def effects_join_def)

lemma has_effect_then:
  "sane a \<Longrightarrow> effects_ok F \<Longrightarrow> effects_ok G \<Longrightarrow> has_effect F a b \<Longrightarrow> has_effect G b c \<Longrightarrow> has_effect (effects_then F G) a c"
  unfolding effects_then_def by (rule ms.effect_trans) (simp_all add: effects_ok_def)

lemma has_effect_join:
  "sane a \<Longrightarrow> sane b \<Longrightarrow> sane c \<Longrightarrow> effects_ok F \<Longrightarrow> effects_ok G \<Longrightarrow> has_effect F a b \<Longrightarrow> has_effect G a c
   \<Longrightarrow> has_effect (effects_join F G) a (join_two b c)"
  unfolding effects_join_def by (rule ms.effect_merge) (simp_all add: effects_ok_def)

lemma covers_traces_seqs:
  "covers_traces env rt T a b \<Longrightarrow> covers_traces env rt U b c \<Longrightarrow> covers_traces env rt (seqs T U) a c"
  by (fastforce simp: covers_traces_def seqs_def)

lemma state_step_mono: "state_step env rt c F T st st' \<Longrightarrow> (d \<Longrightarrow> c) \<Longrightarrow> state_step env rt d F T st st'"
  by (auto simp: state_step_def)

lemma state_step_then:
  "state_step env rt c F T a b \<Longrightarrow> state_step env rt c G U b d \<Longrightarrow> effects_ok F \<Longrightarrow> effects_ok G \<Longrightarrow> sane a
   \<Longrightarrow> state_step env rt c (effects_then F G) (seqs T U) a d"
  unfolding state_step_def using has_effect_then covers_traces_seqs by metis

lemma step_then:
  assumes "step_ok env F T s s'" "step_ok env G U s' s''" "effects_ok F" "effects_ok G" "sane (fst s)"
  shows "step_ok env (effects_then F G) (seqs T U) s s''"
proof -
  have "clean (snd s')" if "clean (snd s'')" using assms(2) that by (auto simp: step_ok_def steady_def)
  then have "state_step env (ck_root_types (snd s)) (clean (snd s'')) F T (fst s) (fst s')"
    using assms(1) by (auto simp: step_ok_def elim: state_step_mono)
  moreover have "ck_root_types (snd s') = ck_root_types (snd s)" using assms(1) by (simp add: step_ok_def steady_def)
  ultimately show ?thesis
    using assms(1,2) state_step_then [OF _ _ assms(3-5)] steady_trans by (fastforce simp: step_ok_def)
qed

lemma contractI: "effects_ok F \<Longrightarrow> (\<And>s. ready (fst s) (snd s) \<Longrightarrow> step_ok env F T s (f s)) \<Longrightarrow> contract env f T"
  by (auto simp: contract_def)

lemma contract_then:
  assumes "contract env f T" "contract env g U"
  shows "contract env (\<lambda>s. g (f s)) (seqs T U)"
proof -
  obtain F G where F: "effects_ok F" "\<And>s. ready (fst s) (snd s) \<Longrightarrow> step_ok env F T s (f s)"
    and G: "effects_ok G" "\<And>s. ready (fst s) (snd s) \<Longrightarrow> step_ok env G U s (g s)" using assms unfolding contract_def by blast
  show ?thesis
  proof (rule contractI [OF effects_ok_then [OF F(1) G(1)]])
    fix s :: check_state
    assume r: "ready (fst s) (snd s)"
    show "step_ok env (effects_then F G) (seqs T U) s (g (f s))"
      by (rule step_then [OF F(2) [OF r] G(2) [OF step_ready [OF F(2) [OF r] r]] F(1) G(1) ready_sane [OF r]])
  qed
qed

lemma contract_mono: "contract env f T \<Longrightarrow> U \<subseteq> T \<Longrightarrow> contract env f U"
  unfolding contract_def step_ok_def state_step_def covers_traces_def by blast

lemma contract_skip: "contract env (\<lambda>s. s) {[]}"
  by (rule contractI [of "\<lambda>r q. Keep"])
    (auto simp: effects_ok_def step_ok_def state_step_def ready_def steady_refl ms.effect_refl covers_traces_def)

lemma seqs_Nil [simp]: "seqs {[]} T = T" "seqs T {[]} = T"
  by (auto simp: seqs_def)

lemma contract_fold:
  assumes "\<And>x. x \<in> set xs \<Longrightarrow> contract env (f x) (T x)"
  shows "contract env (fold f xs) (seq_all (map T xs))"
  using assms
proof (induction xs)
  case Nil
  show ?case using contract_skip by (simp add: seq_all_def id_def)
next
  case (Cons x xs)
  then have "contract env (\<lambda>s. fold f xs (f x s)) (seqs (T x) (seq_all (map T xs)))"
    by (intro contract_then) simp_all
  then show ?case by (simp add: seq_all_def comp_def)
qed

text \<open>A step that may be skipped, and the join of several outcomes of one state\<close>

lemma same_domain: "state_ok a \<Longrightarrow> state_ok b \<Longrightarrow> map fst a = map fst b \<Longrightarrow> state_at a r q = None \<longleftrightarrow> state_at b r q = None"
  unfolding state_at_def by (simp add: map_of_eq_None_iff) (metis set_map)

lemma join_two_roots:
  assumes "state_ok a" "state_ok b" "map fst a = map fst b"
  shows "map fst (join_two a b) = map fst a"
proof -
  have m: "merge_keys ks ks = ks" for ks :: "ownership_place_root list" by (induction ks) simp_all
  have "\<forall>r\<in>set (map fst a). join_roots a b r \<noteq> None"
    by (auto simp: join_roots_def map_of_eq_None_iff split: option.splits)
  moreover have "map fst (List.map_filter (\<lambda>r. map_option (Pair r) (f r)) ks) = ks" if "\<forall>r\<in>set ks. f r \<noteq> None" for f :: "ownership_place_root \<Rightarrow> state_node option" and ks
    using that by (induction ks) (auto simp: List.map_filter_simps)
  ultimately show ?thesis unfolding join_two_def assms(3) [symmetric] m by blast
qed

lemma covers_join:
  "sane a \<Longrightarrow> sane b \<Longrightarrow> map fst a = map fst b \<Longrightarrow> covers a C \<or> covers b C \<Longrightarrow> covers (join_two a b) C"
  by (rule ms.covers_merge) (simp_all add: same_domain saneD)

lemma state_step_join:
  assumes "state_step env rt c F T st a" "state_step env rt c G U st b" "effects_ok F" "effects_ok G" "sane st"
  shows "state_step env rt c (effects_join F G) (T \<union> U) st (join_two a b)"
proof -
  have s: "sane a" "sane b" "map fst a = map fst b" "map fst a = map fst st"
    using assms(1,2) by (auto simp: state_step_def)
  have "covers_traces env rt (T \<union> U) st (join_two a b)" if c
    using assms(1,2) that covers_join [OF s(1-3)] unfolding state_step_def covers_traces_def by blast
  moreover have "has_effect (effects_join F G) st (join_two a b)" if c
    using assms that by (intro has_effect_join) (auto simp: state_step_def)
  moreover have "map fst (join_two a b) = map fst st"
    using join_two_roots [OF saneD(1) [OF s(1)] saneD(1) [OF s(2)] s(3)] s(4) by simp
  ultimately show ?thesis using s by (simp add: state_step_def sane_join)
qed

lemma state_step_refl: "sane st \<Longrightarrow> state_step env rt c (\<lambda>r q. Keep) {[]} st st"
  by (simp add: state_step_def ms.effect_refl covers_traces_def)

lemma keep_ok [simp]: "effects_ok (\<lambda>r q. Keep)"
  by (simp add: effects_ok_def)

lemma contract_maybe:
  assumes "contract env f T"
  shows "contract env (maybe_skipped f) ({[]} \<union> T)"
proof -
  obtain F where F: "effects_ok F" "\<And>s. ready (fst s) (snd s) \<Longrightarrow> step_ok env F T s (f s)"
    using assms by (auto simp: contract_def)
  show ?thesis
  proof (rule contractI [OF effects_ok_join [OF keep_ok F(1)]])
    fix s :: check_state
    assume r: "ready (fst s) (snd s)"
    obtain st' ck' where f: "f s = (st', ck')" by (cases "f s")
    with F(2) [OF r] have st: "state_step env (ck_root_types (snd s)) (clean ck') F T (fst s) st'" "steady env (snd s) ck'"
      by (simp_all add: step_ok_def)
    have "maybe_skipped f s = (join_two (fst s) st', ck')" by (simp add: maybe_skipped_def f)
    then show "step_ok env (effects_join (\<lambda>r q. Keep) F) ({[]} \<union> T) s (maybe_skipped f s)"
      using st state_step_join [OF state_step_refl st(1) keep_ok F(1)] ready_sane [OF r] by (simp add: step_ok_def)
  qed
qed

section \<open>Accesses\<close>

lemma report_unclean: "tidy ck \<Longrightarrow> \<not> clean (report sp k d ck)"
  by (auto simp: report_def clean_def tidy_def)

lemma report_steady: "tidy ck \<Longrightarrow> steady env ck (report sp k d ck)"
  using report_unclean [of ck sp k d] by (auto simp: steady_def) (auto simp: report_def tidy_def split: if_splits)

lemma stuck_steady: "tidy ck \<Longrightarrow> \<not> sized env \<Longrightarrow> steady env ck (ck\<lparr>ck_stuck := True\<rparr>)"
  by (auto simp: steady_def tidy_def clean_def)

text \<open>An access that is let through reads initialized storage.\<close>

lemma require_available_cases:
  assumes "ready st ck"
  obtains (refused) ck' where "require_available env place ty sp st ck = (False, ck')" "steady env ck ck'" "\<not> clean ck'"
  | (allowed) "require_available env place ty sp st ck = (True, ck)"
      "\<And>C. covers st C \<Longrightarrow> readable env (ck_root_types ck) C place ty"
proof (cases "unavailable_cause env ck place ty st")
  case None
  then obtain node where "map_of st (op_root place) = Some node"
    "cause_below env ty node (map_of (ck_root_types ck) (op_root place)) (op_projections place) = None"
    by (auto simp: unavailable_cause_def split: option.splits)
  then have "\<not> sized env" using cause_below_total by blast
  with None assms show ?thesis
    by (intro refused [of "ck\<lparr>ck_stuck := True\<rparr>"])
      (simp_all add: require_available_def stuck_steady ready_def clean_def)
next
  case (Some c)
  have t: "tidy ck" using assms by (simp add: ready_def)
  show ?thesis
  proof (cases c)
    case None
    have "readable env (ck_root_types ck) C place ty" if cov: "covers st C" for C
      unfolding readable_def
    proof (intro allI impI)
      fix root_ty
      assume rt: "map_of (ck_root_types ck) (op_root place) = Some root_ty"
      then have "op_root place \<in> set (map fst st)"
        using assms unfolding ready_def by (metis map_of_eq_None_iff option.distinct(1) set_map)
      then obtain node where n: "map_of st (op_root place) = Some node"
        by (metis map_of_eq_None_iff not_None_eq set_map)
      with Some None rt have cb: "cause_below env ty node (Some root_ty) (op_projections place) = Some None"
        by (simp add: unavailable_cause_def)
      obtain path t where e: "extent env (Some root_ty) (op_projections place) = (path, t)"
        by (cases "extent env (Some root_ty) (op_projections place)")
      have "node_ok node" using assms n by (auto simp: ready_def sane_def intro: state_ok_root)
      then have "C (op_root place) (path @ ps)" if "leaf env (or_type t ty) ps" for ps
        using cause_below_sound [OF cb _ e that] cov n by (auto simp: covers_by_def state_at_def)
      then show "case extent env (Some root_ty) (op_projections place) of
          (path, t) \<Rightarrow> \<forall>ps. leaf env (or_type t ty) ps \<longrightarrow> C (op_root place) (path @ ps)" by (simp add: e)
    qed
    with Some None show ?thesis by (intro allowed) (simp_all add: require_available_def)
  next
    case (Some cause)
    obtain key m rel where k: "unavailable_message (tr_kind cause) = (key, m, rel)"
      by (cases "unavailable_message (tr_kind cause)")
    let ?ck = "report sp key (with_related (ownership_error sp m) (tr_span cause) rel) ck"
    from Some \<open>unavailable_cause env ck place ty st = Some c\<close> k t show ?thesis
      by (intro refused [of ?ck]) (simp_all add: require_available_def report_steady report_unclean)
  qed
qed

lemma step_okI:
  "sane (fst s') \<Longrightarrow> map fst (fst s') = map fst (fst s) \<Longrightarrow> steady env (snd s) (snd s') \<Longrightarrow>
   (clean (snd s') \<Longrightarrow> has_effect F (fst s) (fst s') \<and> covers_traces env (ck_root_types (snd s)) T (fst s) (fst s'))
   \<Longrightarrow> step_ok env F T s s'"
  by (simp add: step_ok_def state_step_def)

lemma contract_require: "contract env (require_place env place ty sp) {[EvUse place ty]}"
proof (rule contractI [OF keep_ok])
  fix s :: check_state
  assume r: "ready (fst s) (snd s)"
  obtain st ck where s: "s = (st, ck)" by (cases s)
  from r s have "ready st ck" by simp
  then show "step_ok env (\<lambda>r q. Keep) {[EvUse place ty]} s (require_place env place ty sp s)"
  proof (cases rule: require_available_cases [where env = env and place = place and ty = ty and sp = sp])
    case (refused ck')
    with r s show ?thesis by (intro step_okI) (simp_all add: require_place_def ready_def)
  next
    case allowed
    with r s show ?thesis
      by (intro step_okI) (simp_all add: require_place_def ready_def steady_refl ms.effect_refl covers_traces_def)
  qed
qed

lemma state_set_roots: "state_ok st \<Longrightarrow> map fst (state_set st p t) = map fst st"
proof (cases "map_of st (op_root p)")
  case (Some n)
  have "map fst (map_insert k v m) = map fst m" if "k \<in> fst ` set m" "ascending m" for k v and m :: move_state
    using that by (induction k v m rule: map_insert.induct) (auto simp: ascending_Cons)
  moreover assume "state_ok st"
  moreover have "op_root p \<in> fst ` set st" using Some by (metis map_of_eq_None_iff option.distinct(1))
  ultimately show ?thesis using Some by (simp add: state_set_def state_ok_def)
qed (simp add: state_set_def)

lemma transitions_coherent [simp]:
  "coherent (transition_initialized sp)" "coherent (transition_moved sp)" "coherent (transition_uninitialized sp)"
  by (simp_all add: coherent_def transition_initialized_def transition_moved_def transition_uninitialized_def)

lemma set_effect_ok: "coherent t \<Longrightarrow> effects_ok (set_effect p t)"
  by (simp add: effects_ok_def set_effect_def)

lemma contract_set: "contract env (set_place p (transition_initialized sp)) {[EvSet p]}"
proof (rule contractI [OF set_effect_ok])
  fix s :: check_state
  assume r: "ready (fst s) (snd s)"
  obtain st ck where s: "s = (st, ck)" by (cases s)
  have "sane st" using r s by (simp add: ready_def)
  moreover have "put C p True = put C p (tr_available (transition_initialized sp))" for C
    by (simp add: transition_initialized_def)
  ultimately show "step_ok env (set_effect p (transition_initialized sp)) {[EvSet p]} s (set_place p (transition_initialized sp) s)"
    using r s ms.covers_upd [OF \<open>sane st\<close>]
    by (intro step_okI) (simp_all add: set_place_def ready_def sane_set state_set_roots saneD steady_refl ms.effect_upd covers_traces_def)
qed simp

lemma invalid_move_cases:
  assumes "tidy ck"
  obtains (bad) ck' where "invalid_move_projection env place sp ck = (True, ck')" "steady env ck ck'" "\<not> clean ck'"
  | (fine) "invalid_move_projection env place sp ck = (False, ck)"
proof -
  have "(\<exists>ck'. invalid_move_below env sp cur ps ck = (True, ck') \<and> steady env ck ck' \<and> \<not> clean ck')
      \<or> invalid_move_below env sp cur ps ck = (False, ck)" for cur ps
    using assms
  proof (induction env sp cur ps ck rule: invalid_move_below.induct)
    case (2 env sp cur p ps ck)
    then show ?case
      by (cases p) (simp_all add: Let_def report_indexed_move_def report_steady report_unclean split: option.split if_split)
  qed simp
  then show ?thesis using that unfolding invalid_move_projection_def by blast
qed

lemma contract_move: "contract env (move_place env place ty sp) {[EvMove place ty]}"
proof (rule contractI [OF set_effect_ok])
  fix s :: check_state
  assume r: "ready (fst s) (snd s)"
  obtain st ck where s: "s = (st, ck)" by (cases s)
  have rd: "ready st ck" "tidy ck" "sane st" using r s by (simp_all add: ready_def)
  have reported: "step_ok env F T (st, ck) (st, ck')" if "steady env ck ck'" "\<not> clean ck'" for F T ck'
    using rd that s by (intro step_okI) simp_all
  let ?F = "set_effect place (transition_moved sp)"
  show "step_ok env ?F {[EvMove place ty]} s (move_place env place ty sp s)"
  proof (cases "is_capture_root (op_root place)")
    case True
    with rd s show ?thesis by (simp add: move_place_def reported report_steady report_unclean)
  next
    case False
    from rd(2) show ?thesis
    proof (cases rule: invalid_move_cases [where env = env and place = place and sp = sp])
      case (bad ck')
      with False s show ?thesis by (simp add: move_place_def reported)
    next
      case fine
      from rd(1) show ?thesis
      proof (cases rule: require_available_cases [where env = env and place = place and ty = ty and sp = sp])
        case (refused ck')
        with False fine s show ?thesis by (simp add: move_place_def reported)
      next
        case allowed
        have p: "put C place False = put C place (tr_available (transition_moved sp))" for C
          by (simp add: transition_moved_def)
        show ?thesis
        proof (cases "partially_moves_custom_drop env place ck")
          case True
          with False fine allowed rd s show ?thesis by (simp add: move_place_def reported report_steady report_unclean)
        next
          case nodrop: False
          with False fine allowed rd s ms.covers_upd [OF rd(3)] show ?thesis
            by (intro step_okI)
              (simp_all add: move_place_def sane_set state_set_roots saneD steady_refl ms.effect_upd covers_traces_def p)
        qed
      qed
    qed
  qed
qed simp

end
