(* ===== verification/Move_Expressions.thy ===== *)
theory Move_Expressions
  imports Move_Visits
begin

text \<open>Visiting an expression or a pattern covers every evaluation of it.\<close>

section \<open>Expressions\<close>

lemma contract_use: "contract env (apply_use env e u) {use_events e u}"
proof (cases "map_option normalized_place (ou_place u)")
  case None
  then have "apply_use env e u = (\<lambda>s. s)" "use_events e u = []" by (auto simp: apply_use_def use_events_def)
  then show ?thesis using contract_skip by simp
next
  case (Some p)
  show ?thesis
  proof (cases "borrows_place e \<and> (ou_kind u = UseMove \<or> ou_kind u = UseCopy)")
    case True
    with Some have "apply_use env e u = (\<lambda>s. s)" "use_events e u = []" by (auto simp: apply_use_def use_events_def)
    then show ?thesis using contract_skip by simp
  next
    case False
    show ?thesis
    proof (cases "ou_kind u = UseMove")
      case True
      with False Some have "apply_use env e u = move_place env p (te_ty e) (te_span e)" "use_events e u = [EvMove p (te_ty e)]"
        by (auto simp: apply_use_def use_events_def)
      then show ?thesis using contract_move by simp
    next
      case other: False
      with False Some have "apply_use env e u = require_place env p (te_ty e) (te_span e)" "use_events e u = [EvUse p (te_ty e)]"
        by (auto simp: apply_use_def use_events_def)
      then show ?thesis using contract_require by simp
    qed
  qed
qed

lemma seq_all_singletons: "seq_all (map (\<lambda>x. {f x}) xs) = {concat (map f xs)}"
  by (induction xs) (auto simp: seq_all_def seqs_def)

lemma contract_uses: "contract env (apply_uses env e) {concat (map (use_events e) (te_ownership e))}"
proof -
  have "contract env (fold (apply_use env e) (te_ownership e)) (seq_all (map (\<lambda>u. {use_events e u}) (te_ownership e)))"
    by (rule contract_fold) (rule contract_use)
  then show ?thesis by (simp add: seq_all_singletons apply_uses_def [abs_def])
qed

lemma visit_equations:
  "visit_expression env (TypedExpression ty pk cp ow sp kind) True =
     (\<lambda>s. apply_uses env (TypedExpression ty pk cp ow sp kind) (visit_kind env kind s))"
  "visit_expression env (TypedExpression ty pk cp ow sp kind) False = visit_kind env kind"
  "visit_kind env (EConstant c) = (\<lambda>s. s)"
  "visit_kind env (EFunctionReference i) = (\<lambda>s. s)"
  "visit_kind env (ELocal b) = (\<lambda>s. s)"
  "visit_kind env (EClosureCapture n) = (\<lambda>s. s)"
  "visit_kind env (EDefaultValue t) = (\<lambda>s. s)"
  "visit_kind env (EClosure i es) = fold (\<lambda>e. visit_expression env e True) es"
  "visit_kind env (ETuple es) = fold (\<lambda>e. visit_expression env e True) es"
  "visit_kind env (EArray es) = fold (\<lambda>e. visit_expression env e True) es"
  "visit_kind env (EVariadicSlice es) = fold (\<lambda>e. visit_expression env e True) es"
  "visit_kind env (EUnary u e) = visit_expression env e True"
  "visit_kind env (ECast e) = visit_expression env e True"
  "visit_kind env (EDereference e) = visit_expression env e True"
  "visit_kind env (EAddressOfTemporary e) = visit_expression env e True"
  "visit_kind env (EMakeTraitObject e d t c') = visit_expression env e True"
  "visit_kind env (EPropagate e d ov okf ev ef t) = visit_expression env e True"
  "visit_kind env (EBinary bo l r) =
     (if short_circuits bo then (\<lambda>s. maybe_skipped (visit_expression env r True) (visit_expression env l True s))
      else (\<lambda>s. visit_expression env r True (visit_expression env l True s)))"
  "visit_kind env (ECall callee args modes) =
     (\<lambda>s. fold (\<lambda>e. visit_expression env e True) args (visit_callee env callee s))"
  "visit_kind env (EField e f) = visit_expression env e False"
  "visit_kind env (ETupleField e n) = visit_expression env e False"
  "visit_kind env (EIndex e j) = (\<lambda>s. visit_expression env j True (visit_expression env e False s))"
  "visit_kind env (EAddressOf p) = visit_place_inputs env p"
  "visit_kind env (ENumericConversion oc e t) = visit_expression env e True"
  "visit_kind env (ENumericAlternative na e None) = visit_expression env e True"
  "visit_kind env (ENumericAlternative na e (Some j)) = (\<lambda>s. visit_expression env j True (visit_expression env e True s))"
  "visit_kind env (EStandardCall sc es) = fold (\<lambda>e. visit_expression env e True) es"
  "visit_kind env (ECollectionLiteral k es) = fold (\<lambda>e. visit_expression env e True) es"
  "visit_kind env (EStruct d fs) = fold (\<lambda>(f, e). visit_expression env e True) fs"
  "visit_kind env (EEnum d v fs) = fold (\<lambda>(f, e). visit_expression env e True) fs"
  "visit_kind env (EFormattedString ps) = fold (\<lambda>p. visit_part env p) ps"
  "visit_callee env (CalleeFunction i) = (\<lambda>s. s)"
  "visit_callee env (CalleeIndirect e) = visit_expression env e True"
  "visit_callee env (CalleeClosure i e) = visit_expression env e True"
  "visit_callee env (CalleeDynamic d n) = (\<lambda>s. s)"
  "visit_callee env (CalleePrint nl) = (\<lambda>s. s)"
  "visit_part env (PartText str) = (\<lambda>s. s)"
  "visit_part env (PartExpression e) = visit_expression env e True"
  "visit_place_inputs env (PLocal b ty sp) = (\<lambda>s. s)"
  "visit_place_inputs env (PClosureCapture n ty sp) = (\<lambda>s. s)"
  "visit_place_inputs env (PField base f ty sp) = visit_place_inputs env base"
  "visit_place_inputs env (PTupleField base n ty sp) = visit_place_inputs env base"
  "visit_place_inputs env (PIndex base j ty ik sp) = (\<lambda>s. visit_expression env j True (visit_place_inputs env base s))"
  "visit_place_inputs env (PDereference e ty sp) = visit_expression env e True"
  by (rule ext; simp)+

lemma contract_fold_pairs:
  "(\<And>a b. (a, b) \<in> set xs \<Longrightarrow> contract env (f a b) (T a b)) \<Longrightarrow>
   contract env (fold (\<lambda>(a, b). f a b) xs) (seq_all (map (\<lambda>(a, b). T a b) xs))"
  by (rule contract_fold) auto

lemma contract_visits:
  "contract env (visit_expression env e w) (expression_traces e w)"
  "contract env (visit_kind env k) (kind_traces k)"
  "contract env (visit_callee env c) (callee_traces c)"
  "contract env (visit_part env p) (part_traces p)"
  "contract env (visit_place_inputs env pl) (place_traces pl)"
proof (induction e w and k and c and p and pl
    rule: expression_traces_kind_traces_callee_traces_part_traces_place_traces.induct)
  case (1 ty pk cp ow sp kind whole)
  show ?case
  proof (cases whole)
    case True
    have "contract env (\<lambda>s. apply_uses env (TypedExpression ty pk cp ow sp kind) (visit_kind env kind s))
        (seqs (kind_traces kind) {concat (map (use_events (TypedExpression ty pk cp ow sp kind)) ow)})"
      by (rule contract_then [OF _ contract_uses [of env "TypedExpression ty pk cp ow sp kind", simplified]])
        (use 1 True in simp)
    then show ?thesis using True by (simp add: visit_equations del: visit_expression.simps)
  qed (use 1 in \<open>simp add: visit_equations del: visit_expression.simps\<close>)
qed (simp_all add: visit_equations contract_skip contract_fold contract_fold_pairs contract_then contract_maybe [simplified]
    del: visit_expression.simps visit_kind.simps visit_callee.simps visit_part.simps visit_place_inputs.simps)

section \<open>Joining a list of states\<close>

definition join_effects :: "effects list \<Rightarrow> effects" where
  "join_effects Fs = (case Fs of [] \<Rightarrow> \<lambda>r q. Keep | F # Gs \<Rightarrow> foldl effects_join F Gs)"

lemma join_effects_ok: "(\<And>F. F \<in> set Fs \<Longrightarrow> effects_ok F) \<Longrightarrow> effects_ok (join_effects Fs)"
proof -
  have "effects_ok F \<Longrightarrow> (\<And>G. G \<in> set Gs \<Longrightarrow> effects_ok G) \<Longrightarrow> effects_ok (foldl effects_join F Gs)" for F Gs
    by (induction Gs arbitrary: F) (simp_all add: effects_ok_join)
  then show "(\<And>F. F \<in> set Fs \<Longrightarrow> effects_ok F) \<Longrightarrow> effects_ok (join_effects Fs)"
    by (auto simp: join_effects_def split: list.split)
qed

text \<open>Outcomes of one state, each with its effect and the executions it covers\<close>

type_synonym outcome_spec = "effects \<times> traces"

definition outcomes_ok :: "move_env \<Rightarrow> root_types \<Rightarrow> bool \<Rightarrow> move_state \<Rightarrow> outcome_spec list \<Rightarrow> move_state list \<Rightarrow> bool" where
  "outcomes_ok env rt c st specs sts \<longleftrightarrow> list_all2 (\<lambda>(F, T) st'. state_step env rt c F T st st') specs sts"

definition specs_ok :: "outcome_spec list \<Rightarrow> bool" where
  "specs_ok specs \<longleftrightarrow> (\<forall>(F, T)\<in>set specs. effects_ok F)"

lemma outcomes_mono: "outcomes_ok env rt c st specs sts \<Longrightarrow> (d \<Longrightarrow> c) \<Longrightarrow> outcomes_ok env rt d st specs sts"
  unfolding outcomes_ok_def by (erule list_all2_mono) (auto elim: state_step_mono)

lemma outcomes_append:
  "outcomes_ok env rt c st specs sts \<Longrightarrow> outcomes_ok env rt c st specs' sts' \<Longrightarrow> outcomes_ok env rt c st (specs @ specs') (sts @ sts')"
  by (simp add: outcomes_ok_def list_all2_appendI)

lemma specs_ok_append [simp]: "specs_ok (a @ b) \<longleftrightarrow> specs_ok a \<and> specs_ok b"
  by (auto simp: specs_ok_def)

lemma fold_join_step:
  "state_step env rt c F T st a \<Longrightarrow> effects_ok F \<Longrightarrow> outcomes_ok env rt c st specs sts \<Longrightarrow> specs_ok specs \<Longrightarrow> sane st \<Longrightarrow>
   state_step env rt c (foldl effects_join F (map fst specs)) (T \<union> \<Union> (snd ` set specs)) st (foldl join_two a sts)"
proof (induction specs arbitrary: F T a sts)
  case Nil
  then show ?case by (simp add: outcomes_ok_def)
next
  case (Cons spec specs)
  obtain G U where spec: "spec = (G, U)" by (cases spec)
  from Cons.prems(3) obtain b bs where sts: "sts = b # bs" "state_step env rt c G U st b" "outcomes_ok env rt c st specs bs"
    by (auto simp: outcomes_ok_def spec list_all2_Cons1)
  have G: "effects_ok G" "specs_ok specs" using Cons.prems(4) by (auto simp: specs_ok_def spec)
  have "state_step env rt c (effects_join F G) (T \<union> U) st (join_two a b)"
    by (rule state_step_join [OF Cons.prems(1) sts(2) Cons.prems(2) G(1) Cons.prems(5)])
  from Cons.IH [OF this effects_ok_join [OF Cons.prems(2) G(1)] sts(3) G(2) Cons.prems(5)]
  show ?case by (simp add: spec sts(1) Un_assoc)
qed

lemma join_states_step:
  assumes "outcomes_ok env rt c st specs sts" "specs_ok specs" "sane st" "specs \<noteq> []"
  shows "\<exists>j. join_states sts = Some j \<and> state_step env rt c (join_effects (map fst specs)) (\<Union> (snd ` set specs)) st j"
proof -
  obtain F T rest where s: "specs = (F, T) # rest" using assms(4) by (cases specs) auto
  from assms(1) obtain a as where a: "sts = a # as" "state_step env rt c F T st a" "outcomes_ok env rt c st rest as"
    by (auto simp: outcomes_ok_def s list_all2_Cons1)
  have "effects_ok F" "specs_ok rest" using assms(2) by (auto simp: specs_ok_def s)
  from fold_join_step [OF a(2) this(1) a(3) this(2) assms(3)] show ?thesis by (simp add: a(1) s join_effects_def)
qed

lemma each_from_outcomes:
  assumes "\<And>x. x \<in> set xs \<Longrightarrow> effects_ok (F x) \<and> (\<forall>s. ready (fst s) (snd s) \<longrightarrow> step_ok env (F x) (T x) s (f x s))"
    and "ready st ck" "each_from f xs st ck = (sts, ck')"
  shows "steady env ck ck' \<and> outcomes_ok env (ck_root_types ck) (clean ck') st (map (\<lambda>x. (F x, T x)) xs) sts"
  using assms
proof (induction xs arbitrary: ck sts)
  case Nil
  then show ?case by (simp add: outcomes_ok_def ready_def steady_refl)
next
  case (Cons x xs)
  obtain a ck1 where a: "f x (st, ck) = (a, ck1)" by (cases "f x (st, ck)")
  obtain as where as: "each_from f xs st ck1 = (as, ck')" "sts = a # as"
    using Cons.prems(3) a by (auto split: prod.splits)
  have "step_ok env (F x) (T x) (st, ck) (a, ck1)" using Cons.prems(1) [of x] Cons.prems(2) a by force
  then have s: "state_step env (ck_root_types ck) (clean ck1) (F x) (T x) st a" "steady env ck ck1" by (simp_all add: step_ok_def)
  have "ready st ck1" using Cons.prems(2) s(2) by (simp add: ready_def steady_def)
  from Cons.IH [OF Cons.prems(1) this as(1)]
  have IH: "steady env ck1 ck'" "outcomes_ok env (ck_root_types ck) (clean ck') st (map (\<lambda>x. (F x, T x)) xs) as"
    using s(2) by (simp_all add: steady_def)
  have "clean ck1" if "clean ck'" using IH(1) that by (auto simp: steady_def)
  with s(1) have "state_step env (ck_root_types ck) (clean ck') (F x) (T x) st a" by (rule state_step_mono)
  with IH s(2) as(2) show ?case by (auto simp: outcomes_ok_def intro: steady_trans)
qed

lemma contract_each:
  assumes "\<And>x. x \<in> set xs \<Longrightarrow> contract env (f x) (T x)"
  shows "contract env (\<lambda>s. case each_from f xs (fst s) (snd s) of
      (states, ck) \<Rightarrow> (case join_states states of Some joined \<Rightarrow> (joined, ck) | None \<Rightarrow> (fst s, ck))) (\<Union>x\<in>set xs. T x)"
proof (cases "xs = []")
  case True
  show ?thesis by (rule contract_mono [where T = "{[]}"]) (simp_all add: True contract_skip)
next
  case False
  from assms have "\<forall>x\<in>set xs. \<exists>F. effects_ok F \<and> (\<forall>s. ready (fst s) (snd s) \<longrightarrow> step_ok env F (T x) s (f x s))"
    by (auto simp: contract_def)
  then obtain F where F: "\<And>x. x \<in> set xs \<Longrightarrow> effects_ok (F x) \<and> (\<forall>s. ready (fst s) (snd s) \<longrightarrow> step_ok env (F x) (T x) s (f x s))"
    by metis
  let ?specs = "map (\<lambda>x. (F x, T x)) xs"
  have sp: "specs_ok ?specs" using F by (auto simp: specs_ok_def)
  show ?thesis
  proof (rule contractI)
    show "effects_ok (join_effects (map fst ?specs))" using F by (intro join_effects_ok) auto
    fix s :: check_state
    assume r: "ready (fst s) (snd s)"
    obtain sts ck' where e: "each_from f xs (fst s) (snd s) = (sts, ck')" by (cases "each_from f xs (fst s) (snd s)")
    from each_from_outcomes [OF F r e] have o: "steady env (snd s) ck'"
      "outcomes_ok env (ck_root_types (snd s)) (clean ck') (fst s) ?specs sts" by blast+
    obtain j where "join_states sts = Some j"
      "state_step env (ck_root_types (snd s)) (clean ck') (join_effects (map fst ?specs)) (\<Union> (snd ` set ?specs)) (fst s) j"
      using join_states_step [OF o(2) sp ready_sane [OF r]] False by auto
    then show "step_ok env (join_effects (map fst ?specs)) (\<Union>x\<in>set xs. T x) s (case each_from f xs (fst s) (snd s) of
      (states, ck) \<Rightarrow> (case join_states states of Some joined \<Rightarrow> (joined, ck) | None \<Rightarrow> (fst s, ck)))"
      using o(1) by (simp add: e step_ok_def image_image)
  qed
qed

end
