(* ===== verification/Move_Patterns.thy ===== *)
theory Move_Patterns
  imports Move_Expressions
begin

text \<open>
  Patterns keep the contract. The alternatives of a pattern bind the same locals, which the pattern
  checker demands before lowering.
\<close>

function pattern_locals :: "typed_pattern \<Rightarrow> (local_binding_id \<times> span) list" where
  "pattern_locals (TypedPattern ty sp PatWildcard) = []"
| "pattern_locals (TypedPattern ty sp (PatBinding b)) = [(b, sp)]"
| "pattern_locals (TypedPattern ty sp (PatLiteral c)) = []"
| "pattern_locals (TypedPattern ty sp (PatAlternative ps)) = concat (map (\<lambda>p. pattern_locals p) ps)"
| "pattern_locals (TypedPattern ty sp (PatDereference p)) = pattern_locals p"
| "pattern_locals (TypedPattern ty sp (PatTuple ps)) = concat (map (\<lambda>p. pattern_locals p) ps)"
| "pattern_locals (TypedPattern ty sp (PatStruct d fs)) = concat (map (\<lambda>(f, p). pattern_locals p) fs)"
| "pattern_locals (TypedPattern ty sp (PatVariant v fs)) = concat (map (\<lambda>(f, p). pattern_locals p) fs)"
  by pat_completeness auto
termination
  by (relation "measure size") (auto intro: size_member [where n = 1, simplified] less_SucI size_field_member)

abbreviation bound_names :: "typed_pattern \<Rightarrow> local_binding_id set" where
  "bound_names p \<equiv> fst ` set (pattern_locals p)"

function alternatives_agree :: "typed_pattern \<Rightarrow> bool" where
  "alternatives_agree (TypedPattern ty sp PatWildcard) = True"
| "alternatives_agree (TypedPattern ty sp (PatBinding b)) = True"
| "alternatives_agree (TypedPattern ty sp (PatLiteral c)) = True"
| "alternatives_agree (TypedPattern ty sp (PatAlternative ps)) =
     ((\<forall>p\<in>set ps. alternatives_agree p) \<and> (\<forall>p\<in>set ps. \<forall>q\<in>set ps. bound_names p = bound_names q))"
| "alternatives_agree (TypedPattern ty sp (PatDereference p)) = alternatives_agree p"
| "alternatives_agree (TypedPattern ty sp (PatTuple ps)) = (\<forall>p\<in>set ps. alternatives_agree p)"
| "alternatives_agree (TypedPattern ty sp (PatStruct d fs)) = (\<forall>(f, p)\<in>set fs. alternatives_agree p)"
| "alternatives_agree (TypedPattern ty sp (PatVariant v fs)) = (\<forall>(f, p)\<in>set fs. alternatives_agree p)"
  by pat_completeness auto
termination
  by (relation "measure size") (auto intro: size_member [where n = 1, simplified] less_SucI size_field_member)

section \<open>Binding locals\<close>

definition sets_of :: "local_binding_id list \<Rightarrow> event list" where
  "sets_of bs = map (\<lambda>b. EvSet (place_root (RootLocal b))) bs"

lemma after_sets_of: "after_events C (sets_of bs) r q \<longleftrightarrow> r \<in> RootLocal ` set bs \<or> C r q"
  by (induction bs arbitrary: C) (auto simp: sets_of_def put_def place_root_def)

lemma safe_sets_of: "safe env rt C (sets_of bs)"
  by (induction bs arbitrary: C) (simp_all add: sets_of_def)

lemma sets_of_append: "sets_of (a @ b) = sets_of a @ sets_of b"
  by (simp add: sets_of_def)

text \<open>Every trace of the bindings sets the locals of the pattern.\<close>

lemma seq_all_Cons: "seq_all (A # As) = seqs A (seq_all As)"
  by (simp add: seq_all_def)

lemma seq_all_Nil: "seq_all [] = {[]}"
  by (simp add: seq_all_def)

lemma seq_all_sets:
  assumes "\<And>x t. x \<in> set xs \<Longrightarrow> t \<in> T x \<Longrightarrow> \<exists>bs. t = sets_of bs \<and> set bs = N x" "t \<in> seq_all (map T xs)"
  shows "\<exists>bs. t = sets_of bs \<and> set bs = (\<Union>x\<in>set xs. N x)"
  using assms
proof (induction xs arbitrary: t)
  case Nil
  then show ?case by (intro exI [of _ "[]"]) (simp add: seq_all_Nil sets_of_def)
next
  case (Cons x xs)
  then obtain a b where t: "t = a @ b" "a \<in> T x" "b \<in> seq_all (map T xs)" by (auto simp: seq_all_Cons seqs_def)
  obtain as where as: "a = sets_of as" "set as = N x" using Cons.prems(1) [of x a] t(2) by auto
  obtain bs where bs: "b = sets_of bs" "set bs = (\<Union>x\<in>set xs. N x)" using Cons.IH [OF _ t(3)] Cons.prems(1) by auto
  show ?case by (intro exI [of _ "as @ bs"]) (simp add: t(1) as bs sets_of_append)
qed

lemma bound_names_simps:
  "bound_names (TypedPattern ty sp (PatAlternative ps)) = (\<Union>p\<in>set ps. bound_names p)"
  "bound_names (TypedPattern ty sp (PatTuple ps)) = (\<Union>p\<in>set ps. bound_names p)"
  "bound_names (TypedPattern ty sp (PatStruct d fs)) = (\<Union>x\<in>set fs. bound_names (snd x))"
  "bound_names (TypedPattern ty sp (PatVariant v fs)) = (\<Union>x\<in>set fs. bound_names (snd x))"
  by (simp_all add: image_UN split_def)

lemma binding_traces_sets:
  "alternatives_agree p \<Longrightarrow> t \<in> binding_traces p \<Longrightarrow> \<exists>bs. t = sets_of bs \<and> set bs = bound_names p"
proof (induction p arbitrary: t rule: binding_traces.induct)
  case (1 ty sp)
  then show ?case by (intro exI [of _ "[]"]) (simp add: sets_of_def)
next
  case (2 ty sp b)
  then show ?case by (intro exI [of _ "[b]"]) (simp add: sets_of_def)
next
  case (3 ty sp c)
  then show ?case by (intro exI [of _ "[]"]) (simp add: sets_of_def)
next
  case (4 ty sp ps)
  from 4(3) obtain p where p: "p \<in> set ps" "t \<in> binding_traces p" by auto
  have "alternatives_agree p" using 4(2) [unfolded alternatives_agree.simps] p(1) by blast
  from 4(1) [OF p(1) this p(2)] obtain bs where bs: "t = sets_of bs" "set bs = bound_names p" by blast
  have "\<forall>q\<in>set ps. bound_names q = bound_names p" using 4(2) [unfolded alternatives_agree.simps] p(1) by blast
  then have "(\<Union>q\<in>set ps. bound_names q) = (\<Union>q\<in>set ps. bound_names p)" by (intro SUP_cong refl) blast
  also have "\<dots> = bound_names p" unfolding UN_constant using p(1) by (cases "set ps = {}") simp_all
  finally have "set bs = bound_names (TypedPattern ty sp (PatAlternative ps))" unfolding bound_names_simps bs(2) by (rule sym)
  with bs(1) show ?case by (intro exI conjI)
next
  case (5 ty sp p)
  from 5(1) [OF 5(2) [unfolded alternatives_agree.simps] 5(3) [unfolded binding_traces.simps]]
  show ?case unfolding pattern_locals.simps .
next
  case (6 ty sp ps)
  have "\<exists>bs. t = sets_of bs \<and> set bs = (\<Union>p\<in>set ps. bound_names p)"
  proof (rule seq_all_sets [where T = binding_traces])
    fix p u assume p: "p \<in> set ps" "u \<in> binding_traces p"
    then have "alternatives_agree p" using 6(2) by simp
    from 6(1) [OF p(1) this p(2)] show "\<exists>bs. u = sets_of bs \<and> set bs = bound_names p" .
  qed (use 6(3) in simp)
  then show ?case unfolding bound_names_simps .
next
  case (7 ty sp d fs)
  have "\<exists>bs. t = sets_of bs \<and> set bs = (\<Union>x\<in>set fs. bound_names (snd x))"
  proof (rule seq_all_sets [where T = "\<lambda>(f, p). binding_traces p"])
    fix x u assume x: "x \<in> set fs" "u \<in> (case x of (f, p) \<Rightarrow> binding_traces p)"
    obtain f p where fp: "x = (f, p)" by (cases x)
    then have "alternatives_agree p" using 7(2) x(1) by auto
    from 7(1) [OF x(1) fp [symmetric] this] x(2) show "\<exists>bs. u = sets_of bs \<and> set bs = bound_names (snd x)" by (simp add: fp)
  qed (use 7(3) in simp)
  then show ?case unfolding bound_names_simps .
next
  case (8 ty sp v fs)
  have "\<exists>bs. t = sets_of bs \<and> set bs = (\<Union>x\<in>set fs. bound_names (snd x))"
  proof (rule seq_all_sets [where T = "\<lambda>(f, p). binding_traces p"])
    fix x u assume x: "x \<in> set fs" "u \<in> (case x of (f, p) \<Rightarrow> binding_traces p)"
    obtain f p where fp: "x = (f, p)" by (cases x)
    then have "alternatives_agree p" using 8(2) x(1) by auto
    from 8(1) [OF x(1) fp [symmetric] this] x(2) show "\<exists>bs. u = sets_of bs \<and> set bs = bound_names (snd x)" by (simp add: fp)
  qed (use 8(3) in simp)
  then show ?case unfolding bound_names_simps .
qed

lemma contract_locals:
  "contract env (fold (\<lambda>(b, sp). initialize_local b sp) ls) {sets_of (map fst ls)}"
proof -
  have "contract env (fold (\<lambda>(b, sp). initialize_local b sp) ls)
      (seq_all (map (\<lambda>x. {[EvSet (place_root (RootLocal (fst x)))]}) ls))"
    by (rule contract_fold) (auto simp: initialize_local_def contract_set)
  then show ?thesis by (simp add: seq_all_singletons sets_of_def concat_map_singleton comp_def)
qed

lemma fold_concat_map: "fold f (concat (map g xs)) s = fold (\<lambda>x. fold f (g x)) xs s"
  by (induction xs arbitrary: s) simp_all

lemma initialize_bindings_locals:
  "initialize_pattern_bindings p s = fold (\<lambda>(b, sp). initialize_local b sp) (pattern_locals p) s"
proof (induction p s rule: initialize_pattern_bindings.induct)
  case (4 ty sp ps s)
  then show ?case by (simp add: fold_concat_map) (rule fold_cong, auto)
next
  case (6 ty sp ps s)
  then show ?case by (simp add: fold_concat_map) (rule fold_cong, auto)
next
  case (7 ty sp d fs s)
  then show ?case by (simp add: fold_concat_map) (rule fold_cong, auto simp: fun_eq_iff)
next
  case (8 ty sp v fs s)
  then show ?case by (simp add: fold_concat_map) (rule fold_cong, auto simp: fun_eq_iff)
qed simp_all

lemma contract_equiv:
  assumes "contract env f T"
    "\<And>u. u \<in> U \<Longrightarrow> \<exists>t\<in>T. \<forall>rt C. (safe env rt C t \<longrightarrow> safe env rt C u) \<and> after_events C u = after_events C t"
  shows "contract env f U"
proof -
  have "covers_traces env rt U st st'" if "covers_traces env rt T st st'" for rt st st'
    using that assms(2) unfolding covers_traces_def by metis
  with assms(1) show ?thesis unfolding contract_def step_ok_def state_step_def by blast
qed

lemma contract_bindings:
  assumes "alternatives_agree p"
  shows "contract env (initialize_pattern_bindings p) (binding_traces p)"
proof -
  have "initialize_pattern_bindings p = fold (\<lambda>(b, sp). initialize_local b sp) (pattern_locals p)"
    using initialize_bindings_locals by blast
  then have "contract env (initialize_pattern_bindings p) {sets_of (map fst (pattern_locals p))}"
    using contract_locals by simp
  then show ?thesis
  proof (rule contract_equiv)
    fix u
    assume "u \<in> binding_traces p"
    then obtain bs where u: "u = sets_of bs" "set bs = bound_names p" using binding_traces_sets [OF assms] by blast
    have "after_events C u = after_events C (sets_of (map fst (pattern_locals p)))" for C
      by (intro ext) (simp add: u after_sets_of)
    then show "\<exists>t\<in>{sets_of (map fst (pattern_locals p))}. \<forall>rt C. (safe env rt C t \<longrightarrow> safe env rt C u)
        \<and> after_events C u = after_events C t" by (simp add: u(1) safe_sets_of)
  qed
qed

section \<open>Matching\<close>

lemma contract_consume: "contract env (consume_pattern_source env source ty sp) {consume_events env source ty}"
proof (cases source)
  case None
  then have "consume_pattern_source env source ty sp = (\<lambda>s. s)" "consume_events env source ty = []"
    by (auto simp: consume_pattern_source_def consume_events_def)
  then show ?thesis using contract_skip by simp
next
  case (Some p)
  then have "consume_pattern_source env source ty sp =
      (if me_copy env ty then require_place env p ty sp else move_place env p ty sp)"
    "consume_events env source ty = (if me_copy env ty then [EvUse p ty] else [EvMove p ty])"
    by (auto simp: consume_pattern_source_def consume_events_def)
  then show ?thesis using contract_require contract_move by simp
qed

text \<open>A step that may also leave the value where it is: the state it makes holds no more.\<close>

lemma consume_holds_less: "holds_more (after_events C (consume_events env source ty)) C"
  by (auto simp: consume_events_def holds_more_def put_def split: option.split)

lemma contract_consume_or_keep:
  "contract env (consume_pattern_source env source ty sp) {[], consume_events env source ty}"
proof -
  have "covers_traces env rt {[], consume_events env source ty} st st'"
    if "covers_traces env rt {consume_events env source ty} st st'" for rt st st'
    using that ms.covers_mono [OF _ consume_holds_less] by (auto simp: covers_traces_def)
  then show ?thesis using contract_consume [of env source ty sp] unfolding contract_def step_ok_def state_step_def by blast
qed

lemma pattern_equations:
  "apply_pattern env (TypedPattern ty sp PatWildcard) source = consume_pattern_source env source ty sp"
  "apply_pattern env (TypedPattern ty sp (PatBinding b)) source =
     (\<lambda>s. initialize_local b sp (consume_pattern_source env source ty sp s))"
  "apply_pattern env (TypedPattern ty sp (PatLiteral c)) source = (\<lambda>s. s)"
  "apply_pattern env (TypedPattern ty sp (PatAlternative ps)) source =
     (\<lambda>s. case each_from (\<lambda>p. apply_pattern env p source) ps (fst s) (snd s) of
        (states, ck) \<Rightarrow> (case join_states states of Some joined \<Rightarrow> (joined, ck) | None \<Rightarrow> (fst s, ck)))"
  "apply_pattern env (TypedPattern ty sp (PatDereference p)) source = apply_pattern env p (place_project source ProjDereference)"
  "apply_pattern env (TypedPattern ty sp (PatTuple ps)) source =
     fold (\<lambda>(i, p). apply_pattern env p (place_project source (ProjTupleField i))) (enumerate 0 ps)"
  "apply_pattern env (TypedPattern ty sp (PatStruct d fs)) source =
     fold (\<lambda>(f, p). apply_pattern env p (place_project source (ProjField f))) fs"
  "apply_pattern env (TypedPattern ty sp (PatVariant v fs)) source =
     (\<lambda>s. fold (\<lambda>(f, p). initialize_pattern_bindings p) fs
       (if \<exists>(f, p)\<in>set fs. pattern_consumes_non_copy env p then consume_pattern_source env source ty sp s else s))"
  by (rule ext; simp)+

lemma contract_pattern:
  "alternatives_agree p \<Longrightarrow> contract env (apply_pattern env p source) (pattern_traces env p source)"
proof (induction env p source rule: pattern_traces.induct)
  case (1 env ty sp source)
  show ?case by (simp add: pattern_equations contract_consume_or_keep)
next
  case (2 env ty sp b source)
  have "contract env (\<lambda>s. initialize_local b sp (consume_pattern_source env source ty sp s))
      (seqs {consume_events env source ty} {[EvSet (place_root (RootLocal b))]})"
    unfolding initialize_local_def by (rule contract_then [OF contract_consume contract_set])
  then show ?case by (simp add: pattern_equations seqs_def)
next
  case (4 env ty sp ps source)
  have "contract env (\<lambda>s. case each_from (\<lambda>p. apply_pattern env p source) ps (fst s) (snd s) of
      (states, ck) \<Rightarrow> (case join_states states of Some joined \<Rightarrow> (joined, ck) | None \<Rightarrow> (fst s, ck)))
      (\<Union>p\<in>set ps. pattern_traces env p source)"
    by (rule contract_each) (use 4(1) 4(2) [unfolded alternatives_agree.simps] in blast)
  then show ?case by (simp add: pattern_equations)
next
  case (6 env ty sp ps source)
  have "contract env (fold (\<lambda>(i, p). apply_pattern env p (place_project source (ProjTupleField i))) (enumerate 0 ps))
      (seq_all (map (\<lambda>(i, p). pattern_traces env p (place_project source (ProjTupleField i))) (enumerate 0 ps)))"
  proof (rule contract_fold_pairs)
    fix i p assume ip: "(i, p) \<in> set (enumerate 0 ps)"
    then have "alternatives_agree p" using 6(2) enumerate_member by fastforce
    from 6(1) [OF ip refl this] show "contract env (apply_pattern env p (place_project source (ProjTupleField i)))
        (pattern_traces env p (place_project source (ProjTupleField i)))" .
  qed
  then show ?case by (simp add: pattern_equations)
next
  case (7 env ty sp d fs source)
  have "contract env (fold (\<lambda>(f, p). apply_pattern env p (place_project source (ProjField f))) fs)
      (seq_all (map (\<lambda>(f, p). pattern_traces env p (place_project source (ProjField f))) fs))"
    by (rule contract_fold_pairs) (use 7 in auto)
  then show ?case by (simp add: pattern_equations)
next
  case (8 env ty sp v fs source)
  have b: "contract env (fold (\<lambda>(f, p). initialize_pattern_bindings p) fs) (seq_all (map (\<lambda>(f, p). binding_traces p) fs))"
    by (rule contract_fold_pairs) (use 8 in \<open>auto intro: contract_bindings\<close>)
  show ?case
  proof (cases "\<exists>(f, p)\<in>set fs. pattern_consumes_non_copy env p")
    case True
    from contract_then [OF contract_consume b, of source ty sp] True show ?thesis by (simp add: pattern_equations)
  next
    case False
    with b show ?thesis by (simp add: pattern_equations)
  qed
qed (simp_all add: pattern_equations contract_skip)

lemma contract_optional: "contract env (visit_optional env e) (optional_traces e)"
proof (cases e)
  case None
  then have "visit_optional env e = (\<lambda>s. s)" by (auto simp: visit_optional_def)
  then show ?thesis using contract_skip by (simp add: optional_traces_def None)
next
  case (Some v)
  then have "visit_optional env e = visit_expression env v True" by (auto simp: visit_optional_def)
  then show ?thesis using contract_visits(1) by (simp add: optional_traces_def Some)
qed

end
