(* ===== verification/Move_Flow.thy ===== *)
theory Move_Flow
  imports Move_Patterns
begin

text \<open>
  The contract of a statement: each way out of it has a state that covers the executions leaving that
  way. The shape of a flow, which ways out there are, does not depend on the state.
\<close>

section \<open>The contract of a flow\<close>

definition flow_ok ::
  "move_env \<Rightarrow> root_types \<Rightarrow> bool \<Rightarrow> outcome_spec option \<Rightarrow> outcome_spec list \<Rightarrow> outcome_spec list \<Rightarrow> traces \<Rightarrow>
   move_state \<Rightarrow> flow \<Rightarrow> bool" where
  "flow_ok env rt c n bs cs L st fl \<longleftrightarrow>
     rel_option (\<lambda>(F, T) st'. state_step env rt c F T st st') n (fl_normal fl)
     \<and> outcomes_ok env rt c st bs (fl_breaks fl) \<and> outcomes_ok env rt c st cs (fl_continues fl)
     \<and> (\<forall>d. fl_dead fl = Some d \<longrightarrow> sane d \<and> map fst d = map fst st)
     \<and> (c \<longrightarrow> (\<forall>C t. covers st C \<longrightarrow> t \<in> L \<longrightarrow> safe env rt C t))"

text \<open>The executions covered for each way out\<close>

fun ways :: "outcome_spec option \<Rightarrow> outcome_spec list \<Rightarrow> outcome_spec list \<Rightarrow> traces \<Rightarrow> ending \<Rightarrow> traces" where
  "ways n bs cs L EndNormal = \<Union> (snd ` set (option_list n))"
| "ways n bs cs L EndBreak = \<Union> (snd ` set bs)"
| "ways n bs cs L EndContinue = \<Union> (snd ` set cs)"
| "ways n bs cs L EndLeave = L"

definition runs_fit :: "outcome_spec option \<Rightarrow> outcome_spec list \<Rightarrow> outcome_spec list \<Rightarrow> traces \<Rightarrow> runs \<Rightarrow> bool" where
  "runs_fit n bs cs L R \<longleftrightarrow> (\<forall>t e. (t, e) \<in> R \<longrightarrow> t \<in> ways n bs cs L e)"

definition shape_ok :: "outcome_spec option \<Rightarrow> outcome_spec list \<Rightarrow> outcome_spec list \<Rightarrow> bool" where
  "shape_ok n bs cs \<longleftrightarrow> specs_ok (option_list n) \<and> specs_ok bs \<and> specs_ok cs"

type_synonym flow_step = "move_state \<Rightarrow> checker \<Rightarrow> flow \<times> checker"

definition keeps :: "move_env \<Rightarrow> outcome_spec option \<Rightarrow> outcome_spec list \<Rightarrow> outcome_spec list \<Rightarrow> traces \<Rightarrow> flow_step \<Rightarrow> bool" where
  "keeps env n bs cs L B \<longleftrightarrow>
     (\<forall>st ck. ready st ck \<longrightarrow> (case B st ck of (fl, ck') \<Rightarrow>
        steady env ck ck' \<and> flow_ok env (ck_root_types ck) (clean ck') n bs cs L st fl))"

definition flow_contract :: "move_env \<Rightarrow> flow_step \<Rightarrow> runs \<Rightarrow> bool" where
  "flow_contract env B R \<longleftrightarrow> (\<exists>n bs cs L. shape_ok n bs cs \<and> runs_fit n bs cs L R \<and> keeps env n bs cs L B)"

lemma keepsD:
  "keeps env n bs cs L B \<Longrightarrow> ready st ck \<Longrightarrow> B st ck = (fl, ck') \<Longrightarrow>
   steady env ck ck' \<and> flow_ok env (ck_root_types ck) (clean ck') n bs cs L st fl"
  by (fastforce simp: keeps_def)

lemma keepsI:
  "(\<And>st ck fl ck'. ready st ck \<Longrightarrow> B st ck = (fl, ck') \<Longrightarrow>
      steady env ck ck' \<and> flow_ok env (ck_root_types ck) (clean ck') n bs cs L st fl) \<Longrightarrow> keeps env n bs cs L B"
  by (auto simp: keeps_def)

lemma flow_mono: "flow_contract env B R \<Longrightarrow> S \<subseteq> R \<Longrightarrow> flow_contract env B S"
  unfolding flow_contract_def runs_fit_def by (meson subsetD)

lemma option_list_simps [simp]: "option_list None = []" "option_list (Some x) = [x]"
  by (simp_all add: option_list_def)

lemma specs_ok_simps [simp]: "specs_ok []" "specs_ok (x # xs) \<longleftrightarrow> effects_ok (fst x) \<and> specs_ok xs"
  by (auto simp: specs_ok_def)

lemma flow_sel [simp]:
  "fl_normal (flow_normal st) = Some st" "fl_breaks (flow_normal st) = []" "fl_continues (flow_normal st) = []"
  "fl_dead (flow_normal st) = None" "fl_normal flow_default = None" "fl_breaks flow_default = []"
  "fl_continues flow_default = []" "fl_dead flow_default = None"
  by (simp_all add: flow_normal_def flow_default_def)

lemma outcomes_Nil [simp]: "outcomes_ok env rt c st [] sts \<longleftrightarrow> sts = []"
  by (simp add: outcomes_ok_def)

lemma flow_pass: "flow_contract env (\<lambda>st ck. (flow_normal st, ck)) (normally {[]})"
  unfolding flow_contract_def
proof (intro exI conjI)
  show "shape_ok (Some (\<lambda>r q. Keep, {[]})) [] []" by (simp add: shape_ok_def)
  show "runs_fit (Some (\<lambda>r q. Keep, {[]})) [] [] {} (normally {[]})" by (auto simp: runs_fit_def normally_def)
  show "keeps env (Some (\<lambda>r q. Keep, {[]})) [] [] {} (\<lambda>st ck. (flow_normal st, ck))"
    by (auto simp: keeps_def flow_ok_def ready_def steady_refl state_step_refl)
qed

lemma flow_leave: "flow_contract env (\<lambda>st ck. (flow_default\<lparr>fl_dead := Some st\<rparr>, ck)) {([], EndLeave)}"
  unfolding flow_contract_def
proof (intro exI conjI)
  show "shape_ok None [] []" by (simp add: shape_ok_def)
  show "runs_fit None [] [] {[]} {([], EndLeave)}" by (auto simp: runs_fit_def)
  show "keeps env None [] [] {[]} (\<lambda>st ck. (flow_default\<lparr>fl_dead := Some st\<rparr>, ck))"
    by (auto simp: keeps_def flow_ok_def ready_def steady_refl)
qed

lemma flow_break: "flow_contract env (\<lambda>st ck. (flow_default\<lparr>fl_dead := Some st, fl_breaks := [st]\<rparr>, ck)) {([], EndBreak)}"
  unfolding flow_contract_def
proof (intro exI conjI)
  show "shape_ok None [(\<lambda>r q. Keep, {[]})] []" by (simp add: shape_ok_def)
  show "runs_fit None [(\<lambda>r q. Keep, {[]})] [] {} {([], EndBreak)}" by (auto simp: runs_fit_def)
  show "keeps env None [(\<lambda>r q. Keep, {[]})] [] {} (\<lambda>st ck. (flow_default\<lparr>fl_dead := Some st, fl_breaks := [st]\<rparr>, ck))"
    by (auto simp: keeps_def flow_ok_def ready_def steady_refl state_step_refl outcomes_ok_def)
qed

lemma flow_continue: "flow_contract env (\<lambda>st ck. (flow_default\<lparr>fl_dead := Some st, fl_continues := [st]\<rparr>, ck)) {([], EndContinue)}"
  unfolding flow_contract_def
proof (intro exI conjI)
  show "shape_ok None [] [(\<lambda>r q. Keep, {[]})]" by (simp add: shape_ok_def)
  show "runs_fit None [] [(\<lambda>r q. Keep, {[]})] {} {([], EndContinue)}" by (auto simp: runs_fit_def)
  show "keeps env None [] [(\<lambda>r q. Keep, {[]})] {} (\<lambda>st ck. (flow_default\<lparr>fl_dead := Some st, fl_continues := [st]\<rparr>, ck))"
    by (auto simp: keeps_def flow_ok_def ready_def steady_refl state_step_refl outcomes_ok_def)
qed

section \<open>Sequences\<close>

definition shift :: "outcome_spec \<Rightarrow> outcome_spec \<Rightarrow> outcome_spec" where
  "shift x y = (effects_then (fst x) (fst y), seqs (snd x) (snd y))"

lemma seqs_shift: "seqs T (\<Union> (snd ` set xs)) = \<Union> (snd ` set (map (shift (F, T)) xs))"
  by (auto simp: seqs_def shift_def)

lemma option_list_map: "option_list (map_option f m) = map f (option_list m)"
  by (cases m) simp_all

lemma outcomes_shift:
  assumes "state_step env rt c F T st st1" "effects_ok F" "sane st" "outcomes_ok env rt c st1 specs sts" "specs_ok specs"
  shows "outcomes_ok env rt c st (map (shift (F, T)) specs) sts"
  using assms(4,5)
proof (induction specs arbitrary: sts)
  case (Cons spec specs)
  obtain G U where spec: "spec = (G, U)" by (cases spec)
  from Cons.prems(1) obtain a as where s: "sts = a # as" "state_step env rt c G U st1 a" "outcomes_ok env rt c st1 specs as"
    by (auto simp: outcomes_ok_def spec list_all2_Cons1)
  have "effects_ok G" "specs_ok specs" using Cons.prems(2) by (simp_all add: spec)
  with Cons.IH [OF s(3)] state_step_then [OF assms(1) s(2) assms(2) _ assms(3)]
  show ?case by (simp add: outcomes_ok_def s(1) spec shift_def)
qed simp

lemma specs_ok_shift: "effects_ok F \<Longrightarrow> specs_ok specs \<Longrightarrow> specs_ok (map (shift (F, T)) specs)"
  by (induction specs) (simp_all add: shift_def effects_ok_then)

lemma shape_ok_shift:
  "effects_ok F \<Longrightarrow> shape_ok n bs cs \<Longrightarrow> shape_ok (map_option (shift (F, T)) n) (map (shift (F, T)) bs) (map (shift (F, T)) cs)"
  by (cases n) (simp_all add: shape_ok_def specs_ok_shift shift_def effects_ok_then)

lemma flow_ok_after:
  assumes s: "state_step env rt c F T st st1" "effects_ok F" "sane st" and f: "flow_ok env rt c n bs cs L st1 fl" "shape_ok n bs cs"
  shows "flow_ok env rt c (map_option (shift (F, T)) n) (map (shift (F, T)) bs) (map (shift (F, T)) cs) (seqs T L) st fl"
proof -
  have roots: "map fst st1 = map fst st" using s(1) by (simp add: state_step_def)
  have "rel_option (\<lambda>(F, T) st'. state_step env rt c F T st st') (map_option (shift (F, T)) n) (fl_normal fl)"
  proof (cases n)
    case (Some x)
    obtain G U where x: "x = (G, U)" by (cases x)
    with f Some obtain a where "fl_normal fl = Some a" "state_step env rt c G U st1 a" "effects_ok G"
      by (auto simp: flow_ok_def option_rel_Some1 shape_ok_def)
    with state_step_then [OF s(1) _ s(2) _ s(3)] Some x show ?thesis by (simp add: shift_def)
  qed (use f in \<open>auto simp: flow_ok_def\<close>)
  moreover have "safe env rt C t" if "c" "covers st C" "t \<in> seqs T L" for C t
  proof -
    from that(3) obtain a b where "t = a @ b" "a \<in> T" "b \<in> L" by (auto simp: seqs_def)
    moreover from this(2) s(1) that(1,2) have "safe env rt C a" "covers st1 (after_events C a)"
      by (auto simp: state_step_def covers_traces_def)
    ultimately show ?thesis using f(1) that(1) by (simp add: flow_ok_def)
  qed
  ultimately show ?thesis
    using f roots outcomes_shift [OF s] by (auto simp: flow_ok_def shape_ok_def)
qed

lemma flow_ok_mono: "flow_ok env rt c n bs cs L st fl \<Longrightarrow> M \<subseteq> L \<Longrightarrow> flow_ok env rt c n bs cs M st fl"
  by (auto simp: flow_ok_def)

lemma flow_eval:
  assumes "contract env f T" "flow_contract env B R"
  shows "flow_contract env (\<lambda>st ck. case f (st, ck) of (st1, ck1) \<Rightarrow> B st1 ck1) (seq_runs (evaluating T) R)"
proof -
  obtain F where F: "effects_ok F" "\<And>s. ready (fst s) (snd s) \<Longrightarrow> step_ok env F T s (f s)"
    using assms(1) by (auto simp: contract_def)
  obtain n bs cs L where B: "shape_ok n bs cs" "runs_fit n bs cs L R" "keeps env n bs cs L B"
    using assms(2) by (auto simp: flow_contract_def)
  let ?L = "seqs T L \<union> {t'. \<exists>t\<in>T. prefix t' t}"
  have "keeps env (map_option (shift (F, T)) n) (map (shift (F, T)) bs) (map (shift (F, T)) cs) ?L
      (\<lambda>st ck. case f (st, ck) of (st1, ck1) \<Rightarrow> B st1 ck1)"
  proof (rule keepsI)
    fix st ck fl ck'
    assume r: "ready st ck" and b: "(case f (st, ck) of (st1, ck1) \<Rightarrow> B st1 ck1) = (fl, ck')"
    obtain st1 ck1 where f: "f (st, ck) = (st1, ck1)" by (cases "f (st, ck)")
    have s: "step_ok env F T (st, ck) (st1, ck1)" using F(2) [of "(st, ck)"] r f by simp
    have r1: "ready st1 ck1" using step_ready [OF s] r by simp
    from s have st: "state_step env (ck_root_types ck) (clean ck1) F T st st1" "steady env ck ck1" by (simp_all add: step_ok_def)
    from keepsD [OF B(3) r1, of fl ck'] b f
    have k: "steady env ck1 ck'" "flow_ok env (ck_root_types ck) (clean ck') n bs cs L st1 fl"
      using st(2) by (simp_all add: steady_def)
    have c: "clean ck1" if "clean ck'" using k(1) that by (auto simp: steady_def)
    have st': "state_step env (ck_root_types ck) (clean ck') F T st st1" by (rule state_step_mono [OF st(1) c])
    have "safe env (ck_root_types ck) C t'" if "clean ck'" "covers st C" "t \<in> T" "prefix t' t" for C t t'
      using st' that safe_prefix by (auto simp: state_step_def covers_traces_def)
    with flow_ok_after [OF st' F(1) ready_sane [OF r] k(2) B(1)]
    show "steady env ck ck' \<and> flow_ok env (ck_root_types ck) (clean ck') (map_option (shift (F, T)) n)
        (map (shift (F, T)) bs) (map (shift (F, T)) cs) ?L st fl"
      using steady_trans [OF st(2) k(1)] by (auto simp: flow_ok_def)
  qed
  moreover have "runs_fit (map_option (shift (F, T)) n) (map (shift (F, T)) bs) (map (shift (F, T)) cs) ?L (seq_runs (evaluating T) R)"
    unfolding runs_fit_def
  proof (intro allI impI)
    fix t e
    assume "(t, e) \<in> seq_runs (evaluating T) R"
    then consider (left) u where "e = EndLeave" "u \<in> T" "prefix t u"
      | (on) a u where "t = a @ u" "a \<in> T" "(u, e) \<in> R"
      by (auto simp: seq_runs_def evaluating_def normally_def)
    then show "t \<in> ways (map_option (shift (F, T)) n) (map (shift (F, T)) bs) (map (shift (F, T)) cs) ?L e"
    proof cases
      case on
      then have "u \<in> ways n bs cs L e" using B(2) by (simp add: runs_fit_def)
      with on(2) have "a @ u \<in> seqs T (ways n bs cs L e)" by (auto simp: seqs_def)
      then have "t \<in> ways (map_option (shift (F, T)) n) (map (shift (F, T)) bs) (map (shift (F, T)) cs) (seqs T L) e"
        using seqs_shift [of T _ F] by (cases e) (simp_all only: on(1) ways.simps option_list_map)
      then show ?thesis by (cases e) auto
    qed auto
  qed
  ultimately show ?thesis unfolding flow_contract_def using shape_ok_shift [OF F(1) B(1)] by blast
qed

section \<open>Blocks\<close>

lemma steadyD: "steady env ck ck' \<Longrightarrow> ck_root_types ck' = ck_root_types ck" "steady env ck ck' \<Longrightarrow> tidy ck'"
  "steady env ck ck' \<Longrightarrow> clean ck' \<Longrightarrow> ck' = ck"
  by (simp_all add: steady_def)

lemma ready_after:
  "ready st ck \<Longrightarrow> steady env ck ck' \<Longrightarrow> sane st' \<Longrightarrow> map fst st' = map fst st \<Longrightarrow> ready st' ck'"
  unfolding ready_def using steadyD(1,2) by metis

lemma clean_before: "steady env ck ck' \<Longrightarrow> clean ck' \<Longrightarrow> clean ck"
  using steadyD(3) by metis

lemma state_stepD: "state_step env rt c F T st st' \<Longrightarrow> sane st'" "state_step env rt c F T st st' \<Longrightarrow> map fst st' = map fst st"
  by (simp_all add: state_step_def)

lemma check_from_dead: "fl_normal fl = None \<Longrightarrow> check_from env ss fl u ck = (fl, snd (check_from env ss flow_default u ck))"
proof (induction ss arbitrary: u ck)
  case (Cons s ss)
  show ?case
  proof (cases u)
    case None
    with Cons show ?thesis by simp
  next
    case (Some current)
    obtain nxt ck1 where n: "check_statement env s current ck = (nxt, ck1)" by (cases "check_statement env s current ck")
    from Cons.IH [OF Cons.prems, of "or_else (fl_normal nxt) (Some current)" ck1] Cons.prems Some n
    show ?thesis by simp
  qed
qed simp

text \<open>Unreachable statements are checked, but only their diagnostics count.\<close>

lemma dead_steady:
  assumes "\<And>s. s \<in> set ss \<Longrightarrow> \<exists>R. flow_contract env (check_statement env s) R"
    and "tidy ck" "\<And>st. u = Some st \<Longrightarrow> ready st ck"
  shows "steady env ck (snd (check_from env ss flow_default u ck))"
  using assms
proof (induction ss arbitrary: u ck)
  case Nil
  then show ?case by (simp add: steady_refl)
next
  case (Cons s ss)
  show ?case
  proof (cases u)
    case None
    with Cons.IH [of ck None] Cons.prems show ?thesis by simp
  next
    case (Some current)
    obtain nxt ck1 where n: "check_statement env s current ck = (nxt, ck1)" by (cases "check_statement env s current ck")
    obtain m bs cs L where k: "keeps env m bs cs L (check_statement env s)"
      using Cons.prems(1) [of s] by (auto simp: flow_contract_def)
    from keepsD [OF k Cons.prems(3) [OF Some] n] have st: "steady env ck ck1"
      and f: "flow_ok env (ck_root_types ck) (clean ck1) m bs cs L current nxt" by blast+
    have "ready st ck1" if "or_else (fl_normal nxt) (Some current) = Some st" for st
    proof -
      have "sane st \<and> map fst st = map fst current"
      proof (cases "fl_normal nxt")
        case None
        with that Cons.prems(3) [OF Some] show ?thesis by (simp add: or_else_def ready_def)
      next
        case (Some a)
        with that f show ?thesis by (auto simp: or_else_def flow_ok_def option_rel_Some2 state_step_def)
      qed
      with st Cons.prems(3) [OF Some] show ?thesis by (simp add: ready_def steady_def)
    qed
    then have "steady env ck1 (snd (check_from env ss flow_default (or_else (fl_normal nxt) (Some current)) ck1))"
      using Cons.IH [of ck1 "or_else (fl_normal nxt) (Some current)"] Cons.prems(1) st by (simp add: steady_def)
    with st show ?thesis using Some n by (auto intro: steady_trans)
  qed
qed

lemma check_from_extend:
  "fl_normal fl = Some st \<Longrightarrow>
   check_from env ss fl u ck = (case check_from env ss (flow_normal st) None ck of (fl', ck') \<Rightarrow> (extend_flow fl fl', ck'))"
proof (induction ss arbitrary: fl u ck st)
  case Nil
  then show ?case by (simp add: extend_flow_def flow_normal_def flow_default_def)
next
  case (Cons s ss)
  obtain nxt ck1 where n: "check_statement env s st ck = (nxt, ck1)" by (cases "check_statement env s st ck")
  have ext: "extend_flow (extend_flow a b) c = extend_flow a (extend_flow b c)" for a b c by (simp add: extend_flow_def)
  have unit: "extend_flow fl (extend_flow (flow_normal st) a) = extend_flow fl a" for a
    by (simp add: extend_flow_def)
  show ?case
  proof (cases "fl_normal nxt")
    case (Some st1)
    have e: "fl_normal (extend_flow fl nxt) = Some st1" "fl_normal (extend_flow (flow_normal st) nxt) = Some st1"
      by (simp_all add: extend_flow_def Some)
    show ?thesis
      using Cons.prems n Some Cons.IH [OF e(1), of u ck1] Cons.IH [OF e(2), of None ck1]
      by (simp add: ext unit split: prod.splits)
  next
    case None
    have e: "fl_normal (extend_flow fl nxt) = None" "fl_normal (extend_flow (flow_normal st) nxt) = None"
      by (simp_all add: extend_flow_def None)
    show ?thesis
      using Cons.prems n None check_from_dead [OF e(1), of env ss "or_else (fl_dead nxt) (Some st)" ck1]
        check_from_dead [OF e(2), of env ss "or_else (fl_dead nxt) (Some st)" ck1]
      by (simp add: unit)
  qed
qed

lemma flow_block_Nil: "flow_contract env (\<lambda>st ck. check_from env [] (flow_normal st) None ck) (block_runs env [])"
  using flow_pass by simp

lemma flow_block_Cons:
  assumes s: "flow_contract env (check_statement env s) R"
    and b: "flow_contract env (\<lambda>st ck. check_from env ss (flow_normal st) None ck) S"
    and each: "\<And>s. s \<in> set ss \<Longrightarrow> \<exists>R. flow_contract env (check_statement env s) R"
  shows "flow_contract env (\<lambda>st ck. check_from env (s # ss) (flow_normal st) None ck) (seq_runs R S)"
proof -
  obtain n bs cs L where s: "shape_ok n bs cs" "runs_fit n bs cs L R" "keeps env n bs cs L (check_statement env s)"
    using s by (auto simp: flow_contract_def)
  obtain n' bs' cs' L' where b: "shape_ok n' bs' cs'" "runs_fit n' bs' cs' L' S"
    "keeps env n' bs' cs' L' (\<lambda>st ck. check_from env ss (flow_normal st) None ck)"
    using b by (auto simp: flow_contract_def)
  show ?thesis
  proof (cases n)
    case None
    have "keeps env None bs cs L (\<lambda>st ck. check_from env (s # ss) (flow_normal st) None ck)"
    proof (rule keepsI)
      fix st ck fl ck'
      assume r: "ready st ck" and c: "check_from env (s # ss) (flow_normal st) None ck = (fl, ck')"
      obtain nxt ck1 where x: "check_statement env s st ck = (nxt, ck1)" by (cases "check_statement env s st ck")
      from keepsD [OF s(3) r x] have f: "steady env ck ck1" "flow_ok env (ck_root_types ck) (clean ck1) n bs cs L st nxt" by blast+
      then have nn: "fl_normal nxt = None" by (simp add: flow_ok_def None)
      then have e: "fl_normal (extend_flow (flow_normal st) nxt) = None" by (simp add: extend_flow_def)
      have fl: "fl = extend_flow (flow_normal st) nxt"
        and ck': "ck' = snd (check_from env ss flow_default (or_else (fl_dead nxt) (Some st)) ck1)"
        using c x nn check_from_dead [OF e, of env ss "or_else (fl_dead nxt) (Some st)" ck1] by simp_all
      have dead: "sane d \<and> map fst d = map fst st" if "fl_dead nxt = Some d" for d
        using f(2) that by (simp add: flow_ok_def)
      have "ready st' ck1" if "or_else (fl_dead nxt) (Some st) = Some st'" for st'
      proof (cases "fl_dead nxt")
        case None
        with that ready_after [OF r f(1) ready_sane [OF r] refl] show ?thesis by (simp add: or_else_def)
      next
        case (Some d)
        with that ready_after [OF r f(1)] dead [OF Some] show ?thesis by (simp add: or_else_def)
      qed
      then have d: "steady env ck1 ck'" unfolding ck' using dead_steady [OF each steadyD(2) [OF f(1)]] by blast
      have cl: "clean ck1" if "clean ck'" by (rule clean_before [OF d that])
      have "outcomes_ok env (ck_root_types ck) (clean ck') st bs (fl_breaks nxt)"
        "outcomes_ok env (ck_root_types ck) (clean ck') st cs (fl_continues nxt)"
        using f(2) cl unfolding flow_ok_def by (blast intro: outcomes_mono)+
      moreover have "safe env (ck_root_types ck) C t" if "clean ck'" "covers st C" "t \<in> L" for C t
        using f(2) cl that unfolding flow_ok_def by blast
      ultimately have "flow_ok env (ck_root_types ck) (clean ck') None bs cs L st fl"
        using nn unfolding flow_ok_def fl extend_flow_def by simp
      with steady_trans [OF f(1) d] show "steady env ck ck' \<and> flow_ok env (ck_root_types ck) (clean ck') None bs cs L st fl" ..
    qed
    moreover have "runs_fit None bs cs L (seq_runs R S)"
      unfolding runs_fit_def
    proof (intro allI impI)
      fix t e
      assume "(t, e) \<in> seq_runs R S"
      moreover have "(a, EndNormal) \<notin> R" for a
        using s(2) [unfolded runs_fit_def, rule_format, of a EndNormal] by (auto simp: None)
      ultimately have "(t, e) \<in> R" by (auto simp: seq_runs_def)
      then show "t \<in> ways None bs cs L e" using s(2) by (simp add: runs_fit_def None)
    qed
    ultimately show ?thesis using s(1) None unfolding flow_contract_def by blast
  next
    case (Some x)
    obtain F T where x: "x = (F, T)" by (cases x)
    let ?n = "map_option (shift (F, T)) n'" and ?bs = "bs @ map (shift (F, T)) bs'" and ?cs = "cs @ map (shift (F, T)) cs'"
      and ?L = "L \<union> seqs T L'"
    have F: "effects_ok F" using s(1) by (simp add: shape_ok_def Some x)
    have "keeps env ?n ?bs ?cs ?L (\<lambda>st ck. check_from env (s # ss) (flow_normal st) None ck)"
    proof (rule keepsI)
      fix st ck fl ck'
      assume r: "ready st ck" and c: "check_from env (s # ss) (flow_normal st) None ck = (fl, ck')"
      obtain nxt ck1 where y: "check_statement env s st ck = (nxt, ck1)" by (cases "check_statement env s st ck")
      from keepsD [OF s(3) r y] have f: "steady env ck ck1" "flow_ok env (ck_root_types ck) (clean ck1) n bs cs L st nxt" by blast+
      have rel: "rel_option (\<lambda>(F, T) st'. state_step env (ck_root_types ck) (clean ck1) F T st st') n (fl_normal nxt)"
        and dead: "\<forall>d. fl_dead nxt = Some d \<longrightarrow> sane d \<and> map fst d = map fst st"
        using f(2) by (simp_all add: flow_ok_def)
      from rel obtain st1 where st1: "fl_normal nxt = Some st1" "state_step env (ck_root_types ck) (clean ck1) F T st st1"
        unfolding Some x option_rel_Some1 by auto
      have r1: "ready st1 ck1" by (rule ready_after [OF r f(1) state_stepD [OF st1(2)]])
      obtain fl2 ck2 where z: "check_from env ss (flow_normal st1) None ck1 = (fl2, ck2)"
        by (cases "check_from env ss (flow_normal st1) None ck1")
      from keepsD [OF b(3) r1 z] have g: "steady env ck1 ck2" "flow_ok env (ck_root_types ck) (clean ck2) n' bs' cs' L' st1 fl2"
        unfolding steadyD(1) [OF f(1)] by blast+
      have e: "fl_normal (extend_flow (flow_normal st) nxt) = Some st1" by (simp add: extend_flow_def st1(1))
      have fl: "fl = extend_flow (extend_flow (flow_normal st) nxt) fl2" and ck': "ck' = ck2"
        using c y st1(1) check_from_extend [OF e, of env ss None ck1] z by simp_all
      have cl: "clean ck1" if "clean ck2" by (rule clean_before [OF g(1) that])
      have st1': "state_step env (ck_root_types ck) (clean ck2) F T st st1" by (rule state_step_mono [OF st1(2) cl])
      have h: "flow_ok env (ck_root_types ck) (clean ck2) ?n (map (shift (F, T)) bs') (map (shift (F, T)) cs') (seqs T L') st fl2"
        by (rule flow_ok_after [OF st1' F ready_sane [OF r] g(2) b(1)])
      have "outcomes_ok env (ck_root_types ck) (clean ck2) st bs (fl_breaks nxt)"
        "outcomes_ok env (ck_root_types ck) (clean ck2) st cs (fl_continues nxt)"
        using f(2) cl unfolding flow_ok_def by (blast intro: outcomes_mono)+
      moreover have "safe env (ck_root_types ck) C t" if "clean ck2" "covers st C" "t \<in> L" for C t
        using f(2) cl that unfolding flow_ok_def by blast
      ultimately have "flow_ok env (ck_root_types ck) (clean ck2) ?n ?bs ?cs ?L st fl"
        using h unfolding flow_ok_def fl extend_flow_def by (simp add: outcomes_append)
      with steady_trans [OF f(1) g(1)]
      show "steady env ck ck' \<and> flow_ok env (ck_root_types ck) (clean ck') ?n ?bs ?cs ?L st fl" by (simp add: ck')
    qed
    moreover have "runs_fit ?n ?bs ?cs ?L (seq_runs R S)"
      unfolding runs_fit_def
    proof (intro allI impI)
      fix t e
      assume "(t, e) \<in> seq_runs R S"
      then consider (left) "(t, e) \<in> R" "e \<noteq> EndNormal" | (on) a u where "t = a @ u" "(a, EndNormal) \<in> R" "(u, e) \<in> S"
        by (auto simp: seq_runs_def)
      then show "t \<in> ways ?n ?bs ?cs ?L e"
      proof cases
        case left
        then have "t \<in> ways n bs cs L e" using s(2) by (simp add: runs_fit_def)
        with left(2) show ?thesis by (cases e) auto
      next
        case on
        have "a \<in> ways n bs cs L EndNormal" "u \<in> ways n' bs' cs' L' e" using s(2) b(2) on(2,3) unfolding runs_fit_def by blast+
        then have "a @ u \<in> seqs T (ways n' bs' cs' L' e)" by (auto simp: Some x seqs_def)
        then have "t \<in> ways ?n (map (shift (F, T)) bs') (map (shift (F, T)) cs') (seqs T L') e"
          using seqs_shift [of T _ F] by (cases e) (simp_all only: on(1) ways.simps option_list_map)
        then show ?thesis by (cases e) auto
      qed
    qed
    moreover have "shape_ok ?n ?bs ?cs"
      using s(1) shape_ok_shift [OF F b(1), of T] by (simp add: shape_ok_def)
    ultimately show ?thesis unfolding flow_contract_def by blast
  qed
qed

end
