(* ===== verification/Move_Branches.thy ===== *)
theory Move_Branches
  imports Move_Flow
begin

text \<open>Statements with several ways through them: branches, matches and expectations.\<close>

section \<open>Several flows of one state\<close>

type_synonym flow_spec = "outcome_spec option \<times> outcome_spec list \<times> outcome_spec list \<times> traces"

definition flows_ok :: "move_env \<Rightarrow> root_types \<Rightarrow> bool \<Rightarrow> move_state \<Rightarrow> flow_spec list \<Rightarrow> flow list \<Rightarrow> bool" where
  "flows_ok env rt c st specs fls \<longleftrightarrow> list_all2 (\<lambda>(n, bs, cs, L) fl. flow_ok env rt c n bs cs L st fl) specs fls"

definition flow_specs_ok :: "flow_spec list \<Rightarrow> bool" where
  "flow_specs_ok specs \<longleftrightarrow> (\<forall>(n, bs, cs, L)\<in>set specs. shape_ok n bs cs)"

definition spec_ways :: "flow_spec \<Rightarrow> ending \<Rightarrow> traces" where
  "spec_ways spec e = (case spec of (n, bs, cs, L) \<Rightarrow> ways n bs cs L e)"

definition flows_contract :: "move_env \<Rightarrow> (move_state \<Rightarrow> checker \<Rightarrow> flow list \<times> checker) \<Rightarrow> runs \<Rightarrow> bool" where
  "flows_contract env A R \<longleftrightarrow>
     (\<exists>specs M. flow_specs_ok specs
        \<and> (\<forall>t e. (t, e) \<in> R \<longrightarrow> (\<exists>spec\<in>set specs. t \<in> spec_ways spec e) \<or> e = EndLeave \<and> t \<in> M)
        \<and> (\<forall>st ck fls ck'. ready st ck \<longrightarrow> A st ck = (fls, ck') \<longrightarrow>
             steady env ck ck' \<and> flows_ok env (ck_root_types ck) (clean ck') st specs fls
             \<and> (clean ck' \<longrightarrow> (\<forall>C t. covers st C \<longrightarrow> t \<in> M \<longrightarrow> safe env (ck_root_types ck) C t))))"

lemma flow_ok_weaken: "flow_ok env rt c n bs cs L st fl \<Longrightarrow> (d \<Longrightarrow> c) \<Longrightarrow> flow_ok env rt d n bs cs L st fl"
proof -
  assume f: "flow_ok env rt c n bs cs L st fl" and d: "d \<Longrightarrow> c"
  have "rel_option (\<lambda>(F, T) st'. state_step env rt d F T st st') n (fl_normal fl)"
    using f state_step_mono [OF _ d] unfolding flow_ok_def
    by (cases n; cases "fl_normal fl") auto
  moreover have "outcomes_ok env rt d st bs (fl_breaks fl)" "outcomes_ok env rt d st cs (fl_continues fl)"
    using f d unfolding flow_ok_def by (blast intro: outcomes_mono)+
  ultimately show ?thesis using f d unfolding flow_ok_def by blast
qed

lemma flows_ok_weaken: "flows_ok env rt c st specs fls \<Longrightarrow> (d \<Longrightarrow> c) \<Longrightarrow> flows_ok env rt d st specs fls"
  unfolding flows_ok_def by (erule list_all2_mono) (auto intro: flow_ok_weaken)

lemma flows_ok_Cons:
  "flows_ok env rt c st (spec # specs) (fl # fls) \<longleftrightarrow>
     (case spec of (n, bs, cs, L) \<Rightarrow> flow_ok env rt c n bs cs L st fl) \<and> flows_ok env rt c st specs fls"
  by (simp add: flows_ok_def split: prod.split)

lemma flows_contractI:
  assumes "flow_specs_ok specs"
    "\<And>t e. (t, e) \<in> R \<Longrightarrow> (\<exists>spec\<in>set specs. t \<in> spec_ways spec e) \<or> e = EndLeave \<and> t \<in> M"
    "\<And>st ck fls ck'. ready st ck \<Longrightarrow> A st ck = (fls, ck') \<Longrightarrow>
       steady env ck ck' \<and> flows_ok env (ck_root_types ck) (clean ck') st specs fls
       \<and> (clean ck' \<longrightarrow> (\<forall>C t. covers st C \<longrightarrow> t \<in> M \<longrightarrow> safe env (ck_root_types ck) C t))"
  shows "flows_contract env A R"
  unfolding flows_contract_def using assms by blast

lemma flows_two:
  assumes "flow_contract env A R" "flow_contract env B S"
  shows "flows_contract env (\<lambda>st ck. case A st ck of (a, ck1) \<Rightarrow> (case B st ck1 of (b, ck2) \<Rightarrow> ([a, b], ck2))) (R \<union> S)"
proof -
  obtain n bs cs L where a: "shape_ok n bs cs" "runs_fit n bs cs L R" "keeps env n bs cs L A"
    using assms(1) by (auto simp: flow_contract_def)
  obtain n' bs' cs' L' where b: "shape_ok n' bs' cs'" "runs_fit n' bs' cs' L' S" "keeps env n' bs' cs' L' B"
    using assms(2) by (auto simp: flow_contract_def)
  show ?thesis
  proof (rule flows_contractI [where specs = "[(n, bs, cs, L), (n', bs', cs', L')]" and M = "{}"])
    show "flow_specs_ok [(n, bs, cs, L), (n', bs', cs', L')]" using a b by (simp add: flow_specs_ok_def)
    show "(\<exists>spec\<in>set [(n, bs, cs, L), (n', bs', cs', L')]. t \<in> spec_ways spec e) \<or> e = EndLeave \<and> t \<in> {}"
      if "(t, e) \<in> R \<union> S" for t e
      using that a(2) b(2) by (auto simp: runs_fit_def spec_ways_def)
    fix st ck fls ck'
    assume r: "ready st ck" and e: "(case A st ck of (a, ck1) \<Rightarrow> (case B st ck1 of (b, ck2) \<Rightarrow> ([a, b], ck2))) = (fls, ck')"
    obtain x ck1 where x: "A st ck = (x, ck1)" by (cases "A st ck")
    obtain y ck2 where y: "B st ck1 = (y, ck2)" by (cases "B st ck1")
    from keepsD [OF a(3) r x] have k: "steady env ck ck1" "flow_ok env (ck_root_types ck) (clean ck1) n bs cs L st x" by blast+
    from keepsD [OF b(3) ready_after [OF r k(1) ready_sane [OF r] refl] y]
    have l: "steady env ck1 ck2" "flow_ok env (ck_root_types ck) (clean ck2) n' bs' cs' L' st y"
      unfolding steadyD(1) [OF k(1)] by blast+
    have "flow_ok env (ck_root_types ck) (clean ck2) n bs cs L st x"
      using k(2) by (rule flow_ok_weaken) (rule clean_before [OF l(1)])
    with l steady_trans [OF k(1) l(1)] x y e
    show "steady env ck ck' \<and> flows_ok env (ck_root_types ck) (clean ck') st [(n, bs, cs, L), (n', bs', cs', L')] fls
       \<and> (clean ck' \<longrightarrow> (\<forall>C t. covers st C \<longrightarrow> t \<in> {} \<longrightarrow> safe env (ck_root_types ck) C t))"
      by (auto simp: flows_ok_def)
  qed
qed

text \<open>Joining the flows\<close>

definition join_spec :: "outcome_spec list \<Rightarrow> outcome_spec option" where
  "join_spec specs = (if specs = [] then None else Some (join_effects (map fst specs), \<Union> (snd ` set specs)))"

lemma join_spec_ok: "specs_ok specs \<Longrightarrow> specs_ok (option_list (join_spec specs))"
proof -
  assume "specs_ok specs"
  then have "effects_ok F" if "F \<in> set (map fst specs)" for F using that by (force simp: specs_ok_def)
  then have "effects_ok (join_effects (map fst specs))" by (rule join_effects_ok)
  then show ?thesis by (simp add: join_spec_def)
qed

lemma join_spec_ways: "\<Union> (snd ` set (option_list (join_spec specs))) = \<Union> (snd ` set specs)"
  by (simp add: join_spec_def)

lemma join_spec_step:
  assumes "outcomes_ok env rt c st specs sts" "specs_ok specs" "sane st"
  shows "rel_option (\<lambda>(F, T) st'. state_step env rt c F T st st') (join_spec specs) (join_states sts)"
proof (cases "specs = []")
  case True
  with assms(1) show ?thesis by (simp add: join_spec_def)
next
  case False
  from join_states_step [OF assms False] False show ?thesis by (auto simp: join_spec_def)
qed

lemma outcomes_option:
  "rel_option (\<lambda>(F, T) st'. state_step env rt c F T st st') n x \<longleftrightarrow> outcomes_ok env rt c st (option_list n) (option_list x)"
  by (cases n; cases x) (auto simp: outcomes_ok_def)

lemma outcomes_concat:
  "list_all2 (\<lambda>specs sts. outcomes_ok env rt c st specs sts) specss stss \<Longrightarrow> outcomes_ok env rt c st (concat specss) (concat stss)"
  by (induction rule: list_all2_induct) (auto intro: outcomes_append)

lemma join_dead_sane:
  assumes "\<And>d. d \<in> set ds \<Longrightarrow> sane d \<and> map fst d = map fst st" "join_states ds = Some j"
  shows "sane j \<and> map fst j = map fst st"
proof -
  obtain a as where ds: "ds = a # as" using assms(2) by (cases ds) auto
  have "sane (foldl join_two x xs) \<and> map fst (foldl join_two x xs) = map fst st"
    if "sane x" "map fst x = map fst st" "\<And>d. d \<in> set xs \<Longrightarrow> sane d \<and> map fst d = map fst st" for x xs
    using that
  proof (induction xs arbitrary: x)
    case (Cons y ys)
    have y: "sane y" "map fst y = map fst st" using Cons.prems(3) [of y] by simp_all
    have "map fst (join_two x y) = map fst st"
      using join_two_roots [OF saneD(1) [OF Cons.prems(1)] saneD(1) [OF y(1)]] Cons.prems(2) y(2) by simp
    with Cons.IH [OF sane_join [OF Cons.prems(1) y(1)]] Cons.prems(3) show ?case by simp
  qed simp
  from this [of a as] assms ds show ?thesis by simp
qed

lemma flows_join:
  assumes "flows_contract env A R"
  shows "flow_contract env (\<lambda>st ck. case A st ck of (fls, ck') \<Rightarrow> (join_flows fls, ck')) R"
proof -
  obtain specs M where a: "flow_specs_ok specs"
    "\<forall>t e. (t, e) \<in> R \<longrightarrow> (\<exists>spec\<in>set specs. t \<in> spec_ways spec e) \<or> e = EndLeave \<and> t \<in> M"
    "\<forall>st ck fls ck'. ready st ck \<longrightarrow> A st ck = (fls, ck') \<longrightarrow>
       steady env ck ck' \<and> flows_ok env (ck_root_types ck) (clean ck') st specs fls
       \<and> (clean ck' \<longrightarrow> (\<forall>C t. covers st C \<longrightarrow> t \<in> M \<longrightarrow> safe env (ck_root_types ck) C t))"
    using assms unfolding flows_contract_def by blast
  let ?ns = "concat (map (\<lambda>(n, bs, cs, L). option_list n) specs)"
  let ?bs = "concat (map (\<lambda>(n, bs, cs, L). bs) specs)" and ?cs = "concat (map (\<lambda>(n, bs, cs, L). cs) specs)"
  let ?L = "M \<union> (\<Union>(n, bs, cs, L)\<in>set specs. L)"
  have ok: "specs_ok ?ns" "specs_ok ?bs" "specs_ok ?cs"
    using a(1) by (force simp: flow_specs_ok_def shape_ok_def specs_ok_def)+
  have "keeps env (join_spec ?ns) ?bs ?cs ?L (\<lambda>st ck. case A st ck of (fls, ck') \<Rightarrow> (join_flows fls, ck'))"
  proof (rule keepsI)
    fix st ck fl ck'
    assume r: "ready st ck" and e: "(case A st ck of (fls, ck') \<Rightarrow> (join_flows fls, ck')) = (fl, ck')"
    obtain fls ck1 where x: "A st ck = (fls, ck1)" by (cases "A st ck")
    with e have fl: "fl = join_flows fls" "ck1 = ck'" by simp_all
    have k: "steady env ck ck'" "flows_ok env (ck_root_types ck) (clean ck') st specs fls"
      "clean ck' \<Longrightarrow> covers st C \<Longrightarrow> t \<in> M \<Longrightarrow> safe env (ck_root_types ck) C t" for C t
      using a(3) r x fl(2) by blast+
    let ?rt = "ck_root_types ck" and ?c = "clean ck'"
    have "list_all2 (\<lambda>s t. outcomes_ok env ?rt ?c st s t) (map (\<lambda>(n, bs, cs, L). option_list n) specs) (map (\<lambda>f. option_list (fl_normal f)) fls)"
      "list_all2 (\<lambda>s t. outcomes_ok env ?rt ?c st s t) (map (\<lambda>(n, bs, cs, L). bs) specs) (map fl_breaks fls)"
      "list_all2 (\<lambda>s t. outcomes_ok env ?rt ?c st s t) (map (\<lambda>(n, bs, cs, L). cs) specs) (map fl_continues fls)"
      using k(2) unfolding flows_ok_def list_all2_map1 list_all2_map2
      by (auto elim!: list_all2_mono simp: flow_ok_def outcomes_option)
    then have o: "outcomes_ok env ?rt ?c st ?ns (concat (map (\<lambda>f. option_list (fl_normal f)) fls))"
      "outcomes_ok env ?rt ?c st ?bs (concat (map fl_breaks fls))"
      "outcomes_ok env ?rt ?c st ?cs (concat (map fl_continues fls))"
      by (auto intro: outcomes_concat)
    have "sane d \<and> map fst d = map fst st" if "fl_dead fl = Some d" for d
    proof (rule join_dead_sane)
      show "join_states (concat (map (\<lambda>f. option_list (fl_dead f)) fls)) = Some d"
        using that by (simp add: fl join_flows_def)
      fix x
      assume "x \<in> set (concat (map (\<lambda>f. option_list (fl_dead f)) fls))"
      then obtain f where f: "f \<in> set fls" "fl_dead f = Some x" by (auto simp: option_list_def split: option.splits)
      then obtain i where i: "i < length fls" "fls ! i = f" by (auto simp: in_set_conv_nth)
      obtain n bs cs L where "specs ! i = (n, bs, cs, L)" by (metis prod_cases4)
      with k(2) i have "flow_ok env ?rt ?c n bs cs L st f" unfolding flows_ok_def list_all2_conv_all_nth by fastforce
      with f(2) show "sane x \<and> map fst x = map fst st" by (simp add: flow_ok_def)
    qed
    moreover have "safe env ?rt C t" if "?c" "covers st C" "t \<in> ?L" for C t
    proof (cases "t \<in> M")
      case True
      with k(3) that show ?thesis by blast
    next
      case False
      with that(3) obtain n bs cs L where s: "(n, bs, cs, L) \<in> set specs" "t \<in> L" by auto
      then obtain i where i: "i < length specs" "specs ! i = (n, bs, cs, L)" by (auto simp: in_set_conv_nth)
      with k(2) have "flow_ok env ?rt ?c n bs cs L st (fls ! i)"
        unfolding flows_ok_def list_all2_conv_all_nth by fastforce
      with that s(2) show ?thesis by (simp add: flow_ok_def)
    qed
    ultimately have "flow_ok env ?rt ?c (join_spec ?ns) ?bs ?cs ?L st fl"
      using o join_spec_step [OF o(1) ok(1) ready_sane [OF r]] unfolding flow_ok_def by (simp add: fl(1) join_flows_def)
    with k(1) show "steady env ck ck' \<and> flow_ok env ?rt ?c (join_spec ?ns) ?bs ?cs ?L st fl" ..
  qed
  moreover have "runs_fit (join_spec ?ns) ?bs ?cs ?L R"
    unfolding runs_fit_def
  proof (intro allI impI)
    fix t e
    assume "(t, e) \<in> R"
    with a(2) consider (way) n bs cs L where "(n, bs, cs, L) \<in> set specs" "t \<in> ways n bs cs L e" | (leave) "e = EndLeave" "t \<in> M"
      by (fastforce simp: spec_ways_def)
    then show "t \<in> ways (join_spec ?ns) ?bs ?cs ?L e"
    proof cases
      case way
      then show ?thesis by (cases e) (force simp: join_spec_ways)+
    qed simp
  qed
  ultimately show ?thesis
    unfolding flow_contract_def shape_ok_def using ok join_spec_ok by blast
qed

section \<open>Expectations and deferred bodies\<close>

lemma flow_expect:
  assumes "flow_contract env B R"
  shows "flow_contract env (\<lambda>st ck. case B st ck of (h, ck') \<Rightarrow>
      (h\<lparr>fl_normal := join_states (st # option_list (fl_normal h))\<rparr>, ck')) (normally {[]} \<union> R)"
proof -
  obtain n bs cs L where b: "shape_ok n bs cs" "runs_fit n bs cs L R" "keeps env n bs cs L B"
    using assms by (auto simp: flow_contract_def)
  let ?ns = "(\<lambda>r q. Keep, {[]}) # option_list n"
  have ok: "specs_ok ?ns" using b(1) by (simp add: shape_ok_def)
  have "keeps env (join_spec ?ns) bs cs L (\<lambda>st ck. case B st ck of (h, ck') \<Rightarrow>
      (h\<lparr>fl_normal := join_states (st # option_list (fl_normal h))\<rparr>, ck'))"
  proof (rule keepsI)
    fix st ck fl ck'
    assume r: "ready st ck" and e: "(case B st ck of (h, ck') \<Rightarrow>
      (h\<lparr>fl_normal := join_states (st # option_list (fl_normal h))\<rparr>, ck')) = (fl, ck')"
    obtain h where x: "B st ck = (h, ck')" and fl: "fl = h\<lparr>fl_normal := join_states (st # option_list (fl_normal h))\<rparr>"
      using e by (cases "B st ck") simp
    from keepsD [OF b(3) r x] have k: "steady env ck ck'" "flow_ok env (ck_root_types ck) (clean ck') n bs cs L st h" by blast+
    have "outcomes_ok env (ck_root_types ck) (clean ck') st (option_list n) (option_list (fl_normal h))"
      using k(2) by (simp add: flow_ok_def outcomes_option)
    then have "outcomes_ok env (ck_root_types ck) (clean ck') st ?ns (st # option_list (fl_normal h))"
      using state_step_refl [OF ready_sane [OF r]] by (simp add: outcomes_ok_def)
    from join_spec_step [OF this ok ready_sane [OF r]] k
    show "steady env ck ck' \<and> flow_ok env (ck_root_types ck) (clean ck') (join_spec ?ns) bs cs L st fl"
      by (simp add: flow_ok_def fl)
  qed
  moreover have "runs_fit (join_spec ?ns) bs cs L (normally {[]} \<union> R)"
    unfolding runs_fit_def
  proof (intro allI impI)
    fix t e
    assume "(t, e) \<in> normally {[]} \<union> R"
    then show "t \<in> ways (join_spec ?ns) bs cs L e"
    proof
      assume "(t, e) \<in> normally {[]}"
      then have "t = []" "e = EndNormal" by (auto simp: normally_def)
      then show ?thesis by (simp add: join_spec_def)
    next
      assume "(t, e) \<in> R"
      then have "t \<in> ways n bs cs L e" using b(2) by (simp add: runs_fit_def)
      then show ?thesis by (cases e) (simp_all add: join_spec_def)
    qed
  qed
  moreover have "shape_ok (join_spec ?ns) bs cs" using b(1) join_spec_ok [OF ok] by (simp add: shape_ok_def)
  ultimately show ?thesis unfolding flow_contract_def by blast
qed

lemma flow_defer:
  assumes "flow_contract env B R"
  shows "flow_contract env (\<lambda>st ck. (flow_normal st, snd (B st ck))) (normally {[]})"
proof -
  obtain n bs cs L where b: "keeps env n bs cs L B" using assms by (auto simp: flow_contract_def)
  let ?n = "Some (\<lambda>r q. Keep, {[]}) :: outcome_spec option"
  have "keeps env ?n [] [] {} (\<lambda>st ck. (flow_normal st, snd (B st ck)))"
  proof (rule keepsI)
    fix st ck fl ck'
    assume r: "ready st ck" and e: "(flow_normal st, snd (B st ck)) = (fl, ck')"
    obtain h where "B st ck = (h, ck')" using e by (cases "B st ck") simp
    from keepsD [OF b r this] have "steady env ck ck'" by blast
    with e state_step_refl [OF ready_sane [OF r]]
    show "steady env ck ck' \<and> flow_ok env (ck_root_types ck) (clean ck') ?n [] [] {} st fl" by (auto simp: flow_ok_def)
  qed
  moreover have "runs_fit ?n [] [] {} (normally {[]})" by (auto simp: runs_fit_def normally_def)
  moreover have "shape_ok ?n [] []" by (simp add: shape_ok_def)
  ultimately show ?thesis unfolding flow_contract_def by blast
qed

section \<open>Match arms\<close>

text \<open>Binding alone leaves more initialized than matching does.\<close>

lemma seq_all_dominated:
  assumes "\<And>x t. x \<in> set xs \<Longrightarrow> t \<in> B x \<Longrightarrow> \<exists>u\<in>P x. \<forall>C. holds_more (after_events C u) (after_events C t)"
    and "t \<in> seq_all (map B xs)"
  shows "\<exists>u\<in>seq_all (map P xs). \<forall>C. holds_more (after_events C u) (after_events C t)"
  using assms
proof (induction xs arbitrary: t)
  case Nil
  then show ?case by (simp add: seq_all_Nil holds_more_def)
next
  case (Cons x xs)
  then obtain a b where t: "t = a @ b" "a \<in> B x" "b \<in> seq_all (map B xs)" by (auto simp: seq_all_Cons seqs_def)
  obtain u where u: "u \<in> P x" "\<And>C. holds_more (after_events C u) (after_events C a)" using Cons.prems(1) [of x a] t(2) by auto
  obtain v where v: "v \<in> seq_all (map P xs)" "\<And>C. holds_more (after_events C v) (after_events C b)"
    using Cons.IH [OF _ t(3)] Cons.prems(1) by auto
  have "holds_more (after_events (after_events C u) v) (after_events (after_events C a) b)" for C
    using after_mono [OF u(2), of C v] v(2) [of "after_events C a"] by (auto simp: holds_more_def)
  moreover have "u @ v \<in> seq_all (map P (x # xs))" using u(1) v(1) by (auto simp: seq_all_Cons seqs_def)
  ultimately show ?case unfolding t(1) by (intro bexI [of _ "u @ v"]) simp_all
qed

lemma holds_more_refl [simp]: "holds_more C C"
  by (simp add: holds_more_def)

lemma holds_more_trans: "holds_more A B \<Longrightarrow> holds_more B C \<Longrightarrow> holds_more A C"
  by (simp add: holds_more_def)

lemma map_snd_enumerate: "map (\<lambda>p. f p) ps = map (\<lambda>(i, p). f p) (enumerate n ps)"
  by (induction ps arbitrary: n) simp_all

lemma pattern_dominates:
  "t \<in> binding_traces p \<Longrightarrow> \<exists>u\<in>pattern_traces env p source. \<forall>C. holds_more (after_events C u) (after_events C t)"
proof (induction env p source arbitrary: t rule: pattern_traces.induct)
  case (1 env ty sp source)
  then show ?case by simp
next
  case (2 env ty sp b source)
  have "holds_more (after_events C (consume_events env source ty @ [EvSet (place_root (RootLocal b))]))
      (after_events C [EvSet (place_root (RootLocal b))])" for C
    using after_mono [OF consume_holds_less [of C env source ty], of "[EvSet (place_root (RootLocal b))]"] by simp
  with 2 show ?case by simp
next
  case (3 env ty sp c source)
  then show ?case by simp
next
  case (4 env ty sp ps source)
  then obtain p where p: "p \<in> set ps" "t \<in> binding_traces p" by auto
  from 4(1) [OF p] p(1) show ?case by auto
next
  case (5 env ty sp p source)
  then show ?case by simp
next
  case (6 env ty sp ps source)
  have "t \<in> seq_all (map (\<lambda>(i, p). binding_traces p) (enumerate 0 ps))"
    using 6(2) map_snd_enumerate [of binding_traces ps 0] by simp
  then have "\<exists>u\<in>seq_all (map (\<lambda>(i, p). pattern_traces env p (place_project source (ProjTupleField i))) (enumerate 0 ps)).
      \<forall>C. holds_more (after_events C u) (after_events C t)"
  proof (rule seq_all_dominated [rotated])
    fix x u
    assume x: "x \<in> set (enumerate 0 ps)" "u \<in> (case x of (i, p) \<Rightarrow> binding_traces p)"
    obtain i p where ip: "x = (i, p)" by (cases x)
    from 6(1) [OF x(1) ip [symmetric]] x(2)
    show "\<exists>v\<in>case x of (i, p) \<Rightarrow> pattern_traces env p (place_project source (ProjTupleField i)).
        \<forall>C. holds_more (after_events C v) (after_events C u)" by (simp add: ip)
  qed
  then show ?case by simp
next
  case (7 env ty sp d fs source)
  have "t \<in> seq_all (map (\<lambda>(f, p). binding_traces p) fs)" using 7(2) by simp
  then have "\<exists>u\<in>seq_all (map (\<lambda>(f, p). pattern_traces env p (place_project source (ProjField f))) fs).
      \<forall>C. holds_more (after_events C u) (after_events C t)"
  proof (rule seq_all_dominated [rotated])
    fix x u
    assume x: "x \<in> set fs" "u \<in> (case x of (f, p) \<Rightarrow> binding_traces p)"
    obtain f p where fp: "x = (f, p)" by (cases x)
    from 7(1) [OF x(1) fp [symmetric]] x(2)
    show "\<exists>v\<in>case x of (f, p) \<Rightarrow> pattern_traces env p (place_project source (ProjField f)).
        \<forall>C. holds_more (after_events C v) (after_events C u)" by (simp add: fp)
  qed
  then show ?case by simp
next
  case (8 env ty sp v fs source)
  let ?c = "if \<exists>(f, p)\<in>set fs. pattern_consumes_non_copy env p then consume_events env source ty else []"
  have "holds_more (after_events C (?c @ t)) (after_events C t)" for C
    using after_mono [OF consume_holds_less [of C env source ty], of t] by simp
  moreover have "?c @ t \<in> pattern_traces env (TypedPattern ty sp (PatVariant v fs)) source"
    using 8 by (auto simp: seqs_def)
  ultimately show ?case by blast
qed

definition moveless :: "event list \<Rightarrow> bool" where
  "moveless t \<longleftrightarrow> (\<forall>e\<in>set t. case e of EvMove p ty \<Rightarrow> False | _ \<Rightarrow> True)"

lemma moveless_more: "moveless t \<Longrightarrow> holds_more C (after_events C t)"
proof (induction C t rule: after_events.induct)
  case (4 C p t)
  then have "holds_more (put C p True) (after_events (put C p True) t)" by (simp add: moveless_def)
  moreover have "holds_more C (put C p True)" by (simp add: holds_more_def put_def)
  ultimately show ?case using holds_more_trans by simp
qed (simp_all add: moveless_def)

lemma moveless_sets_of [simp]: "moveless (sets_of bs)"
  by (auto simp: moveless_def sets_of_def)

lemma moveless_append [simp]: "moveless (a @ b) \<longleftrightarrow> moveless a \<and> moveless b"
  by (auto simp: moveless_def)

text \<open>What happens in an arm that is passed over keeps the state before it valid.\<close>

lemma passed_over:
  assumes m: "covers_traces env rt (seqs (pattern_traces env p source) (optional_traces g)) st st1"
    and a: "alternatives_agree p" and g: "\<And>t. t \<in> optional_traces g \<Longrightarrow> moveless t"
  shows "covers_traces env rt ({[]} \<union> seqs (binding_traces p) (optional_traces g)) st st"
  unfolding covers_traces_def
proof (intro allI impI)
  fix C t
  assume C: "covers st C" and t: "t \<in> {[]} \<union> seqs (binding_traces p) (optional_traces g)"
  show "safe env rt C t \<and> covers st (after_events C t)"
  proof (cases "t = []")
    case True
    with C show ?thesis by simp
  next
    case False
    with t obtain b u where bu: "t = b @ u" "b \<in> binding_traces p" "u \<in> optional_traces g" by (auto simp: seqs_def)
    obtain bs where bs: "b = sets_of bs" using binding_traces_sets [OF a bu(2)] by blast
    obtain v where v: "v \<in> pattern_traces env p source" "holds_more (after_events C v) (after_events C b)"
      using pattern_dominates [OF bu(2)] by blast
    have "v @ u \<in> seqs (pattern_traces env p source) (optional_traces g)" using v(1) bu(3) by (auto simp: seqs_def)
    then have "safe env rt C (v @ u)" using m C unfolding covers_traces_def by blast
    then have "safe env rt (after_events C b) u" using safe_mono [OF v(2)] by simp
    moreover have "holds_more C (after_events C t)" using g [OF bu(3)] by (intro moveless_more) (simp add: bu(1) bs)
    ultimately show ?thesis using ms.covers_mono [OF C] safe_sets_of by (simp add: bu(1) bs)
  qed
qed

lemma flows_arms_Nil: "flows_contract env (\<lambda>st ck. check_arms env [] source st ck) (arm_runs env [] source)"
  by (rule flows_contractI [where specs = "[]" and M = "{[]}"])
    (auto simp: flow_specs_ok_def flows_ok_def ready_def steady_refl)

text \<open>An arm is checked from \<open>T\<close>; passing it over does \<open>U\<close>, which must leave the state before it valid.\<close>

lemma flows_arms_cons:
  fixes T U :: traces
  assumes b: "flow_contract env (\<lambda>st ck. check_from env body (flow_normal st) None ck) R"
    and rest: "flows_contract env (\<lambda>st ck. check_arms env arms source st ck) S"
    and cf: "contract env (\<lambda>s. visit_optional env g (apply_pattern env p source s)) T"
    and passed: "\<And>rt st st1. covers_traces env rt T st st1 \<Longrightarrow> covers_traces env rt U st st"
  shows "flows_contract env (\<lambda>st ck. check_arms env (TypedMatchArm p g body sp # arms) source st ck)
     (seq_runs (evaluating T) R \<union> seq_runs (normally U) S)"
proof -
  let ?f = "\<lambda>s. visit_optional env g (apply_pattern env p source s)"
  let ?K = "\<lambda>r q. Keep"
  obtain F where F: "effects_ok F" "\<And>s. ready (fst s) (snd s) \<Longrightarrow> step_ok env F T s (?f s)"
    using cf by (auto simp: contract_def)
  let ?A = "\<lambda>st ck. case ?f (st, ck) of (st1, ck1) \<Rightarrow> check_from env body (flow_normal st1) None ck1"
  obtain n bs cs L where x: "shape_ok n bs cs" "runs_fit n bs cs L (seq_runs (evaluating T) R)" "keeps env n bs cs L ?A"
    using flow_eval [OF cf b] by (auto simp: flow_contract_def)
  obtain n' bs' cs' L' where w: "keeps env n' bs' cs' L' (\<lambda>st ck. check_from env body (flow_normal st) None ck)"
    using b by (auto simp: flow_contract_def)
  obtain specs M where y: "flow_specs_ok specs"
    "\<forall>t e. (t, e) \<in> S \<longrightarrow> (\<exists>spec\<in>set specs. t \<in> spec_ways spec e) \<or> e = EndLeave \<and> t \<in> M"
    "\<forall>st ck fls ck'. ready st ck \<longrightarrow> check_arms env arms source st ck = (fls, ck') \<longrightarrow>
       steady env ck ck' \<and> flows_ok env (ck_root_types ck) (clean ck') st specs fls
       \<and> (clean ck' \<longrightarrow> (\<forall>C t. covers st C \<longrightarrow> t \<in> M \<longrightarrow> safe env (ck_root_types ck) C t))"
    using rest unfolding flows_contract_def by blast
  let ?s = "shift (?K, U)"
  let ?S = "\<lambda>(n, bs, cs, L). (map_option ?s n, map ?s bs, map ?s cs, seqs U L)"
  show ?thesis
  proof (rule flows_contractI [where specs = "(n, bs, cs, L) # map ?S specs" and M = "seqs U M"])
    have "flow_specs_ok (map ?S specs)"
      using y(1) shape_ok_shift [OF keep_ok] by (fastforce simp: flow_specs_ok_def)
    with x(1) show "flow_specs_ok ((n, bs, cs, L) # map ?S specs)" by (simp add: flow_specs_ok_def)
  next
    fix t e
    assume "(t, e) \<in> seq_runs (evaluating T) R \<union> seq_runs (normally U) S"
    then consider (taken) "(t, e) \<in> seq_runs (evaluating T) R" | (over) u v where "t = u @ v" "u \<in> U" "(v, e) \<in> S"
      by (auto simp: seq_runs_def normally_def)
    then show "(\<exists>spec\<in>set ((n, bs, cs, L) # map ?S specs). t \<in> spec_ways spec e) \<or> e = EndLeave \<and> t \<in> seqs U M"
    proof cases
      case taken
      then show ?thesis using x(2) by (simp add: runs_fit_def spec_ways_def)
    next
      case over
      have "seqs U (spec_ways spec e) = spec_ways (?S spec) e" for spec
        by (cases spec; cases e) (simp_all only: spec_ways_def prod.case ways.simps seqs_shift [of U _ ?K] option_list_map)
      moreover have "t \<in> seqs U X" if "v \<in> X" for X using over(1,2) that by (auto simp: seqs_def)
      ultimately show ?thesis using y(2) over(3) by (metis (no_types, lifting) imageI list.set_intros(2) set_map)
    qed
  next
    fix st ck fls ck'
    assume r: "ready st ck" and e: "check_arms env (TypedMatchArm p g body sp # arms) source st ck = (fls, ck')"
    obtain st1 ck1 where f: "?f (st, ck) = (st1, ck1)" by (cases "?f (st, ck)")
    obtain fl ck2 where h: "check_from env body (flow_normal st1) None ck1 = (fl, ck2)"
      by (cases "check_from env body (flow_normal st1) None ck1")
    obtain fls' where z: "check_arms env arms source st ck2 = (fls', ck')" "fls = fl # fls'"
      using e f h by (simp split: prod.splits)
    have s1: "state_step env (ck_root_types ck) (clean ck1) F T st st1" "steady env ck ck1"
      using F(2) [of "(st, ck)"] r f by (simp_all add: step_ok_def)
    have "?A st ck = (fl, ck2)" using f h by simp
    from keepsD [OF x(3) r this] have k: "steady env ck ck2" "flow_ok env (ck_root_types ck) (clean ck2) n bs cs L st fl" by blast+
    have r2: "ready st ck2" by (rule ready_after [OF r k(1) ready_sane [OF r] refl])
    from y(3) [rule_format, OF r2 z(1)] have l: "steady env ck2 ck'" "flows_ok env (ck_root_types ck) (clean ck') st specs fls'"
      "clean ck' \<Longrightarrow> covers st C \<Longrightarrow> t \<in> M \<Longrightarrow> safe env (ck_root_types ck) C t" for C t
      unfolding steadyD(1) [OF k(1)] by blast+
    have c: "clean ck2" if "clean ck'" by (rule clean_before [OF l(1) that])
    have "steady env ck1 ck2"
      using keepsD [OF w ready_after [OF r s1(2) state_stepD [OF s1(1)]] h] by blast
    then have c1: "clean ck1" if "clean ck'" using clean_before c [OF that] by blast
    have u: "covers_traces env (ck_root_types ck) U st st" if "clean ck'"
    proof (rule passed)
      show "covers_traces env (ck_root_types ck) T st st1" using s1(1) c1 [OF that] by (simp add: state_step_def)
    qed
    have us: "state_step env (ck_root_types ck) (clean ck') ?K U st st"
      using u ready_sane [OF r] by (simp add: state_step_def ms.effect_refl)
    have len: "length specs = length fls'" using l(2) by (simp add: flows_ok_def list_all2_lengthD)
    have each: "(case ?S (specs ! i) of (n, bs, cs, L) \<Rightarrow> flow_ok env (ck_root_types ck) (clean ck') n bs cs L st) (fls' ! i)"
      if i: "i < length specs" for i
    proof -
      obtain n1 bs1 cs1 L1 where s: "specs ! i = (n1, bs1, cs1, L1)" by (metis prod_cases4)
      have "flow_ok env (ck_root_types ck) (clean ck') n1 bs1 cs1 L1 st (fls' ! i)"
        using list_all2_nthD [OF l(2) [unfolded flows_ok_def] i] by (simp add: s)
      moreover have "shape_ok n1 bs1 cs1" using y(1) nth_mem [OF i] by (auto simp: flow_specs_ok_def s)
      ultimately show ?thesis
        unfolding s prod.case by (rule flow_ok_after [OF us keep_ok ready_sane [OF r]])
    qed
    have "flows_ok env (ck_root_types ck) (clean ck') st (map ?S specs) fls'"
      unfolding flows_ok_def by (rule list_all2_all_nthI) (use len each in \<open>simp_all only: length_map nth_map\<close>)
    moreover have "flow_ok env (ck_root_types ck) (clean ck') n bs cs L st fl" by (rule flow_ok_weaken [OF k(2) c])
    moreover have "safe env (ck_root_types ck) C t" if cl: "clean ck'" and cov: "covers st C" and t: "t \<in> seqs U M" for C t
    proof -
      from t obtain a b where ab: "t = a @ b" "a \<in> U" "b \<in> M" by (auto simp: seqs_def)
      with u [OF cl] cov have "safe env (ck_root_types ck) C a" "covers st (after_events C a)"
        unfolding covers_traces_def by blast+
      with l(3) [OF cl] ab show ?thesis by simp
    qed
    ultimately show "steady env ck ck' \<and> flows_ok env (ck_root_types ck) (clean ck') st ((n, bs, cs, L) # map ?S specs) fls
       \<and> (clean ck' \<longrightarrow> (\<forall>C t. covers st C \<longrightarrow> t \<in> seqs U M \<longrightarrow> safe env (ck_root_types ck) C t))"
      using steady_trans [OF k(1) l(1)] z(2) by (simp add: flows_ok_Cons)
  qed
qed

lemma flows_arms_Cons:
  assumes b: "flow_contract env (\<lambda>st ck. check_from env body (flow_normal st) None ck) R"
    and rest: "flows_contract env (\<lambda>st ck. check_arms env arms source st ck) S"
    and a: "alternatives_agree p" and g: "\<And>t. t \<in> optional_traces g \<Longrightarrow> moveless t"
  shows "flows_contract env (\<lambda>st ck. check_arms env (TypedMatchArm p g body sp # arms) source st ck)
     (seq_runs (evaluating (seqs (pattern_traces env p source) (optional_traces g))) R
      \<union> seq_runs (normally ({[]} \<union> seqs (binding_traces p) (optional_traces g))) S)"
  by (rule flows_arms_cons [OF b rest contract_then [OF contract_pattern [OF a] contract_optional] passed_over [OF _ a g]])

text \<open>Without its executions, an arm needs nothing of its guard and its pattern.\<close>

lemma flows_arms_bare:
  assumes "flow_contract env (\<lambda>st ck. check_from env body (flow_normal st) None ck) R"
    and "flows_contract env (\<lambda>st ck. check_arms env arms source st ck) S"
    and "contract env (\<lambda>s. visit_optional env g (apply_pattern env p source s)) {}"
  shows "flows_contract env (\<lambda>st ck. check_arms env (TypedMatchArm p g body sp # arms) source st ck) {}"
proof -
  have "covers_traces env rt {} st st" for rt st by (simp add: covers_traces_def)
  from flows_arms_cons [OF assms(1,2,3) this, of sp] show ?thesis
    by (simp add: seq_runs_def evaluating_def normally_def)
qed

end
