(* ===== verification/Move_Loops.thy ===== *)
theory Move_Loops
  imports Move_Branches
begin

text \<open>
  Loops: the head of a loop is stable after one round, because every place changes in a way that does
  not depend on the state. The state after the loop is the one of the stable round.
\<close>

section \<open>Joins of many states\<close>

text \<open>The join of states with the same roots is at every place the least of their transitions.\<close>

definition alike :: "move_state \<Rightarrow> move_state \<Rightarrow> bool" where
  "alike a b \<longleftrightarrow> sane a \<and> sane b \<and> map fst a = map fst b"

lemma alike_domain: "alike a b \<Longrightarrow> state_at a r q = None \<longleftrightarrow> state_at b r q = None"
  unfolding alike_def by (intro same_domain) (auto dest: saneD)

lemma alike_join: "alike a b \<Longrightarrow> alike (join_two a b) a"
  by (auto simp: alike_def sane_join join_two_roots saneD)

lemma alike_trans: "alike a b \<Longrightarrow> alike b c \<Longrightarrow> alike a c"
  by (simp add: alike_def)

lemma alike_sym: "alike a b \<Longrightarrow> alike b a"
  by (simp add: alike_def)

lemma alike_via: "alike d h \<Longrightarrow> alike a h \<Longrightarrow> alike d a"
  by (simp add: alike_def)

lemma alikeD: "alike a b \<Longrightarrow> sane a" "alike a b \<Longrightarrow> sane b" "alike a b \<Longrightarrow> map fst a = map fst b"
  by (simp_all add: alike_def)

lemma join_at_least:
  assumes "\<And>d. d \<in> set xs \<Longrightarrow> alike d a" "sane a" "state_at (foldl join_two a xs) r q = Some t"
  shows "(\<exists>s\<in>set (a # xs). state_at s r q = Some t)
    \<and> (\<forall>s\<in>set (a # xs). \<forall>u. state_at s r q = Some u \<longrightarrow> join_rank t \<le> join_rank u)"
  using assms
proof (induction xs arbitrary: a)
  case (Cons y ys)
  let ?j = "join_two a y"
  have y: "alike y a" using Cons.prems(1) by simp
  have j: "alike ?j a" using alike_join alike_sym [OF y] by blast
  have IH: "(\<exists>s\<in>set (?j # ys). state_at s r q = Some t)
    \<and> (\<forall>s\<in>set (?j # ys). \<forall>u. state_at s r q = Some u \<longrightarrow> join_rank t \<le> join_rank u)"
  proof (rule Cons.IH)
    show "sane ?j" using j by (simp add: alike_def)
    show "alike d ?j" if "d \<in> set ys" for d
      by (rule alike_via [OF Cons.prems(1) j]) (use that in simp)
    show "state_at (foldl join_two ?j ys) r q = Some t" using Cons.prems(3) by simp
  qed
  show ?case
  proof (cases "state_at a r q")
    case None
    then have "state_at y r q = None" "state_at ?j r q = None" using alike_domain [OF y] alike_domain [OF j] by simp_all
    with IH None show ?thesis by auto
  next
    case (Some u)
    then obtain v where v: "state_at y r q = Some v" using alike_domain [OF y, of r q] by (cases "state_at y r q") simp_all
    have c: "coherent u" "coherent v" using Some v y by (auto simp: alike_def intro: saneD)
    have m: "state_at ?j r q = Some (join_transition u v)"
      using Some v by (simp add: state_at_join saneD(1) alikeD(1,2) [OF y])
    have l: "join_rank (join_transition u v) \<le> join_rank u" "join_rank (join_transition u v) \<le> join_rank v"
      using c by (simp_all add: join_transition_min) (metis linear)+
    have "\<exists>s\<in>{a, y}. state_at s r q = Some (join_transition u v)"
      using join_transition_cases [of u v] Some v by auto
    with IH m have x: "\<exists>s\<in>set (a # y # ys). state_at s r q = Some t" by fastforce
    have "join_rank t \<le> join_rank (join_transition u v)" using IH m by simp
    with l have "join_rank t \<le> join_rank u" "join_rank t \<le> join_rank v" by (blast intro: order_trans)+
    with IH Some v x show ?thesis by simp
  qed
qed auto

lemma alike_foldl:
  assumes "\<And>d. d \<in> set xs \<Longrightarrow> alike d a" "sane a"
  shows "alike (foldl join_two a xs) a"
proof -
  have "sane (foldl join_two a xs) \<and> map fst (foldl join_two a xs) = map fst a"
  proof (rule join_dead_sane)
    show "sane d \<and> map fst d = map fst a" if "d \<in> set (a # xs)" for d
      using that assms alikeD(1) [OF assms(1)] alikeD(3) [OF assms(1)] by (cases "d = a") simp_all
  qed simp
  with assms(2) show ?thesis by (simp add: alike_def)
qed

lemma alike_fold_via:
  assumes "alike e h" "\<And>d. d \<in> set xs \<Longrightarrow> alike d h"
  shows "alike (foldl join_two e xs) h"
  by (rule alike_trans [OF alike_foldl [OF alike_via [OF assms(2) assms(1)] alikeD(1) [OF assms(1)]] assms(1)])

lemma join_covers:
  assumes "\<And>d. d \<in> set xs \<Longrightarrow> alike d a" "sane a" "s \<in> set (a # xs)" "covers s C"
  shows "covers (foldl join_two a xs) C"
  unfolding covers_by_def
proof (intro allI impI)
  fix r q t
  assume t: "state_at (foldl join_two a xs) r q = Some t" "tr_available t"
  have "alike s a" using assms(3)
  proof (cases "s = a")
    case False
    with assms(3) show ?thesis by (intro assms(1)) simp
  qed (use assms(2) in \<open>simp add: alike_def\<close>)
  from alike_domain [OF this, where r = r and q = q] alike_domain [OF alike_foldl [OF assms(1,2)], where r = r and q = q] t(1)
  obtain u where u: "state_at s r q = Some u" by (cases "state_at s r q") simp_all
  with join_at_least [OF assms(1,2) t(1)] assms(3) have "join_rank t \<le> join_rank u" by blast
  with t(2) have "tr_available u" by (auto simp: join_rank_def split: if_splits)
  with u assms(4) show "C r q" by (auto simp: covers_by_def)
qed

section \<open>Effects on larger states\<close>

lemma apply_effect_hom:
  "effect_coherent a \<Longrightarrow> coherent x \<Longrightarrow> coherent y \<Longrightarrow>
   apply_effect a (join_transition x y) = join_transition (apply_effect a x) (apply_effect a y)"
  by (cases a) (simp_all add: join_transition_ac)

lemma apply_effect_rank:
  "effect_coherent a \<Longrightarrow> coherent x \<Longrightarrow> coherent y \<Longrightarrow>
   join_rank (apply_effect a (join_transition x y)) \<le> join_rank (apply_effect a x)"
  using apply_effect_coherent [of a x] apply_effect_coherent [of a y]
  by (simp add: apply_effect_hom) (simp add: join_transition_min, metis linear)

section \<open>One round\<close>

definition round_ok ::
  "move_env \<Rightarrow> outcome_spec \<Rightarrow> outcome_spec list \<Rightarrow> outcome_spec list \<Rightarrow> traces \<Rightarrow> move_state \<Rightarrow> checker \<Rightarrow>
   move_state \<Rightarrow> flow \<Rightarrow> checker \<Rightarrow> bool" where
  "round_ok env x bs ks L h ck e fl ck' \<longleftrightarrow>
     steady env ck ck' \<and> state_step env (ck_root_types ck) (clean ck') (fst x) (snd x) h e
     \<and> outcomes_ok env (ck_root_types ck) (clean ck') h bs (fl_breaks fl)
     \<and> outcomes_ok env (ck_root_types ck) (clean ck') h ks (option_list (fl_normal fl) @ fl_continues fl)
     \<and> (clean ck' \<longrightarrow> (\<forall>C t. covers h C \<longrightarrow> t \<in> L \<longrightarrow> safe env (ck_root_types ck) C t))"

type_synonym round = "(check_state \<Rightarrow> check_state) \<times> flow_step"

definition loop_body :: "move_env \<Rightarrow> outcome_spec \<Rightarrow> outcome_spec list \<Rightarrow> outcome_spec list \<Rightarrow> traces \<Rightarrow> round \<Rightarrow> bool" where
  "loop_body env x bs ks L r \<longleftrightarrow> specs_ok [x] \<and> specs_ok bs \<and> specs_ok ks
     \<and> (\<forall>h ck e ck1 fl ck2. ready h ck \<longrightarrow> fst r (h, ck) = (e, ck1) \<longrightarrow> snd r e ck1 = (fl, ck2) \<longrightarrow>
          round_ok env x bs ks L h ck e fl ck2 \<and> steady env ck ck1 \<and> steady env ck1 ck2)"

lemma loop_bodyD:
  assumes "loop_body env x bs ks L (before, body)"
  shows "specs_ok [x]" "specs_ok bs" "specs_ok ks"
    "ready h ck \<Longrightarrow> before (h, ck) = (e, ck1) \<Longrightarrow> body e ck1 = (fl, ck2) \<Longrightarrow>
     round_ok env x bs ks L h ck e fl ck2 \<and> steady env ck ck1 \<and> steady env ck1 ck2"
  using assms by (auto simp: loop_body_def)

lemma loop_bodyI:
  assumes "effects_ok F" "\<And>s. ready (fst s) (snd s) \<Longrightarrow> step_ok env F T s (before s)"
    and "shape_ok n bs cs" "keeps env n bs cs L body"
  shows "loop_body env (F, T) (map (shift (F, T)) bs) (map (shift (F, T)) (option_list n @ cs)) (seqs T L) (before, body)"
  unfolding loop_body_def fst_conv snd_conv
proof (intro conjI allI impI)
  show "specs_ok [(F, T)]" using assms(1) by simp
  show "specs_ok (map (shift (F, T)) bs)" "specs_ok (map (shift (F, T)) (option_list n @ cs))"
    using specs_ok_shift [OF assms(1)] assms(3) by (auto simp: shape_ok_def simp del: map_append)
  fix h ck e ck1 fl ck2
  assume r: "ready h ck" and b: "before (h, ck) = (e, ck1)" "body e ck1 = (fl, ck2)"
  have s: "state_step env (ck_root_types ck) (clean ck1) F T h e" "steady env ck ck1"
    using assms(2) [of "(h, ck)"] r b(1) by (simp_all add: step_ok_def)
  have r1: "ready e ck1" by (rule ready_after [OF r s(2) state_stepD [OF s(1)]])
  from keepsD [OF assms(4) r1 b(2)] have k: "steady env ck1 ck2" "flow_ok env (ck_root_types ck) (clean ck2) n bs cs L e fl"
    unfolding steadyD(1) [OF s(2)] by blast+
  have s': "state_step env (ck_root_types ck) (clean ck2) F T h e"
    by (rule state_step_mono [OF s(1) clean_before [OF k(1)]])
  have f: "flow_ok env (ck_root_types ck) (clean ck2) (map_option (shift (F, T)) n) (map (shift (F, T)) bs) (map (shift (F, T)) cs) (seqs T L) h fl"
    by (rule flow_ok_after [OF s' assms(1) ready_sane [OF r] k(2) assms(3)])
  then have "outcomes_ok env (ck_root_types ck) (clean ck2) h (map (shift (F, T)) (option_list n @ cs)) (option_list (fl_normal fl) @ fl_continues fl)"
    unfolding flow_ok_def outcomes_option map_append option_list_map by (blast intro: outcomes_append)
  with f s' steady_trans [OF s(2) k(1)]
  show "round_ok env (F, T) (map (shift (F, T)) bs) (map (shift (F, T)) (option_list n @ cs)) (seqs T L) h ck e fl ck2"
    by (simp add: round_ok_def flow_ok_def)
  show "steady env ck ck1" "steady env ck1 ck2" by (rule s(2), rule k(1))
qed

lemma outcomes_alike: "outcomes_ok env rt c st specs sts \<Longrightarrow> sane st \<Longrightarrow> d \<in> set sts \<Longrightarrow> alike d st"
proof -
  assume a: "outcomes_ok env rt c st specs sts" "sane st" "d \<in> set sts"
  then obtain i where i: "i < length sts" "sts ! i = d" by (auto simp: in_set_conv_nth)
  obtain F T where "specs ! i = (F, T)" by (cases "specs ! i")
  with list_all2_nthD2 [OF a(1) [unfolded outcomes_ok_def] i(1)] i(2) a(2) show ?thesis by (simp add: state_step_def alike_def)
qed

lemma outcomes_length: "outcomes_ok env rt c st specs sts \<Longrightarrow> length sts = length specs"
  by (simp add: outcomes_ok_def list_all2_lengthD)

lemma next_head_simps:
  "option_list (fl_normal fl) @ fl_continues fl = [] \<Longrightarrow> next_head entry fl = entry"
  "option_list (fl_normal fl) @ fl_continues fl = a # as \<Longrightarrow> next_head entry fl = join_two entry (foldl join_two a as)"
  by (simp_all add: next_head_def)

lemma next_head_alike:
  assumes "\<And>d. d \<in> set (option_list (fl_normal fl) @ fl_continues fl) \<Longrightarrow> alike d entry" "sane entry"
  shows "alike (next_head entry fl) entry"
proof (cases "option_list (fl_normal fl) @ fl_continues fl")
  case Nil
  then show ?thesis using assms(2) by (simp add: next_head_simps(1) alike_def)
next
  case (Cons a as)
  have a: "alike a entry" and as: "\<And>d. d \<in> set as \<Longrightarrow> alike d entry" using assms(1) unfolding Cons by simp_all
  have j: "alike (foldl join_two a as) entry" by (rule alike_fold_via [OF a as])
  have "alike entry entry" using assms(2) by (simp add: alike_def)
  from alike_join [OF alike_via [OF this j]] show ?thesis unfolding next_head_simps(2) [OF Cons] .
qed

lemma loop_rounds_Suc:
  assumes "before (head, ck) = (e, ck1)" "body e ck1 = (fl, ck2)"
  shows "loop_rounds before body entry (Suc n) head breaks ck =
     (if next_head entry fl = head then (flow_default\<lparr>fl_normal := join_states (e # breaks @ fl_breaks fl)\<rparr>, ck2)
      else loop_rounds before body entry n (next_head entry fl) (breaks @ fl_breaks fl) ck2)"
  using assms by simp

text \<open>Whatever the number of rounds, a loop keeps the roots and leaves one way.\<close>

lemma rounds_steady:
  assumes body: "loop_body env x bs ks L (before, body)" and before: "contract env before T"
    and "ready head ck" "alike entry head" "\<And>d. d \<in> set breaks \<Longrightarrow> alike d head"
    and "loop_rounds before body entry n head breaks ck = (fl, ck')"
  shows "steady env ck ck' \<and> (\<exists>r. fl = flow_default\<lparr>fl_normal := Some r\<rparr> \<and> alike r head)"
  using assms(3-)
proof (induction n arbitrary: head breaks ck)
  case 0
  obtain e ck1 where e: "before (head, ck) = (e, ck1)" by (cases "before (head, ck)")
  obtain F where F: "step_ok env F T (head, ck) (e, ck1)" using before 0(1) e unfolding contract_def by fastforce
  have a: "alike e head" using F ready_sane [OF 0(1)] by (auto simp: step_ok_def state_step_def alike_def)
  have "alike (foldl join_two e breaks) head" by (rule alike_fold_via [OF a 0(3)])
  with 0(4) e F show ?case by (auto simp: step_ok_def)
next
  case (Suc n)
  obtain e ck1 where e: "before (head, ck) = (e, ck1)" by (cases "before (head, ck)")
  obtain f ck2 where f: "body e ck1 = (f, ck2)" by (cases "body e ck1")
  from loop_bodyD(4) [OF body Suc.prems(1) e f] have r: "round_ok env x bs ks L head ck e f ck2" ..
  have s: "sane head" by (rule ready_sane [OF Suc.prems(1)])
  have st: "steady env ck ck2" using r by (simp add: round_ok_def)
  have ro: "state_step env (ck_root_types ck) (clean ck2) (fst x) (snd x) head e"
    "outcomes_ok env (ck_root_types ck) (clean ck2) head bs (fl_breaks f)"
    "outcomes_ok env (ck_root_types ck) (clean ck2) head ks (option_list (fl_normal f) @ fl_continues f)"
    using r by (simp_all add: round_ok_def)
  have al: "alike e head" "\<And>d. d \<in> set (breaks @ fl_breaks f) \<Longrightarrow> alike d head"
    "\<And>d. d \<in> set (option_list (fl_normal f) @ fl_continues f) \<Longrightarrow> alike d head"
    using ro(1) s Suc.prems(3) outcomes_alike [OF ro(2) s] outcomes_alike [OF ro(3) s]
    by (auto simp: state_step_def alike_def)
  show ?case
  proof (cases "next_head entry f = head")
    case True
    have "alike (foldl join_two e (breaks @ fl_breaks f)) head" by (rule alike_fold_via [OF al(1,2)])
    with Suc.prems(4) st True show ?thesis unfolding loop_rounds_Suc [where before = before and body = body, OF e f] by auto
  next
    case False
    have "alike (next_head entry f) entry"
      by (rule next_head_alike [OF alike_via [OF al(3) Suc.prems(2)] alikeD(1) [OF Suc.prems(2)]])
    from alike_trans [OF this Suc.prems(2)] have nh: "alike (next_head entry f) head" .
    have "steady env ck2 ck' \<and> (\<exists>r. fl = flow_default\<lparr>fl_normal := Some r\<rparr> \<and> alike r (next_head entry f))"
    proof (rule Suc.IH)
      show "ready (next_head entry f) ck2" by (rule ready_after [OF Suc.prems(1) st alikeD(1) [OF nh] alikeD(3) [OF nh]])
      show "alike entry (next_head entry f)" by (rule alike_via [OF Suc.prems(2) nh])
      show "alike d (next_head entry f)" if "d \<in> set (breaks @ fl_breaks f)" for d
        by (rule alike_via [OF al(2) [OF that] nh])
      show "loop_rounds before body entry n (next_head entry f) (breaks @ fl_breaks f) ck2 = (fl, ck')"
        using Suc.prems(4) False unfolding loop_rounds_Suc [where before = before and body = body, OF e f] by simp
    qed
    then obtain r where "steady env ck2 ck'" "fl = flow_default\<lparr>fl_normal := Some r\<rparr>" "alike r (next_head entry f)" by blast
    with steady_trans [OF st] alike_trans [OF _ nh] show ?thesis by blast
  qed
qed

section \<open>The stable round\<close>

text \<open>The effect of going back to the head, joined with the entry\<close>

definition head_effects :: "outcome_spec list \<Rightarrow> effects" where
  "head_effects ks = (if ks = [] then (\<lambda>r q. Keep) else effects_join (\<lambda>r q. Keep) (join_effects (map fst ks)))"

lemma head_effects_ok:
  assumes "specs_ok ks"
  shows "effects_ok (head_effects ks)"
proof -
  have "effects_ok F" if "F \<in> set (map fst ks)" for F using assms that by (force simp: specs_ok_def)
  then have "effects_ok (join_effects (map fst ks))" by (rule join_effects_ok)
  then show ?thesis by (simp add: head_effects_def effects_ok_join)
qed

lemma next_head_step:
  assumes "outcomes_ok env rt True h ks (option_list (fl_normal fl) @ fl_continues fl)" "specs_ok ks" "sane h" "sane entry"
    "ks \<noteq> []" "map fst h = map fst entry"
  shows "\<exists>b. next_head entry fl = join_two entry b \<and> alike b h \<and> has_effect (join_effects (map fst ks)) h b"
proof -
  from join_states_step [OF assms(1,2,3,5)] obtain b where b: "join_states (option_list (fl_normal fl) @ fl_continues fl) = Some b"
    "state_step env rt True (join_effects (map fst ks)) (\<Union> (snd ` set ks)) h b" by blast
  then have "next_head entry fl = join_two entry b" by (simp add: next_head_def)
  moreover have "alike b h" using b(2) assms(3) by (simp add: state_step_def alike_def)
  ultimately show ?thesis using b(2) by (auto simp: state_step_def)
qed

lemma next_head_effect:
  assumes "outcomes_ok env rt True entry ks (option_list (fl_normal fl) @ fl_continues fl)" "specs_ok ks" "sane entry"
  shows "has_effect (head_effects ks) entry (next_head entry fl)"
proof (cases "ks = []")
  case True
  with assms(1) have "option_list (fl_normal fl) @ fl_continues fl = []" by (simp add: outcomes_ok_def)
  with True show ?thesis by (simp add: next_head_simps(1) head_effects_def ms.effect_refl)
next
  case False
  from next_head_step [OF assms(1,2,3,3) False refl] obtain b where b: "next_head entry fl = join_two entry b" "alike b entry"
    "has_effect (join_effects (map fst ks)) entry b" by blast
  have "effects_ok F" if "F \<in> set (map fst ks)" for F using assms(2) that by (force simp: specs_ok_def)
  then have "effects_ok (join_effects (map fst ks))" by (rule join_effects_ok)
  from has_effect_join [OF assms(3) assms(3) alikeD(1) [OF b(2)] keep_ok this ms.effect_refl b(3)]
  show ?thesis using False by (simp add: head_effects_def b(1))
qed

text \<open>The second head is stable.\<close>

lemma second_head_stable:
  assumes o: "outcomes_ok env rt True entry ks (option_list (fl_normal fl) @ fl_continues fl)"
    and o': "outcomes_ok env rt True (next_head entry fl) ks (option_list (fl_normal fl') @ fl_continues fl')"
    and ks: "specs_ok ks" and s: "sane entry"
  shows "next_head entry fl' = next_head entry fl"
proof (cases "ks = []")
  case True
  with o o' have "option_list (fl_normal fl) @ fl_continues fl = []" "option_list (fl_normal fl') @ fl_continues fl' = []"
    by (simp_all add: outcomes_ok_def)
  then show ?thesis by (simp add: next_head_simps(1))
next
  case False
  let ?B = "join_effects (map fst ks)"
  from next_head_step [OF o ks s s False refl] obtain b where b: "next_head entry fl = join_two entry b" "alike b entry"
    "has_effect ?B entry b" by blast
  have al: "alike (join_two entry b) entry" by (rule alike_join [OF alike_sym [OF b(2)]])
  from next_head_step [OF o' ks _ s False] al obtain b' where b': "next_head entry fl' = join_two entry b'"
    "alike b' (join_two entry b)" "has_effect ?B (join_two entry b) b'" by (auto simp: b(1) alike_def)
  have al': "alike b' entry" by (rule alike_trans [OF b'(2) al])
  have "effects_ok F" if "F \<in> set (map fst ks)" for F using ks that by (force simp: specs_ok_def)
  then have ok: "effects_ok ?B" by (rule join_effects_ok)
  have "state_at (join_two entry b') r q = state_at (join_two entry b) r q" for r q
  proof (cases "state_at entry r q")
    case None
    then show ?thesis
      using b(3) b'(3) unfolding effect_by_def by (simp add: state_at_join saneD(1) alikeD(1,2) [OF b(2)] alikeD(1) [OF al'])
  next
    case (Some t)
    have "coherent t" using saneD(2) [OF s Some] .
    with ok effect_stable [of "?B r q" t] Some b(3) b'(3) show ?thesis
      unfolding effect_by_def
      by (simp add: state_at_join saneD(1) alikeD(1,2) [OF b(2)] alikeD(1) [OF al'] effects_ok_def)
  qed
  moreover have "state_pruned (join_two entry b')" "state_pruned (join_two entry b)"
    using alikeD [OF b(2)] alikeD [OF al'] by (auto intro!: state_pruned_join saneD(1))
  moreover have "state_ok (join_two entry b')" "state_ok (join_two entry b)"
    using alikeD [OF b(2)] alikeD [OF al'] by (simp_all add: saneD(1))
  ultimately show ?thesis unfolding b(1) b'(1) by (intro state_eqI) blast+
qed

text \<open>A loop without diagnostics ends with a round from a stable head, after at most one other round.\<close>

lemma next_head_joins:
  assumes "\<And>d. d \<in> set (option_list (fl_normal fl) @ fl_continues fl) \<Longrightarrow> alike d entry" "sane entry"
  obtains "next_head entry fl = entry" | b where "alike b entry" "next_head entry fl = join_two entry b"
proof (cases "option_list (fl_normal fl) @ fl_continues fl")
  case Nil
  with that(1) show ?thesis by (simp add: next_head_simps(1))
next
  case (Cons a as)
  have "alike (foldl join_two a as) entry" by (rule alike_fold_via) (use assms(1) in \<open>simp_all only: Cons list.set_intros\<close>)
  with that(2) next_head_simps(2) [OF Cons] show ?thesis by blast
qed

lemma next_head_covers:
  assumes "\<And>d. d \<in> set (option_list (fl_normal fl) @ fl_continues fl) \<Longrightarrow> alike d entry" "sane entry"
    "s \<in> set (option_list (fl_normal fl) @ fl_continues fl)" "covers s C"
  shows "covers (next_head entry fl) C"
proof (cases "option_list (fl_normal fl) @ fl_continues fl")
  case Nil
  with assms(3) show ?thesis by simp
next
  case (Cons a as)
  have al: "\<And>d. d \<in> set (a # as) \<Longrightarrow> alike d entry" using assms(1) by (simp only: Cons)
  have a: "alike a entry" "\<And>d. d \<in> set as \<Longrightarrow> alike d entry" using al by simp_all
  have j: "alike (foldl join_two a as) entry" by (rule alike_fold_via [OF a])
  have "covers (foldl join_two a as) C"
    by (rule join_covers [OF alike_via [OF a(2) a(1)] alikeD(1) [OF a(1)] _ assms(4)]) (use assms(3) in \<open>simp_all only: Cons\<close>)
  with j assms(2) show ?thesis unfolding next_head_simps(2) [OF Cons] by (intro covers_join) (auto simp: alike_def)
qed

lemma rounds_after:
  assumes body: "loop_body env x bs ks L (before, body)" and before: "contract env before T"
    and r: "ready head ck" "alike entry head" "\<And>d. d \<in> set breaks \<Longrightarrow> alike d head"
    and l: "loop_rounds before body entry (Suc n) head breaks ck = (fl, ck')"
    and e: "before (head, ck) = (ex, ck1)" "body ex ck1 = (f, ck2)"
  shows "steady env ck2 ck'"
proof -
  from loop_bodyD(4) [OF body r(1) e] have ro: "round_ok env x bs ks L head ck ex f ck2" ..
  have s: "sane head" by (rule ready_sane [OF r(1)])
  have st: "steady env ck ck2" using ro by (simp add: round_ok_def)
  show ?thesis
  proof (cases "next_head entry f = head")
    case True
    with l steadyD(2) [OF st] show ?thesis
      unfolding loop_rounds_Suc [where before = before and body = body, OF e] by (simp add: steady_refl)
  next
    case False
    have o: "outcomes_ok env (ck_root_types ck) (clean ck2) head bs (fl_breaks f)"
      "outcomes_ok env (ck_root_types ck) (clean ck2) head ks (option_list (fl_normal f) @ fl_continues f)"
      using ro by (simp_all add: round_ok_def)
    have "alike (next_head entry f) entry"
      by (rule next_head_alike [OF alike_via [OF outcomes_alike [OF o(2) s] r(2)] alikeD(1) [OF r(2)]])
    from alike_trans [OF this r(2)] have nh: "alike (next_head entry f) head" .
    have "steady env ck2 ck' \<and> (\<exists>r. fl = flow_default\<lparr>fl_normal := Some r\<rparr> \<and> alike r (next_head entry f))"
    proof (rule rounds_steady [OF body before])
      show "ready (next_head entry f) ck2" by (rule ready_after [OF r(1) st alikeD(1) [OF nh] alikeD(3) [OF nh]])
      show "alike entry (next_head entry f)" by (rule alike_via [OF r(2) nh])
      show "alike d (next_head entry f)" if "d \<in> set (breaks @ fl_breaks f)" for d
      proof (rule alike_via [OF _ nh])
        show "alike d head" using that r(3) outcomes_alike [OF o(1) s] by auto
      qed
      show "loop_rounds before body entry n (next_head entry f) (breaks @ fl_breaks f) ck2 = (fl, ck')"
        using l False unfolding loop_rounds_Suc [where before = before and body = body, OF e] by simp
    qed
    then show ?thesis ..
  qed
qed

lemma rounds_stable:
  assumes body: "loop_body env x bs ks L (before, body)" and before: "contract env before T"
    and r: "ready entry ck"
    and l: "loop_rounds before body entry (Suc (Suc n)) entry [] ck = (fl, ck')" and c: "clean ck'"
  obtains h early ex f where "ck' = ck" "round_ok env x bs ks L h ck ex f ck" "alike h entry" "next_head entry f = h"
    "has_effect (head_effects ks) entry h" "\<And>C. covers entry C \<Longrightarrow> covers h C"
    "early = [] \<or> outcomes_ok env (ck_root_types ck) True entry bs early \<and> (\<exists>b. alike b entry \<and> h = join_two entry b)"
    "fl = flow_default\<lparr>fl_normal := join_states (ex # early @ fl_breaks f)\<rparr>"
    "\<And>m. loop_rounds before body entry (Suc (Suc m)) entry [] ck = (fl, ck')"
proof -
  have s: "sane entry" by (rule ready_sane [OF r])
  then have ee: "alike entry entry" by (simp add: alike_def)
  obtain ex ck1 where e: "before (entry, ck) = (ex, ck1)" by (cases "before (entry, ck)")
  obtain f ck2 where f: "body ex ck1 = (f, ck2)" by (cases "body ex ck1")
  have ks: "specs_ok ks" by (rule loop_bodyD(3) [OF body])
  from loop_bodyD(4) [OF body r e f] have ro: "round_ok env x bs ks L entry ck ex f ck2" ..
  have "steady env ck2 ck'" by (rule rounds_after [OF body before r ee _ l e f]) simp
  then have c2: "clean ck2" and eq: "ck' = ck2" using c clean_before steadyD(3) by blast+
  moreover have "steady env ck ck2" using ro by (simp add: round_ok_def)
  ultimately have k: "ck2 = ck" using steadyD(3) by blast
  have ck: "clean ck" using c2 k by simp
  have ro1: "round_ok env x bs ks L entry ck ex f ck" using ro k by simp
  then have o: "outcomes_ok env (ck_root_types ck) True entry ks (option_list (fl_normal f) @ fl_continues f)"
    "outcomes_ok env (ck_root_types ck) True entry bs (fl_breaks f)" using ck by (simp_all add: round_ok_def)
  have eff: "has_effect (head_effects ks) entry (next_head entry f)" by (rule next_head_effect [OF o(1) ks s])
  show ?thesis
  proof (cases "next_head entry f = entry")
    case True
    show ?thesis
    proof (rule that [where early = "[]", OF _ ro1 ee True])
      show "ck' = ck" using eq k by simp
      show "has_effect (head_effects ks) entry entry" using eff True by simp
      show "fl = flow_default\<lparr>fl_normal := join_states (ex # [] @ fl_breaks f)\<rparr>"
        using l True unfolding loop_rounds_Suc [where before = before and body = body, OF e f] by simp
      show "loop_rounds before body entry (Suc (Suc m)) entry [] ck = (fl, ck')" for m
        using l True unfolding loop_rounds_Suc [where before = before and body = body, OF e f] by simp
    qed simp_all
  next
    case False
    let ?h = "next_head entry f"
    have al: "alike ?h entry" by (rule next_head_alike [OF outcomes_alike [OF o(1) s] s])
    have rh: "ready ?h ck" using r al by (simp add: ready_def alike_def)
    have l': "loop_rounds before body entry (Suc n) ?h (fl_breaks f) ck = (fl, ck')"
      using l False k unfolding loop_rounds_Suc [where before = before and body = body, OF e f] by simp
    obtain ex' ck3 where e': "before (?h, ck) = (ex', ck3)" by (cases "before (?h, ck)")
    obtain f' ck4 where f': "body ex' ck3 = (f', ck4)" by (cases "body ex' ck3")
    from loop_bodyD(4) [OF body rh e' f'] have rp: "round_ok env x bs ks L ?h ck ex' f' ck4" ..
    have "steady env ck4 ck'"
      by (rule rounds_after [OF body before rh alike_sym [OF al] _ l' e' f'])
        (rule alike_via [OF outcomes_alike [OF o(2) s] al])
    then have k4: "ck' = ck4" "clean ck4" using c clean_before steadyD(3) by blast+
    moreover have "steady env ck ck4" using rp by (simp add: round_ok_def)
    ultimately have k5: "ck4 = ck" using steadyD(3) by blast
    have ro2: "round_ok env x bs ks L ?h ck ex' f' ck" using rp k5 by simp
    then have o2: "outcomes_ok env (ck_root_types ck) True ?h ks (option_list (fl_normal f') @ fl_continues f')"
      using ck by (simp add: round_ok_def)
    have stable: "next_head entry f' = ?h" by (rule second_head_stable [OF o(1) o2 ks s])
    from next_head_joins [OF outcomes_alike [OF o(1) s] s] False obtain b where b: "alike b entry" "?h = join_two entry b" by blast
    show ?thesis
    proof (rule that [where early = "fl_breaks f", OF _ ro2 al stable eff])
      show "ck' = ck" using k4 k5 by simp
      show "covers ?h C" if "covers entry C" for C
        unfolding b(2) using that b(1) s by (intro covers_join) (auto simp: alike_def)
      show "fl_breaks f = [] \<or> outcomes_ok env (ck_root_types ck) True entry bs (fl_breaks f) \<and> (\<exists>b. alike b entry \<and> ?h = join_two entry b)"
        using o(2) b by blast
      show "fl = flow_default\<lparr>fl_normal := join_states (ex' # fl_breaks f @ fl_breaks f')\<rparr>"
        using l' stable unfolding loop_rounds_Suc [where before = before and body = body, OF e' f'] by simp
      have "loop_rounds before body entry (Suc m) ?h (fl_breaks f) ck = (fl, ck')" for m
        using l' stable unfolding loop_rounds_Suc [where before = before and body = body, OF e' f'] by simp
      then show "loop_rounds before body entry (Suc (Suc m)) entry [] ck = (fl, ck')" for m
        using False k unfolding loop_rounds_Suc [where before = before and body = body, OF e f] by simp
    qed
  qed
qed

section \<open>The contract of a loop\<close>

text \<open>Breaks of the first round, made from the entry, add nothing to the breaks of the stable round.\<close>

lemma earlier_breaks_absorbed:
  assumes h: "alike h entry" and ex: "alike ex h"
    and o: "outcomes_ok env rt True entry bs early" "outcomes_ok env rt True h bs late" and bs: "specs_ok bs"
    and j: "h = join_two entry b" "alike b entry"
  shows "state_at (foldl join_two ex (early @ late)) r q = state_at (foldl join_two ex late) r q"
proof -
  have s: "sane h" "sane entry" using h by (simp_all add: alike_def)
  have al: "\<And>d. d \<in> set late \<Longrightarrow> alike d ex" by (rule alike_via [OF outcomes_alike [OF o(2) s(1)] ex])
  have eh: "alike ex entry" by (rule alike_trans [OF ex h])
  have al': "\<And>d. d \<in> set (early @ late) \<Longrightarrow> alike d ex"
    using al alike_via [OF outcomes_alike [OF o(1) s(2)] eh] by auto
  have e: "sane ex" using ex by (simp add: alike_def)
  have dom: "alike (foldl join_two ex (early @ late)) ex" by (rule alike_foldl [OF al' e])
  have dom_late: "alike (foldl join_two ex late) ex" by (rule alike_foldl [OF al e])
  show ?thesis
  proof (cases "state_at (foldl join_two ex late) r q")
    case None
    with alike_domain [OF dom, where r = r and q = q] alike_domain [OF dom_late, where r = r and q = q] show ?thesis by simp
  next
    case (Some t')
    then obtain t where t: "state_at (foldl join_two ex (early @ late)) r q = Some t"
      using alike_domain [OF dom, where r = r and q = q] alike_domain [OF dom_late, where r = r and q = q]
      by (cases "state_at (foldl join_two ex (early @ late)) r q") simp_all
    note lo = join_at_least [OF al e Some] and hi = join_at_least [OF al' e t]
    from lo obtain z where "z \<in> set (ex # late)" "state_at z r q = Some t'" by blast
    with hi have le: "join_rank t \<le> join_rank t'" by auto
    from hi obtain y where y: "y \<in> set (ex # early @ late)" "state_at y r q = Some t" by blast
    have "join_rank t' \<le> join_rank t"
    proof (cases "y \<in> set (ex # late)")
      case True
      with lo y(2) show ?thesis by blast
    next
      case False
      with y(1) obtain i where i: "i < length early" "early ! i = y" by (auto simp: in_set_conv_nth)
      obtain F T where F: "bs ! i = (F, T)" by (cases "bs ! i")
      have len: "length early = length bs" "length late = length bs" using o by (simp_all add: outcomes_length)
      have "has_effect F entry y" "has_effect F h (late ! i)"
        using list_all2_nthD2 [OF o(1) [unfolded outcomes_ok_def] i(1)] list_all2_nthD2 [OF o(2) [unfolded outcomes_ok_def], of i] i len
        by (simp_all add: F state_step_def)
      note F' = this
      obtain v where v: "state_at entry r q = Some v" "t = apply_effect (F r q) v"
        using F'(1) y(2) by (auto simp: effect_by_def)
      obtain w where w: "state_at b r q = Some w" using alike_domain [OF j(2), where r = r and q = q] v(1) by (cases "state_at b r q") simp_all
      have "state_at h r q = Some (join_transition v w)"
        using v(1) w s(2) j(2) by (simp add: j(1) state_at_join saneD(1) alikeD(1))
      with F'(2) have "state_at (late ! i) r q = Some (apply_effect (F r q) (join_transition v w))" by (simp add: effect_by_def)
      moreover have "late ! i \<in> set (ex # late)" using i len by simp
      ultimately have "join_rank t' \<le> join_rank (apply_effect (F r q) (join_transition v w))" using lo by blast
      also have "\<dots> \<le> join_rank t"
      proof -
        have "(F, T) \<in> set bs" using F i(1) len by (metis nth_mem)
        then have "effects_ok F" using bs by (auto simp: specs_ok_def)
        moreover have "coherent v" "coherent w" using saneD(2) [OF s(2) v(1)] saneD(2) [OF alikeD(1) [OF j(2)] w] .
        ultimately show ?thesis unfolding v(2) by (intro apply_effect_rank) (simp_all add: effects_ok_def)
      qed
      finally show ?thesis .
    qed
    with le have "t = t'" by (simp add: join_rank_inject [symmetric])
    with Some t show ?thesis by simp
  qed
qed

lemma outcome_covers:
  assumes "outcomes_ok env rt True st specs sts" "(G, U) \<in> set specs" "covers st C" "u \<in> U"
  shows "safe env rt C u \<and> (\<exists>s\<in>set sts. covers s (after_events C u))"
proof -
  from assms(2) obtain i where i: "i < length specs" "specs ! i = (G, U)" by (auto simp: in_set_conv_nth)
  with list_all2_nthD [OF assms(1) [unfolded outcomes_ok_def] i(1)] assms(3,4)
  have "safe env rt C u" "covers (sts ! i) (after_events C u)" by (simp_all add: state_step_def covers_traces_def)
  moreover have "sts ! i \<in> set sts" using i(1) outcomes_length [OF assms(1)] by simp
  ultimately show ?thesis by blast
qed

text \<open>Every execution of the loop is covered by the stable round.\<close>

lemma loop_covers:
  assumes ro: "round_ok env (F, T) (map (shift (F, T)) bs) (map (shift (F, T)) (option_list n @ cs)) (seqs T L) h ck ex f ck"
    and c: "clean ck" and h: "next_head entry f = h" "alike h entry"
    and fit: "runs_fit n bs cs L R"
    and run: "(t, e) \<in> loop_runs (evaluating T) R" and cov: "covers h C"
  shows "safe env (ck_root_types ck) C t
     \<and> (e = EndNormal \<and> (\<exists>s\<in>set (ex # fl_breaks f). covers s (after_events C t)) \<or> e = EndLeave)"
proof -
  let ?rt = "ck_root_types ck"
  have st: "state_step env ?rt True F T h ex"
    and b: "outcomes_ok env ?rt True h (map (shift (F, T)) bs) (fl_breaks f)"
    and k: "outcomes_ok env ?rt True h (map (shift (F, T)) (option_list n @ cs)) (option_list (fl_normal f) @ fl_continues f)"
    and l: "\<And>C t. covers h C \<Longrightarrow> t \<in> seqs T L \<Longrightarrow> safe env ?rt C t"
    using ro c by (simp_all add: round_ok_def)
  have sh: "sane h" using h(2) by (simp add: alike_def)
  have al: "alike d entry" if "d \<in> set (option_list (fl_normal f) @ fl_continues f)" for d
    by (rule alike_trans [OF outcomes_alike [OF k sh that] h(2)])
  have T: "safe env ?rt C t" "covers ex (after_events C t)" if "covers h C" "t \<in> T" for C t
    using st that by (simp_all add: state_step_def covers_traces_def)
  have ev: "(t, EndNormal) \<in> evaluating T \<longleftrightarrow> t \<in> T" for t by (auto simp: evaluating_def normally_def)
  have sq: "(effects_then F G, seqs T U) \<in> set (map (shift (F, T)) specs) \<and> t @ u \<in> seqs T U"
    if "(G, U) \<in> set specs" "t \<in> T" "u \<in> U" for G U specs t u
    using that by (force simp: shift_def seqs_def)
  from run cov show ?thesis
  proof (induction arbitrary: C rule: loop_runs.induct)
    case (exit t)
    with T show ?case by (auto simp: ev)
  next
    case (head_leaves t)
    then obtain u where "u \<in> T" "prefix t u" by (auto simp: evaluating_def normally_def)
    with T(1) [OF head_leaves(2)] safe_prefix show ?case by blast
  next
    case (again t b e l e')
    have "b \<in> ways n bs cs L e" by (rule fit [unfolded runs_fit_def, rule_format, OF again(2)])
    with again(3) have "\<exists>x\<in>set (option_list n @ cs). b \<in> snd x" by auto
    then obtain G U where G: "(G, U) \<in> set (option_list n @ cs)" "b \<in> U" by fastforce
    from sq [OF G(1) _ G(2), of t] again(1) have x: "(effects_then F G, seqs T U) \<in> set (map (shift (F, T)) (option_list n @ cs))"
      "t @ b \<in> seqs T U" by (simp_all add: ev)
    from outcome_covers [OF k x(1) again(6) x(2)] obtain s where s: "safe env ?rt C (t @ b)"
      "s \<in> set (option_list (fl_normal f) @ fl_continues f)" "covers s (after_events C (t @ b))" by blast
    have "covers h (after_events C (t @ b))"
      using next_head_covers [OF al alikeD(2) [OF h(2)] s(2,3)] unfolding h(1) .
    from again(5) [OF this] s(1) show ?case by simp
  next
    case (breaks t u)
    have "u \<in> ways n bs cs L EndBreak" by (rule fit [unfolded runs_fit_def, rule_format, OF breaks(2)])
    then obtain G U where G: "(G, U) \<in> set bs" "u \<in> U" by auto
    from sq [OF G(1) _ G(2), of t] breaks(1) have x: "(effects_then F G, seqs T U) \<in> set (map (shift (F, T)) bs)"
      "t @ u \<in> seqs T U" by (simp_all add: ev)
    from outcome_covers [OF b x(1) breaks(3) x(2)] show ?case by auto
  next
    case (leaves t u)
    have "u \<in> ways n bs cs L EndLeave" by (rule fit [unfolded runs_fit_def, rule_format, OF leaves(2)])
    with leaves(1) have "t @ u \<in> seqs T L" by (auto simp: ev seqs_def)
    from l [OF leaves(3) this] show ?case by simp
  qed
qed

lemma flow_loop:
  assumes before: "contract env before T" and body: "flow_contract env body R"
  shows "flow_contract env (\<lambda>st ck. loop_rounds before body st (Suc (Suc (n ck))) st [] ck) (loop_runs (evaluating T) R)"
proof -
  obtain F where F: "effects_ok F" "\<And>s. ready (fst s) (snd s) \<Longrightarrow> step_ok env F T s (before s)"
    using before by (auto simp: contract_def)
  obtain m bs cs L where b: "shape_ok m bs cs" "runs_fit m bs cs L R" "keeps env m bs cs L body"
    using body by (auto simp: flow_contract_def)
  let ?bs = "map (shift (F, T)) bs" and ?ks = "map (shift (F, T)) (option_list m @ cs)"
  let ?J = "join_effects (F # map fst ?bs)"
  let ?E = "effects_then (head_effects ?ks) ?J"
  let ?N = "{t. (t, EndNormal) \<in> loop_runs (evaluating T) R}" and ?L = "{t. (t, EndLeave) \<in> loop_runs (evaluating T) R}"
  let ?n = "Some (?E, ?N) :: outcome_spec option"
  have lb: "loop_body env (F, T) ?bs ?ks (seqs T L) (before, body)" by (rule loop_bodyI [OF F b(1,3)])
  have sb: "specs_ok ?bs" and sk: "specs_ok ?ks" by (rule loop_bodyD(2) [OF lb], rule loop_bodyD(3) [OF lb])
  have J: "effects_ok ?J"
  proof (rule join_effects_ok)
    show "effects_ok G" if "G \<in> set (F # map fst ?bs)" for G using that F(1) sb by (force simp: specs_ok_def)
  qed
  have "keeps env ?n [] [] ?L (\<lambda>st ck. loop_rounds before body st (Suc (Suc (n ck))) st [] ck)"
  proof (rule keepsI)
    fix st ck fl ck'
    assume r: "ready st ck" and e: "loop_rounds before body st (Suc (Suc (n ck))) st [] ck = (fl, ck')"
    have s: "sane st" by (rule ready_sane [OF r])
    then have ss: "alike st st" by (simp add: alike_def)
    from rounds_steady [OF lb before r ss _ e] obtain res where res: "steady env ck ck'" "fl = flow_default\<lparr>fl_normal := Some res\<rparr>" "alike res st"
      by auto
    have "has_effect ?E st res \<and> covers_traces env (ck_root_types ck) ?N st res
        \<and> (\<forall>C t. covers st C \<longrightarrow> t \<in> ?L \<longrightarrow> safe env (ck_root_types ck) C t)" if c: "clean ck'"
    proof -
      obtain h early ex f where x: "ck' = ck" "round_ok env (F, T) ?bs ?ks (seqs T L) h ck ex f ck" "alike h st" "next_head st f = h"
        "has_effect (head_effects ?ks) st h" "\<And>C. covers st C \<Longrightarrow> covers h C"
        "early = [] \<or> outcomes_ok env (ck_root_types ck) True st ?bs early \<and> (\<exists>b. alike b st \<and> h = join_two st b)"
        "fl = flow_default\<lparr>fl_normal := join_states (ex # early @ fl_breaks f)\<rparr>"
        using rounds_stable [OF lb before r e c] by metis
      have ck: "clean ck" using c x(1) by simp
      have o: "state_step env (ck_root_types ck) True F T h ex" "outcomes_ok env (ck_root_types ck) True h ?bs (fl_breaks f)"
        using x(2) ck by (simp_all add: round_ok_def)
      have sh: "sane h" using x(3) by (simp add: alike_def)
      have eh: "alike ex h" using o(1) sh by (simp add: state_step_def alike_def)
      let ?late = "foldl join_two ex (fl_breaks f)"
      have rs: "res = foldl join_two ex (early @ fl_breaks f)"
      proof -
        have "fl_normal fl = Some res" unfolding res(2) by simp
        moreover have "fl_normal fl = join_states (ex # early @ fl_breaks f)" unfolding x(8) by simp
        ultimately show ?thesis by simp
      qed
      have same: "state_at res r q = state_at ?late r q" for r q
      proof (cases "early = []")
        case False
        with x(7) obtain b where "outcomes_ok env (ck_root_types ck) True st ?bs early" "h = join_two st b" "alike b st" by blast
        from earlier_breaks_absorbed [OF x(3) eh this(1) o(2) sb this(2,3)] show ?thesis unfolding rs .
      qed (simp add: rs)
      have "outcomes_ok env (ck_root_types ck) True h ((F, T) # ?bs) (ex # fl_breaks f)"
        using o by (simp add: outcomes_ok_def)
      from join_states_step [OF this _ sh] F(1) sb have "has_effect ?J h ?late" by (simp add: state_step_def)
      from has_effect_then [OF s head_effects_ok [OF sk] J x(5) this] have "has_effect ?E st ?late" .
      then have eff: "has_effect ?E st res" using same by (simp add: effect_by_def)
      have al: "alike d ex" if "d \<in> set (early @ fl_breaks f)" for d
      proof (rule alike_via [OF _ alike_trans [OF eh x(3)]])
        show "alike d st"
        proof (cases "d \<in> set early")
          case True
          with x(7) outcomes_alike [OF _ s True] show ?thesis by (cases "early = []") auto
        next
          case False
          with that have "d \<in> set (fl_breaks f)" by simp
          from alike_trans [OF outcomes_alike [OF o(2) sh this] x(3)] show ?thesis .
        qed
      qed
      have cov: "safe env (ck_root_types ck) C t \<and> (e = EndNormal \<longrightarrow> covers res (after_events C t))"
        if "covers st C" "(t, e) \<in> loop_runs (evaluating T) R" for C t e
      proof -
        from loop_covers [OF x(2) ck x(4,3) b(2) that(2) x(6) [OF that(1)]]
        have "safe env (ck_root_types ck) C t" "e = EndNormal \<Longrightarrow> \<exists>s\<in>set (ex # fl_breaks f). covers s (after_events C t)" by auto
        moreover have "covers res (after_events C t)" if "s \<in> set (ex # fl_breaks f)" "covers s (after_events C t)" for s
          unfolding rs using that(1) by (intro join_covers [OF al alikeD(1) [OF eh] _ that(2)]) auto
        ultimately show ?thesis by blast
      qed
      from eff cov show ?thesis unfolding covers_traces_def by blast
    qed
    with res show "steady env ck ck' \<and> flow_ok env (ck_root_types ck) (clean ck') ?n [] [] ?L st fl"
      by (auto simp: flow_ok_def state_step_def alike_def)
  qed
  moreover have "runs_fit ?n [] [] ?L (loop_runs (evaluating T) R)"
  proof -
    have "e = EndNormal \<or> e = EndLeave" if "(t, e) \<in> loop_runs (evaluating T) R" for t e
      using that by (induction rule: loop_runs.induct) auto
    then show ?thesis by (fastforce simp: runs_fit_def)
  qed
  moreover have "effects_ok ?E" by (rule effects_ok_then [OF head_effects_ok [OF sk] J])
  then have "shape_ok ?n [] []" by (simp add: shape_ok_def)
  ultimately show ?thesis unfolding flow_contract_def by blast
qed

text \<open>A loop over a collection visits nothing at its head.\<close>

lemma loop_runs_mono:
  assumes "H \<subseteq> H'"
  shows "loop_runs H R \<subseteq> loop_runs H' R"
proof -
  have "(t, e) \<in> loop_runs H' R" if "(t, e) \<in> loop_runs H R" for t e
    using that
  proof (induction rule: loop_runs.induct)
    case (exit t) then show ?case using assms by (blast intro: loop_runs.exit)
  next
    case (head_leaves t) then show ?case using assms by (blast intro: loop_runs.head_leaves)
  next
    case (again t b e l e')
    show ?case by (rule loop_runs.again [OF subsetD [OF assms again(1)] again(2,3,5)])
  next
    case (breaks t b)
    show ?case by (rule loop_runs.breaks [OF subsetD [OF assms breaks(1)] breaks(2)])
  next
    case (leaves t b)
    show ?case by (rule loop_runs.leaves [OF subsetD [OF assms leaves(1)] leaves(2)])
  qed
  then show ?thesis by auto
qed

end
