(* ===== verification/Move_Statements.thy ===== *)
theory Move_Statements
  imports Move_Loops
begin

text \<open>Every statement, block and list of match arms keeps the contract of the move checker.\<close>

section \<open>What the checker relies on\<close>

text \<open>
  The alternatives of a pattern bind the same locals, which the type checker has ensured, and guards
  move nothing. A guard that moves is outside what the checker covers.
\<close>

definition guard_still :: "typed_expression option \<Rightarrow> bool" where
  "guard_still g \<longleftrightarrow> (\<forall>t\<in>optional_traces g. moveless t)"

function statement_fits :: "typed_statement \<Rightarrow> bool" where
  "statement_fits (TypedStatement sp (SIf e then_body else_body)) \<longleftrightarrow>
     (\<forall>s\<in>set then_body. statement_fits s) \<and> (\<forall>s\<in>set else_body. statement_fits s)"
| "statement_fits (TypedStatement sp (SWhile e body)) \<longleftrightarrow> (\<forall>s\<in>set body. statement_fits s)"
| "statement_fits (TypedStatement sp (SFor b e k ds body)) \<longleftrightarrow> (\<forall>s\<in>set body. statement_fits s)"
| "statement_fits (TypedStatement sp (SMatch e arms)) \<longleftrightarrow>
     (\<forall>arm\<in>set arms. case arm of TypedMatchArm p g body sp \<Rightarrow>
        alternatives_agree p \<and> guard_still g \<and> (\<forall>s\<in>set body. statement_fits s))"
| "statement_fits (TypedStatement sp (SBlock body)) \<longleftrightarrow> (\<forall>s\<in>set body. statement_fits s)"
| "statement_fits (TypedStatement sp (SDefer body)) \<longleftrightarrow> (\<forall>s\<in>set body. statement_fits s)"
| "statement_fits (TypedStatement sp (SExpect e d body)) \<longleftrightarrow> (\<forall>s\<in>set body. statement_fits s)"
| "statement_fits (TypedStatement sp (SLet b m ty e)) = True"
| "statement_fits (TypedStatement sp (SDestructure bs m e)) = True"
| "statement_fits (TypedStatement sp (SAssign place operator e)) = True"
| "statement_fits (TypedStatement sp (SExpression e)) = True"
| "statement_fits (TypedStatement sp (SReturn e')) = True"
| "statement_fits (TypedStatement sp SBreak) = True"
| "statement_fits (TypedStatement sp SContinue) = True"
| "statement_fits (TypedStatement sp SPass) = True"
  by pat_completeness auto
termination
proof (relation "measure size")
  fix e arms sp arm p g body sp' s
  assume a: "arm \<in> set arms" "arm = TypedMatchArm p g body sp'" "s \<in> set body"
  have "size s \<le> size_list size body" using a(3) by (simp add: size_list_estimation')
  also have "\<dots> < size arm" using a(2) by simp
  also have "\<dots> \<le> size_list size arms" using a(1) by (simp add: size_list_estimation')
  finally show "(s, TypedStatement sp (SMatch e arms)) \<in> measure size" by simp
qed (auto simp: less_Suc_eq_le intro: size_list_estimation' le_SucI trans_le_add1 trans_le_add2)

section \<open>Statements\<close>

lemma seq_runs_mono:
  assumes "A \<subseteq> A'" "B \<subseteq> B'"
  shows "seq_runs A B \<subseteq> seq_runs A' B'"
proof -
  have "(t, e) \<in> seq_runs A' B'" if "(t, e) \<in> seq_runs A B" for t e
    using that assms unfolding seq_runs_def by blast
  then show ?thesis by auto
qed

lemma flow_after:
  assumes "contract env f T" "contract env g {u}"
  shows "flow_contract env (\<lambda>st ck. case g (f (st, ck)) of (st', ck') \<Rightarrow> (flow_normal st', ck'))
     (seq_runs (evaluating T) (normally {u}))"
proof (rule flow_mono)
  show "flow_contract env (\<lambda>st ck. case g (f (st, ck)) of (st', ck') \<Rightarrow> (flow_normal st', ck'))
      (seq_runs (evaluating (seqs T {u})) (normally {[]}))"
    by (rule flow_eval [OF contract_then [OF assms] flow_pass])
  have "\<exists>w\<in>seqs T {u}. prefix t w" if "prefix t v" "v \<in> T" for t v
    using that by (intro bexI [of _ "v @ u"]) (auto simp: seqs_def)
  then show "seq_runs (evaluating T) (normally {u}) \<subseteq> seq_runs (evaluating (seqs T {u})) (normally {[]})"
    by (fastforce simp: seq_runs_def evaluating_def normally_def seqs_def)
qed

lemma flow_expression: "contract env f T \<Longrightarrow> flow_contract env (\<lambda>st ck. case f (st, ck) of (st', ck') \<Rightarrow> (flow_normal st', ck')) (evaluating T)"
  by (rule flow_mono [OF flow_after [OF _ contract_skip]])
    (auto simp: seq_runs_def evaluating_def normally_def)

lemma contract_optional_visit: "contract env (\<lambda>s. visit_optional env e s) (optional_traces e)"
  by (rule contract_optional)

lemma contract_initialize: "contract env (initialize_local b sp) {[EvSet (place_root (RootLocal b))]}"
  unfolding initialize_local_def by (rule contract_set)

lemma contract_initializes:
  "contract env (fold (\<lambda>b. initialize_local (ttb_binding b) sp) bs) {map (\<lambda>b. EvSet (place_root (RootLocal (ttb_binding b)))) bs}"
proof -
  have "contract env (fold (\<lambda>b. initialize_local (ttb_binding b) sp) bs) (seq_all (map (\<lambda>b. {[EvSet (place_root (RootLocal (ttb_binding b)))]}) bs))"
    by (rule contract_fold) (rule contract_initialize)
  then show ?thesis by (simp add: seq_all_singletons)
qed

lemma contract_assignment:
  "contract env (\<lambda>s. set_place p (transition_initialized sp) (if c then require_place env p ty sp s else s))
     {(if c then [EvUse p ty] else []) @ [EvSet p]}"
proof (cases c)
  case True
  with contract_then [OF contract_require contract_set] show ?thesis by (simp add: seqs_def)
next
  case False
  with contract_set show ?thesis by simp
qed

lemma flow_while:
  assumes "contract env before T" "flow_contract env body R"
  shows "flow_contract env (\<lambda>st ck. loop_rounds before body st (Suc (transition_bound ck)) st [] ck) (loop_runs (evaluating T) R)"
proof -
  have "Suc (Suc (transition_bound ck - 1)) = Suc (transition_bound ck)" for ck by (simp add: transition_bound_def)
  then have "(\<lambda>st ck. loop_rounds before body st (Suc (Suc (transition_bound ck - 1))) st [] ck)
      = (\<lambda>st ck. loop_rounds before body st (Suc (transition_bound ck)) st [] ck)" by (simp only:)
  with flow_loop [OF assms, of "\<lambda>ck. transition_bound ck - 1"] show ?thesis by (simp only:)
qed

lemma flow_for:
  assumes "flow_contract env (\<lambda>st ck. check_from env body (flow_normal st) None ck) R"
  shows "flow_contract env (\<lambda>st ck. loop_rounds (\<lambda>s. s)
       (\<lambda>st' ck'. case initialize_local b sp (st', ck') of (st'', ck'') \<Rightarrow> check_from env body (flow_normal st'') None ck'') st
       (Suc (transition_bound ck)) st [] ck)
     (loop_runs (normally {[]}) (seq_runs (normally {[EvSet (place_root (RootLocal b))]}) R))"
proof (rule flow_mono [OF flow_while [OF contract_skip]])
  have "normally T \<subseteq> evaluating T" for T by (simp add: evaluating_def)
  note n = this
  show "flow_contract env (\<lambda>st' ck'. case initialize_local b sp (st', ck') of (st'', ck'') \<Rightarrow> check_from env body (flow_normal st'') None ck'')
      (seq_runs (normally {[EvSet (place_root (RootLocal b))]}) R)"
    by (rule flow_mono [OF flow_eval [OF contract_initialize assms] seq_runs_mono [OF n order_refl]])
  show "loop_runs (normally {[]}) (seq_runs (normally {[EvSet (place_root (RootLocal b))]}) R)
      \<subseteq> loop_runs (evaluating {[]}) (seq_runs (normally {[EvSet (place_root (RootLocal b))]}) R)"
    by (rule loop_runs_mono [OF n])
qed

lemma flow_if:
  assumes "flow_contract env A R" "flow_contract env B S"
  shows "flow_contract env (\<lambda>st ck. case A st ck of (a, ck1) \<Rightarrow> (case B st ck1 of (b, ck2) \<Rightarrow> (join_flows [a, b], ck2))) (R \<union> S)"
proof -
  have "(\<lambda>st ck. case A st ck of (a, ck1) \<Rightarrow> (case B st ck1 of (b, ck2) \<Rightarrow> (join_flows [a, b], ck2)))
    = (\<lambda>st ck. case (case A st ck of (a, ck1) \<Rightarrow> (case B st ck1 of (b, ck2) \<Rightarrow> ([a, b], ck2))) of (fls, ck') \<Rightarrow> (join_flows fls, ck'))"
    by (simp add: case_prod_beta)
  with flows_join [OF flows_two [OF assms]] show ?thesis by simp
qed

section \<open>All of it\<close>

definition block_contract :: "move_env \<Rightarrow> typed_statement list \<Rightarrow> bool" where
  "block_contract env ss \<longleftrightarrow>
     flow_contract env (\<lambda>st ck. check_from env ss (flow_normal st) None ck) (block_runs env ss)
     \<and> (\<forall>s\<in>set ss. \<exists>R. flow_contract env (check_statement env s) R)"

lemma statement_equations:
  "check_statement env (TypedStatement sp (SLet b m ty e)) =
     (\<lambda>st ck. case initialize_local b sp (visit_expression env e True (st, ck)) of (st', ck') \<Rightarrow> (flow_normal st', ck'))"
  "check_statement env (TypedStatement sp (SDestructure bs m e)) =
     (\<lambda>st ck. case fold (\<lambda>b. initialize_local (ttb_binding b) sp) bs (visit_expression env e True (st, ck)) of
        (st', ck') \<Rightarrow> (flow_normal st', ck'))"
  "check_statement env (TypedStatement sp (SExpression e)) =
     (\<lambda>st ck. case visit_expression env e True (st, ck) of (st', ck') \<Rightarrow> (flow_normal st', ck'))"
  "check_statement env (TypedStatement sp (SReturn oe)) =
     (\<lambda>st ck. case visit_optional env oe (st, ck) of (st', ck') \<Rightarrow> (flow_default\<lparr>fl_dead := Some st'\<rparr>, ck'))"
  "check_statement env (TypedStatement sp (SIf e ts es)) =
     (\<lambda>st ck. case visit_expression env e True (st, ck) of (st1, ck1) \<Rightarrow>
        (case check_from env ts (flow_normal st1) None ck1 of (a, ck2) \<Rightarrow>
          (case check_from env es (flow_normal st1) None ck2 of (b, ck3) \<Rightarrow> (join_flows [a, b], ck3))))"
  "check_statement env (TypedStatement sp (SWhile e body)) =
     (\<lambda>st ck. loop_rounds (visit_expression env e True) (\<lambda>st' ck'. check_from env body (flow_normal st') None ck') st
       (Suc (transition_bound ck)) st [] ck)"
  "check_statement env (TypedStatement sp (SFor b e k ds body)) =
     (\<lambda>st ck. case visit_expression env e True (st, ck) of (st1, ck1) \<Rightarrow>
        loop_rounds (\<lambda>s. s)
          (\<lambda>st' ck'. case initialize_local b sp (st', ck') of (st'', ck'') \<Rightarrow> check_from env body (flow_normal st'') None ck'') st1
          (Suc (transition_bound ck1)) st1 [] ck1)"
  "check_statement env (TypedStatement sp (SMatch e arms)) =
     (\<lambda>st ck. case visit_expression env e True (st, ck) of (st1, ck1) \<Rightarrow>
        (case check_arms env arms (map_option normalized_place (te_ownership_place e)) st1 ck1 of
           (flows, ck2) \<Rightarrow> (join_flows flows, ck2)))"
  "check_statement env (TypedStatement sp (SBlock body)) = (\<lambda>st ck. check_from env body (flow_normal st) None ck)"
  "check_statement env (TypedStatement sp (SDefer body)) =
     (\<lambda>st ck. (flow_normal st, snd (check_from env body (flow_normal st) None ck)))"
  "check_statement env (TypedStatement sp (SExpect e d body)) =
     (\<lambda>st ck. case visit_expression env e True (st, ck) of (st1, ck1) \<Rightarrow>
        (case check_from env body (flow_normal st1) None ck1 of
           (h, ck2) \<Rightarrow> (h\<lparr>fl_normal := join_states (st1 # option_list (fl_normal h))\<rparr>, ck2)))"
  "check_statement env (TypedStatement sp SBreak) = (\<lambda>st ck. (flow_default\<lparr>fl_dead := Some st, fl_breaks := [st]\<rparr>, ck))"
  "check_statement env (TypedStatement sp SContinue) = (\<lambda>st ck. (flow_default\<lparr>fl_dead := Some st, fl_continues := [st]\<rparr>, ck))"
  "check_statement env (TypedStatement sp SPass) = (\<lambda>st ck. (flow_normal st, ck))"
  by (intro ext, simp only: check_statement.simps)+

lemma assignment_equation:
  "check_statement env (TypedStatement sp (SAssign place operator e)) =
     (\<lambda>st ck. case (\<lambda>s. set_place (normalized_place (tpl_ownership_place place)) (transition_initialized (tpl_span place))
          (if operator \<noteq> AssignAssign
           then require_place env (normalized_place (tpl_ownership_place place)) (tpl_ty place) (tpl_span place) s else s))
        (visit_expression env e True (visit_place_inputs env place (st, ck))) of (st', ck') \<Rightarrow> (flow_normal st', ck'))"
  by (intro ext) (simp only: check_statement.simps Let_def)

lemma block_contractD:
  "block_contract env ss \<Longrightarrow> flow_contract env (\<lambda>st ck. check_from env ss (flow_normal st) None ck) (block_runs env ss)"
  by (simp add: block_contract_def)

lemma block_contract_all:
  "(\<And>s. s \<in> set ss \<Longrightarrow> flow_contract env (check_statement env s) (statement_runs env s)) \<Longrightarrow> block_contract env ss"
proof (induction ss)
  case Nil
  show ?case unfolding block_contract_def by (intro conjI flow_block_Nil) simp
next
  case (Cons s ss)
  then have s: "flow_contract env (check_statement env s) (statement_runs env s)" and ss: "block_contract env ss" by simp_all
  then have "flow_contract env (\<lambda>st ck. check_from env (s # ss) (flow_normal st) None ck) (seq_runs (statement_runs env s) (block_runs env ss))"
    by (intro flow_block_Cons) (auto simp: block_contract_def)
  with s ss show ?case by (auto simp: block_contract_def)
qed

lemma arms_contract_all:
  "(\<And>p g body sp. TypedMatchArm p g body sp \<in> set arms \<Longrightarrow> alternatives_agree p \<and> guard_still g \<and> block_contract env body) \<Longrightarrow>
   flows_contract env (\<lambda>st ck. check_arms env arms source st ck) (arm_runs env arms source)"
proof (induction arms)
  case Nil
  show ?case by (rule flows_arms_Nil)
next
  case (Cons arm arms)
  obtain p g body sp where arm: "arm = TypedMatchArm p g body sp" by (cases arm)
  have rest: "flows_contract env (\<lambda>st ck. check_arms env arms source st ck) (arm_runs env arms source)"
  proof (rule Cons.IH)
    fix p g body sp
    assume "TypedMatchArm p g body sp \<in> set arms"
    then show "alternatives_agree p \<and> guard_still g \<and> block_contract env body"
      by (intro Cons.prems list.set_intros(2))
  qed
  have a: "alternatives_agree p" "\<And>t. t \<in> optional_traces g \<Longrightarrow> moveless t" "block_contract env body"
    using Cons.prems [of p g body sp] by (simp_all add: arm guard_still_def)
  show ?case unfolding arm arm_runs.simps by (rule flows_arms_Cons [OF block_contractD [OF a(3)] rest a(1,2)])
qed

lemma check_contract: "statement_fits s \<Longrightarrow> flow_contract env (check_statement env s) (statement_runs env s)"
proof (induction s rule: statement_fits.induct)
  case (1 sp e ts es)
  then have "block_contract env ts" "block_contract env es" by (simp_all add: block_contract_all)
  then show ?case unfolding statement_equations statement_runs.simps
    by (intro flow_eval [OF contract_visits(1) flow_if] block_contractD)
next
  case (2 sp e body)
  then have "block_contract env body" by (simp add: block_contract_all)
  then show ?case unfolding statement_equations statement_runs.simps
    by (intro flow_while contract_visits(1) block_contractD)
next
  case (3 sp b e k ds body)
  then have "block_contract env body" by (simp add: block_contract_all)
  then show ?case unfolding statement_equations statement_runs.simps
    by (intro flow_eval [OF contract_visits(1) flow_for] block_contractD)
next
  case (4 sp e arms)
  have "flows_contract env (\<lambda>st ck. check_arms env arms (map_option normalized_place (te_ownership_place e)) st ck)
      (arm_runs env arms (map_option normalized_place (te_ownership_place e)))"
  proof (rule arms_contract_all)
    fix p g body sp'
    assume m: "TypedMatchArm p g body sp' \<in> set arms"
    with 4(2) have f: "alternatives_agree p \<and> guard_still g \<and> (\<forall>s\<in>set body. statement_fits s)" by fastforce
    with 4(1) [OF m refl] show "alternatives_agree p \<and> guard_still g \<and> block_contract env body"
      by (blast intro: block_contract_all)
  qed
  then show ?case unfolding statement_equations statement_runs.simps
    by (rule flow_eval [OF contract_visits(1) flows_join])
next
  case (5 sp body)
  then have "block_contract env body" by (simp add: block_contract_all)
  then show ?case unfolding statement_equations statement_runs.simps by (rule block_contractD)
next
  case (6 sp body)
  then have "block_contract env body" by (simp add: block_contract_all)
  then show ?case unfolding statement_equations statement_runs.simps by (rule flow_defer [OF block_contractD])
next
  case (7 sp e d body)
  then have "block_contract env body" by (simp add: block_contract_all)
  then show ?case unfolding statement_equations statement_runs.simps
    by (intro flow_eval [OF contract_visits(1) flow_expect] block_contractD)
next
  case (8 sp b m ty e)
  show ?case unfolding statement_equations statement_runs.simps
    by (rule flow_after [OF contract_visits(1) contract_initialize])
next
  case (9 sp bs m e)
  show ?case unfolding statement_equations statement_runs.simps
    by (rule flow_after [OF contract_visits(1) contract_initializes])
next
  case (10 sp place operator e)
  show ?case unfolding assignment_equation statement_runs.simps Let_def
    by (rule flow_after [OF contract_then [OF contract_visits(5) contract_visits(1)] contract_assignment])
next
  case (11 sp e)
  show ?case unfolding statement_equations statement_runs.simps by (rule flow_expression [OF contract_visits(1)])
next
  case (12 sp e)
  show ?case unfolding statement_equations statement_runs.simps by (rule flow_eval [OF contract_optional flow_leave])
next
  case (13 sp)
  show ?case unfolding statement_equations statement_runs.simps by (rule flow_break)
next
  case (14 sp)
  show ?case unfolding statement_equations statement_runs.simps by (rule flow_continue)
next
  case (15 sp)
  show ?case unfolding statement_equations statement_runs.simps by (rule flow_pass)
qed

end
