(* ===== verification/Move_Total.thy ===== *)
theory Move_Total
  imports Move_Statements
begin

text \<open>
  The checker on any code, whatever its guards and patterns do: the contract without the executions it
  covers still says that a step keeps the roots of the state, changes each place in a way of its own
  and gets stuck only in types of infinite size.
\<close>

section \<open>Patterns\<close>

lemma contract_bare: "contract env f T \<Longrightarrow> contract env f {}"
  by (rule contract_mono) simp_all

lemma fold_pairs_bare:
  assumes "\<And>a b. (a, b) \<in> set xs \<Longrightarrow> contract env (f a b) {}"
  shows "contract env (fold (\<lambda>(a, b). f a b) xs) {}"
  by (rule contract_bare [OF contract_fold_pairs [where T = "\<lambda>a b. {}"]]) (rule assms)

lemma bindings_bare: "contract env (initialize_pattern_bindings p) {}"
proof -
  have "initialize_pattern_bindings p = fold (\<lambda>(b, sp). initialize_local b sp) (pattern_locals p)"
    using initialize_bindings_locals by blast
  then show ?thesis using contract_bare [OF contract_locals] by simp
qed

lemma pattern_bare: "contract env (apply_pattern env p source) {}"
proof (induction env p source rule: pattern_traces.induct)
  case (1 env ty sp source)
  show ?case by (simp add: pattern_equations contract_bare [OF contract_consume])
next
  case (2 env ty sp b source)
  have "contract env (\<lambda>s. initialize_local b sp (consume_pattern_source env source ty sp s)) {}"
    unfolding initialize_local_def by (rule contract_bare [OF contract_then [OF contract_consume contract_set]])
  then show ?case by (simp add: pattern_equations)
next
  case (4 env ty sp ps source)
  have "contract env (\<lambda>s. case each_from (\<lambda>p. apply_pattern env p source) ps (fst s) (snd s) of
      (states, ck) \<Rightarrow> (case join_states states of Some joined \<Rightarrow> (joined, ck) | None \<Rightarrow> (fst s, ck))) (\<Union>p\<in>set ps. {})"
    by (rule contract_each) (rule 4)
  then show ?case by (simp add: pattern_equations contract_bare)
next
  case (6 env ty sp ps source)
  have "contract env (fold (\<lambda>(i, p). apply_pattern env p (place_project source (ProjTupleField i))) (enumerate 0 ps)) {}"
    by (rule fold_pairs_bare) (rule 6 [OF _ refl])
  then show ?case by (simp add: pattern_equations)
next
  case (7 env ty sp d fs source)
  have "contract env (fold (\<lambda>(f, p). apply_pattern env p (place_project source (ProjField f))) fs) {}"
    by (rule fold_pairs_bare) (rule 7 [OF _ refl])
  then show ?case by (simp add: pattern_equations)
next
  case (8 env ty sp v fs source)
  have b: "contract env (fold (\<lambda>(f, p). initialize_pattern_bindings p) fs) {}"
    by (rule fold_pairs_bare) (rule bindings_bare)
  show ?case
  proof (cases "\<exists>(f, p)\<in>set fs. pattern_consumes_non_copy env p")
    case True
    from contract_bare [OF contract_then [OF contract_consume b, of source ty sp]] True show ?thesis
      by (simp add: pattern_equations)
  next
    case False
    with b show ?thesis by (simp add: pattern_equations)
  qed
qed (simp_all add: pattern_equations contract_bare [OF contract_skip])

section \<open>Statements\<close>

lemma flow_bare: "flow_contract env B R \<Longrightarrow> flow_contract env B {}"
  by (rule flow_mono) simp_all

abbreviation block_bare :: "move_env \<Rightarrow> typed_statement list \<Rightarrow> bool" where
  "block_bare env ss \<equiv> flow_contract env (\<lambda>st ck. check_from env ss (flow_normal st) None ck) {}"

lemma block_bare_all: "(\<And>s. s \<in> set ss \<Longrightarrow> flow_contract env (check_statement env s) {}) \<Longrightarrow> block_bare env ss"
proof (induction ss)
  case Nil
  show ?case by (rule flow_bare [OF flow_block_Nil])
next
  case (Cons s ss)
  then have "flow_contract env (check_statement env s) {}" "block_bare env ss" by simp_all
  then have "flow_contract env (\<lambda>st ck. check_from env (s # ss) (flow_normal st) None ck) (seq_runs {} {})"
    by (rule flow_block_Cons) (use Cons.prems in auto)
  then show ?case by (rule flow_bare)
qed

lemma arms_bare_all:
  "(\<And>p g body sp. TypedMatchArm p g body sp \<in> set arms \<Longrightarrow> block_bare env body) \<Longrightarrow>
   flows_contract env (\<lambda>st ck. check_arms env arms source st ck) {}"
proof (induction arms)
  case Nil
  show ?case using flows_arms_Nil [of env source] unfolding flows_contract_def by blast
next
  case (Cons arm arms)
  obtain p g body sp where arm: "arm = TypedMatchArm p g body sp" by (cases arm)
  have "contract env (\<lambda>s. visit_optional env g (apply_pattern env p source s)) {}"
    by (rule contract_bare [OF contract_then [OF pattern_bare contract_optional]])
  moreover have "block_bare env body" using Cons.prems [of p g body sp] by (simp add: arm)
  moreover have "flows_contract env (\<lambda>st ck. check_arms env arms source st ck) {}"
  proof (rule Cons.IH)
    fix p g body sp
    assume "TypedMatchArm p g body sp \<in> set arms"
    then show "block_bare env body" by (intro Cons.prems list.set_intros(2))
  qed
  ultimately show ?case unfolding arm by (intro flows_arms_bare)
qed

lemma statement_bare: "flow_contract env (check_statement env s) {}"
proof (induction s rule: statement_fits.induct)
  case (1 sp e ts es)
  then have "block_bare env ts" "block_bare env es" by (simp_all add: block_bare_all)
  then show ?case unfolding statement_equations by (intro flow_bare [OF flow_eval [OF contract_visits(1) flow_if]])
next
  case (2 sp e body)
  then have "block_bare env body" by (simp add: block_bare_all)
  then show ?case unfolding statement_equations by (intro flow_bare [OF flow_while [OF contract_visits(1)]])
next
  case (3 sp b e k ds body)
  then have "block_bare env body" by (simp add: block_bare_all)
  then show ?case unfolding statement_equations by (intro flow_bare [OF flow_eval [OF contract_visits(1) flow_for]])
next
  case (4 sp e arms)
  have "flows_contract env (\<lambda>st ck. check_arms env arms (map_option normalized_place (te_ownership_place e)) st ck) {}"
  proof (rule arms_bare_all)
    fix p g body sp'
    assume m: "TypedMatchArm p g body sp' \<in> set arms"
    show "block_bare env body" by (rule block_bare_all) (rule 4 [OF m refl])
  qed
  then show ?case unfolding statement_equations by (intro flow_bare [OF flow_eval [OF contract_visits(1) flows_join]])
next
  case (5 sp body)
  then show ?case unfolding statement_equations by (simp add: block_bare_all)
next
  case (6 sp body)
  then have "block_bare env body" by (simp add: block_bare_all)
  then show ?case unfolding statement_equations by (rule flow_bare [OF flow_defer])
next
  case (7 sp e d body)
  then have "block_bare env body" by (simp add: block_bare_all)
  then show ?case unfolding statement_equations by (intro flow_bare [OF flow_eval [OF contract_visits(1) flow_expect]])
next
  case (8 sp b m ty e)
  show ?case by (rule flow_bare [OF check_contract]) simp
next
  case (9 sp bs m e)
  show ?case by (rule flow_bare [OF check_contract]) simp
next
  case (10 sp place operator e)
  show ?case by (rule flow_bare [OF check_contract]) simp
next
  case (11 sp e)
  show ?case by (rule flow_bare [OF check_contract]) simp
next
  case (12 sp e)
  show ?case by (rule flow_bare [OF check_contract]) simp
next
  case (13 sp)
  show ?case by (rule flow_bare [OF check_contract]) simp
next
  case (14 sp)
  show ?case by (rule flow_bare [OF check_contract]) simp
next
  case (15 sp)
  show ?case by (rule flow_bare [OF check_contract]) simp
qed

lemma check_bare: "block_bare env ss"
  by (rule block_bare_all) (rule statement_bare)

section \<open>Loops\<close>

text \<open>A loop with the bound on its rounds as an argument; both kinds of loop run this way.\<close>

definition check_loop :: "move_env \<Rightarrow> typed_statement \<Rightarrow> nat \<Rightarrow> move_state \<Rightarrow> checker \<Rightarrow> flow \<times> checker" where
  "check_loop env s k st ck =
     (case s of TypedStatement sp kind \<Rightarrow>
        (case kind of
           SWhile e body \<Rightarrow>
             loop_rounds (visit_expression env e True) (\<lambda>st ck. check_block env body st ck) st k st [] ck
         | SFor b e k' ds body \<Rightarrow>
             (case visit_expression env e True (st, ck) of
                (st1, ck1) \<Rightarrow>
                  loop_rounds (\<lambda>s. s)
                    (\<lambda>st' ck'. case initialize_local b sp (st', ck') of (st'', ck'') \<Rightarrow> check_block env body st'' ck'')
                    st1 k st1 [] ck1)
         | _ \<Rightarrow> check_statement env s st ck))"

lemma rounds_bound:
  assumes v: "contract env before T" and body: "flow_contract env body R" and r: "ready st ck"
    and run: "loop_rounds before body st (Suc (transition_bound ck)) st [] ck = (fl, ck')" and c: "clean ck'"
  shows "loop_rounds before body st (n + 2) st [] ck = (fl, ck')"
proof -
  obtain m bs cs L where b: "shape_ok m bs cs" "keeps env m bs cs L body"
    using body unfolding flow_contract_def by blast
  obtain F where F: "effects_ok F" "\<And>s. ready (fst s) (snd s) \<Longrightarrow> step_ok env F T s (before s)"
    using v by (auto simp: contract_def)
  have two: "Suc (transition_bound ck) = Suc (Suc (transition_bound ck - 1))" by (simp add: transition_bound_def)
  from rounds_stable [OF loop_bodyI [OF F b] v r run [unfolded two] c]
  have "loop_rounds before body st (Suc (Suc n)) st [] ck = (fl, ck')" by metis
  then show ?thesis by (simp add: numeral_2_eq_2 del: loop_rounds.simps)
qed

lemma contract_ready: "contract env f T \<Longrightarrow> ready (fst s) (snd s) \<Longrightarrow> ready (fst (f s)) (snd (f s))"
  unfolding contract_def by (blast intro: step_ready)

lemma loop_statement_bound:
  assumes r: "ready st ck" and run: "check_statement env s st ck = (fl, ck')" and c: "clean ck'"
  shows "check_loop env s (n + 2) st ck = (fl, ck')"
proof -
  obtain sp kind where s: "s = TypedStatement sp kind" by (cases s)
  show ?thesis
  proof (cases "(\<exists>e body. kind = SWhile e body) \<or> (\<exists>b e k ds body. kind = SFor b e k ds body)")
    case True
    then show ?thesis
    proof (elim disjE exE)
      fix e body
      assume k: "kind = SWhile e body"
      from rounds_bound [OF contract_visits(1) check_bare r run [unfolded s k statement_equations] c]
      show ?thesis by (simp add: check_loop_def s k check_block_def [abs_def] del: loop_rounds.simps)
    next
      fix b e k ds body
      assume k: "kind = SFor b e k ds body"
      obtain st1 ck1 where v: "visit_expression env e True (st, ck) = (st1, ck1)"
        by (cases "visit_expression env e True (st, ck)")
      have r1: "ready st1 ck1" using contract_ready [OF contract_visits(1) [of env e True], of "(st, ck)"] r by (simp add: v)
      from run have "loop_rounds (\<lambda>s. s)
          (\<lambda>st' ck'. case initialize_local b sp (st', ck') of (st'', ck'') \<Rightarrow> check_from env body (flow_normal st'') None ck'') st1
          (Suc (transition_bound ck1)) st1 [] ck1 = (fl, ck')"
        unfolding s k statement_equations v prod.case .
      from rounds_bound [OF contract_skip flow_eval [OF contract_initialize check_bare] r1 this c]
      show ?thesis by (simp add: check_loop_def s k v check_block_def [abs_def] del: loop_rounds.simps)
    qed
  next
    case False
    with run show ?thesis by (simp add: check_loop_def s split: typed_statement_kind.split)
  qed
qed

end
