(* ===== verification/Move_Theorems.thy ===== *)
theory Move_Theorems
  imports Move_Total
begin

text \<open>
  What the move checker promises of a function it accepts, and the facts about states and loops it
  rests on.
\<close>

section \<open>The entry of a function\<close>

text \<open>Parameters and captures hold values when a function is entered; nothing else does.\<close>

definition entry_contents :: "typed_function \<Rightarrow> contents" where
  "entry_contents f r q =
     (case r of
        RootLocal b \<Rightarrow> b \<in> set (map tpa_binding (tf_parameters f))
          \<or> (case tf_closure f of None \<Rightarrow> False | Some c \<Rightarrow> b \<in> set (map fst (tcb_captures c)))
      | RootClosureCapture i \<Rightarrow> (case tf_closure f of None \<Rightarrow> False | Some c \<Rightarrow> i \<in> set (map snd (tcb_captures c)))
      | _ \<Rightarrow> False)"

lemma map_insert_keys: "map fst m = map fst m' \<Longrightarrow> map fst (map_insert k v m) = map fst (map_insert k v' m')"
proof (induction m arbitrary: m')
  case (Cons x m)
  then obtain y m'' where "m' = y # m''" "fst y = fst x" "map fst m = map fst m''" by (cases m') auto
  with Cons.IH show ?case by (cases x; cases y) auto
qed simp

lemma map_insert_same: "k \<in> fst ` set m \<Longrightarrow> ascending m \<Longrightarrow> map fst (map_insert k v m) = map fst m"
proof (induction k v m rule: map_insert.induct)
  case (2 k v l w m)
  then show ?case by (auto simp: ascending_Cons)
qed simp

lemma state_at_insert:
  "ascending st \<Longrightarrow> state_at (map_insert r (node_new t) st) r' q = (if r' = r then Some t else state_at st r' q)"
  by (simp add: state_at_def)

lemma sane_insert: "sane st \<Longrightarrow> coherent t \<Longrightarrow> sane (map_insert r (node_new t) st)"
proof -
  assume s: "sane st" and t: "coherent t"
  have a: "ascending st" using s by (simp add: sane_def state_ok_def)
  have "state_ok (map_insert r (node_new t) st)"
    by (rule state_okI) (use a saneD(1) [OF s] in \<open>auto split: if_splits intro: state_ok_root\<close>)
  with s t a show ?thesis by (auto simp: sane_def state_at_insert split: if_splits)
qed

lemma sane_ascending: "sane st \<Longrightarrow> ascending st"
  by (simp add: sane_def state_ok_def)

lemma enter_root_ready: "ready (fst s) (snd s) \<Longrightarrow> coherent t \<Longrightarrow> ready (fst (enter_root r ty t s)) (snd (enter_root r ty t s))"
  by (cases s) (auto simp: ready_def enter_root_def sane_insert tidy_def intro: map_insert_keys)

definition entered :: "typed_function \<Rightarrow> check_state \<Rightarrow> bool" where
  "entered f s \<longleftrightarrow> ready (fst s) (snd s) \<and> covers (fst s) (entry_contents f)"

lemma entered_root:
  assumes "entered f s" "coherent t" "tr_available t \<Longrightarrow> \<forall>q. entry_contents f r q"
  shows "entered f (enter_root r ty t s)"
proof -
  have "ascending (fst s)" using assms(1) by (auto simp: entered_def ready_def dest: sane_ascending)
  then have "covers (fst (enter_root r ty t s)) (entry_contents f)"
    using assms by (cases s) (auto simp: entered_def covers_by_def enter_root_def state_at_insert split: if_splits)
  with enter_root_ready assms show ?thesis by (simp add: entered_def)
qed

lemma entered_local: "entered f s \<Longrightarrow> entered f (enter_local env f x s)"
  by (cases x) (auto simp: enter_local_def transition_uninitialized_def entry_contents_def intro!: entered_root
      transitions_coherent [unfolded transition_uninitialized_def])

lemma entered_locals:
  assumes "entered f s"
  shows "entered f (fold (enter_local env f) xs s)
     \<and> (\<forall>b\<in>fst ` set xs. RootLocal b \<in> fst ` set (fst (fold (enter_local env f) xs s)))
     \<and> fst ` set (fst s) \<subseteq> fst ` set (fst (fold (enter_local env f) xs s))"
  using assms
proof (induction xs arbitrary: s)
  case (Cons x xs)
  have k: "fst ` set (fst (enter_local env f x s)) = insert (RootLocal (fst x)) (fst ` set (fst s))"
    by (cases x; cases s) (auto simp: enter_local_def enter_root_def)
  from Cons.IH [OF entered_local [OF Cons.prems, of env x], unfolded k] show ?case
    by (simp only: fold_simps list.set image_insert ball_simps insert_subset simp_thms) blast
qed simp

lemma entered_capture:
  assumes "entered f s" "\<And>b. b \<in> fst ` set (tf_local_types f) \<Longrightarrow> RootLocal b \<in> fst ` set (fst s)"
    and "tf_closure f = Some c" "x \<in> set (tcb_captures c)"
  shows "entered f (enter_capture env f x s) \<and> fst ` set (fst s) \<subseteq> fst ` set (fst (enter_capture env f x s))"
proof -
  obtain b i where x: "x = (b, i)" by (cases x)
  show ?thesis
  proof (cases "map_of (tf_local_types f) b")
    case None
    with assms(1) show ?thesis by (simp add: enter_capture_def x)
  next
    case (Some ty)
    let ?t = "transition_initialized (me_local_span env b)"
    obtain st ck where e: "enter_root (RootClosureCapture i) ty ?t s = (st, ck)" by (cases "enter_root (RootClosureCapture i) ty ?t s")
    have "entered f (st, ck)" unfolding e [symmetric]
      by (rule entered_root [OF assms(1)]) (use assms(3,4) x in \<open>force simp: entry_contents_def\<close>)+
    then have r: "ready st ck" "covers st (entry_contents f)" by (simp_all add: entered_def)
    have m: "st = map_insert (RootClosureCapture i) (node_new ?t) (fst s)" using e by (cases s) (simp add: enter_root_def)
    have k: "fst ` set (fst s) \<subseteq> fst ` set st" unfolding m keys_map_insert by blast
    have b: "RootLocal b \<in> fst ` set st" using assms(2) [of b] Some k by (force dest: map_of_SomeD)
    have s: "sane st" by (rule ready_sane [OF r(1)])
    have "ready (map_insert (RootLocal b) (node_new ?t) st) ck"
      using r(1) sane_insert [OF s] map_insert_same [OF b sane_ascending [OF s]] by (simp add: ready_def)
    moreover have "entry_contents f (RootLocal b) q" for q using assms(3,4) x by (force simp: entry_contents_def)
    with r(2) have "covers (map_insert (RootLocal b) (node_new ?t) st) (entry_contents f)"
      by (auto simp: covers_by_def state_at_insert [OF sane_ascending [OF s]] split: if_splits)
    ultimately show ?thesis using k by (auto simp: enter_capture_def x Some e entered_def)
  qed
qed

lemma entered_captures:
  assumes "tf_closure f = Some c" "set xs \<subseteq> set (tcb_captures c)" "entered f s"
    "\<And>b. b \<in> fst ` set (tf_local_types f) \<Longrightarrow> RootLocal b \<in> fst ` set (fst s)"
  shows "entered f (fold (enter_capture env f) xs s)"
  using assms(2-)
proof (induction xs arbitrary: s)
  case (Cons x xs)
  from entered_capture [OF Cons.prems(2,3) assms(1), of x] Cons.prems(1)
  have "entered f (enter_capture env f x s)" "fst ` set (fst s) \<subseteq> fst ` set (fst (enter_capture env f x s))" by auto
  with Cons show ?case by (simp add: subset_iff)
qed simp

lemma entry_entered: "tidy ck \<Longrightarrow> entered f (entry_state env f ck)"
proof -
  assume t: "tidy ck"
  have "sane []" by (simp add: sane_def state_ok_def state_at_def ascending_def)
  with t have "entered f ([], ck\<lparr>ck_root_types := []\<rparr>)"
    by (simp add: entered_def ready_def covers_by_def state_at_def tidy_def)
  from entered_locals [OF this, of env "tf_local_types f"]
  have s: "entered f (fold (enter_local env f) (tf_local_types f) ([], ck\<lparr>ck_root_types := []\<rparr>))"
    "\<And>b. b \<in> fst ` set (tf_local_types f) \<Longrightarrow>
       RootLocal b \<in> fst ` set (fst (fold (enter_local env f) (tf_local_types f) ([], ck\<lparr>ck_root_types := []\<rparr>)))" by auto
  show ?thesis
  proof (cases "tf_closure f")
    case None
    with s(1) show ?thesis by (simp add: entry_state_def Let_def)
  next
    case (Some c)
    from entered_captures [OF Some _ s(1) s(2), of "tcb_captures c" env] show ?thesis by (simp add: entry_state_def Let_def Some)
  qed
qed

section \<open>Accepted functions\<close>

definition function_fits :: "typed_function \<Rightarrow> bool" where
  "function_fits f \<longleftrightarrow> (\<forall>s\<in>set (tf_body f). statement_fits s)"

definition entry_roots :: "move_env \<Rightarrow> typed_function \<Rightarrow> root_types" where
  "entry_roots env f = ck_root_types (snd (entry_state env f checker_new))"

text \<open>The entry state does not depend on what was reported before.\<close>

definition same_roots :: "check_state \<Rightarrow> check_state \<Rightarrow> bool" where
  "same_roots s s' \<longleftrightarrow> fst s = fst s' \<and> ck_root_types (snd s) = ck_root_types (snd s')"

lemma same_roots_enter: "same_roots s s' \<Longrightarrow> same_roots (enter_root r ty t s) (enter_root r ty t s')"
  by (cases s; cases s') (simp add: same_roots_def enter_root_def)

lemma same_roots_local: "same_roots s s' \<Longrightarrow> same_roots (enter_local env f x s) (enter_local env f x s')"
  by (cases x) (simp add: enter_local_def same_roots_enter)

lemma same_roots_capture: "same_roots s s' \<Longrightarrow> same_roots (enter_capture env f x s) (enter_capture env f x s')"
  by (cases x; cases s; cases s') (auto simp: enter_capture_def same_roots_def enter_root_def split: option.split)

lemma same_roots_fold: "(\<And>x s s'. same_roots s s' \<Longrightarrow> same_roots (g x s) (g x s')) \<Longrightarrow> same_roots s s' \<Longrightarrow> same_roots (fold g xs s) (fold g xs s')"
  by (induction xs arbitrary: s s') simp_all

lemma entry_root_types: "ck_root_types (snd (entry_state env f ck)) = entry_roots env f"
proof -
  have "same_roots ([], ck\<lparr>ck_root_types := []\<rparr>) ([], checker_new\<lparr>ck_root_types := []\<rparr>)" by (simp add: same_roots_def)
  from same_roots_fold [where g = "enter_local env f", OF same_roots_local this]
  have "same_roots (entry_state env f ck) (entry_state env f checker_new)"
    by (simp add: entry_state_def Let_def same_roots_fold [OF same_roots_capture] split: option.split)
  then show ?thesis by (simp add: same_roots_def entry_roots_def)
qed

lemma body_contract: "function_fits f \<Longrightarrow> block_contract env (tf_body f)"
  unfolding function_fits_def by (intro block_contract_all check_contract) blast

lemma function_steady:
  assumes "tidy ck"
  shows "steady env (snd (entry_state env f ck)) (check_function env f ck)"
proof -
  obtain st ck1 where e: "entry_state env f ck = (st, ck1)" by (cases "entry_state env f ck")
  have r: "ready st ck1" using entry_entered [OF assms, of f env] by (simp add: entered_def e)
  obtain n bs cs L where "keeps env n bs cs L (\<lambda>st ck. check_from env (tf_body f) (flow_normal st) None ck)"
    using check_bare unfolding flow_contract_def by blast
  moreover obtain fl ck2 where c: "check_from env (tf_body f) (flow_normal st) None ck1 = (fl, ck2)"
    by (cases "check_from env (tf_body f) (flow_normal st) None ck1")
  ultimately have "steady env ck1 ck2" using keepsD [OF _ r] by blast
  with c show ?thesis by (simp add: check_function_def e check_block_def)
qed

lemma accepted_function_safe:
  assumes f: "function_fits f" and t: "tidy ck" and c: "clean (check_function env f ck)"
    and run: "(t, e) \<in> block_runs env (tf_body f)"
  shows "safe env (entry_roots env f) (entry_contents f) t"
proof -
  obtain st ck1 where x: "entry_state env f ck = (st, ck1)" by (cases "entry_state env f ck")
  have en: "ready st ck1" "covers st (entry_contents f)" using entry_entered [OF t, of f env] by (simp_all add: entered_def x)
  obtain n bs cs L where k: "shape_ok n bs cs" "runs_fit n bs cs L (block_runs env (tf_body f))"
    "keeps env n bs cs L (\<lambda>st ck. check_from env (tf_body f) (flow_normal st) None ck)"
    using block_contractD [OF body_contract [OF f]] unfolding flow_contract_def by blast
  obtain fl ck2 where y: "check_from env (tf_body f) (flow_normal st) None ck1 = (fl, ck2)"
    by (cases "check_from env (tf_body f) (flow_normal st) None ck1")
  have cl: "clean ck2" using c x y by (simp add: check_function_def check_block_def)
  have fo: "flow_ok env (ck_root_types ck1) True n bs cs L st fl" using keepsD [OF k(3) en(1) y] cl by simp
  have w: "t \<in> ways n bs cs L e" by (rule k(2) [unfolded runs_fit_def, rule_format, OF run])
  have out: "safe env (ck_root_types ck1) (entry_contents f) t" if "outcomes_ok env (ck_root_types ck1) True st specs sts"
    "t \<in> \<Union> (snd ` set specs)" for specs sts
    using that outcome_covers [OF that(1) _ en(2)] by fastforce
  have "safe env (ck_root_types ck1) (entry_contents f) t"
  proof (cases e)
    case EndNormal
    have "outcomes_ok env (ck_root_types ck1) True st (option_list n) (option_list (fl_normal fl))"
      using fo by (simp add: flow_ok_def outcomes_option)
    with out w EndNormal show ?thesis by simp
  next
    case EndBreak
    have "outcomes_ok env (ck_root_types ck1) True st bs (fl_breaks fl)" using fo by (simp add: flow_ok_def)
    from out [OF this] w EndBreak show ?thesis by simp
  next
    case EndContinue
    have "outcomes_ok env (ck_root_types ck1) True st cs (fl_continues fl)" using fo by (simp add: flow_ok_def)
    from out [OF this] w EndContinue show ?thesis by simp
  next
    case EndLeave
    with w fo en(2) show ?thesis by (simp add: flow_ok_def)
  qed
  moreover have "ck_root_types ck1 = entry_roots env f" using entry_root_types [of env f ck] by (simp add: x)
  ultimately show ?thesis by simp
qed

section \<open>Programs\<close>

lemma entry_keeps_reports:
  "ck_diagnostics (snd (entry_state env f ck)) = ck_diagnostics ck \<and> ck_reported (snd (entry_state env f ck)) = ck_reported ck
   \<and> ck_stuck (snd (entry_state env f ck)) = ck_stuck ck"
proof -
  let ?same = "\<lambda>ck ck'. ck_diagnostics ck' = ck_diagnostics ck \<and> ck_reported ck' = ck_reported ck \<and> ck_stuck ck' = ck_stuck ck"
  have l: "?same (snd s) (snd (fold (enter_local env f) xs s))" for xs s
    by (induction xs arbitrary: s) (auto simp: enter_local_def enter_root_def split: prod.split)
  have c: "?same (snd s) (snd (fold (enter_capture env f) xs s))" for xs s
    by (induction xs arbitrary: s) (auto simp: enter_capture_def enter_root_def split: prod.split option.split)
  have "?same ck (snd (fold (enter_local env f) (tf_local_types f) ([], ck\<lparr>ck_root_types := []\<rparr>)))"
    using l [of _ "([], ck\<lparr>ck_root_types := []\<rparr>)"] by simp
  with c show ?thesis by (simp add: entry_state_def Let_def split: option.split)
qed

lemma function_tidy:
  assumes "tidy ck"
  shows "tidy (check_function env f ck)" "sized env \<Longrightarrow> ck_stuck (check_function env f ck) = ck_stuck ck"
    "clean (check_function env f ck) \<Longrightarrow> clean ck"
proof -
  note st = function_steady [OF assms, of env] and k = entry_keeps_reports [of env f ck]
  show "tidy (check_function env f ck)" using st by (rule steadyD(2))
  show "sized env \<Longrightarrow> ck_stuck (check_function env f ck) = ck_stuck ck" using st k unfolding steady_def by blast
  show "clean ck" if "clean (check_function env f ck)" using clean_before [OF st that] k by (simp add: clean_def)
qed

lemma tidy_new: "tidy checker_new" and clean_new: "clean checker_new"
  by (simp_all add: tidy_def clean_def checker_new_def)

lemma functions_tidy:
  assumes "tidy ck"
  shows "tidy (fold (check_function env) fs ck) \<and> (sized env \<longrightarrow> ck_stuck (fold (check_function env) fs ck) = ck_stuck ck)
    \<and> (clean (fold (check_function env) fs ck) \<longrightarrow>
         (\<forall>f\<in>set fs. \<exists>ck'. tidy ck' \<and> clean (check_function env f ck')) \<and> clean ck)"
  using assms
proof (induction fs arbitrary: ck)
  case (Cons f fs)
  note t = function_tidy [OF Cons.prems, of env f]
  from Cons.IH [OF t(1)] Cons.prems t(2,3) show ?case by simp blast
qed simp


text \<open>C27: the checker returns on every program whose values have finite size, whatever its guards and
  patterns do and whether it reports something or not: no search through the parts of a type or of a
  place runs on.\<close>

theorem check_moves_returns:
  assumes "sized env"
  shows "\<not> ck_stuck (check_moves env owned fs)"
  using functions_tidy [OF tidy_new, of env fs] assms by (simp add: check_moves_def checker_new_def)

text \<open>C26: in code without a report, the bound on the rounds of a loop is never what ends it: a \<open>while\<close>
  or \<open>for\<close> loop that is checked with no diagnostic before or in it is stable after at most two rounds,
  and every bound of two or more gives the flow and the checker of the code's own bound. Once something
  has been reported the rounds are not bounded by this theorem.\<close>

theorem loop_bound_irrelevant:
  assumes "sized env" "sane st" "map fst st = map fst (ck_root_types ck)" "ck_reported ck = []" "\<not> ck_stuck ck"
    and "check_statement env s st ck = (fl, ck')" "ck_diagnostics ck' = []"
  shows "check_loop env s (n + 2) st ck = (fl, ck')"
proof (rule loop_statement_bound [OF _ assms(6)])
  show r: "ready st ck" using assms(2-4) by (simp add: ready_def tidy_def)
  obtain m bs cs L where "keeps env m bs cs L (check_statement env s)"
    using statement_bare unfolding flow_contract_def by blast
  from keepsD [OF this r assms(6)] assms(1,5,7) show "clean ck'" by (simp add: steady_def clean_def)
qed

section \<open>States and accesses\<close>

text \<open>C28: a state tree is a map from places to transitions: joining two states joins them place by
  place, unavailable winning, and setting a place sets it and everything below it and nothing else.\<close>

theorem state_operations_pointwise:
  assumes "state_ok a" "state_ok b"
  shows "state_ok (join_two a b) \<and> state_ok (state_set a p t)
    \<and> state_at (join_two a b) r ps = join_option (state_at a r ps) (state_at b r ps)
    \<and> state_at (state_set a p t) r ps =
      (if r = op_root p \<and> prefix (op_projections p) ps \<and> state_at a r ps \<noteq> None then Some t else state_at a r ps)"
  using assms by (simp add: state_at_join state_at_set)


lemma first_cause_found: "first_cause f xs = Some (Some c) \<Longrightarrow> \<exists>x\<in>set xs. f x = Some (Some c)"
  by (induction xs) (auto split: option.splits)

text \<open>What the search reports is a part that is unavailable.\<close>

lemma first_unavailable_found:
  "first_unavailable fuel env node ty = Some (Some c) \<Longrightarrow> node_ok node \<Longrightarrow> \<exists>ps. node_at node ps = c \<and> \<not> tr_available c"
proof (induction fuel arbitrary: node ty)
  case (Suc fuel)
  have below: ?case if "first_unavailable fuel env (child_or_new node p) t = Some (Some c)" for p t
  proof -
    from Suc.IH [OF that child_ok [OF Suc.prems(2)]] obtain ps where "node_at (child_or_new node p) ps = c" "\<not> tr_available c"
      by blast
    then have "node_at node (p # ps) = c" "\<not> tr_available c" by simp_all
    then show ?thesis by blast
  qed
  have entry: ?case if "first_cause (\<lambda>(p, d). first_unavailable fuel env d (g p)) (sn_children node) = Some (Some c)" for g
  proof -
    from first_cause_found [OF that] obtain p d where pd: "(p, d) \<in> set (sn_children node)"
      "first_unavailable fuel env d (g p) = Some (Some c)" by auto
    with child_or_new_entry [OF Suc.prems(2) pd(1)] show ?thesis by (intro below [of p "g p"]) simp
  qed
  have here: ?case if "c = sn_transition node" "\<not> tr_available c"
    using that by (intro exI [of _ "[]"]) simp
  show ?case
  proof (cases "array_shape (me_kind env ty)")
    case (Some en)
    obtain e n where "en = (e, n)" by (cases en)
    with Suc.prems(1) Some entry [of "\<lambda>p. e"] here show ?thesis by (auto simp: Let_def split: if_splits)
  next
    case None
    show ?thesis
    proof (cases "tr_available (sn_transition node)")
      case True
      with Suc.prems(1) None entry [of "\<lambda>p. case map_of (structural_children env ty) p of Some t \<Rightarrow> t | None \<Rightarrow> ty"]
      show ?thesis by (simp add: Let_def)
    next
      case False
      show ?thesis
      proof (cases "structural_children env ty = []")
        case True
        with Suc.prems(1) None False here show ?thesis by (auto simp: Let_def)
      next
        case ne: False
        with Suc.prems(1) None False
        have "first_cause (\<lambda>(p, t). first_unavailable fuel env
            (case map_of (sn_children node) p of Some c \<Rightarrow> c | None \<Rightarrow> node_new (sn_transition node)) t)
            (structural_children env ty) = Some (Some c)" by (simp add: Let_def)
        from first_cause_found [OF this] obtain p t where "first_unavailable fuel env (child_or_new node p) t = Some (Some c)"
          by (auto simp: child_or_new_def)
        then show ?thesis by (rule below)
      qed
    qed
  qed
qed simp

lemma cause_below_found:
  "cause_below env ty node current ps = Some (Some c) \<Longrightarrow> node_ok node \<Longrightarrow> extent env current ps = (path, t)
   \<Longrightarrow> \<exists>qs. node_at node (path @ qs) = c \<and> \<not> tr_available c"
proof (induction env ty node current ps arbitrary: path rule: cause_below.induct)
  case (1 env ty node current)
  then show ?case by (auto dest: first_unavailable_found)
next
  case (2 env ty node current p ps)
  show ?case
  proof (cases "p = ProjDynamicIndex")
    case True
    with 2 show ?thesis by (auto dest: first_unavailable_found)
  next
    case False
    obtain path' t' where e: "extent env (Option.bind current (\<lambda>t. project_type env t p)) ps = (path', t')"
      by (cases "extent env (Option.bind current (\<lambda>t. project_type env t p)) ps")
    with 2(4) False have "path = p # path'" "t = t'" by simp_all
    with 2 False e show ?thesis by simp
  qed
qed


end
