(* ===== verification/Move_Examples.thy ===== *)
theory Move_Examples
  imports Move_Theorems
begin

text \<open>
  The theorems about the move checker on concrete functions, the representation of its states, and two
  behaviours of the checker that its specification does not allow.
\<close>

section \<open>A small program\<close>

text \<open>Type 0 is a \<open>Vec\<close> of type 1, an integer that is copied.\<close>

definition sample_env :: move_env where
  "sample_env = \<lparr>me_kind = (\<lambda>t. if t = 0 then TBuiltin 0 [1] else if t = 1 then TPrimitive PI32 else TPrimitive PBool),
     me_copy = (\<lambda>t. t \<noteq> 0), me_custom_drop = (\<lambda>t. False), me_builtin_name = (\<lambda>b. ''Vec''), me_is_enum = (\<lambda>d. False),
     me_fields = [], me_field_type = (\<lambda>f args. None), me_local_span = (\<lambda>b. span_new 0 b b), me_depth = 0\<rparr>"

definition at_span :: "nat \<Rightarrow> span" where
  "at_span n = span_new 0 n n"

definition use_of :: "ownership_use_kind \<Rightarrow> ownership_place \<Rightarrow> ownership_use" where
  "use_of k p = \<lparr>ou_kind = k, ou_facts = facts_ERROR, ou_place = Some p, ou_legacy_copy = None\<rparr>"

definition local_place :: "local_binding_id \<Rightarrow> ownership_place" where
  "local_place b = place_root (RootLocal b)"

definition moved_local :: "nat \<Rightarrow> local_binding_id \<Rightarrow> typed_expression" where
  "moved_local n b = TypedExpression 0 PlaceMutable None [use_of UseMove (local_place b)] (at_span n) (ELocal b)"

definition truth :: typed_expression where
  "truth = TypedExpression 2 PlaceValue None [] (at_span 0) (EConstant (ConstBool True))"

definition sample_function :: "local_binding_id list \<Rightarrow> typed_statement list \<Rightarrow> typed_function" where
  "sample_function locals body =
     \<lparr>tf_declaration = 0, tf_instance = \<lparr>fi_declaration = 0, fi_arguments = [], fi_self_type = None\<rparr>, tf_name = ''f'',
      tf_span = at_span 0, tf_parameters = [\<lparr>tpa_binding = 0, tpa_ty = 0, tpa_span = at_span 0, tpa_passing = Owned\<rparr>],
      tf_return_type = 0, tf_body = body, tf_local_types = map (\<lambda>b. (b, 0)) locals, tf_drop_requirements = [],
      tf_promoted_locals = [], tf_closure = None\<rparr>"

text \<open>A loop that moves its local back and forth: \<open>while true: let b = a; a = b\<close>.\<close>

definition back_and_forth :: "typed_statement list" where
  "back_and_forth =
     [TypedStatement (at_span 1) (SLet 1 False 0 (moved_local 2 0)),
      TypedStatement (at_span 3) (SAssign (PLocal 0 0 (at_span 3)) AssignAssign (moved_local 4 1))]"

definition looping :: typed_function where
  "looping = sample_function [0, 1] [TypedStatement (at_span 1) (SWhile truth back_and_forth)]"

lemma sample_sized: "sized sample_env"
  unfolding sized_def by (rule exI [of _ "\<lambda>t. 0"]) (auto simp: sample_env_def array_shape_def structural_children_def)

lemma looping_accepted: "ck_diagnostics (check_moves sample_env True [looping]) = []"
  by code_simp

lemma looping_fits: "function_fits looping"
  by (simp add: function_fits_def looping_def sample_function_def back_and_forth_def)

text \<open>The loop may leave after one round: the local is moved, initialized, moved back and initialized.\<close>

definition one_round :: "event list" where
  "one_round = [EvMove (local_place 0) 0, EvSet (local_place 1), EvMove (local_place 1) 0, EvSet (local_place 0)]"

lemma one_round_runs: "(one_round, EndNormal) \<in> block_runs sample_env (tf_body looping)"
proof -
  have m: "expression_traces (moved_local n b) True = {[EvMove (local_place b) 0]}" for n b
    by (simp add: moved_local_def use_of_def local_place_def use_events_def normalized_place_def place_root_def
        borrows_place_def seqs_def is_address_of_def)
  have e: "expression_traces truth True = {[]}" by (simp add: truth_def)
  have b: "(one_round, EndNormal) \<in> block_runs sample_env back_and_forth"
    by (auto simp: back_and_forth_def m one_round_def seq_runs_def evaluating_def normally_def seqs_def local_place_def
        normalized_place_def place_root_def)
  have h: "([], EndNormal) \<in> evaluating {[]}" by (simp add: evaluating_def normally_def)
  have "([] @ one_round @ [], EndNormal) \<in> loop_runs (evaluating {[]}) (block_runs sample_env back_and_forth)"
    by (rule loop_runs.again [OF h b _ loop_runs.exit [OF h]]) simp
  then show ?thesis
    by (auto simp: looping_def sample_function_def e seq_runs_def normally_def)
qed


definition sample_state :: move_state where
  "sample_state = [(RootLocal 0, node_new (transition_initialized (at_span 0))), (RootLocal 1, node_new (transition_uninitialized (at_span 0)))]"

definition sample_checker :: checker where
  "sample_checker = checker_new\<lparr>ck_root_types := [(RootLocal 0, 0), (RootLocal 1, 0)]\<rparr>"

lemma sample_sane: "sane sample_state"
proof -
  have "state_ok sample_state" by (auto simp: state_ok_def sample_state_def ascending_def less_ownership_place_root_def)
  then show ?thesis
    by (auto simp: sane_def sample_state_def state_at_def coherent_def transition_initialized_def transition_uninitialized_def split: if_splits)
qed

definition looping_over :: "typed_statement" where
  "looping_over = TypedStatement (at_span 1) (SFor 1 truth (IterVec 0 1) [] back_and_forth)"

definition sample_loop :: "flow \<times> checker" where
  "sample_loop = check_statement sample_env looping_over sample_state sample_checker"

theorem loop_bound_irrelevant_witness:
  "check_loop sample_env looping_over 2 sample_state sample_checker = sample_loop"
proof -
  have r: "map fst sample_state = map fst (ck_root_types sample_checker)" "ck_reported sample_checker = []" "\<not> ck_stuck sample_checker"
    by (simp_all add: sample_state_def sample_checker_def checker_new_def)
  have c: "check_statement sample_env looping_over sample_state sample_checker = (fst sample_loop, snd sample_loop)"
    by (simp only: sample_loop_def prod.collapse)
  have d: "ck_diagnostics (snd sample_loop) = []" by code_simp
  from loop_bound_irrelevant [OF sample_sized sample_sane r c d, of 0] show ?thesis by (simp only: add_0 prod.collapse)
qed

section \<open>What the checker misses\<close>

text \<open>A guard that consumes the parameter, then an arm that uses it: \<open>match true\<close> with the arms
  \<open>_ if consume(a)\<close> and \<open>_\<close>, the second of which moves \<open>a\<close>.\<close>

definition consuming_guard :: typed_expression where
  "consuming_guard = TypedExpression 2 PlaceValue None [] (at_span 5)
     (ECall (CalleeFunction \<lparr>fi_declaration = 1, fi_arguments = [], fi_self_type = None\<rparr>) [moved_local 5 0] [Owned])"

definition guarded :: typed_function where
  "guarded = sample_function [0, 1]
     [TypedStatement (at_span 1) (SMatch truth
        [TypedMatchArm (TypedPattern 2 (at_span 4) PatWildcard) (Some consuming_guard) [TypedStatement (at_span 6) SPass] (at_span 4),
         TypedMatchArm (TypedPattern 2 (at_span 7) PatWildcard) None
           [TypedStatement (at_span 8) (SLet 1 False 0 (moved_local 8 0))] (at_span 7)])]"

definition twice_moved :: "event list" where
  "twice_moved = [EvMove (local_place 0) 0, EvMove (local_place 0) 0, EvSet (local_place 1)]"

text \<open>The analysis of a match forgets what a failed guard moved: a function whose guard consumes a
  parameter and whose next arm moves it again is accepted, although the execution in which the guard
  fails moves the parameter twice.\<close>

theorem failed_guard_forgotten:
  "ck_diagnostics (check_moves sample_env True [guarded]) = []
   \<and> (twice_moved, EndNormal) \<in> block_runs sample_env (tf_body guarded)
   \<and> \<not> safe sample_env (entry_roots sample_env guarded) (entry_contents guarded) twice_moved"
proof (intro conjI)
  show "ck_diagnostics (check_moves sample_env True [guarded]) = []" by code_simp
  have m: "expression_traces (moved_local n b) True = {[EvMove (local_place b) 0]}" for n b
    by (simp add: moved_local_def use_of_def local_place_def use_events_def normalized_place_def place_root_def
        borrows_place_def seqs_def is_address_of_def)
  have g: "expression_traces consuming_guard True = {[EvMove (local_place 0) 0]}"
    by (simp add: consuming_guard_def m seq_all_def)
  have e: "expression_traces truth True = {[]}" by (simp add: truth_def)
  show "(twice_moved, EndNormal) \<in> block_runs sample_env (tf_body guarded)"
    by (simp add: guarded_def sample_function_def e optional_traces_def g m twice_moved_def seq_runs_def evaluating_def
        normally_def seqs_def te_ownership_place.simps truth_def local_place_def)
      (rule exI [of _ "[EvMove (place_root (RootLocal 0)) 0]"], simp)
  have rt: "map_of (entry_roots sample_env guarded) (RootLocal 0) = Some 0" by code_simp
  have l: "leaf sample_env 0 []" by (rule leaf.whole) (simp_all add: sample_env_def array_shape_def structural_children_def)
  have "\<not> readable sample_env (entry_roots sample_env guarded) (put C (local_place 0) False) (local_place 0) 0" for C
    using rt l by (auto simp: readable_def local_place_def place_root_def or_type_def put_def)
  then show "\<not> safe sample_env (entry_roots sample_env guarded) (entry_contents guarded) twice_moved"
    by (simp add: twice_moved_def)
qed

text \<open>The checker returns on it all the same.\<close>

theorem check_moves_returns_witness: "\<not> ck_stuck (check_moves sample_env True [guarded, looping])"
  by (rule check_moves_returns [OF sample_sized])

text \<open>An element of a moved vector is assigned: \<open>let b = a; a[0] = 1\<close>.\<close>

definition number :: "nat \<Rightarrow> typed_expression" where
  "number n = TypedExpression 1 PlaceValue None [] (at_span 9) (EConstant (ConstInteger n False))"

definition revived :: typed_function where
  "revived = sample_function [0, 1]
     [TypedStatement (at_span 1) (SLet 1 False 0 (moved_local 2 0)),
      TypedStatement (at_span 3)
        (SAssign (PIndex (PLocal 0 0 (at_span 3)) (number 0) 1 (IndexVec 1) (at_span 3)) AssignAssign (number 1))]"

definition element_assigned :: "event list" where
  "element_assigned = [EvMove (local_place 0) 0, EvSet (local_place 1), EvSet (place_push (local_place 0) (ProjConstantIndex 0))]"

text \<open>Assigning an element is not a use of the collection: a function that moves a vector and then
  assigns one of its elements is accepted, although the vector is not initialized at the assignment.\<close>

theorem moved_vector_element_assigned:
  "ck_diagnostics (check_moves sample_env True [revived]) = []
   \<and> (element_assigned, EndNormal) \<in> block_runs sample_env (tf_body revived)
   \<and> \<not> readable sample_env (entry_roots sample_env revived)
        (after_events (entry_contents revived) (take 2 element_assigned)) (local_place 0) 0"
proof (intro conjI)
  show "ck_diagnostics (check_moves sample_env True [revived]) = []" by code_simp
  have m: "expression_traces (moved_local n b) True = {[EvMove (local_place b) 0]}" for n b
    by (simp add: moved_local_def use_of_def local_place_def use_events_def normalized_place_def place_root_def
        borrows_place_def seqs_def is_address_of_def)
  have n: "expression_traces (number n) True = {[]}" for n by (simp add: number_def)
  show "(element_assigned, EndNormal) \<in> block_runs sample_env (tf_body revived)"
    by (auto simp: revived_def sample_function_def m n element_assigned_def seq_runs_def evaluating_def normally_def seqs_def
        local_place_def normalized_place_def place_root_def place_push_def index_projection_def number_def)
  have rt: "map_of (entry_roots sample_env revived) (RootLocal 0) = Some 0" by code_simp
  have l: "leaf sample_env 0 []" by (rule leaf.whole) (simp_all add: sample_env_def array_shape_def structural_children_def)
  then show "\<not> readable sample_env (entry_roots sample_env revived)
        (after_events (entry_contents revived) (take 2 element_assigned)) (local_place 0) 0"
    using rt by (auto simp: readable_def element_assigned_def local_place_def place_root_def or_type_def put_def numeral_2_eq_2)
qed

section \<open>States\<close>

definition other_state :: move_state where
  "other_state = [(RootLocal 0, node_new (transition_moved (at_span 2))), (RootLocal 1, node_new (transition_initialized (at_span 1)))]"

lemma other_sane: "sane other_state"
proof -
  have "state_ok other_state" by (auto simp: state_ok_def other_state_def ascending_def less_ownership_place_root_def)
  then show ?thesis
    by (auto simp: sane_def other_state_def state_at_def coherent_def transition_initialized_def transition_moved_def split: if_splits)
qed

theorem state_operations_pointwise_witness:
  "state_at (join_two sample_state other_state) (RootLocal 0) [] = Some (transition_moved (at_span 2))"
proof -
  have "state_at (join_two sample_state other_state) (RootLocal 0) []
      = join_option (state_at sample_state (RootLocal 0) []) (state_at other_state (RootLocal 0) [])"
    using state_operations_pointwise [OF saneD(1) [OF sample_sane] saneD(1) [OF other_sane]] by blast
  then show ?thesis by (simp add: state_at_def sample_state_def other_state_def join_transition_def transition_initialized_def transition_moved_def)
qed


text \<open>A pair of a vector and a truth value, type 3, whose vector is moved: the pair cannot be used.\<close>

definition pair_env :: move_env where
  "pair_env = sample_env\<lparr>me_kind := (\<lambda>t. if t = 3 then TTuple [0, 2] else me_kind sample_env t), me_depth := 1\<rparr>"

definition pair_checker :: checker where
  "pair_checker = checker_new\<lparr>ck_root_types := [(RootLocal 0, 3), (RootLocal 1, 0)]\<rparr>"

lemma pair_sized: "sized pair_env"
  unfolding sized_def
  by (rule exI [of _ "\<lambda>t. if t = 3 then 1 else 0"])
    (auto simp: pair_env_def sample_env_def array_shape_def structural_children_def enumerate_eq_zip)

lemma pair_leaf: "leaf pair_env 3 [ProjTupleField 0]"
  by (rule leaf.part [where t = "0 :: type_id", OF _ _ leaf.whole])
    (simp_all add: pair_env_def sample_env_def array_shape_def structural_children_def)


end
