(* ===== verification/Parser_State.thy ===== *)
theory Parser_State
  imports Syntax_Tree Diagnostics "HOL-Library.Monad_Syntax"
begin

text \<open>
  The state of the parser of \<^verbatim>\<open>src/parser.rs\<close> and the operations every production is built from. A
  production that pushes children is a step: it returns the children it pushes, and None where the
  code would index past the token stream and panic, or not return. Loops run at most once per
  remaining token and once more; the totality theorem shows that no loop needs more.
\<close>

section \<open>Configuration\<close>

text \<open>\<^verbatim>\<open>src/config.rs\<close>\<close>

datatype semantic_revision = V0_11

definition supports_owned_surface :: "semantic_revision \<Rightarrow> bool" where
  "supports_owned_surface r \<longleftrightarrow> r = V0_11"

section \<open>State\<close>

record parser =
  pa_tokens :: "token list"
  pa_position :: nat
  pa_diagnostics :: "diagnostic list"
  pa_revision :: semantic_revision

type_synonym 'a action = "parser \<Rightarrow> ('a \<times> parser) option"
type_synonym step = "syntax_element list action"

definition parser_new :: "token list \<Rightarrow> semantic_revision \<Rightarrow> parser" where
  "parser_new tokens revision = \<lparr>pa_tokens = tokens, pa_position = 0, pa_diagnostics = [], pa_revision = revision\<rparr>"

definition current :: "parser \<Rightarrow> token option" where
  "current s = vget (pa_tokens s) (pa_position s)"

definition current_kind :: "parser \<Rightarrow> token_kind option" where
  "current_kind s = map_option token_kind (current s)"

definition token_ahead :: "parser \<Rightarrow> nat \<Rightarrow> token_kind option" where
  "token_ahead s offset = map_option token_kind (vget (pa_tokens s) (pa_position s + offset))"

definition current_span :: "parser \<Rightarrow> span option" where
  "current_span s =
     (case current s of Some t \<Rightarrow> Some (token_span t) | None \<Rightarrow> map_option token_span (vlast (pa_tokens s)))"

definition at_simple :: "token_kind \<Rightarrow> parser \<Rightarrow> bool" where
  "at_simple k s \<longleftrightarrow> current_kind s = Some k"

definition at_keyword :: "keyword \<Rightarrow> parser \<Rightarrow> bool" where
  "at_keyword k s \<longleftrightarrow> current_kind s = Some (Keyword k)"

definition at_eof :: "parser \<Rightarrow> bool" where
  "at_eof s \<longleftrightarrow> length (pa_tokens s) \<le> pa_position s \<or> at_simple Eof s"

definition bump :: step where
  "bump s = do {
     t \<leftarrow> current s;
     Some ([TokenElement t], s\<lparr>pa_position := pa_position s + 1\<rparr>)
   }"

definition push_syntax_error :: "string \<Rightarrow> span \<Rightarrow> parser \<Rightarrow> parser" where
  "push_syntax_error msg sp s =
     s\<lparr>pa_diagnostics := pa_diagnostics s @ [with_primary (diagnostic_new CatSyntax msg) sp]\<rparr>"

definition error_here :: "string \<Rightarrow> step" where
  "error_here msg s = do {
     sp \<leftarrow> current_span s;
     Some ([], push_syntax_error msg sp s)
   }"

section \<open>Positions\<close>

definition at_identifier :: "parser \<Rightarrow> bool" where
  "at_identifier s \<longleftrightarrow> (case current_kind s of Some (Identifier n) \<Rightarrow> True | _ \<Rightarrow> False)"

definition at_doc_comment :: "parser \<Rightarrow> bool" where
  "at_doc_comment s \<longleftrightarrow> (case current_kind s of Some (DocComment d) \<Rightarrow> True | _ \<Rightarrow> False)"

definition at_path_component :: "parser \<Rightarrow> bool" where
  "at_path_component s \<longleftrightarrow>
     at_identifier s \<or> at_keyword KwRoot s \<or> at_keyword KwSelfValue s \<or> at_keyword KwSelfType s \<or> at_keyword KwSuper s"

definition is_literal :: "token_kind \<Rightarrow> bool" where
  "is_literal k =
     (case k of
        IntegerLiteral raw radix sfx \<Rightarrow> True
      | FloatLiteral raw sfx \<Rightarrow> True
      | StringLiteral value \<Rightarrow> True
      | CharacterLiteral value \<Rightarrow> True
      | Keyword w \<Rightarrow> w \<in> {KwTrue, KwFalse, KwNull}
      | _ \<Rightarrow> False)"

definition at_literal :: "parser \<Rightarrow> bool" where
  "at_literal s \<longleftrightarrow> (case current_kind s of Some k \<Rightarrow> is_literal k | None \<Rightarrow> False)"

definition at_assignment_operator :: "parser \<Rightarrow> bool" where
  "at_assignment_operator s \<longleftrightarrow>
     list_ex (\<lambda>k. at_simple k s)
       [Assign, PlusAssign, MinusAssign, StarAssign, SlashAssign, PercentAssign, AmpAssign, PipeAssign, CaretAssign,
        ShlAssign, ShrAssign]"

definition at_line_end :: "parser \<Rightarrow> bool" where
  "at_line_end s \<longleftrightarrow> at_simple Newline s \<or> at_simple Dedent s \<or> at_eof s"

definition at_expression_boundary :: "parser \<Rightarrow> bool" where
  "at_expression_boundary s \<longleftrightarrow> at_line_end s \<or> list_ex (\<lambda>k. at_simple k s) [Comma, Colon, RParen, RBracket, RBrace]"

definition at_type_boundary :: "parser \<Rightarrow> bool" where
  "at_type_boundary s \<longleftrightarrow> at_expression_boundary s \<or> list_ex (\<lambda>k. at_simple k s) [Assign, Arrow, Plus]"

section \<open>Combining steps\<close>

text \<open>Pushing nothing, pushing in sequence, and a choice made at the current token\<close>

definition nothing :: step where
  "nothing s = Some ([], s)"

primrec steps :: "step list \<Rightarrow> step" where
  "steps [] s = Some ([], s)"
| "steps (a # as) s = do {
     (xs, s1) \<leftarrow> a s;
     (ys, s2) \<leftarrow> steps as s1;
     Some (xs @ ys, s2)
   }"

definition branch :: "(parser \<Rightarrow> bool) \<Rightarrow> 'a action \<Rightarrow> 'a action \<Rightarrow> 'a action" where
  "branch p a b s = (if p s then a s else b s)"

definition when_at :: "(parser \<Rightarrow> bool) \<Rightarrow> step \<Rightarrow> step" where
  "when_at p a = branch p a nothing"

text \<open>A production: its children under one node. \<open>child\<close> pushes the node of a production.\<close>

definition as_node :: "syntax_kind \<Rightarrow> step \<Rightarrow> syntax_node action" where
  "as_node k a s = do {
     fallback \<leftarrow> current_span s;
     (cs, s1) \<leftarrow> a s;
     Some (syntax_node_new k cs fallback, s1)
   }"

definition child :: "syntax_node action \<Rightarrow> step" where
  "child a s = do {
     (n, s1) \<leftarrow> a s;
     Some ([NodeElement n], s1)
   }"

text \<open>Loops\<close>

definition loop_bound :: "parser \<Rightarrow> nat" where
  "loop_bound s = Suc (length (pa_tokens s) - pa_position s)"

primrec repeat_from :: "nat \<Rightarrow> (parser \<Rightarrow> bool) \<Rightarrow> step \<Rightarrow> step" where
  "repeat_from 0 p body s = None"
| "repeat_from (Suc n) p body s =
     (if p s then do {
        (xs, s1) \<leftarrow> body s;
        (ys, s2) \<leftarrow> repeat_from n p body s1;
        Some (xs @ ys, s2)
      }
      else Some ([], s))"

definition while_at :: "(parser \<Rightarrow> bool) \<Rightarrow> step \<Rightarrow> step" where
  "while_at p body s = repeat_from (loop_bound s) p body s"

text \<open>\<open>while !at_eof && !at(close) { item; if !eat(Comma) { break } }\<close>\<close>

primrec separated_from :: "nat \<Rightarrow> token_kind \<Rightarrow> step \<Rightarrow> step" where
  "separated_from 0 close item s = None"
| "separated_from (Suc n) close item s =
     (if at_eof s \<or> at_simple close s then Some ([], s)
      else do {
        (xs, s1) \<leftarrow> item s;
        if at_simple Comma s1 then do {
          (c, s2) \<leftarrow> bump s1;
          (ys, s3) \<leftarrow> separated_from n close item s2;
          Some (xs @ c @ ys, s3)
        }
        else Some (xs, s1)
      })"

definition separated :: "token_kind \<Rightarrow> step \<Rightarrow> step" where
  "separated close item s = separated_from (loop_bound s) close item s"

text \<open>\<open>while at(Comma) { bump; if at(close) { break }; item }\<close>\<close>

primrec trailing_from :: "nat \<Rightarrow> token_kind \<Rightarrow> step \<Rightarrow> step" where
  "trailing_from 0 close item s = None"
| "trailing_from (Suc n) close item s =
     (if at_simple Comma s then do {
        (c, s1) \<leftarrow> bump s;
        if at_simple close s1 then Some (c, s1)
        else do {
          (xs, s2) \<leftarrow> item s1;
          (ys, s3) \<leftarrow> trailing_from n close item s2;
          Some (c @ xs @ ys, s3)
        }
      }
      else Some ([], s))"

definition trailing :: "token_kind \<Rightarrow> step \<Rightarrow> step" where
  "trailing close item s = trailing_from (loop_bound s) close item s"

text \<open>The tokens up to the parenthesis that closes an argument list\<close>

primrec balanced_from :: "nat \<Rightarrow> nat \<Rightarrow> step" where
  "balanced_from 0 depth s = None"
| "balanced_from (Suc n) depth s =
     (if \<not> at_eof s \<and> (0 < depth \<or> \<not> at_simple RParen s) then do {
        (c, s1) \<leftarrow> bump s;
        (ys, s2) \<leftarrow> balanced_from n
          (if at_simple LParen s \<or> at_simple LBracket s \<or> at_simple LBrace s then depth + 1
           else if (at_simple RParen s \<or> at_simple RBracket s \<or> at_simple RBrace s) \<and> 0 < depth then depth - 1
           else depth) s1;
        Some (c @ ys, s2)
      }
      else Some ([], s))"

definition balanced_tokens :: step where
  "balanced_tokens s = balanced_from (loop_bound s) 0 s"

section \<open>Expecting tokens\<close>

definition eat_simple :: "token_kind \<Rightarrow> step" where
  "eat_simple k = when_at (at_simple k) bump"

definition eat_keyword :: "keyword \<Rightarrow> step" where
  "eat_keyword k = when_at (at_keyword k) bump"

definition expect_simple :: "token_kind \<Rightarrow> string \<Rightarrow> step" where
  "expect_simple k msg = branch (at_simple k) bump (error_here msg)"

definition expect_keyword :: "keyword \<Rightarrow> string \<Rightarrow> step" where
  "expect_keyword k msg = branch (at_keyword k) bump (error_here msg)"

definition expect_identifier :: "string \<Rightarrow> step" where
  "expect_identifier msg = branch at_identifier bump (error_here msg)"

definition expect_name :: "string \<Rightarrow> step" where
  "expect_name msg = branch at_path_component bump (error_here msg)"

definition expect_parameter_name :: step where
  "expect_parameter_name =
     branch (\<lambda>s. at_identifier s \<or> at_keyword KwSelfValue s) bump (error_here ''expected parameter name'')"

definition eat_newlines :: step where
  "eat_newlines = while_at (at_simple Newline) bump"

definition recover_line :: step where
  "recover_line =
     steps [while_at (\<lambda>s. \<not> at_eof s \<and> \<not> at_simple Newline s \<and> \<not> at_simple Dedent s) bump, eat_simple Newline]"

definition expect_line_end :: step where
  "expect_line_end =
     branch (at_simple Newline) bump
       (branch (\<lambda>s. \<not> at_simple Dedent s \<and> \<not> at_eof s) (steps [error_here ''expected end of statement'', recover_line]) nothing)"

definition parse_path_tokens :: step where
  "parse_path_tokens =
     steps [expect_name ''expected path component'',
       while_at (at_simple Dot) (steps [bump, expect_identifier ''expected path component after `.`''])]"

definition take_docs :: step where
  "take_docs =
     when_at at_doc_comment
       (child (as_node SkDocumentation (while_at at_doc_comment (steps [bump, eat_simple Newline]))))"

definition parse_attribute :: "syntax_node action" where
  "parse_attribute =
     as_node SkAttribute (steps [bump,
       branch (\<lambda>s. at_keyword KwAttr s \<or> at_keyword KwDerive s) bump (expect_identifier ''expected attribute name after `@`''),
       expect_simple LParen ''expected `(` after attribute name'',
       balanced_tokens,
       expect_simple RParen ''expected `)`''])"

definition take_item_prefix :: step where
  "take_item_prefix =
     steps [take_docs, while_at (at_simple At) (steps [child parse_attribute, eat_simple Newline])]"

end
