(* ===== verification/Parser_Syntax.thy ===== *)
theory Parser_Syntax
  imports Parser_State
begin

text \<open>
  Types, patterns and expressions of the parser (\<^verbatim>\<open>src/parser.rs\<close>). The productions that call each
  other recursively are the nonterminals; every other one takes the parser of the nonterminals as
  its argument \<open>call\<close>.
\<close>

section \<open>Nonterminals\<close>

datatype grammar_symbol =
  NtType | NtExpression nat | NtPattern | NtPatternAtom | NtBindingTuple | NtStatement | NtItem

type_synonym productions = "grammar_symbol \<Rightarrow> syntax_node action"

abbreviation type_child :: "productions \<Rightarrow> step" where
  "type_child call \<equiv> child (call NtType)"

abbreviation expression_child :: "productions \<Rightarrow> step" where
  "expression_child call \<equiv> child (call (NtExpression 0))"

abbreviation pattern_child :: "productions \<Rightarrow> step" where
  "pattern_child call \<equiv> child (call NtPattern)"

definition error_at :: "string \<Rightarrow> span \<Rightarrow> step" where
  "error_at msg sp s = Some ([], push_syntax_error msg sp s)"

definition is_multiline_expression :: "syntax_node \<Rightarrow> bool" where
  "is_multiline_expression e \<longleftrightarrow> node_kind e = SkClosureExpression \<or> node_kind e = SkQuoteExpression"

definition is_comparison_operator :: "token_kind \<Rightarrow> bool" where
  "is_comparison_operator k \<longleftrightarrow> k \<in> {Less, LessEq, Greater, GreaterEq, EqEq, NotEq}"

definition is_comparison_expression :: "syntax_node \<Rightarrow> bool" where
  "is_comparison_expression e \<longleftrightarrow>
     node_kind e = SkBinaryExpression
     \<and> list_ex (\<lambda>c. case c of TokenElement t \<Rightarrow> is_comparison_operator (token_kind t) | NodeElement n \<Rightarrow> False) (node_children e)"

section \<open>Blocks\<close>

text \<open>
  The members of an indented body, with their number. A member that consumes nothing is followed by
  the token it stopped at.
\<close>

definition progressing :: "step \<Rightarrow> step" where
  "progressing a s = do {
     (xs, s1) \<leftarrow> a s;
     if pa_position s1 = pa_position s then do {
       (c, s2) \<leftarrow> bump s1;
       Some (xs @ c, s2)
     }
     else Some (xs, s1)
   }"

primrec block_from :: "nat \<Rightarrow> step \<Rightarrow> (nat \<times> syntax_element list) action" where
  "block_from 0 member s = None"
| "block_from (Suc n) member s =
     (if at_eof s \<or> at_simple Dedent s then Some ((0, []), s)
      else if at_simple Newline s then do {
        (c, s1) \<leftarrow> bump s;
        ((m, xs), s2) \<leftarrow> block_from n member s1;
        Some ((m, c @ xs), s2)
      }
      else do {
        (xs, s1) \<leftarrow> member s;
        ((m, ys), s2) \<leftarrow> block_from n member s1;
        Some ((Suc m, xs @ ys), s2)
      })"

definition members :: "string \<Rightarrow> step \<Rightarrow> step" where
  "members msg member s = do {
     ((m, xs), s1) \<leftarrow> block_from (loop_bound s) member s;
     (ys, s2) \<leftarrow> (if m = 0 then error_here msg else nothing) s1;
     Some (xs @ ys, s2)
   }"

definition expect_block_start :: step where
  "expect_block_start =
     steps [expect_simple Colon ''expected `:` before body'',
       expect_simple Newline ''body must begin on the following line'',
       expect_simple Indent ''expected a four-space indented body'']"

definition block :: "string \<Rightarrow> string \<Rightarrow> step \<Rightarrow> step" where
  "block empty_msg end_msg member =
     child (as_node SkBlock (steps [expect_block_start, members empty_msg member, expect_simple Dedent end_msg]))"

definition parse_statement_block :: "productions \<Rightarrow> step" where
  "parse_statement_block call =
     block ''an indented body cannot be empty; use `pass`'' ''expected end of indented body''
       (progressing (child (call NtStatement)))"

section \<open>Macros\<close>

definition parse_macro_sequence :: "productions \<Rightarrow> token_kind \<Rightarrow> token_kind \<Rightarrow> step" where
  "parse_macro_sequence call open_kind close_kind =
     steps [expect_simple open_kind ''expected collection macro delimiter'',
       separated close_kind (expression_child call),
       expect_simple close_kind ''expected collection macro closing delimiter'']"

definition recover_macro_invocation :: "productions \<Rightarrow> step" where
  "recover_macro_invocation call =
     branch (at_simple LBracket) (parse_macro_sequence call LBracket RBracket)
       (branch (at_simple LBrace) (parse_macro_sequence call LBrace RBrace)
         (error_here ''expected `[` or `{` after macro name''))"

definition parse_user_macro_arguments :: "productions \<Rightarrow> step" where
  "parse_user_macro_arguments call =
     branch (at_simple LParen)
       (steps [bump, balanced_tokens, expect_simple RParen ''expected `)` after user macro arguments''])
       (steps [error_here ''expected `(` after user macro path'', recover_macro_invocation call])"

definition map_entry :: "productions \<Rightarrow> step" where
  "map_entry call =
     steps [expression_child call, expect_simple Colon ''expected `:` between map key and value'', expression_child call]"

definition macro_arguments :: "productions \<Rightarrow> string option \<Rightarrow> step" where
  "macro_arguments call name =
     (if name = Some ''vec'' then parse_macro_sequence call LBracket RBracket
      else if name = Some ''map'' then
        steps [expect_simple LBrace ''expected `{` after `@map`'', separated RBrace (map_entry call),
          expect_simple RBrace ''expected `}`'']
      else if name = Some ''set'' then parse_macro_sequence call LBrace RBrace
      else parse_user_macro_arguments call)"

definition identifier_here :: "parser \<Rightarrow> string option" where
  "identifier_here s = (case current_kind s of Some (Identifier n) \<Rightarrow> Some n | _ \<Rightarrow> None)"

definition has_dot :: "syntax_element list \<Rightarrow> bool" where
  "has_dot cs \<longleftrightarrow> list_ex (\<lambda>c. case c of TokenElement t \<Rightarrow> token_kind t = Dot | NodeElement n \<Rightarrow> False) cs"

text \<open>The arguments of a collection macro depend on the unqualified name before them.\<close>

definition macro_rest :: "productions \<Rightarrow> step" where
  "macro_rest call s = do {
     (cs, s1) \<leftarrow> parse_path_tokens s;
     (ds, s2) \<leftarrow> macro_arguments call (if has_dot cs then None else identifier_here s) s1;
     Some (cs @ ds, s2)
   }"

definition parse_macro_expression :: "productions \<Rightarrow> syntax_node action" where
  "parse_macro_expression call = as_node SkMacroExpression (steps [bump, macro_rest call])"

section \<open>Types\<close>

definition parse_type_arguments :: "productions \<Rightarrow> syntax_node action" where
  "parse_type_arguments call =
     as_node SkTypeArguments (steps [expect_simple LBracket ''expected `[`'', separated RBracket (type_child call),
       expect_simple RBracket ''expected `]`''])"

definition parse_return_type :: "productions \<Rightarrow> syntax_node action" where
  "parse_return_type call =
     branch (at_simple Bang)
       (as_node SkType (steps [bump,
          when_at (\<lambda>s. \<not> at_type_boundary s)
            (steps [error_here ''`!` must stand alone as a function return type'', type_child call])]))
       (call NtType)"

text \<open>A production whose kind is known only after its children\<close>

definition as_kinded_node :: "(syntax_kind \<times> syntax_element list) action \<Rightarrow> syntax_node action" where
  "as_kinded_node a s = do {
     fallback \<leftarrow> current_span s;
     ((k, cs), s1) \<leftarrow> a s;
     Some (syntax_node_new k cs fallback, s1)
   }"

definition kinded :: "syntax_kind \<Rightarrow> step \<Rightarrow> (syntax_kind \<times> syntax_element list) action" where
  "kinded k a s = do {
     (xs, s1) \<leftarrow> a s;
     Some ((k, xs), s1)
   }"

definition prefixed :: "step \<Rightarrow> (syntax_kind \<times> syntax_element list) action \<Rightarrow> (syntax_kind \<times> syntax_element list) action" where
  "prefixed a b s = do {
     (xs, s1) \<leftarrow> a s;
     ((k, ys), s2) \<leftarrow> b s1;
     Some ((k, xs @ ys), s2)
   }"

text \<open>Parameters that may be variadic: a second variadic one, and one that is not last, are reported.\<close>

definition variadic_type :: "productions \<Rightarrow> string \<Rightarrow> span \<Rightarrow> bool \<Rightarrow> (bool \<times> syntax_element list) action" where
  "variadic_type call twice sp seen s = do {
     (xs, s1) \<leftarrow> steps [eat_simple Ellipsis, (if at_simple Ellipsis s \<and> seen then error_at twice sp else nothing), type_child call] s;
     Some ((at_simple Ellipsis s, xs), s1)
   }"

primrec variadic_from :: "nat \<Rightarrow> (span \<Rightarrow> bool \<Rightarrow> (bool \<times> syntax_element list) action) \<Rightarrow> bool \<Rightarrow> step" where
  "variadic_from 0 item seen s = None"
| "variadic_from (Suc n) item seen s =
     (if at_eof s \<or> at_simple RParen s then Some ([], s)
      else do {
        sp \<leftarrow> current_span s;
        ((variadic, xs), s1) \<leftarrow> item sp seen s;
        if at_simple Comma s1 then do {
          (c, s2) \<leftarrow> bump s1;
          (d, s3) \<leftarrow> (if variadic \<and> \<not> at_simple RParen s2 then error_at ''a variadic parameter must be final'' sp
                      else nothing) s2;
          (ys, s4) \<leftarrow> variadic_from n item (seen \<or> variadic) s3;
          Some (xs @ c @ d @ ys, s4)
        }
        else Some (xs, s1)
      })"

definition variadic_list :: "(span \<Rightarrow> bool \<Rightarrow> (bool \<times> syntax_element list) action) \<Rightarrow> step" where
  "variadic_list item s = variadic_from (loop_bound s) item False s"

definition parameter :: "productions \<Rightarrow> span \<Rightarrow> bool \<Rightarrow> (bool \<times> syntax_element list) action" where
  "parameter call sp seen s = do {
     (xs, s1) \<leftarrow> steps [expect_parameter_name, expect_simple Colon ''expected `:`''] s;
     ((variadic, ys), s2) \<leftarrow> variadic_type call ''a parameter list may contain only one variadic parameter'' sp seen s1;
     Some ((variadic, [NodeElement (syntax_node_new SkParameter (xs @ ys) sp)]), s2)
   }"

definition parse_parameters :: "productions \<Rightarrow> syntax_node action" where
  "parse_parameters call =
     as_node SkParameters (steps [expect_simple LParen ''expected `(`'', variadic_list (parameter call),
       expect_simple RParen ''expected `)`''])"

definition parse_function_type_tail :: "productions \<Rightarrow> step" where
  "parse_function_type_tail call =
     steps [expect_keyword KwFn ''expected `fn`'',
       expect_simple LParen ''expected `(`'',
       variadic_list (variadic_type call ''a function type may contain only one variadic parameter''),
       expect_simple RParen ''expected `)`'',
       branch (at_simple Arrow) (steps [bump, child (parse_return_type call)]) (error_here ''expected `->` in function type'')]"

definition bracket_tail :: "productions \<Rightarrow> bool \<Rightarrow> span \<Rightarrow> step" where
  "bracket_tail call mutable_slice fallback =
     steps
       [(if mutable_slice then bump else nothing),
        type_child call,
        when_at (at_simple Semicolon)
          (steps [(if mutable_slice then error_at ''an owning array is `[T; N]`; `var` is valid only in `[var T]`'' fallback
                   else nothing), bump, expression_child call]),
        expect_simple RBracket ''expected `]`'']"

definition bracket_type :: "productions \<Rightarrow> step" where
  "bracket_type call s = do {
     fallback \<leftarrow> current_span s;
     (c, s1) \<leftarrow> bump s;
     (xs, s2) \<leftarrow> bracket_tail call (supports_owned_surface (pa_revision s1) \<and> at_keyword KwVar s1) fallback s1;
     Some (c @ xs, s2)
   }"

text \<open>A parenthesised list of types, with an optional final comma\<close>

definition type_list :: "productions \<Rightarrow> step" where
  "type_list call =
     steps [bump,
       when_at (\<lambda>s. \<not> at_simple RParen s) (steps [type_child call, trailing RParen (type_child call)]),
       expect_simple RParen ''expected `)`'']"

definition named_type :: "productions \<Rightarrow> step" where
  "named_type call =
     branch at_path_component
       (steps [parse_path_tokens, when_at (at_simple LBracket) (child (parse_type_arguments call))])
       (steps [error_here ''expected a type'', when_at (\<lambda>s. \<not> at_type_boundary s) bump])"

definition type_node_children :: "productions \<Rightarrow> step" where
  "type_node_children call =
     branch (at_simple Bang) bump
     (branch (\<lambda>s. at_simple Amp s \<or> at_simple Star s)
        (steps [bump, eat_keyword KwVar, eat_keyword KwUnsafe, type_child call])
     (branch (at_keyword KwUnsafe)
        (steps [bump, branch (at_keyword KwFn) (parse_function_type_tail call)
          (error_here ''expected `fn` after `unsafe` in a function type'')])
     (branch (at_keyword KwFn) (parse_function_type_tail call)
     (branch (at_simple LBracket) (bracket_type call)
     (branch (at_simple LParen) (type_list call)
        (named_type call))))))"

definition parse_type :: "productions \<Rightarrow> syntax_node action" where
  "parse_type call = branch (at_simple At) (parse_macro_expression call) (as_node SkType (type_node_children call))"

section \<open>Patterns\<close>

definition parse_binding_tuple_pattern :: "productions \<Rightarrow> syntax_node action" where
  "parse_binding_tuple_pattern call =
     as_node SkTuplePattern (steps [bump,
       separated RParen
         (branch (at_simple LParen) (child (call NtBindingTuple))
            (child (as_node SkPattern (expect_identifier ''tuple binding elements must be identifiers, `_`, or nested tuples'')))),
       expect_simple RParen ''expected `)`''])"

definition parse_pattern :: "productions \<Rightarrow> syntax_node action" where
  "parse_pattern call =
     as_kinded_node (prefixed (child (call NtPatternAtom))
       (branch (at_simple Pipe)
          (kinded SkAlternativePattern (while_at (at_simple Pipe) (steps [bump, child (call NtPatternAtom)])))
          (kinded SkPattern nothing)))"

definition pattern_list :: "productions \<Rightarrow> step" where
  "pattern_list call = steps [bump, separated RParen (pattern_child call), expect_simple RParen ''expected `)`'']"

definition pattern_field :: "productions \<Rightarrow> step" where
  "pattern_field call =
     child (as_node SkPatternField
       (branch (at_simple DotDot) bump
         (steps [expect_identifier ''expected pattern field'',
           when_at (at_simple Colon) (steps [bump, pattern_child call])])))"

definition pattern_record :: "productions \<Rightarrow> step" where
  "pattern_record call = steps [bump, separated RBrace (pattern_field call), expect_simple RBrace ''expected `}`'']"

definition path_pattern :: "productions \<Rightarrow> syntax_node action" where
  "path_pattern call =
     as_kinded_node (prefixed parse_path_tokens
       (branch (at_simple LParen) (kinded SkVariantPattern (pattern_list call))
       (branch (at_simple LBrace) (kinded SkRecordPattern (pattern_record call))
          (kinded SkPattern nothing))))"

definition parse_pattern_atom :: "productions \<Rightarrow> syntax_node action" where
  "parse_pattern_atom call =
     branch (at_simple At) (parse_macro_expression call)
     (branch (at_simple Star) (as_node SkDereferencePattern (steps [bump, child (call NtPatternAtom)]))
     (branch (at_simple LParen) (as_node SkTuplePattern (pattern_list call))
     (branch at_literal (as_node SkPattern bump)
     (branch at_path_component (path_pattern call)
        (as_node SkError (steps [error_here ''expected a pattern'', when_at (\<lambda>s. \<not> at_expression_boundary s) bump]))))))"

end
