(* ===== verification/Parser_Expressions.thy ===== *)
theory Parser_Expressions
  imports Parser_Syntax
begin

text \<open>Expressions of the parser (\<^verbatim>\<open>src/parser.rs\<close>): operators by binding power, postfix forms, closures and quotes.\<close>

section \<open>Closures\<close>

definition owned_surface :: "parser \<Rightarrow> bool" where
  "owned_surface s \<longleftrightarrow> supports_owned_surface (pa_revision s)"

definition capture_sigil :: step where
  "capture_sigil =
     branch (\<lambda>s. at_simple Amp s \<or> \<not> owned_surface s \<and> at_simple Star s) (steps [bump, eat_keyword KwVar])
       (when_at (\<lambda>s. owned_surface s \<and> at_simple Star s)
         (steps [error_here ''owned-model closure captures use a value, `&`, or `&var`, not `*`'', bump, eat_keyword KwVar]))"

definition closure_capture :: step where
  "closure_capture =
     child (as_node SkClosureCapture (steps [capture_sigil,
       expect_identifier ''expected captured local name'',
       when_at (at_keyword KwAs) (steps [bump, expect_identifier ''expected capture alias after `as`''])]))"

definition parse_closure_captures :: "syntax_node action" where
  "parse_closure_captures =
     as_node SkClosureCaptureList (steps [bump,
       when_at (\<lambda>s. at_simple RBracket s \<and> \<not> owned_surface s)
         (error_here ''a closure capture list cannot be empty; omit `[]`''),
       separated RBracket closure_capture,
       expect_simple RBracket ''expected `]`''])"

definition closure_parameter :: "productions \<Rightarrow> step" where
  "closure_parameter call =
     child (as_node SkParameter (steps [expect_identifier ''expected closure parameter name'',
       expect_simple Colon ''expected `:`'',
       when_at (at_simple Ellipsis) (steps [error_here ''closure parameters cannot be variadic'', bump]),
       type_child call]))"

definition parse_closure_parameters :: "productions \<Rightarrow> syntax_node action" where
  "parse_closure_parameters call =
     as_node SkParameters (steps [expect_simple LParen ''expected `(`'', separated RParen (closure_parameter call),
       expect_simple RParen ''expected `)`''])"

definition parse_closure_expression :: "productions \<Rightarrow> syntax_node action" where
  "parse_closure_expression call =
     as_node SkClosureExpression (steps [bump,
       branch (at_simple LBracket) (child parse_closure_captures)
         (when_at owned_surface (error_here ''an owned-model closure requires an explicit capture list such as `fn[]`'')),
       child (parse_closure_parameters call),
       when_at (at_simple Arrow) (steps [bump, child (parse_return_type call)]),
       parse_statement_block call])"

section \<open>Quotes\<close>

definition parse_quote_interpolation :: "productions \<Rightarrow> syntax_node action" where
  "parse_quote_interpolation call =
     as_node SkQuoteInterpolation (steps [bump,
       branch at_identifier bump
         (branch (at_simple LParen)
           (steps [bump,
             branch (at_simple RParen) (error_here ''computed quote interpolation requires an expression'') (expression_child call),
             expect_simple RParen ''expected `)` after computed quote interpolation''])
           (error_here ''expected an identifier or `(` after `$` in quote interpolation''))])"

text \<open>The body of a quote: the blocks still open, the number of tokens that are not layout, and the children\<close>

primrec quote_from :: "nat \<Rightarrow> productions \<Rightarrow> nat \<Rightarrow> ((nat \<times> nat) \<times> syntax_element list) action" where
  "quote_from 0 call depth s = None"
| "quote_from (Suc n) call depth s =
     (if at_eof s \<or> depth = 0 then Some (((depth, 0), []), s)
      else do {
        (xs, s1) \<leftarrow> branch (at_simple Dollar) (child (parse_quote_interpolation call)) bump s;
        (((d, m), ys), s2) \<leftarrow> quote_from n call
          (if at_simple Indent s then depth + 1 else if at_simple Dedent s then depth - 1 else depth) s1;
        Some (((d, if at_simple Indent s \<or> at_simple Dedent s \<or> at_simple Newline s then m else Suc m), xs @ ys), s2)
      })"

definition quote_content :: "productions \<Rightarrow> step" where
  "quote_content call s = do {
     body_fallback \<leftarrow> current_span s;
     (b, s1) \<leftarrow> bump s;
     (((depth, content_tokens), xs), s2) \<leftarrow> quote_from (loop_bound s1) call 1 s1;
     (ys, s3) \<leftarrow> steps
       [(if 0 < depth then error_here ''expected end of indented quote body'' else nothing),
        (if content_tokens = 0 then error_at ''an indented quote body cannot be empty'' body_fallback else nothing)] s2;
     Some (b @ xs @ ys, s3)
   }"

definition parse_quote_expression :: "productions \<Rightarrow> syntax_node action" where
  "parse_quote_expression call =
     as_node SkQuoteExpression (steps [bump,
       expect_simple Colon ''expected `:` after `quote`'',
       expect_simple Newline ''a quote body must begin on the following line'',
       child (as_node SkQuoteBody
         (branch (at_simple Indent) (quote_content call) (error_here ''expected a four-space indented quote body'')))])"

section \<open>Formatted strings\<close>

text \<open>Every interpolation is parsed by a parser of its own, over the tokens the lexer kept for it.\<close>

fun interpolations :: "productions \<Rightarrow> formatted_segment list \<Rightarrow> step" where
  "interpolations call [] s = Some ([], s)"
| "interpolations call (segment # segments) s =
     (case segment_kind segment of
        TextSegment value \<Rightarrow> interpolations call segments s
      | ExpressionSegment source tokens \<Rightarrow>
          if tokens = [] then
            interpolations call segments
              (push_syntax_error ''formatted-string interpolation requires an expression'' (segment_span segment) s)
          else do {
            (expression, nested) \<leftarrow> call (NtExpression 0) (parser_new tokens (pa_revision s));
            (c, nested) \<leftarrow> (if pa_position nested < length tokens
              then error_here ''unexpected token in formatted-string interpolation'' else nothing) nested;
            (xs, s1) \<leftarrow> interpolations call segments (s\<lparr>pa_diagnostics := pa_diagnostics s @ pa_diagnostics nested\<rparr>);
            Some (NodeElement expression # xs, s1)
          })"

definition segments_here :: "parser \<Rightarrow> formatted_segment list" where
  "segments_here s = (case current_kind s of Some (FormattedString segments) \<Rightarrow> segments | _ \<Rightarrow> [])"

definition formatted_children :: "productions \<Rightarrow> step" where
  "formatted_children call s = do {
     (c, s1) \<leftarrow> bump s;
     (xs, s2) \<leftarrow> interpolations call (segments_here s) s1;
     Some (c @ xs, s2)
   }"

definition parse_formatted_string_expression :: "productions \<Rightarrow> syntax_node action" where
  "parse_formatted_string_expression call = as_node SkFormattedStringExpression (formatted_children call)"

section \<open>Primary expressions\<close>

definition parenthesized_rest :: "productions \<Rightarrow> step" where
  "parenthesized_rest call = steps [trailing RParen (expression_child call), expect_simple RParen ''expected `)`'']"

definition parenthesized_children :: "productions \<Rightarrow> (syntax_kind \<times> syntax_element list) action" where
  "parenthesized_children call =
     prefixed bump
       (branch (at_simple RParen) (kinded SkTupleExpression bump)
          (prefixed (expression_child call)
             (branch (at_simple Comma) (kinded SkTupleExpression (parenthesized_rest call))
                (kinded SkParenthesizedExpression (parenthesized_rest call)))))"

definition parse_parenthesized_or_tuple :: "productions \<Rightarrow> syntax_node action" where
  "parse_parenthesized_or_tuple call = as_kinded_node (parenthesized_children call)"

definition parse_array_expression :: "productions \<Rightarrow> syntax_node action" where
  "parse_array_expression call =
     as_node SkArrayExpression (steps [bump, separated RBracket (expression_child call), expect_simple RBracket ''expected `]`''])"

definition at_prefix_operator :: "parser \<Rightarrow> bool" where
  "at_prefix_operator s \<longleftrightarrow> list_ex (\<lambda>k. at_simple k s) [Bang, Tilde, Plus, Minus, Star, Amp]"

definition at_formatted_string :: "parser \<Rightarrow> bool" where
  "at_formatted_string s \<longleftrightarrow> (case current_kind s of Some (FormattedString segments) \<Rightarrow> True | _ \<Rightarrow> False)"

definition parse_prefix_expression :: "productions \<Rightarrow> syntax_node action" where
  "parse_prefix_expression call =
     branch at_prefix_operator
       (as_node SkUnaryExpression
         (steps [branch (at_simple Amp) (steps [bump, eat_keyword KwVar]) bump, child (call (NtExpression 13))]))
     (branch at_literal (as_node SkLiteralExpression bump)
     (branch at_formatted_string (parse_formatted_string_expression call)
     (branch (at_keyword KwFn) (parse_closure_expression call)
     (branch (at_keyword KwQuote) (parse_quote_expression call)
     (branch (at_simple LParen) (parse_parenthesized_or_tuple call)
     (branch (at_simple LBracket) (parse_array_expression call)
     (branch (at_simple At) (parse_macro_expression call)
     (branch (at_simple Dollar)
        (as_node SkError (steps [error_here ''`$` interpolation is valid only inside a `quote:` body'', bump]))
     (branch at_path_component (as_node SkNameExpression bump)
        (as_node SkError (steps [error_here ''expected an expression'',
          when_at (\<lambda>s. \<not> at_expression_boundary s) bump])))))))))))"

section \<open>Postfix forms\<close>

definition at_integer_literal :: "parser \<Rightarrow> bool" where
  "at_integer_literal s \<longleftrightarrow> (case current_kind s of Some (IntegerLiteral raw radix sfx) \<Rightarrow> True | _ \<Rightarrow> False)"

definition member_children :: "(syntax_kind \<times> syntax_element list) action" where
  "member_children =
     prefixed bump
       (branch at_integer_literal (kinded SkTupleFieldExpression bump)
          (kinded SkMemberExpression (expect_identifier ''expected member name or tuple index after `.`'')))"

definition bracket_arguments :: "productions \<Rightarrow> step" where
  "bracket_arguments call =
     steps [bump,
       when_at (\<lambda>s. \<not> at_simple RBracket s)
         (steps [expression_child call, while_at (at_simple Comma) (steps [bump, expression_child call])]),
       expect_simple RBracket ''expected `]`'']"

definition parse_record_field :: "productions \<Rightarrow> syntax_node action" where
  "parse_record_field call =
     as_node SkRecordField (steps [expect_identifier ''expected record field name'',
       when_at (at_simple Colon) (steps [bump, expression_child call])])"

definition record_fields :: "productions \<Rightarrow> step" where
  "record_fields call =
     steps [bump, separated RBrace (child (parse_record_field call)), expect_simple RBrace ''expected `}`'']"

definition call_arguments :: "productions \<Rightarrow> step" where
  "call_arguments call =
     steps [bump, separated RParen (expression_child call), expect_simple RParen ''expected `)`'']"

definition takes_record :: "syntax_node \<Rightarrow> bool" where
  "takes_record left \<longleftrightarrow>
     node_kind left = SkNameExpression \<or> node_kind left = SkMemberExpression \<or> node_kind left = SkBracketExpression"

definition at_postfix :: "syntax_node \<Rightarrow> parser \<Rightarrow> bool" where
  "at_postfix left s \<longleftrightarrow>
     list_ex (\<lambda>k. at_simple k s) [Dot, LParen, LBracket, Question] \<or> at_simple LBrace s \<and> takes_record left"

definition postfix_children :: "productions \<Rightarrow> (syntax_kind \<times> syntax_element list) action" where
  "postfix_children call =
     branch (at_simple Dot) member_children
     (branch (at_simple LParen) (kinded SkCallExpression (call_arguments call))
     (branch (at_simple LBracket) (kinded SkBracketExpression (bracket_arguments call))
     (branch (at_simple Question) (kinded SkTryExpression bump)
        (kinded SkRecordExpression (record_fields call)))))"

definition parse_postfix :: "productions \<Rightarrow> syntax_node \<Rightarrow> syntax_node option action" where
  "parse_postfix call left s =
     (if at_postfix left s then do {
        ((k, xs), s1) \<leftarrow> postfix_children call s;
        Some (Some (syntax_node_new k (NodeElement left # xs) (node_span left)), s1)
      }
      else Some (None, s))"

section \<open>Operators\<close>

definition binding_powers :: "(token_kind \<times> nat \<times> nat \<times> bool) list" where
  "binding_powers =
     [(OrOr, 1, 2, False), (AndAnd, 2, 3, False), (EqEq, 3, 4, True), (NotEq, 3, 4, True),
      (Less, 4, 5, True), (LessEq, 4, 5, True), (Greater, 4, 5, True), (GreaterEq, 4, 5, True),
      (Pipe, 5, 6, False), (Caret, 6, 7, False), (Amp, 7, 8, False), (Shl, 8, 9, False), (Shr, 8, 9, False),
      (Plus, 9, 10, False), (PlusPlus, 9, 10, False), (Minus, 9, 10, False),
      (Star, 10, 11, False), (Slash, 10, 11, False), (Percent, 10, 11, False)]"

definition binary_binding_power :: "parser \<Rightarrow> (nat \<times> nat \<times> bool) option" where
  "binary_binding_power s = (case current_kind s of None \<Rightarrow> None | Some k \<Rightarrow> map_of binding_powers k)"

text \<open>One more operator after the expression read so far\<close>

definition cast_step :: "productions \<Rightarrow> span \<Rightarrow> syntax_node \<Rightarrow> syntax_node action" where
  "cast_step call fallback left s = do {
     (xs, s1) \<leftarrow> steps [bump, type_child call] s;
     Some (syntax_node_new SkCastExpression (NodeElement left # xs) fallback, s1)
   }"

definition binary_step :: "productions \<Rightarrow> span \<Rightarrow> syntax_node \<Rightarrow> nat \<Rightarrow> bool \<Rightarrow> syntax_node action" where
  "binary_step call fallback left right_bp is_comparison s = do {
     (operator, s1) \<leftarrow> bump s;
     (right, s2) \<leftarrow> call (NtExpression right_bp) s1;
     (e, s3) \<leftarrow> (if is_comparison \<and> (is_comparison_expression left \<or> is_comparison_expression right)
       then error_at ''chained comparisons are invalid'' (element_span (hd operator)) else nothing) s2;
     Some (syntax_node_new SkBinaryExpression (NodeElement left # operator @ [NodeElement right]) fallback, s3)
   }"

primrec expression_from :: "nat \<Rightarrow> productions \<Rightarrow> nat \<Rightarrow> span \<Rightarrow> syntax_node \<Rightarrow> syntax_node action" where
  "expression_from 0 call minimum fallback left s = None"
| "expression_from (Suc n) call minimum fallback left s = do {
     (postfix, s1) \<leftarrow> parse_postfix call left s;
     case postfix of
       Some left' \<Rightarrow> expression_from n call minimum fallback left' s1
     | None \<Rightarrow>
         if at_keyword KwAs s1 then
           if 12 < minimum then Some (left, s1)
           else do {
             (left', s2) \<leftarrow> cast_step call fallback left s1;
             expression_from n call minimum fallback left' s2
           }
         else (case binary_binding_power s1 of
             None \<Rightarrow> Some (left, s1)
           | Some (left_bp, right_bp, is_comparison) \<Rightarrow>
               if left_bp < minimum then Some (left, s1)
               else do {
                 (left', s2) \<leftarrow> binary_step call fallback left right_bp is_comparison s1;
                 expression_from n call minimum fallback left' s2
               })
   }"

definition parse_expression_bp :: "productions \<Rightarrow> nat \<Rightarrow> syntax_node action" where
  "parse_expression_bp call minimum s = do {
     fallback \<leftarrow> current_span s;
     (left, s1) \<leftarrow> parse_prefix_expression call s;
     expression_from (loop_bound s1) call minimum fallback left s1
   }"

end
