(* ===== verification/Parser_Items.thy ===== *)
theory Parser_Items
  imports Parser_Expressions
begin

text \<open>Statements, declarations and the entry points of the parser (\<^verbatim>\<open>src/parser.rs\<close>).\<close>

section \<open>Statements\<close>

definition line_end_after :: "syntax_node \<Rightarrow> step" where
  "line_end_after e = (if is_multiline_expression e then nothing else expect_line_end)"

definition expression_to_line_end :: "productions \<Rightarrow> step" where
  "expression_to_line_end call s = do {
     (e, s1) \<leftarrow> call (NtExpression 0) s;
     (xs, s2) \<leftarrow> line_end_after e s1;
     Some (NodeElement e # xs, s2)
   }"

definition parse_let :: "productions \<Rightarrow> syntax_node action" where
  "parse_let call =
     as_node SkLetStatement (steps [bump,
       branch (at_simple LParen) (child (call NtBindingTuple)) (expect_identifier ''expected binding name or tuple pattern''),
       when_at (at_simple Colon) (steps [bump, type_child call]),
       expect_simple Assign ''expected `=`'',
       expression_to_line_end call])"

definition parse_return :: "productions \<Rightarrow> syntax_node action" where
  "parse_return call =
     as_node SkReturnStatement (steps [bump, branch at_line_end expect_line_end (expression_to_line_end call)])"

definition parse_simple_statement :: "syntax_kind \<Rightarrow> syntax_node action" where
  "parse_simple_statement k = as_node k (steps [bump, expect_line_end])"

definition deferred_end :: "syntax_node \<Rightarrow> step" where
  "deferred_end e =
     steps
       [(if node_kind e \<noteq> SkCallExpression
         then error_at ''`defer` requires a single function or method call, or a `defer:` block'' (node_span e) else nothing),
        expect_line_end]"

definition deferred_call :: "productions \<Rightarrow> step" where
  "deferred_call call s = do {
     (e, s1) \<leftarrow> call (NtExpression 0) s;
     (xs, s2) \<leftarrow> deferred_end e s1;
     Some (NodeElement e # xs, s2)
   }"

definition parse_defer :: "productions \<Rightarrow> syntax_node action" where
  "parse_defer call =
     as_node SkDeferStatement (steps [bump, branch (at_simple Colon) (parse_statement_block call) (deferred_call call)])"

definition parse_expect :: "productions \<Rightarrow> syntax_node action" where
  "parse_expect call =
     as_node SkExpectStatement (steps [bump, expect_simple LParen ''expected `(` after `expect`'', expression_child call,
       expect_simple RParen ''expected `)` after expected trap'', parse_statement_block call])"

definition parse_if :: "productions \<Rightarrow> syntax_node action" where
  "parse_if call =
     as_node SkIfStatement (steps [bump, expression_child call, parse_statement_block call,
       when_at (at_keyword KwElse) (child (as_node SkElseClause (steps [bump, parse_statement_block call])))])"

definition parse_match_arm :: "productions \<Rightarrow> syntax_node action" where
  "parse_match_arm call =
     as_node SkMatchArm (steps [pattern_child call,
       when_at (at_keyword KwIf) (child (as_node SkGuard (steps [bump, expression_child call]))),
       parse_statement_block call])"

definition parse_match :: "productions \<Rightarrow> syntax_node action" where
  "parse_match call =
     as_node SkMatchStatement (steps [bump, expression_child call,
       block ''a match body requires at least one arm'' ''expected end of match body'' (child (parse_match_arm call))])"

definition parse_for :: "productions \<Rightarrow> syntax_node action" where
  "parse_for call =
     as_node SkForStatement (steps [bump, expect_identifier ''expected loop binding'', expect_keyword KwIn ''expected `in`'',
       expression_child call, parse_statement_block call])"

definition parse_while :: "productions \<Rightarrow> syntax_node action" where
  "parse_while call = as_node SkWhileStatement (steps [bump, expression_child call, parse_statement_block call])"

definition parse_unsafe_block :: "productions \<Rightarrow> syntax_node action" where
  "parse_unsafe_block call = as_node SkUnsafeBlock (steps [bump, parse_statement_block call])"

definition assignment_or_expression :: "productions \<Rightarrow> (syntax_kind \<times> syntax_element list) action" where
  "assignment_or_expression call s = do {
     (e, s1) \<leftarrow> call (NtExpression 0) s;
     ((k, xs), s2) \<leftarrow> branch at_assignment_operator
       (kinded SkAssignmentStatement (steps [bump, expression_to_line_end call]))
       (kinded SkExpressionStatement (line_end_after e)) s1;
     Some ((k, NodeElement e # xs), s2)
   }"

definition parse_expression_or_assignment_statement :: "productions \<Rightarrow> syntax_node action" where
  "parse_expression_or_assignment_statement call = as_kinded_node (assignment_or_expression call)"

definition parse_statement :: "productions \<Rightarrow> syntax_node action" where
  "parse_statement call =
     branch (\<lambda>s. at_keyword KwLet s \<or> at_keyword KwVar s) (parse_let call)
     (branch (at_keyword KwReturn) (parse_return call)
     (branch (at_keyword KwBreak) (parse_simple_statement SkBreakStatement)
     (branch (at_keyword KwContinue) (parse_simple_statement SkContinueStatement)
     (branch (at_keyword KwPass) (parse_simple_statement SkPassStatement)
     (branch (at_keyword KwDefer) (parse_defer call)
     (branch (at_keyword KwExpect) (parse_expect call)
     (branch (at_keyword KwIf) (parse_if call)
     (branch (at_keyword KwMatch) (parse_match call)
     (branch (at_keyword KwFor) (parse_for call)
     (branch (at_keyword KwWhile) (parse_while call)
     (branch (\<lambda>s. at_keyword KwUnsafe s \<and> token_ahead s 1 = Some Colon) (parse_unsafe_block call)
        (parse_expression_or_assignment_statement call))))))))))))"

section \<open>What a declaration begins with\<close>

datatype item_head =
  HeadModule | HeadUse | HeadMacro | HeadAttribute | HeadDerive | HeadMacroInvocation | HeadTypeAlias | HeadStruct | HeadEnum
| HeadTrait | HeadImpl | HeadFunction | HeadTest | HeadUnknown

definition kinds_ahead :: "parser \<Rightarrow> token_kind list" where
  "kinds_ahead s = map token_kind (drop (pa_position s) (pa_tokens s))"

definition is_doc_or_newline :: "token_kind \<Rightarrow> bool" where
  "is_doc_or_newline k = (case k of DocComment d \<Rightarrow> True | Newline \<Rightarrow> True | _ \<Rightarrow> False)"

definition first_is :: "token_kind \<Rightarrow> token_kind list \<Rightarrow> bool" where
  "first_is k ks \<longleftrightarrow> vget ks 0 = Some k"

text \<open>The rest of the line, and its end\<close>

definition next_line :: "token_kind list \<Rightarrow> token_kind list" where
  "next_line ks =
     (let rest = dropWhile (\<lambda>k. k \<noteq> Newline \<and> k \<noteq> Eof) ks in if first_is Newline rest then tl rest else rest)"

lemma length_next_line: "first_is At ks \<Longrightarrow> length (next_line ks) < length ks"
proof -
  assume "first_is At ks"
  then obtain ks' where ks: "ks = At # ks'" by (cases ks) (auto simp: first_is_def vget_def)
  have "length (dropWhile (\<lambda>k. k \<noteq> Newline \<and> k \<noteq> Eof) ks') \<le> length ks'" by (rule length_dropWhile_le)
  then show ?thesis by (auto simp: next_line_def ks Let_def)
qed

function skip_attributes :: "token_kind list \<Rightarrow> token_kind list" where
  "skip_attributes ks = (if first_is At ks then skip_attributes (next_line ks) else ks)"
  by pat_completeness auto
termination by (relation "measure length") (auto simp: length_next_line)

declare skip_attributes.simps [simp del]

function attribute_named :: "string \<Rightarrow> token_kind list \<Rightarrow> bool" where
  "attribute_named expected ks =
     (if first_is At ks then vget ks 1 = Some (Identifier expected) \<or> attribute_named expected (next_line ks) else False)"
  by pat_completeness auto
termination by (relation "measure (length \<circ> snd)") (auto simp: length_next_line)

declare attribute_named.simps [simp del]

definition leading_attribute_named :: "string \<Rightarrow> parser \<Rightarrow> bool" where
  "leading_attribute_named expected s = attribute_named expected (dropWhile is_doc_or_newline (kinds_ahead s))"

text \<open>An attribute of the declaration after it, rather than a macro invocation\<close>

definition is_attached :: "token_kind list \<Rightarrow> bool" where
  "is_attached ks \<longleftrightarrow>
     vget ks 1 = Some (Keyword KwAttr) \<or> vget ks 1 = Some (Keyword KwDerive)
     \<or> vget ks 1 = Some (Identifier ''importc'') \<or> vget ks 1 = Some (Identifier ''exportc'')
     \<or> vget ks 1 = Some (Identifier ''intrinsic'')"

definition is_modifier :: "token_kind \<Rightarrow> bool" where
  "is_modifier k \<longleftrightarrow> k = Keyword KwPub \<or> k = Keyword KwUnsafe"

definition head_of :: "token_kind option \<Rightarrow> item_head" where
  "head_of k =
     (case k of
        Some (Keyword w) \<Rightarrow>
          (case w of
             KwMod \<Rightarrow> HeadModule
           | KwUse \<Rightarrow> HeadUse
           | KwMacro \<Rightarrow> HeadMacro
           | KwAttr \<Rightarrow> HeadAttribute
           | KwDerive \<Rightarrow> HeadDerive
           | KwType \<Rightarrow> HeadTypeAlias
           | KwStruct \<Rightarrow> HeadStruct
           | KwEnum \<Rightarrow> HeadEnum
           | KwTrait \<Rightarrow> HeadTrait
           | KwImpl \<Rightarrow> HeadImpl
           | KwFn \<Rightarrow> HeadFunction
           | KwTest \<Rightarrow> HeadTest
           | _ \<Rightarrow> HeadUnknown)
      | _ \<Rightarrow> HeadUnknown)"

definition classify_item :: "parser \<Rightarrow> item_head" where
  "classify_item s =
     (let ks = dropWhile is_doc_or_newline (kinds_ahead s) in
      if first_is At ks \<and> \<not> is_attached ks then HeadMacroInvocation
      else head_of (vget (dropWhile is_modifier (skip_attributes ks)) 0))"

definition looks_like_function :: "parser \<Rightarrow> bool" where
  "looks_like_function s \<longleftrightarrow> classify_item s = HeadFunction"

section \<open>Declarations\<close>

datatype member_context =
  ContextModule | ContextStruct | ContextEnum | ContextTrait | ContextTraitImpl | ContextInherentImpl | ContextForeignStruct

datatype function_body = BodyRequired | BodyOptional | BodyForbidden

datatype compile_time_declaration = DeclareMacro | DeclareAttribute | DeclareDerive

definition declaration_keyword :: "compile_time_declaration \<Rightarrow> keyword" where
  "declaration_keyword d = (case d of DeclareMacro \<Rightarrow> KwMacro | DeclareAttribute \<Rightarrow> KwAttr | DeclareDerive \<Rightarrow> KwDerive)"

definition declaration_syntax_kind :: "compile_time_declaration \<Rightarrow> syntax_kind" where
  "declaration_syntax_kind d =
     (case d of
        DeclareMacro \<Rightarrow> SkMacroDeclaration
      | DeclareAttribute \<Rightarrow> SkAttributeDeclaration
      | DeclareDerive \<Rightarrow> SkDeriveDeclaration)"

definition expected_keyword_message :: "compile_time_declaration \<Rightarrow> string" where
  "expected_keyword_message d =
     (case d of
        DeclareMacro \<Rightarrow> ''expected `macro`''
      | DeclareAttribute \<Rightarrow> ''expected `attr`''
      | DeclareDerive \<Rightarrow> ''expected `derive`'')"

definition expected_name_message :: "compile_time_declaration \<Rightarrow> string" where
  "expected_name_message d =
     (case d of
        DeclareMacro \<Rightarrow> ''expected macro name''
      | DeclareAttribute \<Rightarrow> ''expected attribute name''
      | DeclareDerive \<Rightarrow> ''expected derive trait path'')"

definition generic_parameter :: "productions \<Rightarrow> step" where
  "generic_parameter call =
     child (as_node SkGenericParameter (steps [expect_identifier ''expected generic parameter name'',
       when_at (at_simple Colon)
         (steps [bump, type_child call, while_at (at_simple Plus) (steps [bump, type_child call])])]))"

definition parse_generic_parameters :: "productions \<Rightarrow> syntax_node action" where
  "parse_generic_parameters call =
     as_node SkGenericParameters (steps [expect_simple LBracket ''expected `[`'', separated RBracket (generic_parameter call),
       expect_simple RBracket ''expected `]`''])"

definition generics :: "productions \<Rightarrow> step" where
  "generics call = when_at (at_simple LBracket) (child (parse_generic_parameters call))"

definition parse_derive_list :: "syntax_node action" where
  "parse_derive_list =
     as_node SkDeriveList (steps [expect_simple LParen ''expected `(`'',
       when_at (at_simple RParen) (error_here ''derive list cannot be empty''),
       separated RParen parse_path_tokens,
       expect_simple RParen ''expected `)`''])"

definition derives :: step where
  "derives = when_at (at_simple LParen) (child parse_derive_list)"

definition parse_function :: "productions \<Rightarrow> function_body \<Rightarrow> syntax_node action" where
  "parse_function call body =
     as_node SkFunction (steps [take_item_prefix,
       while_at (\<lambda>s. at_keyword KwPub s \<or> at_keyword KwUnsafe s) bump,
       expect_keyword KwFn ''expected `fn`'',
       expect_identifier ''expected function name'',
       generics call,
       child (parse_parameters call),
       when_at (at_simple Arrow) (steps [bump, child (parse_return_type call)]),
       branch (at_simple Colon)
         (case body of
            BodyForbidden \<Rightarrow> steps [error_here ''a foreign function declaration cannot have a body'', parse_statement_block call]
          | _ \<Rightarrow> parse_statement_block call)
         (case body of
            BodyRequired \<Rightarrow> steps [error_here ''a function definition requires an indented body'', expect_line_end]
          | _ \<Rightarrow> expect_line_end)])"

definition parse_field :: "productions \<Rightarrow> syntax_node action" where
  "parse_field call =
     as_node SkField (steps [take_item_prefix, eat_keyword KwPub, expect_identifier ''expected field name'',
       expect_simple Colon ''expected `:`'', type_child call, eat_simple Comma, expect_line_end])"

definition parse_inline_field :: "productions \<Rightarrow> syntax_node action" where
  "parse_inline_field call =
     as_node SkField (steps [expect_identifier ''expected field name'', expect_simple Colon ''expected `:`'', type_child call])"

definition parse_enum_variant :: "productions \<Rightarrow> syntax_node action" where
  "parse_enum_variant call =
     as_node SkEnumVariant (steps [take_item_prefix, expect_identifier ''expected variant name'',
       branch (at_simple LParen) (type_list call)
         (when_at (at_simple LBrace)
           (steps [bump, separated RBrace (child (parse_inline_field call)), expect_simple RBrace ''expected `}`''])),
       eat_simple Comma, expect_line_end])"

definition context_member :: "productions \<Rightarrow> member_context \<Rightarrow> syntax_node action" where
  "context_member call context =
     (case context of
        ContextModule \<Rightarrow> call NtItem
      | ContextEnum \<Rightarrow> parse_enum_variant call
      | ContextTrait \<Rightarrow> parse_function call BodyOptional
      | _ \<Rightarrow> branch looks_like_function (parse_function call BodyRequired) (parse_field call))"

text \<open>What is reported of a member that does not belong in its block, before it is read\<close>

definition misplaced_member :: "member_context \<Rightarrow> step" where
  "misplaced_member context =
     (case context of
        ContextStruct \<Rightarrow>
          when_at looks_like_function (error_here ''methods must be declared in a module-level `impl Type` block'')
      | ContextForeignStruct \<Rightarrow> when_at looks_like_function (error_here ''a foreign struct can contain only fields'')
      | ContextTraitImpl \<Rightarrow>
          when_at (\<lambda>s. \<not> looks_like_function s) (error_here ''an implementation block can contain only methods'')
      | ContextInherentImpl \<Rightarrow>
          when_at (\<lambda>s. \<not> looks_like_function s) (error_here ''an implementation block can contain only methods'')
      | _ \<Rightarrow> nothing)"

definition block_member :: "productions \<Rightarrow> member_context \<Rightarrow> step" where
  "block_member call context =
     branch (at_keyword KwPass) (child (parse_simple_statement SkPassStatement))
       (steps [misplaced_member context, child (context_member call context)])"

definition parse_item_block :: "productions \<Rightarrow> member_context \<Rightarrow> step" where
  "parse_item_block call context =
     block ''an indented body cannot be empty; use `pass` where permitted'' ''expected end of indented body''
       (progressing (block_member call context))"

definition parse_module :: "productions \<Rightarrow> syntax_node action" where
  "parse_module call =
     as_node SkModule (steps [take_item_prefix, eat_keyword KwPub, expect_keyword KwMod ''expected `mod`'',
       expect_identifier ''expected module name'', parse_item_block call ContextModule])"

definition parse_use :: "syntax_node action" where
  "parse_use =
     as_node SkUse (steps [take_item_prefix, eat_keyword KwPub, expect_keyword KwUse ''expected `use`'',
       when_at (\<lambda>s. at_keyword KwMacro s \<or> at_keyword KwAttr s \<or> at_keyword KwDerive s) bump,
       parse_path_tokens,
       when_at (at_keyword KwAs) (steps [bump, expect_identifier ''expected alias name'']),
       expect_line_end])"

definition parse_compile_time_declaration :: "productions \<Rightarrow> compile_time_declaration \<Rightarrow> syntax_node action" where
  "parse_compile_time_declaration call declaration =
     as_node (declaration_syntax_kind declaration) (steps [take_docs, eat_keyword KwPub,
       expect_keyword (declaration_keyword declaration) (expected_keyword_message declaration),
       (if declaration = DeclareDerive then parse_path_tokens else expect_identifier (expected_name_message declaration)),
       child (parse_parameters call),
       expect_simple Arrow ''a compile-time declaration requires an explicit return type'',
       child (parse_return_type call),
       parse_statement_block call])"

definition type_alias_children :: "productions \<Rightarrow> bool \<Rightarrow> step" where
  "type_alias_children call imported =
     steps [take_item_prefix, eat_keyword KwPub, expect_keyword KwType ''expected `type`'',
       expect_identifier ''expected type alias name'', generics call,
       branch (at_simple Assign) (steps [bump, type_child call])
         (if imported then nothing else error_here ''a bodyless type declaration requires `@importc`''),
       expect_line_end]"

definition parse_type_alias :: "productions \<Rightarrow> syntax_node action" where
  "parse_type_alias call =
     branch (leading_attribute_named ''importc'') (as_node SkForeignType (type_alias_children call True))
       (as_node SkTypeAlias (type_alias_children call False))"

definition parse_struct :: "productions \<Rightarrow> bool \<Rightarrow> syntax_node action" where
  "parse_struct call foreign =
     as_node SkStruct (steps [take_item_prefix, eat_keyword KwPub, expect_keyword KwStruct ''expected `struct`'',
       expect_identifier ''expected struct name'', generics call, derives,
       parse_item_block call (if foreign then ContextForeignStruct else ContextStruct)])"

definition parse_enum :: "productions \<Rightarrow> syntax_node action" where
  "parse_enum call =
     as_node SkEnum (steps [take_item_prefix, eat_keyword KwPub, expect_keyword KwEnum ''expected `enum`'',
       expect_identifier ''expected enum name'', generics call, derives, parse_item_block call ContextEnum])"

definition parse_trait :: "productions \<Rightarrow> syntax_node action" where
  "parse_trait call =
     as_node SkTrait (steps [take_item_prefix, eat_keyword KwPub, expect_keyword KwTrait ''expected `trait`'',
       expect_identifier ''expected trait name'', generics call, parse_item_block call ContextTrait])"

definition parse_impl :: "productions \<Rightarrow> syntax_node action" where
  "parse_impl call =
     as_node SkImpl (steps [take_item_prefix, eat_keyword KwUnsafe, expect_keyword KwImpl ''expected `impl`'', generics call,
       type_child call,
       branch (at_keyword KwFor) (steps [bump, type_child call, parse_item_block call ContextTraitImpl])
         (parse_item_block call ContextInherentImpl)])"

definition parse_test :: "productions \<Rightarrow> syntax_node action" where
  "parse_test call =
     as_node SkTest (steps [take_docs, expect_keyword KwTest ''expected `test`'', expect_identifier ''expected test name'',
       parse_statement_block call])"

definition macro_invocation :: "productions \<Rightarrow> syntax_node action" where
  "macro_invocation call s = do {
     (invocation, s1) \<leftarrow> parse_macro_expression call s;
     (xs, s2) \<leftarrow> expect_line_end s1;
     Some (syntax_node_new SkMacroExpression (node_children invocation @ xs) (node_span invocation), s2)
   }"

definition parse_item :: "productions \<Rightarrow> syntax_node action" where
  "parse_item call s =
     (case classify_item s of
        HeadModule \<Rightarrow> parse_module call s
      | HeadUse \<Rightarrow> parse_use s
      | HeadMacro \<Rightarrow> parse_compile_time_declaration call DeclareMacro s
      | HeadAttribute \<Rightarrow> parse_compile_time_declaration call DeclareAttribute s
      | HeadDerive \<Rightarrow> parse_compile_time_declaration call DeclareDerive s
      | HeadMacroInvocation \<Rightarrow> macro_invocation call s
      | HeadTypeAlias \<Rightarrow> parse_type_alias call s
      | HeadStruct \<Rightarrow> parse_struct call False s
      | HeadEnum \<Rightarrow> parse_enum call s
      | HeadTrait \<Rightarrow> parse_trait call s
      | HeadImpl \<Rightarrow> parse_impl call s
      | HeadFunction \<Rightarrow>
          parse_function call
            (if leading_attribute_named ''importc'' s \<or> leading_attribute_named ''intrinsic'' s then BodyForbidden else BodyRequired) s
      | HeadTest \<Rightarrow> parse_test call s
      | HeadUnknown \<Rightarrow> as_node SkError (steps [take_docs, error_here ''expected a declaration'', recover_line]) s)"

section \<open>The recursion\<close>

definition production :: "productions \<Rightarrow> productions" where
  "production call symbol s =
     (case symbol of
        NtType \<Rightarrow> parse_type call s
      | NtExpression minimum \<Rightarrow> parse_expression_bp call minimum s
      | NtPattern \<Rightarrow> parse_pattern call s
      | NtPatternAtom \<Rightarrow> parse_pattern_atom call s
      | NtBindingTuple \<Rightarrow> parse_binding_tuple_pattern call s
      | NtStatement \<Rightarrow> parse_statement call s
      | NtItem \<Rightarrow> parse_item call s)"

text \<open>The productions up to a depth of recursion\<close>

primrec productions_at :: "nat \<Rightarrow> productions" where
  "productions_at 0 symbol s = None"
| "productions_at (Suc n) symbol s = production (productions_at n) symbol s"

section \<open>Entry points\<close>

record parse_output =
  po_tree :: syntax_node
  po_diagnostics :: "diagnostic list"

definition forced :: "string \<Rightarrow> step \<Rightarrow> step" where
  "forced msg a s = do {
     (xs, s1) \<leftarrow> a s;
     (ys, s2) \<leftarrow> (if pa_position s1 = pa_position s then steps [error_here msg, bump] else nothing) s1;
     Some (xs @ ys, s2)
   }"

definition file_item :: "productions \<Rightarrow> step" where
  "file_item call =
     branch (at_simple Dedent) (steps [error_here ''unexpected dedent at file scope'', bump])
       (steps [forced ''parser could not make progress'' (child (call NtItem)), eat_newlines])"

definition parse_file :: "productions \<Rightarrow> syntax_node action" where
  "parse_file call =
     as_node SkFile (steps [eat_newlines, while_at (\<lambda>s. \<not> at_eof s) (file_item call), when_at at_eof bump])"

definition output_of :: "(syntax_node \<times> parser) option \<Rightarrow> parse_output option" where
  "output_of r = map_option (\<lambda>(tree, s). \<lparr>po_tree = tree, po_diagnostics = pa_diagnostics s\<rparr>) r"

definition parse_for_revision :: "nat \<Rightarrow> token list \<Rightarrow> semantic_revision \<Rightarrow> parse_output option" where
  "parse_for_revision fuel tokens revision = output_of (parse_file (productions_at fuel) (parser_new tokens revision))"

definition parse :: "nat \<Rightarrow> token list \<Rightarrow> parse_output option" where
  "parse fuel tokens = parse_for_revision fuel tokens V0_11"

text \<open>Fragments\<close>

datatype fragment_kind = FragmentExpression | FragmentStatement | FragmentPattern | FragmentType | FragmentItem

definition fragment_description :: "fragment_kind \<Rightarrow> string" where
  "fragment_description k =
     (case k of
        FragmentExpression \<Rightarrow> ''expression''
      | FragmentStatement \<Rightarrow> ''statement''
      | FragmentPattern \<Rightarrow> ''pattern''
      | FragmentType \<Rightarrow> ''type''
      | FragmentItem \<Rightarrow> ''item'')"

definition fragment_symbol :: "fragment_kind \<Rightarrow> grammar_symbol" where
  "fragment_symbol k =
     (case k of
        FragmentExpression \<Rightarrow> NtExpression 0
      | FragmentStatement \<Rightarrow> NtStatement
      | FragmentPattern \<Rightarrow> NtPattern
      | FragmentType \<Rightarrow> NtType
      | FragmentItem \<Rightarrow> NtItem)"

definition reject_rest :: "string \<Rightarrow> step" where
  "reject_rest msg = when_at (\<lambda>s. \<not> at_eof s) (steps [error_here msg, while_at (\<lambda>s. \<not> at_eof s) bump])"

definition parse_complete_fragment :: "productions \<Rightarrow> fragment_kind \<Rightarrow> syntax_node action" where
  "parse_complete_fragment call k s = do {
     (tree, s1) \<leftarrow> call (fragment_symbol k) s;
     (rest, s2) \<leftarrow> reject_rest (''unexpected trailing tokens after complete '' @ fragment_description k @ '' fragment'') s1;
     Some (tree, s2)
   }"

definition parse_fragment_for_revision :: "nat \<Rightarrow> token list \<Rightarrow> fragment_kind \<Rightarrow> semantic_revision \<Rightarrow> parse_output option" where
  "parse_fragment_for_revision fuel tokens k revision =
     output_of (parse_complete_fragment (productions_at fuel) k (parser_new tokens revision))"

definition parse_fragment :: "nat \<Rightarrow> token list \<Rightarrow> fragment_kind \<Rightarrow> parse_output option" where
  "parse_fragment fuel tokens k = parse_fragment_for_revision fuel tokens k V0_11"

text \<open>Bodies of quotes\<close>

datatype quote_fragment_kind =
  QuoteExpression | QuotePattern | QuoteType | QuoteStatementList | QuoteMemberList | QuoteMember | QuoteItem | QuoteItemList

datatype quote_list_element = QuoteElementStatement | QuoteElementMember | QuoteElementItem

definition quote_member :: "productions \<Rightarrow> syntax_node action" where
  "quote_member call = branch looks_like_function (parse_function call BodyRequired) (parse_field call)"

definition quote_element :: "productions \<Rightarrow> quote_list_element \<Rightarrow> syntax_node action" where
  "quote_element call element =
     (case element of
        QuoteElementStatement \<Rightarrow> call NtStatement
      | QuoteElementItem \<Rightarrow> call NtItem
      | QuoteElementMember \<Rightarrow> quote_member call)"

definition parse_quote_list :: "productions \<Rightarrow> syntax_kind \<Rightarrow> quote_list_element \<Rightarrow> syntax_node action" where
  "parse_quote_list call k element =
     as_node k (steps [eat_newlines,
       while_at (\<lambda>s. \<not> at_eof s)
         (steps [forced ''quote parser could not make progress'' (child (quote_element call element)), eat_newlines])])"

definition eat_leading_quote_newlines :: "parser \<Rightarrow> parser option" where
  "eat_leading_quote_newlines s = map_option snd (eat_newlines s)"

definition between_newlines :: "syntax_node action \<Rightarrow> syntax_node action" where
  "between_newlines a s = do {
     s1 \<leftarrow> eat_leading_quote_newlines s;
     (tree, s2) \<leftarrow> a s1;
     s3 \<leftarrow> eat_leading_quote_newlines s2;
     Some (tree, s3)
   }"

definition quote_production :: "productions \<Rightarrow> quote_fragment_kind \<Rightarrow> syntax_node action" where
  "quote_production call k =
     (case k of
        QuoteExpression \<Rightarrow> call (NtExpression 0)
      | QuotePattern \<Rightarrow> call NtPattern
      | QuoteType \<Rightarrow> call NtType
      | QuoteStatementList \<Rightarrow> parse_quote_list call SkBlock QuoteElementStatement
      | QuoteMemberList \<Rightarrow> parse_quote_list call SkBlock QuoteElementMember
      | QuoteMember \<Rightarrow> between_newlines (quote_member call)
      | QuoteItem \<Rightarrow> between_newlines (call NtItem)
      | QuoteItemList \<Rightarrow> parse_quote_list call SkFile QuoteElementItem)"

definition parse_complete_quote_fragment :: "productions \<Rightarrow> quote_fragment_kind \<Rightarrow> syntax_node action" where
  "parse_complete_quote_fragment call k s = do {
     fallback \<leftarrow> current_span s;
     (tree, s1) \<leftarrow> quote_production call k s;
     s2 \<leftarrow> eat_leading_quote_newlines s1;
     (rest, s3) \<leftarrow> reject_rest ''unexpected trailing syntax in typed quote body'' s2;
     Some (if node_children tree = [] then syntax_node_new (node_kind tree) (node_children tree) fallback else tree, s3)
   }"

definition parse_quote_fragment_for_revision ::
  "nat \<Rightarrow> token list \<Rightarrow> quote_fragment_kind \<Rightarrow> semantic_revision \<Rightarrow> parse_output option" where
  "parse_quote_fragment_for_revision fuel tokens k revision =
     output_of (parse_complete_quote_fragment (productions_at fuel) k (parser_new tokens revision))"

definition parse_quote_fragment :: "nat \<Rightarrow> token list \<Rightarrow> quote_fragment_kind \<Rightarrow> parse_output option" where
  "parse_quote_fragment fuel tokens k = parse_quote_fragment_for_revision fuel tokens k V0_11"

end
