(* ===== verification/Parser_Contract.thy ===== *)
theory Parser_Contract
  imports Parser_Items
begin

text \<open>
  The contract of the parser's steps: from a state in which the productions a step calls return, the
  step returns, and what it pushes holds exactly the tokens it moved over, in order. A rule per
  combinator derives the contract of a production from its definition.
\<close>

named_theorems contracts \<open>contracts of steps, as introduction rules\<close>
named_theorems insides \<open>what a test says of the current token\<close>

section \<open>Tokens of a tree\<close>

text \<open>
  The interpolations of a formatted string are parsed again from the tokens inside its one token, so
  they are not tokens of the stream.
\<close>

fun node_tokens :: "syntax_node \<Rightarrow> token list"
  and element_tokens :: "syntax_element \<Rightarrow> token list" where
  "node_tokens (SyntaxNode k sp cs) =
     (if k = SkFormattedStringExpression then direct_tokens (SyntaxNode k sp cs) else concat (map element_tokens cs))"
| "element_tokens (NodeElement n) = node_tokens n"
| "element_tokens (TokenElement t) = [t]"

definition tokens_of :: "syntax_element list \<Rightarrow> token list" where
  "tokens_of cs = concat (map element_tokens cs)"

lemma tokens_of_simps [simp]:
  "tokens_of [] = []" "tokens_of (c # cs) = element_tokens c @ tokens_of cs" "tokens_of (xs @ ys) = tokens_of xs @ tokens_of ys"
  by (simp_all add: tokens_of_def)

lemma tokens_of_node [simp]: "k \<noteq> SkFormattedStringExpression \<Longrightarrow> node_tokens (syntax_node_new k cs sp) = tokens_of cs"
  by (simp add: syntax_node_new_def tokens_of_def)

section \<open>States\<close>

definition rest :: "parser \<Rightarrow> token list" where
  "rest s = drop (pa_position s) (pa_tokens s)"

definition load :: "parser \<Rightarrow> nat" where
  "load s = size_list size (rest s)"

text \<open>At a token that is not the end of the file\<close>

definition inside :: "parser \<Rightarrow> bool" where
  "inside s \<longleftrightarrow> (\<exists>t. current s = Some t \<and> token_kind t \<noteq> Eof)"

text \<open>Between two states the parser pushes exactly the tokens it passes.\<close>

definition consumes :: "parser \<Rightarrow> syntax_element list \<Rightarrow> parser \<Rightarrow> bool" where
  "consumes s xs s' \<longleftrightarrow>
     pa_tokens s' = pa_tokens s \<and> pa_revision s' = pa_revision s
     \<and> pa_position s' = pa_position s + length (tokens_of xs)
     \<and> rest s = tokens_of xs @ rest s'
     \<and> (\<forall>t\<in>set (tokens_of xs). token_kind t \<noteq> Eof)"

lemma consumes_Nil: "consumes s [] (s\<lparr>pa_diagnostics := d\<rparr>)" "consumes s [] s"
  by (simp_all add: consumes_def rest_def)

lemma consumes_push [simp]: "consumes s xs (push_syntax_error msg sp s') = consumes s xs s'"
  by (simp add: consumes_def push_syntax_error_def rest_def)

lemma consumes_trans: "consumes s xs s1 \<Longrightarrow> consumes s1 ys s2 \<Longrightarrow> consumes s (xs @ ys) s2"
  by (auto simp: consumes_def)

lemma consumes_same: "consumes s xs s' \<Longrightarrow> tokens_of xs = tokens_of ys \<Longrightarrow> consumes s ys s'"
  by (simp add: consumes_def)

lemma size_list_append: "size_list f (xs @ ys) = size_list f xs + size_list f ys"
  by (induction xs) auto

lemma consumes_load: "consumes s xs s' \<Longrightarrow> load s' \<le> load s"
  by (simp add: consumes_def load_def size_list_append)

lemma consumes_load_less: "consumes s xs s' \<Longrightarrow> tokens_of xs \<noteq> [] \<Longrightarrow> load s' < load s"
  by (cases "tokens_of xs") (auto simp: consumes_def load_def size_list_append)

lemma consumes_stays: "consumes s xs s' \<Longrightarrow> tokens_of xs = [] \<Longrightarrow> s' = s\<lparr>pa_diagnostics := pa_diagnostics s'\<rparr>"
  by (simp add: consumes_def)

lemma consumes_moves: "consumes s xs s' \<Longrightarrow> pa_position s' = pa_position s \<longleftrightarrow> tokens_of xs = []"
  by (simp add: consumes_def)

text \<open>Tests that do not look at the diagnostics\<close>

definition stable :: "(parser \<Rightarrow> bool) \<Rightarrow> bool" where
  "stable P \<longleftrightarrow> (\<forall>s d. P (s\<lparr>pa_diagnostics := d\<rparr>) = P s)"

lemma current_diagnostics [simp]: "current (s\<lparr>pa_diagnostics := d\<rparr>) = current s"
  by (simp add: current_def)

lemma current_kind_diagnostics [simp]: "current_kind (s\<lparr>pa_diagnostics := d\<rparr>) = current_kind s"
  by (simp add: current_kind_def)

lemma tests_diagnostics [simp]:
  "at_simple k (s\<lparr>pa_diagnostics := d\<rparr>) = at_simple k s" "at_keyword w (s\<lparr>pa_diagnostics := d\<rparr>) = at_keyword w s"
  "at_eof (s\<lparr>pa_diagnostics := d\<rparr>) = at_eof s" "inside (s\<lparr>pa_diagnostics := d\<rparr>) = inside s"
  "rest (s\<lparr>pa_diagnostics := d\<rparr>) = rest s" "owned_surface (s\<lparr>pa_diagnostics := d\<rparr>) = owned_surface s"
  "at_identifier (s\<lparr>pa_diagnostics := d\<rparr>) = at_identifier s" "at_doc_comment (s\<lparr>pa_diagnostics := d\<rparr>) = at_doc_comment s"
  by (simp_all add: at_simple_def at_keyword_def at_eof_def inside_def rest_def owned_surface_def at_identifier_def at_doc_comment_def)

lemma load_diagnostics [simp]: "load (s\<lparr>pa_diagnostics := d\<rparr>) = load s"
  by (simp add: load_def)

lemma boundary_diagnostics [simp]:
  "at_line_end (s\<lparr>pa_diagnostics := d\<rparr>) = at_line_end s"
  "at_expression_boundary (s\<lparr>pa_diagnostics := d\<rparr>) = at_expression_boundary s"
  "at_type_boundary (s\<lparr>pa_diagnostics := d\<rparr>) = at_type_boundary s"
  by (simp_all add: at_line_end_def at_expression_boundary_def at_type_boundary_def)

section \<open>What a test says of the current token\<close>

lemma inside_kind: "current_kind s = Some k \<Longrightarrow> k \<noteq> Eof \<Longrightarrow> inside s"
  by (auto simp: inside_def current_kind_def)

lemma inside_tests [insides]:
  "at_simple k s \<Longrightarrow> k \<noteq> Eof \<Longrightarrow> inside s" "at_keyword w s \<Longrightarrow> inside s" "at_identifier s \<Longrightarrow> inside s"
  "at_doc_comment s \<Longrightarrow> inside s" "at_path_component s \<Longrightarrow> inside s" "at_literal s \<Longrightarrow> inside s"
  "at_formatted_string s \<Longrightarrow> inside s" "at_integer_literal s \<Longrightarrow> inside s"
  by (auto simp: at_simple_def at_keyword_def at_identifier_def at_doc_comment_def at_path_component_def at_literal_def
      is_literal_def at_formatted_string_def at_integer_literal_def inside_def current_kind_def
      split: option.splits token_kind.splits)

lemma inside_lists [insides]:
  "at_prefix_operator s \<Longrightarrow> inside s" "at_assignment_operator s \<Longrightarrow> inside s"
  by (auto simp: at_prefix_operator_def at_assignment_operator_def inside_tests)

lemma inside_eof: "inside s \<longleftrightarrow> \<not> at_eof s"
  by (auto simp: inside_def at_eof_def at_simple_def current_kind_def current_def vget_def split: if_splits)

lemma inside_boundary [insides]:
  "\<not> at_eof s \<Longrightarrow> inside s" "\<not> at_expression_boundary s \<Longrightarrow> inside s" "\<not> at_type_boundary s \<Longrightarrow> inside s"
  by (auto simp: inside_eof at_expression_boundary_def at_type_boundary_def at_line_end_def)

lemma inside_rest: "inside s \<Longrightarrow> \<exists>t. current s = Some t \<and> rest s = t # rest (s\<lparr>pa_position := pa_position s + 1\<rparr>) \<and> token_kind t \<noteq> Eof"
  by (auto simp: inside_def current_def vget_def rest_def Cons_nth_drop_Suc split: if_splits)

lemma current_rest: "current s = (case rest s of [] \<Rightarrow> None | t # ts \<Rightarrow> Some t)"
  by (auto simp: current_def vget_def rest_def nth_via_drop split: list.split)

text \<open>The same as equations over the current kind\<close>

lemma inside_iff: "inside s \<longleftrightarrow> (\<exists>k. current_kind s = Some k \<and> k \<noteq> Eof)"
  by (auto simp: inside_def current_kind_def)

lemma at_eof_iff: "at_eof s \<longleftrightarrow> (\<forall>k. current_kind s = Some k \<longrightarrow> k = Eof)"
  using inside_eof inside_iff by blast

lemma at_class_iff:
  "at_identifier s \<longleftrightarrow> (\<exists>n. current_kind s = Some (Identifier n))"
  "at_doc_comment s \<longleftrightarrow> (\<exists>d. current_kind s = Some (DocComment d))"
  "at_formatted_string s \<longleftrightarrow> (\<exists>segments. current_kind s = Some (FormattedString segments))"
  "at_integer_literal s \<longleftrightarrow> (\<exists>raw radix sfx. current_kind s = Some (IntegerLiteral raw radix sfx))"
  "at_literal s \<longleftrightarrow> (\<exists>k. current_kind s = Some k \<and> is_literal k)"
  by (auto simp: at_identifier_def at_doc_comment_def at_formatted_string_def at_integer_literal_def at_literal_def
      split: option.splits token_kind.splits)

lemma not_literal [simp]: "\<not> is_literal Eof"
  by (simp add: is_literal_def)

lemmas looks = inside_iff at_eof_iff at_class_iff at_simple_def at_keyword_def at_path_component_def at_prefix_operator_def
  at_assignment_operator_def at_line_end_def at_expression_boundary_def at_type_boundary_def

section \<open>Contracts\<close>

definition grammar_rank :: "grammar_symbol \<Rightarrow> nat" where
  "grammar_rank symbol = (case symbol of NtItem \<Rightarrow> 2 | NtStatement \<Rightarrow> 1 | NtPattern \<Rightarrow> 1 | _ \<Rightarrow> 0)"

lemma grammar_rank_simps [simp]:
  "grammar_rank NtItem = 2" "grammar_rank NtStatement = 1" "grammar_rank NtPattern = 1" "grammar_rank NtType = 0"
  "grammar_rank (NtExpression m) = 0" "grammar_rank NtPatternAtom = 0" "grammar_rank NtBindingTuple = 0"
  by (simp_all add: grammar_rank_def)

text \<open>
  A module whose \<open>mod\<close> comes after \<open>unsafe\<close>. The parser classifies it as a module but does not pass the
  \<open>unsafe\<close>, so it never returns.
\<close>

fun module_after_modifiers :: "token_kind list \<Rightarrow> bool" where
  "module_after_modifiers [] = False"
| "module_after_modifiers (k # ks) = (k = Keyword KwMod \<or> is_modifier k \<and> module_after_modifiers ks)"

fun has_unsafe_module :: "token_kind list \<Rightarrow> bool" where
  "has_unsafe_module [] = False"
| "has_unsafe_module (k # ks) = (k = Keyword KwUnsafe \<and> module_after_modifiers ks \<or> has_unsafe_module ks)"

lemma has_unsafe_module_append: "has_unsafe_module ks \<Longrightarrow> has_unsafe_module (js @ ks)"
  by (induction js) auto

definition unblocked :: "parser \<Rightarrow> bool" where
  "unblocked s \<longleftrightarrow> \<not> has_unsafe_module (map token_kind (rest s))"

definition allowed :: "grammar_symbol \<Rightarrow> parser \<Rightarrow> bool" where
  "allowed symbol s \<longleftrightarrow>
     pa_tokens s \<noteq> [] \<and> (symbol = NtBindingTuple \<longrightarrow> at_simple LParen s) \<and> (symbol = NtItem \<longrightarrow> unblocked s)"

text \<open>A production returns a node that holds the tokens it passed.\<close>

definition node_result :: "syntax_node \<Rightarrow> syntax_element list \<Rightarrow> bool" where
  "node_result n xs \<longleftrightarrow> xs = [NodeElement n]"

definition kinded_result :: "syntax_kind \<times> syntax_element list \<Rightarrow> syntax_element list \<Rightarrow> bool" where
  "kinded_result r xs \<longleftrightarrow> fst r \<noteq> SkFormattedStringExpression \<and> xs = snd r"

definition flagged_result :: "'a \<times> syntax_element list \<Rightarrow> syntax_element list \<Rightarrow> bool" where
  "flagged_result r xs \<longleftrightarrow> xs = snd r"

definition returns :: "('a \<Rightarrow> syntax_element list \<Rightarrow> bool) \<Rightarrow> bool \<Rightarrow> 'a action \<Rightarrow> parser \<Rightarrow> bool" where
  "returns R k a s \<longleftrightarrow> (\<exists>x xs s'. a s = Some (x, s') \<and> R x xs \<and> consumes s xs s' \<and> (k \<longrightarrow> tokens_of xs \<noteq> []))"

text \<open>
  The productions of rank below \<open>r\<close> return here, every production returns later on and on the tokens
  inside the remaining ones. With the flag, no module after the current token is marked unsafe.
\<close>

definition ready_for :: "productions \<Rightarrow> nat \<Rightarrow> bool \<Rightarrow> parser \<Rightarrow> bool" where
  "ready_for call r b s \<longleftrightarrow>
     pa_tokens s \<noteq> [] \<and> (b \<longrightarrow> unblocked s)
     \<and> (\<forall>symbol s'. load s' < load s \<or> load s' = load s \<and> grammar_rank symbol < r \<longrightarrow> allowed symbol s' \<longrightarrow>
          returns node_result False (call symbol) s')"

definition delivers ::
  "('a \<Rightarrow> syntax_element list \<Rightarrow> bool) \<Rightarrow> productions \<Rightarrow> nat \<Rightarrow> bool \<Rightarrow> bool \<Rightarrow> (parser \<Rightarrow> bool) \<Rightarrow> 'a action \<Rightarrow> bool" where
  "delivers R call r b k P a \<longleftrightarrow> (\<forall>s. ready_for call r b s \<longrightarrow> P s \<longrightarrow> returns R k a s)"

abbreviation good :: "productions \<Rightarrow> nat \<Rightarrow> bool \<Rightarrow> bool \<Rightarrow> (parser \<Rightarrow> bool) \<Rightarrow> step \<Rightarrow> bool" where
  "good \<equiv> delivers (=)"

abbreviation good_node :: "productions \<Rightarrow> nat \<Rightarrow> bool \<Rightarrow> bool \<Rightarrow> (parser \<Rightarrow> bool) \<Rightarrow> syntax_node action \<Rightarrow> bool" where
  "good_node \<equiv> delivers node_result"

abbreviation good_kinded ::
  "productions \<Rightarrow> nat \<Rightarrow> bool \<Rightarrow> bool \<Rightarrow> (parser \<Rightarrow> bool) \<Rightarrow> (syntax_kind \<times> syntax_element list) action \<Rightarrow> bool" where
  "good_kinded \<equiv> delivers kinded_result"

lemma deliversD:
  "delivers R call r b k P a \<Longrightarrow> ready_for call r b s \<Longrightarrow> P s \<Longrightarrow>
   \<exists>x xs s'. a s = Some (x, s') \<and> R x xs \<and> consumes s xs s' \<and> (k \<longrightarrow> tokens_of xs \<noteq> [])"
  by (auto simp: delivers_def returns_def)

lemma goodD:
  "good call r b k P a \<Longrightarrow> ready_for call r b s \<Longrightarrow> P s \<Longrightarrow>
   \<exists>xs s'. a s = Some (xs, s') \<and> consumes s xs s' \<and> (k \<longrightarrow> tokens_of xs \<noteq> [])"
  by (auto simp: delivers_def returns_def)

lemma returnsI: "a s = Some (x, s') \<Longrightarrow> R x xs \<Longrightarrow> consumes s xs s' \<Longrightarrow> (k \<Longrightarrow> tokens_of xs \<noteq> []) \<Longrightarrow> returns R k a s"
  by (auto simp: returns_def)

lemma goodI: "a s = Some (xs, s') \<Longrightarrow> consumes s xs s' \<Longrightarrow> (k \<Longrightarrow> tokens_of xs \<noteq> []) \<Longrightarrow> returns (=) k a s"
  by (rule returnsI) auto

lemma unblocked_later: "consumes s xs s' \<Longrightarrow> unblocked s \<Longrightarrow> unblocked s'"
  unfolding unblocked_def consumes_def using has_unsafe_module_append by (metis map_append)

lemma ready_forD:
  assumes "ready_for call r b s"
  shows "pa_tokens s \<noteq> []" "b \<Longrightarrow> unblocked s"
    "load s' < load s \<or> load s' = load s \<and> grammar_rank symbol < r \<Longrightarrow> allowed symbol s' \<Longrightarrow>
     returns node_result False (call symbol) s'"
  using assms unfolding ready_for_def by blast+

lemma ready_later:
  assumes r: "ready_for call r b s" and c: "consumes s xs s'"
  shows "ready_for call r b s'"
proof -
  have "pa_tokens s' \<noteq> []" using ready_forD(1) [OF r] c by (simp add: consumes_def)
  moreover have "b \<longrightarrow> unblocked s'" using ready_forD(2) [OF r] unblocked_later [OF c] by blast
  moreover have "returns node_result False (call symbol) t"
    if "load t < load s' \<or> load t = load s' \<and> grammar_rank symbol < r" "allowed symbol t" for symbol t
    by (rule ready_forD(3) [OF r _ that(2)]) (use that(1) consumes_load [OF c] in linarith)
  ultimately show ?thesis by (simp add: ready_for_def)
qed

lemma ready_rank: "ready_for call r b s \<Longrightarrow> r' \<le> r \<Longrightarrow> ready_for call r' b s"
  by (simp add: ready_for_def)

lemma rank_below: "grammar_rank symbol < 3"
  by (cases symbol) simp_all

lemma ready_moved:
  assumes r: "ready_for call r b s" and c: "consumes s xs s'" and m: "tokens_of xs \<noteq> []"
  shows "ready_for call r' b s'"
proof -
  have "pa_tokens s' \<noteq> []" using ready_forD(1) [OF r] c by (simp add: consumes_def)
  moreover have "b \<longrightarrow> unblocked s'" using ready_forD(2) [OF r] unblocked_later [OF c] by blast
  moreover have "returns node_result False (call symbol) t" if "load t \<le> load s'" "allowed symbol t" for symbol t
    by (rule ready_forD(3) [OF r _ that(2)]) (use that(1) consumes_load_less [OF c m] in linarith)
  ultimately show ?thesis by (simp add: ready_for_def)
qed

lemma ready_diagnostics [simp]: "ready_for call r b (s\<lparr>pa_diagnostics := d\<rparr>) = ready_for call r b s"
  by (simp add: ready_for_def unblocked_def)

lemma ready_span: "ready_for call r b s \<Longrightarrow> \<exists>sp. current_span s = Some sp"
  by (auto simp: ready_for_def current_span_def vlast_def split: option.split)

text \<open>Weaker contracts\<close>

lemma returns_mono: "returns R k a s \<Longrightarrow> (k' \<longrightarrow> k) \<Longrightarrow> returns R k' a s"
  by (auto simp: returns_def)

lemma delivers_mono:
  "delivers R call r b k P a \<Longrightarrow> r \<le> r' \<Longrightarrow> (k' \<longrightarrow> k) \<Longrightarrow> (\<And>s. Q s \<Longrightarrow> P s) \<Longrightarrow> delivers R call r' b k' Q a"
  unfolding delivers_def using ready_rank returns_mono by blast


section \<open>A rule per combinator\<close>

lemma delivers_nothing [contracts]: "good call r b False P nothing"
  by (auto simp: delivers_def nothing_def consumes_Nil intro!: goodI)

lemma delivers_error [contracts]: "good call r b False P (error_here msg)"
  unfolding delivers_def
proof (intro allI impI)
  fix s assume "ready_for call r b s" "P s"
  then obtain sp where "current_span s = Some sp" using ready_span by blast
  then show "returns (=) False (error_here msg) s" by (auto simp: error_here_def consumes_Nil intro!: goodI)
qed

lemma delivers_error_at [contracts]: "good call r b False P (error_at msg sp)"
  by (auto simp: delivers_def error_at_def consumes_Nil intro!: goodI)

lemma bump_inside: "inside s \<Longrightarrow> \<exists>t. bump s = Some ([TokenElement t], s\<lparr>pa_position := pa_position s + 1\<rparr>)
    \<and> current s = Some t \<and> consumes s [TokenElement t] (s\<lparr>pa_position := pa_position s + 1\<rparr>)"
  using inside_rest [of s] by (auto simp: bump_def consumes_def)

lemma returns_bump: "inside s \<Longrightarrow> returns (=) k bump s"
  using bump_inside [of s] by (fastforce simp: returns_def)

lemma delivers_bump [contracts]: "(\<And>s. P s \<Longrightarrow> inside s) \<Longrightarrow> good call r b k P bump"
  by (simp add: delivers_def returns_bump)

lemma delivers_branch [contracts]:
  "delivers R call r b k (\<lambda>s. P s \<and> p s) a \<Longrightarrow> delivers R call r b k (\<lambda>s. P s \<and> \<not> p s) a' \<Longrightarrow>
   delivers R call r b k P (branch p a a')"
  by (auto simp: delivers_def branch_def returns_def)

lemma delivers_when [contracts]: "good call r b False (\<lambda>s. P s \<and> p s) a \<Longrightarrow> good call r b False P (when_at p a)"
  unfolding when_at_def by (intro contracts)

lemma delivers_if [contracts]:
  "(c \<Longrightarrow> delivers R call r b k P a) \<Longrightarrow> (\<not> c \<Longrightarrow> delivers R call r b k P a') \<Longrightarrow> delivers R call r b k P (if c then a else a')"
  by simp

lemma delivers_steps_Nil [contracts]: "good call r b False P (steps [])"
  by (auto simp: delivers_def consumes_Nil intro!: goodI)

lemma delivers_steps_Cons:
  assumes "good call r b False P a" "good call r b False (\<lambda>s. True) (steps as)"
  shows "good call r b False P (steps (a # as))"
  unfolding delivers_def
proof (intro allI impI)
  fix s assume s: "ready_for call r b s" "P s"
  obtain xs s1 where a: "a s = Some (xs, s1)" "consumes s xs s1" using goodD [OF assms(1) s] by blast
  obtain ys s2 where "steps as s1 = Some (ys, s2)" "consumes s1 ys s2"
    using goodD [OF assms(2) ready_later [OF s(1) a(2)]] by blast
  with a show "returns (=) False (steps (a # as)) s" by (auto intro!: goodI consumes_trans)
qed

text \<open>After a step that moves, every production may be called.\<close>

lemma delivers_steps_moved:
  assumes "good call r b True P a" "good call 3 b False (\<lambda>s. True) (steps as)"
  shows "good call r b k P (steps (a # as))"
  unfolding delivers_def
proof (intro allI impI)
  fix s assume s: "ready_for call r b s" "P s"
  obtain xs s1 where a: "a s = Some (xs, s1)" "consumes s xs s1" "tokens_of xs \<noteq> []" using goodD [OF assms(1) s] by blast
  obtain ys s2 where "steps as s1 = Some (ys, s2)" "consumes s1 ys s2"
    using goodD [OF assms(2) ready_moved [OF s(1) a(2,3)]] by blast
  with a show "returns (=) k (steps (a # as)) s" by (auto intro!: goodI consumes_trans)
qed

lemma delivers_steps_bump [contracts]:
  assumes "\<And>s. P s \<Longrightarrow> inside s" "good call 3 b False (\<lambda>s. True) (steps as)"
  shows "good call r b k P (steps (bump # as))"
  by (rule delivers_steps_moved [OF delivers_bump [OF assms(1)] assms(2)])

declare delivers_steps_Cons [contracts]

text \<open>A step that stays leaves the current token to the steps after it.\<close>

definition stays :: "(parser \<Rightarrow> bool) \<Rightarrow> step \<Rightarrow> bool" where
  "stays P a \<longleftrightarrow> (\<forall>s. P s \<longrightarrow> pa_tokens s \<noteq> [] \<longrightarrow> (\<exists>d. a s = Some ([], s\<lparr>pa_diagnostics := d\<rparr>)))"

lemma stays_error: "stays P (error_here msg)"
  by (auto simp: stays_def error_here_def push_syntax_error_def current_span_def vlast_def split: option.splits)

lemma stays_error_at: "stays P (error_at msg sp)"
  by (auto simp: stays_def error_at_def push_syntax_error_def)

lemma pa_diagnostics_same [simp]: "s\<lparr>pa_diagnostics := pa_diagnostics s\<rparr> = s"
  by simp

lemma stays_nothing: "stays P nothing"
  unfolding stays_def nothing_def by (metis pa_diagnostics_same)

lemma stays_if: "(c \<Longrightarrow> stays P a) \<Longrightarrow> (\<not> c \<Longrightarrow> stays P a') \<Longrightarrow> stays P (if c then a else a')"
  by simp

lemma stays_when: "(\<And>s. P s \<Longrightarrow> \<not> p s) \<Longrightarrow> stays P (when_at p a)"
  using stays_nothing [of P] by (auto simp: stays_def when_at_def branch_def)

lemma stays_branch: "stays (\<lambda>s. P s \<and> p s) a \<Longrightarrow> stays (\<lambda>s. P s \<and> \<not> p s) a' \<Longrightarrow> stays P (branch p a a')"
  by (auto simp: stays_def branch_def)

lemmas stays_rules = stays_error stays_error_at stays_nothing stays_if stays_when

lemma stable_tests [simp]:
  "stable (\<lambda>s. True)" "stable (at_simple k)" "stable (at_keyword w)" "stable inside" "stable at_eof"
  by (simp_all add: stable_def)

lemma delivers_steps_stays:
  assumes a: "stays P a" and st: "stable P" and as: "good call r b k P (steps as)"
  shows "good call r b k P (steps (a # as))"
  unfolding delivers_def
proof (intro allI impI)
  fix s assume s: "ready_for call r b s" "P s"
  then obtain d where d: "a s = Some ([], s\<lparr>pa_diagnostics := d\<rparr>)"
    using a ready_forD(1) by (auto simp: stays_def)
  have "P (s\<lparr>pa_diagnostics := d\<rparr>)" using st s(2) by (simp add: stable_def)
  then obtain xs s1 where "steps as (s\<lparr>pa_diagnostics := d\<rparr>) = Some (xs, s1)" "consumes (s\<lparr>pa_diagnostics := d\<rparr>) xs s1"
    "k \<longrightarrow> tokens_of xs \<noteq> []" using goodD [OF as] s(1) by (metis ready_diagnostics)
  with d show "returns (=) k (steps (a # as)) s"
    using consumes_trans [OF consumes_Nil(1)] by (auto intro!: goodI)
qed

lemma delivers_child [contracts]: "good_node call r b k P a \<Longrightarrow> good call r b k P (child a)"
  unfolding delivers_def by (fastforce simp: returns_def node_result_def child_def)

lemma delivers_call [contracts]:
  assumes "grammar_rank symbol < r" "\<And>s. P s \<Longrightarrow> symbol = NtBindingTuple \<Longrightarrow> at_simple LParen s" "symbol = NtItem \<Longrightarrow> b"
  shows "good_node call r b False P (call symbol)"
  using assms ready_forD(1,2) by (auto simp: delivers_def allowed_def intro!: ready_forD(3))

lemma delivers_as_node [contracts]:
  assumes "good call r b k P a" "kd \<noteq> SkFormattedStringExpression"
  shows "good_node call r b k P (as_node kd a)"
  unfolding delivers_def
proof (intro allI impI)
  fix s assume s: "ready_for call r b s" "P s"
  obtain sp where sp: "current_span s = Some sp" using ready_span [OF s(1)] by blast
  obtain xs s1 where a: "a s = Some (xs, s1)" "consumes s xs s1" "k \<longrightarrow> tokens_of xs \<noteq> []" using goodD [OF assms(1) s] by blast
  show "returns node_result k (as_node kd a) s"
    using a(3) sp assms(2)
    by (intro returnsI [where x = "syntax_node_new kd xs sp", OF _ _ consumes_same [OF a(2), of "[NodeElement (syntax_node_new kd xs sp)]"]])
      (simp_all add: as_node_def node_result_def a(1))
qed

lemma delivers_as_kinded_node [contracts]:
  assumes "good_kinded call r b k P a"
  shows "good_node call r b k P (as_kinded_node a)"
  unfolding delivers_def
proof (intro allI impI)
  fix s assume s: "ready_for call r b s" "P s"
  obtain sp where sp: "current_span s = Some sp" using ready_span [OF s(1)] by blast
  obtain kd xs s1 where a: "a s = Some ((kd, xs), s1)" "kd \<noteq> SkFormattedStringExpression" "consumes s xs s1"
    "k \<longrightarrow> tokens_of xs \<noteq> []"
    using deliversD [OF assms s] by (auto simp: kinded_result_def)
  show "returns node_result k (as_kinded_node a) s"
    using a(4) sp a(2)
    by (intro returnsI [where x = "syntax_node_new kd xs sp", OF _ _ consumes_same [OF a(3), of "[NodeElement (syntax_node_new kd xs sp)]"]])
      (simp_all add: as_kinded_node_def node_result_def a(1))
qed

lemma delivers_kinded [contracts]:
  "good call r b k P a \<Longrightarrow> kd \<noteq> SkFormattedStringExpression \<Longrightarrow> good_kinded call r b k P (kinded kd a)"
  unfolding delivers_def by (fastforce simp: returns_def kinded_result_def kinded_def)

lemma delivers_prefixed:
  assumes "good call r b False P a" "good_kinded call r b False (\<lambda>s. True) c"
  shows "good_kinded call r b False P (prefixed a c)"
  unfolding delivers_def
proof (intro allI impI)
  fix s assume s: "ready_for call r b s" "P s"
  obtain xs s1 where a: "a s = Some (xs, s1)" "consumes s xs s1" using goodD [OF assms(1) s] by blast
  obtain kd ys s2 where "c s1 = Some ((kd, ys), s2)" "kd \<noteq> SkFormattedStringExpression" "consumes s1 ys s2"
    using deliversD [OF assms(2) ready_later [OF s(1) a(2)]] by (auto simp: kinded_result_def)
  with a show "returns kinded_result False (prefixed a c) s"
    by (auto simp: prefixed_def kinded_result_def intro!: returnsI consumes_trans)
qed

lemma delivers_prefixed_bump [contracts]:
  assumes "\<And>s. P s \<Longrightarrow> inside s" "good_kinded call 3 b False (\<lambda>s. True) c"
  shows "good_kinded call r b k P (prefixed bump c)"
  unfolding delivers_def
proof (intro allI impI)
  fix s assume s: "ready_for call r b s" "P s"
  obtain t s1 where a: "bump s = Some ([TokenElement t], s1)" "consumes s [TokenElement t] s1"
    using bump_inside [OF assms(1) [OF s(2)]] by blast
  obtain kd ys s2 where "c s1 = Some ((kd, ys), s2)" "kd \<noteq> SkFormattedStringExpression" "consumes s1 ys s2"
    using deliversD [OF assms(2) ready_moved [OF s(1) a(2)]] by (auto simp: kinded_result_def)
  with a show "returns kinded_result k (prefixed bump c) s"
    using consumes_trans [OF a(2), of ys s2] by (auto simp: prefixed_def kinded_result_def intro!: returnsI)
qed


declare delivers_prefixed [contracts]

section \<open>Loops\<close>

text \<open>Every round but the last moves, and the bound counts the remaining tokens.\<close>

lemma consumes_length: "consumes s xs s' \<Longrightarrow> length (rest s') + length (tokens_of xs) = length (rest s)"
  by (simp add: consumes_def)

lemma loop_bound_rest: "loop_bound s = Suc (length (rest s))"
  by (simp add: loop_bound_def rest_def)

lemma delivers_from:
  assumes "\<And>n s. ready_for call r b s \<Longrightarrow> length (rest s) < n \<Longrightarrow> P s \<Longrightarrow> returns R k (a n) s"
    and "\<And>s. c s = a (loop_bound s) s"
  shows "delivers R call r b k P c"
  using assms(1) [of _ "loop_bound _"] by (auto simp: delivers_def returns_def assms(2) loop_bound_rest)

lemma repeat_returns:
  assumes body: "good call r b True p body"
  shows "ready_for call r b s \<Longrightarrow> length (rest s) < n \<Longrightarrow> returns (=) False (repeat_from n p body) s"
proof (induction n arbitrary: s)
  case (Suc n)
  show ?case
  proof (cases "p s")
    case True
    obtain xs s1 where a: "body s = Some (xs, s1)" "consumes s xs s1" "tokens_of xs \<noteq> []"
      using goodD [OF body Suc.prems(1) True] by blast
    have "length (rest s1) < n" using consumes_length [OF a(2)] a(3) Suc.prems(2) by (cases "tokens_of xs") auto
    from Suc.IH [OF ready_later [OF Suc.prems(1) a(2)] this] obtain ys s2 where
      "repeat_from n p body s1 = Some (ys, s2)" "consumes s1 ys s2" by (auto simp: returns_def)
    with True a(1) consumes_trans [OF a(2)] show ?thesis by (auto intro!: goodI)
  next
    case False
    then show ?thesis by (auto simp: consumes_Nil intro!: goodI)
  qed
qed simp

lemma delivers_while [contracts]: "good call r b True p body \<Longrightarrow> good call r b False P (while_at p body)"
  by (rule delivers_from [OF repeat_returns]) (simp_all add: while_at_def)

lemma separated_returns:
  assumes item: "good call r b False (\<lambda>s. \<not> at_eof s \<and> \<not> at_simple close s) item"
  shows "ready_for call r b s \<Longrightarrow> length (rest s) < n \<Longrightarrow> returns (=) False (separated_from n close item) s"
proof (induction n arbitrary: s)
  case (Suc n)
  show ?case
  proof (cases "at_eof s \<or> at_simple close s")
    case False
    then obtain xs s1 where a: "item s = Some (xs, s1)" "consumes s xs s1" using goodD [OF item Suc.prems(1)] by blast
    show ?thesis
    proof (cases "at_simple Comma s1")
      case True
      then have "inside s1" by (simp add: insides)
      then obtain t s2 where c: "bump s1 = Some ([TokenElement t], s2)" "consumes s1 [TokenElement t] s2" using bump_inside by blast
      have l: "length (rest s2) < n" using consumes_length [OF a(2)] consumes_length [OF c(2)] Suc.prems(2) by simp
      have r: "ready_for call r b s2" by (rule ready_later [OF ready_later [OF Suc.prems(1) a(2)] c(2)])
      from Suc.IH [OF r l] obtain ys s3 where d: "separated_from n close item s2 = Some (ys, s3)" "consumes s2 ys s3"
        by (auto simp: returns_def)
      have "consumes s (xs @ [TokenElement t] @ ys) s3"
        using consumes_trans [OF a(2) consumes_trans [OF c(2) d(2)]] by simp
      with True False a(1) c(1) d(1) show ?thesis by (auto intro!: goodI)
    next
      case comma: False
      with False a show ?thesis by (auto intro!: goodI)
    qed
  next
    case True
    then show ?thesis by (auto simp: consumes_Nil intro!: goodI)
  qed
qed simp

lemma delivers_separated [contracts]:
  "good call r b False (\<lambda>s. \<not> at_eof s \<and> \<not> at_simple close s) item \<Longrightarrow> good call r b False P (separated close item)"
  by (rule delivers_from [OF separated_returns]) (simp_all add: separated_def)

lemma trailing_returns:
  assumes item: "good call r b False (\<lambda>s. True) item"
  shows "ready_for call r b s \<Longrightarrow> length (rest s) < n \<Longrightarrow> returns (=) False (trailing_from n close item) s"
proof (induction n arbitrary: s)
  case (Suc n)
  show ?case
  proof (cases "at_simple Comma s")
    case True
    then have "inside s" by (simp add: insides)
    then obtain t s1 where c: "bump s = Some ([TokenElement t], s1)" "consumes s [TokenElement t] s1" using bump_inside by blast
    have r1: "ready_for call r b s1" by (rule ready_later [OF Suc.prems(1) c(2)])
    show ?thesis
    proof (cases "at_simple close s1")
      case False
      obtain xs s2 where a: "item s1 = Some (xs, s2)" "consumes s1 xs s2" using goodD [OF item r1] by blast
      have l: "length (rest s2) < n" using consumes_length [OF a(2)] consumes_length [OF c(2)] Suc.prems(2) by simp
      from Suc.IH [OF ready_later [OF r1 a(2)] l] obtain ys s3 where
        d: "trailing_from n close item s2 = Some (ys, s3)" "consumes s2 ys s3" by (auto simp: returns_def)
      have "consumes s ([TokenElement t] @ xs @ ys) s3" by (rule consumes_trans [OF c(2) consumes_trans [OF a(2) d(2)]])
      with True False a(1) c(1) d(1) show ?thesis by (auto intro!: goodI)
    next
      case closed: True
      with True c show ?thesis by (auto intro!: goodI)
    qed
  next
    case False
    then show ?thesis by (auto simp: consumes_Nil intro!: goodI)
  qed
qed simp

lemma delivers_trailing [contracts]: "good call r b False (\<lambda>s. True) item \<Longrightarrow> good call r b False P (trailing close item)"
  by (rule delivers_from [OF trailing_returns]) (simp_all add: trailing_def)

lemma balanced_returns: "length (rest s) < n \<Longrightarrow> returns (=) False (balanced_from n depth) s"
proof (induction n arbitrary: s depth)
  case (Suc n)
  show ?case
  proof (cases "\<not> at_eof s \<and> (0 < depth \<or> \<not> at_simple RParen s)")
    case True
    then have "inside s" by (simp add: insides)
    then obtain t s1 where c: "bump s = Some ([TokenElement t], s1)" "consumes s [TokenElement t] s1" using bump_inside by blast
    have "length (rest s1) < n" using consumes_length [OF c(2)] Suc.prems by simp
    from Suc.IH [OF this] obtain ys s2 where
      d: "balanced_from n (if at_simple LParen s \<or> at_simple LBracket s \<or> at_simple LBrace s then depth + 1
           else if (at_simple RParen s \<or> at_simple RBracket s \<or> at_simple RBrace s) \<and> 0 < depth then depth - 1
           else depth) s1 = Some (ys, s2)" "consumes s1 ys s2" unfolding returns_def by blast
    have "balanced_from (Suc n) depth s = Some ([TokenElement t] @ ys, s2)"
      by (simp only: balanced_from.simps if_P [OF True] if_True c(1) d(1) bind.bind_lunit prod.case)
    then show ?thesis by (rule goodI) (use consumes_trans [OF c(2) d(2)] in simp_all)
  next
    case False
    then have "balanced_from (Suc n) depth s = Some ([], s)" by (simp only: balanced_from.simps if_not_P [OF False] if_False)
    then show ?thesis by (rule goodI) (simp_all add: consumes_Nil)
  qed
qed simp

lemma delivers_balanced [contracts]: "good call r b False P balanced_tokens"
  by (rule delivers_from [where a = "\<lambda>n. balanced_from n 0", OF balanced_returns]) (simp_all add: balanced_tokens_def)

text \<open>A member that stands still is followed by the token it stopped at.\<close>

lemma delivers_progressing [contracts]:
  assumes a: "good call r b False P a" and i: "\<And>s. P s \<Longrightarrow> inside s"
  shows "good call r b k P (progressing a)"
  unfolding delivers_def
proof (intro allI impI)
  fix s assume s: "ready_for call r b s" "P s"
  obtain xs s1 where x: "a s = Some (xs, s1)" "consumes s xs s1" using goodD [OF a s] by blast
  show "returns (=) k (progressing a) s"
  proof (cases "tokens_of xs = []")
    case True
    have "inside s1" using i [OF s(2)] consumes_stays [OF x(2) True] by (metis tests_diagnostics(4))
    then obtain t s2 where c: "bump s1 = Some ([TokenElement t], s2)" "consumes s1 [TokenElement t] s2" using bump_inside by blast
    have "progressing a s = Some (xs @ [TokenElement t], s2)"
      using True x c(1) by (simp add: progressing_def consumes_moves)
    then show ?thesis by (rule goodI) (use consumes_trans [OF x(2) c(2)] in simp_all)
  next
    case False
    then have "progressing a s = Some (xs, s1)" using x by (simp add: progressing_def consumes_moves)
    then show ?thesis by (rule goodI) (use x(2) False in simp_all)
  qed
qed

lemma delivers_forced:
  assumes a: "good call r b False P a" and i: "\<And>s. P s \<Longrightarrow> inside s"
  shows "good call r b k P (forced msg a)"
  unfolding delivers_def
proof (intro allI impI)
  fix s assume s: "ready_for call r b s" "P s"
  obtain xs s1 where x: "a s = Some (xs, s1)" "consumes s xs s1" using goodD [OF a s] by blast
  have r1: "ready_for call r b s1" by (rule ready_later [OF s(1) x(2)])
  show "returns (=) k (forced msg a) s"
  proof (cases "tokens_of xs = []")
    case True
    have "inside s1" using i [OF s(2)] consumes_stays [OF x(2) True] by (metis tests_diagnostics(4))
    moreover have "good call r b True inside (steps [error_here msg, bump])"
      by (rule delivers_steps_stays [OF stays_error]) (simp_all add: delivers_steps_bump delivers_steps_Nil)
    ultimately obtain ys s2 where c: "steps [error_here msg, bump] s1 = Some (ys, s2)" "consumes s1 ys s2" "tokens_of ys \<noteq> []"
      using goodD r1 by blast
    have "forced msg a s = Some (xs @ ys, s2)"
      using True x c(1) by (simp add: forced_def consumes_moves del: steps.simps)
    then show ?thesis by (rule goodI) (use consumes_trans [OF x(2) c(2)] c(3) in simp_all)
  next
    case False
    then have "forced msg a s = Some (xs, s1)" using x by (simp add: forced_def consumes_moves nothing_def)
    then show ?thesis by (rule goodI) (use x(2) False in simp_all)
  qed
qed

text \<open>Blocks: where a member stands, the block moves.\<close>

definition at_member :: "parser \<Rightarrow> bool" where
  "at_member s \<longleftrightarrow> inside s \<and> \<not> at_simple Dedent s \<and> \<not> at_simple Newline s"

lemma at_member_inside: "at_member s \<Longrightarrow> inside s"
  by (simp add: at_member_def)

lemma block_returns:
  assumes member: "good call r b True at_member member"
  shows "ready_for call r b s \<Longrightarrow> length (rest s) < n \<Longrightarrow>
    returns flagged_result (\<not> at_eof s \<and> \<not> at_simple Dedent s) (block_from n member) s"
proof (induction n arbitrary: s)
  case (Suc n)
  consider "at_eof s \<or> at_simple Dedent s" | "\<not> at_eof s \<and> \<not> at_simple Dedent s" "at_simple Newline s"
    | "at_member s" "\<not> at_eof s \<and> \<not> at_simple Dedent s" "\<not> at_simple Newline s"
    by (auto simp: at_member_def inside_eof)
  then show ?case
  proof cases
    case 1
    then have "block_from (Suc n) member s = Some ((0, []), s)" by simp
    then show ?thesis by (rule returnsI) (use 1 in \<open>auto simp: flagged_result_def consumes_Nil\<close>)
  next
    case 2
    then have "inside s" by (simp add: insides)
    then obtain t s1 where c: "bump s = Some ([TokenElement t], s1)" "consumes s [TokenElement t] s1" using bump_inside by blast
    have "length (rest s1) < n" using consumes_length [OF c(2)] Suc.prems(2) by simp
    from Suc.IH [OF ready_later [OF Suc.prems(1) c(2)] this] obtain m ys s2 where
      d: "block_from n member s1 = Some ((m, ys), s2)" "consumes s1 ys s2" by (auto simp: returns_def flagged_result_def)
    then have "block_from (Suc n) member s = Some ((m, [TokenElement t] @ ys), s2)" using 2 c(1) by simp
    then show ?thesis by (rule returnsI) (use consumes_trans [OF c(2) d(2)] in \<open>auto simp: flagged_result_def\<close>)
  next
    case 3
    obtain xs s1 where c: "member s = Some (xs, s1)" "consumes s xs s1" "tokens_of xs \<noteq> []"
      using goodD [OF member Suc.prems(1) 3(1)] by blast
    have "length (rest s1) < n" using consumes_length [OF c(2)] c(3) Suc.prems(2) by (cases "tokens_of xs") auto
    from Suc.IH [OF ready_later [OF Suc.prems(1) c(2)] this] obtain m ys s2 where
      d: "block_from n member s1 = Some ((m, ys), s2)" "consumes s1 ys s2" by (auto simp: returns_def flagged_result_def)
    then have "block_from (Suc n) member s = Some ((Suc m, xs @ ys), s2)" using 3 c(1) by simp
    then show ?thesis by (rule returnsI [OF _ _ consumes_trans [OF c(2) d(2)]]) (use c(3) in \<open>simp_all add: flagged_result_def\<close>)
  qed
qed simp

lemma delivers_members:
  assumes member: "good call r b True at_member member"
  shows "good call r b k (\<lambda>s. k \<longrightarrow> \<not> at_eof s \<and> \<not> at_simple Dedent s) (members msg member)"
  unfolding delivers_def
proof (intro allI impI)
  fix s assume s: "ready_for call r b s" "k \<longrightarrow> \<not> at_eof s \<and> \<not> at_simple Dedent s"
  obtain m xs s1 where x: "block_from (loop_bound s) member s = Some ((m, xs), s1)" "consumes s xs s1" "k \<longrightarrow> tokens_of xs \<noteq> []"
    using block_returns [OF member s(1), of "loop_bound s"] s(2) by (auto simp: returns_def flagged_result_def loop_bound_rest)
  have "good call r b False (\<lambda>s. True) (if m = 0 then error_here msg else nothing)" by (intro contracts)
  from goodD [OF this ready_later [OF s(1) x(2)]] obtain ys s2 where
    y: "(if m = 0 then error_here msg else nothing) s1 = Some (ys, s2)" "consumes s1 ys s2" by blast
  have "members msg member s = Some (xs @ ys, s2)"
    by (simp only: members_def x(1) y(1) bind.bind_lunit prod.case)
  then show "returns (=) k (members msg member) s" by (rule goodI) (use consumes_trans [OF x(2) y(2)] x(3) in auto)
qed

end
