(* ===== verification/Parser_Steps.thy ===== *)
theory Parser_Steps
  imports Parser_Contract
begin

text \<open>
  Every production keeps the contract. Most contracts follow from the rules of the combinators; loops
  written out in the model are by induction on their bound.
\<close>

section \<open>Primitive steps\<close>

lemma eat_good [contracts]: "good call r b False P (eat_simple k)" if "k \<noteq> Eof"
  unfolding eat_simple_def by (intro contracts) (auto simp: looks that)

lemma eat_keyword_good [contracts]: "good call r b False P (eat_keyword w)"
  unfolding eat_keyword_def by (intro contracts) (auto simp: looks at_member_def)

lemma expect_good [contracts]:
  "k \<noteq> Eof \<Longrightarrow> good call r b False P (expect_simple k msg)"
  "good call r b False P (expect_keyword w msg)" "good call r b False P (expect_identifier msg)"
  "good call r b False P (expect_name msg)" "good call r b False P expect_parameter_name"
  unfolding expect_simple_def expect_keyword_def expect_identifier_def expect_name_def expect_parameter_name_def
      apply (intro contracts; auto simp: looks)
     apply (intro contracts; auto simp: looks)
    apply (intro contracts; auto simp: looks)
   apply (intro contracts; auto simp: looks)
  apply (intro contracts; auto simp: looks)
  done

lemma branch_moves: "(\<And>s. P s \<Longrightarrow> p s \<and> inside s) \<Longrightarrow> good call r b k P (branch p bump a)"
  using returns_bump by (auto simp: delivers_def returns_def branch_def)

lemma expect_moves:
  "k \<noteq> Eof \<Longrightarrow> (\<And>s. P s \<Longrightarrow> at_simple k s) \<Longrightarrow> good call r b m P (expect_simple k msg)"
  "(\<And>s. P s \<Longrightarrow> at_keyword w s) \<Longrightarrow> good call r b m P (expect_keyword w msg)"
  "(\<And>s. P s \<Longrightarrow> at_path_component s) \<Longrightarrow> good call r b m P (expect_name msg)"
  unfolding expect_simple_def expect_keyword_def expect_name_def
  by (rule branch_moves; auto simp: looks)+

lemma eat_newlines_good [contracts]: "good call r b False P eat_newlines"
  unfolding eat_newlines_def by (intro contracts) (auto simp: looks at_member_def)

lemma recover_line_good [contracts]: "good call r b False P recover_line"
  unfolding recover_line_def by (intro contracts) (auto simp: looks at_member_def)

lemma expect_line_end_good [contracts]: "good call r b False P expect_line_end"
  unfolding expect_line_end_def by (intro contracts) (auto simp: looks at_member_def)

lemma path_good [contracts]: "good call r b False P parse_path_tokens"
  unfolding parse_path_tokens_def by (intro contracts) (auto simp: looks at_member_def)

lemma path_moves: "(\<And>s. P s \<Longrightarrow> at_path_component s) \<Longrightarrow> good call r b k P parse_path_tokens"
  unfolding parse_path_tokens_def
  by (rule delivers_steps_moved [OF expect_moves(3)]) (assumption, intro contracts, auto simp: looks at_member_def)

lemma take_docs_good [contracts]: "good call r b False P take_docs"
  unfolding take_docs_def by (intro contracts) (auto simp: looks at_member_def)

lemma attribute_good [contracts]: "(\<And>s. P s \<Longrightarrow> inside s) \<Longrightarrow> good_node call r b k P parse_attribute"
  unfolding parse_attribute_def by (intro contracts) (auto simp: looks at_member_def)

lemma item_prefix_good [contracts]: "good call r b False P take_item_prefix"
  unfolding take_item_prefix_def
  by (intro contracts delivers_steps_moved [OF delivers_child [OF attribute_good]]) (auto simp: looks at_member_def)

section \<open>Blocks\<close>

lemma block_start_good [contracts]: "good call r b False P expect_block_start"
  unfolding expect_block_start_def by (intro contracts) (auto simp: looks at_member_def)

text \<open>The tokens of a block whose start is missing are its members.\<close>

lemma block_moves:
  assumes "good call r b True at_member member"
  shows "good call r b True (\<lambda>s. \<not> at_eof s \<and> \<not> at_simple Dedent s) (block empty_msg end_msg member)"
proof -
  have "returns (=) True (steps [expect_block_start, members empty_msg member, expect_simple Dedent end_msg]) s"
    if s: "ready_for call r b s" "\<not> at_eof s \<and> \<not> at_simple Dedent s" for s
  proof -
    have g: "good call r b False (\<lambda>s. True) expect_block_start" by (rule block_start_good)
    obtain xs s1 where x: "expect_block_start s = Some (xs, s1)" "consumes s xs s1" using goodD [OF g s(1)] by blast
    have r1: "ready_for call r b s1" by (rule ready_later [OF s(1) x(2)])
    let ?k = "tokens_of xs = []"
    have "?k \<longrightarrow> \<not> at_eof s1 \<and> \<not> at_simple Dedent s1" using s(2) consumes_stays [OF x(2)] by (metis tests_diagnostics(1,3))
    from goodD [OF delivers_members [OF assms, of ?k] r1, OF this] obtain ys s2 where
      y: "members empty_msg member s1 = Some (ys, s2)" "consumes s1 ys s2" "?k \<longrightarrow> tokens_of ys \<noteq> []" by blast
    have "good call r b False (\<lambda>s. True) (expect_simple Dedent end_msg)" by (intro contracts) simp
    from goodD [OF this ready_later [OF r1 y(2)]] obtain zs s3 where
      z: "expect_simple Dedent end_msg s2 = Some (zs, s3)" "consumes s2 zs s3" by blast
    have "consumes s (xs @ ys @ zs) s3" by (rule consumes_trans [OF x(2) consumes_trans [OF y(2) z(2)]])
    then show ?thesis using x(1) y(1,3) z(1) by (auto intro!: goodI)
  qed
  then have "good call r b True (\<lambda>s. \<not> at_eof s \<and> \<not> at_simple Dedent s)
      (steps [expect_block_start, members empty_msg member, expect_simple Dedent end_msg])" by (simp add: delivers_def)
  then show ?thesis unfolding block_def by (intro delivers_child delivers_as_node) simp_all
qed

lemma members_good [contracts]: "good call r b True at_member member \<Longrightarrow> good call r b False P (members msg member)"
  using delivers_members [of call r b member False msg] by (auto simp: delivers_def)

lemma block_good [contracts]: "good call r b True at_member member \<Longrightarrow> good call r b False P (block empty_msg end_msg member)"
  unfolding block_def by (intro contracts) (auto simp: looks at_member_def)

lemma statement_block_good [contracts]: "2 \<le> r \<Longrightarrow> good call r b False P (parse_statement_block call)"
  unfolding parse_statement_block_def by (intro contracts) (auto simp: looks at_member_def)

lemma statement_block_moves:
  "2 \<le> r \<Longrightarrow> good call r b True (\<lambda>s. \<not> at_eof s \<and> \<not> at_simple Dedent s) (parse_statement_block call)"
  unfolding parse_statement_block_def by (intro block_moves contracts) (auto simp: looks at_member_def)

section \<open>Macros\<close>

lemma macro_sequence_good [contracts]:
  "2 \<le> r \<Longrightarrow> a \<noteq> Eof \<Longrightarrow> c \<noteq> Eof \<Longrightarrow> good call r b False P (parse_macro_sequence call a c)"
  unfolding parse_macro_sequence_def by (intro contracts) (auto simp: looks at_member_def)

lemma recover_macro_good [contracts]: "2 \<le> r \<Longrightarrow> good call r b False P (recover_macro_invocation call)"
  unfolding recover_macro_invocation_def by (intro contracts) auto

lemma user_macro_good [contracts]: "2 \<le> r \<Longrightarrow> good call r b False P (parse_user_macro_arguments call)"
  unfolding parse_user_macro_arguments_def by (intro contracts) (auto simp: looks at_member_def)

lemma macro_arguments_good [contracts]: "2 \<le> r \<Longrightarrow> good call r b False P (macro_arguments call name)"
  unfolding macro_arguments_def map_entry_def by (intro contracts) (auto simp: looks at_member_def)

text \<open>Steps in sequence, the second of which depends on what came before\<close>

lemma returns_then:
  assumes "good call r b False (\<lambda>s. True) a" "ready_for call r b s"
    and "\<And>xs s1. a s = Some (xs, s1) \<Longrightarrow> consumes s xs s1 \<Longrightarrow> ready_for call r b s1 \<Longrightarrow> returns (=) False (c xs) s1"
    and "\<And>xs s1 ys s2. a s = Some (xs, s1) \<Longrightarrow> c xs s1 = Some (ys, s2) \<Longrightarrow> f s = Some (xs @ ys, s2)"
  shows "returns (=) False f s"
proof -
  obtain xs s1 where a: "a s = Some (xs, s1)" "consumes s xs s1" using goodD [OF assms(1,2)] by blast
  obtain ys s2 where c: "c xs s1 = Some (ys, s2)" "consumes s1 ys s2"
    using assms(3) [OF a ready_later [OF assms(2) a(2)]] by (auto simp: returns_def)
  show ?thesis using assms(4) [OF a(1) c(1)] consumes_trans [OF a(2) c(2)] by (auto simp: returns_def)
qed

lemma returns_bump_then:
  assumes i: "inside s" and r: "ready_for call r b s"
    and c: "\<And>t s1. bump s = Some ([TokenElement t], s1) \<Longrightarrow> ready_for call 3 b s1 \<Longrightarrow> returns (=) False (c t) s1"
    and f: "\<And>t s1 ys s2. bump s = Some ([TokenElement t], s1) \<Longrightarrow> c t s1 = Some (ys, s2) \<Longrightarrow>
      f s = Some (TokenElement t # ys, s2)"
  shows "returns (=) k f s"
proof -
  obtain t s1 where t: "bump s = Some ([TokenElement t], s1)" "consumes s [TokenElement t] s1" using bump_inside [OF i] by blast
  have "ready_for call 3 b s1" by (rule ready_moved [OF r t(2)]) simp
  then obtain ys s2 where y: "c t s1 = Some (ys, s2)" "consumes s1 ys s2" using c [OF t(1)] by (auto simp: returns_def)
  show ?thesis using f [OF t(1) y(1)] consumes_trans [OF t(2) y(2)] by (auto simp: returns_def)
qed

lemma macro_rest_good [contracts]:
  assumes "2 \<le> r"
  shows "good call r b False P (macro_rest call)"
  unfolding delivers_def
proof (intro allI impI)
  fix s assume "ready_for call r b s"
  then show "returns (=) False (macro_rest call) s"
    by (rule returns_then [OF path_good, where c = "\<lambda>cs. macro_arguments call (if has_dot cs then None else identifier_here s)"])
      (use macro_arguments_good [OF assms] in \<open>auto simp: delivers_def macro_rest_def\<close>)
qed

lemma macro_expression_good [contracts]: "(\<And>s. P s \<Longrightarrow> inside s) \<Longrightarrow> good_node call r b k P (parse_macro_expression call)"
  unfolding parse_macro_expression_def by (intro contracts; auto)

section \<open>Types\<close>

lemma type_arguments_good [contracts]: "2 \<le> r \<Longrightarrow> good_node call r b False P (parse_type_arguments call)"
  unfolding parse_type_arguments_def by (intro contracts) (auto simp: looks)

lemma return_type_good [contracts]: "2 \<le> r \<Longrightarrow> good_node call r b False P (parse_return_type call)"
  unfolding parse_return_type_def by (intro contracts) (auto simp: looks)

lemma variadic_type_good:
  assumes "2 \<le> r"
  shows "delivers flagged_result call r b False (\<lambda>s. True) (variadic_type call twice sp seen)"
  unfolding delivers_def
proof (intro allI impI)
  fix s assume s: "ready_for call r b s"
  have "good call r b False (\<lambda>s. True)
      (steps [eat_simple Ellipsis, if at_simple Ellipsis s \<and> seen then error_at twice sp else nothing, type_child call])"
    by (intro contracts) (use assms in auto)
  from goodD [OF this s] show "returns flagged_result False (variadic_type call twice sp seen) s"
    by (auto simp: variadic_type_def flagged_result_def simp del: steps.simps intro!: returnsI)
qed

lemma parameter_good:
  assumes "2 \<le> r"
  shows "delivers flagged_result call r b False (\<lambda>s. True) (parameter call sp seen)"
  unfolding delivers_def
proof (intro allI impI)
  fix s assume s: "ready_for call r b s"
  have "good call r b False (\<lambda>s. True) (steps [expect_parameter_name, expect_simple Colon ''expected `:`''])"
    by (intro contracts) auto
  from goodD [OF this s] obtain xs s1 where x: "steps [expect_parameter_name, expect_simple Colon ''expected `:`''] s = Some (xs, s1)"
    "consumes s xs s1" by blast
  obtain v ys s2 where y: "variadic_type call ''a parameter list may contain only one variadic parameter'' sp seen s1 = Some ((v, ys), s2)"
    "consumes s1 ys s2" using deliversD [OF variadic_type_good [OF assms, where twice = "''a parameter list may contain only one variadic parameter''" and sp = sp and seen = seen]
        ready_later [OF s x(2)]] by (auto simp: flagged_result_def)
  have "consumes s [NodeElement (syntax_node_new SkParameter (xs @ ys) sp)] s2"
    by (rule consumes_same [OF consumes_trans [OF x(2) y(2)]]) simp
  then show "returns flagged_result False (parameter call sp seen) s"
    using x(1) y(1) by (auto simp: parameter_def flagged_result_def simp del: steps.simps intro!: returnsI)
qed

lemma variadic_returns:
  assumes item: "\<And>sp seen. delivers flagged_result call r b False (\<lambda>s. True) (item sp seen)"
  shows "ready_for call r b s \<Longrightarrow> length (rest s) < n \<Longrightarrow> returns (=) False (variadic_from n item seen) s"
proof (induction n arbitrary: s seen)
  case (Suc n)
  show ?case
  proof (cases "at_eof s \<or> at_simple RParen s")
    case False
    obtain sp where sp: "current_span s = Some sp" using ready_span [OF Suc.prems(1)] by blast
    obtain v xs s1 where a: "item sp seen s = Some ((v, xs), s1)" "consumes s xs s1"
      using deliversD [OF item Suc.prems(1)] by (fastforce simp: flagged_result_def)
    have r1: "ready_for call r b s1" by (rule ready_later [OF Suc.prems(1) a(2)])
    show ?thesis
    proof (cases "at_simple Comma s1")
      case True
      then have "inside s1" by (auto simp: looks)
      then obtain t s2 where c: "bump s1 = Some ([TokenElement t], s2)" "consumes s1 [TokenElement t] s2" using bump_inside by blast
      have r2: "ready_for call r b s2" by (rule ready_later [OF r1 c(2)])
      have "good call r b False (\<lambda>s. True)
          (if v \<and> \<not> at_simple RParen s2 then error_at ''a variadic parameter must be final'' sp else nothing)"
        by (intro contracts)
      from goodD [OF this r2] obtain d s3 where
        d: "(if v \<and> \<not> at_simple RParen s2 then error_at ''a variadic parameter must be final'' sp else nothing) s2 = Some (d, s3)"
        "consumes s2 d s3" by blast
      have l: "length (rest s3) < n"
        using consumes_length [OF a(2)] consumes_length [OF c(2)] consumes_length [OF d(2)] Suc.prems(2) by simp
      from Suc.IH [OF ready_later [OF r2 d(2)] l] obtain ys s4 where
        e: "variadic_from n item (seen \<or> v) s3 = Some (ys, s4)" "consumes s3 ys s4" unfolding returns_def by blast
      have "consumes s (xs @ [TokenElement t] @ d @ ys) s4"
        by (rule consumes_trans [OF a(2) consumes_trans [OF c(2) consumes_trans [OF d(2) e(2)]]])
      moreover have "variadic_from (Suc n) item seen s = Some (xs @ [TokenElement t] @ d @ ys, s4)"
        by (simp only: variadic_from.simps if_not_P [OF False] if_False sp a(1) c(1) d(1) e(1) True if_True bind.bind_lunit prod.case)
      ultimately show ?thesis by (auto simp only: intro!: goodI)
    next
      case comma: False
      with False a sp show ?thesis by (auto intro!: goodI)
    qed
  next
    case True
    then show ?thesis by (auto simp: consumes_Nil intro!: goodI)
  qed
qed simp

lemma variadic_list_good:
  "(\<And>sp seen. delivers flagged_result call r b False (\<lambda>s. True) (item sp seen)) \<Longrightarrow> good call r b False P (variadic_list item)"
  by (rule delivers_from [where a = "\<lambda>n. variadic_from n item False", OF variadic_returns]) (simp_all add: variadic_list_def)

lemma parameters_good [contracts]: "2 \<le> r \<Longrightarrow> good_node call r b False P (parse_parameters call)"
  unfolding parse_parameters_def by (intro contracts variadic_list_good parameter_good) auto

lemma function_type_good [contracts]: "2 \<le> r \<Longrightarrow> good call r b False P (parse_function_type_tail call)"
  unfolding parse_function_type_tail_def by (intro contracts variadic_list_good variadic_type_good) (auto simp: looks)

text \<open>Entered at \<open>fn\<close>, the tail moves before it reads a type.\<close>

lemma function_type_moves [contracts]:
  "(\<And>s. P s \<Longrightarrow> at_keyword KwFn s) \<Longrightarrow> good call r b k P (parse_function_type_tail call)"
  unfolding parse_function_type_tail_def
  by (intro delivers_steps_moved [OF expect_moves(2)] contracts variadic_list_good variadic_type_good) (auto simp: looks)

lemma bracket_tail_good: "good call 3 b False (\<lambda>s. m \<longrightarrow> at_keyword KwVar s) (bracket_tail call m sp)"
proof -
  have len: "good call 3 b False (\<lambda>s. True \<and> at_simple Semicolon s)
      (steps [if m then error_at msg sp else nothing, bump, expression_child call])" for msg
    by (rule delivers_steps_stays [OF stays_if [OF stays_error_at stays_nothing]])
      (auto simp: looks stable_def intro!: delivers_steps_bump contracts)
  show ?thesis unfolding bracket_tail_def
    by (rule delivers_steps_Cons) (intro delivers_when [OF len] contracts; auto simp: looks)+
qed

lemma bracket_type_good [contracts]:
  assumes "\<And>s. P s \<Longrightarrow> inside s"
  shows "good call r b k P (bracket_type call)"
  unfolding delivers_def
proof (intro allI impI)
  fix s assume s: "ready_for call r b s" "P s"
  obtain sp where sp: "current_span s = Some sp" using ready_span [OF s(1)] by blast
  have "ready_for call 3 b s1 \<Longrightarrow>
      returns (=) False (bracket_tail call (supports_owned_surface (pa_revision s1) \<and> at_keyword KwVar s1) sp) s1" for s1
    using bracket_tail_good [of call b "supports_owned_surface (pa_revision s1) \<and> at_keyword KwVar s1" sp] by (simp add: delivers_def)
  then show "returns (=) k (bracket_type call) s"
    by (intro returns_bump_then [OF assms [OF s(2)] s(1), where
        c = "\<lambda>t s1. bracket_tail call (supports_owned_surface (pa_revision s1) \<and> at_keyword KwVar s1) sp s1"])
      (auto simp: bracket_type_def sp returns_def)
qed

lemma type_list_good [contracts]: "(\<And>s. P s \<Longrightarrow> inside s) \<Longrightarrow> good call r b k P (type_list call)"
  unfolding type_list_def by (intro contracts) auto

lemma named_type_good [contracts]: "good call r b False P (named_type call)"
  unfolding named_type_def by (intro contracts delivers_steps_moved [OF path_moves]) (auto simp: looks)

lemma parse_type_good: "good_node call r b False P (parse_type call)"
  unfolding parse_type_def type_node_children_def by (intro contracts) (auto simp: looks)

end
