(* ===== verification/Parser_Symbols.thy ===== *)
theory Parser_Symbols
  imports Parser_Steps
begin

text \<open>The productions of patterns, expressions and statements keep the contract of the parser.\<close>

section \<open>Patterns\<close>

lemma binding_tuple_good: "good_node call r b False (at_simple LParen) (parse_binding_tuple_pattern call)"
  unfolding parse_binding_tuple_pattern_def by (intro contracts) (auto simp: looks)

lemma pattern_good: "1 \<le> r \<Longrightarrow> good_node call r b False P (parse_pattern call)"
  unfolding parse_pattern_def by (intro contracts) (auto simp: looks)

lemma pattern_list_good [contracts]: "(\<And>s. P s \<Longrightarrow> inside s) \<Longrightarrow> good call r b k P (pattern_list call)"
  unfolding pattern_list_def by (intro contracts) auto

lemma pattern_record_good [contracts]: "(\<And>s. P s \<Longrightarrow> inside s) \<Longrightarrow> good call r b k P (pattern_record call)"
  unfolding pattern_record_def pattern_field_def by (intro contracts) (auto simp: looks)

lemma path_pattern_good [contracts]: "good_node call r b False P (path_pattern call)"
  unfolding path_pattern_def by (intro contracts) (auto simp: looks)

lemma pattern_atom_good: "good_node call r b False P (parse_pattern_atom call)"
  unfolding parse_pattern_atom_def by (intro contracts) (auto simp: looks)

section \<open>Closures and quotes\<close>

lemma captures_good [contracts]: "(\<And>s. P s \<Longrightarrow> inside s) \<Longrightarrow> good_node call r b k P parse_closure_captures"
  unfolding parse_closure_captures_def closure_capture_def capture_sigil_def
  by (intro contracts delivers_steps_stays [OF stays_error, where as = "[bump, eat_keyword KwVar]"]) (auto simp: looks stable_def)

lemma closure_parameters_good [contracts]: "2 \<le> r \<Longrightarrow> good_node call r b False P (parse_closure_parameters call)"
  unfolding parse_closure_parameters_def closure_parameter_def
  by (intro contracts delivers_when [OF delivers_steps_stays [OF stays_error, where as = "[bump]"]]) (auto simp: looks stable_def)

lemma closure_good [contracts]: "(\<And>s. P s \<Longrightarrow> inside s) \<Longrightarrow> good_node call r b k P (parse_closure_expression call)"
  unfolding parse_closure_expression_def by (intro contracts) (auto simp: looks)

lemma interpolation_good [contracts]: "(\<And>s. P s \<Longrightarrow> inside s) \<Longrightarrow> good_node call r b k P (parse_quote_interpolation call)"
  unfolding parse_quote_interpolation_def by (intro contracts) (auto simp: looks)

lemma quote_element_moves:
  "good call r b True inside (branch (at_simple Dollar) (child (parse_quote_interpolation call)) bump)"
  by (intro contracts) (auto simp: looks)

lemma quote_returns:
  "ready_for call r b s \<Longrightarrow> length (rest s) < n \<Longrightarrow> returns flagged_result False (quote_from n call depth) s"
proof (induction n arbitrary: s depth)
  case (Suc n)
  show ?case
  proof (cases "at_eof s \<or> depth = 0")
    case False
    then have "inside s" by (simp add: inside_eof)
    then obtain xs s1 where a: "branch (at_simple Dollar) (child (parse_quote_interpolation call)) bump s = Some (xs, s1)"
      "consumes s xs s1" "tokens_of xs \<noteq> []" using goodD [OF quote_element_moves Suc.prems(1)] by blast
    have "length (rest s1) < n" using consumes_length [OF a(2)] a(3) Suc.prems(2) by (cases "tokens_of xs") auto
    from Suc.IH [OF ready_later [OF Suc.prems(1) a(2)] this] obtain d m ys s2 where
      q: "quote_from n call (if at_simple Indent s then depth + 1 else if at_simple Dedent s then depth - 1 else depth) s1
         = Some (((d, m), ys), s2)" "consumes s1 ys s2" unfolding returns_def flagged_result_def by (metis prod.collapse)
    have "quote_from (Suc n) call depth s
        = Some (((d, if at_simple Indent s \<or> at_simple Dedent s \<or> at_simple Newline s then m else Suc m), xs @ ys), s2)"
      by (simp only: quote_from.simps if_not_P [OF False] if_False a(1) q(1) bind.bind_lunit prod.case)
    then show ?thesis by (rule returnsI [OF _ _ consumes_trans [OF a(2) q(2)]]) (simp_all add: flagged_result_def)
  next
    case True
    then have "quote_from (Suc n) call depth s = Some (((depth, 0), []), s)" by (simp only: quote_from.simps if_P [OF True] if_True)
    then show ?thesis by (rule returnsI [OF _ _ consumes_Nil(2)]) (simp_all add: flagged_result_def)
  qed
qed simp

lemma quote_content_good [contracts]:
  assumes "\<And>s. P s \<Longrightarrow> inside s"
  shows "good call r b k P (quote_content call)"
  unfolding delivers_def
proof (intro allI impI)
  fix s assume s: "ready_for call r b s" "P s"
  obtain sp where sp: "current_span s = Some sp" using ready_span [OF s(1)] by blast
  obtain t s1 where t: "bump s = Some ([TokenElement t], s1)" "consumes s [TokenElement t] s1"
    using bump_inside [OF assms [OF s(2)]] by blast
  have r1: "ready_for call r b s1" by (rule ready_later [OF s(1) t(2)])
  obtain d m xs s2 where q: "quote_from (loop_bound s1) call 1 s1 = Some (((d, m), xs), s2)" "consumes s1 xs s2"
    using quote_returns [OF r1, of "loop_bound s1" 1] unfolding returns_def flagged_result_def loop_bound_rest
    by (metis lessI prod.collapse)
  let ?tail = "[if 0 < d then error_here ''expected end of indented quote body'' else nothing,
     if m = 0 then error_at ''an indented quote body cannot be empty'' sp else nothing]"
  have "good call r b False (\<lambda>s. True) (steps ?tail)" by (intro contracts)
  from goodD [OF this ready_later [OF r1 q(2)]] obtain ys s3 where y: "steps ?tail s2 = Some (ys, s3)" "consumes s2 ys s3" by blast
  have "quote_content call s = Some ([TokenElement t] @ xs @ ys, s3)"
    by (simp only: quote_content_def sp t(1) q(1) y(1) bind.bind_lunit prod.case)
  then show "returns (=) k (quote_content call) s"
    by (rule goodI [OF _ consumes_trans [OF t(2) consumes_trans [OF q(2) y(2)]]]) simp
qed

lemma quote_good [contracts]: "(\<And>s. P s \<Longrightarrow> inside s) \<Longrightarrow> good_node call r b k P (parse_quote_expression call)"
  unfolding parse_quote_expression_def by (intro contracts) (auto simp: looks)

section \<open>Formatted strings\<close>

text \<open>An interpolation is parsed by a parser of its own, whose tokens are fewer than the string's.\<close>

lemma size_expression_segment:
  "segment_kind segment = ExpressionSegment source tokens \<Longrightarrow> size_list size tokens < size segment"
  by (cases segment; cases "segment_kind segment") auto

lemma interpolations_return:
  assumes calls: "\<And>symbol t. load t < size_list size segments \<Longrightarrow> allowed symbol t \<Longrightarrow> returns node_result False (call symbol) t"
  shows "\<exists>es d. interpolations call segments s = Some (map NodeElement es, s\<lparr>pa_diagnostics := d\<rparr>)"
  using calls
proof (induction segments arbitrary: s)
  case Nil
  have "interpolations call [] s = Some (map NodeElement [], s\<lparr>pa_diagnostics := pa_diagnostics s\<rparr>)" by simp
  then show ?case by blast
next
  case (Cons segment segments)
  have IH: "\<exists>es d. interpolations call segments t = Some (map NodeElement es, t\<lparr>pa_diagnostics := d\<rparr>)" for t
    by (rule Cons.IH) (rule Cons.prems, simp_all)
  show ?case
  proof (cases "segment_kind segment")
    case (TextSegment v)
    with IH show ?thesis by simp
  next
    case (ExpressionSegment source tokens)
    show ?thesis
    proof (cases "tokens = []")
      case True
      with IH [of "push_syntax_error ''formatted-string interpolation requires an expression'' (segment_span segment) s"]
        ExpressionSegment show ?thesis by (auto simp: push_syntax_error_def)
    next
      case False
      let ?p = "parser_new tokens (pa_revision s)"
      have "load ?p < size_list size (segment # segments)" using size_expression_segment [OF ExpressionSegment]
        by (simp add: load_def rest_def parser_new_def)
      moreover have "allowed (NtExpression 0) ?p" using False by (simp add: allowed_def parser_new_def)
      ultimately obtain e xs p1 where e: "call (NtExpression 0) ?p = Some (e, p1)" "consumes ?p xs p1"
        using Cons.prems by (fastforce simp: returns_def)
      have "pa_tokens p1 \<noteq> []" using e(2) False by (simp add: consumes_def parser_new_def)
      then obtain sp where "current_span p1 = Some sp" by (cases "current p1") (auto simp: current_span_def vlast_def)
      then have "\<exists>c p2. (if pa_position p1 < length tokens
          then error_here ''unexpected token in formatted-string interpolation'' else nothing) p1 = Some (c, p2)"
        by (simp add: error_here_def nothing_def)
      then obtain c p2 where p2: "(if pa_position p1 < length tokens
          then error_here ''unexpected token in formatted-string interpolation'' else nothing) p1 = Some (c, p2)" by blast
      obtain es d where "interpolations call segments (s\<lparr>pa_diagnostics := pa_diagnostics s @ pa_diagnostics p2\<rparr>)
          = Some (map NodeElement es, s\<lparr>pa_diagnostics := d\<rparr>)" using IH [of "s\<lparr>pa_diagnostics := pa_diagnostics s @ pa_diagnostics p2\<rparr>"] by auto
      then have "interpolations call (segment # segments) s = Some (map NodeElement (e # es), s\<lparr>pa_diagnostics := d\<rparr>)"
        using ExpressionSegment False e(1) p2 by (simp del: if_split)
      then show ?thesis by blast
    qed
  qed
qed

lemma direct_tokens_formatted:
  "direct_tokens (SyntaxNode k sp (TokenElement t # map NodeElement es)) = [t]"
  by (induction es) (simp_all add: direct_tokens_def List.map_filter_simps)

lemma formatted_good [contracts]:
  assumes "\<And>s. P s \<Longrightarrow> at_formatted_string s"
  shows "good_node call r b k P (parse_formatted_string_expression call)"
  unfolding delivers_def
proof (intro allI impI)
  fix s assume s: "ready_for call r b s" "P s"
  obtain segments where k: "current_kind s = Some (FormattedString segments)" using assms [OF s(2)] by (auto simp: looks)
  then have i: "inside s" by (auto simp: looks)
  obtain sp where sp: "current_span s = Some sp" using ready_span [OF s(1)] by blast
  from bump_inside [OF i] obtain t s1 where t: "bump s = Some ([TokenElement t], s1)" "consumes s [TokenElement t] s1" "current s = Some t"
    by blast
  have kt: "token_kind t = FormattedString segments" using k t(3) by (simp add: current_kind_def)
  have r: "rest s = t # rest s1" using t(2) by (simp add: consumes_def)
  have "size_list size segments < size t" using kt by (cases t) simp
  then have l: "size_list size segments < load s" by (simp add: load_def r)
  have "\<exists>es d. interpolations call segments s1 = Some (map NodeElement es, s1\<lparr>pa_diagnostics := d\<rparr>)"
    by (rule interpolations_return) (rule ready_forD(3) [OF s(1)], use l in auto)
  then obtain es d where e: "interpolations call segments s1 = Some (map NodeElement es, s1\<lparr>pa_diagnostics := d\<rparr>)" by blast
  let ?cs = "TokenElement t # map NodeElement es"
  have n: "parse_formatted_string_expression call s
      = Some (syntax_node_new SkFormattedStringExpression ?cs sp, s1\<lparr>pa_diagnostics := d\<rparr>)"
    by (simp add: parse_formatted_string_expression_def as_node_def sp formatted_children_def t(1) segments_here_def k e)
  have tk: "node_tokens (syntax_node_new SkFormattedStringExpression ?cs sp) = [t]"
    by (simp add: syntax_node_new_def direct_tokens_formatted del: list.map)
  have "consumes s [NodeElement (syntax_node_new SkFormattedStringExpression ?cs sp)] (s1\<lparr>pa_diagnostics := d\<rparr>)"
    using t(2) tk by (simp add: consumes_def rest_def)
  with n tk show "returns node_result k (parse_formatted_string_expression call) s"
    by (auto simp: node_result_def intro!: returnsI)
qed

section \<open>Primary expressions\<close>

lemma parenthesized_good [contracts]: "(\<And>s. P s \<Longrightarrow> inside s) \<Longrightarrow> good_node call r b False P (parse_parenthesized_or_tuple call)"
  unfolding parse_parenthesized_or_tuple_def parenthesized_children_def parenthesized_rest_def
  by (intro contracts) (auto simp: looks)

lemma array_good [contracts]: "(\<And>s. P s \<Longrightarrow> inside s) \<Longrightarrow> good_node call r b k P (parse_array_expression call)"
  unfolding parse_array_expression_def by (intro contracts) (auto simp: looks)

lemma prefix_good: "good_node call r b False P (parse_prefix_expression call)"
proof -
  have u: "good call r b False P (steps [branch (at_simple Amp) (steps [bump, eat_keyword KwVar]) bump, child (call (NtExpression 13))])"
    if "\<And>s. P s \<Longrightarrow> inside s" for P
    by (rule delivers_steps_moved) (intro contracts; auto simp: that)+
  have d: "good call r b False (at_simple Dollar) (steps [error_here msg, bump])" for msg
    by (auto intro!: delivers_steps_stays [OF stays_error] delivers_steps_bump delivers_steps_Nil simp: looks stable_def)
  have e: "good call r b False P (steps [error_here msg, bump])" if "\<And>s. P s \<Longrightarrow> at_simple Dollar s" for P msg
    by (rule delivers_mono [OF d]) (auto intro: that)
  show ?thesis unfolding parse_prefix_expression_def
    by (intro delivers_branch delivers_as_node u e contracts) (auto simp: looks)
qed

section \<open>Postfix forms and operators\<close>

lemma postfix_children_good:
  "good_kinded call r b True (\<lambda>s. at_postfix left s) (postfix_children call)"
  unfolding postfix_children_def member_children_def call_arguments_def bracket_arguments_def record_fields_def parse_record_field_def
    at_postfix_def
  by (intro contracts) (auto simp: looks)

text \<open>The node grows by what is consumed.\<close>

definition grows_node :: "syntax_node action \<Rightarrow> bool \<Rightarrow> parser \<Rightarrow> syntax_node \<Rightarrow> bool" where
  "grows_node a k s left \<longleftrightarrow>
     (\<exists>e xs s'. a s = Some (e, s') \<and> consumes s xs s' \<and> node_tokens e = node_tokens left @ tokens_of xs \<and> (k \<longrightarrow> tokens_of xs \<noteq> []))"

lemma postfix_cases:
  assumes s: "ready_for call r b s"
  obtains "parse_postfix call left s = Some (None, s)"
  | e xs s' where "parse_postfix call left s = Some (Some e, s')" "consumes s xs s'" "tokens_of xs \<noteq> []"
      "node_tokens e = node_tokens left @ tokens_of xs"
proof (cases "at_postfix left s")
  case True
  then obtain k xs s' where x: "postfix_children call s = Some ((k, xs), s')" "k \<noteq> SkFormattedStringExpression" "consumes s xs s'"
    "tokens_of xs \<noteq> []" using deliversD [OF postfix_children_good [where left = left] s] by (auto simp: kinded_result_def)
  then have "parse_postfix call left s = Some (Some (syntax_node_new k (NodeElement left # xs) (node_span left)), s')"
    using True by (simp add: parse_postfix_def)
  from that(2) [OF this x(3,4)] x(2) show ?thesis by simp
next
  case False
  then show ?thesis using that(1) by (simp add: parse_postfix_def)
qed

lemma cast_grows:
  assumes s: "ready_for call r b s" and k: "at_keyword KwAs s"
  shows "grows_node (cast_step call fallback left) True s left"
proof -
  have "good call r b True (at_keyword KwAs) (steps [bump, type_child call])" by (intro contracts) (auto simp: looks)
  from goodD [OF this s k] show ?thesis by (auto simp: cast_step_def grows_node_def simp del: steps.simps)
qed

lemma binding_power_inside: "binary_binding_power s = Some p \<Longrightarrow> inside s"
  by (auto simp: binary_binding_power_def binding_powers_def looks split: option.splits if_splits)

lemma binary_grows:
  assumes s: "ready_for call r b s" and i: "inside s"
  shows "grows_node (binary_step call fallback left right_bp cmp) True s left"
proof -
  obtain t s1 where t: "bump s = Some ([TokenElement t], s1)" "consumes s [TokenElement t] s1" using bump_inside [OF i] by blast
  have r1: "ready_for call 3 b s1" by (rule ready_moved [OF s t(2)]) simp
  have "good_node call 3 b False (\<lambda>s. True) (call (NtExpression right_bp))" by (intro contracts) auto
  from deliversD [OF this r1] obtain right s2 where x: "call (NtExpression right_bp) s1 = Some (right, s2)"
    "consumes s1 [NodeElement right] s2" by (auto simp: node_result_def)
  let ?r = "cmp \<and> (is_comparison_expression left \<or> is_comparison_expression right)"
  obtain d where d: "(if ?r then error_at ''chained comparisons are invalid'' (token_span t) else nothing) s2
      = Some ([], s2\<lparr>pa_diagnostics := d\<rparr>)"
    using stays_if [where c = ?r and P = "\<lambda>s. True", OF stays_error_at stays_nothing] ready_forD(1) [OF ready_later [OF r1 x(2)]]
    unfolding stays_def by blast
  have "binary_step call fallback left right_bp cmp s
      = Some (syntax_node_new SkBinaryExpression (NodeElement left # [TokenElement t] @ [NodeElement right]) fallback, s2\<lparr>pa_diagnostics := d\<rparr>)"
    by (simp only: binary_step_def t(1) x(1) d bind.bind_lunit prod.case list.sel element_span_def syntax_element.case)
  moreover have "consumes s ([TokenElement t] @ [NodeElement right]) (s2\<lparr>pa_diagnostics := d\<rparr>)"
    using consumes_trans [OF consumes_trans [OF t(2) x(2)] consumes_Nil(1)] by simp
  ultimately show ?thesis unfolding grows_node_def by fastforce
qed

lemma grows_then:
  assumes a: "grows_node a k s left" and s: "ready_for call r b s"
    and c: "\<And>e xs s'. a s = Some (e, s') \<Longrightarrow> consumes s xs s' \<Longrightarrow> (k \<longrightarrow> tokens_of xs \<noteq> []) \<Longrightarrow> ready_for call r b s' \<Longrightarrow>
      grows_node (f e) False s' e"
    and g: "\<And>e s'. a s = Some (e, s') \<Longrightarrow> g s = f e s'"
  shows "grows_node g False s left"
proof -
  obtain e xs s1 where x: "a s = Some (e, s1)" "consumes s xs s1" "node_tokens e = node_tokens left @ tokens_of xs"
    "k \<longrightarrow> tokens_of xs \<noteq> []" using a by (auto simp: grows_node_def)
  obtain e' ys s2 where y: "f e s1 = Some (e', s2)" "consumes s1 ys s2" "node_tokens e' = node_tokens e @ tokens_of ys"
    using c [OF x(1,2,4) ready_later [OF s x(2)]] by (auto simp: grows_node_def)
  have "g s = Some (e', s2)" using g [OF x(1)] y(1) by simp
  moreover have "node_tokens e' = node_tokens left @ tokens_of (xs @ ys)" using x(3) y(3) by simp
  ultimately show ?thesis using consumes_trans [OF x(2) y(2)] unfolding grows_node_def by blast
qed

lemma grows_stop: "a s = Some (left, s) \<Longrightarrow> grows_node a False s left"
  unfolding grows_node_def using consumes_Nil(2) [of s] by fastforce

lemma expression_from_grows:
  "ready_for call r b s \<Longrightarrow> length (rest s) < n \<Longrightarrow> grows_node (expression_from n call minimum fallback left) False s left"
proof (induction n arbitrary: s left)
  case (Suc n)
  have step: "length (rest s') < n" if "consumes s xs s'" "tokens_of xs \<noteq> []" for xs s'
    using consumes_length [OF that(1)] that(2) Suc.prems(2) by (cases "tokens_of xs") auto
  show ?case
  proof (rule postfix_cases [OF Suc.prems(1), of left])
    fix e xs s'
    assume p: "parse_postfix call left s = Some (Some e, s')" "consumes s xs s'" "tokens_of xs \<noteq> []"
      "node_tokens e = node_tokens left @ tokens_of xs"
    have "grows_node (\<lambda>s. map_option (\<lambda>(e, s). (the e, s)) (parse_postfix call left s)) True s left"
      using p by (auto simp: grows_node_def)
    then show ?thesis
      by (rule grows_then [OF _ Suc.prems(1), where f = "expression_from n call minimum fallback"])
        (use p in \<open>auto intro: Suc.IH step\<close>)
  next
    assume p: "parse_postfix call left s = Some (None, s)"
    show ?thesis
    proof (cases "at_keyword KwAs s")
      case True
      show ?thesis
      proof (cases "12 < minimum")
        case low: False
        show ?thesis
          by (rule grows_then [OF cast_grows [OF Suc.prems(1) True, of fallback left] Suc.prems(1), where
              f = "expression_from n call minimum fallback"])
            (use p True low in \<open>auto intro: Suc.IH step\<close>)
      qed (use p True in \<open>auto intro: grows_stop\<close>)
    next
      case False
      show ?thesis
      proof (cases "binary_binding_power s")
        case None
        with p False show ?thesis by (auto intro: grows_stop)
      next
        case (Some bp)
        then obtain lb rb cmp where bp: "binary_binding_power s = Some (lb, rb, cmp)" by (cases bp) auto
        show ?thesis
        proof (cases "lb < minimum")
          case high: False
          show ?thesis
            by (rule grows_then [OF binary_grows [OF Suc.prems(1) binding_power_inside [OF bp], of fallback left rb cmp] Suc.prems(1), where
                f = "expression_from n call minimum fallback"])
              (use p False bp high in \<open>auto intro: Suc.IH step\<close>)
        qed (use p False bp in \<open>auto intro: grows_stop\<close>)
      qed
    qed
  qed
qed simp

lemma expression_good: "good_node call r b False P (parse_expression_bp call minimum)"
  unfolding delivers_def
proof (intro allI impI)
  fix s assume s: "ready_for call r b s"
  obtain sp where sp: "current_span s = Some sp" using ready_span [OF s] by blast
  obtain left s1 where l: "parse_prefix_expression call s = Some (left, s1)" "consumes s [NodeElement left] s1"
    using deliversD [OF prefix_good s, where P = "\<lambda>s. True"] by (auto simp: node_result_def)
  have "grows_node (expression_from (loop_bound s1) call minimum sp left) False s1 left"
    by (rule expression_from_grows [OF ready_later [OF s l(2)]]) (simp add: loop_bound_rest)
  then obtain e xs s2 where e: "expression_from (loop_bound s1) call minimum sp left s1 = Some (e, s2)" "consumes s1 xs s2"
    "node_tokens e = node_tokens left @ tokens_of xs" by (auto simp: grows_node_def)
  have "consumes s [NodeElement e] s2" by (rule consumes_same [OF consumes_trans [OF l(2) e(2)]]) (simp add: e(3))
  then show "returns node_result False (parse_expression_bp call minimum) s"
    using sp l(1) e(1) by (auto simp: parse_expression_bp_def node_result_def intro!: returnsI)
qed

end
