(* ===== verification/Parser_Statements.thy ===== *)
theory Parser_Statements
  imports Parser_Symbols
begin

text \<open>The productions of statements keep the contract of the parser.\<close>

section \<open>Statements\<close>

lemma delivers_node_then:
  assumes a: "good_node call r b False P a" and c: "\<And>e. good call r b False (\<lambda>s. True) (c e)"
    and f: "\<And>s e s1 xs s2. a s = Some (e, s1) \<Longrightarrow> c e s1 = Some (xs, s2) \<Longrightarrow> f s = Some (NodeElement e # xs, s2)"
  shows "good call r b False P f"
  unfolding delivers_def
proof (intro allI impI)
  fix s assume s: "ready_for call r b s" "P s"
  obtain e s1 where e: "a s = Some (e, s1)" "consumes s [NodeElement e] s1"
    using deliversD [OF a s] by (auto simp: node_result_def)
  obtain xs s2 where x: "c e s1 = Some (xs, s2)" "consumes s1 xs s2" using goodD [OF c ready_later [OF s(1) e(2)]] by blast
  show "returns (=) False f s" using f [OF e(1) x(1)] consumes_trans [OF e(2) x(2)] by (auto simp: returns_def)
qed

lemma line_end_after_good [contracts]: "good call r b False P (line_end_after e)"
  unfolding line_end_after_def by (intro contracts)

lemma expression_call_good: "1 \<le> r \<Longrightarrow> good_node call r b False P (call (NtExpression 0))"
  by (intro contracts) auto

lemma expression_to_line_end_good [contracts]:
  assumes "1 \<le> r"
  shows "good call r b False P (expression_to_line_end call)"
  by (rule delivers_node_then [where c = line_end_after, OF expression_call_good [OF assms] line_end_after_good]) (simp add: expression_to_line_end_def)

lemma deferred_end_good [contracts]: "good call r b False P (deferred_end e)"
  unfolding deferred_end_def by (intro contracts)

lemma deferred_call_good [contracts]:
  assumes "1 \<le> r"
  shows "good call r b False P (deferred_call call)"
  by (rule delivers_node_then [where c = deferred_end, OF expression_call_good [OF assms] deferred_end_good]) (simp add: deferred_call_def)

text \<open>A match arm moves: its body does where its pattern did not.\<close>

lemma match_arm_moves: "good_node call 3 b True at_member (parse_match_arm call)"
proof -
  let ?guard = "when_at (at_keyword KwIf) (child (as_node SkGuard (steps [bump, expression_child call])))"
  have g: "good call 3 b False (\<lambda>s. True) (steps [pattern_child call, ?guard])" by (intro contracts) (auto simp: looks)
  have "returns (=) True (steps [pattern_child call, ?guard, parse_statement_block call]) s"
    if s: "ready_for call 3 b s" "at_member s" for s
  proof -
    obtain xs s1 where x: "steps [pattern_child call, ?guard] s = Some (xs, s1)" "consumes s xs s1" using goodD [OF g s(1)] by blast
    have r1: "ready_for call 3 b s1" by (rule ready_later [OF s(1) x(2)])
    have "\<exists>ys s2. parse_statement_block call s1 = Some (ys, s2) \<and> consumes s1 ys s2 \<and> tokens_of (xs @ ys) \<noteq> []"
    proof (cases "tokens_of xs = []")
      case True
      have "\<not> at_eof s1 \<and> \<not> at_simple Dedent s1"
        using s(2) consumes_stays [OF x(2) True] by (metis at_member_def inside_eof tests_diagnostics(1,3))
      with goodD [OF statement_block_moves r1] show ?thesis by fastforce
    next
      case False
      with goodD [OF statement_block_good r1, where P = "\<lambda>s. True"] show ?thesis by fastforce
    qed
    then obtain ys s2 where "parse_statement_block call s1 = Some (ys, s2)" "consumes s1 ys s2" "tokens_of (xs @ ys) \<noteq> []" by blast
    moreover from this have "steps [pattern_child call, ?guard, parse_statement_block call] s = Some (xs @ ys, s2)"
      using x(1) by (auto simp: bind_eq_Some_conv)
    ultimately show ?thesis using consumes_trans [OF x(2)] by (auto simp: returns_def simp del: steps.simps)
  qed
  then have "good call 3 b True at_member (steps [pattern_child call, ?guard, parse_statement_block call])" by (simp add: delivers_def)
  then show ?thesis unfolding parse_match_arm_def by (rule delivers_as_node) simp
qed

lemma match_good [contracts]: "(\<And>s. P s \<Longrightarrow> inside s) \<Longrightarrow> good_node call r b k P (parse_match call)"
  unfolding parse_match_def by (intro contracts match_arm_moves) auto

lemma assignment_good:
  assumes "1 \<le> r"
  shows "good_kinded call r b False P (assignment_or_expression call)"
  unfolding delivers_def
proof (intro allI impI)
  fix s assume s: "ready_for call r b s" "P s"
  obtain e s1 where e: "call (NtExpression 0) s = Some (e, s1)" "consumes s [NodeElement e] s1"
    using deliversD [where P = P, OF expression_call_good [OF assms] s] by (auto simp: node_result_def)
  have "good_kinded call r b False (\<lambda>s. True) (branch at_assignment_operator
       (kinded SkAssignmentStatement (steps [bump, expression_to_line_end call]))
       (kinded SkExpressionStatement (line_end_after e)))" by (intro contracts) (auto simp: looks)
  from deliversD [OF this ready_later [OF s(1) e(2)]] obtain k xs s2 where x: "branch at_assignment_operator
       (kinded SkAssignmentStatement (steps [bump, expression_to_line_end call]))
       (kinded SkExpressionStatement (line_end_after e)) s1 = Some ((k, xs), s2)" "k \<noteq> SkFormattedStringExpression" "consumes s1 xs s2"
    by (auto simp: kinded_result_def)
  have "assignment_or_expression call s = Some ((k, NodeElement e # xs), s2)"
    by (simp only: assignment_or_expression_def e(1) x(1) bind.bind_lunit prod.case)
  then show "returns kinded_result False (assignment_or_expression call) s"
    by (rule returnsI [OF _ _ consumes_trans [OF e(2) x(3)]]) (simp_all add: kinded_result_def x(2))
qed

lemma let_good [contracts]: "(\<And>s. P s \<Longrightarrow> inside s) \<Longrightarrow> good_node call r b k P (parse_let call)"
  unfolding parse_let_def by (intro contracts) (auto simp: looks)

lemma return_good [contracts]: "(\<And>s. P s \<Longrightarrow> inside s) \<Longrightarrow> good_node call r b k P (parse_return call)"
  unfolding parse_return_def by (intro contracts) auto

lemma simple_statement_good [contracts]:
  "(\<And>s. P s \<Longrightarrow> inside s) \<Longrightarrow> kd \<noteq> SkFormattedStringExpression \<Longrightarrow> good_node call r b k P (parse_simple_statement kd)"
  unfolding parse_simple_statement_def by (intro contracts) auto

lemma defer_good [contracts]: "(\<And>s. P s \<Longrightarrow> inside s) \<Longrightarrow> good_node call r b k P (parse_defer call)"
  unfolding parse_defer_def by (intro contracts) auto

lemma expect_statement_good [contracts]: "(\<And>s. P s \<Longrightarrow> inside s) \<Longrightarrow> good_node call r b k P (parse_expect call)"
  unfolding parse_expect_def by (intro contracts) auto

lemma if_good [contracts]: "(\<And>s. P s \<Longrightarrow> inside s) \<Longrightarrow> good_node call r b k P (parse_if call)"
  unfolding parse_if_def by (intro contracts) (auto simp: looks)

lemma for_good [contracts]: "(\<And>s. P s \<Longrightarrow> inside s) \<Longrightarrow> good_node call r b k P (parse_for call)"
  unfolding parse_for_def by (intro contracts) auto

lemma while_good [contracts]: "(\<And>s. P s \<Longrightarrow> inside s) \<Longrightarrow> good_node call r b k P (parse_while call)"
  unfolding parse_while_def by (intro contracts) auto

lemma unsafe_block_good [contracts]: "(\<And>s. P s \<Longrightarrow> inside s) \<Longrightarrow> good_node call r b k P (parse_unsafe_block call)"
  unfolding parse_unsafe_block_def by (intro contracts) auto

lemma statement_good: "1 \<le> r \<Longrightarrow> good_node call r b False P (parse_statement call)"
  unfolding parse_statement_def parse_expression_or_assignment_statement_def
  by (intro contracts assignment_good) (auto simp: looks)

end
