(* ===== verification/Parser_Declarations.thy ===== *)
theory Parser_Declarations
  imports Parser_Statements
begin

text \<open>The productions of declarations keep the contract of the parser, and so does every production.\<close>

section \<open>Parts of declarations\<close>

lemma generics_good [contracts]: "2 \<le> r \<Longrightarrow> good call r b False P (generics call)"
  unfolding generics_def parse_generic_parameters_def generic_parameter_def by (intro contracts) (auto simp: looks)

lemma derives_good [contracts]: "good call r b False P derives"
  unfolding derives_def parse_derive_list_def by (intro contracts) (auto simp: looks)

lemma function_good [contracts]: "2 \<le> r \<Longrightarrow> good_node call r b False P (parse_function call body)"
  unfolding parse_function_def by (cases body) (simp_all only: function_body.case, (intro contracts; auto simp: looks)+)

lemma field_good [contracts]: "2 \<le> r \<Longrightarrow> good_node call r b False P (parse_field call)"
  unfolding parse_field_def by (intro contracts) auto

lemma inline_field_good [contracts]: "2 \<le> r \<Longrightarrow> good_node call r b False P (parse_inline_field call)"
  unfolding parse_inline_field_def by (intro contracts) auto

lemma variant_good [contracts]: "2 \<le> r \<Longrightarrow> good_node call r b False P (parse_enum_variant call)"
  unfolding parse_enum_variant_def by (intro contracts) (auto simp: looks)

section \<open>Members\<close>

definition member_rank :: "member_context \<Rightarrow> nat" where
  "member_rank ctx = (if ctx = ContextModule then 3 else 2)"

lemma context_member_good [contracts]:
  "member_rank ctx \<le> r \<Longrightarrow> (ctx = ContextModule \<Longrightarrow> b) \<Longrightarrow> good_node call r b False P (context_member call ctx)"
  by (cases ctx) (simp_all add: context_member_def member_rank_def, (intro contracts; simp)+)

lemma misplaced_good [contracts]: "good call r b False P (misplaced_member ctx)"
  by (cases ctx) (simp_all add: misplaced_member_def, (intro contracts)+)

lemma block_member_good [contracts]:
  assumes "member_rank ctx \<le> r" "ctx = ContextModule \<Longrightarrow> b"
  shows "good call r b False P (block_member call ctx)"
  unfolding block_member_def by (intro contracts assms) (auto simp: looks)

lemma item_block_good [contracts]:
  assumes "member_rank ctx \<le> r" "ctx = ContextModule \<Longrightarrow> b"
  shows "good call r b False P (parse_item_block call ctx)"
  unfolding parse_item_block_def by (intro contracts assms) (auto simp: at_member_def)

section \<open>Declarations\<close>

lemma use_good [contracts]: "good_node call r b False P parse_use"
  unfolding parse_use_def by (intro contracts) (auto simp: looks)

lemma compile_time_good [contracts]: "2 \<le> r \<Longrightarrow> good_node call r b False P (parse_compile_time_declaration call decl)"
  unfolding parse_compile_time_declaration_def
  by (cases decl) (intro contracts; simp add: declaration_syntax_kind_def)+

lemma type_alias_good [contracts]: "2 \<le> r \<Longrightarrow> good_node call r b False P (parse_type_alias call)"
  unfolding parse_type_alias_def type_alias_children_def by (intro contracts) (auto simp: looks)

lemma member_rank_simps [simp]:
  "member_rank ContextModule = 3" "member_rank ContextStruct = 2" "member_rank ContextEnum = 2" "member_rank ContextTrait = 2"
  "member_rank ContextTraitImpl = 2" "member_rank ContextInherentImpl = 2" "member_rank ContextForeignStruct = 2"
  by (simp_all add: member_rank_def)

lemma struct_good [contracts]: "2 \<le> r \<Longrightarrow> good_node call r b False P (parse_struct call foreign)"
  unfolding parse_struct_def by (cases foreign) (simp_all only: if_True if_False, (intro contracts; simp)+)

lemma enum_good [contracts]: "2 \<le> r \<Longrightarrow> good_node call r b False P (parse_enum call)"
  unfolding parse_enum_def by (intro contracts) auto

lemma trait_good [contracts]: "2 \<le> r \<Longrightarrow> good_node call r b False P (parse_trait call)"
  unfolding parse_trait_def by (intro contracts) auto

lemma impl_good [contracts]: "2 \<le> r \<Longrightarrow> good_node call r b False P (parse_impl call)"
  unfolding parse_impl_def by (intro contracts) (auto simp: looks)

lemma test_good [contracts]: "2 \<le> r \<Longrightarrow> good_node call r b False P (parse_test call)"
  unfolding parse_test_def by (intro contracts) auto

lemma unknown_good: "good_node call r b False P (as_node SkError (steps [take_docs, error_here msg, recover_line]))"
  by (intro contracts) auto

end
