(* ===== verification/Parser_Total.thy ===== *)
theory Parser_Total
  imports Parser_Declarations
begin

text \<open>
  Modules, items and the recursion between the productions: with enough fuel every production returns,
  and pushes the tokens it passes.
\<close>

section \<open>Modules\<close>

text \<open>What a module without a misplaced modifier begins with\<close>

definition module_start :: "parser \<Rightarrow> bool" where
  "module_start s \<longleftrightarrow> at_doc_comment s \<or> at_simple At s \<or> at_keyword KwPub s \<or> at_keyword KwMod s \<or> at_simple Newline s"

lemma kinds_ahead_rest: "kinds_ahead s = map token_kind (rest s)"
  by (simp add: kinds_ahead_def rest_def)

lemma current_kind_ahead: "current_kind s = vget (kinds_ahead s) 0"
  by (cases "rest s") (simp_all add: current_kind_def current_rest kinds_ahead_rest vget_def)

lemma first_is_Cons [simp]: "first_is k (j # js) \<longleftrightarrow> j = k" "\<not> first_is k []"
  by (auto simp: first_is_def vget_def)

lemma skip_none: "\<not> first_is At ks \<Longrightarrow> skip_attributes ks = ks"
  by (subst skip_attributes.simps) simp

lemma head_module: "head_of k = HeadModule \<Longrightarrow> k = Some (Keyword KwMod)"
  by (auto simp: head_of_def split: option.splits token_kind.splits keyword.splits)

lemma module_after: "vget (dropWhile is_modifier ks) 0 = Some (Keyword KwMod) \<Longrightarrow> module_after_modifiers ks"
  by (induction ks) (auto simp: vget_def split: if_splits)

lemma module_starts:
  assumes "classify_item s = HeadModule" "unblocked s"
  shows "module_start s"
proof (cases "kinds_ahead s")
  case Nil
  then show ?thesis using assms(1) by (simp add: classify_item_def Let_def skip_none vget_def head_of_def)
next
  case (Cons k ks)
  have k: "current_kind s = Some k" using Cons by (simp add: current_kind_ahead vget_def)
  show ?thesis
  proof (cases "is_doc_or_newline k \<or> k = At")
    case True
    then show ?thesis using k by (auto simp: module_start_def looks is_doc_or_newline_def split: token_kind.splits)
  next
    case False
    then have m: "vget (dropWhile is_modifier (k # ks)) 0 = Some (Keyword KwMod)"
      using assms(1) Cons by (auto simp: classify_item_def Let_def skip_none dest: head_module)
    have "\<not> (k = Keyword KwUnsafe \<and> module_after_modifiers ks)"
      using assms(2) Cons by (auto simp: unblocked_def kinds_ahead_rest)
    with m module_after [of ks] have "k = Keyword KwPub \<or> k = Keyword KwMod"
      by (auto simp: is_modifier_def vget_def split: if_splits)
    then show ?thesis using k by (auto simp: module_start_def looks)
  qed
qed

text \<open>From each of them, the module moves before it reads an item.\<close>

lemma stays_steps:
  assumes "stays P a" "stable P" "stays P (steps as)"
  shows "stays P (steps (a # as))"
  unfolding stays_def
proof (intro allI impI)
  fix s assume s: "P s" "pa_tokens s \<noteq> []"
  obtain d where d: "a s = Some ([], s\<lparr>pa_diagnostics := d\<rparr>)" using assms(1) s by (auto simp: stays_def)
  have "P (s\<lparr>pa_diagnostics := d\<rparr>)" using assms(2) s(1) by (simp add: stable_def)
  then obtain e where "steps as (s\<lparr>pa_diagnostics := d\<rparr>) = Some ([], s\<lparr>pa_diagnostics := e\<rparr>)"
    using assms(3) s(2) by (fastforce simp: stays_def)
  with d show "\<exists>d. steps (a # as) s = Some ([], s\<lparr>pa_diagnostics := d\<rparr>)" by auto
qed

lemma stays_steps_Nil: "stays P (steps [])"
  using stays_nothing [of P] by (simp add: stays_def nothing_def)

lemma stays_while: "(\<And>s. P s \<Longrightarrow> \<not> p s) \<Longrightarrow> stays P (while_at p body)"
  using stays_nothing [of P] by (auto simp: stays_def nothing_def while_at_def loop_bound_def)

lemma stays_prefix: "(\<And>s. P s \<Longrightarrow> \<not> at_doc_comment s \<and> \<not> at_simple At s) \<Longrightarrow> stable P \<Longrightarrow> stays P take_item_prefix"
  unfolding take_item_prefix_def take_docs_def by (intro stays_steps stays_when stays_while stays_steps_Nil) auto

lemma stays_expect: "(\<And>s. P s \<Longrightarrow> \<not> p s) \<Longrightarrow> stays P (branch p a (error_here msg))"
  by (rule stays_branch) (auto simp: stays_def error_here_def push_syntax_error_def current_span_def vlast_def split: option.splits)

lemma while_moves:
  assumes m: "good call r b True p body"
  shows "good call r b True p (while_at p body)"
  unfolding delivers_def
proof (intro allI impI)
  fix s assume s: "ready_for call r b s" "p s"
  obtain xs s1 where x: "body s = Some (xs, s1)" "consumes s xs s1" "tokens_of xs \<noteq> []" using goodD [OF m s] by blast
  have l: "length (rest s1) < loop_bound s - 1"
    using consumes_length [OF x(2)] x(3) by (cases "tokens_of xs") (auto simp: loop_bound_rest)
  obtain ys s2 where "repeat_from (loop_bound s - 1) p body s1 = Some (ys, s2)" "consumes s1 ys s2"
    using repeat_returns [OF m ready_later [OF s(1) x(2)] l] by (auto simp: returns_def)
  with x s(2) consumes_trans [OF x(2)] show "returns (=) True (while_at p body) s"
    by (auto simp: while_at_def loop_bound_def intro!: goodI)
qed

lemma when_moves: "good call r b True p a \<Longrightarrow> good call r b True p (when_at p a)"
  by (auto simp: delivers_def when_at_def branch_def returns_def)

lemma good_cases: "good_node call r b k P a \<Longrightarrow> good_node call r b k Q a \<Longrightarrow> good_node call r b k (\<lambda>s. P s \<or> Q s) a"
  by (auto simp: delivers_def)

lemma stable_kinds: "stable at_doc_comment"
  by (simp add: stable_def)

lemma stays_docs: "stays (at_simple At) take_docs"
  unfolding take_docs_def by (rule stays_when) (auto simp: looks)

lemma item_prefix_moves:
  "good call r b True at_doc_comment take_item_prefix" "good call r b True (at_simple At) take_item_prefix"
proof -
  have "good call r b True at_doc_comment take_docs" unfolding take_docs_def
    by (intro when_moves delivers_child delivers_as_node while_moves contracts) (auto simp: looks)
  then show "good call r b True at_doc_comment take_item_prefix" unfolding take_item_prefix_def
    by (rule delivers_steps_moved) (intro contracts delivers_steps_moved [OF delivers_child [OF attribute_good]]; auto simp: looks)
  have "good call r b True (at_simple At) (while_at (at_simple At) (steps [child parse_attribute, eat_simple Newline]))"
    by (intro while_moves contracts delivers_steps_moved [OF delivers_child [OF attribute_good]]) (auto simp: looks)
  then show "good call r b True (at_simple At) take_item_prefix" unfolding take_item_prefix_def
    by (intro delivers_steps_stays stays_docs stable_tests delivers_steps_moved [where as = "[]"] delivers_steps_Nil)
qed

lemma module_block_good: "good call 3 True False P (parse_item_block call ContextModule)"
  by (intro contracts) auto

lemma module_block_moves: "good call r True True (at_simple Newline) (parse_item_block call ContextModule)"
proof -
  have c: "stays (at_simple Newline) (expect_simple Colon msg)" for msg
    unfolding expect_simple_def by (rule stays_expect) (auto simp: looks)
  have g: "good call 3 True False (\<lambda>s. True) (steps [expect_simple Indent msg])" for msg by (intro contracts) simp
  have s: "good call r True True (at_simple Newline) expect_block_start" unfolding expect_block_start_def
    by (rule delivers_steps_stays [OF c stable_tests(2) delivers_steps_moved [OF expect_moves(1) g]]) simp_all
  show ?thesis unfolding parse_item_block_def block_def
    by (intro delivers_child delivers_as_node delivers_steps_moved [OF s] contracts block_member_good) (auto simp: at_member_def)
qed

lemma module_good:
  "good_node call 2 True True module_start (parse_module call)"
proof -
  have tail: "good call 3 True False (\<lambda>s. True) (steps [expect_identifier ''expected module name'', parse_item_block call ContextModule])"
    "good call 3 True False (\<lambda>s. True) (steps [expect_keyword KwMod ''expected `mod`'',
       expect_identifier ''expected module name'', parse_item_block call ContextModule])"
    "good call 3 True False (\<lambda>s. True) (steps [eat_keyword KwPub, expect_keyword KwMod ''expected `mod`'',
       expect_identifier ''expected module name'', parse_item_block call ContextModule])"
    by (intro contracts; simp)+
  have pre: "stays P take_item_prefix" if "P \<in> {at_keyword KwPub, at_keyword KwMod, at_simple Newline}" for P
    by (rule stays_prefix) (use that in \<open>auto simp: looks\<close>)
  have pub: "stays P (eat_keyword KwPub)" if "P \<in> {at_keyword KwMod, at_simple Newline}" for P
    unfolding eat_keyword_def by (rule stays_when) (use that in \<open>auto simp: looks\<close>)
  have line: "stays (at_simple Newline) (expect_keyword w msg)" "stays (at_simple Newline) (expect_identifier msg)" for w msg
    unfolding expect_keyword_def expect_identifier_def by (rule stays_expect; auto simp: looks)+
  have mod: "good call 2 True True (at_keyword KwPub) (eat_keyword KwPub)" "good call 2 True True (at_keyword KwMod) (expect_keyword KwMod msg)" for msg
    by (auto simp: eat_keyword_def when_at_def looks intro!: branch_moves expect_moves(2))
  show ?thesis unfolding module_start_def parse_module_def
    by (intro good_cases delivers_as_node)
      (auto intro!: delivers_steps_moved [OF item_prefix_moves(1)] delivers_steps_moved [OF item_prefix_moves(2)] tail
         delivers_steps_stays pre pub line delivers_steps_moved [OF mod(1)] delivers_steps_moved [OF mod(2)]
         delivers_steps_moved [OF module_block_moves] delivers_steps_Nil)
qed

section \<open>Items\<close>

lemma invocation_good: "good_node call r b False inside (macro_invocation call)"
  unfolding delivers_def
proof (intro allI impI)
  fix s assume s: "ready_for call r b s" "inside s"
  obtain n xs s1 where n: "parse_macro_expression call s = Some (n, s1)" "consumes s [NodeElement n] s1"
    using deliversD [where P = inside and k = False, OF macro_expression_good s] by (auto simp: node_result_def)
  obtain sp cs where k: "n = SyntaxNode SkMacroExpression sp cs"
    using n(1) by (auto simp: parse_macro_expression_def as_node_def syntax_node_new_def bind_eq_Some_conv)
  have g: "good call r b False (\<lambda>s. True) expect_line_end" by (rule expect_line_end_good)
  obtain ys s2 where y: "expect_line_end s1 = Some (ys, s2)" "consumes s1 ys s2" using goodD [OF g ready_later [OF s(1) n(2)]] by blast
  let ?e = "syntax_node_new SkMacroExpression (node_children n @ ys) (node_span n)"
  have "tokens_of [NodeElement n] = tokens_of cs" by (simp add: k tokens_of_def)
  then have "consumes s [NodeElement ?e] s2"
    by (intro consumes_same [OF consumes_trans [OF n(2) y(2)]]) (simp add: k)
  then show "returns node_result False (macro_invocation call) s"
    using n(1) y(1) by (auto simp: macro_invocation_def node_result_def intro!: returnsI)
qed

lemma head_unknown: "head_of None = HeadUnknown" "head_of (Some Eof) = HeadUnknown"
  by (simp_all add: head_of_def)

lemma classify_end:
  "kinds_ahead s = [] \<Longrightarrow> classify_item s = HeadUnknown"
  "kinds_ahead s = Eof # ks \<Longrightarrow> classify_item s = HeadUnknown"
  by (simp_all add: classify_item_def Let_def is_doc_or_newline_def is_modifier_def skip_none vget_def head_unknown)

lemma invocation_starts:
  assumes "classify_item s = HeadMacroInvocation"
  shows "inside s"
proof (rule ccontr)
  assume "\<not> inside s"
  then have "kinds_ahead s = [] \<or> (\<exists>ks. kinds_ahead s = Eof # ks)"
    by (cases "kinds_ahead s") (auto simp: inside_iff current_kind_ahead vget_def)
  then show False using assms by (auto simp: classify_end)
qed

lemma returns_eq: "a s = c s \<Longrightarrow> returns R k c s \<Longrightarrow> returns R k a s"
  by (simp add: returns_def)

lemma item_good: "good_node call 2 True False (\<lambda>s. True) (parse_item call)"
  unfolding delivers_def
proof (intro allI impI)
  fix s assume s: "ready_for call 2 True s"
  have g: "returns node_result False a s" if "good_node call 2 True False P a" "P s" for a P
    using s that by (simp add: delivers_def)
  show "returns node_result False (parse_item call) s"
  proof (cases "classify_item s")
    case HeadModule
    have "returns node_result True (parse_module call) s"
      using module_good module_starts [OF HeadModule ready_forD(2) [OF s TrueI]] s by (simp add: delivers_def)
    with HeadModule show ?thesis by (intro returns_eq [of "parse_item call"]) (auto simp: parse_item_def elim: returns_mono)
  next
    case HeadMacroInvocation
    then show ?thesis using g [OF invocation_good invocation_starts]
      by (intro returns_eq [of "parse_item call"]) (auto simp: parse_item_def)
  qed (rule returns_eq [of "parse_item call"], simp add: parse_item_def,
       intro g [where P = "\<lambda>s. True"] use_good compile_time_good type_alias_good struct_good enum_good trait_good impl_good
         function_good test_good unknown_good, simp_all)+
qed

section \<open>Every production returns\<close>

lemma production_returns:
  assumes "ready_for call (grammar_rank symbol) (symbol = NtItem) s" "allowed symbol s"
  shows "returns node_result False (production call symbol) s"
proof -
  have "good_node call (grammar_rank symbol) (symbol = NtItem) False (allowed symbol) (production call symbol)"
  proof (cases symbol)
    case NtType
    have "good_node call 0 False False (allowed symbol) (parse_type call)" by (rule parse_type_good)
    then show ?thesis by (simp add: delivers_def production_def NtType returns_def)
  next
    case (NtExpression m)
    have "good_node call 0 False False (allowed symbol) (parse_expression_bp call m)" by (rule expression_good)
    then show ?thesis by (simp add: delivers_def production_def NtExpression returns_def)
  next
    case NtPattern
    have "good_node call 1 False False (allowed symbol) (parse_pattern call)" by (rule pattern_good) simp
    then show ?thesis by (simp add: delivers_def production_def NtPattern returns_def)
  next
    case NtPatternAtom
    have "good_node call 0 False False (allowed symbol) (parse_pattern_atom call)" by (rule pattern_atom_good)
    then show ?thesis by (simp add: delivers_def production_def NtPatternAtom returns_def)
  next
    case NtBindingTuple
    have "good_node call 0 False False (at_simple LParen) (parse_binding_tuple_pattern call)" by (rule binding_tuple_good)
    then show ?thesis by (simp add: delivers_def production_def NtBindingTuple returns_def allowed_def)
  next
    case NtStatement
    have "good_node call 1 False False (allowed symbol) (parse_statement call)" by (rule statement_good) simp
    then show ?thesis by (simp add: delivers_def production_def NtStatement returns_def)
  next
    case NtItem
    have "good_node call 2 True False (\<lambda>s. True) (parse_item call)" by (rule item_good)
    then show ?thesis by (simp add: delivers_def production_def NtItem returns_def)
  qed
  then show ?thesis using assms by (simp add: delivers_def)
qed

text \<open>Three levels of the recursion pass at most one token.\<close>

lemma productions_return:
  "allowed symbol s \<Longrightarrow> 3 * load s + grammar_rank symbol < n \<Longrightarrow> returns node_result False (productions_at n symbol) s"
proof (induction n arbitrary: symbol s)
  case (Suc n)
  have below: "grammar_rank symbol' < 3" for symbol' by (rule rank_below)
  have "returns node_result False (productions_at n symbol') s'"
    if "load s' < load s \<or> load s' = load s \<and> grammar_rank symbol' < grammar_rank symbol" "allowed symbol' s'" for symbol' s'
    by (rule Suc.IH [OF that(2)]) (use that(1) Suc.prems(2) below [of symbol'] in linarith)
  then have "ready_for (productions_at n) (grammar_rank symbol) (symbol = NtItem) s"
    using Suc.prems(1) by (auto simp: ready_for_def allowed_def)
  then have "returns node_result False (production (productions_at n) symbol) s" by (rule production_returns) (rule Suc.prems(1))
  then show ?case by (simp add: returns_def)
qed simp

end
