(* ===== verification/Parser_Theorems.thy ===== *)
theory Parser_Theorems
  imports Parser_Total Lexer_Theorems
begin

text \<open>
  The parser as a whole: it returns on every token stream of the lexer without a misplaced \<open>unsafe\<close>, and
  loses no token.
\<close>

section \<open>Files\<close>

lemma while_stops: "while_at p body s = Some (xs, s') \<Longrightarrow> \<not> p s'"
proof -
  have "repeat_from n p body s = Some (xs, s') \<Longrightarrow> \<not> p s'" for n
    by (induction n arbitrary: s xs) (auto simp: bind_eq_Some_conv split: if_splits)
  then show "while_at p body s = Some (xs, s') \<Longrightarrow> \<not> p s'" by (simp add: while_at_def)
qed

lemma item_child_good: "good call 3 True False P (child (call NtItem))"
  by (intro contracts) auto

lemma file_item_moves: "good call 3 True True (\<lambda>s. \<not> at_eof s) (file_item call)"
proof -
  have d: "good call 3 True True (at_simple Dedent) (steps [error_here msg, bump])" for msg
    by (rule delivers_steps_stays [OF stays_error]) (auto intro!: delivers_steps_bump delivers_steps_Nil simp: looks)
  have f: "good call 3 True True (\<lambda>s. \<not> at_eof s) (forced msg (child (call NtItem)))" for msg
    by (rule delivers_forced [OF item_child_good]) (simp add: inside_eof)
  have "good call 3 True False (\<lambda>s. True) (steps [eat_newlines])" by (intro contracts)
  then have i: "good call 3 True True (\<lambda>s. \<not> at_eof s) (steps [forced msg (child (call NtItem)), eat_newlines])" for msg
    by (rule delivers_steps_moved [OF f])
  show ?thesis unfolding file_item_def by (rule delivers_branch) (auto intro: delivers_mono [OF d] delivers_mono [OF i])
qed

lemma file_returns:
  assumes s: "ready_for call 3 True s"
    and t: "rest s = ts @ [t]" "token_kind t = Eof" "\<forall>u\<in>set ts. token_kind u \<noteq> Eof"
  shows "\<exists>n s'. parse_file call s = Some (n, s') \<and> node_kind n = SkFile \<and> node_tokens n = rest s \<and> rest s' = []"
proof -
  obtain sp where sp: "current_span s = Some sp" using ready_span [OF s] by blast
  have "good call 3 True False (\<lambda>s. True) eat_newlines" by (rule eat_newlines_good)
  from goodD [OF this s] obtain xs s1 where x: "eat_newlines s = Some (xs, s1)" "consumes s xs s1" by blast
  have "good call 3 True False (\<lambda>s. True) (while_at (\<lambda>s. \<not> at_eof s) (file_item call))" by (rule delivers_while [OF file_item_moves])
  from goodD [OF this ready_later [OF s x(2)]] obtain ys s2 where
    y: "while_at (\<lambda>s. \<not> at_eof s) (file_item call) s1 = Some (ys, s2)" "consumes s1 ys s2" by blast
  have c: "consumes s (xs @ ys) s2" by (rule consumes_trans [OF x(2) y(2)])
  have e: "at_eof s2" using while_stops [OF y(1)] by simp
  have r: "ts @ [t] = tokens_of (xs @ ys) @ rest s2" "\<forall>u\<in>set (tokens_of (xs @ ys)). token_kind u \<noteq> Eof"
    using c t(1) by (auto simp: consumes_def)
  have split: "tokens_of (xs @ ys) = ts \<and> rest s2 = [t]"
  proof (cases "rest s2" rule: rev_cases)
    case Nil
    with r t(2) show ?thesis by (metis append_Nil2 in_set_conv_decomp)
  next
    case (snoc us u)
    then have ts: "ts = tokens_of (xs @ ys) @ us" "u = t" using r(1) by simp_all
    have "us = []"
    proof (cases us)
      case (Cons v vs)
      then have "current_kind s2 = Some (token_kind v)" by (simp add: current_kind_def current_rest snoc)
      with e have "token_kind v = Eof" by (simp add: at_eof_iff)
      moreover have "v \<in> set ts" using ts Cons by simp
      ultimately show ?thesis using t(3) by blast
    qed
    with ts snoc show ?thesis by simp
  qed
  then have b: "bump s2 = Some ([TokenElement t], s2\<lparr>pa_position := pa_position s2 + 1\<rparr>)"
    by (simp add: bump_def current_rest)
  let ?n = "syntax_node_new SkFile (xs @ ys @ [TokenElement t]) sp"
  have "parse_file call s = Some (?n, s2\<lparr>pa_position := pa_position s2 + 1\<rparr>)"
    by (simp add: parse_file_def as_node_def sp x(1) y(1) when_at_def branch_def e b)
  moreover have "node_tokens ?n = rest s" using split t(1) by simp
  moreover have "rest (s2\<lparr>pa_position := pa_position s2 + 1\<rparr>) = []"
  proof -
    have "rest (s2\<lparr>pa_position := pa_position s2 + 1\<rparr>) = tl (rest s2)" by (simp add: rest_def drop_Suc tl_drop)
    then show ?thesis using split by simp
  qed
  moreover have "node_kind ?n = SkFile" by (simp add: syntax_node_new_def)
  ultimately show ?thesis by blast
qed

text \<open>A new parser is ready for every production, with fuel for three levels at each token and two more.\<close>

definition enough_fuel :: "token list \<Rightarrow> nat" where
  "enough_fuel tokens = 3 * size_list size tokens + 3"

lemma rest_new [simp]: "rest (parser_new tokens r) = tokens"
  by (simp add: rest_def parser_new_def)

lemma load_new [simp]: "load (parser_new tokens r) = size_list size tokens"
  by (simp add: load_def)

lemma ready_new:
  assumes "tokens \<noteq> []" "b \<Longrightarrow> \<not> has_unsafe_module (map token_kind tokens)" "enough_fuel tokens \<le> fuel"
  shows "ready_for (productions_at fuel) 3 b (parser_new tokens r)"
proof -
  have "returns node_result False (productions_at fuel symbol) s"
    if "load s \<le> size_list size tokens" "allowed symbol s" for symbol s
    by (rule productions_return [OF that(2)]) (use that(1) assms(3) rank_below [of symbol] in \<open>simp add: enough_fuel_def\<close>)
  moreover have "pa_tokens (parser_new tokens r) \<noteq> []" using assms(1) by (simp add: parser_new_def)
  ultimately show ?thesis using assms(2) by (simp add: ready_for_def unblocked_def)
qed

lemma file_parsed:
  assumes "tokens = ts @ [t]" "token_kind t = Eof" "\<forall>u\<in>set ts. token_kind u \<noteq> Eof"
    and "\<not> has_unsafe_module (map token_kind tokens)" "enough_fuel tokens \<le> fuel"
  shows "\<exists>out. parse_for_revision fuel tokens r = Some out \<and> node_kind (po_tree out) = SkFile \<and> node_tokens (po_tree out) = tokens"
proof -
  have "ready_for (productions_at fuel) 3 True (parser_new tokens r)" by (rule ready_new) (use assms in auto)
  from file_returns [OF this _ assms(2,3)] assms(1) show ?thesis by (auto simp: parse_for_revision_def output_of_def)
qed

lemma source_parsed:
  assumes "\<not> has_unsafe_module (map token_kind (lo_tokens (lex f src)))" "enough_fuel (lo_tokens (lex f src)) \<le> fuel"
  shows "\<exists>out. parse_for_revision fuel (lo_tokens (lex f src)) r = Some out \<and> node_kind (po_tree out) = SkFile
    \<and> node_tokens (po_tree out) = lo_tokens (lex f src)"
proof -
  obtain ts sp where ts: "lo_tokens (lex f src) = ts @ [Token Eof sp]" "list_all (\<lambda>t. \<not> is_eof (token_kind t)) ts"
    using lex_eof_last by blast
  have "\<forall>u\<in>set ts. token_kind u \<noteq> Eof" using ts(2) by (auto simp: list_all_iff is_eof_def)
  from file_parsed [OF ts(1) _ this assms] show ?thesis by simp
qed

section \<open>Fragments\<close>

lemma bump_diagnostics: "bump s = Some (xs, s') \<Longrightarrow> pa_diagnostics s' = pa_diagnostics s"
  by (auto simp: bump_def bind_eq_Some_conv)

lemma skip_diagnostics: "while_at p bump s = Some (xs, s') \<Longrightarrow> pa_diagnostics s' = pa_diagnostics s"
proof -
  have "repeat_from n p bump s = Some (xs, s') \<Longrightarrow> pa_diagnostics s' = pa_diagnostics s" for n
    by (induction n arbitrary: s xs) (fastforce simp: bind_eq_Some_conv dest: bump_diagnostics split: if_splits)+
  then show "while_at p bump s = Some (xs, s') \<Longrightarrow> pa_diagnostics s' = pa_diagnostics s" by (simp add: while_at_def)
qed

lemma reject_rest_good: "good call r b False P (reject_rest msg)"
  unfolding reject_rest_def by (intro contracts) (auto simp: looks)

lemma reject_rest_reports:
  assumes "reject_rest msg s = Some (xs, s')" "\<not> at_eof s"
  shows "pa_diagnostics s' \<noteq> []"
  using assms by (auto simp: reject_rest_def when_at_def branch_def error_here_def push_syntax_error_def bind_eq_Some_conv dest!: skip_diagnostics)

lemma fragment_call:
  "symbol \<noteq> NtBindingTuple \<Longrightarrow> (symbol = NtItem \<Longrightarrow> b) \<Longrightarrow> good_node call 3 b False P (call symbol)"
  by (rule delivers_call [OF rank_below]) simp_all

lemma consumed_before_end:
  assumes "consumes s xs s'" "at_eof s'"
  shows "takeWhile (\<lambda>t. token_kind t \<noteq> Eof) (rest s) = tokens_of xs"
proof -
  have "takeWhile (\<lambda>t. token_kind t \<noteq> Eof) (rest s') = []"
    using assms(2) by (cases "rest s'") (auto simp: at_eof_iff current_kind_def current_rest)
  then show ?thesis using assms(1) by (simp add: consumes_def takeWhile_append)
qed

lemma fragment_parsed:
  assumes "tokens \<noteq> []" "k = FragmentItem \<longrightarrow> \<not> has_unsafe_module (map token_kind tokens)" "enough_fuel tokens \<le> fuel"
  shows "\<exists>out. parse_fragment_for_revision fuel tokens k r = Some out
    \<and> (po_diagnostics out = [] \<longrightarrow> node_tokens (po_tree out) = takeWhile (\<lambda>t. token_kind t \<noteq> Eof) tokens)"
proof -
  let ?s = "parser_new tokens r" and ?b = "k = FragmentItem" and ?call = "productions_at fuel"
  let ?msg = "''unexpected trailing tokens after complete '' @ fragment_description k @ '' fragment''"
  have s: "ready_for ?call 3 ?b ?s" by (rule ready_new) (use assms in auto)
  have "good_node ?call 3 ?b False (\<lambda>s. True) (?call (fragment_symbol k))"
    by (rule fragment_call) (auto simp: fragment_symbol_def split: fragment_kind.splits)
  from deliversD [OF this s] obtain n s1 where n: "?call (fragment_symbol k) ?s = Some (n, s1)" "consumes ?s [NodeElement n] s1"
    by (auto simp: node_result_def)
  have "good ?call 3 ?b False (\<lambda>s. True) (reject_rest ?msg)" by (rule reject_rest_good)
  from goodD [OF this ready_later [OF s n(2)]] obtain xs s2 where x: "reject_rest ?msg s1 = Some (xs, s2)" by blast
  have "node_tokens n = takeWhile (\<lambda>t. token_kind t \<noteq> Eof) tokens" if "pa_diagnostics s2 = []"
  proof -
    have "at_eof s1" using reject_rest_reports [OF x] that by blast
    from consumed_before_end [OF n(2) this] show ?thesis by simp
  qed
  moreover have "parse_fragment_for_revision fuel tokens k r = Some \<lparr>po_tree = n, po_diagnostics = pa_diagnostics s2\<rparr>"
    by (simp only: parse_fragment_for_revision_def parse_complete_fragment_def output_of_def n(1) x bind.bind_lunit prod.case
        option.map)
  ultimately show ?thesis by auto
qed

section \<open>Modules marked unsafe\<close>

lemma modifiers [simp]: "is_modifier (Keyword KwUnsafe)" "\<not> is_modifier (Keyword KwMod)"
  by (simp_all add: is_modifier_def)

lemma module_head_after: "module_after_modifiers ks \<Longrightarrow> \<exists>js. dropWhile is_modifier ks = Keyword KwMod # js"
  by (induction ks) auto

lemma unsafe_module_head:
  assumes "kinds_ahead s = Keyword KwUnsafe # ks" "module_after_modifiers ks"
  shows "classify_item s = HeadModule"
proof -
  obtain js where "dropWhile is_modifier ks = Keyword KwMod # js" using module_head_after [OF assms(2)] by blast
  then show ?thesis by (simp add: classify_item_def assms(1) Let_def is_doc_or_newline_def skip_none vget_def head_of_def)
qed

text \<open>The parser classifies the module, passes nothing, and meets it again as the first item of its own body.\<close>

lemma stays_none:
  assumes "stays P a" "stable P" "\<And>t. P t \<Longrightarrow> steps as t = None" "P s" "pa_tokens s \<noteq> []"
  shows "steps (a # as) s = None"
proof -
  obtain d where d: "a s = Some ([], s\<lparr>pa_diagnostics := d\<rparr>)" using assms(1,4,5) by (auto simp: stays_def)
  have "steps as (s\<lparr>pa_diagnostics := d\<rparr>) = None" by (rule assms(3)) (use assms(2,4) in \<open>simp add: stable_def\<close>)
  with d show ?thesis by simp
qed

lemma as_node_none: "a s = None \<Longrightarrow> as_node k a s = None"
  by (cases "current_span s") (simp_all add: as_node_def)

lemma block_stuck:
  assumes "member s = None" "\<not> at_eof s" "\<not> at_simple Dedent s" "\<not> at_simple Newline s"
  shows "members msg member s = None"
  using assms by (simp add: members_def loop_bound_def)

lemma unsafe_module_stuck:
  assumes ks: "module_after_modifiers ks"
  shows "kinds_ahead s = Keyword KwUnsafe # ks \<Longrightarrow> productions_at n NtItem s = None"
proof (induction n arbitrary: s)
  case (Suc n)
  let ?call = "productions_at n" and ?at = "\<lambda>t. kinds_ahead t = Keyword KwUnsafe # ks"
  have stable: "stable ?at" by (simp add: stable_def kinds_ahead_rest)
  have k: "current_kind t = Some (Keyword KwUnsafe)" "pa_tokens t \<noteq> []" if "?at t" for t
    using that by (auto simp: current_kind_ahead vget_def) (simp add: kinds_ahead_def)
  have none: "?call NtItem t = None" if "?at t" for t by (rule Suc.IH [OF that])
  have member: "progressing (block_member ?call ContextModule) t = None" if "?at t" for t
    using none [OF that] k(1) [OF that]
    by (simp add: progressing_def block_member_def branch_def at_keyword_def misplaced_member_def nothing_def child_def context_member_def)
  have items: "members msg (progressing (block_member ?call ContextModule)) t = None" if "?at t" for msg t
    by (rule block_stuck, rule member [OF that]) (use k(1) [OF that] in \<open>simp_all add: looks\<close>)
  have start: "stays ?at expect_block_start" unfolding expect_block_start_def expect_simple_def
    by (intro stays_steps stays_expect stable stays_steps_Nil) (auto simp: looks dest!: k(1))
  have body: "parse_item_block ?call ContextModule t = None" if "?at t" for t
  proof -
    have "steps (expect_block_start # members msg (progressing (block_member ?call ContextModule)) # as) t = None" for msg as
      by (rule stays_none [OF start stable _ that k(2) [OF that]]) (simp add: items)
    then have "as_node SkBlock (steps (expect_block_start # members msg (progressing (block_member ?call ContextModule)) # as)) t = None"
      for msg as by (intro as_node_none)
    then show ?thesis by (simp add: parse_item_block_def block_def child_def del: steps.simps)
  qed
  have prefix: "stays ?at take_item_prefix" by (rule stays_prefix [OF _ stable]) (auto simp: looks dest!: k(1))
  have pub: "stays ?at (eat_keyword KwPub)" unfolding eat_keyword_def by (rule stays_when) (auto simp: looks dest!: k(1))
  have line: "stays ?at (expect_keyword KwMod msg)" "stays ?at (expect_identifier msg)" for msg
    unfolding expect_keyword_def expect_identifier_def by (rule stays_expect; auto simp: looks dest!: k(1))+
  have block: "steps [parse_item_block ?call ContextModule] t = None" if "?at t" for t using body [OF that] by simp
  have "steps [take_item_prefix, eat_keyword KwPub, expect_keyword KwMod ''expected `mod`'',
      expect_identifier ''expected module name'', parse_item_block ?call ContextModule] s = None"
    by (intro stays_none [OF prefix stable _ Suc.prems k(2) [OF Suc.prems]] stays_none [OF pub stable _ _ k(2)]
        stays_none [OF line(1) stable _ _ k(2)] stays_none [OF line(2) stable _ _ k(2)] block)
  then have "parse_module ?call s = None" unfolding parse_module_def by (rule as_node_none)
  then show ?case by (simp add: production_def parse_item_def unsafe_module_head [OF Suc.prems ks])
qed simp

lemma unsafe_module_unparsed:
  assumes "map token_kind tokens = Keyword KwUnsafe # ks" "module_after_modifiers ks"
  shows "parse_for_revision fuel tokens r = None"
proof -
  let ?s = "parser_new tokens r"
  have a: "kinds_ahead ?s = Keyword KwUnsafe # ks" using assms(1) by (simp add: kinds_ahead_rest)
  then have k: "current_kind ?s = Some (Keyword KwUnsafe)" by (simp add: current_kind_ahead vget_def)
  have "child (productions_at fuel NtItem) ?s = None" using unsafe_module_stuck [OF assms(2) a] by (simp add: child_def)
  then have "file_item (productions_at fuel) ?s = None" using k by (simp add: file_item_def branch_def looks forced_def)
  then have "while_at (\<lambda>s. \<not> at_eof s) (file_item (productions_at fuel)) ?s = None"
    using k by (simp add: while_at_def loop_bound_def looks)
  moreover have "eat_newlines ?s = Some ([], ?s)" using k by (simp add: eat_newlines_def while_at_def loop_bound_def looks)
  ultimately show ?thesis
    by (simp add: parse_for_revision_def output_of_def parse_file_def as_node_none)
qed

section \<open>Examples\<close>

definition token_at :: "nat \<times> token_kind \<Rightarrow> token" where
  "token_at p = Token (snd p) (span_new 0 (of_nat (fst p)) (of_nat (fst p) + 1))"

definition sum_tokens :: "token list" where
  "sum_tokens = map token_at (enumerate 0 [Identifier ''a'', Plus, Identifier ''b'', Star, Identifier ''c''])"

definition item_tokens :: "token list" where
  "item_tokens = map token_at (enumerate 0 [Keyword KwFn, Identifier ''f'', LParen, RParen, Colon, Newline, Indent,
     Keyword KwPass, Newline, Dedent, RBrace, Newline])"

definition end_token :: token where
  "end_token = token_at (20, Eof)"

text \<open>\<open>unsafe mod m:\<close>, and a body of one \<open>pass\<close>\<close>

definition unsafe_tokens :: "token list" where
  "unsafe_tokens = map token_at (enumerate 0 [Keyword KwUnsafe, Keyword KwMod, Identifier ''m'', Colon, Newline, Indent,
     Keyword KwPass, Newline, Dedent, Eof])"

section \<open>The properties\<close>

text \<open>
  C2: the parser is total and preserves every token. For any tokens that end in their only end-of-file token and
  hold no module marked \<open>unsafe\<close>, it returns (no index out of bounds, no endless loop or recursion) a file whose
  tokens, read from the tree in order, are exactly the tokens given, whatever errors it reported.
\<close>

theorem parse_preserves_tokens:
  assumes "tokens = ts @ [t]" "token_kind t = Eof" "\<forall>u\<in>set ts. token_kind u \<noteq> Eof"
    and "\<not> has_unsafe_module (map token_kind tokens)" "enough_fuel tokens \<le> fuel"
  shows "\<exists>out. parse_for_revision fuel tokens r = Some out \<and> node_kind (po_tree out) = SkFile \<and> node_tokens (po_tree out) = tokens"
  using assms by (rule file_parsed)

lemma parse_preserves_tokens_witness:
  "\<exists>out. parse_for_revision (enough_fuel (item_tokens @ [end_token])) (item_tokens @ [end_token]) V0_11 = Some out
     \<and> node_kind (po_tree out) = SkFile \<and> node_tokens (po_tree out) = item_tokens @ [end_token]"
  by (rule parse_preserves_tokens [OF refl])
    (simp_all add: item_tokens_def end_token_def token_at_def has_unsafe_module.simps)

text \<open>
  C34: lexing and parsing compose. Every text whose tokens hold no module marked \<open>unsafe\<close> has a tree, and the tree
  holds the tokens of the text.
\<close>

theorem every_source_parses:
  assumes "\<not> has_unsafe_module (map token_kind (lo_tokens (lex f src)))" "enough_fuel (lo_tokens (lex f src)) \<le> fuel"
  shows "\<exists>out. parse_for_revision fuel (lo_tokens (lex f src)) r = Some out \<and> node_kind (po_tree out) = SkFile
    \<and> node_tokens (po_tree out) = lo_tokens (lex f src)"
  by (rule source_parsed [OF assms])

lemma every_source_parses_witness:
  "\<exists>out. parse_for_revision (enough_fuel (lo_tokens (lex 0 sample_source))) (lo_tokens (lex 0 sample_source)) V0_11 = Some out
     \<and> node_kind (po_tree out) = SkFile \<and> node_tokens (po_tree out) = lo_tokens (lex 0 sample_source)"
proof -
  have "\<not> has_unsafe_module (map token_kind (lo_tokens (lex 0 sample_source)))" by code_simp
  from every_source_parses [OF this le_refl] show ?thesis .
qed

text \<open>
  C35: a fragment (the tokens of a macro argument or of generated code) that is not an item fragment holding a
  module marked unsafe is parsed whatever its tokens are, and a fragment accepted without a diagnostic is one tree that holds every token up to the end of the file.
\<close>

theorem fragment_covers_tokens:
  assumes "tokens \<noteq> []" "k = FragmentItem \<longrightarrow> \<not> has_unsafe_module (map token_kind tokens)" "enough_fuel tokens \<le> fuel"
  shows "\<exists>out. parse_fragment_for_revision fuel tokens k r = Some out
    \<and> (po_diagnostics out = [] \<longrightarrow> node_tokens (po_tree out) = takeWhile (\<lambda>t. token_kind t \<noteq> Eof) tokens)"
  using assms by (rule fragment_parsed)

lemma fragment_covers_tokens_witness:
  "map_option (\<lambda>out. node_tokens (po_tree out)) (parse_fragment_for_revision 400 (sum_tokens @ [end_token]) FragmentExpression V0_11)
     = Some sum_tokens"
proof -
  have "map_option po_diagnostics (parse_fragment_for_revision 400 (sum_tokens @ [end_token]) FragmentExpression V0_11) = Some []"
    by code_simp
  moreover have "enough_fuel (sum_tokens @ [end_token]) \<le> 400" by (simp add: enough_fuel_def sum_tokens_def end_token_def token_at_def)
  moreover have "takeWhile (\<lambda>t. token_kind t \<noteq> Eof) (sum_tokens @ [end_token]) = sum_tokens"
    by (simp add: sum_tokens_def end_token_def token_at_def)
  ultimately show ?thesis
    using fragment_covers_tokens [of "sum_tokens @ [end_token]" FragmentExpression 400 V0_11] by auto
qed

text \<open>
  C36: a file that begins with a module marked \<open>unsafe\<close> is never parsed: however deep the recursion may go, the parser
  meets the same \<open>unsafe\<close> again as the first item of the module's body.
\<close>

theorem unsafe_module_never_parsed:
  assumes "map token_kind tokens = Keyword KwUnsafe # ks" "module_after_modifiers ks"
  shows "parse_for_revision fuel tokens r = None"
  by (rule unsafe_module_unparsed [OF assms])

lemma unsafe_module_never_parsed_witness: "parse_for_revision 100 unsafe_tokens V0_11 = None"
  by (rule unsafe_module_never_parsed [of _ "map token_kind (tl unsafe_tokens)"]) (simp_all add: unsafe_tokens_def token_at_def)

end
