(* ===== verification/Parser_Precedence.thy ===== *)
theory Parser_Precedence
  imports Parser_Theorems
begin

text \<open>
  Operator precedence: the expressions of the parser are those of the stratified grammar that the
  precedence table of the language specification (\<^verbatim>\<open>docs/spec.md\<close>, section 7) describes.
\<close>

section \<open>The table of the specification\<close>

text \<open>Row \<open>r\<close> of the table is level \<open>14 - r\<close>: a higher level binds tighter. Assignment is not an expression.\<close>

definition documented_level :: "token_kind \<Rightarrow> nat option" where
  "documented_level k =
     (if k \<in> {Star, Slash, Percent} then Some 10
      else if k \<in> {Plus, Minus, PlusPlus} then Some 9
      else if k \<in> {Shl, Shr} then Some 8
      else if k = Amp then Some 7
      else if k = Caret then Some 6
      else if k = Pipe then Some 5
      else if k \<in> {Less, LessEq, Greater, GreaterEq} then Some 4
      else if k \<in> {EqEq, NotEq} then Some 3
      else if k = AndAnd then Some 2
      else if k = OrOr then Some 1
      else None)"

definition is_operator_kind :: "syntax_kind \<Rightarrow> bool" where
  "is_operator_kind k \<longleftrightarrow> k \<in> {SkBinaryExpression, SkCastExpression, SkUnaryExpression}"

definition is_postfix_kind :: "syntax_kind \<Rightarrow> bool" where
  "is_postfix_kind k \<longleftrightarrow>
     k \<in> {SkMemberExpression, SkTupleFieldExpression, SkCallExpression, SkBracketExpression, SkTryExpression, SkRecordExpression}"

text \<open>
  The grammar by levels. Binary operators group to the left. A postfix form applies to a postfix form, to
  a primary expression, or to a cast, whose type ends where the form begins.
\<close>

inductive at_level :: "nat \<Rightarrow> syntax_node \<Rightarrow> bool" where
  level_primary: "\<not> is_operator_kind k \<Longrightarrow> \<not> is_postfix_kind k \<Longrightarrow> at_level 13 (SyntaxNode k sp cs)"
| level_postfix: "is_postfix_kind k \<Longrightarrow> at_level 13 e \<or> node_kind e = SkCastExpression \<and> at_level 11 e \<Longrightarrow>
    at_level 13 (SyntaxNode k sp (NodeElement e # cs))"
| level_unary: "at_level 12 e \<Longrightarrow> at_level 12 (SyntaxNode SkUnaryExpression sp (cs @ [NodeElement e]))"
| level_cast: "at_level 11 e \<Longrightarrow> at_level 11 (SyntaxNode SkCastExpression sp (NodeElement e # cs))"
| level_binary: "documented_level (token_kind t) = Some n \<Longrightarrow> at_level n left \<Longrightarrow> at_level (Suc n) right \<Longrightarrow>
    at_level n (SyntaxNode SkBinaryExpression sp [NodeElement left, TokenElement t, NodeElement right])"
| level_below: "at_level n e \<Longrightarrow> m \<le> n \<Longrightarrow> at_level m e"

text \<open>What a level says of an operator: its operands bind as tightly as the table asks.\<close>

lemma binary_levels:
  "at_level m e \<Longrightarrow> e = SyntaxNode SkBinaryExpression sp [NodeElement left, TokenElement t, NodeElement right] \<Longrightarrow>
   \<exists>n. documented_level (token_kind t) = Some n \<and> m \<le> n \<and> at_level n left \<and> at_level (Suc n) right"
  by (induction rule: at_level.induct) (auto simp: is_operator_kind_def is_postfix_kind_def)

lemma unary_level:
  "at_level m e \<Longrightarrow> e = SyntaxNode SkUnaryExpression sp (cs @ [NodeElement x]) \<Longrightarrow> m \<le> 12 \<and> at_level 12 x"
  by (induction rule: at_level.induct) (auto simp: is_operator_kind_def is_postfix_kind_def)

section \<open>Binding powers\<close>

lemma binding_powers_documented:
  "map_of binding_powers k = Some (lb, rb, c) \<Longrightarrow> documented_level k = Some lb \<and> rb = Suc lb \<and> lb \<le> 10"
  by (auto simp: binding_powers_def documented_level_def split: if_splits)

lemma binding_power_level:
  "binary_binding_power s = Some (lb, rb, c) \<Longrightarrow>
   \<exists>t. current s = Some t \<and> documented_level (token_kind t) = Some lb \<and> rb = Suc lb \<and> lb \<le> 10"
  by (auto simp: binary_binding_power_def current_kind_def dest!: binding_powers_documented split: option.splits)

text \<open>The level of a minimum binding power of the code\<close>

definition level_of :: "nat \<Rightarrow> nat" where
  "level_of m = (if m \<le> 11 then m else if m = 12 then 11 else 12)"

section \<open>Where an expression stops\<close>

text \<open>Whatever comes next may apply to the expression read so far.\<close>

definition fits :: "syntax_node \<Rightarrow> parser \<Rightarrow> bool" where
  "fits left s \<longleftrightarrow>
     (at_postfix left s \<longrightarrow> at_level 13 left \<or> node_kind left = SkCastExpression \<and> at_level 11 left)
     \<and> (at_keyword KwAs s \<longrightarrow> at_level 11 left)
     \<and> (\<forall>lb rb c. \<not> at_keyword KwAs s \<longrightarrow> binary_binding_power s = Some (lb, rb, c) \<longrightarrow> at_level lb left)"

text \<open>What comes next does not belong to an expression of that binding power.\<close>

definition complete :: "nat \<Rightarrow> syntax_node \<Rightarrow> parser \<Rightarrow> bool" where
  "complete m left s \<longleftrightarrow>
     \<not> at_postfix left s \<and> (at_keyword KwAs s \<longrightarrow> 12 < m)
     \<and> (\<forall>lb rb c. \<not> at_keyword KwAs s \<longrightarrow> binary_binding_power s = Some (lb, rb, c) \<longrightarrow> lb < m)"

definition stratified :: "productions \<Rightarrow> bool" where
  "stratified call \<longleftrightarrow>
     (\<forall>m s e s'. m \<le> 13 \<longrightarrow> call (NtExpression m) s = Some (e, s') \<longrightarrow> at_level (level_of m) e \<and> complete m e s')"

lemma fitsI:
  assumes l: "at_level n e" "11 \<le> n" and p: "at_postfix e s \<Longrightarrow> at_level 13 e \<or> node_kind e = SkCastExpression \<and> at_level 11 e"
  shows "fits e s"
proof -
  have "at_level lb e" if "binary_binding_power s = Some (lb, rb, c)" for lb rb c
    by (rule level_below [OF l(1)]) (use binding_power_level [OF that] l(2) in auto)
  moreover have "at_level 11 e" by (rule level_below [OF l])
  ultimately show ?thesis using p by (simp add: fits_def)
qed

lemma fits_primary: "at_level 13 e \<Longrightarrow> fits e s"
  by (rule fitsI [where n = 13]) simp_all

lemma level_least: "at_level n e \<Longrightarrow> 12 \<le> n \<Longrightarrow> at_level (level_of m) e"
  by (erule level_below) (simp add: level_of_def)

lemma looks_diagnostics [simp]:
  "at_postfix left (s\<lparr>pa_diagnostics := d\<rparr>) = at_postfix left s"
  "binary_binding_power (s\<lparr>pa_diagnostics := d\<rparr>) = binary_binding_power s"
  by (simp_all add: at_postfix_def binary_binding_power_def)

lemma complete_diagnostics [simp]: "complete m e (s\<lparr>pa_diagnostics := d\<rparr>) = complete m e s"
  by (simp add: complete_def)

lemma no_postfix: "\<not> at_postfix e s \<Longrightarrow> \<not> takes_record left \<Longrightarrow> \<not> at_postfix left s"
  by (auto simp: at_postfix_def)

text \<open>Primary expressions\<close>

lemma as_node_kind: "as_node k a s = Some (e, s') \<Longrightarrow> \<exists>sp cs. e = SyntaxNode k sp cs"
  by (auto simp: as_node_def syntax_node_new_def bind_eq_Some_conv)

lemma node_primary: "as_node k a s = Some (e, s') \<Longrightarrow> \<not> is_operator_kind k \<Longrightarrow> \<not> is_postfix_kind k \<Longrightarrow> at_level 13 e"
  using as_node_kind level_primary by blast

lemmas primary_kinds = is_operator_kind_def is_postfix_kind_def

lemma parenthesized_primary:
  assumes "parse_parenthesized_or_tuple call s = Some (e, s')"
  shows "at_level 13 e"
proof -
  obtain k sp cs where "e = SyntaxNode k sp cs" "k = SkTupleExpression \<or> k = SkParenthesizedExpression"
    using assms by (auto simp: parse_parenthesized_or_tuple_def as_kinded_node_def parenthesized_children_def prefixed_def kinded_def
        branch_def syntax_node_new_def bind_eq_Some_conv split: if_splits)
  then show ?thesis by (auto simp: primary_kinds intro!: level_primary)
qed

lemma prefix_cases:
  assumes "parse_prefix_expression call s = Some (e, s')"
  obtains "at_level 13 e"
  | sp cs x where "e = SyntaxNode SkUnaryExpression sp (cs @ [NodeElement x])" "\<exists>t. call (NtExpression 13) t = Some (x, s')"
proof (cases "at_prefix_operator s")
  case True
  then have "as_node SkUnaryExpression (steps [branch (at_simple Amp) (steps [bump, eat_keyword KwVar]) bump,
      child (call (NtExpression 13))]) s = Some (e, s')" using assms by (simp add: parse_prefix_expression_def branch_def)
  then have "\<exists>sp cs x t. e = SyntaxNode SkUnaryExpression sp (cs @ [NodeElement x]) \<and> call (NtExpression 13) t = Some (x, s')"
    by (fastforce simp: as_node_def syntax_node_new_def child_def bind_eq_Some_conv)
  then show thesis using that(2) by blast
next
  case False
  have "at_level 13 e" using assms False unfolding parse_prefix_expression_def
    by (auto simp: branch_def parse_formatted_string_expression_def parse_closure_expression_def parse_quote_expression_def
        parse_array_expression_def parse_macro_expression_def primary_kinds
        intro: node_primary parenthesized_primary split: if_splits)
  then show thesis by (rule that(1))
qed

section \<open>Operators\<close>

lemma prefix_fits:
  assumes c: "stratified call" and p: "parse_prefix_expression call s = Some (e, s')"
  shows "fits e s' \<and> (m \<le> 13 \<longrightarrow> at_level (level_of m) e)"
  using p
proof (cases rule: prefix_cases)
  case 1
  then show ?thesis using level_least by (auto intro: fits_primary)
next
  case (2 sp cs x)
  then obtain t where "call (NtExpression 13) t = Some (x, s')" by blast
  with c have "at_level (level_of 13) x \<and> complete 13 x s'" unfolding stratified_def by blast
  then have x: "at_level 12 x" "complete 13 x s'" by (simp_all add: level_of_def)
  have e: "at_level 12 e" unfolding 2(1) by (rule level_unary [OF x(1)])
  have "\<not> at_postfix e s'" by (rule no_postfix [of x]) (use x(2) 2(1) in \<open>simp_all add: complete_def takes_record_def\<close>)
  then have "fits e s'" by (intro fitsI [OF e]) simp_all
  then show ?thesis using level_least [OF e] by simp
qed

lemma postfix_level:
  assumes "parse_postfix call left s = Some (Some e, s')" "fits left s"
  shows "at_level 13 e"
proof -
  have "at_postfix left s" using assms(1) by (auto simp: parse_postfix_def split: if_splits)
  then obtain k xs where k: "postfix_children call s = Some ((k, xs), s')" "e = syntax_node_new k (NodeElement left # xs) (node_span left)"
    and l: "at_level 13 left \<or> node_kind left = SkCastExpression \<and> at_level 11 left"
    using assms by (auto simp: parse_postfix_def fits_def bind_eq_Some_conv)
  have "is_postfix_kind k" using k(1)
    by (auto simp: postfix_children_def member_children_def branch_def prefixed_def kinded_def is_postfix_kind_def bind_eq_Some_conv
        split: if_splits)
  with l show ?thesis unfolding k(2) syntax_node_new_def by (rule level_postfix [rotated])
qed

lemma cast_fits:
  assumes "cast_step call fallback left s = Some (e, s')" "fits left s" "at_keyword KwAs s"
  shows "at_level 11 e \<and> fits e s'"
proof -
  obtain sp cs where e: "e = SyntaxNode SkCastExpression sp (NodeElement left # cs)"
    using assms(1) by (auto simp: cast_step_def syntax_node_new_def bind_eq_Some_conv)
  have "at_level 11 left" using assms(2,3) by (simp add: fits_def)
  then have l: "at_level 11 e" unfolding e by (rule level_cast)
  moreover have "fits e s'" by (rule fitsI [OF l]) (simp_all add: e l [unfolded e])
  ultimately show ?thesis by blast
qed

lemma binary_fits:
  assumes c: "stratified call" and b: "binary_step call fallback left rb cmp s = Some (e, s')"
    and f: "fits left s" "\<not> at_keyword KwAs s" "binary_binding_power s = Some (lb, rb, cmp)"
  shows "at_level lb e \<and> fits e s'"
proof -
  obtain t where t: "current s = Some t" "documented_level (token_kind t) = Some lb" "rb = Suc lb" "lb \<le> 10"
    using binding_power_level [OF f(3)] by blast
  let ?s1 = "s\<lparr>pa_position := pa_position s + 1\<rparr>"
  have bump: "bump s = Some ([TokenElement t], ?s1)" by (simp add: bump_def t(1))
  obtain right s2 where c2: "call (NtExpression rb) ?s1 = Some (right, s2)"
    using b bump by (auto simp: binary_step_def bind_eq_Some_conv)
  have "\<exists>d. (if cmp \<and> (is_comparison_expression left \<or> is_comparison_expression right)
      then error_at ''chained comparisons are invalid'' (token_span t) else nothing) s2 = Some ([], s2\<lparr>pa_diagnostics := d\<rparr>)"
    by (auto simp: error_at_def push_syntax_error_def nothing_def intro: exI [of _ "pa_diagnostics s2"])
  then obtain d where d: "(if cmp \<and> (is_comparison_expression left \<or> is_comparison_expression right)
      then error_at ''chained comparisons are invalid'' (token_span t) else nothing) s2 = Some ([], s2\<lparr>pa_diagnostics := d\<rparr>)" by blast
  have r: "call (NtExpression rb) ?s1 = Some (right, s2)" "s' = s2\<lparr>pa_diagnostics := d\<rparr>"
    "e = syntax_node_new SkBinaryExpression [NodeElement left, TokenElement t, NodeElement right] fallback"
    using b by (simp_all only: binary_step_def bump c2 d bind.bind_lunit prod.case list.sel element_span_def syntax_element.case
        option.inject prod.inject append_Cons append_Nil)
  have x: "at_level (Suc lb) right" "complete rb right s2"
    using c r(1) t(3,4) by (auto simp: stratified_def level_of_def split: if_splits)
  have l: "at_level lb left" using f by (auto simp: fits_def)
  have e: "at_level lb e" unfolding r(3) syntax_node_new_def by (rule level_binary [OF t(2) l x(1)])
  have "\<not> at_postfix e s2" 
    by (rule no_postfix [of right]) (use x(2) r(3) in \<open>simp_all add: complete_def takes_record_def syntax_node_new_def\<close>)
  moreover have "\<not> at_keyword KwAs s2" using x(2) t(3,4) by (auto simp: complete_def)
  moreover have "at_level lb' e" if "\<not> at_keyword KwAs s2" "binary_binding_power s2 = Some (lb', rb', c')" for lb' rb' c'
  proof (rule level_below [OF e])
    show "lb' \<le> lb" using x(2) that t(3) unfolding complete_def by (metis less_Suc_eq_le)
  qed
  ultimately have "fits e s'" unfolding r(2) fits_def by simp
  with e show ?thesis by blast
qed

lemma expression_from_stratified:
  assumes c: "stratified call" and m: "m \<le> 13"
  shows "expression_from n call m fallback left s = Some (e, s') \<Longrightarrow> fits left s \<Longrightarrow> at_level (level_of m) left \<Longrightarrow>
    at_level (level_of m) e \<and> complete m e s'"
proof (induction n arbitrary: left s)
  case (Suc n)
  obtain p s1 where p: "parse_postfix call left s = Some (p, s1)" using Suc.prems(1) by (auto simp: bind_eq_Some_conv)
  show ?case
  proof (cases p)
    case (Some left')
    have l: "at_level 13 left'" by (rule postfix_level [OF p [unfolded Some] Suc.prems(2)])
    show ?thesis by (rule Suc.IH [of left' s1]) (use Suc.prems(1) p Some l level_least fits_primary in auto)
  next
    case None
    then have s1: "s1 = s" "\<not> at_postfix left s" using p by (auto simp: parse_postfix_def bind_eq_Some_conv split: if_splits)
    consider (stop) "e = left" "s' = s" "complete m left s"
      | (cast) left' s2 where "at_keyword KwAs s" "m \<le> 12" "cast_step call fallback left s = Some (left', s2)"
          "expression_from n call m fallback left' s2 = Some (e, s')"
      | (binary) lb rb cmp left' s2 where "\<not> at_keyword KwAs s" "binary_binding_power s = Some (lb, rb, cmp)" "m \<le> lb"
          "binary_step call fallback left rb cmp s = Some (left', s2)" "expression_from n call m fallback left' s2 = Some (e, s')"
      using Suc.prems(1) p None s1
      by (auto simp: complete_def bind_eq_Some_conv split: if_splits option.splits)
    then show ?thesis
    proof cases
      case stop
      with Suc.prems(3) show ?thesis by simp
    next
      case cast
      have f: "at_level 11 left' \<and> fits left' s2" by (rule cast_fits [OF cast(3) Suc.prems(2) cast(1)])
      then have "at_level (level_of m) left'" using cast(2) by (auto simp: level_of_def intro: level_below)
      with f show ?thesis by (intro Suc.IH [OF cast(4)]) simp_all
    next
      case binary
      have f: "at_level lb left' \<and> fits left' s2" by (rule binary_fits [OF c binary(4) Suc.prems(2) binary(1,2)])
      then have "at_level (level_of m) left'"
        using binary(3) binding_power_level [OF binary(2)] by (auto simp: level_of_def intro: level_below)
      with f show ?thesis by (intro Suc.IH [OF binary(5)]) simp_all
    qed
  qed
qed simp

lemma productions_stratified: "stratified (productions_at n)"
proof (induction n)
  case (Suc n)
  show ?case unfolding stratified_def
  proof (intro allI impI)
    fix m s e s' assume m: "m \<le> 13" and e: "productions_at (Suc n) (NtExpression m) s = Some (e, s')"
    obtain sp left s1 where p: "parse_prefix_expression (productions_at n) s = Some (left, s1)"
      "expression_from (loop_bound s1) (productions_at n) m sp left s1 = Some (e, s')"
      using e by (auto simp: production_def parse_expression_bp_def bind_eq_Some_conv)
    from prefix_fits [OF Suc.IH p(1), of m] m show "at_level (level_of m) e \<and> complete m e s'"
      by (intro expression_from_stratified [OF Suc.IH m p(2)]) simp_all
  qed
qed (simp add: stratified_def)

section \<open>The property\<close>

text \<open>
  C3: the parser refines the stratified grammar of the precedence table. With fuel for the tokens that remain, an
  expression read with minimum binding power \<open>m\<close> exists, spans exactly the tokens passed, and derives from the level
  of \<open>m\<close>: in every binary node the left operand is of the operator's documented level and the right one of a higher
  level, casts and unary operators take operands of their levels, and postfix forms apply to what binds tightest.
\<close>

theorem expressions_follow_precedence:
  assumes "pa_tokens s \<noteq> []" "3 * load s < fuel" "m \<le> 13"
  shows "\<exists>e s'. productions_at fuel (NtExpression m) s = Some (e, s') \<and> at_level (level_of m) e \<and> rest s = node_tokens e @ rest s'"
proof -
  have "returns node_result False (productions_at fuel (NtExpression m)) s"
    by (rule productions_return) (use assms in \<open>simp_all add: allowed_def\<close>)
  then obtain e s' where e: "productions_at fuel (NtExpression m) s = Some (e, s')" "consumes s [NodeElement e] s'"
    by (auto simp: returns_def node_result_def)
  moreover have "at_level (level_of m) e" using productions_stratified e(1) assms(3) unfolding stratified_def by blast
  ultimately show ?thesis by (auto simp: consumes_def)
qed

text \<open>In \<open>a + b * c\<close> the product is an operand of the sum.\<close>

lemma expressions_follow_precedence_witness:
  "\<exists>e s'. productions_at 400 (NtExpression 0) (parser_new (sum_tokens @ [end_token]) V0_11) = Some (e, s')
     \<and> at_level 0 e \<and> map element_tokens (node_children e) = [take 1 sum_tokens, [sum_tokens ! 1], drop 2 sum_tokens]"
proof -
  let ?s = "parser_new (sum_tokens @ [end_token]) V0_11"
  have "map_option (\<lambda>(e, s'). map element_tokens (node_children e)) (productions_at 400 (NtExpression 0) ?s)
      = Some [take 1 sum_tokens, [sum_tokens ! 1], drop 2 sum_tokens]" by code_simp
  moreover have "3 * load ?s < 400" by (simp add: sum_tokens_def end_token_def token_at_def)
  moreover have "pa_tokens ?s \<noteq> []" by (simp add: parser_new_def)
  ultimately show ?thesis using expressions_follow_precedence [of ?s 400 0] by (auto simp: level_of_def simp del: load_new)
qed

end
