(* ===== verification/Backend_Names.thy ===== *)
theory Backend_Names
  imports Ownership Standard_Calls "HOL-Library.Word"
begin

text \<open>
  The C names and literals of the backend: \<^verbatim>\<open>src/backend/names.rs\<close> and the mangling of \<^verbatim>\<open>src/backend/mod.rs\<close>.
  Generated helpers are named after what they do and the indices of the types they are specialised by.
\<close>

unbundle bit_operations_syntax

section \<open>Names of types and helpers\<close>

definition struct_name :: "declaration_id \<Rightarrow> type_id \<Rightarrow> string" where
  "struct_name declaration ty = ''el_struct_d'' @ show_nat declaration @ ''_t'' @ show_nat ty"

definition enum_name :: "declaration_id \<Rightarrow> type_id \<Rightarrow> string" where
  "enum_name declaration ty = ''el_enum_d'' @ show_nat declaration @ ''_t'' @ show_nat ty"

definition slice_name :: "type_id \<Rightarrow> string" where
  "slice_name ty = ''el_slice_t'' @ show_nat ty"

definition function_type_name :: "type_id \<Rightarrow> string" where
  "function_type_name ty = ''el_fn_t'' @ show_nat ty"

definition closure_name :: "type_id \<Rightarrow> string" where
  "closure_name ty = ''el_closure_t'' @ show_nat ty"

definition concatenate_name :: "type_id \<Rightarrow> string" where
  "concatenate_name ty = ''el_concat_t'' @ show_nat ty"

definition numeric_alternative_name :: "numeric_alternative \<Rightarrow> type_id \<Rightarrow> type_id \<Rightarrow> string" where
  "numeric_alternative_name operation operand result =
     ''el_'' @ na_name operation @ ''_t'' @ show_nat operand @ ''_t'' @ show_nat result"

definition pointer_check_name :: "type_id \<Rightarrow> string" where
  "pointer_check_name pointee = ''el_check_ptr_t'' @ show_nat pointee"

definition conversion_stem :: "numeric_outcome \<Rightarrow> string" where
  "conversion_stem outcome =
     (case outcome of Checked \<Rightarrow> ''try_from'' | Wrapping \<Rightarrow> ''wrapping_from'' | Saturating \<Rightarrow> ''saturating_from'')"

definition numeric_conversion_name :: "numeric_outcome \<Rightarrow> type_id \<Rightarrow> type_id \<Rightarrow> string" where
  "numeric_conversion_name outcome source result =
     ''el_'' @ conversion_stem outcome @ ''_t'' @ show_nat source @ ''_t'' @ show_nat result"

definition text_operation_name :: "text_operation \<Rightarrow> string" where
  "text_operation_name operation =
     (case operation of
        TextByteLen \<Rightarrow> ''byte_len''
      | TextNextScalar \<Rightarrow> ''next_scalar''
      | TextSliceBytes \<Rightarrow> ''slice_bytes''
      | TextStringView \<Rightarrow> ''string_view''
      | TextFromChars \<Rightarrow> ''from_chars'')"

definition system_operation_name :: "system_operation \<Rightarrow> string" where
  "system_operation_name operation =
     (case operation of
        SystemPathView \<Rightarrow> ''path_view''
      | SystemOpen \<Rightarrow> ''fs_open''
      | SystemReadDir \<Rightarrow> ''fs_read_dir''
      | SystemMetadata \<Rightarrow> ''fs_metadata''
      | SystemCreateDir \<Rightarrow> ''fs_create_dir''
      | SystemRemoveDir \<Rightarrow> ''fs_remove_dir''
      | SystemRemoveFile \<Rightarrow> ''fs_remove_file''
      | SystemRename \<Rightarrow> ''fs_rename''
      | SystemFileReadToEnd \<Rightarrow> ''file_read_to_end''
      | SystemFileWriteAll \<Rightarrow> ''file_write_all''
      | SystemFileMetadata \<Rightarrow> ''file_metadata''
      | SystemFileClose \<Rightarrow> ''file_close''
      | SystemDirectoryNext \<Rightarrow> ''directory_next''
      | SystemDirectoryClose \<Rightarrow> ''directory_close''
      | SystemArgs \<Rightarrow> ''env_args''
      | SystemEnvGet \<Rightarrow> ''env_get''
      | SystemCurrentDir \<Rightarrow> ''env_current_dir''
      | SystemProcessRun \<Rightarrow> ''process_run''
      | SystemProcessExit \<Rightarrow> ''process_exit'')"

primrec standard_call_name :: "standard_call \<Rightarrow> string" where
  "standard_call_name StdPanic = ''el_panic''"
| "standard_call_name StdAssert = ''el_assert''"
| "standard_call_name (StdFail value_type) = ''el_assert_fail''"
| "standard_call_name (StdTrap reason_type trait_declaration) = ''el_typed_trap''"
| "standard_call_name (StdClockNow clock_type monotonic) = ''el_'' @ (if monotonic then ''monotonic'' else ''system'') @ ''_now_t'' @ show_nat clock_type"
| "standard_call_name StdStringFrom = ''el_string_from''"
| "standard_call_name (StdClone value) = ''el_clone_t'' @ show_nat value"
| "standard_call_name (StdBoxNew boxed value) = ''el_box_new_t'' @ show_nat boxed"
| "standard_call_name (StdBoxPointer boxed value mutable consuming) = ''el_box_pointer_t'' @ show_nat boxed"
| "standard_call_name (StdBoxFromRaw boxed value) = ''el_box_from_raw_t'' @ show_nat boxed"
| "standard_call_name (StdMaybeUninitNew storage value) = ''el_maybe_uninit_new_t'' @ show_nat storage"
| "standard_call_name (StdMaybeUninitPointer storage value) = ''el_maybe_uninit_pointer_t'' @ show_nat storage"
| "standard_call_name (StdMaybeUninitAssumeInit storage value) = ''el_maybe_uninit_assume_init_t'' @ show_nat storage"
| "standard_call_name (StdIntegerMax value) = ''el_integer_max_t'' @ show_nat value"
| "standard_call_name (StdSharedNew shared value) = ''el_shared_new_t'' @ show_nat shared"
| "standard_call_name (StdSharedGet shared value) = ''el_shared_get_t'' @ show_nat shared"
| "standard_call_name (StdSharedDowngrade shared weak value) = ''el_shared_downgrade_t'' @ show_nat shared"
| "standard_call_name (StdWeakUpgrade weak shared value result) = ''el_weak_upgrade_t'' @ show_nat weak"
| "standard_call_name (StdStoreNew store value) = ''el_store_new_t'' @ show_nat store"
| "standard_call_name (StdStoreLen store) = ''el_store_len_t'' @ show_nat store"
| "standard_call_name (StdStoreIsEmpty store) = ''el_store_is_empty_t'' @ show_nat store"
| "standard_call_name (StdStoreInsert store handle value) = ''el_store_insert_t'' @ show_nat store"
| "standard_call_name (StdStoreGet store handle value mutable) = ''el_'' @ ''store_get'' @ (if mutable then ''_var'' else '''') @ ''_t'' @ show_nat store"
| "standard_call_name (StdStoreRemove store handle value) = ''el_store_remove_t'' @ show_nat store"
| "standard_call_name (StdStoreCompact store) = ''el_store_compact_t'' @ show_nat store"
| "standard_call_name (StdStoreClear store value) = ''el_store_clear_t'' @ show_nat store"
| "standard_call_name (StdText operation result_type input_type) = ''el_'' @ ''text_'' @ text_operation_name operation @ ''_t'' @ show_nat result_type"
| "standard_call_name (StdSystem operation result_type) = ''el_'' @ system_operation_name operation @ ''_t'' @ show_nat result_type"
| "standard_call_name (StdIdentityFrom wrapper) = ''el_identity_from_t'' @ show_nat wrapper"
| "standard_call_name (StdForeignRootRetain handle mutable) = ''el_foreign_root_retain_t'' @ show_nat handle"
| "standard_call_name (StdForeignRootPointer handle mutable) = ''el_foreign_root_pointer_t'' @ show_nat handle"
| "standard_call_name (StdForeignRootClose handle) = ''el_foreign_root_close_t'' @ show_nat handle"
| "standard_call_name (StdThreadSpawn thread callable entry closure_entry return_type) = ''el_thread_spawn_t'' @ show_nat thread @ ''_t'' @ show_nat callable @ ''_d'' @ show_nat entry"
| "standard_call_name (StdThreadJoin thread return_type) = ''el_thread_join_t'' @ show_nat thread"
| "standard_call_name (StdThreadIsFinished thread) = ''el_thread_is_finished_t'' @ show_nat thread"
| "standard_call_name (StdThreadScope scope callable entry closure_entry return_type) = ''el_thread_scope_t'' @ show_nat scope @ ''_t'' @ show_nat callable"
| "standard_call_name (StdScopedThreadSpawn scope thread callable entry closure_entry return_type) = ''el_scoped_thread_spawn_t'' @ show_nat thread @ ''_t'' @ show_nat callable"
| "standard_call_name (StdScopedThreadJoin thread return_type) = ''el_scoped_thread_join_t'' @ show_nat thread"
| "standard_call_name (StdChannelCreate sender receiver element bounded) = ''el_'' @ ''channel_'' @ (if bounded then ''bounded'' else ''unbounded'') @ ''_t'' @ show_nat element"
| "standard_call_name (StdChannelSend sender element nonblocking) = ''el_'' @ ''channel_'' @ (if nonblocking then ''try_send'' else ''send'') @ ''_t'' @ show_nat sender"
| "standard_call_name (StdChannelReceive receiver element nonblocking) = ''el_'' @ ''channel_'' @ (if nonblocking then ''try_receive'' else ''receive'') @ ''_t'' @ show_nat receiver"
| "standard_call_name (StdChannelClose handle sender) = ''el_'' @ ''channel_close_'' @ (if sender then ''sender'' else ''receiver'') @ ''_t'' @ show_nat handle"
| "standard_call_name (StdMutexNew mutex value_type) = ''el_mutex_new_t'' @ show_nat mutex"
| "standard_call_name (StdMutexLock mutex guard value_type) = ''el_mutex_lock_t'' @ show_nat mutex"
| "standard_call_name (StdMutexGuardGet guard value_type mutable) = ''el_'' @ ''mutex_guard_get'' @ (if mutable then ''_var'' else '''') @ ''_t'' @ show_nat guard"
| "standard_call_name (StdMutexRead mutex value_type) = ''el_mutex_read_t'' @ show_nat mutex"
| "standard_call_name (StdMutexReplace mutex value_type) = ''el_mutex_replace_t'' @ show_nat mutex"
| "standard_call_name (StdMutexUpdate mutex value_type callable entry closure_entry) = ''el_mutex_update_t'' @ show_nat mutex @ ''_t'' @ show_nat callable"
| "standard_call_name (StdAtomicNew atomic value_type) = ''el_atomic_new_t'' @ show_nat atomic"
| "standard_call_name (StdAtomicLoad atomic value_type) = ''el_atomic_load_t'' @ show_nat atomic"
| "standard_call_name (StdAtomicStore atomic value_type) = ''el_atomic_store_t'' @ show_nat atomic"
| "standard_call_name (StdAtomicExchange atomic value_type) = ''el_atomic_exchange_t'' @ show_nat atomic"
| "standard_call_name (StdAtomicCompareExchange atomic value_type) = ''el_atomic_compare_exchange_t'' @ show_nat atomic"
| "standard_call_name (StdAtomicFetchAdd atomic value_type subtract) = ''el_'' @ ''atomic_fetch_'' @ (if subtract then ''sub'' else ''add'') @ ''_t'' @ show_nat atomic"
| "standard_call_name (StdFormatterWrite formatter) = ''el_formatter_write_t'' @ show_nat formatter"
| "standard_call_name (StdArrayLen collection) = ''el_array_len_t'' @ show_nat collection"
| "standard_call_name (StdArrayGet collection) = ''el_array_get_t'' @ show_nat collection"
| "standard_call_name (StdSliceLen collection) = ''el_slice_len_t'' @ show_nat collection"
| "standard_call_name (StdVecNew collection) = ''el_vec_new_t'' @ show_nat collection"
| "standard_call_name (StdVecLen collection) = ''el_vec_len_t'' @ show_nat collection"
| "standard_call_name (StdVecIsEmpty collection) = ''el_vec_is_empty_t'' @ show_nat collection"
| "standard_call_name (StdVecGet collection) = ''el_vec_get_t'' @ show_nat collection"
| "standard_call_name (StdVecGetVar collection) = ''el_vec_get_var_t'' @ show_nat collection"
| "standard_call_name (StdVecAppend collection) = ''el_vec_append_t'' @ show_nat collection"
| "standard_call_name (StdVecInsert collection) = ''el_vec_insert_t'' @ show_nat collection"
| "standard_call_name (StdVecRemove collection) = ''el_vec_remove_t'' @ show_nat collection"
| "standard_call_name (StdVecPop collection) = ''el_vec_pop_t'' @ show_nat collection"
| "standard_call_name (StdVecClear collection) = ''el_vec_clear_t'' @ show_nat collection"
| "standard_call_name (StdMapNew collection) = ''el_map_new_t'' @ show_nat collection"
| "standard_call_name (StdMapLen collection) = ''el_map_len_t'' @ show_nat collection"
| "standard_call_name (StdMapIsEmpty collection) = ''el_map_is_empty_t'' @ show_nat collection"
| "standard_call_name (StdMapContainsKey collection) = ''el_map_contains_key_t'' @ show_nat collection"
| "standard_call_name (StdMapGet collection) = ''el_map_get_t'' @ show_nat collection"
| "standard_call_name (StdMapGetVar collection) = ''el_map_get_var_t'' @ show_nat collection"
| "standard_call_name (StdMapInsert collection) = ''el_map_insert_t'' @ show_nat collection"
| "standard_call_name (StdMapRemove collection) = ''el_map_remove_t'' @ show_nat collection"
| "standard_call_name (StdMapClear collection) = ''el_map_clear_t'' @ show_nat collection"
| "standard_call_name (StdSetNew collection) = ''el_set_new_t'' @ show_nat collection"
| "standard_call_name (StdSetLen collection) = ''el_set_len_t'' @ show_nat collection"
| "standard_call_name (StdSetIsEmpty collection) = ''el_set_is_empty_t'' @ show_nat collection"
| "standard_call_name (StdSetContains collection) = ''el_set_contains_t'' @ show_nat collection"
| "standard_call_name (StdSetInsert collection) = ''el_set_insert_t'' @ show_nat collection"
| "standard_call_name (StdSetRemove collection) = ''el_set_remove_t'' @ show_nat collection"
| "standard_call_name (StdSetClear collection) = ''el_set_clear_t'' @ show_nat collection"

definition variadic_slice_name :: "type_id \<Rightarrow> nat \<Rightarrow> string" where
  "variadic_slice_name ty n = ''el_variadic_t'' @ show_nat ty @ ''_n'' @ show_nat n"

definition tuple_name :: "type_id \<Rightarrow> string" where
  "tuple_name ty = ''el_tuple_t'' @ show_nat ty"

definition array_name :: "type_id \<Rightarrow> string" where
  "array_name ty = ''el_array_t'' @ show_nat ty"

definition collection_type_name :: "type_id \<Rightarrow> string" where
  "collection_type_name ty = ''el_runtime_t'' @ show_nat ty"

definition equality_helper_name :: "type_id \<Rightarrow> string" where
  "equality_helper_name ty = ''el_eq_t'' @ show_nat ty"

definition ordering_helper_name :: "type_id \<Rightarrow> string" where
  "ordering_helper_name ty = ''el_ord_t'' @ show_nat ty"

definition hash_helper_name :: "type_id \<Rightarrow> string" where
  "hash_helper_name ty = ''el_hash_t'' @ show_nat ty"

definition default_helper_name :: "type_id \<Rightarrow> string" where
  "default_helper_name ty = ''el_default_t'' @ show_nat ty"

definition object_name :: "declaration_id \<Rightarrow> type_id \<Rightarrow> string" where
  "object_name trait_declaration trait_type = ''el_obj'' @ show_nat trait_declaration @ ''_t'' @ show_nat trait_type"

definition vtable_type_name :: "declaration_id \<Rightarrow> type_id \<Rightarrow> string" where
  "vtable_type_name trait_declaration trait_type = ''el_vt'' @ show_nat trait_declaration @ ''_t'' @ show_nat trait_type"

definition vtable_instance_name :: "declaration_id \<Rightarrow> type_id \<Rightarrow> type_id \<Rightarrow> string" where
  "vtable_instance_name trait_declaration trait_type concrete =
     ''el_vtbl'' @ show_nat trait_declaration @ ''_'' @ show_nat trait_type @ ''_'' @ show_nat concrete"

definition thunk_name :: "declaration_id \<Rightarrow> type_id \<Rightarrow> type_id \<Rightarrow> nat \<Rightarrow> string" where
  "thunk_name trait_declaration trait_type concrete slot =
     ''el_thunk'' @ show_nat trait_declaration @ ''_'' @ show_nat trait_type @ ''_'' @ show_nat concrete @ ''_'' @ show_nat slot"

text \<open>Names local to a function or a struct\<close>

definition variant_member_name :: "nat \<Rightarrow> string" where
  "variant_member_name index = ''v'' @ show_nat index"

definition field_name :: "nat \<Rightarrow> string" where
  "field_name field = ''f'' @ show_nat field"

definition local_name :: "nat \<Rightarrow> string" where
  "local_name binding = ''l'' @ show_nat binding"

definition cell_name :: "nat \<Rightarrow> string" where
  "cell_name binding = ''c'' @ show_nat binding"

definition vtable_slot_name :: "nat \<Rightarrow> string" where
  "vtable_slot_name slot = ''m'' @ show_nat slot"

definition temporary_name :: "nat \<Rightarrow> string" where
  "temporary_name temporary = ''t'' @ show_nat temporary"

section \<open>Names of functions\<close>

text \<open>\<open>u64\<close> arithmetic wraps, as on words of 64 bits.\<close>

definition fnv_offset :: "64 word" where
  "fnv_offset = 0xcbf29ce484222325"

definition fnv_prime :: "64 word" where
  "fnv_prime = 0x100000001b3"

definition fnv_step :: "64 word \<Rightarrow> char \<Rightarrow> 64 word" where
  "fnv_step hash byte = (hash XOR of_nat (of_char byte)) * fnv_prime"

definition fnv1a64 :: "string \<Rightarrow> 64 word" where
  "fnv1a64 bytes = foldl fnv_step fnv_offset bytes"

text \<open>\<open>{:016x}\<close>\<close>

definition hex_char :: "nat \<Rightarrow> char" where
  "hex_char d = (if d < 10 then char_of (48 + d) else char_of (87 + d))"

primrec hex_digits :: "nat \<Rightarrow> nat \<Rightarrow> string" where
  "hex_digits 0 n = []"
| "hex_digits (Suc k) n = hex_digits k (n div 16) @ [hex_char (n mod 16)]"

definition is_identifier_char :: "char \<Rightarrow> bool" where
  "is_identifier_char c \<longleftrightarrow>
     (let n = (of_char c :: nat) in 48 \<le> n \<and> n \<le> 57 \<or> 65 \<le> n \<and> n \<le> 90 \<or> 97 \<le> n \<and> n \<le> 122 \<or> n = 95)"

text \<open>A scalar of several bytes becomes one underscore, so its continuation bytes are skipped.\<close>

definition is_continuation :: "char \<Rightarrow> bool" where
  "is_continuation c \<longleftrightarrow> 128 \<le> (of_char c :: nat) \<and> (of_char c :: nat) < 192"

definition c_identifier :: "string \<Rightarrow> string" where
  "c_identifier name = map (\<lambda>c. if is_identifier_char c then c else CHR ''_'') (filter (\<lambda>c. \<not> is_continuation c) name)"

record resolved_names =
  rn_package :: "declaration_id \<Rightarrow> string option"
  rn_name :: "declaration_id \<Rightarrow> string"

record function_instance =
  fi_declaration :: declaration_id
  fi_arguments :: "type_id list"
  fi_self_type :: "type_id option"

definition mangle_declaration :: "resolved_names \<Rightarrow> declaration_id \<Rightarrow> string" where
  "mangle_declaration resolved declaration =
     (let package = (case rn_package resolved declaration of None \<Rightarrow> ''std'' | Some p \<Rightarrow> p) in
      ''el_p'' @ hex_digits 16 (unat (fnv1a64 package)) @ ''_d'' @ show_nat declaration @ ''_'' @ c_identifier (rn_name resolved declaration))"

definition mangle_function_instance :: "resolved_names \<Rightarrow> function_instance \<Rightarrow> string" where
  "mangle_function_instance resolved instance =
     mangle_declaration resolved (fi_declaration instance)
     @ concat (map (\<lambda>argument. ''_t'' @ show_nat argument) (fi_arguments instance))"

section \<open>Literals and comments\<close>

text \<open>\<open>\{:03o}\<close>\<close>

definition octal_escape :: "nat \<Rightarrow> string" where
  "octal_escape n = [CHR 0x5C, digit_char (n div 64), digit_char (n div 8 mod 8), digit_char (n mod 8)]"

definition escape_byte :: "char \<Rightarrow> string" where
  "escape_byte c =
     (if c = CHR 0x5C then [CHR 0x5C, CHR 0x5C]
      else if c = CHR 0x22 then [CHR 0x5C, CHR 0x22]
      else if c = CHR 0x0A then [CHR 0x5C, CHR ''n'']
      else if c = CHR 0x0D then [CHR 0x5C, CHR ''r'']
      else if c = CHR 0x09 then [CHR 0x5C, CHR ''t'']
      else if 32 \<le> (of_char c :: nat) \<and> (of_char c :: nat) \<le> 126 then [c]
      else octal_escape (of_char c))"

definition c_string :: "string \<Rightarrow> string" where
  "c_string value = [CHR 0x22] @ concat (map escape_byte value) @ [CHR 0x22]"

text \<open>\<open>replace\<close> with a pattern of two bytes: matches do not overlap\<close>

fun replace_close :: "string \<Rightarrow> string" where
  "replace_close (a # b # s) = (if a = CHR ''*'' \<and> b = CHR ''/'' then ''* /'' @ replace_close s else a # replace_close (b # s))"
| "replace_close s = s"

definition c_comment :: "string \<Rightarrow> string" where
  "c_comment value = map (\<lambda>c. if c = CHR 0x0A then CHR 0x20 else c) (replace_close value)"

end
