(* ===== verification/Backend_Unique.thy ===== *)
theory Backend_Unique
  imports Backend_Names
begin

text \<open>
  No two things of the backend share a C name: the names of types and helpers say what they are and which
  types they are for, and the names of functions say which instance they are.
\<close>

section \<open>What a name stands for\<close>

datatype (plugins only: size) c_name =
  CStruct declaration_id type_id | CEnum declaration_id type_id | CSlice type_id | CFunctionType type_id | CClosure type_id
| CConcatenate type_id | CAlternative numeric_alternative type_id type_id | CPointerCheck type_id
| CConversion numeric_outcome type_id type_id | CCall standard_call | CVariadicSlice type_id nat | CTuple type_id
| CArray type_id | CCollection type_id | CEquality type_id | COrdering type_id | CHash type_id | CDefault type_id
| CObject declaration_id type_id | CVtableType declaration_id type_id | CVtable declaration_id type_id type_id
| CThunk declaration_id type_id type_id nat

primrec c_name_text :: "c_name \<Rightarrow> string" where
  "c_name_text (CStruct d t) = struct_name d t"
| "c_name_text (CEnum d t) = enum_name d t"
| "c_name_text (CSlice t) = slice_name t"
| "c_name_text (CFunctionType t) = function_type_name t"
| "c_name_text (CClosure t) = closure_name t"
| "c_name_text (CConcatenate t) = concatenate_name t"
| "c_name_text (CAlternative a t u) = numeric_alternative_name a t u"
| "c_name_text (CPointerCheck t) = pointer_check_name t"
| "c_name_text (CConversion oc t u) = numeric_conversion_name oc t u"
| "c_name_text (CCall c) = standard_call_name c"
| "c_name_text (CVariadicSlice t n) = variadic_slice_name t n"
| "c_name_text (CTuple t) = tuple_name t"
| "c_name_text (CArray t) = array_name t"
| "c_name_text (CCollection t) = collection_type_name t"
| "c_name_text (CEquality t) = equality_helper_name t"
| "c_name_text (COrdering t) = ordering_helper_name t"
| "c_name_text (CHash t) = hash_helper_name t"
| "c_name_text (CDefault t) = default_helper_name t"
| "c_name_text (CObject d t) = object_name d t"
| "c_name_text (CVtableType d t) = vtable_type_name d t"
| "c_name_text (CVtable d t u) = vtable_instance_name d t u"
| "c_name_text (CThunk d t u n) = thunk_name d t u n"

text \<open>The types a helper for a standard operation is specialised by\<close>

primrec call_subjects :: "standard_call \<Rightarrow> nat list" where
  "call_subjects StdPanic = []"
| "call_subjects StdAssert = []"
| "call_subjects (StdFail value_type) = []"
| "call_subjects (StdTrap reason_type trait_declaration) = []"
| "call_subjects (StdClockNow clock_type monotonic) = [clock_type]"
| "call_subjects StdStringFrom = []"
| "call_subjects (StdClone value) = [value]"
| "call_subjects (StdBoxNew boxed value) = [boxed]"
| "call_subjects (StdBoxPointer boxed value mutable consuming) = [boxed]"
| "call_subjects (StdBoxFromRaw boxed value) = [boxed]"
| "call_subjects (StdMaybeUninitNew storage value) = [storage]"
| "call_subjects (StdMaybeUninitPointer storage value) = [storage]"
| "call_subjects (StdMaybeUninitAssumeInit storage value) = [storage]"
| "call_subjects (StdIntegerMax value) = [value]"
| "call_subjects (StdSharedNew shared value) = [shared]"
| "call_subjects (StdSharedGet shared value) = [shared]"
| "call_subjects (StdSharedDowngrade shared weak value) = [shared]"
| "call_subjects (StdWeakUpgrade weak shared value result) = [weak]"
| "call_subjects (StdStoreNew store value) = [store]"
| "call_subjects (StdStoreLen store) = [store]"
| "call_subjects (StdStoreIsEmpty store) = [store]"
| "call_subjects (StdStoreInsert store handle value) = [store]"
| "call_subjects (StdStoreGet store handle value mutable) = [store]"
| "call_subjects (StdStoreRemove store handle value) = [store]"
| "call_subjects (StdStoreCompact store) = [store]"
| "call_subjects (StdStoreClear store value) = [store]"
| "call_subjects (StdText operation result_type input_type) = [result_type]"
| "call_subjects (StdSystem operation result_type) = [result_type]"
| "call_subjects (StdIdentityFrom wrapper) = [wrapper]"
| "call_subjects (StdForeignRootRetain handle mutable) = [handle]"
| "call_subjects (StdForeignRootPointer handle mutable) = [handle]"
| "call_subjects (StdForeignRootClose handle) = [handle]"
| "call_subjects (StdThreadSpawn thread callable entry closure_entry return_type) = [thread, callable, entry]"
| "call_subjects (StdThreadJoin thread return_type) = [thread]"
| "call_subjects (StdThreadIsFinished thread) = [thread]"
| "call_subjects (StdThreadScope scope callable entry closure_entry return_type) = [scope, callable]"
| "call_subjects (StdScopedThreadSpawn scope thread callable entry closure_entry return_type) = [thread, callable]"
| "call_subjects (StdScopedThreadJoin thread return_type) = [thread]"
| "call_subjects (StdChannelCreate sender receiver element bounded) = [element]"
| "call_subjects (StdChannelSend sender element nonblocking) = [sender]"
| "call_subjects (StdChannelReceive receiver element nonblocking) = [receiver]"
| "call_subjects (StdChannelClose handle sender) = [handle]"
| "call_subjects (StdMutexNew mutex value_type) = [mutex]"
| "call_subjects (StdMutexLock mutex guard value_type) = [mutex]"
| "call_subjects (StdMutexGuardGet guard value_type mutable) = [guard]"
| "call_subjects (StdMutexRead mutex value_type) = [mutex]"
| "call_subjects (StdMutexReplace mutex value_type) = [mutex]"
| "call_subjects (StdMutexUpdate mutex value_type callable entry closure_entry) = [mutex, callable]"
| "call_subjects (StdAtomicNew atomic value_type) = [atomic]"
| "call_subjects (StdAtomicLoad atomic value_type) = [atomic]"
| "call_subjects (StdAtomicStore atomic value_type) = [atomic]"
| "call_subjects (StdAtomicExchange atomic value_type) = [atomic]"
| "call_subjects (StdAtomicCompareExchange atomic value_type) = [atomic]"
| "call_subjects (StdAtomicFetchAdd atomic value_type subtract) = [atomic]"
| "call_subjects (StdFormatterWrite formatter) = [formatter]"
| "call_subjects (StdArrayLen collection) = [collection]"
| "call_subjects (StdArrayGet collection) = [collection]"
| "call_subjects (StdSliceLen collection) = [collection]"
| "call_subjects (StdVecNew collection) = [collection]"
| "call_subjects (StdVecLen collection) = [collection]"
| "call_subjects (StdVecIsEmpty collection) = [collection]"
| "call_subjects (StdVecGet collection) = [collection]"
| "call_subjects (StdVecGetVar collection) = [collection]"
| "call_subjects (StdVecAppend collection) = [collection]"
| "call_subjects (StdVecInsert collection) = [collection]"
| "call_subjects (StdVecRemove collection) = [collection]"
| "call_subjects (StdVecPop collection) = [collection]"
| "call_subjects (StdVecClear collection) = [collection]"
| "call_subjects (StdMapNew collection) = [collection]"
| "call_subjects (StdMapLen collection) = [collection]"
| "call_subjects (StdMapIsEmpty collection) = [collection]"
| "call_subjects (StdMapContainsKey collection) = [collection]"
| "call_subjects (StdMapGet collection) = [collection]"
| "call_subjects (StdMapGetVar collection) = [collection]"
| "call_subjects (StdMapInsert collection) = [collection]"
| "call_subjects (StdMapRemove collection) = [collection]"
| "call_subjects (StdMapClear collection) = [collection]"
| "call_subjects (StdSetNew collection) = [collection]"
| "call_subjects (StdSetLen collection) = [collection]"
| "call_subjects (StdSetIsEmpty collection) = [collection]"
| "call_subjects (StdSetContains collection) = [collection]"
| "call_subjects (StdSetInsert collection) = [collection]"
| "call_subjects (StdSetRemove collection) = [collection]"
| "call_subjects (StdSetClear collection) = [collection]"

primrec name_indices :: "c_name \<Rightarrow> nat list" where
  "name_indices (CStruct d t) = [d, t]"
| "name_indices (CEnum d t) = [d, t]"
| "name_indices (CSlice t) = [t]"
| "name_indices (CFunctionType t) = [t]"
| "name_indices (CClosure t) = [t]"
| "name_indices (CConcatenate t) = [t]"
| "name_indices (CAlternative a t u) = [t, u]"
| "name_indices (CPointerCheck t) = [t]"
| "name_indices (CConversion oc t u) = [t, u]"
| "name_indices (CCall c) = call_subjects c"
| "name_indices (CVariadicSlice t n) = [t, n]"
| "name_indices (CTuple t) = [t]"
| "name_indices (CArray t) = [t]"
| "name_indices (CCollection t) = [t]"
| "name_indices (CEquality t) = [t]"
| "name_indices (COrdering t) = [t]"
| "name_indices (CHash t) = [t]"
| "name_indices (CDefault t) = [t]"
| "name_indices (CObject d t) = [d, t]"
| "name_indices (CVtableType d t) = [d, t]"
| "name_indices (CVtable d t u) = [d, t, u]"
| "name_indices (CThunk d t u n) = [d, t, u, n]"

text \<open>
  What remains of a name without its types: the operation and the flags that select a helper. A name does not tell the
  mutability and consumption of a pointer, the function a scope, a scoped thread or a mutex update calls, whether that is a
  closure, or the trait of a trap; these are erased too.
\<close>

definition erased_call :: "standard_call \<Rightarrow> standard_call" where
  "erased_call c = map_types (\<lambda>_. 0)
     (case c of
        StdTrap r d \<Rightarrow> StdTrap r 0
      | StdBoxPointer b v m k \<Rightarrow> StdBoxPointer b v False False
      | StdForeignRootRetain h m \<Rightarrow> StdForeignRootRetain h False
      | StdForeignRootPointer h m \<Rightarrow> StdForeignRootPointer h False
      | StdThreadSpawn t u e k r \<Rightarrow> StdThreadSpawn t u 0 False r
      | StdThreadScope s u e k r \<Rightarrow> StdThreadScope s u 0 False r
      | StdScopedThreadSpawn s t u e k r \<Rightarrow> StdScopedThreadSpawn s t u 0 False r
      | StdMutexUpdate m v u e k \<Rightarrow> StdMutexUpdate m v u 0 False
      | _ \<Rightarrow> c)"

primrec erased_name :: "c_name \<Rightarrow> c_name" where
  "erased_name (CStruct d t) = CStruct 0 0"
| "erased_name (CEnum d t) = CEnum 0 0"
| "erased_name (CSlice t) = CSlice 0"
| "erased_name (CFunctionType t) = CFunctionType 0"
| "erased_name (CClosure t) = CClosure 0"
| "erased_name (CConcatenate t) = CConcatenate 0"
| "erased_name (CAlternative a t u) = CAlternative a 0 0"
| "erased_name (CPointerCheck t) = CPointerCheck 0"
| "erased_name (CConversion oc t u) = CConversion oc 0 0"
| "erased_name (CCall c) = CCall (erased_call c)"
| "erased_name (CVariadicSlice t n) = CVariadicSlice 0 0"
| "erased_name (CTuple t) = CTuple 0"
| "erased_name (CArray t) = CArray 0"
| "erased_name (CCollection t) = CCollection 0"
| "erased_name (CEquality t) = CEquality 0"
| "erased_name (COrdering t) = COrdering 0"
| "erased_name (CHash t) = CHash 0"
| "erased_name (CDefault t) = CDefault 0"
| "erased_name (CObject d t) = CObject 0 0"
| "erased_name (CVtableType d t) = CVtableType 0 0"
| "erased_name (CVtable d t u) = CVtable 0 0 0"
| "erased_name (CThunk d t u n) = CThunk 0 0 0 0"

text \<open>The names of numeric alternatives are those of the language's own operations.\<close>

definition known_name :: "c_name \<Rightarrow> bool" where
  "known_name x \<longleftrightarrow> (case x of CAlternative a t u \<Rightarrow> alternative_from_name (na_name a) = Some a | _ \<Rightarrow> True)"

section \<open>Reading a name\<close>

text \<open>The numbers of a name, and what is left of it without them\<close>

function numbers :: "string \<Rightarrow> nat list" where
  "numbers [] = []"
| "numbers (c # s) =
     (if is_digit c then read_digits 0 (c # takeWhile is_digit s) # numbers (dropWhile is_digit s) else numbers s)"
  by pat_completeness auto
termination by (relation "measure length") (simp_all add: le_imp_less_Suc length_dropWhile_le)

definition stem :: "string \<Rightarrow> string" where
  "stem s = filter (\<lambda>c. \<not> is_digit c) s"

lemma plain_characters: "\<forall>c \<in> set ''abcdefghijklmnopqrstuvwxyz_''. \<not> is_digit c"
  by (simp add: is_digit_def)

lemmas plain_character = plain_characters [simplified ball_simps list.set insert_iff, simplified]

lemma show_nat_head: "\<exists>d ds. show_nat n = d # ds \<and> is_digit d \<and> list_all is_digit ds"
  using show_nat_digits [of _ n] by (cases "show_nat n") (auto simp: list_all_iff)

lemma numbers_skip: "\<not> is_digit c \<Longrightarrow> numbers (c # s) = numbers s"
  by simp

lemma numbers_show_append:
  assumes "s = [] \<or> \<not> is_digit (hd s)"
  shows "numbers (show_nat n @ s) = n # numbers s"
proof -
  obtain d ds where d: "show_nat n = d # ds" "is_digit d" "list_all is_digit ds" using show_nat_head by blast
  have "takeWhile is_digit (ds @ s) = ds" "dropWhile is_digit (ds @ s) = s"
    using assms d(3) by (cases s; simp add: list_all_iff takeWhile_append2 dropWhile_append2)+
  then show ?thesis using d read_digits_show_nat [of n] by simp
qed

lemma numbers_show: "numbers (show_nat n) = [n]"
  using numbers_show_append [of "[]" n] by simp

lemma numbers_show_then: "\<not> is_digit c \<Longrightarrow> numbers (show_nat n @ c # s) = n # numbers s"
  using numbers_show_append [of "c # s" n] by simp

lemma numbers_plain: "list_all (\<lambda>c. \<not> is_digit c) a \<Longrightarrow> numbers (a @ s) = numbers s"
  by (induction a) simp_all

lemma stem_append: "stem (a @ b) = stem a @ stem b"
  by (simp add: stem_def)

lemma stem_show: "stem (show_nat n) = []"
  using show_nat_digits [of _ n] by (simp add: stem_def filter_empty_conv)

lemma stem_plain: "list_all (\<lambda>c. \<not> is_digit c) a \<Longrightarrow> stem a = a"
  by (simp add: stem_def filter_id_conv list_all_iff)

lemma stem_skip: "\<not> is_digit c \<Longrightarrow> stem (c # s) = c # stem s" "stem [] = []"
  by (simp_all add: stem_def)

lemmas name_defs = struct_name_def enum_name_def slice_name_def function_type_name_def closure_name_def concatenate_name_def
  numeric_alternative_name_def pointer_check_name_def numeric_conversion_name_def variadic_slice_name_def tuple_name_def
  array_name_def collection_type_name_def equality_helper_name_def ordering_helper_name_def hash_helper_name_def
  default_helper_name_def object_name_def vtable_type_name_def vtable_instance_name_def thunk_name_def 

lemmas numbers_rules = numbers_skip numbers_show numbers_show_then numbers.simps(1) plain_character append.simps

lemmas stem_rules = stem_append stem_show stem_skip plain_character append.simps append_Nil2

lemma text_operation_plain: "list_all (\<lambda>c. \<not> is_digit c) (text_operation_name t)"
  by (cases t) (simp_all add: text_operation_name_def plain_character)

lemma system_operation_plain: "list_all (\<lambda>c. \<not> is_digit c) (system_operation_name s)"
  by (cases s) (simp_all add: system_operation_name_def plain_character)

lemmas numbers_operation = text_operation_plain [THEN numbers_plain] system_operation_plain [THEN numbers_plain]

lemma numbers_call: "numbers (standard_call_name c) = call_subjects c"
  by (cases c)
    (simp_all only: standard_call_name.simps call_subjects.simps if_distrib [of "\<lambda>x. x @ _"] if_distrib [of numbers]
      numbers_operation numbers_rules
      if_cancel not_False_eq_True)

text \<open>The alternatives a program can call\<close>

definition standard_alternatives :: "numeric_alternative list" where
  "standard_alternatives = map (\<lambda>(n, oc, op). \<lparr>na_name = n, na_outcome = oc, na_operator = op\<rparr>) alternative_names"

lemma alternatives_listed:
  assumes "alternative_from_name n = Some a"
  shows "a \<in> set standard_alternatives"
  using assms unfolding alternative_from_name_def standard_alternatives_def alternative_names_def
  by (auto simp: canonical_name_def split: if_splits)

lemma standard_alternatives_plain:
  "\<forall>a \<in> set standard_alternatives. list_all (\<lambda>c. \<not> is_digit c) (na_name a)"
  by (simp add: standard_alternatives_def alternative_names_def plain_character)

lemma known_alternative:
  assumes "known_name (CAlternative a t u)"
  shows "a \<in> set standard_alternatives" "list_all (\<lambda>c. \<not> is_digit c) (na_name a)"
  using assms alternatives_listed standard_alternatives_plain by (auto simp: known_name_def)

lemma numbers_alternative: "known_name (CAlternative a t u) \<Longrightarrow> numbers (na_name a @ s) = numbers s"
  by (rule numbers_plain) (rule known_alternative)

lemma numbers_conversion: "numbers (conversion_stem oc @ s) = numbers s"
  by (cases oc) (simp_all add: conversion_stem_def plain_character)

lemma numbers_name: "known_name x \<Longrightarrow> numbers (c_name_text x) = name_indices x"
  by (cases x)
    (simp_all only: c_name_text.simps name_indices.simps name_defs numbers_call numbers_conversion numbers_rules
      numbers_alternative not_False_eq_True)

section \<open>The names without their numbers\<close>

definition alternative :: "string \<Rightarrow> numeric_outcome \<Rightarrow> numeric_operator \<Rightarrow> numeric_alternative" where
  "alternative n oc op = \<lparr>na_name = n, na_outcome = oc, na_operator = op\<rparr>"

definition erased_names :: "c_name list" where
  "erased_names =
    [CCall (StdArrayGet 0), CCall (StdArrayLen 0), CArray 0, CCall StdAssert, CCall (StdFail 0),
     CCall (StdAtomicCompareExchange 0 0), CCall (StdAtomicExchange 0 0), CCall (StdAtomicFetchAdd 0 0 False),
     CCall (StdAtomicFetchAdd 0 0 True), CCall (StdAtomicLoad 0 0), CCall (StdAtomicNew 0 0),
     CCall (StdAtomicStore 0 0), CCall (StdBoxFromRaw 0 0), CCall (StdBoxNew 0 0),
     CCall (StdBoxPointer 0 0 False False), CCall (StdChannelCreate 0 0 0 True), CCall (StdChannelClose 0 False),
     CCall (StdChannelClose 0 True), CCall (StdChannelReceive 0 0 False), CCall (StdChannelSend 0 0 False),
     CCall (StdChannelReceive 0 0 True), CCall (StdChannelSend 0 0 True), CCall (StdChannelCreate 0 0 0 False),
     CPointerCheck 0, CAlternative (alternative ''checked_add'' Checked OpAdd) 0 0,
     CAlternative (alternative ''checked_div'' Checked OpDivide) 0 0,
     CAlternative (alternative ''checked_mul'' Checked OpMultiply) 0 0,
     CAlternative (alternative ''checked_neg'' Checked OpNegate) 0 0,
     CAlternative (alternative ''checked_rem'' Checked OpRemainder) 0 0,
     CAlternative (alternative ''checked_shl'' Checked OpShiftLeft) 0 0,
     CAlternative (alternative ''checked_shr'' Checked OpShiftRight) 0 0,
     CAlternative (alternative ''checked_sub'' Checked OpSubtract) 0 0, CCall (StdClone 0), CClosure 0,
     CConcatenate 0, CDefault 0, CCall (StdSystem SystemDirectoryClose 0), CCall (StdSystem SystemDirectoryNext 0),
     CEnum 0 0, CCall (StdSystem SystemArgs 0), CCall (StdSystem SystemCurrentDir 0),
     CCall (StdSystem SystemEnvGet 0), CEquality 0, CCall (StdSystem SystemFileClose 0),
     CCall (StdSystem SystemFileMetadata 0), CCall (StdSystem SystemFileReadToEnd 0),
     CCall (StdSystem SystemFileWriteAll 0), CFunctionType 0, CCall (StdForeignRootClose 0),
     CCall (StdForeignRootPointer 0 False), CCall (StdForeignRootRetain 0 False), CCall (StdFormatterWrite 0),
     CCall (StdSystem SystemCreateDir 0), CCall (StdSystem SystemMetadata 0), CCall (StdSystem SystemOpen 0),
     CCall (StdSystem SystemReadDir 0), CCall (StdSystem SystemRemoveDir 0), CCall (StdSystem SystemRemoveFile 0),
     CCall (StdSystem SystemRename 0), CHash 0, CCall (StdIdentityFrom 0), CCall (StdIntegerMax 0),
     CCall (StdMapClear 0), CCall (StdMapContainsKey 0), CCall (StdMapGet 0), CCall (StdMapGetVar 0),
     CCall (StdMapInsert 0), CCall (StdMapIsEmpty 0), CCall (StdMapLen 0), CCall (StdMapNew 0),
     CCall (StdMapRemove 0), CCall (StdMaybeUninitAssumeInit 0 0), CCall (StdMaybeUninitNew 0 0),
     CCall (StdMaybeUninitPointer 0 0), CCall (StdClockNow 0 True), CCall (StdMutexGuardGet 0 0 False),
     CCall (StdMutexGuardGet 0 0 True), CCall (StdMutexLock 0 0 0), CCall (StdMutexNew 0 0), CCall (StdMutexRead 0 0),
     CCall (StdMutexReplace 0 0), CCall (StdMutexUpdate 0 0 0 0 False), CObject 0 0, COrdering 0, CCall StdPanic,
     CCall (StdSystem SystemPathView 0), CCall (StdSystem SystemProcessExit 0), CCall (StdSystem SystemProcessRun 0),
     CCollection 0, CAlternative (alternative ''saturating_add'' Saturating OpAdd) 0 0, CConversion Saturating 0 0,
     CAlternative (alternative ''saturating_mul'' Saturating OpMultiply) 0 0,
     CAlternative (alternative ''saturating_sub'' Saturating OpSubtract) 0 0, CCall (StdScopedThreadJoin 0 0),
     CCall (StdScopedThreadSpawn 0 0 0 0 False 0), CCall (StdSetClear 0), CCall (StdSetContains 0),
     CCall (StdSetInsert 0), CCall (StdSetIsEmpty 0), CCall (StdSetLen 0), CCall (StdSetNew 0),
     CCall (StdSetRemove 0), CCall (StdSharedDowngrade 0 0 0), CCall (StdSharedGet 0 0), CCall (StdSharedNew 0 0),
     CCall (StdSliceLen 0), CSlice 0, CCall (StdStoreClear 0 0), CCall (StdStoreCompact 0),
     CCall (StdStoreGet 0 0 0 False), CCall (StdStoreGet 0 0 0 True), CCall (StdStoreInsert 0 0 0),
     CCall (StdStoreIsEmpty 0), CCall (StdStoreLen 0), CCall (StdStoreNew 0 0), CCall (StdStoreRemove 0 0 0),
     CCall StdStringFrom, CStruct 0 0, CCall (StdClockNow 0 False), CCall (StdText TextByteLen 0 0),
     CCall (StdText TextFromChars 0 0), CCall (StdText TextNextScalar 0 0), CCall (StdText TextSliceBytes 0 0),
     CCall (StdText TextStringView 0 0), CCall (StdThreadIsFinished 0), CCall (StdThreadJoin 0 0),
     CCall (StdThreadScope 0 0 0 False 0), CCall (StdThreadSpawn 0 0 0 False 0), CThunk 0 0 0 0,
     CConversion Checked 0 0, CTuple 0, CCall (StdTrap 0 0), CVariadicSlice 0 0, CCall (StdVecAppend 0),
     CCall (StdVecClear 0), CCall (StdVecGet 0), CCall (StdVecGetVar 0), CCall (StdVecInsert 0),
     CCall (StdVecIsEmpty 0), CCall (StdVecLen 0), CCall (StdVecNew 0), CCall (StdVecPop 0), CCall (StdVecRemove 0),
     CVtableType 0 0, CVtable 0 0 0, CCall (StdWeakUpgrade 0 0 0 0),
     CAlternative (alternative ''wrapping_add'' Wrapping OpAdd) 0 0,
     CAlternative (alternative ''wrapping_div'' Wrapping OpDivide) 0 0, CConversion Wrapping 0 0,
     CAlternative (alternative ''wrapping_mul'' Wrapping OpMultiply) 0 0,
     CAlternative (alternative ''wrapping_neg'' Wrapping OpNegate) 0 0,
     CAlternative (alternative ''wrapping_rem'' Wrapping OpRemainder) 0 0,
     CAlternative (alternative ''wrapping_shl'' Wrapping OpShiftLeft) 0 0,
     CAlternative (alternative ''wrapping_shr'' Wrapping OpShiftRight) 0 0,
     CAlternative (alternative ''wrapping_sub'' Wrapping OpSubtract) 0 0]"

definition erased_stems :: "string list" where
  "erased_stems =
    [''el_array_get_t'', ''el_array_len_t'', ''el_array_t'', ''el_assert'', ''el_assert_fail'',
     ''el_atomic_compare_exchange_t'', ''el_atomic_exchange_t'', ''el_atomic_fetch_add_t'', ''el_atomic_fetch_sub_t'',
     ''el_atomic_load_t'', ''el_atomic_new_t'', ''el_atomic_store_t'', ''el_box_from_raw_t'', ''el_box_new_t'',
     ''el_box_pointer_t'', ''el_channel_bounded_t'', ''el_channel_close_receiver_t'', ''el_channel_close_sender_t'',
     ''el_channel_receive_t'', ''el_channel_send_t'', ''el_channel_try_receive_t'', ''el_channel_try_send_t'',
     ''el_channel_unbounded_t'', ''el_check_ptr_t'', ''el_checked_add_t_t'', ''el_checked_div_t_t'',
     ''el_checked_mul_t_t'', ''el_checked_neg_t_t'', ''el_checked_rem_t_t'', ''el_checked_shl_t_t'',
     ''el_checked_shr_t_t'', ''el_checked_sub_t_t'', ''el_clone_t'', ''el_closure_t'', ''el_concat_t'',
     ''el_default_t'', ''el_directory_close_t'', ''el_directory_next_t'', ''el_enum_d_t'', ''el_env_args_t'',
     ''el_env_current_dir_t'', ''el_env_get_t'', ''el_eq_t'', ''el_file_close_t'', ''el_file_metadata_t'',
     ''el_file_read_to_end_t'', ''el_file_write_all_t'', ''el_fn_t'', ''el_foreign_root_close_t'',
     ''el_foreign_root_pointer_t'', ''el_foreign_root_retain_t'', ''el_formatter_write_t'', ''el_fs_create_dir_t'',
     ''el_fs_metadata_t'', ''el_fs_open_t'', ''el_fs_read_dir_t'', ''el_fs_remove_dir_t'', ''el_fs_remove_file_t'',
     ''el_fs_rename_t'', ''el_hash_t'', ''el_identity_from_t'', ''el_integer_max_t'', ''el_map_clear_t'',
     ''el_map_contains_key_t'', ''el_map_get_t'', ''el_map_get_var_t'', ''el_map_insert_t'', ''el_map_is_empty_t'',
     ''el_map_len_t'', ''el_map_new_t'', ''el_map_remove_t'', ''el_maybe_uninit_assume_init_t'',
     ''el_maybe_uninit_new_t'', ''el_maybe_uninit_pointer_t'', ''el_monotonic_now_t'', ''el_mutex_guard_get_t'',
     ''el_mutex_guard_get_var_t'', ''el_mutex_lock_t'', ''el_mutex_new_t'', ''el_mutex_read_t'',
     ''el_mutex_replace_t'', ''el_mutex_update_t_t'', ''el_obj_t'', ''el_ord_t'', ''el_panic'', ''el_path_view_t'',
     ''el_process_exit_t'', ''el_process_run_t'', ''el_runtime_t'', ''el_saturating_add_t_t'',
     ''el_saturating_from_t_t'', ''el_saturating_mul_t_t'', ''el_saturating_sub_t_t'', ''el_scoped_thread_join_t'',
     ''el_scoped_thread_spawn_t_t'', ''el_set_clear_t'', ''el_set_contains_t'', ''el_set_insert_t'',
     ''el_set_is_empty_t'', ''el_set_len_t'', ''el_set_new_t'', ''el_set_remove_t'', ''el_shared_downgrade_t'',
     ''el_shared_get_t'', ''el_shared_new_t'', ''el_slice_len_t'', ''el_slice_t'', ''el_store_clear_t'',
     ''el_store_compact_t'', ''el_store_get_t'', ''el_store_get_var_t'', ''el_store_insert_t'',
     ''el_store_is_empty_t'', ''el_store_len_t'', ''el_store_new_t'', ''el_store_remove_t'', ''el_string_from'',
     ''el_struct_d_t'', ''el_system_now_t'', ''el_text_byte_len_t'', ''el_text_from_chars_t'',
     ''el_text_next_scalar_t'', ''el_text_slice_bytes_t'', ''el_text_string_view_t'', ''el_thread_is_finished_t'',
     ''el_thread_join_t'', ''el_thread_scope_t_t'', ''el_thread_spawn_t_t_d'', ''el_thunk___'', ''el_try_from_t_t'',
     ''el_tuple_t'', ''el_typed_trap'', ''el_variadic_t_n'', ''el_vec_append_t'', ''el_vec_clear_t'',
     ''el_vec_get_t'', ''el_vec_get_var_t'', ''el_vec_insert_t'', ''el_vec_is_empty_t'', ''el_vec_len_t'',
     ''el_vec_new_t'', ''el_vec_pop_t'', ''el_vec_remove_t'', ''el_vt_t'', ''el_vtbl__'', ''el_weak_upgrade_t'',
     ''el_wrapping_add_t_t'', ''el_wrapping_div_t_t'', ''el_wrapping_from_t_t'', ''el_wrapping_mul_t_t'',
     ''el_wrapping_neg_t_t'', ''el_wrapping_rem_t_t'', ''el_wrapping_shl_t_t'', ''el_wrapping_shr_t_t'',
     ''el_wrapping_sub_t_t'']"

text \<open>The stems are in alphabetical order, so no two are the same.\<close>

fun comes_before :: "string \<Rightarrow> string \<Rightarrow> bool" where
  "comes_before s [] = False"
| "comes_before [] (c # s) = True"
| "comes_before (a # s) (b # t) = (if a = b then comes_before s t else (of_char a :: nat) < of_char b)"

lemma comes_before_trans: "comes_before s t \<Longrightarrow> comes_before t u \<Longrightarrow> comes_before s u"
proof (induction s t arbitrary: u rule: comes_before.induct)
  case (3 a s b t)
  then show ?case by (cases u) (auto split: if_splits)
next
  case (2 c s)
  then show ?case by (cases u) auto
qed simp

lemma comes_before_irrefl: "\<not> comes_before s s"
  by (induction s) simp_all

lemma in_order_distinct:
  assumes "successively comes_before ss"
  shows "distinct ss"
proof -
  have "sorted_wrt comes_before ss"
    using assms comes_before_trans by (subst (asm) successively_conv_sorted_wrt) (auto intro: transpI)
  then show ?thesis using comes_before_irrefl by (induction ss) auto
qed

lemma erased_stems_distinct: "distinct erased_stems"
  by (rule in_order_distinct) (simp add: erased_stems_def)

lemma erased_stems: "map (\<lambda>x. stem (c_name_text x)) erased_names = erased_stems"
  unfolding erased_names_def erased_stems_def
  by (simp only: list.map c_name_text.simps standard_call_name.simps name_defs text_operation_name_def
      system_operation_name_def conversion_stem_def text_operation.case system_operation.case numeric_outcome.case
      if_True if_False alternative_def numeric_alternative.simps stem_rules not_False_eq_True)

lemma stem_call: "stem (standard_call_name c) = stem (standard_call_name (erased_call c))"
  by (cases c)
    (simp_all only: erased_call_def standard_call.case map_types.simps standard_call_name.simps stem_append stem_show)

lemma stem_name: "stem (c_name_text x) = stem (c_name_text (erased_name x))"
  by (cases x)
    (simp_all only: c_name_text.simps erased_name.simps name_defs stem_append stem_show stem_call [symmetric])

lemma text_listed: "CCall (StdText t 0 0) \<in> set erased_names"
  by (cases t) (simp_all add: erased_names_def)

lemma system_listed: "CCall (StdSystem s 0) \<in> set erased_names"
  by (cases s) (simp_all add: erased_names_def)

lemma erased_call_listed: "CCall (erased_call c) \<in> set erased_names"
  by (cases c) (simp_all add: erased_call_def text_listed system_listed, simp_all add: erased_names_def)

lemma erased_alternative_listed:
  assumes "known_name (CAlternative a t u)"
  shows "CAlternative a 0 0 \<in> set erased_names"
  using known_alternative(1) [OF assms]
  by (auto simp: standard_alternatives_def alternative_names_def erased_names_def alternative_def)

lemma erased_conversion_listed: "CConversion oc 0 0 \<in> set erased_names"
  by (cases oc) (simp_all add: erased_names_def)

lemma erased_name_listed: "known_name x \<Longrightarrow> erased_name x \<in> set erased_names"
  by (cases x) (simp_all add: erased_call_listed erased_alternative_listed erased_conversion_listed, simp_all add: erased_names_def)

lemma stems_injective: "inj_on (\<lambda>x. stem (c_name_text x)) (set erased_names)"
  using erased_stems_distinct by (simp add: erased_stems [symmetric] distinct_map)


text \<open>Numbering a name anew: each run of digits becomes the next number.\<close>

function stamp :: "string \<Rightarrow> nat list \<Rightarrow> string" where
  "stamp [] ns = []"
| "stamp (c # s) ns =
     (if is_digit c
      then (case ns of [] \<Rightarrow> [] | n # ms \<Rightarrow> show_nat n @ stamp (dropWhile is_digit s) ms)
      else c # stamp s ns)"
  by pat_completeness auto
termination by (relation "measure (length \<circ> fst)") (simp_all add: le_imp_less_Suc length_dropWhile_le)

lemma stamp_skip: "\<not> is_digit c \<Longrightarrow> stamp (c # s) ns = c # stamp s ns"
  by simp

lemma stamp_show_append:
  assumes "s = [] \<or> \<not> is_digit (hd s)"
  shows "stamp (show_nat m @ s) (n # ns) = show_nat n @ stamp s ns"
proof -
  obtain d ds where d: "show_nat m = d # ds" "is_digit d" "list_all is_digit ds" using show_nat_head by blast
  have "dropWhile is_digit (ds @ s) = s" using assms d(3) by (cases s) (simp_all add: list_all_iff dropWhile_append2)
  then show ?thesis using d by simp
qed

lemma stamp_show: "stamp (show_nat m) [n] = show_nat n"
  using stamp_show_append [of "[]" m n "[]"] by simp

lemma stamp_show_then: "\<not> is_digit c \<Longrightarrow> stamp (show_nat m @ c # s) (n # ns) = show_nat n @ c # stamp s ns"
  using stamp_show_append [of "c # s" m n ns] by simp

lemma stamp_plain: "list_all (\<lambda>c. \<not> is_digit c) a \<Longrightarrow> stamp (a @ s) ns = a @ stamp s ns"
  by (induction a) simp_all

lemmas stamp_rules = stamp_skip stamp_show stamp_show_then stamp.simps(1) plain_character append.simps

lemmas stamp_operation = text_operation_plain [THEN stamp_plain] system_operation_plain [THEN stamp_plain]

lemma stamp_call: "stamp (standard_call_name (erased_call c)) (call_subjects c) = standard_call_name c"
  by (cases c)
    (simp_all only: erased_call_def standard_call.case map_types.simps standard_call_name.simps call_subjects.simps
      if_distrib [of "\<lambda>x. x @ _"] if_distrib [of "\<lambda>x. stamp x _"] stamp_operation stamp_rules if_cancel not_False_eq_True)

lemma stamp_alternative: "known_name (CAlternative a t u) \<Longrightarrow> stamp (na_name a @ s) ns = na_name a @ stamp s ns"
  by (rule stamp_plain) (rule known_alternative)

lemma stamp_conversion: "stamp (conversion_stem oc @ s) ns = conversion_stem oc @ stamp s ns"
  by (cases oc) (simp_all add: conversion_stem_def plain_character)

lemma stamp_name: "known_name x \<Longrightarrow> stamp (c_name_text (erased_name x)) (name_indices x) = c_name_text x"
  by (cases x)
    (simp_all only: c_name_text.simps erased_name.simps name_indices.simps name_defs stamp_call stamp_conversion stamp_rules
      stamp_alternative not_False_eq_True)

text \<open>
  C37: Two names of C types and helpers are the same exactly when they stand for the same type or operation with the same
  printed indices, up to what the names leave out: two helpers that differ only in the flags and functions \<open>erased_call\<close> drops,
  or in types that are not subjects of the call, have one name.
\<close>

theorem c_names_unique:
  assumes "known_name x" "known_name y"
  shows "c_name_text x = c_name_text y \<longleftrightarrow> erased_name x = erased_name y \<and> name_indices x = name_indices y"
proof
  assume eq: "c_name_text x = c_name_text y"
  then have "stem (c_name_text (erased_name x)) = stem (c_name_text (erased_name y))"
    by (simp add: stem_name [symmetric])
  then have "erased_name x = erased_name y"
    using assms by (intro inj_onD [OF stems_injective]) (simp_all add: erased_name_listed)
  moreover have "name_indices x = name_indices y"
    using assms eq by (simp flip: numbers_name)
  ultimately show "erased_name x = erased_name y \<and> name_indices x = name_indices y" ..
next
  assume "erased_name x = erased_name y \<and> name_indices x = name_indices y"
  then show "c_name_text x = c_name_text y" using stamp_name [OF assms(1)] stamp_name [OF assms(2)] by metis
qed

lemma c_names_unique_witness:
  "c_name_text (CCall (StdVecLen 3)) \<noteq> c_name_text (CCall (StdMapLen 3))
   \<and> c_name_text (CCall (StdVecLen 3)) \<noteq> c_name_text (CCall (StdVecLen 4))"
  using c_names_unique [of "CCall (StdVecLen 3)" "CCall (StdMapLen 3)"]
    c_names_unique [of "CCall (StdVecLen 3)" "CCall (StdVecLen 4)"]
  by (simp add: known_name_def erased_call_def)

end
