(* ===== verification/Backend_Symbols.thy ===== *)
theory Backend_Symbols
  imports Backend_Unique
begin

text \<open>
  Function symbols and literals of the generated C: a symbol says which instance it stands for, is a C identifier and is
  not the name of a helper; a string literal denotes the bytes it was made from; a comment does not end early.
\<close>

section \<open>Symbols\<close>

definition is_hex :: "char \<Rightarrow> bool" where
  "is_hex c \<longleftrightarrow> is_digit c \<or> 97 \<le> (of_char c :: nat) \<and> (of_char c :: nat) \<le> 102"

lemma hex_char_is_hex: "d < 16 \<Longrightarrow> is_hex (hex_char d)"
  by (auto simp: hex_char_def is_hex_def is_digit_def)

lemma length_hex_digits [simp]: "length (hex_digits k n) = k"
  by (induction k arbitrary: n) simp_all

lemma hex_digits_are_hex: "list_all is_hex (hex_digits k n)"
  by (induction k arbitrary: n) (simp_all add: hex_char_is_hex)

text \<open>Reading a symbol back: the hash has a fixed length, and every number ends at the next underscore.\<close>

lemma numbers_arguments: "numbers (concat (map (\<lambda>a. ''_t'' @ show_nat a) xs)) = xs"
proof (induction xs)
  case (Cons x xs)
  have "concat (map (\<lambda>a. ''_t'' @ show_nat a) xs) = [] \<or> \<not> is_digit (hd (concat (map (\<lambda>a. ''_t'' @ show_nat a) xs)))"
    by (cases xs) (simp_all add: plain_character)
  then show ?case using Cons by (simp add: plain_character numbers_show_append)
qed simp

lemma hash_prefix_cancel:
  "''el_p'' @ hex_digits 16 m @ s = ''el_p'' @ hex_digits 16 n @ t \<Longrightarrow> s = t"
  by (simp add: append_eq_append_conv)

lemma number_prefix_cancel:
  assumes "show_nat m @ ''_'' @ s = show_nat n @ ''_'' @ t"
  shows "m = n \<and> s = t"
proof -
  have "m # numbers s = n # numbers t"
    using arg_cong [OF assms, of numbers] by (simp add: numbers_show_then plain_character)
  then show ?thesis using assms by simp
qed

lemma mangle_declaration_cancel:
  assumes "mangle_declaration r d @ s = mangle_declaration r e @ t"
  shows "d = e \<and> s = t"
proof -
  have "show_nat d @ ''_'' @ c_identifier (rn_name r d) @ s = show_nat e @ ''_'' @ c_identifier (rn_name r e) @ t"
    using assms by (simp add: mangle_declaration_def Let_def append_eq_append_conv)
  from number_prefix_cancel [OF this] show ?thesis by auto
qed

text \<open>
  C38: Two function instances of a program have the same symbol exactly when they instantiate the same declaration with
  the same arguments.
\<close>

theorem mangled_unique:
  "mangle_function_instance r f = mangle_function_instance r g
   \<longleftrightarrow> fi_declaration f = fi_declaration g \<and> fi_arguments f = fi_arguments g"
proof
  assume "mangle_function_instance r f = mangle_function_instance r g"
  then have "fi_declaration f = fi_declaration g"
    and eq: "concat (map (\<lambda>a. ''_t'' @ show_nat a) (fi_arguments f)) = concat (map (\<lambda>a. ''_t'' @ show_nat a) (fi_arguments g))"
    unfolding mangle_function_instance_def by (auto dest!: mangle_declaration_cancel)
  moreover have "fi_arguments f = fi_arguments g"
    using arg_cong [OF eq, of numbers] by (simp only: numbers_arguments)
  ultimately show "fi_declaration f = fi_declaration g \<and> fi_arguments f = fi_arguments g" by blast
qed (simp add: mangle_function_instance_def)

text \<open>The type a method is instantiated for is not part of its symbol.\<close>

lemma self_type_not_mangled:
  "mangle_function_instance r (f\<lparr>fi_self_type := s\<rparr>) = mangle_function_instance r f"
  by (simp add: mangle_function_instance_def)

text \<open>Nor is the function that updates the value of a mutex part of the name of the helper that calls it.\<close>

lemma mutex_update_entry_not_named:
  "standard_call_name (StdMutexUpdate m v c entry k) = standard_call_name (StdMutexUpdate m v c entry' k')"
  by simp

subsection \<open>Identifiers\<close>

lemma identifier_letters: "\<forall>c \<in> set ''abcdefghijklmnopqrstuvwxyz_''. is_identifier_char c"
  by (simp add: is_identifier_char_def)

lemmas identifier_letter = identifier_letters [simplified ball_simps list.set insert_iff, simplified]

lemma hex_is_identifier: "is_hex c \<Longrightarrow> is_identifier_char c"
  by (auto simp: is_hex_def is_digit_def is_identifier_char_def Let_def)

lemma identifier_hex: "list_all is_identifier_char (hex_digits k n)"
  using hex_digits_are_hex [of k n] by (rule list.pred_mono_strong) (rule hex_is_identifier)

lemma identifier_number: "list_all is_identifier_char (show_nat n)"
  using show_nat_digits by (auto simp: list_all_iff is_digit_def is_identifier_char_def Let_def)

lemma identifier_cleaned: "list_all is_identifier_char (c_identifier s)"
  by (auto simp: c_identifier_def list_all_iff identifier_letter)

lemma identifier_arguments: "list_all is_identifier_char (concat (map (\<lambda>a. ''_t'' @ show_nat a) xs))"
  by (induction xs) (simp_all add: identifier_letter identifier_number)

lemma mangled_identifier: "list_all is_identifier_char (mangle_function_instance r f)"
  using identifier_arguments [of "fi_arguments f"]
  by (simp add: mangle_function_instance_def mangle_declaration_def Let_def identifier_letter identifier_number
      identifier_hex identifier_cleaned)

subsection \<open>Symbols and helpers\<close>

lemma not_hex_characters: "\<forall>c \<in> set ''ghijklmnopqrstuvwxyz_''. \<not> is_hex c"
  by (simp add: is_hex_def is_digit_def)

lemmas not_hex = not_hex_characters [simplified ball_simps list.set insert_iff, simplified]

definition hashed :: "string \<Rightarrow> bool" where
  "hashed s \<longleftrightarrow> take 4 s = ''el_p'' \<and> list_all is_hex (take 2 (drop 4 s))"

lemma hashed_Cons:
  "hashed (a # b # c # d # s) \<longleftrightarrow> [a, b, c, d] = ''el_p'' \<and> list_all is_hex (take 2 s)"
  by (simp add: hashed_def)

lemma mangled_hashed: "hashed (mangle_function_instance r f)"
  using hex_digits_are_hex [of 16]
  by (auto simp: hashed_def mangle_function_instance_def mangle_declaration_def Let_def list_all_iff dest: in_set_takeD)

lemma call_not_hashed: "\<not> hashed (standard_call_name c)"
proof (cases c)
  case (StdText op t u)
  then show ?thesis by (simp add: hashed_Cons)
next
  case (StdSystem op t)
  then show ?thesis by (cases op) (simp_all add: system_operation_name_def hashed_Cons not_hex numeral_2_eq_2)
qed (simp_all add: hashed_Cons not_hex numeral_2_eq_2)

lemma alternative_not_hashed: "known_name (CAlternative a t u) \<Longrightarrow> \<not> hashed (c_name_text (CAlternative a t u))"
  using known_alternative(1) [of a t u]
  by (auto simp: standard_alternatives_def alternative_names_def numeric_alternative_name_def hashed_Cons)

lemma conversion_not_hashed: "\<not> hashed (numeric_conversion_name oc t u)"
  by (cases oc) (simp_all add: numeric_conversion_name_def conversion_stem_def hashed_Cons)

lemma name_not_hashed: "known_name x \<Longrightarrow> \<not> hashed (c_name_text x)"
  by (cases x)
    (use alternative_not_hashed in \<open>auto simp: call_not_hashed conversion_not_hashed struct_name_def enum_name_def
      slice_name_def function_type_name_def closure_name_def concatenate_name_def pointer_check_name_def
      variadic_slice_name_def tuple_name_def array_name_def collection_type_name_def equality_helper_name_def
      ordering_helper_name_def hash_helper_name_def default_helper_name_def object_name_def vtable_type_name_def
      vtable_instance_name_def thunk_name_def hashed_Cons\<close>)

text \<open>
  C39: The symbol of a function is a C identifier and is never the name of a type or helper of the backend.
\<close>

theorem symbols_apart:
  assumes "known_name x"
  shows "mangle_function_instance r f \<noteq> c_name_text x \<and> list_all is_identifier_char (mangle_function_instance r f)"
  using name_not_hashed [OF assms] mangled_hashed [of r f] mangled_identifier by metis

lemma symbols_apart_witness:
  "mangle_function_instance \<lparr>rn_package = \<lambda>d. None, rn_name = \<lambda>d. ''main''\<rparr>
       \<lparr>fi_declaration = 0, fi_arguments = [], fi_self_type = None\<rparr> \<noteq> c_name_text (CCall StdPanic)
   \<and> list_all is_identifier_char (mangle_function_instance \<lparr>rn_package = \<lambda>d. None, rn_name = \<lambda>d. ''main''\<rparr>
       \<lparr>fi_declaration = 0, fi_arguments = [], fi_self_type = None\<rparr>)"
  by (rule symbols_apart) (simp add: known_name_def)

end
