(* ===== verification/Backend_Literals.thy ===== *)
theory Backend_Literals
  imports Backend_Names
begin

text \<open>
  The literals and comments of the generated C, read as a C99 compiler reads them: trigraphs are replaced first, then the
  escape sequences of a literal give its bytes, and a comment lasts to the first \<^verbatim>\<open>*/\<close>.
\<close>

section \<open>How C reads a literal\<close>

definition trigraph :: "char \<Rightarrow> char option" where
  "trigraph c =
     map_of [(CHR ''='', CHR ''#''), (CHR ''('', CHR ''[''), (CHR ''/'', CHR 0x5C), (CHR '')'', CHR '']''),
       (CHR 0x27, CHR ''^''), (CHR ''<'', CHR ''{''), (CHR ''!'', CHR ''|''), (CHR ''>'', CHR ''}''), (CHR ''-'', CHR ''~'')] c"

fun replace_trigraphs :: "string \<Rightarrow> string" where
  "replace_trigraphs (a # b # c # s) =
     (if a = CHR ''?'' \<and> b = CHR ''?'' \<and> trigraph c \<noteq> None then the (trigraph c) # replace_trigraphs s
      else a # replace_trigraphs (b # c # s))"
| "replace_trigraphs s = s"

fun has_trigraph :: "string \<Rightarrow> bool" where
  "has_trigraph (a # b # c # s) \<longleftrightarrow>
     a = CHR ''?'' \<and> b = CHR ''?'' \<and> trigraph c \<noteq> None \<or> has_trigraph (b # c # s)"
| "has_trigraph s \<longleftrightarrow> False"

definition simple_escape :: "char \<Rightarrow> char option" where
  "simple_escape c =
     map_of [(CHR 0x5C, CHR 0x5C), (CHR 0x22, CHR 0x22), (CHR 0x27, CHR 0x27), (CHR ''?'', CHR ''?''), (CHR ''n'', CHR 0x0A),
       (CHR ''r'', CHR 0x0D), (CHR ''t'', CHR 0x09), (CHR ''a'', CHR 0x07), (CHR ''b'', CHR 0x08), (CHR ''f'', CHR 0x0C),
       (CHR ''v'', CHR 0x0B)] c"

definition is_octal :: "char \<Rightarrow> bool" where
  "is_octal c \<longleftrightarrow> 48 \<le> (of_char c :: nat) \<and> (of_char c :: nat) \<le> 55"

definition octal_value :: "string \<Rightarrow> nat" where
  "octal_value ds = foldl (\<lambda>n c. 8 * n + (of_char c - 48)) 0 ds"

text \<open>What follows the opening quote, up to the closing one; \<open>None\<close> for what is not a literal\<close>

fun literal_body :: "string \<Rightarrow> string option" where
  "literal_body [] = None"
| "literal_body (c # s) =
     (if c = CHR 0x22 then (if s = [] then Some [] else None)
      else if c = CHR 0x0A then None
      else if c = CHR 0x5C then
        (case s of
           [] \<Rightarrow> None
         | d # s' \<Rightarrow>
             (case simple_escape d of
                Some v \<Rightarrow> map_option (Cons v) (literal_body s')
              | None \<Rightarrow>
                  (let ds = takeWhile is_octal (take 3 s) in
                   if ds = [] then None
                   else map_option (Cons (char_of (octal_value ds))) (literal_body (drop (length ds) s)))))
      else map_option (Cons c) (literal_body s))"

definition literal_value :: "string \<Rightarrow> string option" where
  "literal_value text =
     (case replace_trigraphs text of [] \<Rightarrow> None | c # s \<Rightarrow> if c = CHR 0x22 then literal_body s else None)"

section \<open>Trigraphs of a literal\<close>

lemma no_trigraph: "\<not> has_trigraph s \<Longrightarrow> replace_trigraphs s = s"
  by (induction s rule: replace_trigraphs.induct) auto

lemma has_trigraph_skip: "a \<noteq> CHR ''?'' \<Longrightarrow> has_trigraph (a # s) = has_trigraph s"
  by (cases s; cases "tl s") auto

lemma digit_char_not_question: "d < 10 \<Longrightarrow> digit_char d \<noteq> CHR ''?''"
  by (auto simp: digit_char_def dest!: arg_cong [of _ _ "of_char :: char \<Rightarrow> nat"])

lemma of_char_bound: "(of_char c :: nat) < 256"
  using of_char_mod_256 [of c, where 'a = nat] by (metis mod_less_divisor zero_less_numeral)

lemma octal_small: "n < 256 \<Longrightarrow> n div 64 < (8::nat)" "n div 8 mod 8 < (8::nat)" "n mod 8 < (8::nat)"
  by (simp_all add: less_mult_imp_div_less)

text \<open>A byte is written as itself, or as a backslash and characters that begin no trigraph.\<close>

definition written_plain :: "char \<Rightarrow> bool" where
  "written_plain c \<longleftrightarrow> c \<noteq> CHR 0x5C \<and> c \<noteq> CHR 0x22 \<and> 32 \<le> (of_char c :: nat) \<and> (of_char c :: nat) \<le> 126"

lemma escape_plain: "written_plain c \<Longrightarrow> escape_byte c = [c]"
  by (auto simp: written_plain_def escape_byte_def)

lemma escape_octal:
  "\<not> written_plain c \<Longrightarrow>
   c = CHR 0x5C \<or> c = CHR 0x22 \<or> c = CHR 0x0A \<or> c = CHR 0x0D \<or> c = CHR 0x09 \<or> escape_byte c = octal_escape (of_char c)"
  by (auto simp: written_plain_def escape_byte_def)

lemma escape_other:
  assumes "\<not> written_plain c"
  shows "\<exists>e. escape_byte c = CHR 0x5C # e \<and> CHR ''?'' \<notin> set e"
proof -
  have "CHR ''?'' \<notin> set [digit_char (of_char c div 64), digit_char (of_char c div 8 mod 8), digit_char (of_char c mod 8)]"
    using octal_small(1) [OF of_char_bound [of c]] octal_small(2,3) [of "of_char c"]
    by (simp add: digit_char_not_question [THEN not_sym])
  then have octal: "escape_byte c = octal_escape (of_char c) \<Longrightarrow> ?thesis" by (simp add: octal_escape_def)
  from escape_octal [OF assms] show ?thesis by (elim disjE) (simp add: escape_byte_def, simp add: escape_byte_def, simp add: escape_byte_def,
      simp add: escape_byte_def, simp add: escape_byte_def, rule octal)
qed

lemma question_plain: "written_plain (CHR ''?'')"
  by (simp add: written_plain_def)

lemma trigraph_plain: "trigraph c \<noteq> None \<Longrightarrow> written_plain c"
  by (auto simp: trigraph_def written_plain_def split: if_splits)

lemma trigraph_backslash: "trigraph (CHR 0x5C) = None" "trigraph (CHR 0x22) = None"
  by (simp_all add: trigraph_def)

lemma has_trigraph_skip_all: "CHR ''?'' \<notin> set e \<Longrightarrow> has_trigraph (e @ s) = has_trigraph s"
  by (induction e) (auto simp: has_trigraph_skip)

text \<open>The first character of a written text, and the first two, when they matter to a trigraph\<close>

definition written :: "string \<Rightarrow> string" where
  "written v = concat (map escape_byte v) @ [CHR 0x22]"

lemma written_simps: "written [] = [CHR 0x22]" "written_plain c \<Longrightarrow> written (c # v) = c # written v"
    "\<not> written_plain c \<Longrightarrow> \<exists>e. written (c # v) = CHR 0x5C # e @ written v \<and> CHR ''?'' \<notin> set e"
  using escape_other [of c] by (auto simp: written_def escape_plain)

definition opens_trigraph :: "string \<Rightarrow> bool" where
  "opens_trigraph s \<longleftrightarrow> (case s of b # c # _ \<Rightarrow> b = CHR ''?'' \<and> trigraph c \<noteq> None | _ \<Rightarrow> False)"

lemma has_trigraph_Cons: "has_trigraph (a # s) \<longleftrightarrow> a = CHR ''?'' \<and> opens_trigraph s \<or> has_trigraph s"
  by (cases s; cases "tl s") (auto simp: opens_trigraph_def split: list.split)

lemma starts_trigraph: "opens_trigraph (CHR ''?'' # s) \<longleftrightarrow> s \<noteq> [] \<and> trigraph (hd s) \<noteq> None"
  by (cases s) (simp_all add: opens_trigraph_def)

lemma written_trigraph: "written v \<noteq> [] \<and> trigraph (hd (written v)) \<noteq> None \<longleftrightarrow> v \<noteq> [] \<and> trigraph (hd v) \<noteq> None"
proof (cases v)
  case (Cons c w)
  then show ?thesis
    using written_simps(2,3) [of c w] trigraph_plain [of c] by (cases "written_plain c") (auto simp: trigraph_backslash)
qed (simp add: written_simps trigraph_backslash)

lemma written_opens: "opens_trigraph (written v) \<longleftrightarrow> opens_trigraph v"
proof (cases v)
  case (Cons c w)
  show ?thesis
  proof (cases "c = CHR ''?''")
    case True
    then show ?thesis
      using Cons question_plain written_trigraph [of w] by (simp add: written_simps starts_trigraph)
  next
    case False
    then show ?thesis
      using Cons written_simps(2,3) [of c w] by (cases "written_plain c") (auto simp: opens_trigraph_def split: list.splits)
  qed
qed (simp add: written_simps opens_trigraph_def)

lemma trigraph_written: "has_trigraph (written v) = has_trigraph v"
proof (induction v)
  case (Cons c v)
  show ?case
  proof (cases "written_plain c")
    case True
    then show ?thesis using Cons by (simp add: written_simps has_trigraph_Cons written_opens)
  next
    case False
    then obtain e where "written (c # v) = CHR 0x5C # e @ written v" "CHR ''?'' \<notin> set e" using written_simps(3) by blast
    moreover have "c \<noteq> CHR ''?''" using False question_plain by auto
    ultimately show ?thesis using Cons by (simp add: has_trigraph_skip has_trigraph_skip_all)
  qed
qed (simp add: written_simps)

section \<open>Escapes of a literal\<close>

lemma octal_digit: "d < 8 \<Longrightarrow> is_octal (digit_char d) \<and> simple_escape (digit_char d) = None"
  by (auto simp: is_octal_def of_digit_char simple_escape_def digit_char_def dest!: arg_cong [of _ _ "of_char :: char \<Rightarrow> nat"]
      split: if_splits)

lemma octal_sum: "8 * (8 * (n div 64) + n div 8 mod 8) + n mod 8 = (n::nat)"
proof -
  have "8 * (n div 64) + n div 8 mod 8 = n div 8" using mult_div_mod_eq [of 8 "n div 8"] by (simp add: div_mult2_eq [symmetric])
  then show ?thesis by simp
qed

lemma octal_read:
  assumes "n < 256"
  shows "literal_body (octal_escape n @ s) = map_option (Cons (char_of n)) (literal_body s)"
proof -
  let ?ds = "[digit_char (n div 64), digit_char (n div 8 mod 8), digit_char (n mod 8)]"
  have d: "is_octal (digit_char (n div 64))" "is_octal (digit_char (n div 8 mod 8))" "is_octal (digit_char (n mod 8))"
    and e: "simple_escape (digit_char (n div 64)) = None"
    using octal_small [of n] assms octal_digit by simp_all
  have "takeWhile is_octal (take 3 (?ds @ s)) = ?ds" using d by (simp add: numeral_3_eq_3)
  moreover have "octal_value ?ds = n"
    using octal_small [of n] octal_sum [of n] assms by (simp add: octal_value_def of_digit_char)
  ultimately show ?thesis using e by (simp add: octal_escape_def)
qed

lemma literal_body_escape: "literal_body (escape_byte c @ s) = map_option (Cons c) (literal_body s)"
proof (cases "written_plain c")
  case True
  then show ?thesis by (auto simp: escape_plain written_plain_def)
next
  case False
  from escape_octal [OF False] show ?thesis
    using octal_read [OF of_char_bound [of c], of s]
    by (elim disjE) (simp_all add: escape_byte_def simple_escape_def)
qed

lemma literal_body_written: "literal_body (written v) = Some v"
  by (induction v) (simp_all add: written_def literal_body_escape)

text \<open>
  C40: A C99 compiler reads the literal of a text without trigraphs as the bytes of the text.
\<close>

theorem c_string_denotes:
  assumes "\<not> has_trigraph v"
  shows "literal_value (c_string v) = Some v"
proof -
  have c: "c_string v = CHR 0x22 # written v" by (simp add: c_string_def written_def)
  have "\<not> has_trigraph (c_string v)" using assms by (simp add: c has_trigraph_skip trigraph_written)
  then show ?thesis by (simp add: literal_value_def no_trigraph c literal_body_written)
qed

lemma c_string_denotes_witness: "literal_value (c_string [CHR ''a'', CHR 0x22, CHR 0x5C, CHR 0x0A, CHR 0xC3, CHR ''7'']) = Some [CHR ''a'', CHR 0x22, CHR 0x5C, CHR 0x0A, CHR 0xC3, CHR ''7'']"
  by (rule c_string_denotes) code_simp

text \<open>A trigraph changes what the literal denotes.\<close>

lemma c_string_trigraph: "literal_value (c_string ''what??!'') = Some ''what|''"
  by code_simp

section \<open>Comments\<close>

fun has_close :: "string \<Rightarrow> bool" where
  "has_close (a # b # s) \<longleftrightarrow> a = CHR ''*'' \<and> b = CHR ''/'' \<or> has_close (b # s)"
| "has_close s \<longleftrightarrow> False"

lemma replace_close_head: "hd (replace_close (b # s)) = b" "replace_close (b # s) \<noteq> []"
  by (cases s; simp)+

lemma has_close_Cons: "has_close (a # s) \<longleftrightarrow> a = CHR ''*'' \<and> s \<noteq> [] \<and> hd s = CHR ''/'' \<or> has_close s"
  by (cases s) auto

lemma replace_close_closed: "\<not> has_close (replace_close s)"
  by (induction s rule: replace_close.induct) (auto simp: has_close_Cons replace_close_head)

lemma has_close_map: "has_close (map (\<lambda>c. if c = CHR 0x0A then CHR 0x20 else c) s) = has_close s"
  by (induction s) (auto simp: has_close_Cons hd_map split: if_splits)

text \<open>
  Text placed in a comment neither ends the comment nor starts a new line.
\<close>

theorem comment_stays_open: "\<not> has_close (c_comment v) \<and> CHR 0x0A \<notin> set (c_comment v)"
  using replace_close_closed by (auto simp: c_comment_def has_close_map)

end
