(* ===== verification/Spec2Isabelle.thy ===== *)
theory Spec2Isabelle
  imports Syntax_Tree Scheduler_Theorems Type_Theorems Ownership_Theorems Ownership_Examples Move_Examples Parser_Precedence Backend_Symbols Backend_Literals
begin

text \<open>
  A verification development for the Elamite compiler (\<^verbatim>\<open>src/\<close>, Rust), which translates indentation-structured
  source files to C.

  \<^bold>\<open>The program.\<close> A source manager (\<^verbatim>\<open>source.rs\<close>) hands texts to the lexer (\<^verbatim>\<open>lexer.rs\<close>), whose tokens
  (\<^verbatim>\<open>syntax.rs\<close>, \<^verbatim>\<open>ident.rs\<close>) go to the parser (\<^verbatim>\<open>parser.rs\<close>), which builds a lossless syntax tree and reports
  diagnostics (\<^verbatim>\<open>diagnostics.rs\<close>). Macro expansion reads the same tokens as token trees (\<^verbatim>\<open>expansion/token_tree.rs\<close>),
  gives every token an origin (\<^verbatim>\<open>expansion/provenance.rs\<close>) and orders its work by a scheduler under resource limits
  (\<^verbatim>\<open>expansion/scheduler.rs\<close>). The checker works on types interned in an arena (\<^verbatim>\<open>types/context.rs\<close>), answers what a
  type may do with its values (\<^verbatim>\<open>types/ownership.rs\<close>, in the vocabulary of \<^verbatim>\<open>operations.rs\<close>), and rejects functions
  of the typed IR (\<^verbatim>\<open>ir/typed/model.rs\<close>) that use storage that is moved or not initialized (\<^verbatim>\<open>check/moves.rs\<close>).
  The backend names what it generates and writes texts as C literals (\<^verbatim>\<open>backend/names.rs\<close>, mangling in \<^verbatim>\<open>backend/mod.rs\<close>).

  \<^bold>\<open>Theories.\<close> Each component has a model and, after it, its specification and proofs. Definitions keep the names of
  the code; constructors carry a prefix where Rust's enum name qualifies them.

  \<^item> \<open>Prelude\<close>: lists, vectors, decimal printing, UTF-8 helpers and the collections shared by all. \<open>Ordered_Map\<close>: the
    \<open>BTreeMap\<close>s that analyses iterate over.
  \<^item> \<open>Source_Text\<close>, \<open>Diagnostics\<close>, \<open>Tokens\<close>, \<open>Syntax_Tree\<close>: files, spans and positions, diagnostics, tokens, nodes.
  \<^item> \<open>Lexer_State\<close>, \<open>Lexer_Tokens\<close>, \<open>Lexer\<close>: \<open>struct Lexer\<close> as a record, its scanners, the loops over lines and tokens.
    \<open>Lexer_Contract\<close> states what a scanner promises the token loop (locale \<open>token_scanner\<close>, interpreted by every scanner);
    \<open>Lexer_Correct\<close> and \<open>Lexer_Runs\<close> carry the invariant through a file; \<open>Lexer_Theorems\<close> holds the properties.
  \<^item> \<open>Parser_State\<close>, \<open>Parser_Syntax\<close>, \<open>Parser_Expressions\<close>, \<open>Parser_Items\<close>: the parser as a record, its primitive steps,
    types, patterns, expressions, statements and declarations, and the entry points for files, fragments and quotes. A
    production takes the parser of the recursive nonterminals as an argument; \<open>productions_at\<close> ties the knot up to a depth.
    \<open>Parser_Contract\<close> states what a step promises (it returns, and pushes exactly the tokens it passes) with one rule per
    combinator; \<open>Parser_Steps\<close>, \<open>Parser_Symbols\<close>, \<open>Parser_Statements\<close>, \<open>Parser_Declarations\<close> prove it of every production;
    \<open>Parser_Total\<close> closes the recursion; \<open>Parser_Theorems\<close> and \<open>Parser_Precedence\<close> hold the properties.
  \<^item> \<open>Provenance\<close> (locale \<open>append_only\<close>, interpreted by the three registries), \<open>Token_Tree\<close>, \<open>Resources\<close>, \<open>Scheduler\<close>
    with \<open>Scheduler_Correct\<close>, \<open>Scheduler_Run\<close>, \<open>Scheduler_Theorems\<close>: macro expansion up to the executor of a macro, which
    is a parameter.
  \<^item> \<open>Type_Context\<close> (the arena and its operations), \<open>Type_Arena\<close>, \<open>Type_Shapes\<close>, \<open>Type_Unify\<close>, \<open>Type_Build\<close>,
    \<open>Type_Theorems\<close>: an arena as an acyclic graph, the tree a type denotes, equality and unification against those trees.
  \<^item> \<open>Ownership\<close>, \<open>Standard_Calls\<close>, \<open>Ownership_Theorems\<close>: capabilities, places and their overlap, standard operations.
    \<open>Ownership_Query\<close>, \<open>Ownership_Exact\<close>, \<open>Ownership_Examples\<close>: the query for the facts of a type and the equations it solves.
  \<^item> \<open>Typed_Ir\<close>: expressions, places, patterns and statements of the typed IR.
  \<^item> \<open>Move_State\<close>, \<open>Move_Join\<close> (locale \<open>place_states\<close>), \<open>Move_Check\<close>: the trees of transitions and the analysis.
    \<open>Move_Paths\<close> defines the executions of a body and when one touches uninitialized storage; \<open>Move_Contract\<close> to
    \<open>Move_Statements\<close> carry the contract through visits, patterns, branches and loops, \<open>Move_Total\<close> without the
    executions through code with any guards; \<open>Move_Theorems\<close>, \<open>Move_Examples\<close>: the properties and concrete functions.
  \<^item> \<open>Backend_Names\<close>: the names of types, helpers, functions and locals of the generated C, and its literals and comments.
    \<open>Backend_Unique\<close> reads a name back as its text without digits and its numbers; \<open>Backend_Symbols\<close> does so for mangled
    functions; \<open>Backend_Literals\<close> reads literals and comments as C99 does.

  \<^bold>\<open>What is shown.\<close>

  \<^item> Lexer: layout tokens nest, delimiters are balanced unless reported, spans are ordered and inside the text, tokens spell
    the text they cover, numbers accepted are literals of the grammar, escapes are read back, symbols are the longest.
  \<^item> Parser: every token stream of the lexer without a module marked \<open>unsafe\<close> gets a tree that holds exactly its tokens,
    in order; expressions derive from the documented precedence table; an accepted fragment holds all its tokens; a module
    marked \<open>unsafe\<close> at the start of a file is never parsed, which is a bug of the code.
  \<^item> Expansion: token trees flatten to the tokens they came from, traces return with the sources and the expansions of a token,
    identities are unique and stable, a run of the scheduler settles all work and respects prerequisites, and the budgets
    hold of the executions and outputs of its history (\<open>history\<close>), not only of the counters.
  \<^item> Types: arenas stay hash-consed and acyclic, unification returns and is sound, up to the error type that matches
    any tree, and most general, for aliases that use their parameters; equality is equality of denoted trees, substitution is
    homomorphic.
  \<^item> Ownership: the query for the facts of a type solves its equations when the type does not contain itself; for types that
    do, its answers depend on the order of the queries, which is a bug of the code. Places called disjoint share no storage when
    they go through the same pointers.
  \<^item> Moves: no execution of an accepted function whose guards move nothing reads, borrows or moves storage that is not
    initialized; without a report both kinds of loop are stable after two rounds; the searches return on all code; every
    access that may read data of a moved place is refused; two behaviours the language specification does not allow are
    exhibited.
  \<^item> Backend: names of types and helpers are equal exactly for the same operation and printed indices, symbols only for the same
    declaration and arguments, and the two never meet; a literal denotes its text when that has no trigraph. What the names
    leave out (the type a default body is instantiated for, the function a mutex update calls) and trigraphs are bugs.

  \<^bold>\<open>Representation.\<close> \<open>&str\<close> is a list of bytes; \<open>u32\<close> positions saturate as the code's conversions do; indices and
  counters of type \<open>usize\<close> are \<open>nat\<close>. Errors, panics and aborting asserts are \<open>None\<close> or \<open>Inl\<close>. \<open>HashMap\<close> and \<open>BTreeMap\<close>
  are maps or sorted association lists, by whether the code iterates over them.

  \<^bold>\<open>Bounds and fuel.\<close> A loop or recursion whose end is not structural carries a bound, and a theorem says the bound never
  decides: unification needs twice the size of the arena, substitution and type names its size; the run of the scheduler
  the execution budget; the search for an unavailable part the depth of a type, for types of finite size; a loop of the move
  checker two rounds, while nothing is reported, of the bound the code computes from its places; the facts of a type some depth, for types of finite size;
  a loop of the parser the tokens that remain, and its recursion three levels for each token and two more
  (\<open>enough_fuel\<close>), since every third level passes a token.

  \<^bold>\<open>Parameters.\<close> The executor of macros; the declarations, field types and facts the move checker asks the program for;
  the declarations the ownership query reads. The fields of a nominal type are given to it with their type arguments already
  substituted. In the move analysis deferred bodies are checked where they are registered, as in the code, and are not part
  of the executions; a guard that moves is excluded from the safety theorem, because of the behaviour shown.

  \<^bold>\<open>Not modelled.\<close> The compile-time interpreter and the engine above the scheduler (\<^verbatim>\<open>expansion/engine.rs\<close>,
  \<^verbatim>\<open>interpreter.rs\<close>, \<^verbatim>\<open>ast.rs\<close>), name resolution (\<^verbatim>\<open>resolution/\<close>), the checking of expressions, borrows and patterns
  (\<^verbatim>\<open>check/\<close> but for moves), lowering (\<^verbatim>\<open>ir/*/lower.rs\<close>) and the C backend (\<^verbatim>\<open>backend/\<close> but for names): each is as large as all that is
  modelled here and rests on the parts before it. The formatter, packages and manifests, the command line and the driver are
  text layout, file-system access and process control. Dumps for tests print with Rust's derived \<open>Debug\<close>.
\<close>

end
